(* ===== verification/TK_Prelude.thy ===== *)
theory TK_Prelude
  imports
    Main
    "HOL-Library.AList"
    "HOL-Library.Char_ord"
    "HOL-Library.List_Lexorder"
begin

text \<open>
  Shared vocabulary of the development.

  \<^item> Instants are \<open>time\<close>, the number of microseconds since the epoch of a timezone-aware
    Python \<open>datetime\<close> (microseconds are the resolution of \<open>datetime\<close>), and a
    \<open>timedelta\<close> is a difference of instants.
  \<^item> A Python \<open>dict\<close> is an association list with distinct keys in insertion order:
    \<^const>\<open>AList.update\<close> keeps the place of a key that is already there and appends a new
    one, \<^const>\<open>AList.delete\<close> removes a key, \<^const>\<open>map_of\<close> reads.
  \<^item> A raised exception is the left summand of a sum type.
  \<^item> The locale \<open>named_registry\<close> is the contract that every registry of the runtime
    offers its clients: unique registration, typed lookup errors and a listing whose order
    does not depend on the order of registration.
\<close>

named_theorems inv_intros \<open>preservation of component invariants\<close>
named_theorems dict_simps \<open>facts on dictionaries as association lists\<close>

type_synonym time = int
type_synonym ('k, 'v) dict = "('k \<times> 'v) list"

subsection \<open>Durations\<close>

definition one_second :: int where
  "one_second = 1000000"

definition one_minute :: int where
  "one_minute = 60 * one_second"

text \<open>The first and the last instant that a datetime can represent (years 1 to 9999).\<close>

definition min_instant :: time where
  "min_instant = - 62135596800000000"

definition max_instant :: time where
  "max_instant = 253402300799999999"

lemma one_second_pos [simp]: "0 < one_second"
  by (simp add: one_second_def)

lemma one_minute_pos [simp]: "0 < one_minute"
  by (simp add: one_minute_def)

lemma one_second_le_minute [simp]: "one_second \<le> one_minute"
  by (simp add: one_minute_def one_second_def)

subsection \<open>Truthiness of optional strings\<close>

text \<open>The Python expression \<open>reason or default\<close> for an optional string.\<close>

definition str_or :: "string option \<Rightarrow> string \<Rightarrow> string" where
  "str_or s d = (case s of None \<Rightarrow> d | Some x \<Rightarrow> if x = '''' then d else x)"

lemma str_or_simps [simp]:
  "str_or None d = d"
  "str_or (Some '''') d = d"
  "x \<noteq> '''' \<Longrightarrow> str_or (Some x) d = x"
  by (simp_all add: str_or_def)

subsection \<open>Dictionaries\<close>

abbreviation dict_ok :: "('k, 'v) dict \<Rightarrow> bool" where
  "dict_ok d \<equiv> distinct (map fst d)"

definition dict_get :: "('k, 'v) dict \<Rightarrow> 'k \<Rightarrow> 'v \<Rightarrow> 'v" where
  "dict_get d k v = (case map_of d k of None \<Rightarrow> v | Some x \<Rightarrow> x)"

lemma map_of_update [dict_simps, simp]:
  "map_of (AList.update k v d) = (map_of d)(k \<mapsto> v)"
  by (rule update_conv')

lemma map_of_delete [dict_simps, simp]:
  "map_of (AList.delete k d) = (map_of d)(k := None)"
  by (rule delete_conv')

lemma dict_ok_update [dict_simps, simp, intro]:
  "dict_ok d \<Longrightarrow> dict_ok (AList.update k v d)"
  by (rule distinct_update)

lemma dict_ok_delete [dict_simps, simp, intro]:
  "dict_ok d \<Longrightarrow> dict_ok (AList.delete k d)"
  by (rule distinct_delete)

lemma update_fresh: "map_of d k = None \<Longrightarrow> AList.update k v d = d @ [(k, v)]"
  by (induction d) (auto split: if_splits)

lemma map_of_eq_None_iff_fst: "(map_of d k = None) = (k \<notin> fst ` set d)"
  by (rule map_of_eq_None_iff)

lemma set_map_fst_dom: "set (map fst d) = dom (map_of d)"
  by (simp add: dom_map_of_conv_image_fst)

lemma dict_get_update [dict_simps, simp]:
  "dict_get (AList.update k v d) k' w = (if k' = k then v else dict_get d k' w)"
  by (simp add: dict_get_def)

lemma dict_get_delete [dict_simps, simp]:
  "dict_get (AList.delete k d) k' w = (if k' = k then w else dict_get d k' w)"
  by (simp add: dict_get_def)

lemma dict_get_Nil [simp]: "dict_get [] k v = v"
  by (simp add: dict_get_def)

text \<open>\<open>[d[name] for name in sorted(d)]\<close>: the values in key order.\<close>

definition sorted_keys :: "('k::linorder, 'v) dict \<Rightarrow> 'k list" where
  "sorted_keys d = sort (map fst d)"

definition sorted_values :: "('k::linorder, 'v) dict \<Rightarrow> 'v list" where
  "sorted_values d = map (\<lambda>k. the (map_of d k)) (sorted_keys d)"

lemma sorted_keys_props:
  assumes "dict_ok d"
  shows "sorted (sorted_keys d)" and "distinct (sorted_keys d)"
    and "set (sorted_keys d) = dom (map_of d)"
  using assms by (auto simp: sorted_keys_def dom_map_of_conv_image_fst)

lemma sorted_keys_cong:
  assumes "dict_ok d" "dict_ok d'" "dom (map_of d) = dom (map_of d')"
  shows "sorted_keys d = sorted_keys d'"
  using sorted_keys_props [OF assms(1)] sorted_keys_props [OF assms(2)] assms(3)
  by (intro sorted_distinct_set_unique) simp_all

lemma sorted_values_cong:
  assumes "dict_ok d" "dict_ok d'" "map_of d = map_of d'"
  shows "sorted_values d = sorted_values d'"
  using sorted_keys_cong [OF assms(1,2)] assms(3) by (simp add: sorted_values_def)

lemma set_sorted_values:
  assumes "dict_ok d"
  shows "set (sorted_values d) = ran (map_of d)"
proof -
  have "set (sorted_values d) = (\<lambda>k. the (map_of d k)) ` dom (map_of d)"
    using sorted_keys_props(3) [OF assms] by (simp add: sorted_values_def)
  also have "\<dots> = ran (map_of d)"
    by (auto simp: ran_def image_iff) (metis domI option.sel)
  finally show ?thesis .
qed

lemma length_sorted_values [simp]: "length (sorted_values d) = length d"
  by (simp add: sorted_values_def sorted_keys_def)

lemma map_key_sorted_values:
  assumes "\<And>k v. map_of d k = Some v \<Longrightarrow> key v = k" and "dict_ok d"
  shows "map key (sorted_values d) = sorted_keys d"
proof -
  have "key (the (map_of d k)) = k" if "k \<in> set (sorted_keys d)" for k
    using that assms sorted_keys_props(3) [OF assms(2)] by auto
  then show ?thesis
    by (simp add: sorted_values_def map_idI)
qed

subsection \<open>The contract of a registry\<close>

text \<open>
  \<open>view\<close> is the abstract content of a registry state. \<open>listing\<close> is the list that
  diagnostics and routers iterate over.
\<close>

locale named_registry =
  fixes inv :: "'s \<Rightarrow> bool"
    and view :: "'s \<Rightarrow> 'k::linorder \<Rightarrow> 'v option"
    and key :: "'v \<Rightarrow> 'k"
    and register :: "'v \<Rightarrow> 's \<Rightarrow> 'e + 's"
    and get :: "'k \<Rightarrow> 's \<Rightarrow> 'e + 'v"
    and listing :: "'s \<Rightarrow> 'v list"
  assumes register_fresh:
      "inv s \<Longrightarrow> view s (key v) = None \<Longrightarrow>
        \<exists>s'. register v s = Inr s' \<and> inv s' \<and> view s' = (view s)(key v \<mapsto> v)"
    and register_taken:
      "inv s \<Longrightarrow> view s (key v) \<noteq> None \<Longrightarrow> \<exists>e. register v s = Inl e"
    and get_found: "inv s \<Longrightarrow> view s k = Some v \<Longrightarrow> get k s = Inr v"
    and get_missing: "inv s \<Longrightarrow> view s k = None \<Longrightarrow> \<exists>e. get k s = Inl e"
    and listing_set: "inv s \<Longrightarrow> set (listing s) = ran (view s)"
    and listing_keys: "inv s \<Longrightarrow> sorted (map key (listing s)) \<and> distinct (map key (listing s))"
    and view_key: "inv s \<Longrightarrow> view s k = Some v \<Longrightarrow> key v = k"
begin

lemma register_Inr:
  assumes "inv s" "register v s = Inr s'"
  shows "view s (key v) = None" and "inv s'" and "view s' = (view s)(key v \<mapsto> v)"
proof -
  show none: "view s (key v) = None"
    using assms register_taken [of s v] by fastforce
  from register_fresh [OF assms(1) none] assms(2)
  show "inv s'" and "view s' = (view s)(key v \<mapsto> v)" by simp_all
qed

lemma register_get:
  assumes "inv s" "register v s = Inr s'"
  shows "get (key v) s' = Inr v"
  using register_Inr [OF assms] by (simp add: get_found)

lemma get_Inr_iff: "inv s \<Longrightarrow> get k s = Inr w \<longleftrightarrow> view s k = Some w"
proof (cases "view s k")
  case None
  then show "inv s \<Longrightarrow> ?thesis" using get_missing [of s k] by auto
next
  case (Some v)
  then show "inv s \<Longrightarrow> ?thesis" using get_found [of s k v] by auto
qed

lemma register_get_other:
  assumes "inv s" "register v s = Inr s'" "k \<noteq> key v" "get k s = Inr w"
  shows "get k s' = Inr w"
  using register_Inr [OF assms(1,2)] assms(1,3,4) by (simp add: get_Inr_iff)

lemma register_twice:
  assumes "inv s" "register v s = Inr s'" "key w = key v"
  shows "\<exists>e. register w s' = Inl e"
  using register_Inr [OF assms(1,2)] assms(3) by (simp add: register_taken)

lemma listing_unique:
  assumes "inv s" "inv s'" "view s = view s'"
  shows "listing s = listing s'"
proof (rule map_inj_on [where f = key])
  have sets: "set (listing s) = set (listing s')"
    using assms listing_set by metis
  show "map key (listing s) = map key (listing s')"
    using listing_keys [OF assms(1)] listing_keys [OF assms(2)] sets
    by (intro sorted_distinct_set_unique) simp_all
  show "inj_on key (set (listing s) \<union> set (listing s'))"
    using listing_keys [OF assms(1)] sets by (simp add: distinct_map)
qed

text \<open>
  Two registrations commute: whichever of two distinct keys is registered first, the listing
  that clients iterate over is the same.
\<close>

lemma register_commute:
  assumes "inv s" "register v s = Inr a" "register w a = Inr b"
  shows "\<exists>a' b'. register w s = Inr a' \<and> register v a' = Inr b' \<and> listing b' = listing b"
proof -
  note a = register_Inr [OF assms(1,2)]
  note b = register_Inr [OF a(2) assms(3)]
  from a b(1) have ne: "key w \<noteq> key v" and w: "view s (key w) = None"
    by (auto split: if_splits)
  from register_fresh [OF assms(1) w] obtain a' where
    a': "register w s = Inr a'" "inv a'" "view a' = (view s)(key w \<mapsto> w)" by blast
  with a(1) ne have "view a' (key v) = None" by simp
  from register_fresh [OF a'(2) this] obtain b' where
    b': "register v a' = Inr b'" "inv b'" "view b' = (view a')(key v \<mapsto> v)" by blast
  have "view b' = view b"
    using a(3) a'(3) b(3) b'(3) ne by (simp add: fun_upd_twist)
  then have "listing b' = listing b" using b'(2) b(2) by (blast intro: listing_unique)
  with a' b' show ?thesis by blast
qed

end

subsection \<open>The common implementation of a registry over a dictionary\<close>

definition dict_register :: "('v \<Rightarrow> 'k) \<Rightarrow> 'e \<Rightarrow> 'v \<Rightarrow> ('k, 'v) dict \<Rightarrow> 'e + ('k, 'v) dict" where
  "dict_register key e v d =
     (if map_of d (key v) \<noteq> None then Inl e else Inr (AList.update (key v) v d))"

definition dict_lookup :: "'e \<Rightarrow> 'k \<Rightarrow> ('k, 'v) dict \<Rightarrow> 'e + 'v" where
  "dict_lookup e k d = (case map_of d k of None \<Rightarrow> Inl e | Some v \<Rightarrow> Inr v)"

definition keyed :: "('v \<Rightarrow> 'k) \<Rightarrow> ('k, 'v) dict \<Rightarrow> bool" where
  "keyed key d \<longleftrightarrow> dict_ok d \<and> (\<forall>(k, v) \<in> set d. key v = k)"

lemma keyed_Nil [simp]: "keyed key []"
  by (simp add: keyed_def)

lemma keyed_dict_ok: "keyed key d \<Longrightarrow> dict_ok d"
  by (simp add: keyed_def)

lemma keyed_key: "keyed key d \<Longrightarrow> map_of d k = Some v \<Longrightarrow> key v = k"
  by (auto simp: keyed_def dest!: map_of_SomeD)

lemma keyed_iff:
  "keyed key d \<longleftrightarrow> dict_ok d \<and> (\<forall>k v. map_of d k = Some v \<longrightarrow> key v = k)"
  by (auto simp: keyed_def dest: map_of_SomeD)

lemma keyed_update [intro, simp]:
  "keyed key d \<Longrightarrow> key v = k \<Longrightarrow> keyed key (AList.update k v d)"
  by (auto simp: keyed_iff)

lemma keyed_delete [intro, simp]: "keyed key d \<Longrightarrow> keyed key (AList.delete k d)"
  by (auto simp: keyed_iff)

lemma keyed_listing:
  fixes d :: "('k::linorder, 'v) dict"
  assumes "keyed key d"
  shows "set (sorted_values d) = ran (map_of d)"
    and "sorted (map key (sorted_values d))" and "distinct (map key (sorted_values d))"
  using assms set_sorted_values [of d] sorted_keys_props [of d]
    map_key_sorted_values [of d key]
  by (auto simp: keyed_iff)

lemma dict_named_registry:
  fixes key :: "'v \<Rightarrow> 'k::linorder"
  assumes "\<And>v s. reg v s = dict_register key (err v) v s"
    and "\<And>k s. get k s = dict_lookup (miss k) k s"
  shows "named_registry (keyed key) map_of key reg get sorted_values"
proof unfold_locales
  fix s v assume k: "keyed key s"
  show "map_of s (key v) = None \<Longrightarrow>
      \<exists>s'. reg v s = Inr s' \<and> keyed key s' \<and> map_of s' = (map_of s)(key v \<mapsto> v)"
    using k by (simp add: assms dict_register_def)
  show "map_of s (key v) \<noteq> None \<Longrightarrow> \<exists>e. reg v s = Inl e"
    by (simp add: assms dict_register_def)
next
  fix s k v assume k: "keyed key s"
  show "map_of s k = Some v \<Longrightarrow> get k s = Inr v"
    by (simp add: assms dict_lookup_def)
  show "map_of s k = None \<Longrightarrow> \<exists>e. get k s = Inl e"
    by (simp add: assms dict_lookup_def)
  show "map_of s k = Some v \<Longrightarrow> key v = k"
    using k by (rule keyed_key)
next
  fix s assume k: "keyed key s"
  show "set (sorted_values s) = ran (map_of s)"
    using k by (rule keyed_listing)
  show "sorted (map key (sorted_values s)) \<and> distinct (map key (sorted_values s))"
    using k by (simp add: keyed_listing)
qed

subsection \<open>Lists\<close>

lemma filter_dropWhile_sorted:
  assumes "sorted xs"
  shows "filter (\<lambda>x. a < x) xs = dropWhile (\<lambda>x. x \<le> (a::'a::linorder)) xs"
  using assms
proof (induction xs)
  case (Cons x xs)
  show ?case
  proof (cases "a < x")
    case True
    with Cons.prems have "filter (\<lambda>x. a < x) xs = xs" by (auto simp: filter_id_conv)
    with True show ?thesis by simp
  next
    case False
    with Cons show ?thesis by simp
  qed
qed simp

lemma replicate_Suc_snoc: "replicate (Suc n) x = replicate n x @ [x]"
  by (simp add: replicate_append_same)

lemma sorted_dropWhile [simp]: "sorted xs \<Longrightarrow> sorted (dropWhile P xs)"
  by (induction xs) auto

lemma sorted_snoc_last:
  "sorted (xs @ [x]) \<longleftrightarrow> sorted xs \<and> (\<forall>y \<in> set xs. y \<le> (x::'a::linorder))"
  by (auto simp: sorted_append)


lemma sum_list_filter_mono:
  fixes f :: "'a \<Rightarrow> int"
  assumes "\<And>x. x \<in> set xs \<Longrightarrow> 0 \<le> f x" and "\<And>x. x \<in> set xs \<Longrightarrow> P x \<Longrightarrow> Q x"
  shows "sum_list (map f (filter P xs)) \<le> sum_list (map f (filter Q xs))"
  using assms
proof (induction xs)
  case (Cons x xs)
  then have "sum_list (map f (filter P xs)) \<le> sum_list (map f (filter Q xs))" by simp
  with Cons.prems [of x] show ?case by auto
qed simp

lemma sum_list_filter_nonneg:
  fixes f :: "'a \<Rightarrow> int"
  assumes "\<And>x. x \<in> set xs \<Longrightarrow> 0 \<le> f x"
  shows "0 \<le> sum_list (map f (filter P xs))"
  using assms by (intro sum_list_nonneg) auto

lemma length_eq_sum_list: "int (length xs) = sum_list (map (\<lambda>_. 1) xs)"
  by (induction xs) simp_all

end
