(* ===== verification/Health.thy ===== *)
theory Health
  imports TK_Prelude
begin

text \<open>
  Passive provider health (\<open>src/src/tkai/health/\<close>): immutable snapshots, the threshold
  evaluator, the registry of snapshots, the collector that turns request outcomes into
  snapshots and events, and the manager's reset. Each operation takes the instant that
  \<open>datetime.now\<close> returns inside it. The classes hold no lock: the theorems are about callers in turn.
\<close>

subsection \<open>Models\<close>

datatype health_status = HS_UNKNOWN | HS_HEALTHY | HS_DEGRADED | HS_UNHEALTHY

record health_statistics =
  st_requests :: int
  st_success :: int
  st_failure :: int
  st_timeout :: int

record health_snapshot =
  hs_provider :: string
  hs_status :: health_status
  hs_success_count :: int
  hs_failure_count :: int
  hs_timeout_count :: int
  hs_consecutive_failures :: int
  hs_last_success :: "time option"
  hs_last_failure :: "time option"
  hs_last_update :: "time option"

definition new_health_snapshot :: "string \<Rightarrow> health_snapshot" where
  "new_health_snapshot p =
     \<lparr>hs_provider = p, hs_status = HS_UNKNOWN, hs_success_count = 0, hs_failure_count = 0,
      hs_timeout_count = 0, hs_consecutive_failures = 0, hs_last_success = None,
      hs_last_failure = None, hs_last_update = None\<rparr>"

definition hs_statistics :: "health_snapshot \<Rightarrow> health_statistics" where
  "hs_statistics s =
     \<lparr>st_requests = hs_success_count s + hs_failure_count s, st_success = hs_success_count s,
      st_failure = hs_failure_count s, st_timeout = hs_timeout_count s\<rparr>"

record health_event =
  he_provider :: string
  he_event :: string
  he_old_status :: health_status
  he_new_status :: health_status
  he_timestamp :: time
  he_reason :: "string option"

subsection \<open>Evaluator\<close>

record health_thresholds =
  degraded_failures :: int
  unhealthy_failures :: int

definition default_health_thresholds :: health_thresholds where
  "default_health_thresholds = \<lparr>degraded_failures = 2, unhealthy_failures = 3\<rparr>"

definition health_evaluate :: "health_thresholds \<Rightarrow> health_snapshot \<Rightarrow> health_status" where
  "health_evaluate th s =
     (if st_requests (hs_statistics s) = 0 then HS_UNKNOWN
      else if unhealthy_failures th \<le> hs_consecutive_failures s then HS_UNHEALTHY
      else if degraded_failures th \<le> hs_consecutive_failures s then HS_DEGRADED
      else HS_HEALTHY)"

subsection \<open>Registry\<close>

type_synonym health_registry = "(string, health_snapshot) dict"

definition health_get :: "string \<Rightarrow> health_registry \<Rightarrow> health_snapshot" where
  "health_get p r = dict_get r p (new_health_snapshot p)"

definition health_list :: "health_registry \<Rightarrow> health_snapshot list" where
  "health_list r = sorted_values r"

definition health_update :: "health_snapshot \<Rightarrow> health_registry \<Rightarrow> health_registry" where
  "health_update s r = AList.update (hs_provider s) s r"

definition health_reset :: "string \<Rightarrow> health_registry \<Rightarrow> health_snapshot \<times> health_registry" where
  "health_reset p r = (let s = new_health_snapshot p in (s, health_update s r))"

definition health_clear :: "health_registry \<Rightarrow> health_registry" where
  "health_clear r = []"

subsection \<open>Collector and manager\<close>

record health_state =
  hc_registry :: health_registry
  hc_thresholds :: health_thresholds
  hc_events :: "health_event list"

definition hc_outcome_snapshot ::
  "health_thresholds \<Rightarrow> bool \<Rightarrow> bool \<Rightarrow> time \<Rightarrow> health_snapshot \<Rightarrow> health_snapshot" where
  "hc_outcome_snapshot th success timeout now old =
     (let s = old\<lparr>hs_success_count := hs_success_count old + of_bool success,
                  hs_failure_count := hs_failure_count old + of_bool (\<not> success),
                  hs_timeout_count := hs_timeout_count old + of_bool timeout,
                  hs_consecutive_failures :=
                    (if success then 0 else hs_consecutive_failures old + 1),
                  hs_last_success := (if success then Some now else hs_last_success old),
                  hs_last_failure := (if success then None else Some now),
                  hs_last_update := Some now\<rparr>
      in s\<lparr>hs_status := health_evaluate th s\<rparr>)"

definition hc_event_name :: "health_status \<Rightarrow> health_status \<Rightarrow> string" where
  "hc_event_name old new =
     (if new = HS_HEALTHY \<and> old \<noteq> HS_UNKNOWN then ''ProviderRecovered''
      else if new = HS_DEGRADED then ''ProviderDegraded''
      else if new = HS_UNHEALTHY then ''ProviderUnhealthy''
      else ''HealthChanged'')"

definition hc_record :: "string \<Rightarrow> bool \<Rightarrow> bool \<Rightarrow> time \<Rightarrow> health_state \<Rightarrow> health_state" where
  "hc_record p success timeout now st =
     (let old = health_get p (hc_registry st);
          s = hc_outcome_snapshot (hc_thresholds st) success timeout now old;
          st' = st\<lparr>hc_registry := health_update s (hc_registry st)\<rparr>
      in if hs_status old \<noteq> hs_status s
         then st'\<lparr>hc_events := hc_events st' @
                [\<lparr>he_provider = p, he_event = hc_event_name (hs_status old) (hs_status s),
                  he_old_status = hs_status old, he_new_status = hs_status s,
                  he_timestamp = now, he_reason = None\<rparr>]\<rparr>
         else st')"

definition hc_success :: "string \<Rightarrow> time \<Rightarrow> health_state \<Rightarrow> health_state" where
  "hc_success p now = hc_record p True False now"

definition hc_failure :: "string \<Rightarrow> time \<Rightarrow> health_state \<Rightarrow> health_state" where
  "hc_failure p now = hc_record p False False now"

definition hc_timeout :: "string \<Rightarrow> time \<Rightarrow> health_state \<Rightarrow> health_state" where
  "hc_timeout p now = hc_record p False True now"

definition hm_reset :: "string \<Rightarrow> time \<Rightarrow> health_state \<Rightarrow> health_state" where
  "hm_reset p now st =
     (let old = health_get p (hc_registry st)
      in st\<lparr>hc_registry := snd (health_reset p (hc_registry st)),
            hc_events := hc_events st @
              [\<lparr>he_provider = p, he_event = ''ProviderReset'', he_old_status = hs_status old,
                he_new_status = HS_UNKNOWN, he_timestamp = now, he_reason = None\<rparr>]\<rparr>)"

definition new_health_state :: "health_thresholds \<Rightarrow> health_state" where
  "new_health_state th = \<lparr>hc_registry = [], hc_thresholds = th, hc_events = []\<rparr>"

subsection \<open>Sequences of operations\<close>

datatype health_op =
    Op_success string time
  | Op_failure string time
  | Op_timeout string time
  | Op_reset string time

fun health_apply :: "health_op \<Rightarrow> health_state \<Rightarrow> health_state" where
  "health_apply (Op_success p t) st = hc_success p t st"
| "health_apply (Op_failure p t) st = hc_failure p t st"
| "health_apply (Op_timeout p t) st = hc_timeout p t st"
| "health_apply (Op_reset p t) st = hm_reset p t st"

definition health_run :: "health_op list \<Rightarrow> health_state \<Rightarrow> health_state" where
  "health_run ops st = fold health_apply ops st"

lemma health_run_simps [simp]:
  "health_run [] st = st"
  "health_run (x # xs) st = health_run xs (health_apply x st)"
  "health_run (xs @ ys) st = health_run ys (health_run xs st)"
  by (simp_all add: health_run_def)

subsection \<open>Invariant\<close>

text \<open>
  A snapshot is coherent when its counters are consistent and its status is the one the
  evaluator computes from them.
\<close>

definition health_snapshot_ok :: "health_thresholds \<Rightarrow> health_snapshot \<Rightarrow> bool" where
  "health_snapshot_ok th s \<longleftrightarrow>
     0 \<le> hs_success_count s \<and> 0 \<le> hs_timeout_count s \<and>
     hs_timeout_count s \<le> hs_failure_count s \<and>
     0 \<le> hs_consecutive_failures s \<and> hs_consecutive_failures s \<le> hs_failure_count s \<and>
     hs_status s = health_evaluate th s"

text \<open>The status that the event log reports last for a provider.\<close>

definition logged_status :: "string \<Rightarrow> health_event list \<Rightarrow> health_status" where
  "logged_status p es =
     fold (\<lambda>e s. if he_provider e = p then he_new_status e else s) es HS_UNKNOWN"

definition health_inv :: "health_state \<Rightarrow> bool" where
  "health_inv st \<longleftrightarrow>
     keyed hs_provider (hc_registry st) \<and>
     (\<forall>p. health_snapshot_ok (hc_thresholds st) (health_get p (hc_registry st))) \<and>
     (\<forall>p. logged_status p (hc_events st) = hs_status (health_get p (hc_registry st)))"

lemma health_get_update [simp]:
  "health_get p (health_update s r) = (if p = hs_provider s then s else health_get p r)"
  by (simp add: health_get_def health_update_def)

lemma health_get_Nil [simp]: "health_get p [] = new_health_snapshot p"
  by (simp add: health_get_def)

lemma new_health_snapshot_sel [simp]:
  "hs_provider (new_health_snapshot p) = p"
  "hs_status (new_health_snapshot p) = HS_UNKNOWN"
  "hs_consecutive_failures (new_health_snapshot p) = 0"
  by (simp_all add: new_health_snapshot_def)

lemma new_health_snapshot_ok [simp]: "health_snapshot_ok th (new_health_snapshot p)"
  by (simp add: health_snapshot_ok_def new_health_snapshot_def health_evaluate_def
      hs_statistics_def)

lemma logged_status_snoc [simp]:
  "logged_status p (es @ [e]) = (if he_provider e = p then he_new_status e else logged_status p es)"
  by (simp add: logged_status_def)

lemma logged_status_Nil [simp]: "logged_status p [] = HS_UNKNOWN"
  by (simp add: logged_status_def)

lemma health_get_provider:
  "keyed hs_provider r \<Longrightarrow> hs_provider (health_get p r) = p"
  by (auto simp: health_get_def dict_get_def split: option.splits dest: keyed_key)

lemma hc_outcome_snapshot_sel [simp]:
  "hs_provider (hc_outcome_snapshot th s t now old) = hs_provider old"
  "hs_consecutive_failures (hc_outcome_snapshot th s t now old) =
     (if s then 0 else hs_consecutive_failures old + 1)"
  "hs_failure_count (hc_outcome_snapshot th s t now old) =
     hs_failure_count old + of_bool (\<not> s)"
  "hs_success_count (hc_outcome_snapshot th s t now old) = hs_success_count old + of_bool s"
  "hs_timeout_count (hc_outcome_snapshot th s t now old) = hs_timeout_count old + of_bool t"
  by (simp_all add: hc_outcome_snapshot_def Let_def)

lemma health_evaluate_status [simp]:
  "health_evaluate th (s\<lparr>hs_status := x\<rparr>) = health_evaluate th s"
  by (simp add: health_evaluate_def hs_statistics_def)

lemma hc_outcome_snapshot_status:
  "hs_status (hc_outcome_snapshot th s t now old) =
     health_evaluate th (hc_outcome_snapshot th s t now old)"
  unfolding hc_outcome_snapshot_def Let_def by simp

lemma hc_outcome_snapshot_ok:
  assumes "health_snapshot_ok th old" "s \<Longrightarrow> \<not> t"
  shows "health_snapshot_ok th (hc_outcome_snapshot th s t now old)"
  using assms
  unfolding health_snapshot_ok_def
  by (simp add: hc_outcome_snapshot_status)

lemma health_update_keyed [intro, simp]:
  "keyed hs_provider r \<Longrightarrow> keyed hs_provider (health_update s r)"
  by (simp add: health_update_def)

lemma hc_record_fields:
  assumes "keyed hs_provider (hc_registry st)"
  shows "hc_thresholds (hc_record p s t now st) = hc_thresholds st"
    and "keyed hs_provider (hc_registry (hc_record p s t now st))"
    and "health_get q (hc_registry (hc_record p s t now st)) =
      (if q = p
       then hc_outcome_snapshot (hc_thresholds st) s t now (health_get p (hc_registry st))
       else health_get q (hc_registry st))"
  using assms by (auto simp: hc_record_def Let_def health_get_provider)

lemma hc_record_inv [inv_intros]:
  assumes "health_inv st" "s \<Longrightarrow> \<not> t"
  shows "health_inv (hc_record p s t now st)"
proof -
  from assms(1) have k: "keyed hs_provider (hc_registry st)" by (simp add: health_inv_def)
  have "logged_status q (hc_events (hc_record p s t now st)) =
      hs_status (health_get q (hc_registry (hc_record p s t now st)))" for q
    using assms(1) by (auto simp: hc_record_def Let_def health_inv_def health_get_provider)
  with assms k show ?thesis
    by (auto simp: health_inv_def hc_record_fields intro: hc_outcome_snapshot_ok)
qed

lemma hm_reset_inv [inv_intros]: "health_inv st \<Longrightarrow> health_inv (hm_reset p now st)"
  by (auto simp: health_inv_def hm_reset_def Let_def health_reset_def)

lemma new_health_state_inv [simp]: "health_inv (new_health_state th)"
  by (simp add: health_inv_def new_health_state_def)

lemma health_apply_inv [inv_intros]: "health_inv st \<Longrightarrow> health_inv (health_apply x st)"
  by (cases x) (auto simp: hc_success_def hc_failure_def hc_timeout_def intro: inv_intros)

lemma health_run_inv [inv_intros]: "health_inv st \<Longrightarrow> health_inv (health_run ops st)"
  by (induction ops arbitrary: st) (auto intro: inv_intros)

lemma health_apply_thresholds [simp]:
  "hc_thresholds (health_apply x st) = hc_thresholds st"
  by (cases x)
    (simp_all add: hc_success_def hc_failure_def hc_timeout_def hc_record_def hm_reset_def Let_def)

lemma health_run_thresholds [simp]: "hc_thresholds (health_run ops st) = hc_thresholds st"
  by (induction ops arbitrary: st) auto

subsection \<open>Consecutive failures\<close>

text \<open>The number of failures of a provider since its last success or reset.\<close>

fun failure_streak :: "string \<Rightarrow> health_op list \<Rightarrow> int \<Rightarrow> int" where
  "failure_streak p [] n = n"
| "failure_streak p (Op_success q t # xs) n = failure_streak p xs (if q = p then 0 else n)"
| "failure_streak p (Op_failure q t # xs) n = failure_streak p xs (if q = p then n + 1 else n)"
| "failure_streak p (Op_timeout q t # xs) n = failure_streak p xs (if q = p then n + 1 else n)"
| "failure_streak p (Op_reset q t # xs) n = failure_streak p xs (if q = p then 0 else n)"

text \<open>Whether a provider has an outcome since the last reset.\<close>

fun outcome_seen :: "string \<Rightarrow> health_op list \<Rightarrow> bool \<Rightarrow> bool" where
  "outcome_seen p [] b = b"
| "outcome_seen p (Op_success q t # xs) b = outcome_seen p xs (q = p \<or> b)"
| "outcome_seen p (Op_failure q t # xs) b = outcome_seen p xs (q = p \<or> b)"
| "outcome_seen p (Op_timeout q t # xs) b = outcome_seen p xs (q = p \<or> b)"
| "outcome_seen p (Op_reset q t # xs) b = outcome_seen p xs (q \<noteq> p \<and> b)"

lemma health_run_streak:
  assumes "health_inv st"
  shows "hs_consecutive_failures (health_get p (hc_registry (health_run ops st))) =
    failure_streak p ops (hs_consecutive_failures (health_get p (hc_registry st)))"
  using assms
proof (induction ops arbitrary: st)
  case (Cons x ops)
  have "health_inv (health_apply x st)" using Cons.prems by (rule health_apply_inv)
  moreover have k: "keyed hs_provider (hc_registry st)"
    using Cons.prems by (simp add: health_inv_def)
  ultimately show ?case
    by (cases x)
      (simp_all add: Cons.IH hc_success_def hc_failure_def hc_timeout_def hc_record_fields
        hm_reset_def Let_def health_reset_def)
qed simp

lemma requests_pos_step:
  assumes "health_snapshot_ok th old"
  shows "st_requests (hs_statistics (hc_outcome_snapshot th s t now old)) \<noteq> 0"
  using assms by (auto simp: health_snapshot_ok_def hs_statistics_def)

lemma health_run_seen:
  assumes "health_inv st"
  shows "(st_requests (hs_statistics (health_get p (hc_registry (health_run ops st)))) \<noteq> 0) =
    outcome_seen p ops (st_requests (hs_statistics (health_get p (hc_registry st))) \<noteq> 0)"
  using assms
proof (induction ops arbitrary: st)
  case (Cons x ops)
  have inv: "health_inv (health_apply x st)" using Cons.prems by (rule health_apply_inv)
  have k: "keyed hs_provider (hc_registry st)"
    and ok: "\<And>q. health_snapshot_ok (hc_thresholds st) (health_get q (hc_registry st))"
    using Cons.prems by (simp_all add: health_inv_def)
  have "st_requests (hs_statistics (new_health_snapshot q)) = 0" for q
    by (simp add: hs_statistics_def new_health_snapshot_def)
  with k inv show ?case
    by (cases x)
      (simp_all add: Cons.IH hc_success_def hc_failure_def hc_timeout_def
        hc_record_fields hm_reset_def Let_def health_reset_def requests_pos_step [OF ok])
qed simp

subsection \<open>Properties\<close>

text \<open>C13: after any sequence of successes, failures, timeouts and resets the status that a
  provider's snapshot carries is exactly the one the failure streak of that provider
  determines: UNKNOWN with no outcome since the last reset, otherwise UNHEALTHY, DEGRADED or
  HEALTHY by the two thresholds, whatever happened to the other providers.\<close>

theorem health_status_by_streak:
  "hs_status (health_get p (hc_registry (health_run ops (new_health_state th)))) =
    (if \<not> outcome_seen p ops False then HS_UNKNOWN
     else if unhealthy_failures th \<le> failure_streak p ops 0 then HS_UNHEALTHY
     else if degraded_failures th \<le> failure_streak p ops 0 then HS_DEGRADED
     else HS_HEALTHY)"
proof -
  let ?st = "new_health_state th" and ?s = "health_get p (hc_registry (health_run ops (new_health_state th)))"
  have inv: "health_inv ?st" by simp
  have "health_inv (health_run ops ?st)" by (intro inv_intros inv)
  then have "hs_status ?s = health_evaluate th ?s"
    by (simp add: health_inv_def health_snapshot_ok_def new_health_state_def)
  moreover have "hs_consecutive_failures ?s = failure_streak p ops 0"
    using health_run_streak [OF inv, of p ops] by (simp add: new_health_state_def)
  moreover have "(st_requests (hs_statistics ?s) \<noteq> 0) = outcome_seen p ops False"
    using health_run_seen [OF inv, of p ops]
    by (simp add: new_health_state_def hs_statistics_def new_health_snapshot_def)
  ultimately show ?thesis unfolding health_evaluate_def by simp argo
qed

text \<open>The event log is complete: replaying the events of a provider from UNKNOWN always
  ends in the status that the registry holds, and the counters are coherent.\<close>

theorem health_event_log_complete:
  "logged_status p (hc_events (health_run ops (new_health_state th))) =
     hs_status (health_get p (hc_registry (health_run ops (new_health_state th)))) \<and>
   health_snapshot_ok th (health_get p (hc_registry (health_run ops (new_health_state th))))"
proof -
  have "health_inv (health_run ops (new_health_state th))" by (intro inv_intros) simp
  then show ?thesis by (simp add: health_inv_def new_health_state_def)
qed

end
