(* ===== verification/Circuit_Breaker.thy ===== *)
theory Circuit_Breaker
  imports TK_Prelude Health
begin

text \<open>
  The circuit breaker (\<open>src/src/tkai/circuit_breaker/\<close>): its immutable snapshot, the
  replaceable transition strategy with the threshold default, the breaker's operations, the
  registry and the manager that consumes passive health events. A clock reading is an
  argument of the operation that reads the clock. The end of the open duration may lie beyond the
  last instant of a datetime, and then the addition raises OverflowError. A breaker's operations
  hold its lock, the manager's look a breaker up and then call it.
\<close>

subsection \<open>Models\<close>

datatype circuit_state = CLOSED | OPEN | HALF_OPEN

record cb_snapshot =
  cs_provider :: string
  cs_state :: circuit_state
  cs_failure_count :: int
  cs_success_count :: int
  cs_consecutive_failures :: int
  cs_half_open_success_count :: int
  cs_last_failure :: "time option"
  cs_last_success :: "time option"
  cs_opened_at :: "time option"
  cs_half_open_since :: "time option"

definition new_cb_snapshot :: "string \<Rightarrow> cb_snapshot" where
  "new_cb_snapshot p =
     \<lparr>cs_provider = p, cs_state = CLOSED, cs_failure_count = 0, cs_success_count = 0,
      cs_consecutive_failures = 0, cs_half_open_success_count = 0, cs_last_failure = None,
      cs_last_success = None, cs_opened_at = None, cs_half_open_since = None\<rparr>"

record cb_event =
  ce_provider :: string
  ce_event :: string
  ce_old_state :: circuit_state
  ce_new_state :: circuit_state
  ce_timestamp :: time
  ce_reason :: "string option"

datatype cb_error =
    CB_ValueError string
  | CircuitBreakerError string
  | CircuitBreakerNotFoundError string
  | CB_OverflowError

subsection \<open>Strategies\<close>

text \<open>The abstract strategy is the record of its three decisions; the one that reads the clock may
  raise.\<close>

record cb_strategy =
  should_open :: "cb_snapshot \<Rightarrow> bool"
  should_half_open :: "cb_snapshot \<Rightarrow> time \<Rightarrow> cb_error + bool"
  should_close :: "cb_snapshot \<Rightarrow> bool"

record threshold =
  failure_threshold :: int
  open_duration :: int
  half_open_success_threshold :: int

definition mk_threshold :: "int \<Rightarrow> int \<Rightarrow> int \<Rightarrow> cb_error + threshold" where
  "mk_threshold f d h =
     (if f < 1 then Inl (CB_ValueError ''failure_threshold must be at least one'')
      else if d < 0 then Inl (CB_ValueError ''open_duration must not be negative'')
      else if h < 1 then Inl (CB_ValueError ''half_open_success_threshold must be at least one'')
      else Inr \<lparr>failure_threshold = f, open_duration = d, half_open_success_threshold = h\<rparr>)"

definition default_threshold :: threshold where
  "default_threshold =
     \<lparr>failure_threshold = 5, open_duration = 30 * one_second, half_open_success_threshold = 3\<rparr>"

definition th_should_open :: "threshold \<Rightarrow> cb_snapshot \<Rightarrow> bool" where
  "th_should_open th s \<longleftrightarrow> failure_threshold th \<le> cs_consecutive_failures s"

definition th_should_half_open :: "threshold \<Rightarrow> cb_snapshot \<Rightarrow> time \<Rightarrow> cb_error + bool" where
  "th_should_half_open th s now =
     (case cs_opened_at s of
        None \<Rightarrow> Inr False
      | Some t \<Rightarrow>
          if max_instant < t + open_duration th then Inl CB_OverflowError
          else Inr (t + open_duration th \<le> now))"

definition th_should_close :: "threshold \<Rightarrow> cb_snapshot \<Rightarrow> bool" where
  "th_should_close th s \<longleftrightarrow> half_open_success_threshold th \<le> cs_half_open_success_count s"

definition threshold_strategy :: "threshold \<Rightarrow> cb_strategy" where
  "threshold_strategy th =
     \<lparr>should_open = th_should_open th, should_half_open = th_should_half_open th,
      should_close = th_should_close th\<rparr>"

definition threshold_ok :: "threshold \<Rightarrow> bool" where
  "threshold_ok th \<longleftrightarrow>
     1 \<le> failure_threshold th \<and> 0 \<le> open_duration th \<and> 1 \<le> half_open_success_threshold th"

lemma mk_threshold_ok: "mk_threshold f d h = Inr th \<Longrightarrow> threshold_ok th"
  by (auto simp: mk_threshold_def threshold_ok_def split: if_splits)

lemma threshold_strategy_sel [simp]:
  "should_open (threshold_strategy th) = th_should_open th"
  "should_half_open (threshold_strategy th) = th_should_half_open th"
  "should_close (threshold_strategy th) = th_should_close th"
  by (simp_all add: threshold_strategy_def)

subsection \<open>The breaker\<close>

record breaker =
  br_provider :: string
  br_strategy :: cb_strategy
  br_snapshot :: cb_snapshot
  br_events :: "cb_event list"

definition new_breaker :: "string \<Rightarrow> cb_strategy \<Rightarrow> cb_error + breaker" where
  "new_breaker p strat =
     (if p = '''' then Inl (CB_ValueError ''provider must not be empty'')
      else Inr \<lparr>br_provider = p, br_strategy = strat, br_snapshot = new_cb_snapshot p,
                br_events = []\<rparr>)"

definition transition :: "circuit_state \<Rightarrow> time \<Rightarrow> string option \<Rightarrow> breaker \<Rightarrow> breaker" where
  "transition state now reason b =
     (let old = br_snapshot b in
      if cs_state old = state then b
      else
        let (s, name) =
          (case state of
             OPEN \<Rightarrow> (old\<lparr>cs_state := state, cs_opened_at := Some now,
                         cs_half_open_since := None, cs_half_open_success_count := 0\<rparr>,
                       ''BreakerOpened'')
           | HALF_OPEN \<Rightarrow> (old\<lparr>cs_state := state, cs_half_open_since := Some now,
                         cs_half_open_success_count := 0\<rparr>,
                       ''BreakerHalfOpen'')
           | CLOSED \<Rightarrow> (old\<lparr>cs_state := state, cs_opened_at := None,
                         cs_half_open_since := None, cs_half_open_success_count := 0\<rparr>,
                       ''BreakerClosed''))
        in b\<lparr>br_snapshot := s,
             br_events := br_events b @
               [\<lparr>ce_provider = br_provider b, ce_event = name, ce_old_state = cs_state old,
                 ce_new_state = state, ce_timestamp = now, ce_reason = reason\<rparr>]\<rparr>)"

definition allow_request :: "time \<Rightarrow> breaker \<Rightarrow> (cb_error + bool) \<times> breaker" where
  "allow_request now b =
     (let s = br_snapshot b in
      if cs_state s = OPEN then
        (case should_half_open (br_strategy b) s now of
           Inl e \<Rightarrow> (Inl e, b)
         | Inr elapsed \<Rightarrow>
             if \<not> elapsed then (Inr False, b)
             else (Inr True, transition HALF_OPEN now (Some ''open duration elapsed'') b))
      else (Inr True, b))"

definition record_failure :: "time \<Rightarrow> string option \<Rightarrow> breaker \<Rightarrow> breaker" where
  "record_failure now reason b =
     (let s = (br_snapshot b)\<lparr>cs_failure_count := cs_failure_count (br_snapshot b) + 1,
                cs_consecutive_failures := cs_consecutive_failures (br_snapshot b) + 1,
                cs_half_open_success_count := 0,
                cs_last_failure := Some now\<rparr>;
          b' = b\<lparr>br_snapshot := s\<rparr>
      in if cs_state s = HALF_OPEN \<or> should_open (br_strategy b) s
         then transition OPEN now (Some (str_or reason ''failure threshold met'')) b'
         else b')"

definition record_success :: "time \<Rightarrow> breaker \<Rightarrow> breaker" where
  "record_success now b =
     (let increment = of_bool (cs_state (br_snapshot b) = HALF_OPEN);
          s = (br_snapshot b)\<lparr>cs_success_count := cs_success_count (br_snapshot b) + 1,
                cs_consecutive_failures := 0,
                cs_half_open_success_count :=
                  cs_half_open_success_count (br_snapshot b) + increment,
                cs_last_success := Some now\<rparr>;
          b' = b\<lparr>br_snapshot := s\<rparr>
      in if cs_state s = HALF_OPEN \<and> should_close (br_strategy b) s
         then transition CLOSED now (Some ''half-open success threshold met'') b'
         else b')"

definition force_open :: "time \<Rightarrow> string option \<Rightarrow> breaker \<Rightarrow> breaker" where
  "force_open now reason b = transition OPEN now (Some (str_or reason ''health event'')) b"

definition cb_reset :: "time \<Rightarrow> breaker \<Rightarrow> breaker" where
  "cb_reset now b =
     b\<lparr>br_snapshot := new_cb_snapshot (br_provider b),
       br_events := br_events b @
         [\<lparr>ce_provider = br_provider b, ce_event = ''BreakerReset'',
           ce_old_state = cs_state (br_snapshot b), ce_new_state = CLOSED,
           ce_timestamp = now, ce_reason = None\<rparr>]\<rparr>"

subsection \<open>Registry\<close>

type_synonym cb_registry = "(string, breaker) dict"

text \<open>\<open>register(provider, breaker)\<close>; \<open>None\<close> is the omitted breaker argument.\<close>

definition cb_register ::
  "string \<Rightarrow> breaker option \<Rightarrow> cb_registry \<Rightarrow> cb_error + (breaker \<times> cb_registry)" where
  "cb_register p ob r =
     (if map_of r p \<noteq> None then Inl (CircuitBreakerError p)
      else
        case (case ob of Some b \<Rightarrow> Inr b
                | None \<Rightarrow> new_breaker p (threshold_strategy default_threshold)) of
          Inl e \<Rightarrow> Inl e
        | Inr b \<Rightarrow>
            if br_provider b \<noteq> p
            then Inl (CircuitBreakerError ''Breaker provider does not match registration'')
            else Inr (b, AList.update p b r))"

definition cb_get :: "string \<Rightarrow> cb_registry \<Rightarrow> cb_error + breaker" where
  "cb_get p r = dict_lookup (CircuitBreakerNotFoundError p) p r"

definition cb_list :: "cb_registry \<Rightarrow> breaker list" where
  "cb_list r = sorted_values r"

definition cb_registry_reset :: "string \<Rightarrow> time \<Rightarrow> cb_registry \<Rightarrow> cb_error + cb_registry" where
  "cb_registry_reset p now r =
     (case cb_get p r of Inl e \<Rightarrow> Inl e | Inr b \<Rightarrow> Inr (AList.update p (cb_reset now b) r))"

definition cb_clear :: "cb_registry \<Rightarrow> cb_registry" where
  "cb_clear r = []"

subsection \<open>Manager\<close>

text \<open>
  The manager's state is its registry; its strategy is a parameter. A breaker is one object
  shared between the manager and the registry, so an operation on it is written back under
  its name.
\<close>

definition cbm_register ::
  "cb_strategy \<Rightarrow> string \<Rightarrow> cb_registry \<Rightarrow> cb_error + (breaker \<times> cb_registry)" where
  "cbm_register strat p r =
     (case new_breaker p strat of
        Inl e \<Rightarrow> Inl e
      | Inr b \<Rightarrow> cb_register p (Some b) r)"

definition cbm_list :: "cb_registry \<Rightarrow> cb_snapshot list" where
  "cbm_list r = map br_snapshot (cb_list r)"

definition cbm_ensure ::
  "cb_strategy \<Rightarrow> string \<Rightarrow> cb_registry \<Rightarrow> cb_error + (breaker \<times> cb_registry)" where
  "cbm_ensure strat p r =
     (case cb_get p r of
        Inr b \<Rightarrow> Inr (b, r)
      | Inl e \<Rightarrow> cbm_register strat p r)"

definition cbm_record_success ::
  "cb_strategy \<Rightarrow> string \<Rightarrow> time \<Rightarrow> cb_registry \<Rightarrow> cb_error + (cb_snapshot \<times> cb_registry)" where
  "cbm_record_success strat p now r =
     (case cbm_ensure strat p r of
        Inl e \<Rightarrow> Inl e
      | Inr (b, r') \<Rightarrow>
          let b' = record_success now b in Inr (br_snapshot b', AList.update p b' r'))"

definition cbm_record_failure ::
  "cb_strategy \<Rightarrow> string \<Rightarrow> string option \<Rightarrow> time \<Rightarrow> cb_registry \<Rightarrow>
     cb_error + (cb_snapshot \<times> cb_registry)" where
  "cbm_record_failure strat p reason now r =
     (case cbm_ensure strat p r of
        Inl e \<Rightarrow> Inl e
      | Inr (b, r') \<Rightarrow>
          let b' = record_failure now reason b in Inr (br_snapshot b', AList.update p b' r'))"

definition cbm_allow_request ::
  "cb_strategy \<Rightarrow> string \<Rightarrow> time \<Rightarrow> cb_registry \<Rightarrow> cb_error + (bool \<times> cb_registry)" where
  "cbm_allow_request strat p now r =
     (case cbm_ensure strat p r of
        Inl e \<Rightarrow> Inl e
      | Inr (b, r') \<Rightarrow>
          (case allow_request now b of
             (Inl e, b') \<Rightarrow> Inl e
           | (Inr ok, b') \<Rightarrow> Inr (ok, AList.update p b' r')))"

definition health_event_effect :: "health_event \<Rightarrow> time \<Rightarrow> breaker \<Rightarrow> breaker" where
  "health_event_effect e now b =
     (if he_event e = ''ProviderReset'' then cb_reset now b
      else if he_event e = ''ProviderUnhealthy'' \<or> he_new_status e = HS_UNHEALTHY
      then force_open now (Some (he_event e)) b
      else if he_event e = ''ProviderDegraded'' \<or> he_new_status e = HS_DEGRADED
      then record_failure now (Some (he_event e)) b
      else if he_event e = ''ProviderRecovered'' \<or> he_new_status e = HS_HEALTHY
      then record_success now b
      else b)"

definition cbm_handle_health_event ::
  "cb_strategy \<Rightarrow> health_event \<Rightarrow> time \<Rightarrow> cb_registry \<Rightarrow> cb_error + (cb_snapshot \<times> cb_registry)" where
  "cbm_handle_health_event strat e now r =
     (case cbm_ensure strat (he_provider e) r of
        Inl err \<Rightarrow> Inl err
      | Inr (b, r') \<Rightarrow>
          let b' = health_event_effect e now b
          in Inr (br_snapshot b', AList.update (he_provider e) b' r'))"

subsection \<open>Sequences of operations\<close>

datatype cb_op =
    Cb_allow time
  | Cb_failure time "string option"
  | Cb_success time
  | Cb_force time "string option"
  | Cb_reset time

fun cb_apply :: "cb_op \<Rightarrow> breaker \<Rightarrow> breaker" where
  "cb_apply (Cb_allow t) b = snd (allow_request t b)"
| "cb_apply (Cb_failure t r) b = record_failure t r b"
| "cb_apply (Cb_success t) b = record_success t b"
| "cb_apply (Cb_force t r) b = force_open t r b"
| "cb_apply (Cb_reset t) b = cb_reset t b"

definition cb_run :: "cb_op list \<Rightarrow> breaker \<Rightarrow> breaker" where
  "cb_run ops b = fold cb_apply ops b"

lemma cb_run_simps [simp]:
  "cb_run [] b = b"
  "cb_run (x # xs) b = cb_run xs (cb_apply x b)"
  "cb_run (xs @ ys) b = cb_run ys (cb_run xs b)"
  by (simp_all add: cb_run_def)

subsection \<open>Invariant\<close>

text \<open>The four state changes that the breaker may make, with the event that reports each.\<close>

inductive cb_edge :: "string \<Rightarrow> circuit_state \<Rightarrow> circuit_state \<Rightarrow> bool" where
  trip: "cb_edge ''BreakerOpened'' CLOSED OPEN"
| probe: "cb_edge ''BreakerHalfOpen'' OPEN HALF_OPEN"
| retrip: "cb_edge ''BreakerOpened'' HALF_OPEN OPEN"
| recover: "cb_edge ''BreakerClosed'' HALF_OPEN CLOSED"
| reset: "cb_edge ''BreakerReset'' s CLOSED"

inductive_cases cb_edge_openE: "cb_edge n OPEN s"
inductive_simps cb_edge_from_closed: "cb_edge n CLOSED s"

fun event_chain :: "circuit_state \<Rightarrow> cb_event list \<Rightarrow> circuit_state \<Rightarrow> bool" where
  "event_chain s [] t = (s = t)"
| "event_chain s (e # es) t =
     (ce_old_state e = s \<and> cb_edge (ce_event e) s (ce_new_state e) \<and>
      event_chain (ce_new_state e) es t)"

lemma event_chain_snoc [simp]:
  "event_chain s (es @ [e]) t =
     (event_chain s es (ce_old_state e) \<and>
      cb_edge (ce_event e) (ce_old_state e) (ce_new_state e) \<and> ce_new_state e = t)"
  by (induction s es "ce_old_state e" rule: event_chain.induct) auto

definition breaker_inv :: "breaker \<Rightarrow> bool" where
  "breaker_inv b \<longleftrightarrow>
     cs_provider (br_snapshot b) = br_provider b \<and>
     (cs_opened_at (br_snapshot b) = None) = (cs_state (br_snapshot b) = CLOSED) \<and>
     (cs_half_open_since (br_snapshot b) \<noteq> None) = (cs_state (br_snapshot b) = HALF_OPEN) \<and>
     (cs_state (br_snapshot b) \<noteq> HALF_OPEN \<longrightarrow> cs_half_open_success_count (br_snapshot b) = 0) \<and>
     0 \<le> cs_half_open_success_count (br_snapshot b) \<and>
     cs_half_open_success_count (br_snapshot b) \<le> cs_success_count (br_snapshot b) \<and>
     0 \<le> cs_consecutive_failures (br_snapshot b) \<and>
     cs_consecutive_failures (br_snapshot b) \<le> cs_failure_count (br_snapshot b) \<and>
     event_chain CLOSED (br_events b) (cs_state (br_snapshot b))"

text \<open>What the threshold strategy adds: a closed breaker is below the failure threshold and a
  half-open one below the success threshold, since reaching either one changes the state.\<close>

definition threshold_inv :: "threshold \<Rightarrow> breaker \<Rightarrow> bool" where
  "threshold_inv th b \<longleftrightarrow>
     br_strategy b = threshold_strategy th \<and>
     (cs_state (br_snapshot b) = CLOSED \<longrightarrow>
        cs_consecutive_failures (br_snapshot b) < failure_threshold th) \<and>
     (cs_state (br_snapshot b) = HALF_OPEN \<longrightarrow>
        cs_half_open_success_count (br_snapshot b) < half_open_success_threshold th)"

lemma transition_frame [simp]:
  "br_provider (transition s t r b) = br_provider b"
  "br_strategy (transition s t r b) = br_strategy b"
  "cs_state (br_snapshot (transition s t r b)) = s"
  "cs_provider (br_snapshot (transition s t r b)) = cs_provider (br_snapshot b)"
  "cs_failure_count (br_snapshot (transition s t r b)) = cs_failure_count (br_snapshot b)"
  "cs_success_count (br_snapshot (transition s t r b)) = cs_success_count (br_snapshot b)"
  "cs_consecutive_failures (br_snapshot (transition s t r b)) =
     cs_consecutive_failures (br_snapshot b)"
  by (cases s; simp add: transition_def Let_def)+

lemma transition_same [simp]: "cs_state (br_snapshot b) = s \<Longrightarrow> transition s t r b = b"
  by (simp add: transition_def)

lemma transition_opened_at [simp]:
  "cs_opened_at (br_snapshot (transition s t r b)) =
     (if cs_state (br_snapshot b) = s then cs_opened_at (br_snapshot b)
      else case s of OPEN \<Rightarrow> Some t | HALF_OPEN \<Rightarrow> cs_opened_at (br_snapshot b) | CLOSED \<Rightarrow> None)"
  by (cases s) (simp_all add: transition_def Let_def)

lemma transition_half_open [simp]:
  "cs_half_open_success_count (br_snapshot (transition s t r b)) =
     (if cs_state (br_snapshot b) = s then cs_half_open_success_count (br_snapshot b) else 0)"
  "cs_half_open_since (br_snapshot (transition s t r b)) =
     (if cs_state (br_snapshot b) = s then cs_half_open_since (br_snapshot b)
      else if s = HALF_OPEN then Some t else None)"
  by (cases s; simp add: transition_def Let_def)+

definition edge_name :: "circuit_state \<Rightarrow> string" where
  "edge_name s = (case s of OPEN \<Rightarrow> ''BreakerOpened'' | HALF_OPEN \<Rightarrow> ''BreakerHalfOpen''
                  | CLOSED \<Rightarrow> ''BreakerClosed'')"

lemma transition_chain:
  assumes "event_chain CLOSED (br_events b) (cs_state (br_snapshot b))"
    and "cs_state (br_snapshot b) \<noteq> s \<Longrightarrow> cb_edge (edge_name s) (cs_state (br_snapshot b)) s"
  shows "event_chain CLOSED (br_events (transition s t r b)) s"
  using assms by (cases s) (auto simp: transition_def Let_def edge_name_def)

lemma transition_inv:
  assumes "breaker_inv b"
    and "cs_state (br_snapshot b) \<noteq> s \<Longrightarrow> cb_edge (edge_name s) (cs_state (br_snapshot b)) s"
  shows "breaker_inv (transition s t r b)"
proof (cases "cs_state (br_snapshot b) = s")
  case False
  from assms have "event_chain CLOSED (br_events (transition s t r b)) s"
    by (intro transition_chain) (simp_all add: breaker_inv_def)
  with assms False show ?thesis
    by (cases s; cases "cs_state (br_snapshot b)")
      (simp_all add: breaker_inv_def edge_name_def cb_edge.simps)
qed (use assms in simp)

lemma cb_edge_to_open:
  "s \<noteq> OPEN \<Longrightarrow> cb_edge (edge_name OPEN) s OPEN"
  by (cases s) (auto simp: edge_name_def intro: cb_edge.intros)

lemma allow_request_inv [inv_intros]: "breaker_inv b \<Longrightarrow> breaker_inv (snd (allow_request t b))"
  by (auto simp: allow_request_def Let_def edge_name_def split: sum.split
      intro!: transition_inv cb_edge.probe)

lemma force_open_inv [inv_intros]: "breaker_inv b \<Longrightarrow> breaker_inv (force_open t r b)"
  by (simp add: force_open_def transition_inv cb_edge_to_open)

definition failure_noted :: "time \<Rightarrow> breaker \<Rightarrow> breaker" where
  "failure_noted now b =
     b\<lparr>br_snapshot := (br_snapshot b)\<lparr>
         cs_failure_count := cs_failure_count (br_snapshot b) + 1,
         cs_consecutive_failures := cs_consecutive_failures (br_snapshot b) + 1,
         cs_half_open_success_count := 0, cs_last_failure := Some now\<rparr>\<rparr>"

definition success_noted :: "time \<Rightarrow> breaker \<Rightarrow> breaker" where
  "success_noted now b =
     b\<lparr>br_snapshot := (br_snapshot b)\<lparr>
         cs_success_count := cs_success_count (br_snapshot b) + 1,
         cs_consecutive_failures := 0,
         cs_half_open_success_count := cs_half_open_success_count (br_snapshot b)
           + of_bool (cs_state (br_snapshot b) = HALF_OPEN),
         cs_last_success := Some now\<rparr>\<rparr>"

lemma record_failure_alt:
  "record_failure now reason b =
     (let b' = failure_noted now b in
      if cs_state (br_snapshot b) = HALF_OPEN \<or> should_open (br_strategy b) (br_snapshot b')
      then transition OPEN now (Some (str_or reason ''failure threshold met'')) b' else b')"
  by (simp add: record_failure_def failure_noted_def Let_def)

lemma record_success_alt:
  "record_success now b =
     (let b' = success_noted now b in
      if cs_state (br_snapshot b) = HALF_OPEN \<and> should_close (br_strategy b) (br_snapshot b')
      then transition CLOSED now (Some ''half-open success threshold met'') b' else b')"
  by (simp add: record_success_def success_noted_def Let_def)

lemma noted_sel [simp]:
  "br_provider (failure_noted t b) = br_provider b"
  "br_strategy (failure_noted t b) = br_strategy b"
  "br_events (failure_noted t b) = br_events b"
  "cs_state (br_snapshot (failure_noted t b)) = cs_state (br_snapshot b)"
  "cs_opened_at (br_snapshot (failure_noted t b)) = cs_opened_at (br_snapshot b)"
  "cs_half_open_success_count (br_snapshot (failure_noted t b)) = 0"
  "cs_consecutive_failures (br_snapshot (failure_noted t b)) =
     cs_consecutive_failures (br_snapshot b) + 1"
  "br_provider (success_noted t b) = br_provider b"
  "br_strategy (success_noted t b) = br_strategy b"
  "br_events (success_noted t b) = br_events b"
  "cs_state (br_snapshot (success_noted t b)) = cs_state (br_snapshot b)"
  "cs_opened_at (br_snapshot (success_noted t b)) = cs_opened_at (br_snapshot b)"
  "cs_half_open_success_count (br_snapshot (success_noted t b)) =
     cs_half_open_success_count (br_snapshot b) + of_bool (cs_state (br_snapshot b) = HALF_OPEN)"
  "cs_consecutive_failures (br_snapshot (success_noted t b)) = 0"
  by (simp_all add: failure_noted_def success_noted_def)

lemma failure_noted_inv: "breaker_inv b \<Longrightarrow> breaker_inv (failure_noted t b)"
  by (auto simp: breaker_inv_def failure_noted_def)

lemma success_noted_inv: "breaker_inv b \<Longrightarrow> breaker_inv (success_noted t b)"
  by (auto simp: breaker_inv_def success_noted_def)

lemma record_failure_inv [inv_intros]: "breaker_inv b \<Longrightarrow> breaker_inv (record_failure t r b)"
  by (auto simp: record_failure_alt Let_def failure_noted_inv
      intro!: transition_inv cb_edge_to_open)

lemma record_success_inv [inv_intros]: "breaker_inv b \<Longrightarrow> breaker_inv (record_success t b)"
  by (auto simp: record_success_alt Let_def success_noted_inv edge_name_def
      intro!: transition_inv cb_edge.recover)

lemma cb_reset_inv [inv_intros]: "breaker_inv b \<Longrightarrow> breaker_inv (cb_reset t b)"
  by (auto simp: breaker_inv_def cb_reset_def new_cb_snapshot_def intro: cb_edge.reset)

lemma new_breaker_inv: "new_breaker p strat = Inr b \<Longrightarrow> breaker_inv b"
  by (auto simp: new_breaker_def breaker_inv_def new_cb_snapshot_def split: if_splits)

lemma cb_apply_inv [inv_intros]: "breaker_inv b \<Longrightarrow> breaker_inv (cb_apply x b)"
  by (cases x) (auto intro: inv_intros)

lemma cb_run_inv [inv_intros]: "breaker_inv b \<Longrightarrow> breaker_inv (cb_run ops b)"
  by (induction ops arbitrary: b) (auto intro: inv_intros)

subsection \<open>What a strategy owes the breaker\<close>

text \<open>
  The laws that the breaker relies on: \<open>due u\<close> is the instant from which a breaker that opened at
  \<open>u\<close> admits a probe, or none where the strategy raises at every instant, and \<open>probes\<close> successful
  probes close. They hold for the threshold strategy and tell when an open breaker recovers.
\<close>

locale breaker_policy =
  fixes strat :: cb_strategy and due :: "time \<Rightarrow> time option" and probes :: nat
  assumes half_open_due:
      "cs_opened_at s = Some u \<Longrightarrow> due u = Some v \<Longrightarrow> should_half_open strat s t = Inr (v \<le> t)"
    and half_open_never:
      "cs_opened_at s = Some u \<Longrightarrow> due u = None \<Longrightarrow> \<exists>e. should_half_open strat s t = Inl e"
    and close_after: "int probes \<le> cs_half_open_success_count s \<Longrightarrow> should_close strat s"
begin

lemma success_step:
  assumes "br_strategy b = strat" "cs_state (br_snapshot b) = HALF_OPEN"
  shows "cs_state (br_snapshot (record_success t b)) = CLOSED \<or>
    cs_state (br_snapshot (record_success t b)) = HALF_OPEN \<and>
    cs_half_open_success_count (br_snapshot (record_success t b)) < int probes \<and>
    cs_half_open_success_count (br_snapshot (record_success t b)) =
      cs_half_open_success_count (br_snapshot b) + 1"
  using assms close_after [of "br_snapshot (success_noted t b)"]
  by (fastforce simp: record_success_alt Let_def)

lemma success_closed:
  "cs_state (br_snapshot b) = CLOSED \<Longrightarrow> cs_state (br_snapshot (record_success t b)) = CLOSED"
  by (auto simp: record_success_alt Let_def)

lemma success_strategy: "br_strategy (record_success t b) = br_strategy b"
  by (auto simp: record_success_alt Let_def)

lemma successes_stay:
  "cs_state (br_snapshot b) = CLOSED \<Longrightarrow>
     cs_state (br_snapshot (cb_run (map Cb_success ts) b)) = CLOSED"
  by (induction ts arbitrary: b) (simp_all add: success_closed)

lemma successes_close:
  assumes "br_strategy b = strat" "cs_state (br_snapshot b) = HALF_OPEN" "ts \<noteq> []"
    and "int probes \<le> cs_half_open_success_count (br_snapshot b) + int (length ts)"
  shows "cs_state (br_snapshot (cb_run (map Cb_success ts) b)) = CLOSED"
  using assms
proof (induction ts arbitrary: b)
  case (Cons t ts)
  let ?b = "record_success t b"
  from success_step [OF Cons.prems(1,2), of t] show ?case
  proof (elim disjE conjE)
    assume "cs_state (br_snapshot ?b) = CLOSED"
    then show ?thesis by (simp add: successes_stay)
  next
    assume half: "cs_state (br_snapshot ?b) = HALF_OPEN"
      "cs_half_open_success_count (br_snapshot ?b) < int probes"
      "cs_half_open_success_count (br_snapshot ?b) = cs_half_open_success_count (br_snapshot b) + 1"
    with Cons.prems(4) have "ts \<noteq> []" by auto
    with half Cons.prems(1,4) have "cs_state (br_snapshot (cb_run (map Cb_success ts) ?b)) = CLOSED"
      by (intro Cons.IH) (simp_all add: success_strategy)
    then show ?thesis by simp
  qed
qed simp

lemma recovers:
  assumes "br_strategy b = strat" "breaker_inv b" "ts \<noteq> []" "probes \<le> length ts"
    and "cs_state (br_snapshot b) = OPEN \<Longrightarrow>
      \<exists>u v. cs_opened_at (br_snapshot b) = Some u \<and> due u = Some v \<and> v \<le> t"
  shows "fst (allow_request t b) = Inr True"
    and "cs_state (br_snapshot (cb_run (Cb_allow t # map Cb_success ts) b)) = CLOSED"
proof -
  have "fst (allow_request t b) = Inr True \<and>
      cs_state (br_snapshot (cb_run (Cb_allow t # map Cb_success ts) b)) = CLOSED"
  proof (cases "cs_state (br_snapshot b)")
    case CLOSED
    then show ?thesis by (simp add: allow_request_def successes_stay)
  next
    case HALF_OPEN
    then show ?thesis
      using assms successes_close [of b ts]
      by (simp add: allow_request_def breaker_inv_def)
  next
    case OPEN
    with assms(5) half_open_due have "should_half_open strat (br_snapshot b) t = Inr True"
      by fastforce
    with OPEN assms successes_close [of "snd (allow_request t b)" ts] show ?thesis
      by (simp add: allow_request_def Let_def)
  qed
  then show "fst (allow_request t b) = Inr True"
    and "cs_state (br_snapshot (cb_run (Cb_allow t # map Cb_success ts) b)) = CLOSED" by auto
qed

lemma open_for_ever:
  assumes "br_strategy b = strat" "cs_state (br_snapshot b) = OPEN"
    and "cs_opened_at (br_snapshot b) = Some u" "due u = None" "\<forall>x \<in> set ops. \<forall>t. x \<noteq> Cb_reset t"
  shows "br_strategy (cb_run ops b) = strat \<and> cs_state (br_snapshot (cb_run ops b)) = OPEN \<and>
    cs_opened_at (br_snapshot (cb_run ops b)) = Some u"
  using assms
proof (induction ops arbitrary: b)
  case (Cons x ops)
  have step: "br_strategy (cb_apply x b) = strat \<and> cs_state (br_snapshot (cb_apply x b)) = OPEN \<and>
      cs_opened_at (br_snapshot (cb_apply x b)) = Some u"
  proof (cases x)
    case (Cb_allow t)
    with Cons.prems half_open_never [OF Cons.prems(3,4), of t] show ?thesis
      by (auto simp: allow_request_def)
  qed (use Cons.prems in \<open>auto simp: record_failure_alt record_success_alt force_open_def Let_def\<close>)
  with Cons.IH [of "cb_apply x b"] Cons.prems(4,5) show ?case by simp
qed simp

end

text \<open>The end of the open duration of the threshold strategy, where a datetime can represent it.\<close>

definition th_due :: "threshold \<Rightarrow> time \<Rightarrow> time option" where
  "th_due th u = (if max_instant < u + open_duration th then None else Some (u + open_duration th))"

interpretation th_policy: breaker_policy "threshold_strategy th" "th_due th"
  "nat (half_open_success_threshold th)" for th
  by unfold_locales
    (auto simp: th_should_half_open_def th_due_def th_should_close_def split: if_splits)

subsection \<open>The threshold invariant\<close>

lemma threshold_inv_new:
  assumes "threshold_ok th" "new_breaker p (threshold_strategy th) = Inr b"
  shows "threshold_inv th b"
  using assms
  by (auto simp: new_breaker_def threshold_inv_def threshold_ok_def new_cb_snapshot_def
      split: if_splits)

lemma allow_request_threshold [inv_intros]:
  "threshold_ok th \<Longrightarrow> threshold_inv th b \<Longrightarrow> threshold_inv th (snd (allow_request t b))"
  by (auto simp: threshold_inv_def threshold_ok_def allow_request_def Let_def split: sum.split)

lemma force_open_threshold [inv_intros]:
  "threshold_inv th b \<Longrightarrow> threshold_inv th (force_open t r b)"
  by (auto simp: threshold_inv_def force_open_def)

lemma record_failure_threshold [inv_intros]:
  "threshold_inv th b \<Longrightarrow> threshold_inv th (record_failure t r b)"
  by (auto simp: threshold_inv_def record_failure_alt Let_def th_should_open_def)

lemma record_success_threshold [inv_intros]:
  "threshold_ok th \<Longrightarrow> threshold_inv th b \<Longrightarrow> threshold_inv th (record_success t b)"
  by (auto simp: threshold_inv_def threshold_ok_def record_success_alt Let_def
      th_should_close_def)

lemma cb_reset_threshold [inv_intros]:
  "threshold_ok th \<Longrightarrow> threshold_inv th b \<Longrightarrow> threshold_inv th (cb_reset t b)"
  by (auto simp: threshold_inv_def threshold_ok_def cb_reset_def new_cb_snapshot_def)

lemma cb_apply_threshold [inv_intros]:
  "threshold_ok th \<Longrightarrow> threshold_inv th b \<Longrightarrow> threshold_inv th (cb_apply x b)"
  by (cases x) (auto intro: inv_intros)

lemma cb_run_threshold [inv_intros]:
  "threshold_ok th \<Longrightarrow> threshold_inv th b \<Longrightarrow> threshold_inv th (cb_run ops b)"
  by (induction ops arbitrary: b) (auto intro: inv_intros)

subsection \<open>Registry and manager\<close>

lemma cb_register_dict:
  "map_sum id snd (cb_register (br_provider b) (Some b) r) =
     dict_register br_provider (CircuitBreakerError (br_provider b)) b r"
  by (simp add: cb_register_def dict_register_def)

interpretation cb_reg: named_registry "keyed br_provider" map_of br_provider
  "\<lambda>b r. map_sum id snd (cb_register (br_provider b) (Some b) r)" cb_get cb_list
  unfolding cb_list_def
  by (rule dict_named_registry [where err = "\<lambda>b. CircuitBreakerError (br_provider b)"
        and miss = CircuitBreakerNotFoundError])
    (simp_all add: cb_register_dict cb_get_def)

definition cb_registry_inv :: "cb_registry \<Rightarrow> bool" where
  "cb_registry_inv r \<longleftrightarrow>
     keyed br_provider r \<and> (\<forall>p b. map_of r p = Some b \<longrightarrow> breaker_inv b)"

lemma cb_apply_provider [simp]: "br_provider (cb_apply x b) = br_provider b"
  by (cases x)
    (auto simp: allow_request_def record_failure_alt record_success_alt force_open_def cb_reset_def
      Let_def split: sum.split)

lemma cbm_ensure_cases:
  assumes "cb_registry_inv r" "cbm_ensure strat p r = Inr (b, r')"
  shows "map_of r' p = Some b" and "cb_registry_inv r'" and "br_provider b = p"
    and "breaker_inv b" and "\<And>q. q \<noteq> p \<Longrightarrow> map_of r' q = map_of r q"
    and "map_of r p = None \<Longrightarrow> br_strategy b = strat \<and> br_snapshot b = new_cb_snapshot p"
    and "map_of r p \<noteq> None \<Longrightarrow> r' = r"
proof -
  consider (old) "map_of r p = Some b" "r' = r"
    | (new) "map_of r p = None" "new_breaker p strat = Inr b" "r' = AList.update p b r"
    using assms(2)
    by (auto simp: cbm_ensure_def cb_get_def dict_lookup_def cbm_register_def cb_register_def
        split: option.splits sum.splits if_splits)
  then have "map_of r' p = Some b \<and> cb_registry_inv r' \<and> br_provider b = p \<and> breaker_inv b \<and>
      (\<forall>q. q \<noteq> p \<longrightarrow> map_of r' q = map_of r q) \<and>
      (map_of r p = None \<longrightarrow> br_strategy b = strat \<and> br_snapshot b = new_cb_snapshot p) \<and>
      (map_of r p \<noteq> None \<longrightarrow> r' = r)"
  proof cases
    case old
    then show ?thesis using assms(1) by (auto simp: cb_registry_inv_def dest: keyed_key)
  next
    case new
    then have "br_provider b = p" "br_strategy b = strat" "br_snapshot b = new_cb_snapshot p"
      by (auto simp: new_breaker_def split: if_splits)
    with new show ?thesis
      using assms(1) new_breaker_inv [OF new(2)] by (auto simp: cb_registry_inv_def)
  qed
  then show "map_of r' p = Some b" and "cb_registry_inv r'" and "br_provider b = p"
    and "breaker_inv b" and "\<And>q. q \<noteq> p \<Longrightarrow> map_of r' q = map_of r q"
    and "map_of r p = None \<Longrightarrow> br_strategy b = strat \<and> br_snapshot b = new_cb_snapshot p"
    and "map_of r p \<noteq> None \<Longrightarrow> r' = r"
    by auto
qed

lemma cb_registry_inv_update:
  "cb_registry_inv r \<Longrightarrow> breaker_inv b \<Longrightarrow> br_provider b = p \<Longrightarrow>
     cb_registry_inv (AList.update p b r)"
  by (auto simp: cb_registry_inv_def)

lemma cbm_ensure_total:
  "p \<noteq> '''' \<Longrightarrow> \<exists>b r'. cbm_ensure strat p r = Inr (b, r')"
  by (auto simp: cbm_ensure_def cb_get_def dict_lookup_def cbm_register_def cb_register_def
      new_breaker_def split: option.splits)

lemma health_event_effect_inv:
  "breaker_inv b \<Longrightarrow> breaker_inv (health_event_effect e now b)"
  by (simp add: health_event_effect_def cb_reset_inv force_open_inv record_failure_inv
      record_success_inv)

lemma health_event_effect_provider [simp]:
  "br_provider (health_event_effect e now b) = br_provider b"
  by (auto simp: health_event_effect_def force_open_def record_failure_alt record_success_alt
      cb_reset_def Let_def)

subsection \<open>Properties\<close>

text \<open>The answers that the admission requests of a sequence of operations get.\<close>

fun cb_answers :: "cb_op list \<Rightarrow> breaker \<Rightarrow> (cb_error + bool) list" where
  "cb_answers [] b = []"
| "cb_answers (Cb_allow t # xs) b =
     fst (allow_request t b) # cb_answers xs (snd (allow_request t b))"
| "cb_answers (x # xs) b = cb_answers xs (cb_apply x b)"

text \<open>A breaker in a given state under the default strategy, for the witnesses.\<close>

definition sample_breaker :: "circuit_state \<Rightarrow> breaker" where
  "sample_breaker s =
     \<lparr>br_provider = ''p'', br_strategy = threshold_strategy default_threshold,
      br_snapshot = (new_cb_snapshot ''p'')\<lparr>cs_state := s,
        cs_opened_at := (if s = CLOSED then None else Some 1)\<rparr>, br_events = []\<rparr>"

lemma sample_breaker_sel [simp]:
  "br_strategy (sample_breaker s) = threshold_strategy default_threshold"
  "cs_state (br_snapshot (sample_breaker s)) = s"
  "cs_opened_at (br_snapshot (sample_breaker s)) = (if s = CLOSED then None else Some 1)"
  "cs_consecutive_failures (br_snapshot (sample_breaker s)) = 0"
  "cs_half_open_success_count (br_snapshot (sample_breaker s)) = 0"
  by (simp_all add: sample_breaker_def new_cb_snapshot_def)

lemma sample_breaker_threshold: "threshold_inv default_threshold (sample_breaker s)"
  by (simp add: threshold_inv_def default_threshold_def)

lemma sample_breaker_new:
  "new_breaker ''p'' (threshold_strategy default_threshold) = Inr (sample_breaker CLOSED)"
  by (simp add: new_breaker_def sample_breaker_def new_cb_snapshot_def)

text \<open>C1: a breaker built by its constructor satisfies its invariant after every sequence of
  operations, whatever the strategy: opened_at is set exactly when it is not closed,
  half_open_since exactly when it is half open, probe successes are counted only then, and the
  events form an unbroken chain of the four legal state changes and resets that ends in the
  current state.\<close>

theorem breaker_state_machine:
  assumes "new_breaker p strat = Inr b"
  shows "breaker_inv (cb_run ops b) \<and>
    event_chain CLOSED (br_events (cb_run ops b)) (cs_state (br_snapshot (cb_run ops b)))"
proof -
  have "breaker_inv (cb_run ops b)"
    using assms by (intro cb_run_inv) (rule new_breaker_inv)
  then show ?thesis by (simp add: breaker_inv_def)
qed

theorem breaker_state_machine_witness:
  "breaker_inv (cb_run [Cb_force 3 None, Cb_allow 9] (sample_breaker CLOSED))"
  using breaker_state_machine [OF sample_breaker_new, of "[Cb_force 3 None, Cb_allow 9]"] by blast

text \<open>Under the threshold strategy a closed breaker that satisfies its invariants opens
  exactly at the failure that makes the failure threshold full, and not before.\<close>

theorem trips_exactly_at_threshold:
  assumes "threshold_inv th b" "cs_state (br_snapshot b) = CLOSED"
  shows "cs_state (br_snapshot (cb_run (map (\<lambda>(t, r). Cb_failure t r) fs) b)) =
    (if failure_threshold th \<le> cs_consecutive_failures (br_snapshot b) + int (length fs)
     then OPEN else CLOSED)"
proof -
  have open_stays: "cs_state (br_snapshot (cb_run (map (\<lambda>(t, r). Cb_failure t r) gs) c)) = OPEN"
    if "cs_state (br_snapshot c) = OPEN" for gs c
    using that by (induction gs arbitrary: c) (auto simp: record_failure_alt Let_def)
  show ?thesis
    using assms
  proof (induction fs arbitrary: b)
    case Nil
    then show ?case by (simp add: threshold_inv_def)
  next
    case (Cons f fs)
    obtain t r where f: "f = (t, r)" by fastforce
    let ?b = "record_failure t r b"
    have inv: "threshold_inv th ?b" using Cons.prems by (rule_tac record_failure_threshold)
    show ?case
    proof (cases "failure_threshold th \<le> cs_consecutive_failures (br_snapshot b) + 1")
      case True
      with Cons.prems have "cs_state (br_snapshot ?b) = OPEN"
        by (simp add: record_failure_alt Let_def threshold_inv_def th_should_open_def)
      with True show ?thesis by (simp add: f open_stays)
    next
      case False
      with Cons.prems have "cs_state (br_snapshot ?b) = CLOSED"
        and "cs_consecutive_failures (br_snapshot ?b) = cs_consecutive_failures (br_snapshot b) + 1"
        by (simp_all add: record_failure_alt Let_def threshold_inv_def th_should_open_def)
      with Cons.IH [OF inv] show ?thesis by (simp add: f)
    qed
  qed
qed

theorem trips_exactly_at_threshold_witness:
  "cs_state (br_snapshot (cb_run (map (\<lambda>(t, r). Cb_failure t r)
     [(1, None), (2, None), (3, None), (4, None), (5, None)]) (sample_breaker CLOSED))) = OPEN"
  using trips_exactly_at_threshold [OF sample_breaker_threshold,
      of CLOSED "[(1, None), (2, None), (3, None), (4, None), (5, None)]"]
  by (simp add: default_threshold_def del: cb_run_simps)

text \<open>C7: while an open breaker's open duration has not elapsed, no sequence of failures,
  successes, health events and admission requests lets a request through or changes the instant
  at which it opened; an admission request at or after that instant is granted and makes it half
  open. Where the end of the duration is past the last instant of a datetime, admission requests
  raise OverflowError instead, and the breaker stays open.\<close>

theorem open_rejects_until_duration:
  assumes "br_strategy b = threshold_strategy th" "cs_state (br_snapshot b) = OPEN"
    and "cs_opened_at (br_snapshot b) = Some t0"
    and "\<forall>x \<in> set ops. case x of Cb_allow t \<Rightarrow> t < t0 + open_duration th
                               | Cb_reset _ \<Rightarrow> False | _ \<Rightarrow> True"
  shows "cs_state (br_snapshot (cb_run ops b)) = OPEN \<and>
    cs_opened_at (br_snapshot (cb_run ops b)) = Some t0 \<and>
    (if t0 + open_duration th \<le> max_instant
     then set (cb_answers ops b) \<subseteq> {Inr False} \<and>
       (\<forall>t. fst (allow_request t (cb_run ops b)) = Inr (t0 + open_duration th \<le> t)) \<and>
       (\<forall>t \<ge> t0 + open_duration th.
          cs_state (br_snapshot (snd (allow_request t (cb_run ops b)))) = HALF_OPEN)
     else set (cb_answers ops b) \<subseteq> {Inl CB_OverflowError} \<and>
       (\<forall>t. allow_request t (cb_run ops b) = (Inl CB_OverflowError, cb_run ops b)))"
  using assms
proof (induction ops arbitrary: b)
  case Nil
  then show ?case by (simp add: allow_request_def th_should_half_open_def)
next
  case (Cons x ops)
  have rest: "\<forall>x \<in> set ops. case x of Cb_allow t \<Rightarrow> t < t0 + open_duration th
                               | Cb_reset _ \<Rightarrow> False | _ \<Rightarrow> True"
    using Cons.prems(4) by simp
  show ?case
  proof (cases "\<exists>t. x = Cb_allow t")
    case True
    then obtain t where x: "x = Cb_allow t" by blast
    with Cons.prems have deny: "allow_request t b =
        (if t0 + open_duration th \<le> max_instant then Inr False else Inl CB_OverflowError, b)"
      by (simp add: allow_request_def th_should_half_open_def)
    with Cons.IH [OF Cons.prems(1-3) rest] x show ?thesis by (simp split: if_splits)
  next
    case False
    then have step: "br_strategy (cb_apply x b) = threshold_strategy th"
      "cs_state (br_snapshot (cb_apply x b)) = OPEN" "cs_opened_at (br_snapshot (cb_apply x b)) = Some t0"
      using Cons.prems
      by (cases x; simp add: record_failure_alt record_success_alt force_open_def Let_def)+
    have answers: "cb_answers (x # ops) b = cb_answers ops (cb_apply x b)"
      using False by (cases x) auto
    show ?thesis unfolding cb_run_simps answers by (rule Cons.IH [OF step rest])
  qed
qed

theorem open_rejects_until_duration_witness:
  "set (cb_answers [Cb_allow 5, Cb_success 6, Cb_allow 7] (sample_breaker OPEN)) \<subseteq> {Inr False}"
  using open_rejects_until_duration [of "sample_breaker OPEN" default_threshold 1
      "[Cb_allow 5, Cb_success 6, Cb_allow 7]"]
  by (simp add: default_threshold_def one_second_def max_instant_def)

text \<open>C8: a half-open breaker closes exactly when the probe successes reach the success
  threshold, stays half open before, and one failed probe opens it again at that instant with
  the probe count cleared.\<close>

theorem half_open_outcome:
  assumes "threshold_inv th b" "cs_state (br_snapshot b) = HALF_OPEN"
  shows "cs_state (br_snapshot (cb_run (map Cb_success ts) b)) =
      (if half_open_success_threshold th \<le>
          cs_half_open_success_count (br_snapshot b) + int (length ts) then CLOSED else HALF_OPEN) \<and>
    cs_state (br_snapshot (record_failure t r b)) = OPEN \<and>
    cs_opened_at (br_snapshot (record_failure t r b)) = Some t \<and>
    cs_half_open_success_count (br_snapshot (record_failure t r b)) = 0"
proof -
  have closed_stays: "cs_state (br_snapshot (cb_run (map Cb_success us) c)) = CLOSED"
    if "cs_state (br_snapshot c) = CLOSED" for us c
    using that by (induction us arbitrary: c) (auto simp: record_success_alt Let_def)
  have "cs_state (br_snapshot (cb_run (map Cb_success ts) b)) =
      (if half_open_success_threshold th \<le>
          cs_half_open_success_count (br_snapshot b) + int (length ts) then CLOSED else HALF_OPEN)"
    using assms
  proof (induction ts arbitrary: b)
    case Nil
    then show ?case by (simp add: threshold_inv_def)
  next
    case (Cons u ts)
    let ?b = "record_success u b"
    show ?case
    proof (cases "half_open_success_threshold th \<le> cs_half_open_success_count (br_snapshot b) + 1")
      case True
      with Cons.prems have "cs_state (br_snapshot ?b) = CLOSED"
        by (simp add: record_success_alt Let_def threshold_inv_def th_should_close_def)
      with True show ?thesis by (simp add: closed_stays)
    next
      case False
      with Cons.prems have "cs_state (br_snapshot ?b) = HALF_OPEN" "threshold_inv th ?b"
        and "cs_half_open_success_count (br_snapshot ?b) =
          cs_half_open_success_count (br_snapshot b) + 1"
        by (simp_all add: record_success_alt Let_def threshold_inv_def th_should_close_def)
      with Cons.IH [of ?b] show ?thesis by simp
    qed
  qed
  with assms(2) show ?thesis by (simp add: record_failure_alt Let_def)
qed

theorem half_open_outcome_witness:
  "cs_state (br_snapshot (cb_run (map Cb_success [1, 2, 3]) (sample_breaker HALF_OPEN))) = CLOSED"
  using half_open_outcome [OF sample_breaker_threshold, of HALF_OPEN "[1, 2, 3]"]
  by (simp add: default_threshold_def del: cb_run_simps)

text \<open>C16: a breaker under a threshold strategy recovers without a reset. From any state that
  satisfies the invariant, one admission request, which comes at or after the end of the open
  duration when the breaker is open, is granted, and as many successes as the half-open threshold
  close the breaker. The one exception is an open breaker whose open duration ends past the last
  instant of a datetime: after any sequence of other operations than resets it is open, and every
  admission request raises.\<close>

theorem breaker_recoverable:
  assumes "br_strategy b = threshold_strategy th" "threshold_ok th" "breaker_inv b"
    and "half_open_success_threshold th \<le> int (length ts)"
  shows "case cs_opened_at (br_snapshot b) of
      None \<Rightarrow> fst (allow_request t b) = Inr True \<and>
        cs_state (br_snapshot (cb_run (Cb_allow t # map Cb_success ts) b)) = CLOSED
    | Some u \<Rightarrow>
        if cs_state (br_snapshot b) = OPEN \<and> max_instant < u + open_duration th
        then \<forall>ops. (\<forall>x \<in> set ops. \<forall>t. x \<noteq> Cb_reset t) \<longrightarrow>
          cs_state (br_snapshot (cb_run ops b)) = OPEN \<and>
          (\<forall>t. fst (allow_request t (cb_run ops b)) = Inl CB_OverflowError)
        else (cs_state (br_snapshot b) = OPEN \<longrightarrow> u + open_duration th \<le> t) \<longrightarrow>
          fst (allow_request t b) = Inr True \<and>
          cs_state (br_snapshot (cb_run (Cb_allow t # map Cb_success ts) b)) = CLOSED"
proof -
  have ts: "ts \<noteq> []" "nat (half_open_success_threshold th) \<le> length ts"
    using assms(2,4) by (auto simp: threshold_ok_def)
  note go = th_policy.recovers [OF assms(1,3) ts, of t]
  show ?thesis
  proof (cases "cs_opened_at (br_snapshot b)")
    case None
    with assms(3) have "cs_state (br_snapshot b) \<noteq> OPEN" by (auto simp: breaker_inv_def)
    with None go show ?thesis by simp
  next
    case (Some u)
    show ?thesis
    proof (cases "cs_state (br_snapshot b) = OPEN \<and> max_instant < u + open_duration th")
      case True
      then have due: "th_due th u = None" by (simp add: th_due_def)
      have "cs_state (br_snapshot (cb_run ops b)) = OPEN \<and>
          (\<forall>t. fst (allow_request t (cb_run ops b)) = Inl CB_OverflowError)"
        if "\<forall>x \<in> set ops. \<forall>t. x \<noteq> Cb_reset t" for ops
        using th_policy.open_for_ever [OF assms(1) _ Some due that] True
        by (simp add: allow_request_def th_should_half_open_def)
      with True Some show ?thesis by auto
    next
      case False
      with Some go show ?thesis by (auto simp: th_due_def)
    qed
  qed
qed

theorem breaker_recoverable_witness:
  "cs_state (br_snapshot (cb_run (Cb_allow 40000000 # map Cb_success [41000000, 42000000, 43000000])
     (force_open 1 None (sample_breaker CLOSED)))) = CLOSED"
proof -
  let ?b = "force_open 1 None (sample_breaker CLOSED)"
  have "breaker_inv ?b"
    using new_breaker_inv [OF sample_breaker_new] by (rule force_open_inv)
  moreover have "br_strategy ?b = threshold_strategy default_threshold"
    "cs_opened_at (br_snapshot ?b) = Some 1"
    by (simp_all add: force_open_def)
  moreover have "threshold_ok default_threshold"
    by (simp add: threshold_ok_def default_threshold_def one_second_def)
  ultimately show ?thesis
    using breaker_recoverable [of ?b default_threshold "[41000000, 42000000, 43000000]" 40000000]
    by (simp add: default_threshold_def one_second_def max_instant_def del: cb_run_simps)
qed

text \<open>A half-open breaker admits every request: any number of admission requests in a row is
  granted and none of them changes the breaker, so the number of concurrent probes is not
  bounded, although the strategy documents one probe.\<close>

theorem half_open_admits_every_request:
  assumes "cs_state (br_snapshot b) = HALF_OPEN"
  shows "cb_answers (map Cb_allow ts) b = replicate (length ts) (Inr True) \<and>
    cb_run (map Cb_allow ts) b = b"
  using assms by (induction ts) (simp_all add: allow_request_def)

theorem half_open_admits_every_request_witness:
  "cb_answers (map Cb_allow [1, 2, 3]) (sample_breaker HALF_OPEN) = [Inr True, Inr True, Inr True]"
  using half_open_admits_every_request [of "sample_breaker HALF_OPEN" "[1, 2, 3]"] by simp

text \<open>A health event about one provider acts on that provider's breaker only, keeps the
  registry's invariant, creates the breaker when it is missing, and always leaves the breaker
  open when the event reports the provider unhealthy and new when it reports a reset.\<close>

theorem health_event_isolated:
  assumes "cb_registry_inv r" "he_provider e \<noteq> ''''"
  shows "\<exists>s r'. cbm_handle_health_event strat e now r = Inr (s, r') \<and> cb_registry_inv r' \<and>
    (\<exists>b. map_of r' (he_provider e) = Some b \<and> br_snapshot b = s) \<and>
    (\<forall>q. q \<noteq> he_provider e \<longrightarrow> map_of r' q = map_of r q) \<and>
    (he_event e = ''ProviderReset'' \<longrightarrow> s = new_cb_snapshot (he_provider e)) \<and>
    (he_event e \<noteq> ''ProviderReset'' \<and> he_new_status e = HS_UNHEALTHY \<longrightarrow> cs_state s = OPEN)"
proof -
  obtain b r' where e: "cbm_ensure strat (he_provider e) r = Inr (b, r')"
    using cbm_ensure_total [OF assms(2)] by blast
  note c = cbm_ensure_cases [OF assms(1) e]
  let ?b = "health_event_effect e now b"
  have "cb_registry_inv (AList.update (he_provider e) ?b r')"
    using c by (intro cb_registry_inv_update) (auto intro: health_event_effect_inv)
  moreover have "br_snapshot ?b = new_cb_snapshot (he_provider e)"
    if "he_event e = ''ProviderReset''"
    using that c(3) by (simp add: health_event_effect_def cb_reset_def)
  moreover have "cs_state (br_snapshot ?b) = OPEN"
    if "he_event e \<noteq> ''ProviderReset''" "he_new_status e = HS_UNHEALTHY"
    using that by (simp add: health_event_effect_def force_open_def)
  ultimately show ?thesis
    using e c(5) by (simp add: cbm_handle_health_event_def Let_def)
qed

theorem health_event_isolated_witness:
  "\<exists>s r'. cbm_handle_health_event (threshold_strategy default_threshold)
     \<lparr>he_provider = ''p'', he_event = ''ProviderUnhealthy'', he_old_status = HS_DEGRADED,
      he_new_status = HS_UNHEALTHY, he_timestamp = 7, he_reason = None\<rparr> 7 [] = Inr (s, r') \<and>
   cs_state s = OPEN"
proof -
  let ?e = "\<lparr>he_provider = ''p'', he_event = ''ProviderUnhealthy'', he_old_status = HS_DEGRADED,
      he_new_status = HS_UNHEALTHY, he_timestamp = 7, he_reason = None\<rparr>"
  have "cb_registry_inv []" "he_provider ?e \<noteq> ''''" by (simp_all add: cb_registry_inv_def)
  from health_event_isolated [OF this, of "threshold_strategy default_threshold" 7]
  show ?thesis by auto
qed

text \<open>The order in which two breakers are registered does not show in the registry's
  listing, and a registered breaker is found again under its name.\<close>

theorem breaker_registration_commutes:
  assumes "keyed br_provider r"
    and "cb_register (br_provider a) (Some a) r = Inr (a', ra)"
    and "cb_register (br_provider b) (Some b) ra = Inr (b', rb)"
  shows "cb_get (br_provider b) rb = Inr b \<and> cb_get (br_provider a) rb = Inr a \<and>
    (\<exists>b2 r2 a2 r3. cb_register (br_provider b) (Some b) r = Inr (b2, r2) \<and>
       cb_register (br_provider a) (Some a) r2 = Inr (a2, r3) \<and> cb_list r3 = cb_list rb)"
proof -
  let ?reg = "\<lambda>b r. map_sum id snd (cb_register (br_provider b) (Some b) r)"
  have 1: "?reg a r = Inr ra" "?reg b ra = Inr rb" using assms(2,3) by simp_all
  note inv = cb_reg.register_Inr(2) [OF assms(1) 1(1)]
  have ne: "br_provider a \<noteq> br_provider b"
    using cb_reg.register_twice [OF assms(1) 1(1), of b] 1(2) by auto
  have "cb_get (br_provider b) rb = Inr b" "cb_get (br_provider a) rb = Inr a"
    using cb_reg.register_get [OF inv 1(2)]
      cb_reg.register_get_other [OF inv 1(2) ne cb_reg.register_get [OF assms(1) 1(1)]] by auto
  moreover obtain r2 r3 where "?reg b r = Inr r2" "?reg a r2 = Inr r3" "cb_list r3 = cb_list rb"
    using cb_reg.register_commute [OF assms(1) 1] by blast
  ultimately show ?thesis
    by (cases "cb_register (br_provider b) (Some b) r"; cases "cb_register (br_provider a) (Some a) r2")
      auto
qed

theorem breaker_registration_commutes_witness:
  "\<exists>a b rb. cb_get (br_provider a) rb = Inr a \<and> cb_list rb = [b, a] \<and> br_provider b = ''a''"
proof -
  define mk where "mk p = \<lparr>br_provider = p, br_strategy = threshold_strategy default_threshold,
    br_snapshot = new_cb_snapshot p, br_events = []\<rparr>" for p
  have 1: "cb_register (br_provider (mk ''x'')) (Some (mk ''x'')) [] =
      Inr (mk ''x'', [(''x'', mk ''x'')])"
    and 2: "cb_register (br_provider (mk ''a'')) (Some (mk ''a'')) [(''x'', mk ''x'')] =
      Inr (mk ''a'', [(''x'', mk ''x''), (''a'', mk ''a'')])"
    by (simp_all add: cb_register_def mk_def)
  have "cb_list [(''x'', mk ''x''), (''a'', mk ''a'')] = [mk ''a'', mk ''x'']"
    by (simp add: cb_list_def sorted_values_def sorted_keys_def)
  moreover have "cb_get (br_provider (mk ''x'')) [(''x'', mk ''x''), (''a'', mk ''a'')] = Inr (mk ''x'')"
    using breaker_registration_commutes [OF keyed_Nil 1 2] by (elim conjE)
  moreover have "br_provider (mk ''a'') = ''a''" by (simp add: mk_def)
  ultimately show ?thesis by blast
qed

end
