(* ===== verification/Rate_Limit.thy ===== *)
theory Rate_Limit
  imports TK_Prelude "HOL-Library.Product_Lexorder"
begin

text \<open>
  Local quotas (\<open>src/src/tkai/rate_limit/\<close>): validated snapshots, the registry keyed by
  provider and scope, the sliding-window and fixed-window strategies, the limiter that consults
  a strategy and stores its snapshot, and the manager that adds events. The strategy interface
  is a record of its three operations over a strategy-owned state. Every clock reading is an
  argument: the limiter reads the clock once to decide and the strategy reads it again to
  consume, so \<open>limiter_consume\<close> takes the readings \<open>t0 t1 t2\<close> in program order. The
  clock is UTC, so truncating an instant to the minute is a remainder.

  Both strategies lock \<open>consume\<close> in two sections, the check (\<open>sl_allow\<close>, \<open>fx_allow\<close>) and the
  recording (\<open>sl_record\<close>, \<open>fx_record\<close>). The properties are about callers that finish a call before
  the next one begins; two callers that both check before either records exceed a limit
  (\<open>checks_before_records\<close>).
\<close>

subsection \<open>Snapshots\<close>

record rl_snapshot =
  rs_provider :: string
  rs_scope :: string
  rs_requests_per_second :: int
  rs_requests_per_minute :: int
  rs_tokens_per_minute :: int
  rs_current_requests :: int
  rs_current_tokens :: int
  rs_remaining_requests :: int
  rs_remaining_tokens :: int
  rs_reset_at :: "time option"
  rs_last_updated :: "time option"

datatype rl_error =
    RL_ValueError string
  | RateLimitError string string
  | QuotaNotFoundError string string

type_synonym rl_key = "string \<times> string"

definition rl_key :: "rl_snapshot \<Rightarrow> rl_key" where
  "rl_key s = (rs_provider s, rs_scope s)"

text \<open>Construction (and \<open>dataclasses.replace\<close>) runs these checks.\<close>

definition rl_post_init :: "rl_snapshot \<Rightarrow> rl_error + rl_snapshot" where
  "rl_post_init s =
     (if rs_provider s = '''' \<or> rs_scope s = ''''
      then Inl (RL_ValueError ''provider and scope must not be empty'')
      else if rs_requests_per_second s < 0 \<or> rs_requests_per_minute s < 0 \<or>
              rs_tokens_per_minute s < 0 \<or> rs_current_requests s < 0 \<or>
              rs_current_tokens s < 0 \<or> rs_remaining_requests s < 0 \<or>
              rs_remaining_tokens s < 0
      then Inl (RL_ValueError ''quota values must not be negative'')
      else Inr s)"

abbreviation rl_valid :: "rl_snapshot \<Rightarrow> bool" where
  "rl_valid s \<equiv> rl_post_init s = Inr s"

lemma rl_valid_iff:
  "rl_valid s \<longleftrightarrow>
     rs_provider s \<noteq> '''' \<and> rs_scope s \<noteq> '''' \<and> 0 \<le> rs_requests_per_second s \<and>
     0 \<le> rs_requests_per_minute s \<and> 0 \<le> rs_tokens_per_minute s \<and>
     0 \<le> rs_current_requests s \<and> 0 \<le> rs_current_tokens s \<and>
     0 \<le> rs_remaining_requests s \<and> 0 \<le> rs_remaining_tokens s"
  by (auto simp: rl_post_init_def)

subsection \<open>Registry\<close>

type_synonym quota_registry = "(rl_key, rl_snapshot) dict"

definition quota_register :: "rl_snapshot \<Rightarrow> quota_registry \<Rightarrow> rl_error + quota_registry" where
  "quota_register s r =
     dict_register rl_key (RateLimitError (rs_provider s) (rs_scope s)) s r"

definition quota_get :: "string \<Rightarrow> string \<Rightarrow> quota_registry \<Rightarrow> rl_error + rl_snapshot" where
  "quota_get p sc r = dict_lookup (QuotaNotFoundError p sc) (p, sc) r"

definition quota_list :: "quota_registry \<Rightarrow> rl_snapshot list" where
  "quota_list r = sorted_values r"

definition quota_update :: "rl_snapshot \<Rightarrow> quota_registry \<Rightarrow> rl_error + quota_registry" where
  "quota_update s r =
     (if map_of r (rl_key s) = None
      then Inl (QuotaNotFoundError (rs_provider s) (rs_scope s))
      else Inr (AList.update (rl_key s) s r))"

definition quota_fresh :: "rl_snapshot \<Rightarrow> rl_snapshot" where
  "quota_fresh s =
     \<lparr>rs_provider = rs_provider s, rs_scope = rs_scope s,
      rs_requests_per_second = rs_requests_per_second s,
      rs_requests_per_minute = rs_requests_per_minute s,
      rs_tokens_per_minute = rs_tokens_per_minute s,
      rs_current_requests = 0, rs_current_tokens = 0,
      rs_remaining_requests = rs_requests_per_minute s,
      rs_remaining_tokens = rs_tokens_per_minute s,
      rs_reset_at = None, rs_last_updated = None\<rparr>"

definition quota_reset ::
  "string \<Rightarrow> string \<Rightarrow> quota_registry \<Rightarrow> rl_error + (rl_snapshot \<times> quota_registry)" where
  "quota_reset p sc r =
     (case quota_get p sc r of
        Inl e \<Rightarrow> Inl e
      | Inr s \<Rightarrow>
          (case rl_post_init (quota_fresh s) of
             Inl e \<Rightarrow> Inl e
           | Inr s' \<Rightarrow>
               (case quota_update s' r of Inl e \<Rightarrow> Inl e | Inr r' \<Rightarrow> Inr (s', r'))))"

definition quota_clear :: "quota_registry \<Rightarrow> quota_registry" where
  "quota_clear r = []"

subsection \<open>Strategy interface\<close>

text \<open>\<open>rl_consume\<close> takes the reading of its own quota check and the reading at which it
  records the request.\<close>

record 's rl_ops =
  rl_allow :: "rl_snapshot \<Rightarrow> int \<Rightarrow> time \<Rightarrow> 's \<Rightarrow> bool \<times> 's"
  rl_consume :: "rl_snapshot \<Rightarrow> int \<Rightarrow> time \<Rightarrow> time \<Rightarrow> 's \<Rightarrow> (rl_error + rl_snapshot) \<times> 's"
  rl_reset :: "rl_snapshot \<Rightarrow> time \<Rightarrow> 's \<Rightarrow> (rl_error + rl_snapshot) \<times> 's"

subsection \<open>Sliding windows\<close>

record sliding =
  sl_requests :: "(rl_key, time list) dict"
  sl_tokens :: "(rl_key, (time \<times> int) list) dict"

definition sl_prune ::
  "rl_snapshot \<Rightarrow> time \<Rightarrow> sliding \<Rightarrow> time list \<times> (time \<times> int) list \<times> sliding" where
  "sl_prune s now st =
     (let key = rl_key s;
          oldest = now - one_minute;
          requests = dropWhile (\<lambda>t. t \<le> oldest) (dict_get (sl_requests st) key []);
          token_entries = dropWhile (\<lambda>e. fst e \<le> oldest) (dict_get (sl_tokens st) key [])
      in (requests, token_entries,
          \<lparr>sl_requests = AList.update key requests (sl_requests st),
           sl_tokens = AList.update key token_entries (sl_tokens st)\<rparr>))"

definition sl_allow :: "rl_snapshot \<Rightarrow> int \<Rightarrow> time \<Rightarrow> sliding \<Rightarrow> bool \<times> sliding" where
  "sl_allow s tokens now st =
     (if tokens < 0 then (False, st)
      else
        let (requests, token_entries, st') = sl_prune s now st;
            second_count = int (length (filter (\<lambda>t. now - one_second < t) requests));
            token_count = sum_list (map snd token_entries)
        in if rs_requests_per_second s \<noteq> 0 \<and> rs_requests_per_second s \<le> second_count
           then (False, st')
           else if rs_requests_per_minute s \<noteq> 0 \<and>
                   rs_requests_per_minute s \<le> int (length requests)
           then (False, st')
           else (\<not> (rs_tokens_per_minute s \<noteq> 0 \<and>
                     rs_tokens_per_minute s < token_count + tokens), st'))"

text \<open>\<open>min(generator, default=None)\<close>.\<close>

fun list_min :: "'a::linorder list \<Rightarrow> 'a option" where
  "list_min [] = None"
| "list_min (x # xs) = Some (foldl min x xs)"

definition remaining :: "int \<Rightarrow> int \<Rightarrow> int" where
  "remaining limit used = (if limit \<noteq> 0 then max 0 (limit - used) else 0)"

definition sl_refresh ::
  "rl_snapshot \<Rightarrow> time \<Rightarrow> sliding \<Rightarrow> (rl_error + rl_snapshot) \<times> sliding" where
  "sl_refresh s now st =
     (let (requests, token_entries, st') = sl_prune s now st;
          current_requests = int (length requests);
          current_tokens = sum_list (map snd token_entries)
      in (rl_post_init
            (s\<lparr>rs_current_requests := current_requests,
               rs_current_tokens := current_tokens,
               rs_remaining_requests := remaining (rs_requests_per_minute s) current_requests,
               rs_remaining_tokens := remaining (rs_tokens_per_minute s) current_tokens,
               rs_reset_at := list_min (map (\<lambda>t. t + one_minute) requests),
               rs_last_updated := Some now\<rparr>), st'))"

text \<open>The section of \<open>consume\<close> that records a request, after the check has released the lock.\<close>

definition sl_record ::
  "rl_snapshot \<Rightarrow> int \<Rightarrow> time \<Rightarrow> sliding \<Rightarrow> (rl_error + rl_snapshot) \<times> sliding" where
  "sl_record s tokens t2 st =
     (let (requests, token_entries, st2) = sl_prune s t2 st;
          key = rl_key s
      in sl_refresh s t2
           \<lparr>sl_requests = AList.update key (requests @ [t2]) (sl_requests st2),
            sl_tokens = AList.update key (token_entries @ [(t2, tokens)]) (sl_tokens st2)\<rparr>)"

definition sl_consume ::
  "rl_snapshot \<Rightarrow> int \<Rightarrow> time \<Rightarrow> time \<Rightarrow> sliding \<Rightarrow> (rl_error + rl_snapshot) \<times> sliding" where
  "sl_consume s tokens t1 t2 st =
     (let (allowed, st1) = sl_allow s tokens t1 st in
      if \<not> allowed then sl_refresh s t2 st1 else sl_record s tokens t2 st1)"

definition sl_reset ::
  "rl_snapshot \<Rightarrow> time \<Rightarrow> sliding \<Rightarrow> (rl_error + rl_snapshot) \<times> sliding" where
  "sl_reset s now st =
     sl_refresh s now
       \<lparr>sl_requests = AList.delete (rl_key s) (sl_requests st),
        sl_tokens = AList.delete (rl_key s) (sl_tokens st)\<rparr>"

definition sliding_ops :: "sliding rl_ops" where
  "sliding_ops = \<lparr>rl_allow = sl_allow, rl_consume = sl_consume, rl_reset = sl_reset\<rparr>"

definition new_sliding :: sliding where
  "new_sliding = \<lparr>sl_requests = [], sl_tokens = []\<rparr>"

subsection \<open>Fixed windows\<close>

record fixed =
  fx_windows :: "(rl_key, time \<times> int \<times> int) dict"
  fx_second_windows :: "(rl_key, time \<times> int) dict"

definition minute_start :: "time \<Rightarrow> time" where
  "minute_start t = t - t mod one_minute"

definition second_start :: "time \<Rightarrow> time" where
  "second_start t = t - t mod one_second"

definition fx_window ::
  "rl_snapshot \<Rightarrow> time \<Rightarrow> fixed \<Rightarrow> (time \<times> int \<times> int) \<times> fixed" where
  "fx_window s now st =
     (let start = minute_start now;
          fresh = ((start, 0, 0),
            st\<lparr>fx_windows := AList.update (rl_key s) (start, 0, 0) (fx_windows st)\<rparr>)
      in case map_of (fx_windows st) (rl_key s) of
           None \<Rightarrow> fresh
         | Some w \<Rightarrow> if fst w \<noteq> start then fresh else (w, st))"

definition fx_second_window :: "rl_snapshot \<Rightarrow> time \<Rightarrow> fixed \<Rightarrow> (time \<times> int) \<times> fixed" where
  "fx_second_window s now st =
     (let start = second_start now;
          fresh = ((start, 0),
            st\<lparr>fx_second_windows := AList.update (rl_key s) (start, 0) (fx_second_windows st)\<rparr>)
      in case map_of (fx_second_windows st) (rl_key s) of
           None \<Rightarrow> fresh
         | Some w \<Rightarrow> if fst w \<noteq> start then fresh else (w, st))"

definition fx_allow :: "rl_snapshot \<Rightarrow> int \<Rightarrow> time \<Rightarrow> fixed \<Rightarrow> bool \<times> fixed" where
  "fx_allow s tokens now st =
     (if tokens < 0 then (False, st)
      else
        let ((_, requests, token_count), st1) = fx_window s now st;
            ((_, second_requests), st2) = fx_second_window s now st1
        in (\<not> ((rs_requests_per_second s \<noteq> 0 \<and> rs_requests_per_second s \<le> second_requests) \<or>
               (rs_requests_per_minute s \<noteq> 0 \<and> rs_requests_per_minute s \<le> requests) \<or>
               (rs_tokens_per_minute s \<noteq> 0 \<and>
                rs_tokens_per_minute s < token_count + tokens)), st2))"

definition fx_refresh ::
  "rl_snapshot \<Rightarrow> time \<Rightarrow> fixed \<Rightarrow> (rl_error + rl_snapshot) \<times> fixed" where
  "fx_refresh s now st =
     (let ((start, requests, token_count), st') = fx_window s now st
      in (rl_post_init
            (s\<lparr>rs_current_requests := requests,
               rs_current_tokens := token_count,
               rs_remaining_requests := remaining (rs_requests_per_minute s) requests,
               rs_remaining_tokens := remaining (rs_tokens_per_minute s) token_count,
               rs_reset_at := Some (start + one_minute),
               rs_last_updated := Some now\<rparr>), st'))"

text \<open>The fixed-window strategy reads the clock once per call, so the second reading is not
  used.\<close>

definition fx_record ::
  "rl_snapshot \<Rightarrow> int \<Rightarrow> time \<Rightarrow> fixed \<Rightarrow> (rl_error + rl_snapshot) \<times> fixed" where
  "fx_record s tokens current st =
     (let ((start, requests, token_count), st2) = fx_window s current st;
          st3 = st2\<lparr>fx_windows := AList.update (rl_key s)
                  (start, requests + 1, token_count + tokens) (fx_windows st2)\<rparr>;
          ((second_start, second_requests), st4) = fx_second_window s current st3;
          st5 = st4\<lparr>fx_second_windows := AList.update (rl_key s)
                  (second_start, second_requests + 1) (fx_second_windows st4)\<rparr>
      in fx_refresh s current st5)"

definition fx_consume ::
  "rl_snapshot \<Rightarrow> int \<Rightarrow> time \<Rightarrow> time \<Rightarrow> fixed \<Rightarrow> (rl_error + rl_snapshot) \<times> fixed" where
  "fx_consume s tokens current _ st =
     (let (allowed, st1) = fx_allow s tokens current st in
      if \<not> allowed then fx_refresh s current st1 else fx_record s tokens current st1)"

definition fx_reset :: "rl_snapshot \<Rightarrow> time \<Rightarrow> fixed \<Rightarrow> (rl_error + rl_snapshot) \<times> fixed" where
  "fx_reset s now st =
     fx_refresh s now
       \<lparr>fx_windows = AList.delete (rl_key s) (fx_windows st),
        fx_second_windows = AList.delete (rl_key s) (fx_second_windows st)\<rparr>"

definition fixed_ops :: "fixed rl_ops" where
  "fixed_ops = \<lparr>rl_allow = fx_allow, rl_consume = fx_consume, rl_reset = fx_reset\<rparr>"

definition new_fixed :: fixed where
  "new_fixed = \<lparr>fx_windows = [], fx_second_windows = []\<rparr>"

subsection \<open>Limiter and manager\<close>

datatype rl_event =
    RateLimitExceeded string string rl_snapshot
  | QuotaConsumed string string rl_snapshot
  | QuotaReset string string rl_snapshot

text \<open>The limiter shares its registry and its strategy with the manager; one state holds them
  with the manager's event list.\<close>

record 's rl_state =
  rl_registry :: quota_registry
  rl_strategy :: 's
  rl_events :: "rl_event list"

definition limiter_allow ::
  "'s rl_ops \<Rightarrow> string \<Rightarrow> string \<Rightarrow> int \<Rightarrow> time \<Rightarrow> 's rl_state \<Rightarrow> (rl_error + bool) \<times> 's rl_state" where
  "limiter_allow ops p sc tokens t0 m =
     (case quota_get p sc (rl_registry m) of
        Inl e \<Rightarrow> (Inl e, m)
      | Inr s \<Rightarrow>
          let (ok, st) = rl_allow ops s tokens t0 (rl_strategy m)
          in (Inr ok, m\<lparr>rl_strategy := st\<rparr>))"

definition limiter_consume ::
  "'s rl_ops \<Rightarrow> string \<Rightarrow> string \<Rightarrow> int \<Rightarrow> time \<Rightarrow> time \<Rightarrow> time \<Rightarrow> 's rl_state \<Rightarrow>
     (rl_error + bool \<times> rl_snapshot) \<times> 's rl_state" where
  "limiter_consume ops p sc tokens t0 t1 t2 m =
     (case quota_get p sc (rl_registry m) of
        Inl e \<Rightarrow> (Inl e, m)
      | Inr s \<Rightarrow>
          let (allowed, st1) = rl_allow ops s tokens t0 (rl_strategy m);
              (res, st2) = rl_consume ops s tokens t1 t2 st1;
              m' = m\<lparr>rl_strategy := st2\<rparr>
          in case res of
               Inl e \<Rightarrow> (Inl e, m')
             | Inr updated \<Rightarrow>
                 (case quota_update updated (rl_registry m) of
                    Inl e \<Rightarrow> (Inl e, m')
                  | Inr r \<Rightarrow> (Inr (allowed, updated), m'\<lparr>rl_registry := r\<rparr>)))"

definition limiter_reset ::
  "'s rl_ops \<Rightarrow> string \<Rightarrow> string \<Rightarrow> time \<Rightarrow> 's rl_state \<Rightarrow> (rl_error + rl_snapshot) \<times> 's rl_state" where
  "limiter_reset ops p sc t m =
     (case quota_get p sc (rl_registry m) of
        Inl e \<Rightarrow> (Inl e, m)
      | Inr s \<Rightarrow>
          let (res, st) = rl_reset ops s t (rl_strategy m);
              m' = m\<lparr>rl_strategy := st\<rparr>
          in case res of
               Inl e \<Rightarrow> (Inl e, m')
             | Inr updated \<Rightarrow>
                 (case quota_update updated (rl_registry m) of
                    Inl e \<Rightarrow> (Inl e, m')
                  | Inr r \<Rightarrow> (Inr updated, m'\<lparr>rl_registry := r\<rparr>)))"

definition rlm_register ::
  "'s rl_ops \<Rightarrow> rl_snapshot \<Rightarrow> time \<Rightarrow> 's rl_state \<Rightarrow> (rl_error + unit) \<times> 's rl_state" where
  "rlm_register ops s t m =
     (case quota_register s (rl_registry m) of
        Inl e \<Rightarrow> (Inl e, m)
      | Inr r \<Rightarrow>
          let (res, st) = rl_reset ops s t (rl_strategy m);
              m' = m\<lparr>rl_registry := r, rl_strategy := st\<rparr>
          in case res of
               Inl e \<Rightarrow> (Inl e, m')
             | Inr updated \<Rightarrow>
                 (case quota_update updated r of
                    Inl e \<Rightarrow> (Inl e, m')
                  | Inr r' \<Rightarrow> (Inr (), m'\<lparr>rl_registry := r'\<rparr>)))"

definition rlm_publish :: "rl_event \<Rightarrow> 's rl_state \<Rightarrow> 's rl_state" where
  "rlm_publish e m = m\<lparr>rl_events := rl_events m @ [e]\<rparr>"

definition rlm_list :: "'s rl_state \<Rightarrow> rl_snapshot list" where
  "rlm_list m = quota_list (rl_registry m)"

definition rlm_allow ::
  "'s rl_ops \<Rightarrow> string \<Rightarrow> string \<Rightarrow> int \<Rightarrow> time \<Rightarrow> 's rl_state \<Rightarrow> (rl_error + bool) \<times> 's rl_state" where
  "rlm_allow ops p sc tokens t0 m = limiter_allow ops p sc tokens t0 m"

definition rlm_consume ::
  "'s rl_ops \<Rightarrow> string \<Rightarrow> string \<Rightarrow> int \<Rightarrow> time \<Rightarrow> time \<Rightarrow> time \<Rightarrow> 's rl_state \<Rightarrow>
     (rl_error + bool) \<times> 's rl_state" where
  "rlm_consume ops p sc tokens t0 t1 t2 m =
     (case limiter_consume ops p sc tokens t0 t1 t2 m of
        (Inl e, m') \<Rightarrow> (Inl e, m')
      | (Inr (allowed, s), m') \<Rightarrow>
          (Inr allowed,
           rlm_publish (if allowed then QuotaConsumed p sc s else RateLimitExceeded p sc s) m'))"

definition rlm_reset ::
  "'s rl_ops \<Rightarrow> string \<Rightarrow> string \<Rightarrow> time \<Rightarrow> 's rl_state \<Rightarrow> (rl_error + rl_snapshot) \<times> 's rl_state" where
  "rlm_reset ops p sc t m =
     (case limiter_reset ops p sc t m of
        (Inl e, m') \<Rightarrow> (Inl e, m')
      | (Inr s, m') \<Rightarrow> (Inr s, rlm_publish (QuotaReset p sc s) m'))"

subsection \<open>The history of a quota\<close>

text \<open>
  The abstract state of a strategy is, for each key, the list of all the requests it accepted
  since the last reset, each with its time stamp and its tokens. A call extends that history
  when the strategy's own quota check accepts.
\<close>

type_synonym quota_log = "(time \<times> int) list"

datatype rl_call =
    RL_Allow rl_snapshot int time
  | RL_Consume rl_snapshot int time time
  | RL_Reset rl_snapshot time

fun call_times :: "rl_call \<Rightarrow> time list" where
  "call_times (RL_Allow _ _ t) = [t]"
| "call_times (RL_Consume _ _ t1 t2) = [t1, t2]"
| "call_times (RL_Reset _ t) = [t]"

fun call_snapshot :: "rl_call \<Rightarrow> rl_snapshot" where
  "call_snapshot (RL_Allow s _ _) = s"
| "call_snapshot (RL_Consume s _ _ _) = s"
| "call_snapshot (RL_Reset s _) = s"

fun rl_call_step ::
  "'s rl_ops \<Rightarrow> (time \<Rightarrow> time \<Rightarrow> time) \<Rightarrow> rl_call \<Rightarrow> 's \<times> (rl_key \<Rightarrow> quota_log) \<Rightarrow>
     's \<times> (rl_key \<Rightarrow> quota_log)" where
  "rl_call_step ops stamp (RL_Allow s tokens t) (st, L) = (snd (rl_allow ops s tokens t st), L)"
| "rl_call_step ops stamp (RL_Consume s tokens t1 t2) (st, L) =
     (snd (rl_consume ops s tokens t1 t2 st),
      if fst (rl_allow ops s tokens t1 st)
      then L(rl_key s := L (rl_key s) @ [(stamp t1 t2, tokens)]) else L)"
| "rl_call_step ops stamp (RL_Reset s t) (st, L) =
     (snd (rl_reset ops s t st), L(rl_key s := []))"

definition rl_calls ::
  "'s rl_ops \<Rightarrow> (time \<Rightarrow> time \<Rightarrow> time) \<Rightarrow> 's \<Rightarrow> rl_call list \<Rightarrow> 's \<times> (rl_key \<Rightarrow> quota_log)" where
  "rl_calls ops stamp st cs = fold (rl_call_step ops stamp) cs (st, \<lambda>_. [])"

definition readings :: "rl_call list \<Rightarrow> time list" where
  "readings cs = concat (map call_times cs)"

lemma readings_Nil [simp]: "readings [] = []"
  by (simp add: readings_def)

lemma readings_Cons:
  assumes "sorted (T # readings (c # cs) @ [T'])"
  shows "sorted (T # call_times c)" and "sorted (last (call_times c) # readings cs @ [T'])"
  using assms by (cases c; fastforce simp: readings_def)+

definition same_limits :: "rl_snapshot \<Rightarrow> rl_snapshot \<Rightarrow> bool" where
  "same_limits s q \<longleftrightarrow>
     rs_requests_per_second s = rs_requests_per_second q \<and>
     rs_requests_per_minute s = rs_requests_per_minute q \<and>
     rs_tokens_per_minute s = rs_tokens_per_minute q"

lemma same_limits_refl [simp]: "same_limits s s"
  by (simp add: same_limits_def)

text \<open>
  The contract of a strategy. \<open>rel T L st\<close> relates the strategy state to the histories, all
  readings so far being at most \<open>T\<close>. \<open>admits\<close> is the decision on the whole history,
  \<open>within\<close> the bound the strategy enforces, \<open>usage\<close> the requests and tokens it reports.
\<close>

locale quota_strategy =
  fixes ops :: "'s rl_ops"
    and stamp :: "time \<Rightarrow> time \<Rightarrow> time"
    and start :: 's
    and rel :: "time \<Rightarrow> (rl_key \<Rightarrow> quota_log) \<Rightarrow> 's \<Rightarrow> bool"
    and admits :: "rl_snapshot \<Rightarrow> int \<Rightarrow> time \<Rightarrow> quota_log \<Rightarrow> bool"
    and within :: "rl_snapshot \<Rightarrow> quota_log \<Rightarrow> bool"
    and usage :: "time \<Rightarrow> quota_log \<Rightarrow> int \<times> int"
  assumes rel_start: "rel T (\<lambda>_. []) start"
    and rel_mono: "rel T L st \<Longrightarrow> T \<le> T' \<Longrightarrow> rel T' L st"
    and allow_decides:
      "rel T L st \<Longrightarrow> T \<le> t \<Longrightarrow> fst (rl_allow ops s n t st) = admits s n t (L (rl_key s))"
    and allow_rel: "rel T L st \<Longrightarrow> T \<le> t \<Longrightarrow> rel t L (snd (rl_allow ops s n t st))"
    and consume_rel:
      "rel T L st \<Longrightarrow> T \<le> t1 \<Longrightarrow> t1 \<le> t2 \<Longrightarrow>
        rel t2 (if admits s n t1 (L (rl_key s))
                then L(rl_key s := L (rl_key s) @ [(stamp t1 t2, n)]) else L)
          (snd (rl_consume ops s n t1 t2 st))"
    and consume_result:
      "rel T L st \<Longrightarrow> T \<le> t1 \<Longrightarrow> t1 \<le> t2 \<Longrightarrow> rl_valid s \<Longrightarrow>
        \<exists>s'. fst (rl_consume ops s n t1 t2 st) = Inr s' \<and> rl_valid s' \<and>
             rl_key s' = rl_key s \<and> same_limits s' s \<and>
             (rs_current_requests s', rs_current_tokens s') =
               usage (stamp t1 t2)
                 (if admits s n t1 (L (rl_key s))
                  then L (rl_key s) @ [(stamp t1 t2, n)] else L (rl_key s))"
    and reset_rel: "rel T L st \<Longrightarrow> T \<le> t \<Longrightarrow> rel t (L(rl_key s := [])) (snd (rl_reset ops s t st))"
    and reset_result:
      "rel T L st \<Longrightarrow> T \<le> t \<Longrightarrow> rl_valid s \<Longrightarrow>
        \<exists>s'. fst (rl_reset ops s t st) = Inr s' \<and> rl_valid s' \<and>
             rl_key s' = rl_key s \<and> same_limits s' s \<and>
             (rs_current_requests s', rs_current_tokens s') = (0, 0) \<and>
             rs_remaining_requests s' = rs_requests_per_minute s \<and>
             rs_remaining_tokens s' = rs_tokens_per_minute s"
    and within_Nil: "rl_valid s \<Longrightarrow> within s []"
    and within_admitted:
      "rel T L st \<Longrightarrow> T \<le> t1 \<Longrightarrow> t1 \<le> t2 \<Longrightarrow> same_limits s q \<Longrightarrow>
        admits s n t1 (L k) \<Longrightarrow> within q (L k) \<Longrightarrow> within q (L k @ [(stamp t1 t2, n)])"
begin

text \<open>Over any sequence of calls with nondecreasing clock readings, a quota whose limits do not
  change stays within its bound.\<close>

lemma calls_within:
  assumes "rel T L st" and "within q (L (rl_key q))" and "rl_valid q"
    and "sorted (T # readings cs @ [T'])"
    and "\<forall>c \<in> set cs. rl_key (call_snapshot c) = rl_key q \<longrightarrow> same_limits (call_snapshot c) q"
  shows "\<exists>L' st'. fold (rl_call_step ops stamp) cs (st, L) = (st', L') \<and> rel T' L' st' \<and>
           within q (L' (rl_key q))"
  using assms
proof (induction cs arbitrary: T L st)
  case Nil
  then show ?case by (auto simp: readings_def intro: rel_mono)
next
  case (Cons c cs)
  note t = readings_Cons [OF Cons.prems(4)]
  have lims: "\<forall>c \<in> set cs. rl_key (call_snapshot c) = rl_key q \<longrightarrow> same_limits (call_snapshot c) q"
    using Cons.prems(5) by simp
  show ?case
  proof (cases c)
    case (RL_Allow s n t)
    with t Cons.prems(1) have "rel t L (snd (rl_allow ops s n t st))" by (auto intro: allow_rel)
    from Cons.IH [OF this Cons.prems(2,3) _ lims] t RL_Allow show ?thesis by simp
  next
    case (RL_Consume s n t1 t2)
    with t have le: "T \<le> t1" "t1 \<le> t2" by auto
    let ?L = "if admits s n t1 (L (rl_key s))
      then L(rl_key s := L (rl_key s) @ [(stamp t1 t2, n)]) else L"
    have rel: "rel t2 ?L (snd (rl_consume ops s n t1 t2 st))"
      by (rule consume_rel [OF Cons.prems(1) le])
    have w: "within q (?L (rl_key q))"
    proof (cases "rl_key s = rl_key q")
      case True
      then have "same_limits s q" using Cons.prems(5) RL_Consume by simp
      with within_admitted [OF Cons.prems(1) le, where s = s and q = q and k = "rl_key q"]
      show ?thesis using Cons.prems(2) True by simp
    qed (use Cons.prems(2) in simp)
    have "rl_call_step ops stamp c (st, L) = (snd (rl_consume ops s n t1 t2 st), ?L)"
      using allow_decides [OF Cons.prems(1) le(1)] RL_Consume by simp
    with Cons.IH [OF rel w Cons.prems(3) _ lims] t RL_Consume show ?thesis by simp
  next
    case (RL_Reset s t)
    with t Cons.prems(1) have rel: "rel t (L(rl_key s := [])) (snd (rl_reset ops s t st))"
      by (auto intro: reset_rel)
    have "within q ((L(rl_key s := [])) (rl_key q))"
      using Cons.prems(2,3) within_Nil by simp
    from Cons.IH [OF rel this Cons.prems(3) _ lims] t RL_Reset show ?thesis
      by (simp add: fun_upd_def)
  qed
qed

lemma calls_rel:
  assumes "rel T L st" and "sorted (T # readings cs @ [T'])"
  shows "\<exists>L' st'. fold (rl_call_step ops stamp) cs (st, L) = (st', L') \<and> rel T' L' st'"
  using assms
proof (induction cs arbitrary: T L st)
  case Nil
  then show ?case by (auto simp: readings_def intro: rel_mono)
next
  case (Cons c cs)
  note t = readings_Cons [OF Cons.prems(2)]
  have "\<exists>L' st'. rl_call_step ops stamp c (st, L) = (st', L') \<and> rel (last (call_times c)) L' st'"
    using t(1) allow_rel [OF Cons.prems(1)] consume_rel [OF Cons.prems(1)]
      reset_rel [OF Cons.prems(1)] allow_decides [OF Cons.prems(1)]
    by (cases c) auto
  then show ?case using Cons.IH t(2) by auto
qed

lemma calls_decide:
  assumes "sorted (readings cs @ [t])"
  shows "fst (rl_allow ops s n t (fst (rl_calls ops stamp start cs))) =
     admits s n t (snd (rl_calls ops stamp start cs) (rl_key s))"
proof -
  have "sorted (hd (readings cs @ [t]) # readings cs @ [t])"
    using assms by (cases "readings cs") auto
  from calls_rel [OF rel_start this]
  show ?thesis by (auto simp: rl_calls_def allow_decides)
qed

lemma calls_safe:
  assumes "rl_valid q" and "sorted (readings cs)"
    and "\<forall>c \<in> set cs. rl_key (call_snapshot c) = rl_key q \<longrightarrow> same_limits (call_snapshot c) q"
  shows "within q (snd (rl_calls ops stamp start cs) (rl_key q))"
proof -
  define ts where "ts = readings cs"
  have "sorted (hd (ts @ [0]) # ts @ [Max (set (hd (ts @ [0]) # ts))])"
    using assms(2) by (cases ts) (auto simp: ts_def [symmetric] sorted_append)
  from calls_within [OF rel_start within_Nil [OF assms(1)] assms(1) this [unfolded ts_def] assms(3)]
  show ?thesis by (auto simp: rl_calls_def)
qed

end

subsection \<open>The sliding window keeps every rolling window within the limits\<close>

text \<open>The entries of a history in the interval of length \<open>d\<close> that ends at \<open>w\<close>.\<close>

definition window :: "int \<Rightarrow> time \<Rightarrow> quota_log \<Rightarrow> quota_log" where
  "window d w L = filter (\<lambda>e. w - d < fst e \<and> fst e \<le> w) L"

definition token_sum :: "quota_log \<Rightarrow> int" where
  "token_sum L = sum_list (map snd L)"

definition sliding_admits :: "rl_snapshot \<Rightarrow> int \<Rightarrow> time \<Rightarrow> quota_log \<Rightarrow> bool" where
  "sliding_admits s n t L \<longleftrightarrow> 0 \<le> n \<and>
     (rs_requests_per_second s \<noteq> 0 \<longrightarrow>
        int (length (window one_second t L)) < rs_requests_per_second s) \<and>
     (rs_requests_per_minute s \<noteq> 0 \<longrightarrow>
        int (length (window one_minute t L)) < rs_requests_per_minute s) \<and>
     (rs_tokens_per_minute s \<noteq> 0 \<longrightarrow>
        token_sum (window one_minute t L) + n \<le> rs_tokens_per_minute s)"

definition sliding_within :: "rl_snapshot \<Rightarrow> quota_log \<Rightarrow> bool" where
  "sliding_within s L \<longleftrightarrow> (\<forall>w.
     (rs_requests_per_second s \<noteq> 0 \<longrightarrow>
        int (length (window one_second w L)) \<le> rs_requests_per_second s) \<and>
     (rs_requests_per_minute s \<noteq> 0 \<longrightarrow>
        int (length (window one_minute w L)) \<le> rs_requests_per_minute s) \<and>
     (rs_tokens_per_minute s \<noteq> 0 \<longrightarrow>
        token_sum (window one_minute w L) \<le> rs_tokens_per_minute s))"

definition sliding_usage :: "time \<Rightarrow> quota_log \<Rightarrow> int \<times> int" where
  "sliding_usage t L =
     (int (length (window one_minute t L)), token_sum (window one_minute t L))"

definition log_until :: "time \<Rightarrow> quota_log \<Rightarrow> bool" where
  "log_until T L \<longleftrightarrow> sorted (map fst L) \<and> (\<forall>e \<in> set L. fst e \<le> T \<and> 0 \<le> snd e)"

lemma log_until_mono: "log_until T L \<Longrightarrow> T \<le> T' \<Longrightarrow> log_until T' L"
  by (auto simp: log_until_def)

lemma log_until_Nil [simp]: "log_until T []"
  by (simp add: log_until_def)

lemma log_until_snoc: "log_until T L \<Longrightarrow> T \<le> t \<Longrightarrow> 0 \<le> n \<Longrightarrow> log_until t (L @ [(t, n)])"
  by (fastforce simp: log_until_def sorted_append)

text \<open>The deques hold the suffix of the history that lies after the last pruning of the key.\<close>

definition sliding_rel :: "time \<Rightarrow> (rl_key \<Rightarrow> quota_log) \<Rightarrow> sliding \<Rightarrow> bool" where
  "sliding_rel T L st \<longleftrightarrow>
     (\<forall>k. log_until T (L k) \<and> (\<exists>c \<le> T - one_minute.
        dict_get (sl_requests st) k [] = map fst (filter (\<lambda>e. c < fst e) (L k)) \<and>
        dict_get (sl_tokens st) k [] = filter (\<lambda>e. c < fst e) (L k)))"

lemma sliding_rel_mono: "sliding_rel T L st \<Longrightarrow> T \<le> T' \<Longrightarrow> sliding_rel T' L st"
  unfolding sliding_rel_def by (meson diff_right_mono log_until_mono order_trans)

lemma sliding_rel_log: "sliding_rel T L st \<Longrightarrow> log_until T (L k)"
  unfolding sliding_rel_def by blast

lemma prune_entries:
  assumes "sorted (map fst L)" and "c \<le> (a::int)"
  shows "dropWhile (\<lambda>e. fst e \<le> a) (filter (\<lambda>e. c < fst e) L) = filter (\<lambda>e. a < fst e) L"
    and "dropWhile (\<lambda>t. t \<le> a) (map fst (filter (\<lambda>e. c < fst e) L)) =
         map fst (filter (\<lambda>e. a < fst e) L)"
proof -
  show *: "dropWhile (\<lambda>e. fst e \<le> a) (filter (\<lambda>e. c < fst e) L) = filter (\<lambda>e. a < fst e) L"
    using assms
  proof (induction L)
    case (Cons e L)
    then show ?case by (cases "a < fst e") (auto simp: filter_id_conv intro!: filter_cong)
  qed simp
  show "dropWhile (\<lambda>t. t \<le> a) (map fst (filter (\<lambda>e. c < fst e) L)) =
         map fst (filter (\<lambda>e. a < fst e) L)"
    by (simp add: dropWhile_map comp_def *)
qed

lemma window_suffix:
  assumes "log_until T L" "T \<le> t"
  shows "filter (\<lambda>e. t - d < fst e) L = window d t L"
  using assms unfolding window_def log_until_def by (intro filter_cong) auto

lemma sl_prune_window:
  assumes "sliding_rel T L st" "T \<le> t"
  shows "\<exists>st'. sl_prune s t st =
           (map fst (window one_minute t (L (rl_key s))), window one_minute t (L (rl_key s)), st') \<and>
         sliding_rel t L st' \<and>
         dict_get (sl_requests st') (rl_key s) [] = map fst (window one_minute t (L (rl_key s))) \<and>
         dict_get (sl_tokens st') (rl_key s) [] = window one_minute t (L (rl_key s))"
proof -
  let ?k = "rl_key s"
  obtain c where c: "c \<le> T - one_minute"
    "dict_get (sl_requests st) ?k [] = map fst (filter (\<lambda>e. c < fst e) (L ?k))"
    "dict_get (sl_tokens st) ?k [] = filter (\<lambda>e. c < fst e) (L ?k)"
    using assms(1) unfolding sliding_rel_def by blast
  have log: "log_until T (L ?k)" by (rule sliding_rel_log [OF assms(1)])
  have "c \<le> t - one_minute" using c(1) assms(2) by simp
  note pruned = prune_entries [OF _ this, of "L ?k"] and win = window_suffix [OF log assms(2)]
  have "sliding_rel t L st'"
    if "sl_requests st' = AList.update ?k (map fst (window one_minute t (L ?k))) (sl_requests st)"
      and "sl_tokens st' = AList.update ?k (window one_minute t (L ?k)) (sl_tokens st)" for st'
    unfolding sliding_rel_def
  proof (intro allI conjI)
    fix k
    show "log_until t (L k)"
      using log_until_mono [OF sliding_rel_log [OF assms(1)] assms(2)] .
    show "\<exists>c\<le>t - one_minute.
        dict_get (sl_requests st') k [] = map fst (filter (\<lambda>e. c < fst e) (L k)) \<and>
        dict_get (sl_tokens st') k [] = filter (\<lambda>e. c < fst e) (L k)"
    proof (cases "k = ?k")
      case True
      then show ?thesis using that win by (intro exI [of _ "t - one_minute"]) simp
    next
      case False
      then show ?thesis using sliding_rel_mono [OF assms] that
        by (simp add: sliding_rel_def del: split_paired_All)
    qed
  qed
  then show ?thesis
    using c log pruned win by (simp add: sl_prune_def log_until_def Let_def)
qed

lemma window_second:
  "filter (\<lambda>x. t - one_second < x) (map fst (window one_minute t L)) =
     map fst (window one_second t L)"
proof -
  have "window one_second t L = filter (\<lambda>e. t - one_second < fst e) (window one_minute t L)"
    unfolding window_def filter_filter
    by (intro filter_cong) (auto simp: one_minute_def one_second_def)
  then show ?thesis by (simp add: filter_map comp_def)
qed

lemma sliding_allow:
  assumes "sliding_rel T L st" "T \<le> t"
  shows "fst (sl_allow s n t st) = sliding_admits s n t (L (rl_key s))"
    and "sliding_rel t L (snd (sl_allow s n t st))"
proof -
  from sl_prune_window [OF assms, of s] obtain st' where
    p: "sl_prune s t st =
      (map fst (window one_minute t (L (rl_key s))), window one_minute t (L (rl_key s)), st')"
    and r: "sliding_rel t L st'" by blast
  show "fst (sl_allow s n t st) = sliding_admits s n t (L (rl_key s))"
    by (auto simp: sl_allow_def p sliding_admits_def window_second token_sum_def Let_def)
  show "sliding_rel t L (snd (sl_allow s n t st))"
    using r sliding_rel_mono [OF assms] by (simp add: sl_allow_def p Let_def)
qed

text \<open>Refreshing computes the usage of the rolling minute and validates the snapshot.\<close>

lemma token_sum_window_nonneg: "log_until T L \<Longrightarrow> 0 \<le> token_sum (window d t L)"
  unfolding token_sum_def window_def by (rule sum_list_filter_nonneg) (auto simp: log_until_def)

lemma remaining_nonneg [simp]: "0 \<le> remaining limit used"
  by (simp add: remaining_def)

lemma refreshed_valid:
  assumes "rl_valid s" "0 \<le> r" "0 \<le> n"
  shows "rl_valid (s\<lparr>rs_current_requests := r, rs_current_tokens := n,
     rs_remaining_requests := remaining (rs_requests_per_minute s) r,
     rs_remaining_tokens := remaining (rs_tokens_per_minute s) n,
     rs_reset_at := at, rs_last_updated := up\<rparr>)"
  using assms unfolding rl_valid_iff by simp

lemma refreshed_limits:
  "same_limits (s\<lparr>rs_current_requests := r, rs_current_tokens := n, rs_remaining_requests := r',
     rs_remaining_tokens := n', rs_reset_at := at, rs_last_updated := up\<rparr>) s"
  "rl_key (s\<lparr>rs_current_requests := r, rs_current_tokens := n, rs_remaining_requests := r',
     rs_remaining_tokens := n', rs_reset_at := at, rs_last_updated := up\<rparr>) = rl_key s"
  by (simp_all add: same_limits_def rl_key_def)

lemma sl_refresh_usage:
  assumes "sliding_rel T L st" "T \<le> t" "rl_valid s"
  shows "\<exists>s'. fst (sl_refresh s t st) = Inr s' \<and> rl_valid s' \<and> rl_key s' = rl_key s \<and>
           same_limits s' s \<and>
           (rs_current_requests s', rs_current_tokens s') = sliding_usage t (L (rl_key s)) \<and>
           rs_remaining_requests s' =
             remaining (rs_requests_per_minute s) (fst (sliding_usage t (L (rl_key s)))) \<and>
           rs_remaining_tokens s' =
             remaining (rs_tokens_per_minute s) (snd (sliding_usage t (L (rl_key s))))"
proof -
  have "0 \<le> token_sum (window one_minute t (L (rl_key s)))"
    using sliding_rel_log [OF assms(1)] by (rule token_sum_window_nonneg)
  then have n: "0 \<le> sum_list (map snd (window one_minute t (L (rl_key s))))"
    by (simp add: token_sum_def)
  from sl_prune_window [OF assms(1,2), of s] obtain st' where
    p: "sl_prune s t st =
      (map fst (window one_minute t (L (rl_key s))), window one_minute t (L (rl_key s)), st')"
    by blast
  show ?thesis
    by (simp add: sl_refresh_def p Let_def refreshed_valid [OF assms(3) _ n] sliding_usage_def
        token_sum_def refreshed_limits)
qed

lemma sl_refresh_rel:
  assumes "sliding_rel T L st" "T \<le> t"
  shows "sliding_rel t L (snd (sl_refresh s t st))"
  using sl_prune_window [OF assms, of s] by (auto simp: sl_refresh_def Let_def)

lemma sliding_rel_record:
  assumes "sliding_rel T L st" "0 \<le> n" "T \<le> t"
    and "dict_get (sl_requests st) (rl_key s) [] = map fst (window one_minute t (L (rl_key s)))"
    and "dict_get (sl_tokens st) (rl_key s) [] = window one_minute t (L (rl_key s))"
  shows "sliding_rel t (L(rl_key s := L (rl_key s) @ [(t, n)]))
     \<lparr>sl_requests = AList.update (rl_key s)
        (map fst (window one_minute t (L (rl_key s))) @ [t]) (sl_requests st),
      sl_tokens = AList.update (rl_key s)
        (window one_minute t (L (rl_key s)) @ [(t, n)]) (sl_tokens st)\<rparr>"
  unfolding sliding_rel_def
proof (intro allI)
  fix k
  let ?k = "rl_key s"
  have log: "log_until T (L ?k)" by (rule sliding_rel_log [OF assms(1)])
  note win = window_suffix [OF log assms(3), of one_minute]
  show "log_until t ((L(?k := L ?k @ [(t, n)])) k) \<and> (\<exists>c\<le>t - one_minute.
      dict_get (sl_requests \<lparr>sl_requests = AList.update ?k
        (map fst (window one_minute t (L ?k)) @ [t]) (sl_requests st),
        sl_tokens = AList.update ?k (window one_minute t (L ?k) @ [(t, n)]) (sl_tokens st)\<rparr>) k []
        = map fst (filter (\<lambda>e. c < fst e) ((L(?k := L ?k @ [(t, n)])) k)) \<and>
      dict_get (sl_tokens \<lparr>sl_requests = AList.update ?k
        (map fst (window one_minute t (L ?k)) @ [t]) (sl_requests st),
        sl_tokens = AList.update ?k (window one_minute t (L ?k) @ [(t, n)]) (sl_tokens st)\<rparr>) k []
        = filter (\<lambda>e. c < fst e) ((L(?k := L ?k @ [(t, n)])) k))"
  proof (cases "k = ?k")
    case True
    then show ?thesis using log_until_snoc [OF log assms(3,2)] win
      by (auto intro!: exI [of _ "t - one_minute"])
  next
    case False
    then show ?thesis using sliding_rel_mono [OF assms(1,3)]
      by (simp add: sliding_rel_def del: split_paired_All)
  qed
qed

lemma sl_consume_split:
  fixes s :: rl_snapshot and n :: int
  assumes "sliding_rel T L st" "T \<le> t1" "t1 \<le> t2"
  defines "L' \<equiv> (if sliding_admits s n t1 (L (rl_key s))
                  then L(rl_key s := L (rl_key s) @ [(t2, n)]) else L)"
  shows "\<exists>st'. sl_consume s n t1 t2 st = sl_refresh s t2 st' \<and> sliding_rel t2 L' st'"
proof (cases "sliding_admits s n t1 (L (rl_key s))")
  case False
  then show ?thesis
    using sliding_allow [OF assms(1,2), of s n] sliding_rel_mono [OF _ assms(3)]
    by (auto simp: sl_consume_def L'_def split: prod.splits)
next
  case True
  note a = sliding_allow [OF assms(1,2), of s n]
  have n: "0 \<le> n" using True by (simp add: sliding_admits_def)
  from sl_prune_window [OF a(2) assms(3), of s] obtain st2 where p:
    "sl_prune s t2 (snd (sl_allow s n t1 st)) =
       (map fst (window one_minute t2 (L (rl_key s))), window one_minute t2 (L (rl_key s)), st2)"
    "sliding_rel t2 L st2"
    "dict_get (sl_requests st2) (rl_key s) [] = map fst (window one_minute t2 (L (rl_key s)))"
    "dict_get (sl_tokens st2) (rl_key s) [] = window one_minute t2 (L (rl_key s))" by blast
  from sliding_rel_record [OF p(2) n order_refl p(3,4)] True a(1) p(1)
  show ?thesis by (auto simp: sl_consume_def sl_record_def L'_def Let_def split: prod.splits)
qed

lemma sl_reset_split:
  assumes "sliding_rel T L st" "T \<le> t"
  shows "\<exists>st'. sl_reset s t st = sl_refresh s t st' \<and> sliding_rel t (L(rl_key s := [])) st'"
proof -
  have "sliding_rel t (L(rl_key s := []))
     \<lparr>sl_requests = AList.delete (rl_key s) (sl_requests st),
      sl_tokens = AList.delete (rl_key s) (sl_tokens st)\<rparr>"
    using sliding_rel_mono [OF assms] unfolding sliding_rel_def by fastforce
  then show ?thesis by (auto simp: sl_reset_def)
qed

text \<open>Admitting one more request at \<open>t1\<close> and recording it at \<open>t2\<close> keeps every window within
  the limit, for requests counted by any nonnegative weight.\<close>

lemma window_weight_snoc:
  fixes f :: "time \<times> int \<Rightarrow> int"
  assumes "log_until t1 L" "t1 \<le> t2" "\<And>e. e \<in> set L \<Longrightarrow> 0 \<le> f e"
    and "\<forall>w. sum_list (map f (window d w L)) \<le> lim"
    and "sum_list (map f (window d t1 L)) + f (t2, n) \<le> lim"
  shows "sum_list (map f (window d w (L @ [(t2, n)]))) \<le> lim"
proof (cases "t2 \<le> w")
  case True
  have "sum_list (map f (window d w L)) \<le> sum_list (map f (window d t1 L))"
    unfolding window_def using assms(1-3) True
    by (intro sum_list_filter_mono) (auto simp: log_until_def)
  then show ?thesis
    using assms(4,5) by (cases "w - d < t2") (auto simp: window_def)
qed (use assms(4) in \<open>auto simp: window_def\<close>)

lemma sliding_within_admitted:
  assumes "sliding_rel T L st" "T \<le> t1" "t1 \<le> t2" "same_limits s q"
    and "sliding_admits s n t1 (L k)" "sliding_within q (L k)"
  shows "sliding_within q (L k @ [(t2, n)])"
proof -
  have log: "log_until t1 (L k)"
    using log_until_mono [OF sliding_rel_log [OF assms(1)] assms(2)] .
  have tok: "0 \<le> snd e" if "e \<in> set (L k)" for e
    using log that by (simp add: log_until_def)
  note snoc = window_weight_snoc [OF log assms(3)]
  show ?thesis
    using snoc [where f = "\<lambda>_. 1" and d = one_second and lim = "rs_requests_per_second q" and n = n]
      snoc [where f = "\<lambda>_. 1" and d = one_minute and lim = "rs_requests_per_minute q" and n = n]
      snoc [where f = snd and d = one_minute and lim = "rs_tokens_per_minute q" and n = n] tok
      assms(4-6)
    unfolding sliding_within_def sliding_admits_def same_limits_def token_sum_def
      length_eq_sum_list by force
qed

interpretation sliding: quota_strategy sliding_ops "\<lambda>t1 t2. t2" new_sliding sliding_rel
  sliding_admits sliding_within sliding_usage
proof unfold_locales
  fix T t t1 t2 :: time and L :: "rl_key \<Rightarrow> quota_log" and st s q n k
  show "sliding_rel T (\<lambda>_. []) new_sliding"
    by (auto simp: sliding_rel_def new_sliding_def)
  assume rel: "sliding_rel T L st"
  show "T \<le> t \<Longrightarrow> sliding_rel t L st" by (rule sliding_rel_mono [OF rel])
  show "T \<le> t \<Longrightarrow> fst (rl_allow sliding_ops s n t st) = sliding_admits s n t (L (rl_key s))"
    and "T \<le> t \<Longrightarrow> sliding_rel t L (snd (rl_allow sliding_ops s n t st))"
    using sliding_allow [OF rel] by (simp_all add: sliding_ops_def)
  show "T \<le> t1 \<Longrightarrow> t1 \<le> t2 \<Longrightarrow>
      sliding_rel t2 (if sliding_admits s n t1 (L (rl_key s))
        then L(rl_key s := L (rl_key s) @ [(t2, n)]) else L)
        (snd (rl_consume sliding_ops s n t1 t2 st))"
    using sl_consume_split [OF rel, of t1 t2 s n] sl_refresh_rel by (auto simp: sliding_ops_def)
  show "T \<le> t \<Longrightarrow> sliding_rel t (L(rl_key s := [])) (snd (rl_reset sliding_ops s t st))"
    using sl_reset_split [OF rel, of t s] sl_refresh_rel by (auto simp: sliding_ops_def)
  show "T \<le> t1 \<Longrightarrow> t1 \<le> t2 \<Longrightarrow> same_limits s q \<Longrightarrow> sliding_admits s n t1 (L k) \<Longrightarrow>
      sliding_within q (L k) \<Longrightarrow> sliding_within q (L k @ [(t2, n)])"
    by (rule sliding_within_admitted [OF rel])
  assume v: "rl_valid s"
  show "T \<le> t1 \<Longrightarrow> t1 \<le> t2 \<Longrightarrow>
      \<exists>s'. fst (rl_consume sliding_ops s n t1 t2 st) = Inr s' \<and> rl_valid s' \<and>
        rl_key s' = rl_key s \<and> same_limits s' s \<and>
        (rs_current_requests s', rs_current_tokens s') =
          sliding_usage t2 (if sliding_admits s n t1 (L (rl_key s))
            then L (rl_key s) @ [(t2, n)] else L (rl_key s))"
    using sl_consume_split [OF rel, of t1 t2 s n] sl_refresh_usage [OF _ order_refl v]
    by (fastforce simp: sliding_ops_def)
  show "T \<le> t \<Longrightarrow>
      \<exists>s'. fst (rl_reset sliding_ops s t st) = Inr s' \<and> rl_valid s' \<and>
        rl_key s' = rl_key s \<and> same_limits s' s \<and>
        (rs_current_requests s', rs_current_tokens s') = (0, 0) \<and>
        rs_remaining_requests s' = rs_requests_per_minute s \<and>
        rs_remaining_tokens s' = rs_tokens_per_minute s"
    using sl_reset_split [OF rel, of t s] sl_refresh_usage [OF _ order_refl v] v
    by (fastforce simp: sliding_ops_def sliding_usage_def window_def token_sum_def remaining_def
        rl_valid_iff)
next
  fix s show "rl_valid s \<Longrightarrow> sliding_within s []"
    by (simp add: sliding_within_def window_def token_sum_def rl_valid_iff)
qed

subsection \<open>The fixed window keeps every calendar window within the limits\<close>

definition calendar :: "(time \<Rightarrow> time) \<Rightarrow> time \<Rightarrow> quota_log \<Rightarrow> quota_log" where
  "calendar g a L = filter (\<lambda>e. g (fst e) = a) L"

definition fixed_admits :: "rl_snapshot \<Rightarrow> int \<Rightarrow> time \<Rightarrow> quota_log \<Rightarrow> bool" where
  "fixed_admits s n t L \<longleftrightarrow> 0 \<le> n \<and>
     (rs_requests_per_second s \<noteq> 0 \<longrightarrow>
        int (length (calendar second_start (second_start t) L)) < rs_requests_per_second s) \<and>
     (rs_requests_per_minute s \<noteq> 0 \<longrightarrow>
        int (length (calendar minute_start (minute_start t) L)) < rs_requests_per_minute s) \<and>
     (rs_tokens_per_minute s \<noteq> 0 \<longrightarrow>
        token_sum (calendar minute_start (minute_start t) L) + n \<le> rs_tokens_per_minute s)"

definition fixed_within :: "rl_snapshot \<Rightarrow> quota_log \<Rightarrow> bool" where
  "fixed_within s L \<longleftrightarrow> (\<forall>a.
     (rs_requests_per_second s \<noteq> 0 \<longrightarrow>
        int (length (calendar second_start a L)) \<le> rs_requests_per_second s) \<and>
     (rs_requests_per_minute s \<noteq> 0 \<longrightarrow>
        int (length (calendar minute_start a L)) \<le> rs_requests_per_minute s) \<and>
     (rs_tokens_per_minute s \<noteq> 0 \<longrightarrow>
        token_sum (calendar minute_start a L) \<le> rs_tokens_per_minute s))"

definition fixed_usage :: "time \<Rightarrow> quota_log \<Rightarrow> int \<times> int" where
  "fixed_usage t L =
     (int (length (calendar minute_start (minute_start t) L)),
      token_sum (calendar minute_start (minute_start t) L))"

definition minute_rel :: "time \<Rightarrow> quota_log \<Rightarrow> (time \<times> int \<times> int) option \<Rightarrow> bool" where
  "minute_rel T L w \<longleftrightarrow>
     (case w of None \<Rightarrow> L = []
      | Some (a, r, n) \<Rightarrow> a \<le> minute_start T \<and> (\<forall>e \<in> set L. minute_start (fst e) \<le> a) \<and>
          r = int (length (calendar minute_start a L)) \<and>
          n = token_sum (calendar minute_start a L))"

definition second_rel :: "time \<Rightarrow> quota_log \<Rightarrow> (time \<times> int) option \<Rightarrow> bool" where
  "second_rel T L w \<longleftrightarrow>
     (case w of None \<Rightarrow> L = []
      | Some (a, r) \<Rightarrow> a \<le> second_start T \<and> (\<forall>e \<in> set L. second_start (fst e) \<le> a) \<and>
          r = int (length (calendar second_start a L)))"

definition fixed_rel :: "time \<Rightarrow> (rl_key \<Rightarrow> quota_log) \<Rightarrow> fixed \<Rightarrow> bool" where
  "fixed_rel T L st \<longleftrightarrow>
     (\<forall>k. log_until T (L k) \<and> minute_rel T (L k) (map_of (fx_windows st) k) \<and>
          second_rel T (L k) (map_of (fx_second_windows st) k))"

lemma starts_mono:
  "t \<le> t' \<Longrightarrow> minute_start t \<le> minute_start t'"
  "t \<le> t' \<Longrightarrow> second_start t \<le> second_start t'"
  unfolding minute_start_def second_start_def minus_mod_eq_mult_div
  by (simp_all add: zdiv_mono1)

lemma calendar_late:
  assumes "\<forall>e \<in> set L. g (fst e) \<le> a" "a < (b::int)"
  shows "calendar g b L = []"
  using assms by (fastforce simp: calendar_def filter_empty_conv)

lemma rels_mono:
  "minute_rel T L w \<Longrightarrow> T \<le> t \<Longrightarrow> minute_rel t L w"
  "second_rel T L v \<Longrightarrow> T \<le> t \<Longrightarrow> second_rel t L v"
  using starts_mono [of T t]
  by (auto simp: minute_rel_def second_rel_def split: option.splits)

lemma fixed_relD:
  assumes "fixed_rel T L st"
  shows "log_until T (L k)" and "minute_rel T (L k) (map_of (fx_windows st) k)"
    and "second_rel T (L k) (map_of (fx_second_windows st) k)"
  using assms unfolding fixed_rel_def by blast+

lemma fixed_rel_mono: "fixed_rel T L st \<Longrightarrow> T \<le> t \<Longrightarrow> fixed_rel t L st"
  unfolding fixed_rel_def using log_until_mono rels_mono by blast

lemma minute_rel_now:
  assumes "minute_rel T L w" "T \<le> t" "log_until T L"
  shows "minute_rel t L (Some (minute_start t, fixed_usage t L))"
    and "w = None \<or> fst (the w) \<noteq> minute_start t \<Longrightarrow> fixed_usage t L = (0, 0)"
    and "w = Some v \<Longrightarrow> fst v = minute_start t \<Longrightarrow> v = (minute_start t, fixed_usage t L)"
proof -
  have "minute_start (fst e) \<le> minute_start t" if "e \<in> set L" for e
    using that assms(2,3) by (intro starts_mono) (auto simp: log_until_def)
  then show "minute_rel t L (Some (minute_start t, fixed_usage t L))"
    by (simp add: minute_rel_def fixed_usage_def)
  show "w = Some v \<Longrightarrow> fst v = minute_start t \<Longrightarrow> v = (minute_start t, fixed_usage t L)"
    using assms(1) by (auto simp: minute_rel_def fixed_usage_def)
  show "fixed_usage t L = (0, 0)" if "w = None \<or> fst (the w) \<noteq> minute_start t"
  proof (cases w)
    case None
    with assms(1) show ?thesis
      by (simp add: minute_rel_def fixed_usage_def calendar_def token_sum_def)
  next
    case (Some v)
    with assms(1) have "fst v \<le> minute_start T" "\<forall>e \<in> set L. minute_start (fst e) \<le> fst v"
      by (auto simp: minute_rel_def)
    with Some that starts_mono(1) [OF assms(2)]
    have "calendar minute_start (minute_start t) L = []" by (intro calendar_late) auto
    then show ?thesis by (simp add: fixed_usage_def token_sum_def)
  qed
qed

definition second_usage :: "time \<Rightarrow> quota_log \<Rightarrow> int" where
  "second_usage t L = int (length (calendar second_start (second_start t) L))"

lemma second_rel_now:
  assumes "second_rel T L w" "T \<le> t" "log_until T L"
  shows "second_rel t L (Some (second_start t, second_usage t L))"
    and "w = None \<or> fst (the w) \<noteq> second_start t \<Longrightarrow> second_usage t L = 0"
    and "w = Some v \<Longrightarrow> fst v = second_start t \<Longrightarrow> v = (second_start t, second_usage t L)"
proof -
  have "second_start (fst e) \<le> second_start t" if "e \<in> set L" for e
    using that assms(2,3) by (intro starts_mono) (auto simp: log_until_def)
  then show "second_rel t L (Some (second_start t, second_usage t L))"
    by (simp add: second_rel_def second_usage_def)
  show "w = Some v \<Longrightarrow> fst v = second_start t \<Longrightarrow> v = (second_start t, second_usage t L)"
    using assms(1) by (auto simp: second_rel_def second_usage_def)
  show "second_usage t L = 0" if "w = None \<or> fst (the w) \<noteq> second_start t"
  proof (cases w)
    case None
    with assms(1) show ?thesis by (simp add: second_rel_def second_usage_def calendar_def)
  next
    case (Some v)
    with assms(1) have "fst v \<le> second_start T" "\<forall>e \<in> set L. second_start (fst e) \<le> fst v"
      by (auto simp: second_rel_def)
    with Some that starts_mono(2) [OF assms(2)]
    have "calendar second_start (second_start t) L = []" by (intro calendar_late) auto
    then show ?thesis by (simp add: second_usage_def)
  qed
qed

lemma fixed_rel_update:
  assumes "fixed_rel t L st" and "log_until t K"
    and "minute_rel t K (Some w)" and "second_rel t K (Some v)"
  shows "fixed_rel t (L(k := K))
    (st\<lparr>fx_windows := AList.update k w (fx_windows st),
        fx_second_windows := AList.update k v (fx_second_windows st)\<rparr>)"
  using assms unfolding fixed_rel_def by simp

lemma fx_window_usage:
  assumes "fixed_rel T L st" "T \<le> t"
  shows "\<exists>st'. fx_window s t st = ((minute_start t, fixed_usage t (L (rl_key s))), st') \<and>
           fixed_rel t L st' \<and>
           map_of (fx_windows st') (rl_key s) = Some (minute_start t, fixed_usage t (L (rl_key s)))"
proof -
  let ?k = "rl_key s"
  note rel = fixed_relD [OF assms(1), of ?k]
  note now = minute_rel_now [OF rel(2) assms(2) rel(1)]
  have up: "fixed_rel t L (st\<lparr>fx_windows := AList.update ?k (minute_start t, fixed_usage t (L ?k))
      (fx_windows st)\<rparr>)"
    using fixed_rel_mono [OF assms] now(1) unfolding fixed_rel_def by simp
  show ?thesis
  proof (cases "map_of (fx_windows st) ?k = None \<or>
      fst (the (map_of (fx_windows st) ?k)) \<noteq> minute_start t")
    case True
    with up now(2) [OF True] show ?thesis
      by (auto simp: fx_window_def Let_def split: option.splits)
  next
    case False
    then obtain v where "map_of (fx_windows st) ?k = Some v" "fst v = minute_start t" by auto
    with now(3) [OF this] fixed_rel_mono [OF assms] show ?thesis
      by (auto simp: fx_window_def Let_def)
  qed
qed

lemma fx_second_window_usage:
  assumes "fixed_rel T L st" "T \<le> t"
  shows "\<exists>st'. fx_second_window s t st =
             ((second_start t, second_usage t (L (rl_key s))), st') \<and>
           fixed_rel t L st' \<and> fx_windows st' = fx_windows st \<and>
           map_of (fx_second_windows st') (rl_key s) =
             Some (second_start t, second_usage t (L (rl_key s)))"
proof -
  let ?k = "rl_key s"
  note rel = fixed_relD [OF assms(1), of ?k]
  note now = second_rel_now [OF rel(3) assms(2) rel(1)]
  have up: "fixed_rel t L (st\<lparr>fx_second_windows :=
      AList.update ?k (second_start t, second_usage t (L ?k)) (fx_second_windows st)\<rparr>)"
    using fixed_rel_mono [OF assms] now(1) unfolding fixed_rel_def by simp
  show ?thesis
  proof (cases "map_of (fx_second_windows st) ?k = None \<or>
      fst (the (map_of (fx_second_windows st) ?k)) \<noteq> second_start t")
    case True
    with up now(2) [OF True] show ?thesis
      by (auto simp: fx_second_window_def Let_def split: option.splits)
  next
    case False
    then obtain v where "map_of (fx_second_windows st) ?k = Some v" "fst v = second_start t" by auto
    with now(3) [OF this] fixed_rel_mono [OF assms] show ?thesis
      by (auto simp: fx_second_window_def Let_def)
  qed
qed

lemma fixed_allow:
  assumes "fixed_rel T L st" "T \<le> t"
  shows "fst (fx_allow s n t st) = fixed_admits s n t (L (rl_key s))"
    and "fixed_rel t L (snd (fx_allow s n t st))"
proof -
  from fx_window_usage [OF assms, of s] obtain st1 where
    w: "fx_window s t st = ((minute_start t, fixed_usage t (L (rl_key s))), st1)"
      "fixed_rel t L st1" by blast
  from fx_second_window_usage [OF w(2) order_refl, of s] obtain st2 where
    v: "fx_second_window s t st1 = ((second_start t, second_usage t (L (rl_key s))), st2)"
      "fixed_rel t L st2" by blast
  show "fst (fx_allow s n t st) = fixed_admits s n t (L (rl_key s))"
    by (auto simp: fx_allow_def fixed_admits_def w v fixed_usage_def second_usage_def)
  show "fixed_rel t L (snd (fx_allow s n t st))"
    using v(2) fixed_rel_mono [OF assms]
    by (simp add: fx_allow_def w(1) v(1) fixed_usage_def)
qed

lemma fx_refresh_usage:
  assumes "fixed_rel T L st" "T \<le> t" "rl_valid s"
  shows "\<exists>s'. fst (fx_refresh s t st) = Inr s' \<and> rl_valid s' \<and> rl_key s' = rl_key s \<and>
           same_limits s' s \<and>
           (rs_current_requests s', rs_current_tokens s') = fixed_usage t (L (rl_key s)) \<and>
           rs_remaining_requests s' =
             remaining (rs_requests_per_minute s) (fst (fixed_usage t (L (rl_key s)))) \<and>
           rs_remaining_tokens s' =
             remaining (rs_tokens_per_minute s) (snd (fixed_usage t (L (rl_key s))))"
proof -
  have n: "0 \<le> token_sum (calendar minute_start (minute_start t) (L (rl_key s)))"
    unfolding token_sum_def calendar_def using fixed_relD(1) [OF assms(1)]
    by (intro sum_list_filter_nonneg) (auto simp: log_until_def)
  from fx_window_usage [OF assms(1,2), of s] obtain st' where
    w: "fx_window s t st = ((minute_start t, fixed_usage t (L (rl_key s))), st')" by blast
  show ?thesis
    by (simp add: fx_refresh_def w fixed_usage_def Let_def refreshed_valid [OF assms(3) _ n]
        refreshed_limits)
qed

lemma fx_refresh_rel:
  assumes "fixed_rel T L st" "T \<le> t"
  shows "fixed_rel t L (snd (fx_refresh s t st))"
  using fx_window_usage [OF assms, of s] by (auto simp: fx_refresh_def fixed_usage_def Let_def)

lemma fixed_usage_snoc:
  "fixed_usage t (L @ [(t, n)]) = (fst (fixed_usage t L) + 1, snd (fixed_usage t L) + n)"
  "second_usage t (L @ [(t, n)]) = second_usage t L + 1"
  by (simp_all add: fixed_usage_def second_usage_def calendar_def token_sum_def)

lemma fixed_rel_record:
  fixes s :: rl_snapshot
  assumes "fixed_rel t L st" "0 \<le> n"
  defines "K \<equiv> L (rl_key s) @ [(t, n)]"
  shows "fixed_rel t (L(rl_key s := K))
    (st\<lparr>fx_windows := AList.update (rl_key s) (minute_start t, fixed_usage t K) (fx_windows st),
        fx_second_windows :=
          AList.update (rl_key s) (second_start t, second_usage t K) (fx_second_windows st)\<rparr>)"
proof -
  have K: "log_until t K"
    unfolding K_def by (rule log_until_snoc [OF fixed_relD(1) [OF assms(1)] order_refl assms(2)])
  have le: "minute_start (fst e) \<le> minute_start t \<and> second_start (fst e) \<le> second_start t"
    if "e \<in> set K" for e
    using K that starts_mono [of "fst e" t] by (auto simp: log_until_def)
  show ?thesis
  proof (rule fixed_rel_update [OF assms(1) K])
    show "minute_rel t K (Some (minute_start t, fixed_usage t K))"
      using le by (simp add: minute_rel_def fixed_usage_def)
    show "second_rel t K (Some (second_start t, second_usage t K))"
      using le by (simp add: second_rel_def second_usage_def)
  qed
qed

lemma fx_consume_split:
  fixes s :: rl_snapshot and n :: int
  assumes "fixed_rel T L st" "T \<le> t1"
  defines "L' \<equiv> (if fixed_admits s n t1 (L (rl_key s))
                  then L(rl_key s := L (rl_key s) @ [(t1, n)]) else L)"
  shows "\<exists>st'. fx_consume s n t1 t2 st = fx_refresh s t1 st' \<and> fixed_rel t1 L' st'"
proof (cases "fixed_admits s n t1 (L (rl_key s))")
  case False
  then show ?thesis
    using fixed_allow [OF assms(1,2), of s n]
    by (auto simp: fx_consume_def L'_def split: prod.splits)
next
  case True
  let ?L = "L (rl_key s)"
  note a = fixed_allow [OF assms(1,2), of s n]
  have n: "0 \<le> n" using True by (simp add: fixed_admits_def)
  obtain st1 where st1: "fx_allow s n t1 st = (True, st1)" "fixed_rel t1 L st1"
    using a True by (metis prod.collapse)
  from fx_window_usage [OF st1(2) order_refl, of s] obtain st2 where
    w: "fx_window s t1 st1 = ((minute_start t1, fixed_usage t1 ?L), st2)" "fixed_rel t1 L st2"
    by blast
  obtain r tk where u: "fixed_usage t1 ?L = (r, tk)" by (cases "fixed_usage t1 ?L")
  define st3 where "st3 = st2\<lparr>fx_windows :=
    AList.update (rl_key s) (minute_start t1, r + 1, tk + n) (fx_windows st2)\<rparr>"
  from fx_second_window_usage [OF w(2) order_refl, of s] obtain st4 where
    v: "fx_second_window s t1 st2 = ((second_start t1, second_usage t1 ?L), st4)"
      "fixed_rel t1 L st4" "fx_windows st4 = fx_windows st2" by blast
  have "fx_second_window s t1 st3 = ((second_start t1, second_usage t1 ?L),
      st4\<lparr>fx_windows := fx_windows st3\<rparr>)"
    using v(1) by (auto simp: fx_second_window_def st3_def Let_def split: option.splits if_splits)
  then have "fx_consume s n t1 t2 st = fx_refresh s t1
      (st4\<lparr>fx_windows := AList.update (rl_key s) (minute_start t1, r + 1, tk + n) (fx_windows st4),
           fx_second_windows := AList.update (rl_key s)
             (second_start t1, second_usage t1 ?L + 1) (fx_second_windows st4)\<rparr>)"
    using st1(1) w(1) u v(3) by (simp add: fx_consume_def fx_record_def st3_def Let_def)
  with fixed_rel_record [OF v(2) n, of s] True u show ?thesis
    by (auto simp: L'_def fixed_usage_snoc)
qed

lemma fx_reset_split:
  assumes "fixed_rel T L st" "T \<le> t"
  shows "\<exists>st'. fx_reset s t st = fx_refresh s t st' \<and> fixed_rel t (L(rl_key s := [])) st'"
proof -
  have "fixed_rel t (L(rl_key s := []))
     \<lparr>fx_windows = AList.delete (rl_key s) (fx_windows st),
      fx_second_windows = AList.delete (rl_key s) (fx_second_windows st)\<rparr>"
    using fixed_rel_mono [OF assms] unfolding fixed_rel_def
    by (simp add: minute_rel_def second_rel_def)
  then show ?thesis by (auto simp: fx_reset_def)
qed

lemma fixed_within_admitted:
  assumes "same_limits s q" "fixed_admits s n t (L k)" "fixed_within q (L k)"
  shows "fixed_within q (L k @ [(t, n)])"
  using assms
  by (auto simp: fixed_within_def fixed_admits_def same_limits_def calendar_def token_sum_def)

interpretation fixed: quota_strategy fixed_ops "\<lambda>t1 t2. t1" new_fixed fixed_rel
  fixed_admits fixed_within fixed_usage
proof unfold_locales
  fix T t t1 t2 :: time and L :: "rl_key \<Rightarrow> quota_log" and st s q n k
  show "fixed_rel T (\<lambda>_. []) new_fixed"
    by (auto simp: fixed_rel_def new_fixed_def minute_rel_def second_rel_def)
  assume rel: "fixed_rel T L st"
  show "T \<le> t \<Longrightarrow> fixed_rel t L st" by (rule fixed_rel_mono [OF rel])
  show "T \<le> t \<Longrightarrow> fst (rl_allow fixed_ops s n t st) = fixed_admits s n t (L (rl_key s))"
    and "T \<le> t \<Longrightarrow> fixed_rel t L (snd (rl_allow fixed_ops s n t st))"
    using fixed_allow [OF rel] by (simp_all add: fixed_ops_def)
  show "T \<le> t1 \<Longrightarrow> t1 \<le> t2 \<Longrightarrow>
      fixed_rel t2 (if fixed_admits s n t1 (L (rl_key s))
        then L(rl_key s := L (rl_key s) @ [(t1, n)]) else L)
        (snd (rl_consume fixed_ops s n t1 t2 st))"
    using fx_consume_split [OF rel, of t1 s n t2] fx_refresh_rel fixed_rel_mono
    by (fastforce simp: fixed_ops_def)
  show "T \<le> t \<Longrightarrow> fixed_rel t (L(rl_key s := [])) (snd (rl_reset fixed_ops s t st))"
    using fx_reset_split [OF rel, of t s] fx_refresh_rel by (auto simp: fixed_ops_def)
  show "same_limits s q \<Longrightarrow> fixed_admits s n t1 (L k) \<Longrightarrow>
      fixed_within q (L k) \<Longrightarrow> fixed_within q (L k @ [(t1, n)])"
    by (rule fixed_within_admitted)
  assume v: "rl_valid s"
  show "T \<le> t1 \<Longrightarrow> t1 \<le> t2 \<Longrightarrow>
      \<exists>s'. fst (rl_consume fixed_ops s n t1 t2 st) = Inr s' \<and> rl_valid s' \<and>
        rl_key s' = rl_key s \<and> same_limits s' s \<and>
        (rs_current_requests s', rs_current_tokens s') =
          fixed_usage t1 (if fixed_admits s n t1 (L (rl_key s))
            then L (rl_key s) @ [(t1, n)] else L (rl_key s))"
    using fx_consume_split [OF rel, of t1 s n t2] fx_refresh_usage [OF _ order_refl v]
    by (fastforce simp: fixed_ops_def)
  show "T \<le> t \<Longrightarrow>
      \<exists>s'. fst (rl_reset fixed_ops s t st) = Inr s' \<and> rl_valid s' \<and>
        rl_key s' = rl_key s \<and> same_limits s' s \<and>
        (rs_current_requests s', rs_current_tokens s') = (0, 0) \<and>
        rs_remaining_requests s' = rs_requests_per_minute s \<and>
        rs_remaining_tokens s' = rs_tokens_per_minute s"
    using fx_reset_split [OF rel, of t s] fx_refresh_usage [OF _ order_refl v] v
    by (fastforce simp: fixed_ops_def fixed_usage_def calendar_def token_sum_def remaining_def
        rl_valid_iff)
next
  fix s show "rl_valid s \<Longrightarrow> fixed_within s []"
    by (simp add: fixed_within_def calendar_def token_sum_def rl_valid_iff)
qed

subsection \<open>Registry and manager\<close>

interpretation quota_reg: named_registry "keyed rl_key" map_of rl_key quota_register
  "\<lambda>k. quota_get (fst k) (snd k)" quota_list
proof -
  have "quota_list = sorted_values" by (simp add: quota_list_def fun_eq_iff)
  moreover have "named_registry (keyed rl_key) map_of rl_key quota_register
      (\<lambda>k. quota_get (fst k) (snd k)) sorted_values"
    by (rule dict_named_registry) (simp_all add: quota_register_def quota_get_def)
  ultimately show "named_registry (keyed rl_key) map_of rl_key quota_register
      (\<lambda>k. quota_get (fst k) (snd k)) quota_list" by simp
qed

definition quotas_ok :: "quota_registry \<Rightarrow> bool" where
  "quotas_ok r \<longleftrightarrow> keyed rl_key r \<and> (\<forall>k s. map_of r k = Some s \<longrightarrow> rl_valid s)"

lemma quotas_ok_get:
  assumes "quotas_ok r" "quota_get p sc r = Inr s"
  shows "map_of r (p, sc) = Some s" and "rl_key s = (p, sc)" and "rl_valid s"
proof -
  show m: "map_of r (p, sc) = Some s"
    using assms(2) by (auto simp: quota_get_def dict_lookup_def split: option.splits)
  show "rl_key s = (p, sc)" and "rl_valid s"
    using assms(1) m keyed_key by (fastforce simp: quotas_ok_def)+
qed

lemma quotas_ok_store:
  assumes "quotas_ok r" "map_of r k = Some s0" "rl_key s = k" "rl_valid s"
  shows "quota_update s r = Inr (AList.update k s r)" and "quotas_ok (AList.update k s r)"
  using assms by (auto simp: quota_update_def quotas_ok_def)

lemma quotas_ok_register:
  assumes "quotas_ok r" "rl_valid s" "quota_register s r = Inr r'"
  shows "quotas_ok r'" and "quota_get (rs_provider s) (rs_scope s) r' = Inr s"
  using assms
  by (auto simp: quotas_ok_def quota_register_def dict_register_def quota_get_def dict_lookup_def
      rl_key_def split: if_splits)

context quota_strategy
begin

lemma limiter_consume_cases:
  fixes n :: int
  assumes "rel T L (rl_strategy m)" and "quotas_ok (rl_registry m)"
    and "quota_get p sc (rl_registry m) = Inr s"
    and "T \<le> t0" "t0 \<le> t1" "t1 \<le> t2"
  defines "L' \<equiv> (if admits s n t1 (L (p, sc))
                  then L((p, sc) := L (p, sc) @ [(stamp t1 t2, n)]) else L)"
  shows "\<exists>s' m'. limiter_consume ops p sc n t0 t1 t2 m = (Inr (admits s n t0 (L (p, sc)), s'), m') \<and>
           rl_events m' = rl_events m \<and> rel t2 L' (rl_strategy m') \<and> quotas_ok (rl_registry m') \<and>
           quota_get p sc (rl_registry m') = Inr s' \<and> same_limits s' s \<and>
           (rs_current_requests s', rs_current_tokens s') = usage (stamp t1 t2) (L' (p, sc))"
proof -
  note s = quotas_ok_get [OF assms(2,3)]
  let ?st1 = "snd (rl_allow ops s n t0 (rl_strategy m))"
  have rel1: "rel t0 L ?st1" by (rule allow_rel [OF assms(1,4)])
  have ok: "fst (rl_allow ops s n t0 (rl_strategy m)) = admits s n t0 (L (p, sc))"
    using allow_decides [OF assms(1,4)] s(2) by simp
  have rel2: "rel t2 L' (snd (rl_consume ops s n t1 t2 ?st1))"
    using consume_rel [OF rel1 assms(5,6), of s n] by (simp only: s(2) L'_def)
  from consume_result [OF rel1 assms(5,6) s(3), of n] s(2) obtain s' where s':
    "fst (rl_consume ops s n t1 t2 ?st1) = Inr s'" "rl_valid s'" "rl_key s' = (p, sc)"
    "same_limits s' s"
    "(rs_current_requests s', rs_current_tokens s') = usage (stamp t1 t2) (L' (p, sc))"
    by (auto simp: L'_def)
  note store = quotas_ok_store [OF assms(2) s(1) s'(3,2)]
  have "limiter_consume ops p sc n t0 t1 t2 m = (Inr (admits s n t0 (L (p, sc)), s'),
      m\<lparr>rl_strategy := snd (rl_consume ops s n t1 t2 ?st1),
        rl_registry := AList.update (p, sc) s' (rl_registry m)\<rparr>)"
    using s'(1) store(1) assms(3) ok
    by (cases "rl_consume ops s n t1 t2 ?st1") (auto simp: limiter_consume_def split: prod.splits)
  then show ?thesis
    using rel2 store(2) s'(4,5) by (auto simp: quota_get_def dict_lookup_def)
qed

text \<open>When the two quota checks see the same instant, the answer, the event and the recorded
  request agree.\<close>

lemma manager_consume:
  fixes n :: int
  assumes "rel T L (rl_strategy m)" and "quotas_ok (rl_registry m)"
    and "quota_get p sc (rl_registry m) = Inr s" and "T \<le> t" "t \<le> t2"
  defines "ok \<equiv> admits s n t (L (p, sc))"
  shows "\<exists>s' m'. rlm_consume ops p sc n t t t2 m = (Inr ok, m') \<and>
           rel t2 (if ok then L((p, sc) := L (p, sc) @ [(stamp t t2, n)]) else L)
             (rl_strategy m') \<and>
           rl_events m' = rl_events m @
             [if ok then QuotaConsumed p sc s' else RateLimitExceeded p sc s'] \<and>
           quotas_ok (rl_registry m') \<and> quota_get p sc (rl_registry m') = Inr s'"
  using limiter_consume_cases [OF assms(1-4) order_refl assms(5), of n]
  by (fastforce simp: rlm_consume_def rlm_publish_def ok_def)

lemma manager_reset:
  assumes "rel T L (rl_strategy m)" and "quotas_ok (rl_registry m)"
    and "quota_get p sc (rl_registry m) = Inr s" and "T \<le> t"
  shows "\<exists>s' m'. rlm_reset ops p sc t m = (Inr s', m') \<and>
           rel t (L((p, sc) := [])) (rl_strategy m') \<and>
           rl_events m' = rl_events m @ [QuotaReset p sc s'] \<and>
           quotas_ok (rl_registry m') \<and> quota_get p sc (rl_registry m') = Inr s' \<and>
           same_limits s' s \<and> rs_current_requests s' = 0 \<and> rs_current_tokens s' = 0 \<and>
           rs_remaining_requests s' = rs_requests_per_minute s \<and>
           rs_remaining_tokens s' = rs_tokens_per_minute s"
proof -
  note s = quotas_ok_get [OF assms(2,3)]
  from reset_result [OF assms(1,4) s(3)] s(2) obtain s' where s':
    "fst (rl_reset ops s t (rl_strategy m)) = Inr s'" "rl_valid s'" "rl_key s' = (p, sc)"
    "same_limits s' s" "rs_current_requests s' = 0" "rs_current_tokens s' = 0"
    "rs_remaining_requests s' = rs_requests_per_minute s"
    "rs_remaining_tokens s' = rs_tokens_per_minute s" by auto
  note store = quotas_ok_store [OF assms(2) s(1) s'(3,2)]
  have "limiter_reset ops p sc t m = (Inr s',
      m\<lparr>rl_strategy := snd (rl_reset ops s t (rl_strategy m)),
        rl_registry := AList.update (p, sc) s' (rl_registry m)\<rparr>)"
    using s'(1) store(1) assms(3)
    by (cases "rl_reset ops s t (rl_strategy m)") (auto simp: limiter_reset_def)
  then show ?thesis
    using reset_rel [OF assms(1,4), of s] store(2) s(2) s'(4-)
    by (auto simp: rlm_reset_def rlm_publish_def quota_get_def dict_lookup_def)
qed

lemma manager_register:
  assumes "rel T L (rl_strategy m)" and "quotas_ok (rl_registry m)" and "rl_valid s"
    and "map_of (rl_registry m) (rl_key s) = None" and "T \<le> t"
  shows "\<exists>s' m'. rlm_register ops s t m = (Inr (), m') \<and>
           rel t (L(rl_key s := [])) (rl_strategy m') \<and> quotas_ok (rl_registry m') \<and>
           quota_get (rs_provider s) (rs_scope s) (rl_registry m') = Inr s' \<and> same_limits s' s \<and>
           rs_current_requests s' = 0 \<and> rs_current_tokens s' = 0"
proof -
  from assms(4) have reg: "quota_register s (rl_registry m) =
      Inr (AList.update (rl_key s) s (rl_registry m))"
    by (simp add: quota_register_def dict_register_def)
  note ok = quotas_ok_register [OF assms(2,3) reg]
  from reset_result [OF assms(1,5,3)] obtain s' where s':
    "fst (rl_reset ops s t (rl_strategy m)) = Inr s'" "rl_valid s'" "rl_key s' = rl_key s"
    "same_limits s' s" "rs_current_requests s' = 0" "rs_current_tokens s' = 0" by auto
  note store = quotas_ok_store [OF ok(1) _ s'(3,2), of s]
  show ?thesis
    using reg s' store reset_rel [OF assms(1,5), of s]
    by (cases "rl_reset ops s t (rl_strategy m)")
      (auto simp: rlm_register_def quota_get_def dict_lookup_def rl_key_def)
qed

end

subsection \<open>Correctness of the quotas\<close>

definition sample_quota :: rl_snapshot where
  "sample_quota =
     \<lparr>rs_provider = ''p'', rs_scope = ''provider'', rs_requests_per_second = 1,
      rs_requests_per_minute = 2, rs_tokens_per_minute = 10,
      rs_current_requests = 0, rs_current_tokens = 0, rs_remaining_requests = 2,
      rs_remaining_tokens = 10, rs_reset_at = None, rs_last_updated = None\<rparr>"

lemma sample_quota_sel [simp]:
  "rs_provider sample_quota = ''p''" "rs_scope sample_quota = ''provider''"
  "rs_requests_per_second sample_quota = 1" "rs_requests_per_minute sample_quota = 2"
  "rs_tokens_per_minute sample_quota = 10" "rl_key sample_quota = (''p'', ''provider'')"
  by (simp_all add: sample_quota_def rl_key_def)

lemma sample_quota_valid [simp]: "rl_valid sample_quota"
  by (simp add: rl_valid_iff sample_quota_def)

definition sample_calls :: "rl_call list" where
  "sample_calls = [RL_Consume sample_quota 4 0 5, RL_Consume sample_quota 4 500000 500000,
     RL_Consume sample_quota 4 1000010 1000020]"

lemma sample_calls_facts:
  "readings sample_calls = [0, 5, 500000, 500000, 1000010, 1000020]"
  "\<forall>c \<in> set sample_calls. call_snapshot c = sample_quota"
  by (simp_all add: sample_calls_def readings_def)

text \<open>C2: over any sequence of whole calls, one after the other, with clock readings that never go
  back and limits that do not change, the requests for a key that the sliding window accepted since
  the key's last reset never exceed the per-second limit in any interval of one second, nor the
  per-minute and token limits in any interval of one minute, wherever the interval ends, and
  whatever calls for other keys come between.\<close>

theorem sliding_window_safe:
  assumes "rl_valid q" and "sorted (readings cs)"
    and "\<forall>c \<in> set cs. rl_key (call_snapshot c) = rl_key q \<longrightarrow> same_limits (call_snapshot c) q"
  defines "accepted \<equiv> snd (rl_calls sliding_ops (\<lambda>t1 t2. t2) new_sliding cs) (rl_key q)"
  shows "\<forall>w.
     (rs_requests_per_second q \<noteq> 0 \<longrightarrow>
        int (length (window one_second w accepted)) \<le> rs_requests_per_second q) \<and>
     (rs_requests_per_minute q \<noteq> 0 \<longrightarrow>
        int (length (window one_minute w accepted)) \<le> rs_requests_per_minute q) \<and>
     (rs_tokens_per_minute q \<noteq> 0 \<longrightarrow>
        token_sum (window one_minute w accepted) \<le> rs_tokens_per_minute q)"
  using sliding.calls_safe [OF assms(1-3)]
  unfolding accepted_def sliding_within_def by blast

theorem sliding_window_safe_witness:
  "\<forall>w. int (length (window one_second w
     (snd (rl_calls sliding_ops (\<lambda>t1 t2. t2) new_sliding sample_calls) (rl_key sample_quota)))) \<le> 1"
  using sliding_window_safe [of sample_quota sample_calls] sample_calls_facts by simp

text \<open>The limit rests on whole calls. A caller that has checked leaves the lock before it records,
  so two callers for a quota of one request per second both pass the check and both record, at the
  same instant.\<close>

lemma checks_before_records:
  "let (ok1, st1) = sl_allow sample_quota 0 0 new_sliding;
       (ok2, st2) = sl_allow sample_quota 0 0 st1;
       (r1, st3) = sl_record sample_quota 0 0 st2;
       (r2, st4) = sl_record sample_quota 0 0 st3
   in ok1 \<and> ok2 \<and> dict_get (sl_requests st4) (rl_key sample_quota) [] = [0, 0]"
  "let (ok1, st1) = fx_allow sample_quota 0 0 new_fixed;
       (ok2, st2) = fx_allow sample_quota 0 0 st1;
       (r1, st3) = fx_record sample_quota 0 0 st2;
       (r2, st4) = fx_record sample_quota 0 0 st3
   in ok1 \<and> ok2 \<and> dict_get (fx_second_windows st4) (rl_key sample_quota) (0, 0) = (0, 2)"
  by code_simp+

text \<open>The pruned deques of the sliding window decide exactly as the full history of
  accepted requests does: after any calls with nondecreasing readings, \<open>allow\<close> answers that
  the tokens are not negative and no rolling limit is reached.\<close>

theorem sliding_decides_by_history:
  assumes "sorted (readings cs @ [t])"
  shows "fst (sl_allow s n t (fst (rl_calls sliding_ops (\<lambda>t1 t2. t2) new_sliding cs))) =
     sliding_admits s n t (snd (rl_calls sliding_ops (\<lambda>t1 t2. t2) new_sliding cs) (rl_key s))"
  using sliding.calls_decide [OF assms, of s n] by (simp add: sliding_ops_def)

theorem sliding_decides_by_history_witness:
  "fst (sl_allow sample_quota 1 1000020
      (fst (rl_calls sliding_ops (\<lambda>t1 t2. t2) new_sliding sample_calls))) =
   sliding_admits sample_quota 1 1000020
      (snd (rl_calls sliding_ops (\<lambda>t1 t2. t2) new_sliding sample_calls) (''p'', ''provider''))"
  using sliding_decides_by_history [of sample_calls 1000020 sample_quota 1] sample_calls_facts
  by simp

text \<open>The fixed window keeps every calendar second and every calendar minute within the
  limits.\<close>

theorem fixed_window_safe:
  assumes "rl_valid q" and "sorted (readings cs)"
    and "\<forall>c \<in> set cs. rl_key (call_snapshot c) = rl_key q \<longrightarrow> same_limits (call_snapshot c) q"
  defines "accepted \<equiv> snd (rl_calls fixed_ops (\<lambda>t1 t2. t1) new_fixed cs) (rl_key q)"
  shows "\<forall>a.
     (rs_requests_per_second q \<noteq> 0 \<longrightarrow>
        int (length (calendar second_start a accepted)) \<le> rs_requests_per_second q) \<and>
     (rs_requests_per_minute q \<noteq> 0 \<longrightarrow>
        int (length (calendar minute_start a accepted)) \<le> rs_requests_per_minute q) \<and>
     (rs_tokens_per_minute q \<noteq> 0 \<longrightarrow>
        token_sum (calendar minute_start a accepted) \<le> rs_tokens_per_minute q)"
  using fixed.calls_safe [OF assms(1-3)]
  unfolding accepted_def fixed_within_def by blast

theorem fixed_window_safe_witness:
  "\<forall>a. int (length (calendar second_start a
     (snd (rl_calls fixed_ops (\<lambda>t1 t2. t1) new_fixed sample_calls) (rl_key sample_quota)))) \<le> 1"
  using fixed_window_safe [of sample_quota sample_calls] sample_calls_facts by simp

definition sample_rl_state :: "sliding rl_state" where
  "sample_rl_state = \<lparr>rl_registry = [((''p'', ''provider''), sample_quota)],
     rl_strategy = new_sliding, rl_events = []\<rparr>"

lemma sample_rl_state_ok:
  "quotas_ok (rl_registry sample_rl_state)"
  "quota_get ''p'' ''provider'' (rl_registry sample_rl_state) = Inr sample_quota"
  "sliding_rel T (\<lambda>_. []) (rl_strategy sample_rl_state)"
  using sliding.rel_start [of T]
  by (auto simp: sample_rl_state_def quotas_ok_def keyed_def quota_get_def dict_lookup_def)

text \<open>When both quota checks of \<open>RateLimiter.consume\<close> see the same instant, a consume on
  a registered quota never raises, answers the decision on the history, publishes
  QuotaConsumed or RateLimitExceeded accordingly, records a request only when it answers True,
  and stores the snapshot it published.\<close>

theorem manager_consume_decides:
  assumes "sliding_rel T L (rl_strategy m)" and "quotas_ok (rl_registry m)"
    and "quota_get p sc (rl_registry m) = Inr s" and "T \<le> t" "t \<le> t2"
  shows "\<exists>s' m'. rlm_consume sliding_ops p sc n t t t2 m =
             (Inr (sliding_admits s n t (L (p, sc))), m') \<and>
           sliding_rel t2 (if sliding_admits s n t (L (p, sc))
              then L((p, sc) := L (p, sc) @ [(t2, n)]) else L) (rl_strategy m') \<and>
           rl_events m' = rl_events m @
             [if sliding_admits s n t (L (p, sc))
              then QuotaConsumed p sc s' else RateLimitExceeded p sc s'] \<and>
           quotas_ok (rl_registry m') \<and> quota_get p sc (rl_registry m') = Inr s'"
  by (rule sliding.manager_consume [OF assms])

theorem manager_consume_decides_witness:
  "\<exists>s' m'. rlm_consume sliding_ops ''p'' ''provider'' 3 0 0 5 sample_rl_state = (Inr True, m') \<and>
     rl_events m' = [QuotaConsumed ''p'' ''provider'' s']"
  using manager_consume_decides [OF sample_rl_state_ok(3,1,2), of 0 0 5 3]
  by (auto simp: sliding_admits_def window_def token_sum_def sample_rl_state_def)

text \<open>Resetting a registered quota through the manager never raises, forgets its history
  and only its history, reports zero usage and full remaining capacity, and publishes
  QuotaReset.\<close>

theorem manager_reset_restores:
  assumes "sliding_rel T L (rl_strategy m)" and "quotas_ok (rl_registry m)"
    and "quota_get p sc (rl_registry m) = Inr s" and "T \<le> t"
  shows "\<exists>s' m'. rlm_reset sliding_ops p sc t m = (Inr s', m') \<and>
           sliding_rel t (L((p, sc) := [])) (rl_strategy m') \<and>
           rl_events m' = rl_events m @ [QuotaReset p sc s'] \<and>
           quotas_ok (rl_registry m') \<and> quota_get p sc (rl_registry m') = Inr s' \<and>
           same_limits s' s \<and> rs_current_requests s' = 0 \<and> rs_current_tokens s' = 0 \<and>
           rs_remaining_requests s' = rs_requests_per_minute s \<and>
           rs_remaining_tokens s' = rs_tokens_per_minute s"
  by (rule sliding.manager_reset [OF assms])

theorem manager_reset_restores_witness:
  "\<exists>s' m'. rlm_reset sliding_ops ''p'' ''provider'' 7 sample_rl_state = (Inr s', m') \<and>
     rs_remaining_requests s' = 2"
  using manager_reset_restores [OF sample_rl_state_ok(3,1,2), of 7 7] by auto

text \<open>\<open>RateLimiter.consume\<close> asks the strategy twice, and the strategy reads the clock
  again. With one request per second, one request recorded at 0 and the readings 999999,
  1000000, 1000000, the manager answers False and publishes RateLimitExceeded, and the request
  is recorded all the same.\<close>

theorem limiter_verdict_can_disagree:
  "let m = snd (rlm_consume sliding_ops ''p'' ''provider'' 0 0 0 0 sample_rl_state);
       r = rlm_consume sliding_ops ''p'' ''provider'' 0 999999 1000000 1000000 m
   in fst r = Inr False \<and>
      (case last (rl_events (snd r)) of RateLimitExceeded _ _ _ \<Rightarrow> True | _ \<Rightarrow> False) \<and>
      dict_get (sl_requests (rl_strategy (snd r))) (''p'', ''provider'') [] = [0, 1000000]"
  by code_simp

end
