(* ===== verification/Py_Float.thy ===== *)
theory Py_Float
  imports TK_Prelude Complex_Main "HOL-Library.Log_Nat"
begin

text \<open>
  Python floats: IEEE 754 doubles. A finite double is the rational number it denotes (the two
  zeros are not told apart: division by either raises, and no modelled code reads a sign of zero), and
  arithmetic rounds the exact result to 53 bits, half to even, with gradual underflow and
  overflow to an infinity. \<open>x ** n\<close> is taken correctly rounded and raises OverflowError
  where the result leaves the range. Comparisons with NaN are false.
\<close>

datatype pyfloat = Fin rat | PosInf | NegInf | NaN

subsection \<open>Comparison\<close>

fun py_lt :: "pyfloat \<Rightarrow> pyfloat \<Rightarrow> bool" where
  "py_lt (Fin a) (Fin b) = (a < b)"
| "py_lt (Fin a) PosInf = True"
| "py_lt NegInf (Fin b) = True"
| "py_lt NegInf PosInf = True"
| "py_lt _ _ = False"

definition py_le :: "pyfloat \<Rightarrow> pyfloat \<Rightarrow> bool" where
  "py_le a b \<longleftrightarrow> py_lt a b \<or> (a = b \<and> a \<noteq> NaN)"

text \<open>\<open>min(a, b)\<close> keeps the first argument unless the second is smaller.\<close>

definition py_min :: "pyfloat \<Rightarrow> pyfloat \<Rightarrow> pyfloat" where
  "py_min a b = (if py_lt b a then b else a)"

lemma py_le_simps [simp]:
  "py_le (Fin a) (Fin b) \<longleftrightarrow> a \<le> b"
  "py_le x PosInf \<longleftrightarrow> x \<noteq> NaN"
  "py_le NegInf x \<longleftrightarrow> x \<noteq> NaN"
  "py_le NaN x = False" "py_le x NaN = False"
  "py_le PosInf (Fin a) = False" "py_le (Fin a) NegInf = False" "py_le PosInf NegInf = False"
  by (cases x; auto simp: py_le_def)+

lemma py_lt_irrefl [simp]: "\<not> py_lt x x"
  by (cases x) simp_all

lemma py_lt_trans: "py_lt x y \<Longrightarrow> py_lt y z \<Longrightarrow> py_lt x z"
  by (cases x; cases y; cases z) simp_all

lemma py_lt_linear: "x \<noteq> NaN \<Longrightarrow> y \<noteq> NaN \<Longrightarrow> py_lt x y \<or> x = y \<or> py_lt y x"
  by (cases x; cases y) auto

lemma py_lt_NaN [simp]: "\<not> py_lt NaN x" "\<not> py_lt x NaN"
  by (cases x; simp)+

lemma py_not_lt: "x \<noteq> NaN \<Longrightarrow> y \<noteq> NaN \<Longrightarrow> \<not> py_lt x y \<longleftrightarrow> py_le y x"
  by (cases x; cases y) auto

lemma py_le_trans: "py_le x y \<Longrightarrow> py_le y z \<Longrightarrow> py_le x z"
  by (cases x; cases y; cases z) auto

lemma py_le_refl [simp]: "py_le x x \<longleftrightarrow> x \<noteq> NaN"
  by (auto simp: py_le_def)

lemma py_min_le_left: "a \<noteq> NaN \<Longrightarrow> py_le (py_min a b) a"
  by (auto simp: py_min_def py_le_def)

lemma py_min_cases: "py_min a b = a \<or> py_min a b = b"
  by (simp add: py_min_def)

subsection \<open>Rounding\<close>

definition ilog2 :: "rat \<Rightarrow> int" where
  "ilog2 q =
     (let (n, d) = quotient_of q; e = int (nat (bitlen n)) - int (nat (bitlen d))
      in if q < 2 powi e then e - 1 else e)"

definition round_half_even :: "rat \<Rightarrow> int" where
  "round_half_even x =
     (let f = \<lfloor>x\<rfloor>; r = x - of_int f
      in if r < 1 / 2 then f else if 1 / 2 < r then f + 1 else if even f then f else f + 1)"

definition rnd64 :: "rat \<Rightarrow> pyfloat" where
  "rnd64 q =
     (if q = 0 then Fin 0
      else
        let a = \<bar>q\<bar>;
            ulp = 2 powi (max (ilog2 a - 52) (- 1074));
            r = of_int (round_half_even (a / ulp)) * ulp
        in if 2 ^ 1024 \<le> r then (if 0 < q then PosInf else NegInf) else Fin (sgn q * r))"

lemma round_half_even_nonneg: "0 \<le> x \<Longrightarrow> 0 \<le> round_half_even x"
  by (auto simp: round_half_even_def Let_def)

lemma rnd64_nonneg: "0 \<le> q \<Longrightarrow> py_le (Fin 0) (rnd64 q)"
  by (auto simp: rnd64_def Let_def round_half_even_nonneg)

lemma rnd64_not_NaN [simp]: "rnd64 q \<noteq> NaN"
  by (auto simp: rnd64_def Let_def)

lemma rnd64_zero [simp]: "rnd64 0 = Fin 0"
  by (simp add: rnd64_def)

subsection \<open>Arithmetic\<close>

fun py_add :: "pyfloat \<Rightarrow> pyfloat \<Rightarrow> pyfloat" where
  "py_add (Fin a) (Fin b) = rnd64 (a + b)"
| "py_add NaN _ = NaN"
| "py_add _ NaN = NaN"
| "py_add PosInf NegInf = NaN"
| "py_add NegInf PosInf = NaN"
| "py_add PosInf _ = PosInf"
| "py_add _ PosInf = PosInf"
| "py_add NegInf _ = NegInf"
| "py_add _ NegInf = NegInf"

definition py_inf :: "rat \<Rightarrow> pyfloat" where
  "py_inf s = (if s = 0 then NaN else if 0 < s then PosInf else NegInf)"

fun py_mul :: "pyfloat \<Rightarrow> pyfloat \<Rightarrow> pyfloat" where
  "py_mul (Fin a) (Fin b) = rnd64 (a * b)"
| "py_mul NaN _ = NaN"
| "py_mul _ NaN = NaN"
| "py_mul PosInf (Fin b) = py_inf b"
| "py_mul NegInf (Fin b) = py_inf (- b)"
| "py_mul (Fin a) PosInf = py_inf a"
| "py_mul (Fin a) NegInf = py_inf (- a)"
| "py_mul PosInf PosInf = PosInf"
| "py_mul PosInf NegInf = NegInf"
| "py_mul NegInf PosInf = NegInf"
| "py_mul NegInf NegInf = PosInf"

text \<open>Subtraction, and true division of floats and of integers; \<open>None\<close> is ZeroDivisionError. A quotient
  of integers is rounded once; the callers divide counters, whose quotient is in range.\<close>

fun py_neg :: "pyfloat \<Rightarrow> pyfloat" where
  "py_neg (Fin a) = Fin (- a)"
| "py_neg PosInf = NegInf"
| "py_neg NegInf = PosInf"
| "py_neg NaN = NaN"

definition py_sub :: "pyfloat \<Rightarrow> pyfloat \<Rightarrow> pyfloat" where
  "py_sub a b = py_add a (py_neg b)"

fun py_div :: "pyfloat \<Rightarrow> pyfloat \<Rightarrow> pyfloat option" where
  "py_div a (Fin b) =
     (if b = 0 then None
      else Some (case a of Fin x \<Rightarrow> rnd64 (x / b) | PosInf \<Rightarrow> py_inf b | NegInf \<Rightarrow> py_inf (- b) | NaN \<Rightarrow> NaN))"
| "py_div (Fin a) NaN = Some NaN"
| "py_div (Fin a) _ = Some (Fin 0)"
| "py_div _ _ = Some NaN"

definition py_int_div :: "int \<Rightarrow> int \<Rightarrow> pyfloat option" where
  "py_int_div a b = (if b = 0 then None else Some (rnd64 (of_int a / of_int b)))"

lemma py_mul_nonneg:
  assumes "py_le (Fin 0) a" "py_le (Fin 0) b"
  shows "py_mul a b = NaN \<or> py_le (Fin 0) (py_mul a b)"
  using assms by (cases a; cases b) (auto simp: rnd64_nonneg py_inf_def)

text \<open>\<open>x ** n\<close> for a float \<open>x\<close> and an integer \<open>n\<close> that is not negative; \<open>None\<close> is
  OverflowError. The exponent is converted to a float first.\<close>

definition py_pow :: "pyfloat \<Rightarrow> int \<Rightarrow> pyfloat option" where
  "py_pow x n =
     (case rnd64 (of_int n) of
        Fin k \<Rightarrow>
          if n = 0 then Some (Fin 1)
          else (case x of
                  Fin a \<Rightarrow>
                    (case rnd64 (a ^ nat \<lfloor>k\<rfloor>) of Fin r \<Rightarrow> Some (Fin r) | _ \<Rightarrow> None)
                | NegInf \<Rightarrow> Some (if even \<lfloor>k\<rfloor> then PosInf else NegInf)
                | y \<Rightarrow> Some y)
      | _ \<Rightarrow> None)"

lemma py_pow_nonneg:
  assumes "py_le (Fin 0) x" "py_pow x n = Some y"
  shows "py_le (Fin 0) y"
proof (cases x)
  case (Fin a)
  with assms(1) have "py_le (Fin 0) (rnd64 (a ^ k))" for k by (intro rnd64_nonneg) simp
  with assms(2) Fin show ?thesis
    by (auto simp: py_pow_def split: pyfloat.splits if_splits)
qed (use assms in \<open>auto simp: py_pow_def split: pyfloat.splits if_splits\<close>)

text \<open>Powers of two are exact up to the largest exponent.\<close>

lemma round_half_even_int [simp]: "round_half_even (of_int m) = m"
  by (simp add: round_half_even_def)

lemma ilog2_power2: "ilog2 (2 ^ n) = int n"
proof -
  have "quotient_of ((2::rat) ^ n) = (2 ^ n, 1)"
    using quotient_of_rat_of_int [of "2 ^ n"] by simp
  moreover have one: "bitlen (1::int) = 1" by (simp add: bitlen_alt_def)
  moreover have "bitlen ((2::int) ^ n) = int n + 1"
    using bitlen_pow2 [of 1 n] one by simp
  ultimately show ?thesis by (simp add: ilog2_def)
qed

lemma rnd64_power2:
  "rnd64 (2 ^ n) = (if 1024 \<le> n then PosInf else Fin (2 ^ n))"
proof -
  have e: "max (ilog2 (2 ^ n) - 52) (- 1074) = int n - 52" by (simp add: ilog2_power2)
  have p: "(2::rat) ^ n = 2 powi 52 * 2 powi (int n - 52)"
    using power_int_add [of "2::rat" 52 "int n - 52"] by (simp del: power_int_numeral)
  then have "(2::rat) ^ n / 2 powi (int n - 52) = of_int (2 ^ 52)" by simp
  then have "round_half_even ((2::rat) ^ n / 2 powi (int n - 52)) = 2 ^ 52"
    by (simp only: round_half_even_int)
  then have r: "of_int (round_half_even (\<bar>2 ^ n\<bar> / 2 powi (int n - 52))) * 2 powi (int n - 52) = (2::rat) ^ n"
    using p by simp
  have "(2::rat) ^ 1024 \<le> 2 ^ n \<longleftrightarrow> 1024 \<le> n"
    by (rule power_increasing_iff) simp
  then show ?thesis unfolding rnd64_def Let_def
    using e r by simp
qed


text \<open>\<open>float(n)\<close> for an integer raises OverflowError (\<open>None\<close>) out of range.\<close>

definition py_float_of_int :: "int \<Rightarrow> pyfloat option" where
  "py_float_of_int n = (case rnd64 (of_int n) of Fin x \<Rightarrow> Some (Fin x) | _ \<Rightarrow> None)"

lemma py_float_of_int_not_NaN [simp]: "py_float_of_int n \<noteq> Some NaN"
  by (auto simp: py_float_of_int_def split: pyfloat.splits)

subsection \<open>Durations\<close>

text \<open>\<open>timedelta(seconds=x)\<close> raises ValueError for NaN and OverflowError out of range; whole seconds are
  exact, the fraction is rounded to microseconds.\<close>

datatype delta_error = Delta_NaN | Delta_Overflow

definition timedelta_of :: "pyfloat \<Rightarrow> delta_error + int" where
  "timedelta_of x =
     (case x of
        NaN \<Rightarrow> Inl Delta_NaN
      | PosInf \<Rightarrow> Inl Delta_Overflow
      | NegInf \<Rightarrow> Inl Delta_Overflow
      | Fin q \<Rightarrow>
          let whole = (if 0 \<le> q then \<lfloor>q\<rfloor> else \<lceil>q\<rceil>);
              micros = (case rnd64 ((q - of_int whole) * 1000000) of
                          Fin m \<Rightarrow> round_half_even m | _ \<Rightarrow> 0);
              total = whole * one_second + micros
          in if 999999999 < \<bar>total div (86400 * one_second)\<bar> then Inl Delta_Overflow
             else Inr total)"

lemma timedelta_of_int:
  "\<bar>n * one_second div (86400 * one_second)\<bar> \<le> 999999999 \<Longrightarrow> timedelta_of (Fin (of_int n)) = Inr (n * one_second)"
  using round_half_even_int [of 0] by (simp add: timedelta_of_def Let_def)

subsection \<open>A linear order that puts NaN last\<close>

text \<open>It agrees with the Python comparison except on NaN, and lets sorting facts apply.\<close>

instantiation pyfloat :: linorder
begin

definition less_eq_pyfloat :: "pyfloat \<Rightarrow> pyfloat \<Rightarrow> bool" where
  "x \<le> y \<longleftrightarrow> y = NaN \<or> py_le x y"

definition less_pyfloat :: "pyfloat \<Rightarrow> pyfloat \<Rightarrow> bool" where
  "x < y \<longleftrightarrow> x \<noteq> NaN \<and> (y = NaN \<or> py_lt x y)"

instance
proof
  fix x y z :: pyfloat
  show "x < y \<longleftrightarrow> x \<le> y \<and> \<not> y \<le> x"
    by (cases x; cases y) (auto simp: less_pyfloat_def less_eq_pyfloat_def)
  show "x \<le> x" by (cases x) (auto simp: less_eq_pyfloat_def)
  show "x \<le> y \<Longrightarrow> y \<le> z \<Longrightarrow> x \<le> z"
    by (cases x; cases y; cases z) (auto simp: less_eq_pyfloat_def)
  show "x \<le> y \<Longrightarrow> y \<le> x \<Longrightarrow> x = y"
    by (cases x; cases y) (auto simp: less_eq_pyfloat_def)
  show "x \<le> y \<or> y \<le> x"
    by (cases x; cases y) (auto simp: less_eq_pyfloat_def)
qed

end

lemma py_lt_less: "x \<noteq> NaN \<Longrightarrow> y \<noteq> NaN \<Longrightarrow> py_lt x y \<longleftrightarrow> x < y"
  by (auto simp: less_pyfloat_def)

end
