(* ===== verification/Retry.thy ===== *)
theory Retry
  imports TK_Prelude Py_Float "HOL-Library.Sublist"
begin

text \<open>
  Explicit local retry (\<open>src/src/tkai/retry/\<close>): exception classification, immutable budgets,
  backoff strategies, policies, their registry and \<open>RetryManager.run\<close>. The operation and the
  sleeper that a caller passes to \<open>run\<close> are functions on an arbitrary caller state \<open>'w\<close> that
  return or raise. An exception is what the classifier can see of it: whether it is an instance
  of TimeoutError or ConnectionError, and the name of its class. A run is one caller's: the manager
  locks only its list of events.
\<close>

subsection \<open>Exceptions and their classification\<close>

record py_exn =
  ex_timeout :: bool
  ex_connection :: bool
  ex_type :: string

definition plain_exn :: "string \<Rightarrow> py_exn" where
  "plain_exn n = \<lparr>ex_timeout = False, ex_connection = False, ex_type = n\<rparr>"

datatype classification = TRANSIENT | TIMEOUT | RATE_LIMIT | PERMANENT | UNKNOWN

text \<open>\<open>str.lower\<close> on the letters of ASCII, the letters of a class name.\<close>

definition lower_char :: "char \<Rightarrow> char" where
  "lower_char c =
     (let n = (of_char c :: nat) in if 65 \<le> n \<and> n \<le> 90 then char_of (n + 32) else c)"

definition lower :: "string \<Rightarrow> string" where
  "lower s = map lower_char s"

definition classify_exception :: "py_exn \<Rightarrow> classification" where
  "classify_exception e =
     (if ex_timeout e then TIMEOUT
      else if ex_connection e then TRANSIENT
      else
        let name = lower (ex_type e)
        in if sublist ''timeout'' name then TIMEOUT
           else if sublist ''rate'' name \<and> sublist ''limit'' name then RATE_LIMIT
           else if sublist ''connection'' name \<or> sublist ''network'' name \<or>
                   sublist ''temporary'' name then TRANSIENT
           else PERMANENT)"

subsection \<open>Budgets\<close>

record retry_budget =
  rb_maximum :: int
  rb_consumed :: int

definition mk_budget :: "int \<Rightarrow> int \<Rightarrow> py_exn + retry_budget" where
  "mk_budget m c =
     (if m < 0 \<or> c < 0 then Inl (plain_exn ''ValueError'')
      else if m < c then Inl (plain_exn ''ValueError'')
      else Inr \<lparr>rb_maximum = m, rb_consumed = c\<rparr>)"

definition rb_remaining :: "retry_budget \<Rightarrow> int" where
  "rb_remaining b = rb_maximum b - rb_consumed b"

definition rb_consume :: "retry_budget \<Rightarrow> py_exn + retry_budget" where
  "rb_consume b =
     (if rb_remaining b = 0 then Inl (plain_exn ''RetryBudgetExhaustedError'')
      else mk_budget (rb_maximum b) (rb_consumed b + 1))"

subsection \<open>Backoff strategies\<close>

text \<open>The two strategies of the package and any other implementation of the protocol.\<close>

datatype backoff =
    Fixed_Backoff pyfloat
  | Exponential_Backoff pyfloat pyfloat pyfloat
  | Custom_Backoff string "int \<Rightarrow> py_exn + pyfloat"

definition mk_fixed_backoff :: "pyfloat \<Rightarrow> py_exn + backoff" where
  "mk_fixed_backoff d =
     (if py_lt d (Fin 0) then Inl (plain_exn ''ValueError'') else Inr (Fixed_Backoff d))"

definition mk_exponential_backoff :: "pyfloat \<Rightarrow> pyfloat \<Rightarrow> pyfloat \<Rightarrow> py_exn + backoff" where
  "mk_exponential_backoff base multiplier maximum =
     (if py_lt base (Fin 0) \<or> py_lt multiplier (Fin 1) \<or> py_lt maximum (Fin 0)
      then Inl (plain_exn ''ValueError'')
      else Inr (Exponential_Backoff base multiplier maximum))"

fun backoff_delay :: "backoff \<Rightarrow> int \<Rightarrow> py_exn + pyfloat" where
  "backoff_delay (Fixed_Backoff d) attempt =
     (if attempt < 1 then Inl (plain_exn ''ValueError'') else Inr d)"
| "backoff_delay (Exponential_Backoff base multiplier maximum) attempt =
     (if attempt < 1 then Inl (plain_exn ''ValueError'')
      else case py_pow multiplier (attempt - 1) of
             None \<Rightarrow> Inl (plain_exn ''OverflowError'')
           | Some p \<Rightarrow> Inr (py_min maximum (py_mul base p)))"
| "backoff_delay (Custom_Backoff _ f) attempt = f attempt"

fun backoff_type :: "backoff \<Rightarrow> string" where
  "backoff_type (Fixed_Backoff _) = ''FixedBackoffStrategy''"
| "backoff_type (Exponential_Backoff _ _ _) = ''ExponentialBackoffStrategy''"
| "backoff_type (Custom_Backoff n _) = n"

subsection \<open>Policies\<close>

record retry_policy =
  rp_name :: string
  rp_max_attempts :: int
  rp_backoff :: backoff
  rp_classifier :: "py_exn \<Rightarrow> classification"

definition mk_retry_policy ::
  "string \<Rightarrow> int \<Rightarrow> backoff option \<Rightarrow> (py_exn \<Rightarrow> classification) \<Rightarrow> py_exn + retry_policy" where
  "mk_retry_policy name max_attempts b classifier =
     (if name = '''' \<or> max_attempts < 1 then Inl (plain_exn ''ValueError'')
      else Inr \<lparr>rp_name = name, rp_max_attempts = max_attempts,
        rp_backoff = (case b of None \<Rightarrow> Fixed_Backoff (Fin 0) | Some x \<Rightarrow> x),
        rp_classifier = classifier\<rparr>)"

record retry_decision =
  rd_retry :: bool
  rd_delay :: pyfloat
  rd_class :: classification
  rd_reason :: string

definition retryable :: "classification \<Rightarrow> bool" where
  "retryable c \<longleftrightarrow> c = TRANSIENT \<or> c = TIMEOUT \<or> c = RATE_LIMIT"

definition rp_budget :: "retry_policy \<Rightarrow> py_exn + retry_budget" where
  "rp_budget p = mk_budget (rp_max_attempts p - 1) 0"

definition rp_decide ::
  "retry_policy \<Rightarrow> py_exn \<Rightarrow> int \<Rightarrow> retry_budget \<Rightarrow> py_exn + retry_decision" where
  "rp_decide p error attempt b =
     (let c = rp_classifier p error
      in if \<not> retryable c
         then Inr \<lparr>rd_retry = False, rd_delay = Fin 0, rd_class = c,
                rd_reason = ''permanent failure''\<rparr>
         else if rp_max_attempts p \<le> attempt \<or> rb_remaining b = 0
         then Inr \<lparr>rd_retry = False, rd_delay = Fin 0, rd_class = c,
                rd_reason = ''retry budget exhausted''\<rparr>
         else case backoff_delay (rp_backoff p) attempt of
                Inl e \<Rightarrow> Inl e
              | Inr d \<Rightarrow> Inr \<lparr>rd_retry = True, rd_delay = d, rd_class = c,
                  rd_reason = ''retryable failure''\<rparr>)"

subsection \<open>Registry\<close>

type_synonym retry_registry = "(string, retry_policy) dict"

definition rr_register :: "retry_policy \<Rightarrow> retry_registry \<Rightarrow> py_exn + retry_registry" where
  "rr_register p r = dict_register rp_name (plain_exn ''RetryPolicyRegistrationError'') p r"

definition rr_unregister ::
  "string \<Rightarrow> retry_registry \<Rightarrow> py_exn + (retry_policy \<times> retry_registry)" where
  "rr_unregister n r =
     (case map_of r n of
        None \<Rightarrow> Inl (plain_exn ''RetryPolicyNotFoundError'')
      | Some p \<Rightarrow> Inr (p, AList.delete n r))"

definition rr_get :: "string \<Rightarrow> retry_registry \<Rightarrow> py_exn + retry_policy" where
  "rr_get n r = dict_lookup (plain_exn ''RetryPolicyNotFoundError'') n r"

definition rr_list :: "retry_registry \<Rightarrow> retry_policy list" where
  "rr_list r = sorted_values r"

interpretation retry_reg: named_registry "keyed rp_name" map_of rp_name rr_register rr_get rr_list
proof -
  have "rr_list = sorted_values" by (simp add: rr_list_def fun_eq_iff)
  moreover have "named_registry (keyed rp_name) map_of rp_name rr_register rr_get sorted_values"
    by (rule dict_named_registry) (simp_all add: rr_register_def rr_get_def)
  ultimately show "named_registry (keyed rp_name) map_of rp_name rr_register rr_get rr_list"
    by simp
qed

subsection \<open>Manager\<close>

datatype retry_event =
    RetryScheduled string int classification
  | RetryExhausted string int classification

record retry_state =
  rt_registry :: retry_registry
  rt_events :: "retry_event list"

datatype policy_ref = By_Name string | By_Value retry_policy

text \<open>The body of the loop of \<open>run\<close> for the remaining attempt numbers.\<close>

fun retry_loop ::
  "retry_policy \<Rightarrow> ('w \<Rightarrow> (py_exn + 'a) \<times> 'w) \<Rightarrow> (pyfloat \<Rightarrow> 'w \<Rightarrow> (py_exn + unit) \<times> 'w) \<Rightarrow>
     int list \<Rightarrow> retry_budget \<Rightarrow> 'w \<Rightarrow> retry_event list \<Rightarrow>
     (py_exn + 'a) \<times> 'w \<times> retry_event list" where
  "retry_loop p operation sleep [] b w ev = (Inl (plain_exn ''AssertionError''), w, ev)"
| "retry_loop p operation sleep (attempt # rest) b w ev =
     (case operation w of
        (Inr x, w') \<Rightarrow> (Inr x, w', ev)
      | (Inl error, w') \<Rightarrow>
          (case rp_decide p error attempt b of
             Inl e \<Rightarrow> (Inl e, w', ev)
           | Inr d \<Rightarrow>
               if \<not> rd_retry d
               then (Inl error, w', ev @ [RetryExhausted (rp_name p) attempt (rd_class d)])
               else
                 (case rb_consume b of
                    Inl e \<Rightarrow> (Inl e, w', ev)
                  | Inr b' \<Rightarrow>
                      let ev' = ev @ [RetryScheduled (rp_name p) attempt (rd_class d)]
                      in case sleep (rd_delay d) w' of
                           (Inl e, w'') \<Rightarrow> (Inl e, w'', ev')
                         | (Inr _, w'') \<Rightarrow>
                             retry_loop p operation sleep rest b' w'' ev')))"

definition rt_register :: "retry_policy \<Rightarrow> retry_state \<Rightarrow> py_exn + retry_state" where
  "rt_register p m =
     (case rr_register p (rt_registry m) of
        Inl e \<Rightarrow> Inl e | Inr r \<Rightarrow> Inr (m\<lparr>rt_registry := r\<rparr>))"

definition rt_select :: "policy_ref \<Rightarrow> retry_state \<Rightarrow> py_exn + retry_policy" where
  "rt_select ref m = (case ref of By_Name n \<Rightarrow> rr_get n (rt_registry m) | By_Value p \<Rightarrow> Inr p)"

definition rt_run ::
  "('w \<Rightarrow> (py_exn + 'a) \<times> 'w) \<Rightarrow> policy_ref \<Rightarrow> (pyfloat \<Rightarrow> 'w \<Rightarrow> (py_exn + unit) \<times> 'w) \<Rightarrow>
     'w \<Rightarrow> retry_state \<Rightarrow> (py_exn + 'a) \<times> 'w \<times> retry_state" where
  "rt_run operation ref sleep w m =
     (case rt_select ref m of
        Inl e \<Rightarrow> (Inl e, w, m)
      | Inr p \<Rightarrow>
          (case rp_budget p of
             Inl e \<Rightarrow> (Inl e, w, m)
           | Inr b \<Rightarrow>
               (case retry_loop p operation sleep [1..rp_max_attempts p] b w (rt_events m) of
                  (r, w', ev) \<Rightarrow> (r, w', m\<lparr>rt_events := ev\<rparr>))))"

definition rt_summary :: "retry_state \<Rightarrow> (string \<times> int \<times> string) list" where
  "rt_summary m =
     map (\<lambda>p. (rp_name p, rp_max_attempts p, backoff_type (rp_backoff p))) (rr_list (rt_registry m))"

text \<open>The runtime adapter fixes the manager's policy.\<close>

definition rt_adapter_run ::
  "policy_ref \<Rightarrow> ('w \<Rightarrow> (py_exn + 'a) \<times> 'w) \<Rightarrow> (pyfloat \<Rightarrow> 'w \<Rightarrow> (py_exn + unit) \<times> 'w) \<Rightarrow>
     'w \<Rightarrow> retry_state \<Rightarrow> (py_exn + 'a) \<times> 'w \<times> retry_state" where
  "rt_adapter_run ref operation sleep w m = rt_run operation ref sleep w m"

subsection \<open>Correctness\<close>

text \<open>A caller whose operation plays a script of outcomes and whose sleeper records the delays.\<close>

definition play :: "(py_exn + 'a) list \<times> pyfloat list \<Rightarrow>
    (py_exn + 'a) \<times> (py_exn + 'a) list \<times> pyfloat list" where
  "play w = (hd (fst w), tl (fst w), snd w)"

definition note_sleep :: "pyfloat \<Rightarrow> (py_exn + 'a) list \<times> pyfloat list \<Rightarrow>
    (py_exn + unit) \<times> (py_exn + 'a) list \<times> pyfloat list" where
  "note_sleep d w = (Inr (), fst w, snd w @ [d])"

lemma play_Cons: "play (r # rs, ds) = (r, rs, ds)"
  by (simp add: play_def)

lemma note_sleep_pair: "note_sleep d (s, ds) = (Inr (), s, ds @ [d])"
  by (simp add: note_sleep_def)

text \<open>The number of leading outcomes that the policy may retry.\<close>

definition retryable_prefix :: "retry_policy \<Rightarrow> (py_exn + 'a) list \<Rightarrow> nat" where
  "retryable_prefix p script =
     length (takeWhile (\<lambda>r. isl r \<and> retryable (rp_classifier p (projl r))) script)"

lemma retryable_prefix_Cons [simp]:
  "retryable_prefix p (Inr x # rs) = 0"
  "retryable_prefix p (Inl e # rs) =
     (if retryable (rp_classifier p e) then Suc (retryable_prefix p rs) else 0)"
  by (simp_all add: retryable_prefix_def)

definition loop_result ::
  "retry_policy \<Rightarrow> int \<Rightarrow> (py_exn + 'a) list \<Rightarrow> nat \<Rightarrow> retry_event list" where
  "loop_result p a script j =
     map (\<lambda>i. RetryScheduled (rp_name p) (a + int i) (rp_classifier p (projl (script ! i)))) [0..<j] @
     (case script ! j of
        Inr _ \<Rightarrow> []
      | Inl e \<Rightarrow> [RetryExhausted (rp_name p) (a + int j) (rp_classifier p e)])"

lemma loop_result_Cons:
  "loop_result p a (r # rs) (Suc j) =
     RetryScheduled (rp_name p) a (rp_classifier p (projl r)) # loop_result p (a + 1) rs j"
  by (cases "rs ! j") (simp_all add: loop_result_def map_upt_Suc algebra_simps del: upt_Suc)

lemma retry_loop_play:
  assumes "1 \<le> a" "a + int d = rp_max_attempts p" "d < length script"
    and "\<And>n. 1 \<le> n \<Longrightarrow> n < rp_max_attempts p \<Longrightarrow> backoff_delay (rp_backoff p) n = Inr (delay n)"
  defines "j \<equiv> min (retryable_prefix p script) d"
  shows "retry_loop p play note_sleep [a..rp_max_attempts p]
      \<lparr>rb_maximum = rp_max_attempts p - 1, rb_consumed = a - 1\<rparr> (script, ds) ev =
    (script ! j, (drop (Suc j) script, ds @ map (\<lambda>i. delay (a + int i)) [0..<j]),
      ev @ loop_result p a script j)"
  using assms(1-3) unfolding j_def
proof (induction d arbitrary: a script ds ev)
  case 0
  then obtain r rs where s: "script = r # rs" by (cases script) auto
  from 0 have "[a..rp_max_attempts p] = [a]" by simp
  with 0 s show ?case
    by (cases r) (auto simp: play_def loop_result_def rp_decide_def Let_def)
next
  case (Suc d)
  then obtain r rs where s: "script = r # rs" by (cases script) auto
  have up: "[a..rp_max_attempts p] = a # [a + 1..rp_max_attempts p]"
    using Suc.prems by (subst upto_rec1) auto
  show ?case
  proof (cases r)
    case (Inr x)
    with s up show ?thesis by (simp add: play_def loop_result_def)
  next
    case (Inl e)
    show ?thesis
    proof (cases "retryable (rp_classifier p e)")
      case False
      with s up Inl show ?thesis by (simp add: play_def loop_result_def rp_decide_def Let_def)
    next
      case True
      have IH: "retry_loop p play note_sleep [a + 1..rp_max_attempts p]
          \<lparr>rb_maximum = rp_max_attempts p - 1, rb_consumed = a\<rparr> (rs, ds @ [delay a]) ev' =
        (rs ! min (retryable_prefix p rs) d, (drop (Suc (min (retryable_prefix p rs) d)) rs,
          (ds @ [delay a]) @ map (\<lambda>i. delay (a + 1 + int i)) [0..<min (retryable_prefix p rs) d]),
          ev' @ loop_result p (a + 1) rs (min (retryable_prefix p rs) d))" for ev'
        using Suc.IH [of "a + 1" rs "ds @ [delay a]" ev'] Suc.prems s by simp
      have j: "min (retryable_prefix p script) (Suc d) = Suc (min (retryable_prefix p rs) d)"
        using s Inl True by simp
      have dec: "rp_decide p e a \<lparr>rb_maximum = rp_max_attempts p - 1, rb_consumed = a - 1\<rparr> =
          Inr \<lparr>rd_retry = True, rd_delay = delay a, rd_class = rp_classifier p e,
            rd_reason = ''retryable failure''\<rparr>"
        using True Suc.prems assms(4) [of a] by (simp add: rp_decide_def rb_remaining_def)
      have con: "rb_consume \<lparr>rb_maximum = rp_max_attempts p - 1, rb_consumed = a - 1\<rparr> =
          Inr \<lparr>rb_maximum = rp_max_attempts p - 1, rb_consumed = a\<rparr>"
        using Suc.prems by (simp add: rb_consume_def rb_remaining_def mk_budget_def)
      show ?thesis
        unfolding up j using s Inl
        by (simp add: play_Cons dec con note_sleep_pair IH loop_result_Cons map_upt_Suc add.assoc
            del: upt_Suc)
    qed
  qed
qed

definition sample_policy :: retry_policy where
  "sample_policy = \<lparr>rp_name = ''net'', rp_max_attempts = 3, rp_backoff = Fixed_Backoff (Fin 1),
     rp_classifier = classify_exception\<rparr>"

definition timeout_exn :: py_exn where
  "timeout_exn = \<lparr>ex_timeout = True, ex_connection = False, ex_type = ''TimeoutError''\<rparr>"

text \<open>C9: \<open>RetryManager.run\<close> on a caller whose operation plays a script: let \<open>j\<close> be the number of
  leading retryable failures, at most \<open>max_attempts - 1\<close>. The operation is called exactly
  \<open>j + 1\<close> times, the result is its last outcome (a value is returned, the last exception is
  raised again), the sleeper sees the backoff delays of the attempts \<open>1, ..., j\<close> in order, and the
  events are one RetryScheduled for each of them, followed by RetryExhausted when the last
  outcome is a failure.\<close>

theorem retry_run_outcome:
  assumes "1 \<le> rp_max_attempts p" and "rp_max_attempts p \<le> int (length script)"
    and "\<And>n. 1 \<le> n \<Longrightarrow> n < rp_max_attempts p \<Longrightarrow> backoff_delay (rp_backoff p) n = Inr (delay n)"
  defines "j \<equiv> min (retryable_prefix p script) (nat (rp_max_attempts p - 1))"
  shows "rt_run play (By_Value p) note_sleep (script, []) m =
    (script ! j, (drop (Suc j) script, map (\<lambda>i. delay (1 + int i)) [0..<j]),
     m\<lparr>rt_events := rt_events m @
        map (\<lambda>i. RetryScheduled (rp_name p) (1 + int i) (rp_classifier p (projl (script ! i)))) [0..<j] @
        (case script ! j of
           Inr _ \<Rightarrow> []
         | Inl e \<Rightarrow> [RetryExhausted (rp_name p) (1 + int j) (rp_classifier p e)])\<rparr>)"
proof -
  have "rp_budget p = Inr \<lparr>rb_maximum = rp_max_attempts p - 1, rb_consumed = 1 - 1\<rparr>"
    using assms(1) by (simp add: rp_budget_def mk_budget_def)
  moreover have "retry_loop p play note_sleep [1..rp_max_attempts p]
      \<lparr>rb_maximum = rp_max_attempts p - 1, rb_consumed = 1 - 1\<rparr> (script, []) (rt_events m) =
      (script ! j, (drop (Suc j) script, [] @ map (\<lambda>i. delay (1 + int i)) [0..<j]),
        rt_events m @ loop_result p 1 script j)"
    unfolding j_def by (rule retry_loop_play) (use assms(1-3) in auto)
  ultimately show ?thesis by (simp add: rt_run_def rt_select_def loop_result_def)
qed

theorem retry_run_outcome_witness:
  "rt_run play (By_Value sample_policy) note_sleep ([Inl timeout_exn, Inr (7::int), Inr 8], [])
     \<lparr>rt_registry = [], rt_events = []\<rparr> =
   (Inr 7, ([Inr 8], [Fin 1]),
    \<lparr>rt_registry = [], rt_events = [RetryScheduled ''net'' 1 TIMEOUT]\<rparr>)"
  using retry_run_outcome [of sample_policy "[Inl timeout_exn, Inr (7::int), Inr 8]" "\<lambda>_. Fin 1"
      "\<lparr>rt_registry = [], rt_events = []\<rparr>"]
  by (simp add: sample_policy_def classify_exception_def timeout_exn_def retryable_def)

text \<open>An operation that counts its own calls.\<close>

definition counted :: "('w \<Rightarrow> 'r \<times> 'w) \<Rightarrow> 'w \<times> nat \<Rightarrow> 'r \<times> 'w \<times> nat" where
  "counted f w = (fst (f (fst w)), snd (f (fst w)), Suc (snd w))"

definition uncounted :: "(pyfloat \<Rightarrow> 'w \<Rightarrow> 'r \<times> 'w) \<Rightarrow> pyfloat \<Rightarrow> 'w \<times> nat \<Rightarrow> 'r \<times> 'w \<times> nat" where
  "uncounted f d w = (fst (f d (fst w)), snd (f d (fst w)), snd w)"

lemma retry_loop_count:
  "retry_loop p (counted f) (uncounted g) ns b w ev = (r, w', ev') \<Longrightarrow>
     snd w' \<le> snd w + length ns \<and>
     (\<exists>es. ev' = ev @ es \<and> length es \<le> snd w' - snd w \<and>
       (\<forall>e \<in> set es. case e of RetryScheduled n i c \<Rightarrow> n = rp_name p \<and> retryable c
                              | RetryExhausted n i c \<Rightarrow> n = rp_name p)) \<and> snd w \<le> snd w'"
proof (induction ns arbitrary: b w ev)
  case (Cons n ns)
  obtain r1 w1 where op: "counted f w = (r1, w1)" "snd w1 = Suc (snd w)"
    by (simp add: counted_def)
  have slp: "snd (snd (uncounted g d w1)) = snd w1" for d by (simp add: uncounted_def)
  show ?case
  proof (cases r1)
    case (Inr x)
    with Cons.prems op show ?thesis by simp
  next
    case (Inl e)
    show ?thesis
    proof (cases "rp_decide p e n b")
      case (Inl x)
      with Cons.prems op \<open>r1 = Inl e\<close> show ?thesis by simp
    next
      case (Inr d)
      have ret: "rd_retry d \<Longrightarrow> retryable (rd_class d)"
        using Inr by (auto simp: rp_decide_def Let_def split: if_splits sum.splits)
      show ?thesis
      proof (cases "rd_retry d")
        case False
        with Cons.prems op \<open>r1 = Inl e\<close> Inr show ?thesis by auto
      next
        case True
        show ?thesis
        proof (cases "rb_consume b")
          case (Inl x)
          with Cons.prems op \<open>r1 = Inl e\<close> Inr True show ?thesis by simp
        next
          case (Inr b')
          obtain r2 w2 where s: "uncounted g (rd_delay d) w1 = (r2, w2)" by (metis surj_pair)
          with slp [of "rd_delay d"] have w2: "snd w2 = Suc (snd w)" using op by simp
          let ?ev = "ev @ [RetryScheduled (rp_name p) n (rd_class d)]"
          note step = Cons.prems op(1) \<open>r1 = Inl e\<close> \<open>rp_decide p e n b = Inr d\<close> True Inr s
          show ?thesis
          proof (cases r2)
            case (Inl x)
            with step w2 ret [OF True] show ?thesis by auto
          next
            case (Inr u)
            with step have "retry_loop p (counted f) (uncounted g) ns b' w2 ?ev = (r, w', ev')"
              by simp
            from Cons.IH [OF this] w2 ret [OF True] show ?thesis by fastforce
          qed
        qed
      qed
    qed
  qed
qed simp

text \<open>Whatever the operation, the sleeper and the backoff do, one \<open>run\<close> calls the operation
  at most \<open>max_attempts\<close> times, and it appends at most one event for each call, all of them
  of the selected policy and RetryScheduled only for a retryable failure.\<close>

theorem retry_call_bound:
  assumes "rt_run (counted f) (By_Value p) (uncounted g) (w, 0) m = (r, (w', calls), m')"
  shows "calls \<le> nat (rp_max_attempts p) \<and>
    (\<exists>es. rt_events m' = rt_events m @ es \<and> length es \<le> calls \<and>
       (\<forall>e \<in> set es. case e of RetryScheduled n i c \<Rightarrow> n = rp_name p \<and> retryable c
                              | RetryExhausted n i c \<Rightarrow> n = rp_name p))"
proof (cases "rp_budget p")
  case (Inl e)
  with assms show ?thesis by (auto simp: rt_run_def rt_select_def)
next
  case (Inr b)
  obtain r' w2 ev where loop: "retry_loop p (counted f) (uncounted g) [1..rp_max_attempts p] b
      (w, 0) (rt_events m) = (r', w2, ev)" by (metis surj_pair)
  with assms Inr have "w2 = (w', calls)" "rt_events m' = ev"
    by (auto simp: rt_run_def rt_select_def)
  with retry_loop_count [OF loop] show ?thesis by simp
qed

theorem retry_call_bound_witness:
  "\<exists>r w' calls m'. rt_run (counted (\<lambda>w::unit. (Inl timeout_exn :: py_exn + int, w)))
      (By_Value sample_policy) (uncounted (\<lambda>d w. (Inr (), w))) ((), 0)
      \<lparr>rt_registry = [], rt_events = []\<rparr> = (r, (w', calls), m') \<and> calls \<le> 3"
proof -
  obtain r w' calls m' where run: "rt_run (counted (\<lambda>w::unit. (Inl timeout_exn :: py_exn + int, w)))
      (By_Value sample_policy) (uncounted (\<lambda>d w. (Inr (), w))) ((), 0)
      \<lparr>rt_registry = [], rt_events = []\<rparr> = (r, (w', calls), m')" by (metis surj_pair)
  with retry_call_bound [OF run] show ?thesis by (simp add: sample_policy_def)
qed

text \<open>A delay of the exponential backoff is never negative and never above the configured
  maximum, even where the base or the multiplier is NaN.\<close>

theorem exponential_backoff_bounded:
  assumes "mk_exponential_backoff base multiplier maximum = Inr s" and "maximum \<noteq> NaN"
    and "backoff_delay s attempt = Inr d"
  shows "py_le (Fin 0) d \<and> py_le d maximum"
proof -
  have s: "s = Exponential_Backoff base multiplier maximum" and
    nonneg: "base = NaN \<or> py_le (Fin 0) base" "multiplier = NaN \<or> py_le (Fin 1) multiplier"
    "py_le (Fin 0) maximum"
    using assms(1,2) py_not_lt [of base "Fin 0"] py_not_lt [of multiplier "Fin 1"]
      py_not_lt [of maximum "Fin 0"]
    by (auto simp: mk_exponential_backoff_def split: if_splits)
  from assms(3) s obtain p where p: "py_pow multiplier (attempt - 1) = Some p"
    "d = py_min maximum (py_mul base p)"
    by (auto split: if_splits option.splits)
  have "py_le (Fin 0) p \<or> p = NaN"
  proof (cases "multiplier = NaN")
    case True
    with p(1) show ?thesis by (auto simp: py_pow_def split: pyfloat.splits if_splits)
  next
    case False
    with nonneg(2) have "py_le (Fin 0) multiplier"
      by (metis py_le_trans py_le_simps(1) zero_le_one)
    with p(1) show ?thesis by (blast intro: py_pow_nonneg)
  qed
  then have "py_mul base p = NaN \<or> py_le (Fin 0) (py_mul base p)"
    using nonneg(1) py_mul_nonneg [of base p] by (cases base; cases p) auto
  then have "py_le (Fin 0) d"
    using p(2) nonneg(3) by (auto simp: py_min_def)
  with p(2) py_min_le_left [OF assms(2)] show ?thesis by simp
qed

theorem exponential_backoff_bounded_witness:
  "py_le (Fin 0) (Fin (1/2)) \<and> py_le (Fin (1/2)) (Fin 60)"
  using exponential_backoff_bounded [of "Fin (1/2)" "Fin 2" "Fin 60"
      "Exponential_Backoff (Fin (1/2)) (Fin 2) (Fin 60)" 1 "Fin (1/2)"]
  by (simp add: mk_exponential_backoff_def py_pow_def py_min_def)

text \<open>With the default arguments the capped delay is not returned for attempt 1025: the power
  is computed before the cap and raises OverflowError.\<close>

theorem exponential_backoff_overflows:
  "backoff_delay (Exponential_Backoff (Fin 0) (Fin 2) (Fin 60)) 1025 =
     Inl (plain_exn ''OverflowError'')"
proof -
  have "rnd64 (of_int 1024) = Fin 1024"
    using rnd64_power2 [of 10] by simp
  moreover have "rnd64 ((2::rat) ^ nat \<lfloor>1024 :: rat\<rfloor>) = PosInf"
    using rnd64_power2 [of 1024] by simp
  ultimately have "py_pow (Fin 2) 1024 = None"
    by (simp add: py_pow_def)
  then show ?thesis by simp
qed

end
