(* ===== verification/Routing.thy ===== *)
theory Routing
  imports Circuit_Breaker Rate_Limit Py_Float
begin

text \<open>
  Provider routing (\<open>src/src/tkai/routing/\<close>) and the quota-aware composition of
  \<open>src/src/tkai/rate_limit/strategy.py\<close>: validated metadata, the metadata registry, the router
  that joins metadata with health and breaker snapshots, and the cost-aware strategy. The locale
  \<open>selection\<close> is the interface \<open>RoutingStrategy\<close>; the cost-aware strategy and the quota filter
  around it are its two interpretations.
\<close>

subsection \<open>Metadata\<close>

record provider_metadata =
  pm_provider :: string
  pm_priority :: int
  pm_weight :: int
  pm_prompt_cost :: pyfloat
  pm_completion_cost :: pyfloat
  pm_capabilities :: "string set"

datatype routing_error =
    Routing_ValueError string
  | Routing_OverflowError
  | RoutingError string
  | ProviderMetadataNotFoundError string

fun py_isfinite :: "pyfloat \<Rightarrow> bool" where
  "py_isfinite (Fin _) = True"
| "py_isfinite _ = False"

definition mk_metadata :: "provider_metadata \<Rightarrow> routing_error + provider_metadata" where
  "mk_metadata m =
     (if pm_provider m = '''' then Inl (Routing_ValueError ''provider must not be empty'')
      else if pm_weight m < 1 then Inl (Routing_ValueError ''weight must be at least one'')
      else if \<not> py_isfinite (pm_prompt_cost m) \<or> \<not> py_isfinite (pm_completion_cost m) \<or>
              py_lt (pm_prompt_cost m) (Fin 0) \<or> py_lt (pm_completion_cost m) (Fin 0)
      then Inl (Routing_ValueError ''provider costs must be finite and non-negative'')
      else Inr m)"

definition cost_per_1k :: "provider_metadata \<Rightarrow> pyfloat" where
  "cost_per_1k m = py_add (pm_prompt_cost m) (pm_completion_cost m)"

record candidate =
  ca_metadata :: provider_metadata
  ca_health :: health_status
  ca_breaker :: circuit_state

abbreviation ca_name :: "candidate \<Rightarrow> string" where
  "ca_name c \<equiv> pm_provider (ca_metadata c)"

record routing_decision =
  de_selected :: "string option"
  de_candidates :: "string list"
  de_reason :: string
  de_cost :: "pyfloat option"
  de_priority :: "int option"
  de_weight :: "int option"
  de_health :: "health_status option"
  de_breaker :: "circuit_state option"

subsection \<open>Registry\<close>

type_synonym routing_registry = "(string, provider_metadata) dict"

definition ro_register ::
  "provider_metadata \<Rightarrow> routing_registry \<Rightarrow> routing_error + routing_registry" where
  "ro_register m r = dict_register pm_provider (RoutingError (pm_provider m)) m r"

definition ro_get :: "string \<Rightarrow> routing_registry \<Rightarrow> routing_error + provider_metadata" where
  "ro_get p r = dict_lookup (ProviderMetadataNotFoundError p) p r"

definition ro_list :: "routing_registry \<Rightarrow> provider_metadata list" where
  "ro_list r = sorted_values r"

definition ro_remove ::
  "string \<Rightarrow> routing_registry \<Rightarrow> routing_error + (provider_metadata \<times> routing_registry)" where
  "ro_remove p r =
     (case ro_get p r of Inl e \<Rightarrow> Inl e | Inr m \<Rightarrow> Inr (m, AList.delete p r))"

definition ro_clear :: "routing_registry \<Rightarrow> routing_registry" where
  "ro_clear r = []"

interpretation routing_reg: named_registry "keyed pm_provider" map_of pm_provider ro_register
  ro_get ro_list
proof -
  have "ro_list = sorted_values" by (simp add: ro_list_def fun_eq_iff)
  moreover have "named_registry (keyed pm_provider) map_of pm_provider ro_register ro_get sorted_values"
    by (rule dict_named_registry) (simp_all add: ro_register_def ro_get_def)
  ultimately show "named_registry (keyed pm_provider) map_of pm_provider ro_register ro_get ro_list"
    by simp
qed

subsection \<open>The cost-aware strategy\<close>

record routing_policy =
  po_require_healthy :: bool
  po_allow_half_open :: bool

definition default_routing_policy :: routing_policy where
  "default_routing_policy = \<lparr>po_require_healthy = True, po_allow_half_open = True\<rparr>"

definition supports :: "provider_metadata \<Rightarrow> string set \<Rightarrow> bool" where
  "supports m caps \<longleftrightarrow> caps \<subseteq> pm_capabilities m"

type_synonym score = "pyfloat \<times> pyfloat \<times> pyfloat \<times> pyfloat"

definition score_provider :: "candidate \<Rightarrow> routing_error + score" where
  "score_provider c =
     (case (py_float_of_int (- pm_priority (ca_metadata c)),
            py_float_of_int (- pm_weight (ca_metadata c))) of
        (Some p, Some w) \<Rightarrow>
          Inr (cost_per_1k (ca_metadata c), Fin (if ca_breaker c = HALF_OPEN then 1 else 0), p, w)
      | _ \<Rightarrow> Inl Routing_OverflowError)"

text \<open>Python compares tuples at the first position where they differ.\<close>

fun key_less :: "score \<times> string \<Rightarrow> score \<times> string \<Rightarrow> bool" where
  "key_less ((a, b, c, d), n) ((a', b', c', d'), n') =
     (if a \<noteq> a' then py_lt a a'
      else if b \<noteq> b' then py_lt b b'
      else if c \<noteq> c' then py_lt c c'
      else if d \<noteq> d' then py_lt d d'
      else n < n')"

text \<open>\<open>min(items, key=...)\<close> evaluates every key first and returns the first least item.\<close>

fun keyed_candidates ::
  "candidate list \<Rightarrow> routing_error + ((score \<times> string) \<times> candidate) list" where
  "keyed_candidates [] = Inr []"
| "keyed_candidates (c # cs) =
     (case score_provider c of
        Inl e \<Rightarrow> Inl e
      | Inr s \<Rightarrow>
          (case keyed_candidates cs of
             Inl e \<Rightarrow> Inl e | Inr ks \<Rightarrow> Inr (((s, ca_name c), c) # ks)))"

definition least :: "(score \<times> string) \<times> candidate \<Rightarrow> ((score \<times> string) \<times> candidate) list \<Rightarrow>
    (score \<times> string) \<times> candidate" where
  "least = foldl (\<lambda>best x. if key_less (fst x) (fst best) then x else best)"

definition eligible :: "routing_policy \<Rightarrow> string set \<Rightarrow> candidate \<Rightarrow> bool" where
  "eligible po caps c \<longleftrightarrow>
     ca_breaker c \<noteq> OPEN \<and> (po_allow_half_open po \<or> ca_breaker c \<noteq> HALF_OPEN) \<and>
     (\<not> po_require_healthy po \<or> ca_health c = HS_HEALTHY) \<and> supports (ca_metadata c) caps"

definition select_provider ::
  "routing_policy \<Rightarrow> candidate list \<Rightarrow> string set \<Rightarrow> routing_error + routing_decision" where
  "select_provider po cs caps =
     (let el = filter (eligible po caps) cs
      in case keyed_candidates el of
           Inl e \<Rightarrow> Inl e
         | Inr [] \<Rightarrow>
             Inr \<lparr>de_selected = None, de_candidates = map ca_name cs,
               de_reason = ''No candidate satisfies breaker, health, and capability requirements'',
               de_cost = None, de_priority = None, de_weight = None, de_health = None,
               de_breaker = None\<rparr>
         | Inr (k # ks) \<Rightarrow>
             let sel = snd (least k ks); m = ca_metadata sel
             in Inr \<lparr>de_selected = Some (pm_provider m), de_candidates = map ca_name el,
                  de_reason = ''Selected lowest-cost eligible provider; ties use breaker state, priority, and weight'',
                  de_cost = Some (cost_per_1k m), de_priority = Some (pm_priority m),
                  de_weight = Some (pm_weight m), de_health = Some (ca_health sel),
                  de_breaker = Some (ca_breaker sel)\<rparr>)"

subsection \<open>Router and manager\<close>

type_synonym select_fun = "candidate list \<Rightarrow> string set \<Rightarrow> routing_error + routing_decision"

record routing_env =
  re_registry :: routing_registry
  re_health :: "health_registry option"
  re_breakers :: "cb_registry option"

definition candidate_of :: "routing_env \<Rightarrow> string \<Rightarrow> routing_error + candidate" where
  "candidate_of env p =
     (case ro_get p (re_registry env) of
        Inl e \<Rightarrow> Inl e
      | Inr m \<Rightarrow>
          Inr \<lparr>ca_metadata = m,
            ca_health = (case re_health env of None \<Rightarrow> HS_UNKNOWN | Some h \<Rightarrow> hs_status (health_get p h)),
            ca_breaker =
              (case re_breakers env of
                 None \<Rightarrow> CLOSED
               | Some b \<Rightarrow>
                   (case cb_get p b of Inl _ \<Rightarrow> CLOSED | Inr br \<Rightarrow> cs_state (br_snapshot br)))\<rparr>)"

fun sequence :: "('e + 'a) list \<Rightarrow> 'e + 'a list" where
  "sequence [] = Inr []"
| "sequence (x # xs) =
     (case x of
        Inl e \<Rightarrow> Inl e
      | Inr a \<Rightarrow> (case sequence xs of Inl e \<Rightarrow> Inl e | Inr as \<Rightarrow> Inr (a # as)))"

definition route :: "select_fun \<Rightarrow> routing_env \<Rightarrow> string set \<Rightarrow> routing_error + routing_decision" where
  "route select env caps =
     (case sequence (map (\<lambda>m. candidate_of env (pm_provider m)) (ro_list (re_registry env))) of
        Inl e \<Rightarrow> Inl e
      | Inr cs \<Rightarrow> select cs caps)"

subsection \<open>The quota filter around a strategy\<close>

text \<open>\<open>now i\<close> is the clock reading for the candidate at position \<open>i\<close>.\<close>

definition quota_allows ::
  "'s rl_ops \<Rightarrow> quota_registry \<Rightarrow> string \<Rightarrow> time \<Rightarrow> 's \<Rightarrow> bool \<times> 's" where
  "quota_allows ops r p t st =
     (case quota_get p ''provider'' r of Inl _ \<Rightarrow> (True, st) | Inr s \<Rightarrow> rl_allow ops s 0 t st)"

fun quota_filter ::
  "'s rl_ops \<Rightarrow> quota_registry \<Rightarrow> (nat \<Rightarrow> time) \<Rightarrow> nat \<Rightarrow> candidate list \<Rightarrow> 's \<Rightarrow>
     candidate list \<times> 's" where
  "quota_filter ops r now i [] st = ([], st)"
| "quota_filter ops r now i (c # cs) st =
     (let (ok, st1) = quota_allows ops r (ca_name c) (now i) st;
          (kept, st2) = quota_filter ops r now (Suc i) cs st1
      in (if ok then c # kept else kept, st2))"

definition quota_select ::
  "'s rl_ops \<Rightarrow> quota_registry \<Rightarrow> select_fun \<Rightarrow> (nat \<Rightarrow> time) \<Rightarrow> candidate list \<Rightarrow> string set \<Rightarrow> 's \<Rightarrow>
     (routing_error + routing_decision) \<times> 's" where
  "quota_select ops r base now cs caps st =
     (let (kept, st') = quota_filter ops r now 0 cs st in (base kept caps, st'))"

subsection \<open>The contract of a strategy\<close>

definition valid_candidate :: "candidate \<Rightarrow> bool" where
  "valid_candidate c \<longleftrightarrow> mk_metadata (ca_metadata c) = Inr (ca_metadata c)"

definition routing_env_ok :: "routing_env \<Rightarrow> bool" where
  "routing_env_ok env \<longleftrightarrow> keyed pm_provider (re_registry env) \<and>
     (\<forall>p m. map_of (re_registry env) p = Some m \<longrightarrow> mk_metadata m = Inr m)"

text \<open>The candidate that the router builds for a registered provider.\<close>

definition joined :: "routing_env \<Rightarrow> provider_metadata \<Rightarrow> candidate" where
  "joined env m = projr (candidate_of env (pm_provider m))"

lemma candidate_of_registered:
  assumes "keyed pm_provider (re_registry env)" "map_of (re_registry env) p = Some m"
  shows "candidate_of env p = Inr (joined env m)" and "ca_metadata (joined env m) = m"
  using assms keyed_key [OF assms]
  by (simp_all add: candidate_of_def joined_def ro_get_def dict_lookup_def)

lemma sequence_map_Inr:
  assumes "\<And>x. x \<in> set xs \<Longrightarrow> f x = Inr (g x)"
  shows "sequence (map f xs) = Inr (map g xs)"
  using assms by (induction xs) simp_all

lemma route_candidates:
  assumes "routing_env_ok env"
  shows "route select env caps = select (map (joined env) (ro_list (re_registry env))) caps"
    and "set (ro_list (re_registry env)) = ran (map_of (re_registry env))"
    and "m \<in> ran (map_of (re_registry env)) \<Longrightarrow> ca_metadata (joined env m) = m"
proof -
  have k: "keyed pm_provider (re_registry env)" using assms by (simp add: routing_env_ok_def)
  show set: "set (ro_list (re_registry env)) = ran (map_of (re_registry env))"
    using keyed_listing(1) [OF k] by (simp add: ro_list_def)
  have reg: "map_of (re_registry env) (pm_provider m) = Some m"
    if "m \<in> ran (map_of (re_registry env))" for m
    using that keyed_key [OF k] by (auto simp: ran_def)
  show "m \<in> ran (map_of (re_registry env)) \<Longrightarrow> ca_metadata (joined env m) = m"
    using candidate_of_registered(2) [OF k reg] by blast
  have "sequence (map (\<lambda>m. candidate_of env (pm_provider m)) (ro_list (re_registry env))) =
      Inr (map (joined env) (ro_list (re_registry env)))"
    using candidate_of_registered(1) [OF k reg] set by (intro sequence_map_Inr) simp
  then show "route select env caps = select (map (joined env) (ro_list (re_registry env))) caps"
    by (simp add: route_def)
qed

locale selection =
  fixes select :: select_fun
    and ok :: "string set \<Rightarrow> candidate \<Rightarrow> bool"
    and better :: "candidate \<Rightarrow> candidate \<Rightarrow> bool"
  assumes select_some:
      "\<forall>c \<in> set cs. valid_candidate c \<Longrightarrow> select cs caps = Inr d \<Longrightarrow> de_selected d = Some p \<Longrightarrow>
        \<exists>c \<in> set cs. ca_name c = p \<and> ok caps c \<and> (\<forall>x \<in> set cs. ok caps x \<longrightarrow> better c x)"
    and select_none:
      "\<forall>c \<in> set cs. valid_candidate c \<Longrightarrow> select cs caps = Inr d \<Longrightarrow> de_selected d = None \<Longrightarrow>
        \<forall>c \<in> set cs. \<not> ok caps c"
begin

lemma route_best:
  assumes "routing_env_ok env" "route select env caps = Inr d"
  shows "case de_selected d of
           None \<Rightarrow> \<forall>m \<in> ran (map_of (re_registry env)). \<not> ok caps (joined env m)
         | Some p \<Rightarrow> \<exists>m. map_of (re_registry env) p = Some m \<and> ok caps (joined env m) \<and>
             (\<forall>x \<in> ran (map_of (re_registry env)). ok caps (joined env x) \<longrightarrow>
                better (joined env m) (joined env x))"
proof -
  note r = route_candidates [OF assms(1)]
  have k: "keyed pm_provider (re_registry env)"
    using assms(1) by (simp add: routing_env_ok_def)
  have sel: "select (map (joined env) (ro_list (re_registry env))) caps = Inr d"
    using assms(2) r(1) by simp
  have valid: "\<forall>c \<in> set (map (joined env) (ro_list (re_registry env))). valid_candidate c"
    using assms(1) r(2,3) by (auto simp: valid_candidate_def routing_env_ok_def ran_def)
  show ?thesis
  proof (cases "de_selected d")
    case None
    with select_none [OF valid sel] r(2) show ?thesis by simp
  next
    case (Some p)
    from select_some [OF valid sel Some] r(2) obtain m where
      m: "m \<in> ran (map_of (re_registry env))" "ca_name (joined env m) = p" "ok caps (joined env m)"
        "\<forall>x \<in> ran (map_of (re_registry env)). ok caps (joined env x) \<longrightarrow>
           better (joined env m) (joined env x)" by auto
    with r(3) have "pm_provider m = p" by simp
    with m(1) keyed_key [OF k] have "map_of (re_registry env) p = Some m" by (auto simp: ran_def)
    with m Some show ?thesis by auto
  qed
qed

end

subsection \<open>The cost-aware strategy meets the contract\<close>

definition candidate_key :: "candidate \<Rightarrow> score \<times> string" where
  "candidate_key c = (projr (score_provider c), ca_name c)"

fun key_number :: "score \<times> string \<Rightarrow> bool" where
  "key_number ((a, b, c, d), n) \<longleftrightarrow> a \<noteq> NaN \<and> b \<noteq> NaN \<and> c \<noteq> NaN \<and> d \<noteq> NaN"

lemma key_less_less:
  assumes "key_number k" "key_number k'"
  shows "key_less k k' \<longleftrightarrow> k < k'"
  using assms by (cases k rule: key_number.cases; cases k' rule: key_number.cases)
    (auto simp: py_lt_less less_prod_simp)

lemma least_minimal:
  assumes "\<forall>k \<in> set (k0 # ks). key_number (fst k)"
  shows "least k0 ks \<in> set (k0 # ks) \<and> (\<forall>k \<in> set (k0 # ks). fst (least k0 ks) \<le> fst k)"
  using assms
proof (induction ks arbitrary: k0)
  case Nil
  then show ?case by (simp add: least_def)
next
  case (Cons k ks)
  let ?b = "if key_less (fst k) (fst k0) then k else k0"
  have b: "fst ?b \<le> fst k" "fst ?b \<le> fst k0"
    using Cons.prems key_less_less [of "fst k" "fst k0"] by auto
  have "least k0 (k # ks) = least ?b ks" by (simp add: least_def)
  with Cons.IH [of ?b] Cons.prems b show ?case by (auto split: if_splits intro: order_trans)
qed

lemma keyed_candidates_Inr:
  "keyed_candidates cs = Inr ks \<Longrightarrow> ks = map (\<lambda>c. (candidate_key c, c)) cs"
  by (induction cs arbitrary: ks) (auto simp: candidate_key_def split: sum.splits)

lemma candidate_key_number:
  assumes "valid_candidate c" "keyed_candidates cs = Inr ks" "c \<in> set cs"
  shows "key_number (candidate_key c)"
proof -
  have "\<exists>s. score_provider c = Inr s"
    using assms(2,3) by (induction cs arbitrary: ks) (auto split: sum.splits)
  moreover have "cost_per_1k (ca_metadata c) \<noteq> NaN"
    using assms(1) by (cases "pm_prompt_cost (ca_metadata c)"; cases "pm_completion_cost (ca_metadata c)")
      (auto simp: valid_candidate_def mk_metadata_def cost_per_1k_def split: if_splits)
  ultimately show ?thesis
    by (auto simp: candidate_key_def score_provider_def split: option.splits)
qed

lemma select_provider_cases:
  assumes "\<forall>c \<in> set cs. valid_candidate c" "select_provider po cs caps = Inr d"
  shows "(de_selected d = None \<and> filter (eligible po caps) cs = []) \<or>
    (\<exists>c \<in> set cs. de_selected d = Some (ca_name c) \<and> eligible po caps c \<and>
       (\<forall>x \<in> set cs. eligible po caps x \<longrightarrow> candidate_key c \<le> candidate_key x))"
proof (cases "keyed_candidates (filter (eligible po caps) cs)")
  case (Inl e)
  with assms(2) show ?thesis by (simp add: select_provider_def)
next
  case (Inr ks)
  note ks = keyed_candidates_Inr [OF Inr]
  show ?thesis
  proof (cases ks)
    case Nil
    with assms(2) Inr ks show ?thesis by (auto simp: select_provider_def)
  next
    case (Cons k ks')
    have "\<forall>k \<in> set (k # ks'). key_number (fst k)"
      using candidate_key_number [OF _ Inr] assms(1) ks Cons by auto
    note min = least_minimal [OF this]
    have keys: "set (k # ks') = (\<lambda>c. (candidate_key c, c)) ` set (filter (eligible po caps) cs)"
      using ks Cons by (metis list.set_map)
    from min keys obtain c where c: "least k ks' = (candidate_key c, c)"
      "c \<in> set (filter (eligible po caps) cs)" by blast
    have "\<forall>x \<in> set (filter (eligible po caps) cs). candidate_key c \<le> candidate_key x"
      using min unfolding keys c(1) by simp
    with c assms(2) Inr Cons show ?thesis by (auto simp: select_provider_def Let_def)
  qed
qed

text \<open>The strategy raises only when \<open>float\<close> cannot represent the priority or the weight of an
  eligible provider.\<close>

lemma keyed_candidates_Inl:
  "keyed_candidates cs = Inl e \<Longrightarrow> e = Routing_OverflowError \<and>
     (\<exists>c \<in> set cs. py_float_of_int (- pm_priority (ca_metadata c)) = None \<or>
        py_float_of_int (- pm_weight (ca_metadata c)) = None)"
  by (induction cs) (auto simp: score_provider_def split: sum.splits option.splits)

lemma select_provider_Inl:
  "select_provider po cs caps = Inl e \<Longrightarrow> e = Routing_OverflowError \<and>
     (\<exists>c \<in> set cs. eligible po caps c \<and>
        (py_float_of_int (- pm_priority (ca_metadata c)) = None \<or>
         py_float_of_int (- pm_weight (ca_metadata c)) = None))"
  using keyed_candidates_Inl [of "filter (eligible po caps) cs" e]
  by (auto simp: select_provider_def Let_def split: sum.splits list.splits)

interpretation cost: selection "select_provider po" "eligible po"
  "\<lambda>c x. candidate_key c \<le> candidate_key x" for po
proof unfold_locales
  fix cs caps d p
  assume "\<forall>c \<in> set cs. valid_candidate c" "select_provider po cs caps = Inr d"
  note cases = select_provider_cases [OF this]
  show "de_selected d = Some p \<Longrightarrow> \<exists>c \<in> set cs. ca_name c = p \<and> eligible po caps c \<and>
      (\<forall>x \<in> set cs. eligible po caps x \<longrightarrow> candidate_key c \<le> candidate_key x)"
    using cases by auto
  show "de_selected d = None \<Longrightarrow> \<forall>c \<in> set cs. \<not> eligible po caps c"
    using cases by (auto simp: filter_empty_conv)
qed

subsection \<open>The quota filter meets the contract\<close>

definition quota_open :: "time \<Rightarrow> quota_registry \<Rightarrow> (rl_key \<Rightarrow> quota_log) \<Rightarrow> candidate \<Rightarrow> bool" where
  "quota_open t r L c \<longleftrightarrow>
     (case quota_get (ca_name c) ''provider'' r of
        Inl _ \<Rightarrow> True
      | Inr s \<Rightarrow> sliding_admits s 0 t (L (rl_key s)))"

lemma quota_filter_sliding:
  assumes "sliding_rel T L st" "T \<le> t"
  shows "\<exists>st'. quota_filter sliding_ops r (\<lambda>_. t) i cs st = (filter (quota_open t r L) cs, st') \<and>
           (cs \<noteq> [] \<longrightarrow> sliding_rel t L st')"
  using assms
proof (induction cs arbitrary: i st T)
  case (Cons c cs)
  have step: "fst (quota_allows sliding_ops r (ca_name c) t st) = quota_open t r L c"
    "sliding_rel t L (snd (quota_allows sliding_ops r (ca_name c) t st))"
    using sliding.allow_decides [OF Cons.prems] sliding.allow_rel [OF Cons.prems]
      sliding_rel_mono [OF Cons.prems]
    by (auto simp: quota_allows_def quota_open_def split: sum.splits)
  obtain st1 where st1: "quota_allows sliding_ops r (ca_name c) t st = (quota_open t r L c, st1)"
    "sliding_rel t L st1"
    using step by (cases "quota_allows sliding_ops r (ca_name c) t st") auto
  from Cons.IH [OF st1(2) order_refl, of "Suc i"] st1 show ?case
    by (cases "cs = []") auto
qed simp

lemma quota_selection:
  assumes "selection base ok better" and "sliding_rel T L st" "T \<le> t"
  shows "selection (\<lambda>cs caps. fst (quota_select sliding_ops r base (\<lambda>_. t) cs caps st))
     (\<lambda>caps c. ok caps c \<and> quota_open t r L c) better"
proof unfold_locales
  fix cs caps d p
  assume v: "\<forall>c \<in> set cs. valid_candidate c"
    and s: "fst (quota_select sliding_ops r base (\<lambda>_. t) cs caps st) = Inr d"
  have b: "base (filter (quota_open t r L) cs) caps = Inr d"
    using s quota_filter_sliding [OF assms(2,3), of r 0 cs]
    by (auto simp: quota_select_def split: prod.splits)
  have vf: "\<forall>c \<in> set (filter (quota_open t r L) cs). valid_candidate c" using v by simp
  show "de_selected d = Some p \<Longrightarrow> \<exists>c \<in> set cs. ca_name c = p \<and> (ok caps c \<and> quota_open t r L c) \<and>
      (\<forall>x \<in> set cs. ok caps x \<and> quota_open t r L x \<longrightarrow> better c x)"
    using selection.select_some [OF assms(1) vf b] by auto
  show "de_selected d = None \<Longrightarrow> \<forall>c \<in> set cs. \<not> (ok caps c \<and> quota_open t r L c)"
    using selection.select_none [OF assms(1) vf b] by auto
qed

subsection \<open>Correctness of routing\<close>

lemma eligible_joined:
  assumes "routing_env_ok env" "m \<in> ran (map_of (re_registry env))"
  shows "eligible po caps (joined env m) \<longleftrightarrow>
    ca_breaker (joined env m) \<noteq> OPEN \<and>
    (po_allow_half_open po \<or> ca_breaker (joined env m) \<noteq> HALF_OPEN) \<and>
    (\<not> po_require_healthy po \<or> ca_health (joined env m) = HS_HEALTHY) \<and>
    caps \<subseteq> pm_capabilities m"
  using route_candidates(3) [OF assms] by (auto simp: eligible_def supports_def)

definition sample_metadata :: provider_metadata where
  "sample_metadata = \<lparr>pm_provider = ''a'', pm_priority = 0, pm_weight = 1, pm_prompt_cost = Fin 0,
     pm_completion_cost = Fin 0, pm_capabilities = {''chat''}\<rparr>"

definition sample_env :: routing_env where
  "sample_env = \<lparr>re_registry = [(''a'', sample_metadata)],
     re_health = Some [(''a'', (new_health_snapshot ''a'')\<lparr>hs_status := HS_HEALTHY\<rparr>)],
     re_breakers = None\<rparr>"

lemma sample_env_ok: "routing_env_ok sample_env"
  by (auto simp: routing_env_ok_def sample_env_def keyed_def sample_metadata_def mk_metadata_def)

lemma sample_metadata_sel [simp]:
  "pm_provider sample_metadata = ''a''" "pm_priority sample_metadata = 0"
  "pm_weight sample_metadata = 1" "cost_per_1k sample_metadata = Fin 0"
  "pm_capabilities sample_metadata = {''chat''}"
  by (simp_all add: sample_metadata_def cost_per_1k_def)

lemma rnd64_minus_one: "rnd64 (- 1) = Fin (- 1)"
  by code_simp

lemma sample_route:
  "\<exists>d. route (select_provider default_routing_policy) sample_env {''chat''} = Inr d \<and>
     de_selected d = Some ''a''"
  by (auto simp: route_def sample_env_def ro_list_def sorted_values_def sorted_keys_def
      candidate_of_def ro_get_def dict_lookup_def health_get_def dict_get_def select_provider_def
      eligible_def default_routing_policy_def supports_def score_provider_def least_def
      py_float_of_int_def rnd64_minus_one Let_def)

text \<open>C6: with validated metadata, the cost-aware router either returns a best possible decision or
  raises OverflowError for an eligible provider whose priority or weight is out of the range of
  floats. When it selects a provider, the provider is registered, its breaker is not OPEN (nor
  HALF_OPEN where the policy forbids it), it is healthy where the policy requires it and declares
  every required capability, and no other such provider precedes it in the order by cost, half-open
  penalty, descending priority, descending weight and name. When it selects none, no registered
  provider is eligible.\<close>

theorem route_selects_best:
  assumes "routing_env_ok env"
  shows "case route (select_provider po) env caps of
      Inl e \<Rightarrow> e = Routing_OverflowError \<and>
        (\<exists>m \<in> ran (map_of (re_registry env)). eligible po caps (joined env m) \<and>
           (py_float_of_int (- pm_priority m) = None \<or> py_float_of_int (- pm_weight m) = None))
    | Inr d \<Rightarrow>
        (case de_selected d of
           None \<Rightarrow> \<forall>m \<in> ran (map_of (re_registry env)). \<not> eligible po caps (joined env m)
         | Some p \<Rightarrow> \<exists>m. map_of (re_registry env) p = Some m \<and>
             ca_breaker (joined env m) \<noteq> OPEN \<and>
             (po_allow_half_open po \<or> ca_breaker (joined env m) \<noteq> HALF_OPEN) \<and>
             (\<not> po_require_healthy po \<or> ca_health (joined env m) = HS_HEALTHY) \<and>
             caps \<subseteq> pm_capabilities m \<and>
             (\<forall>x \<in> ran (map_of (re_registry env)). eligible po caps (joined env x) \<longrightarrow>
                candidate_key (joined env m) \<le> candidate_key (joined env x)))"
proof (cases "route (select_provider po) env caps")
  case (Inl e)
  note c = route_candidates [OF assms]
  from Inl c(1) have "select_provider po (map (joined env) (ro_list (re_registry env))) caps = Inl e"
    by simp
  from select_provider_Inl [OF this] c(2,3) Inl show ?thesis by auto
next
  case (Inr d)
  note best = cost.route_best [OF assms Inr]
  show ?thesis
  proof (cases "de_selected d")
    case None
    with best Inr show ?thesis by simp
  next
    case (Some p)
    with best obtain m where
      m: "map_of (re_registry env) p = Some m" "eligible po caps (joined env m)"
        "\<forall>x \<in> ran (map_of (re_registry env)). eligible po caps (joined env x) \<longrightarrow>
           candidate_key (joined env m) \<le> candidate_key (joined env x)" by auto
    from m(1) have "m \<in> ran (map_of (re_registry env))" by (rule ranI)
    with m eligible_joined [OF assms] Some Inr show ?thesis by auto
  qed
qed

theorem route_selects_best_witness:
  "\<exists>d m. route (select_provider default_routing_policy) sample_env {''chat''} = Inr d \<and>
     de_selected d = Some ''a'' \<and> map_of (re_registry sample_env) ''a'' = Some m \<and>
     {''chat''} \<subseteq> pm_capabilities m"
proof -
  from sample_route obtain d where
    d: "route (select_provider default_routing_policy) sample_env {''chat''} = Inr d"
      "de_selected d = Some ''a''" by blast
  with route_selects_best [OF sample_env_ok, of default_routing_policy "{''chat''}"]
  show ?thesis by auto
qed

text \<open>The decision does not depend on the order in which two providers were registered.\<close>

theorem route_registration_order:
  assumes "keyed pm_provider r"
    and "ro_register v r = Inr a" "ro_register w a = Inr b"
    and "ro_register w r = Inr a'" "ro_register v a' = Inr b'"
  shows "route select (env\<lparr>re_registry := b\<rparr>) caps = route select (env\<lparr>re_registry := b'\<rparr>) caps"
proof -
  note a = routing_reg.register_Inr [OF assms(1,2)]
  note b = routing_reg.register_Inr [OF a(2) assms(3)]
  note a' = routing_reg.register_Inr [OF assms(1,4)]
  note b' = routing_reg.register_Inr [OF a'(2) assms(5)]
  have "pm_provider v \<noteq> pm_provider w" using a(3) b(1) by (auto split: if_splits)
  then have map: "map_of b = map_of b'" using a(3) b(3) a'(3) b'(3) by (simp add: fun_upd_twist)
  have "candidate_of (env\<lparr>re_registry := b\<rparr>) = candidate_of (env\<lparr>re_registry := b'\<rparr>)"
    by (simp add: fun_eq_iff candidate_of_def ro_get_def dict_lookup_def map split: option.splits)
  with routing_reg.listing_unique [OF b(2) b'(2) map] show ?thesis
    by (simp add: route_def)
qed

theorem route_registration_order_witness:
  "let v = sample_metadata; w = sample_metadata\<lparr>pm_provider := ''b''\<rparr> in
   route (select_provider default_routing_policy)
     (sample_env\<lparr>re_registry := [(''a'', v), (''b'', w)]\<rparr>) {} =
   route (select_provider default_routing_policy)
     (sample_env\<lparr>re_registry := [(''b'', w), (''a'', v)]\<rparr>) {}"
  using route_registration_order [of "[]" sample_metadata "[(''a'', sample_metadata)]"
      "sample_metadata\<lparr>pm_provider := ''b''\<rparr>"
      "[(''a'', sample_metadata), (''b'', sample_metadata\<lparr>pm_provider := ''b''\<rparr>)]"
      "[(''b'', sample_metadata\<lparr>pm_provider := ''b''\<rparr>)]"
      "[(''b'', sample_metadata\<lparr>pm_provider := ''b''\<rparr>), (''a'', sample_metadata)]"
      "select_provider default_routing_policy" sample_env "{}"]
  by (simp add: ro_register_def dict_register_def Let_def)

text \<open>Routing through the quota filter selects the best provider among the eligible ones
  whose registered quota still admits a request, keeps providers without a quota, and consumes
  nothing: the histories of the quotas are unchanged.\<close>

theorem quota_route_selects_best:
  assumes "routing_env_ok env" and "sliding_rel T L st" "T \<le> t"
    and "route (\<lambda>cs caps. fst (quota_select sliding_ops r (select_provider po) (\<lambda>_. t) cs caps st))
           env caps = Inr d"
  shows "(case de_selected d of
      None \<Rightarrow> \<forall>m \<in> ran (map_of (re_registry env)).
        \<not> (eligible po caps (joined env m) \<and> quota_open t r L (joined env m))
    | Some p \<Rightarrow> \<exists>m. map_of (re_registry env) p = Some m \<and>
        (eligible po caps (joined env m) \<and> quota_open t r L (joined env m)) \<and>
        (\<forall>x \<in> ran (map_of (re_registry env)).
           eligible po caps (joined env x) \<and> quota_open t r L (joined env x) \<longrightarrow>
           candidate_key (joined env m) \<le> candidate_key (joined env x))) \<and>
    sliding_rel t L (snd (quota_select sliding_ops r (select_provider po) (\<lambda>_. t) cs caps st))"
proof
  have sel: "selection (select_provider po) (eligible po) (\<lambda>c x. candidate_key c \<le> candidate_key x)"
    by unfold_locales
  show "case de_selected d of
      None \<Rightarrow> \<forall>m \<in> ran (map_of (re_registry env)).
        \<not> (eligible po caps (joined env m) \<and> quota_open t r L (joined env m))
    | Some p \<Rightarrow> \<exists>m. map_of (re_registry env) p = Some m \<and>
        (eligible po caps (joined env m) \<and> quota_open t r L (joined env m)) \<and>
        (\<forall>x \<in> ran (map_of (re_registry env)).
           eligible po caps (joined env x) \<and> quota_open t r L (joined env x) \<longrightarrow>
           candidate_key (joined env m) \<le> candidate_key (joined env x))"
    by (rule selection.route_best [OF quota_selection [OF sel assms(2,3)] assms(1,4)])
  show "sliding_rel t L (snd (quota_select sliding_ops r (select_provider po) (\<lambda>_. t) cs caps st))"
    using quota_filter_sliding [OF assms(2,3), of r 0 cs] sliding_rel_mono [OF assms(2,3)]
    by (cases "cs = []") (auto simp: quota_select_def split: prod.splits)
qed

theorem quota_route_selects_best_witness:
  "\<exists>d. route (\<lambda>cs caps. fst (quota_select sliding_ops [] (select_provider default_routing_policy)
       (\<lambda>_. 0) cs caps new_sliding)) sample_env {''chat''} = Inr d \<and>
     (case de_selected d of None \<Rightarrow> False
      | Some p \<Rightarrow> \<exists>m. map_of (re_registry sample_env) p = Some m)"
proof -
  from sample_route obtain d where
    d: "route (select_provider default_routing_policy) sample_env {''chat''} = Inr d"
      "de_selected d = Some ''a''" by blast
  have "fst (quota_select sliding_ops [] (select_provider default_routing_policy) (\<lambda>_. 0) cs caps
      new_sliding) = select_provider default_routing_policy cs caps" for cs caps
    using quota_filter_sliding [OF sliding.rel_start [of 0] order_refl, where r = "[]" and i = 0
      and cs = cs]
    by (auto simp: quota_select_def quota_open_def quota_get_def dict_lookup_def split: prod.splits)
  with d have e: "route (\<lambda>cs caps. fst (quota_select sliding_ops []
      (select_provider default_routing_policy) (\<lambda>_. 0) cs caps new_sliding))
      sample_env {''chat''} = Inr d" by simp
  from quota_route_selects_best [OF sample_env_ok sliding.rel_start order_refl e] e d
  show ?thesis by auto
qed

end
