(* ===== verification/Cache.thy ===== *)
theory Cache
  imports TK_Prelude Py_Float
begin

text \<open>
  Local caching (\<open>src/src/tkai/cache/\<close>): entries with expiry, the in-memory backend with its
  counters and events, named backends, cache policies and the read-through manager. Every clock
  reading is an argument, in program order. The interface \<open>CacheBackend\<close> is the locale
  \<open>cache_backend\<close>, which the in-memory backend interprets and the manager's client uses.
  Key hashing (\<open>keys.py\<close>) and memory estimates are not modelled. The in-memory backend holds its lock
  over each operation; the manager holds none between its read, the factory and its write.
\<close>

subsection \<open>Entries\<close>

datatype cache_error =
    Cache_ValueError string
  | Cache_OverflowError
  | CacheError string
  | CacheBackendNotFoundError string

record 'v entry =
  cy_key :: string
  cy_value :: 'v
  cy_provider :: "string option"
  cy_model :: "string option"
  cy_created :: time
  cy_expires :: "time option"
  cy_ttl :: "pyfloat option"
  cy_hits :: int
  cy_last :: "time option"

definition seconds_delta :: "pyfloat \<Rightarrow> cache_error + int" where
  "seconds_delta x =
     (case timedelta_of x of
        Inl Delta_NaN \<Rightarrow> Inl (Cache_ValueError ''cannot convert float NaN to integer'')
      | Inl Delta_Overflow \<Rightarrow> Inl Cache_OverflowError
      | Inr d \<Rightarrow> Inr d)"

definition expiry :: "time \<Rightarrow> time option \<Rightarrow> pyfloat option \<Rightarrow> cache_error + time option" where
  "expiry created expires ttl =
     (case (expires, ttl) of
        (None, Some x) \<Rightarrow>
          (case seconds_delta x of
             Inl e \<Rightarrow> Inl e
           | Inr d \<Rightarrow>
               if max_instant < created + d then Inl Cache_OverflowError else Inr (Some (created + d)))
      | _ \<Rightarrow> Inr expires)"

definition mk_entry ::
  "string \<Rightarrow> 'v \<Rightarrow> string option \<Rightarrow> string option \<Rightarrow> time option \<Rightarrow> time option \<Rightarrow> pyfloat option \<Rightarrow>
     int \<Rightarrow> time option \<Rightarrow> time \<Rightarrow> cache_error + 'v entry" where
  "mk_entry key v provider model created expires ttl hits accessed_at now =
     (if key = '''' then Inl (Cache_ValueError ''cache key must not be empty'')
      else if (case ttl of None \<Rightarrow> False | Some x \<Rightarrow> py_lt x (Fin 0))
      then Inl (Cache_ValueError ''ttl must not be negative'')
      else if hits < 0 then Inl (Cache_ValueError ''hit_count must not be negative'')
      else
        let c = (case created of None \<Rightarrow> now | Some t \<Rightarrow> t)
        in case expiry c expires ttl of
             Inl e \<Rightarrow> Inl e
           | Inr x \<Rightarrow>
               Inr \<lparr>cy_key = key, cy_value = v, cy_provider = provider, cy_model = model,
                    cy_created = c, cy_expires = x, cy_ttl = ttl, cy_hits = hits, cy_last = accessed_at\<rparr>)"

definition expired :: "'v entry \<Rightarrow> time \<Rightarrow> bool" where
  "expired e now \<longleftrightarrow> (case cy_expires e of None \<Rightarrow> False | Some x \<Rightarrow> x \<le> now)"

text \<open>\<open>accessed\<close> constructs a new entry; \<open>accessed_constructs\<close> shows that the constructor accepts
  it.\<close>

definition accessed :: "'v entry \<Rightarrow> time \<Rightarrow> 'v entry" where
  "accessed e now = e\<lparr>cy_hits := cy_hits e + 1, cy_last := Some now\<rparr>"

definition entry_ok :: "'v entry \<Rightarrow> bool" where
  "entry_ok e \<longleftrightarrow>
     mk_entry (cy_key e) (cy_value e) (cy_provider e) (cy_model e) (Some (cy_created e))
       (cy_expires e) (cy_ttl e) (cy_hits e) (cy_last e) (cy_created e) = Inr e"

lemma mk_entry_ok:
  "mk_entry key v p m c x ttl hits la now = Inr e \<Longrightarrow> entry_ok e"
  by (auto simp: entry_ok_def mk_entry_def expiry_def Let_def
      split: if_splits option.splits sum.splits)

lemma accessed_constructs:
  assumes "entry_ok e"
  shows "mk_entry (cy_key e) (cy_value e) (cy_provider e) (cy_model e) (Some (cy_created e))
      (cy_expires e) (cy_ttl e) (cy_hits e + 1) (Some t) now = Inr (accessed e t)"
    and "entry_ok (accessed e t)"
  using assms
  by (cases e; auto simp: entry_ok_def mk_entry_def accessed_def Let_def
      split: if_splits option.splits sum.splits)+

lemma accessed_fields [simp]:
  "cy_key (accessed e t) = cy_key e" "cy_value (accessed e t) = cy_value e"
  "cy_expires (accessed e t) = cy_expires e" "expired (accessed e t) u = expired e u"
  by (simp_all add: accessed_def expired_def)

lemma expired_mono: "expired e t \<Longrightarrow> t \<le> u \<Longrightarrow> expired e u"
  by (auto simp: expired_def split: option.splits)

subsection \<open>The in-memory backend\<close>

record cache_statistics =
  sx_hits :: int
  sx_misses :: int
  sx_expired :: int
  sx_evicted :: int

datatype cache_event =
    CacheHit string string
  | CacheMiss string string
  | CacheExpired string string
  | CacheEvicted string string

record 'v memory =
  me_name :: string
  me_entries :: "(string, 'v entry) dict"
  me_stats :: cache_statistics
  me_events :: "cache_event list"

definition new_memory :: "string \<Rightarrow> 'v memory" where
  "new_memory name = \<lparr>me_name = name, me_entries = [],
     me_stats = \<lparr>sx_hits = 0, sx_misses = 0, sx_expired = 0, sx_evicted = 0\<rparr>, me_events = []\<rparr>"

definition mem_publish :: "cache_event \<Rightarrow> 'v memory \<Rightarrow> 'v memory" where
  "mem_publish e m = m\<lparr>me_events := me_events m @ [e]\<rparr>"

text \<open>\<open>t1\<close> is the reading for the expiry check, \<open>t2\<close> the one for the access time.\<close>

definition mem_get :: "string \<Rightarrow> time \<Rightarrow> time \<Rightarrow> 'v memory \<Rightarrow> 'v entry option \<times> 'v memory" where
  "mem_get k t1 t2 m =
     (let s = me_stats m in
      case map_of (me_entries m) k of
        None \<Rightarrow>
          (None, mem_publish (CacheMiss k (me_name m)) (m\<lparr>me_stats := s\<lparr>sx_misses := sx_misses s + 1\<rparr>\<rparr>))
      | Some e \<Rightarrow>
          if expired e t1
          then (None, mem_publish (CacheExpired k (me_name m))
                 (m\<lparr>me_entries := AList.delete k (me_entries m),
                    me_stats := s\<lparr>sx_misses := sx_misses s + 1, sx_expired := sx_expired s + 1\<rparr>\<rparr>))
          else (Some (accessed e t2), mem_publish (CacheHit k (me_name m))
                 (m\<lparr>me_entries := AList.update k (accessed e t2) (me_entries m),
                    me_stats := s\<lparr>sx_hits := sx_hits s + 1\<rparr>\<rparr>)))"

definition mem_set :: "'v entry \<Rightarrow> 'v memory \<Rightarrow> 'v memory" where
  "mem_set e m = m\<lparr>me_entries := AList.update (cy_key e) e (me_entries m)\<rparr>"

definition mem_delete :: "string \<Rightarrow> 'v memory \<Rightarrow> bool \<times> 'v memory" where
  "mem_delete k m =
     (if map_of (me_entries m) k = None then (False, m)
      else (True, mem_publish (CacheEvicted k (me_name m))
             (m\<lparr>me_entries := AList.delete k (me_entries m),
                me_stats := (me_stats m)\<lparr>sx_evicted := sx_evicted (me_stats m) + 1\<rparr>\<rparr>)))"

definition mem_contains :: "string \<Rightarrow> time \<Rightarrow> time \<Rightarrow> 'v memory \<Rightarrow> bool \<times> 'v memory" where
  "mem_contains k t1 t2 m = (case mem_get k t1 t2 m of (r, m') \<Rightarrow> (r \<noteq> None, m'))"

definition mem_clear :: "'v memory \<Rightarrow> 'v memory" where
  "mem_clear m =
     (let keys = map fst (me_entries m);
          m1 = fold (\<lambda>k. mem_publish (CacheEvicted k (me_name m))) keys (m\<lparr>me_entries := []\<rparr>)
      in m1\<lparr>me_stats := (me_stats m)\<lparr>sx_evicted := sx_evicted (me_stats m) + int (length keys)\<rparr>\<rparr>)"

text \<open>\<open>now k\<close> is the reading at which the entry of \<open>k\<close> is examined.\<close>

definition mem_size :: "(string \<Rightarrow> time) \<Rightarrow> 'v memory \<Rightarrow> int \<times> 'v memory" where
  "mem_size now m =
     (let live = filter (\<lambda>(k, e). \<not> expired e (now k)) (me_entries m)
      in (int (length live), m\<lparr>me_entries := live\<rparr>))"

subsection \<open>Policies and the manager\<close>

record cache_policy =
  cp_ttl :: "pyfloat option"
  cp_read :: bool
  cp_write :: bool

definition mk_cache_policy :: "pyfloat option \<Rightarrow> bool \<Rightarrow> bool \<Rightarrow> cache_error + cache_policy" where
  "mk_cache_policy ttl read write =
     (if (case ttl of None \<Rightarrow> False | Some x \<Rightarrow> py_lt x (Fin 0))
      then Inl (Cache_ValueError ''cache policy ttl must not be negative'')
      else Inr \<lparr>cp_ttl = ttl, cp_read = read, cp_write = write\<rparr>)"

definition no_cache :: cache_policy where
  "no_cache = \<lparr>cp_ttl = None, cp_read = False, cp_write = False\<rparr>"

definition read_through :: cache_policy where
  "read_through = \<lparr>cp_ttl = None, cp_read = True, cp_write = True\<rparr>"

text \<open>Named backends.\<close>

type_synonym 'v cache_registry = "(string, 'v memory) dict"

definition cr_register ::
  "string \<Rightarrow> 'v memory \<Rightarrow> 'v cache_registry \<Rightarrow> cache_error + 'v cache_registry" where
  "cr_register name b r =
     (if name = '''' then Inl (Cache_ValueError ''backend name must not be empty'')
      else if map_of r name \<noteq> None then Inl (CacheError name)
      else Inr (AList.update name b r))"

definition cr_get :: "string \<Rightarrow> 'v cache_registry \<Rightarrow> cache_error + 'v memory" where
  "cr_get name r = dict_lookup (CacheBackendNotFoundError name) name r"

definition cr_list :: "'v cache_registry \<Rightarrow> (string \<times> 'v memory) list" where
  "cr_list r = map (\<lambda>n. (n, the (map_of r n))) (sorted_keys r)"

definition cr_clear :: "'v cache_registry \<Rightarrow> 'v cache_registry" where
  "cr_clear r = map (\<lambda>(n, b). (n, mem_clear b)) r"

definition cm_new :: "'v cache_registry \<Rightarrow> 'v cache_registry" where
  "cm_new r = (if r = [] then [(''memory'', new_memory ''memory'')] else r)"

definition cm_get ::
  "string \<Rightarrow> string \<Rightarrow> time \<Rightarrow> time \<Rightarrow> 'v cache_registry \<Rightarrow>
     (cache_error + 'v entry option) \<times> 'v cache_registry" where
  "cm_get backend k t1 t2 r =
     (case cr_get backend r of
        Inl e \<Rightarrow> (Inl e, r)
      | Inr b \<Rightarrow> (case mem_get k t1 t2 b of (x, b') \<Rightarrow> (Inr x, AList.update backend b' r)))"

definition cm_set ::
  "string \<Rightarrow> 'v entry \<Rightarrow> 'v cache_registry \<Rightarrow> (cache_error + unit) \<times> 'v cache_registry" where
  "cm_set backend e r =
     (case cr_get backend r of
        Inl x \<Rightarrow> (Inl x, r)
      | Inr b \<Rightarrow> (Inr (), AList.update backend (mem_set e b) r))"

datatype 'e failure = Cache_Failure cache_error | Factory_Raised 'e

text \<open>\<open>get_or_set\<close> reads and writes through the operations \<open>get\<close> and \<open>put\<close> of the selected backend.
  The factory is a function on the caller's state; \<open>now\<close> is the system clock when the entry is
  constructed.\<close>

definition get_or_set ::
  "(string \<Rightarrow> time \<Rightarrow> time \<Rightarrow> 's \<Rightarrow> (cache_error + 'v entry option) \<times> 's) \<Rightarrow>
     ('v entry \<Rightarrow> 's \<Rightarrow> (cache_error + unit) \<times> 's) \<Rightarrow>
     string \<Rightarrow> ('w \<Rightarrow> ('e + 'v) \<times> 'w) \<Rightarrow> string option \<Rightarrow> string option \<Rightarrow> cache_policy \<Rightarrow>
     time \<Rightarrow> time \<Rightarrow> time \<Rightarrow> 'w \<Rightarrow> 's \<Rightarrow> ('e failure + 'v) \<times> 'w \<times> 's" where
  "get_or_set get put k factory provider model policy t1 t2 now w s =
     (case (if cp_read policy then get k t1 t2 s else (Inr None, s)) of
        (Inl x, s1) \<Rightarrow> (Inl (Cache_Failure x), w, s1)
      | (Inr (Some e), s1) \<Rightarrow> (Inr (cy_value e), w, s1)
      | (Inr None, s1) \<Rightarrow>
          (case factory w of
             (Inl x, w') \<Rightarrow> (Inl (Factory_Raised x), w', s1)
           | (Inr v, w') \<Rightarrow>
               if cp_write policy
               then (case mk_entry k v provider model None None (cp_ttl policy) 0 None now of
                       Inl x \<Rightarrow> (Inl (Cache_Failure x), w', s1)
                     | Inr e \<Rightarrow>
                         (case put e s1 of
                            (Inl x, s2) \<Rightarrow> (Inl (Cache_Failure x), w', s2)
                          | (Inr _, s2) \<Rightarrow> (Inr v, w', s2)))
               else (Inr v, w', s1)))"

definition cm_get_or_set ::
  "string \<Rightarrow> string \<Rightarrow> ('w \<Rightarrow> ('e + 'v) \<times> 'w) \<Rightarrow> string option \<Rightarrow> string option \<Rightarrow>
     cache_policy option \<Rightarrow> time \<Rightarrow> time \<Rightarrow> time \<Rightarrow> 'w \<Rightarrow> 'v cache_registry \<Rightarrow>
     ('e failure + 'v) \<times> 'w \<times> 'v cache_registry" where
  "cm_get_or_set backend k factory provider model policy =
     get_or_set (cm_get backend) (cm_set backend) k factory provider model
       (case policy of None \<Rightarrow> read_through | Some p \<Rightarrow> p)"


subsection \<open>The contract of a backend\<close>

text \<open>
  \<open>view s k\<close> is the entry stored under \<open>k\<close>. A read of a live entry returns it with its access
  recorded, a read of an expired one removes it, and a write is seen by every later view.
\<close>

locale cache_backend =
  fixes ok :: "'s \<Rightarrow> bool"
    and view :: "'s \<Rightarrow> string \<Rightarrow> 'v entry option"
    and get :: "string \<Rightarrow> time \<Rightarrow> time \<Rightarrow> 's \<Rightarrow> (cache_error + 'v entry option) \<times> 's"
    and put :: "'v entry \<Rightarrow> 's \<Rightarrow> (cache_error + unit) \<times> 's"
  assumes get_hit:
      "\<lbrakk>ok s; view s k = Some e; \<not> expired e t1\<rbrakk>
         \<Longrightarrow> \<exists>s'. get k t1 t2 s = (Inr (Some (accessed e t2)), s') \<and> ok s' \<and>
               view s' = (view s)(k \<mapsto> accessed e t2)"
    and get_miss:
      "\<lbrakk>ok s; \<forall>e. view s k = Some e \<longrightarrow> expired e t1\<rbrakk>
         \<Longrightarrow> \<exists>s'. get k t1 t2 s = (Inr None, s') \<and> ok s' \<and> view s' = (view s)(k := None)"
    and put_stores:
      "\<lbrakk>ok s; entry_ok e\<rbrakk> \<Longrightarrow> \<exists>s'. put e s = (Inr (), s') \<and> ok s' \<and> view s' = (view s)(cy_key e \<mapsto> e)"
begin

lemma on_hit:
  assumes "ok s" "view s k = Some e" "\<not> expired e t1" "cp_read policy"
  shows "\<exists>s'. get_or_set get put k factory provider model policy t1 t2 now w s
           = (Inr (cy_value e), w, s') \<and> ok s' \<and> view s' = (view s)(k \<mapsto> accessed e t2)"
  using get_hit [OF assms(1-3), of t2] assms(4) by (auto simp: get_or_set_def)

lemma on_miss:
  assumes "ok s" "\<forall>e. view s k = Some e \<longrightarrow> expired e t1" "cp_read policy" "cp_write policy"
    and "factory w = (Inr v, w')"
    and "mk_entry k v provider model None None (cp_ttl policy) 0 None now = Inr e"
  shows "\<exists>s'. get_or_set get put k factory provider model policy t1 t2 now w s
           = (Inr v, w', s') \<and> ok s' \<and> view s' = (view s)(k \<mapsto> e)"
proof -
  obtain s1 where s1: "get k t1 t2 s = (Inr None, s1)" "ok s1" "view s1 = (view s)(k := None)"
    using get_miss [OF assms(1,2), of t2] by blast
  obtain s2 where s2: "put e s1 = (Inr (), s2)" "ok s2" "view s2 = (view s1)(cy_key e \<mapsto> e)"
    using put_stores [OF s1(2) mk_entry_ok [OF assms(6)]] by blast
  have "cy_key e = k"
    using assms(6) by (auto simp: mk_entry_def Let_def split: if_splits sum.splits)
  with s1 s2 show ?thesis
    using assms(3-6) by (auto simp: get_or_set_def)
qed

lemma factory_failure_writes_nothing:
  assumes "ok s" "\<forall>e. view s k = Some e \<longrightarrow> expired e t1" "cp_read policy"
    and "factory w = (Inl x, w')"
  shows "\<exists>s'. get_or_set get put k factory provider model policy t1 t2 now w s
           = (Inl (Factory_Raised x), w', s') \<and> ok s' \<and> view s' = (view s)(k := None)"
  using get_miss [OF assms(1,2), of t2] assms(3,4) by (auto simp: get_or_set_def)

end

definition mem_view :: "'v memory \<Rightarrow> string \<Rightarrow> 'v entry option" where
  "mem_view m = map_of (me_entries m)"

definition mem_ok :: "'v memory \<Rightarrow> bool" where
  "mem_ok m \<longleftrightarrow> dict_ok (me_entries m)
     \<and> list_all (\<lambda>(k, e). cy_key e = k \<and> entry_ok e) (me_entries m)"

lemma mem_publish_simps [simp]:
  "me_entries (mem_publish x m) = me_entries m" "me_stats (mem_publish x m) = me_stats m"
  "me_name (mem_publish x m) = me_name m" "me_events (mem_publish x m) = me_events m @ [x]"
  by (simp_all add: mem_publish_def)

lemma mem_get_cases:
  "mem_view m k = None \<Longrightarrow> mem_get k t1 t2 m = (None, mem_publish (CacheMiss k (me_name m))
     (m\<lparr>me_stats := (me_stats m)\<lparr>sx_misses := sx_misses (me_stats m) + 1\<rparr>\<rparr>))"
  "\<lbrakk>mem_view m k = Some e; expired e t1\<rbrakk> \<Longrightarrow> mem_get k t1 t2 m =
     (None, mem_publish (CacheExpired k (me_name m))
       (m\<lparr>me_entries := AList.delete k (me_entries m),
          me_stats := (me_stats m)\<lparr>sx_misses := sx_misses (me_stats m) + 1,
                                    sx_expired := sx_expired (me_stats m) + 1\<rparr>\<rparr>))"
  "\<lbrakk>mem_view m k = Some e; \<not> expired e t1\<rbrakk> \<Longrightarrow> mem_get k t1 t2 m =
     (Some (accessed e t2), mem_publish (CacheHit k (me_name m))
       (m\<lparr>me_entries := AList.update k (accessed e t2) (me_entries m),
          me_stats := (me_stats m)\<lparr>sx_hits := sx_hits (me_stats m) + 1\<rparr>\<rparr>))"
  by (simp_all add: mem_get_def mem_view_def Let_def)

lemma mem_get_view:
  "mem_view (snd (mem_get k t1 t2 m)) =
     (mem_view m)(k := (case mem_view m k of None \<Rightarrow> None
                        | Some e \<Rightarrow> if expired e t1 then None else Some (accessed e t2)))"
  by (auto simp: mem_get_def mem_view_def Let_def split: option.splits)

lemma list_all_delete: "list_all P d \<Longrightarrow> list_all P (AList.delete k d)"
  by (auto simp: list_all_iff AList.delete_eq)

lemma list_all_update: "list_all P d \<Longrightarrow> P (k, v) \<Longrightarrow> list_all P (AList.update k v d)"
  by (induction d) auto

lemma mem_ok_entry: "mem_ok m \<Longrightarrow> mem_view m k = Some e \<Longrightarrow> cy_key e = k \<and> entry_ok e"
  by (auto simp: mem_ok_def mem_view_def list_all_iff dest: map_of_SomeD)

lemma mem_new_ok [simp, inv_intros]: "mem_ok (new_memory name)" "mem_view (new_memory name) = Map.empty"
  by (simp_all add: mem_ok_def new_memory_def mem_view_def)

lemma mem_get_ok [inv_intros]:
  assumes "mem_ok m" shows "mem_ok (snd (mem_get k t1 t2 m))"
proof (cases "mem_view m k")
  case None
  then show ?thesis using assms by (simp add: mem_get_cases mem_ok_def)
next
  case (Some e)
  then show ?thesis
    using assms mem_ok_entry [OF assms Some]
    by (cases "expired e t1")
      (auto simp: mem_get_cases mem_ok_def accessed_constructs(2)
        intro!: list_all_update list_all_delete)
qed

lemma mem_set_ok [inv_intros]: "mem_ok m \<Longrightarrow> entry_ok e \<Longrightarrow> mem_ok (mem_set e m)"
  by (auto simp: mem_ok_def mem_set_def intro!: list_all_update)

lemma mem_set_view [simp]: "mem_view (mem_set e m) = (mem_view m)(cy_key e \<mapsto> e)"
  by (simp add: mem_view_def mem_set_def)

lemma mem_delete_ok [inv_intros]: "mem_ok m \<Longrightarrow> mem_ok (snd (mem_delete k m))"
  by (auto simp: mem_ok_def mem_delete_def intro!: list_all_delete)

lemma mem_delete_view [simp]: "mem_view (snd (mem_delete k m)) = (mem_view m)(k := None)"
  by (auto simp: mem_view_def mem_delete_def)

lemma fold_publish [simp]:
  "me_entries (fold (\<lambda>k. mem_publish (f k)) ks m) = me_entries m"
  "me_stats (fold (\<lambda>k. mem_publish (f k)) ks m) = me_stats m"
  "me_name (fold (\<lambda>k. mem_publish (f k)) ks m) = me_name m"
  "me_events (fold (\<lambda>k. mem_publish (f k)) ks m) = me_events m @ map f ks"
  by (induction ks arbitrary: m) simp_all

lemma mem_clear_simps [simp]:
  "me_entries (mem_clear m) = []" "me_name (mem_clear m) = me_name m"
  "me_events (mem_clear m) = me_events m @ map (\<lambda>k. CacheEvicted k (me_name m)) (map fst (me_entries m))"
  "me_stats (mem_clear m) =
     (me_stats m)\<lparr>sx_evicted := sx_evicted (me_stats m) + int (length (me_entries m))\<rparr>"
  "mem_ok (mem_clear m)" "mem_view (mem_clear m) = Map.empty"
  by (simp_all add: mem_clear_def Let_def mem_ok_def mem_view_def)

lemma mem_size_ok [inv_intros]: "mem_ok m \<Longrightarrow> mem_ok (snd (mem_size now m))"
  by (auto simp: mem_ok_def mem_size_def Let_def list_all_iff intro: distinct_map_filter)

lemma map_of_filter_pairs:
  "dict_ok d \<Longrightarrow> map_of (filter (\<lambda>(k, e). P k e) d) k =
     (case map_of d k of None \<Rightarrow> None | Some e \<Rightarrow> if P k e then Some e else None)"
  by (induction d) (auto split: option.splits simp: map_of_eq_None_iff)

lemma mem_size_view:
  "mem_ok m \<Longrightarrow> mem_view (snd (mem_size now m)) k =
     (case mem_view m k of None \<Rightarrow> None | Some e \<Rightarrow> if expired e (now k) then None else Some e)"
  by (auto simp: mem_ok_def mem_size_def Let_def mem_view_def map_of_filter_pairs split: option.splits)

text \<open>The in-memory backend keeps the contract, and so does a registered one through the manager.\<close>

definition backend_get ::
  "string \<Rightarrow> time \<Rightarrow> time \<Rightarrow> 'v memory \<Rightarrow> (cache_error + 'v entry option) \<times> 'v memory" where
  "backend_get k t1 t2 m = (case mem_get k t1 t2 m of (r, m') \<Rightarrow> (Inr r, m'))"

definition backend_set :: "'v entry \<Rightarrow> 'v memory \<Rightarrow> (cache_error + unit) \<times> 'v memory" where
  "backend_set e m = (Inr (), mem_set e m)"

interpretation memory: cache_backend mem_ok mem_view backend_get backend_set
proof unfold_locales
  fix m :: "'b memory" and e :: "'b entry" and k t1 t2
  assume m: "mem_ok m"
  { assume e: "mem_view m k = Some e" "\<not> expired e t1"
    show "\<exists>s'. backend_get k t1 t2 m = (Inr (Some (accessed e t2)), s') \<and> mem_ok s' \<and>
               mem_view s' = (mem_view m)(k \<mapsto> accessed e t2)"
      using mem_get_ok [OF m, of k t1 t2] mem_get_view [of k t1 t2 m] mem_get_cases(3) [OF e, of t2] e
      by (auto simp: backend_get_def) }
  { assume e: "\<forall>e. mem_view m k = Some e \<longrightarrow> expired e t1"
    then have "fst (mem_get k t1 t2 m) = None"
      by (cases "mem_view m k") (auto simp: mem_get_cases)
    then show "\<exists>s'. backend_get k t1 t2 m = (Inr None, s') \<and> mem_ok s' \<and>
               mem_view s' = (mem_view m)(k := None)"
      using mem_get_ok [OF m, of k t1 t2] mem_get_view [of k t1 t2 m] e
      by (cases "mem_get k t1 t2 m") (auto simp: backend_get_def split: option.splits) }
  assume "entry_ok e"
  then show "\<exists>s'. backend_set e m = (Inr (), s') \<and> mem_ok s' \<and>
               mem_view s' = (mem_view m)(cy_key e \<mapsto> e)"
    using mem_set_ok [OF m] by (auto simp: backend_set_def)
qed

definition reg_view :: "string \<Rightarrow> 'v cache_registry \<Rightarrow> string \<Rightarrow> 'v entry option" where
  "reg_view b r = (case map_of r b of None \<Rightarrow> Map.empty | Some m \<Rightarrow> mem_view m)"

definition reg_ok :: "string \<Rightarrow> 'v cache_registry \<Rightarrow> bool" where
  "reg_ok b r \<longleftrightarrow> (case map_of r b of None \<Rightarrow> False | Some m \<Rightarrow> mem_ok m)"

lemma cm_get_registered:
  "map_of r b = Some m \<Longrightarrow> cm_get b k t1 t2 r =
     (case backend_get k t1 t2 m of (x, m') \<Rightarrow> (x, AList.update b m' r))"
  by (auto simp: cm_get_def cr_get_def dict_lookup_def backend_get_def split: prod.splits)

lemma cm_set_registered:
  "map_of r b = Some m \<Longrightarrow> cm_set b e r =
     (case backend_set e m of (x, m') \<Rightarrow> (x, AList.update b m' r))"
  by (auto simp: cm_set_def cr_get_def dict_lookup_def backend_set_def split: prod.splits)

interpretation managed: cache_backend "reg_ok b" "reg_view b" "cm_get b" "cm_set b"
  for b :: string
proof unfold_locales
  fix r :: "'b cache_registry" and e :: "'b entry" and k t1 t2
  assume "reg_ok b r"
  then obtain m where m: "map_of r b = Some m" "mem_ok m"
    by (auto simp: reg_ok_def split: option.splits)
  then have v [simp]: "reg_view b r = mem_view m"
    by (simp add: reg_view_def)
  have up: "reg_ok b (AList.update b m' r) = mem_ok m'" "reg_view b (AList.update b m' r) = mem_view m'"
    for m'
    by (simp_all add: reg_ok_def reg_view_def)
  { assume "reg_view b r k = Some e" "\<not> expired e t1"
    then show "\<exists>s'. cm_get b k t1 t2 r = (Inr (Some (accessed e t2)), s') \<and> reg_ok b s' \<and>
               reg_view b s' = (reg_view b r)(k \<mapsto> accessed e t2)"
      using memory.get_hit [OF m(2), of k e t1 t2] by (auto simp: cm_get_registered [OF m(1)] up) }
  { assume "\<forall>e. reg_view b r k = Some e \<longrightarrow> expired e t1"
    then show "\<exists>s'. cm_get b k t1 t2 r = (Inr None, s') \<and> reg_ok b s' \<and>
               reg_view b s' = (reg_view b r)(k := None)"
      using memory.get_miss [OF m(2), of k t1 t2] by (auto simp: cm_get_registered [OF m(1)] up) }
  assume "entry_ok e"
  then show "\<exists>s'. cm_set b e r = (Inr (), s') \<and> reg_ok b s' \<and>
               reg_view b s' = (reg_view b r)(cy_key e \<mapsto> e)"
    using memory.put_stores [OF m(2), of e] by (auto simp: cm_set_registered [OF m(1)] up)
qed

subsection \<open>Registered backends\<close>

lemma cr_list_props:
  assumes "dict_ok r"
  shows "map fst (cr_list r) = sorted_keys r" and "set (cr_list r) = set r"
proof -
  show "map fst (cr_list r) = sorted_keys r"
    by (simp add: cr_list_def o_def)
  have "x \<in> set (cr_list r) \<longleftrightarrow> x \<in> set r" for x
    using assms sorted_keys_props(3) [OF assms] by (cases x) (auto simp: cr_list_def dom_def)
  then show "set (cr_list r) = set r" by blast
qed

lemma cm_new_has_backend: "cm_new r \<noteq> []"
  by (simp add: cm_new_def)

lemma cr_clear_view: "reg_view b (cr_clear r) = Map.empty"
proof -
  have "map_of (cr_clear r) b = map_option mem_clear (map_of r b)"
    unfolding cr_clear_def by (induction r) auto
  then show ?thesis by (auto simp: reg_view_def split: option.splits)
qed

subsection \<open>Reading through the cache\<close>

text \<open>Once the factory has produced a value through the manager, a second call for the same key
  returns that value without calling the factory again, whatever factory it is given, as long as
  the entry has not expired; and other keys keep their entries.\<close>

theorem read_through_memoizes:
  assumes "reg_ok b r" "\<forall>e. reg_view b r k = Some e \<longrightarrow> expired e t1"
    and "case policy of None \<Rightarrow> True | Some p \<Rightarrow> cp_read p \<and> cp_write p"
    and "factory w = (Inr v, w1)"
    and "mk_entry k v provider model None None (case policy of None \<Rightarrow> None | Some p \<Rightarrow> cp_ttl p) 0 None
           now = Inr e"
    and "\<not> expired e t3"
  shows "\<exists>r1 r2. cm_get_or_set b k factory provider model policy t1 t2 now w r = (Inr v, w1, r1)
    \<and> cm_get_or_set b k factory' provider' model' policy t3 t4 now' w' r1 = (Inr v, w', r2)
    \<and> (\<forall>k'. k' \<noteq> k \<longrightarrow> reg_view b r2 k' = reg_view b r k')"
proof -
  let ?p = "case policy of None \<Rightarrow> read_through | Some p \<Rightarrow> p"
  have p: "cp_read ?p" "cp_write ?p" "cp_ttl ?p = (case policy of None \<Rightarrow> None | Some p \<Rightarrow> cp_ttl p)"
    using assms(3) by (auto simp: read_through_def split: option.splits)
  obtain r1 where r1: "cm_get_or_set b k factory provider model policy t1 t2 now w r = (Inr v, w1, r1)"
      "reg_ok b r1" "reg_view b r1 = (reg_view b r)(k \<mapsto> e)"
    using managed.on_miss [where factory = factory and w = w and w' = w1 and v = v,
        OF assms(1,2) p(1,2) assms(4) assms(5) [folded p(3)]]
    unfolding cm_get_or_set_def by blast
  have v: "cy_value e = v"
    using assms(5) by (auto simp: mk_entry_def Let_def split: if_splits sum.splits)
  have "reg_view b r1 k = Some e" using r1(3) by simp
  from managed.on_hit [OF r1(2) this assms(6) p(1), of factory' provider' model' t4 now' w']
  obtain r2 where "cm_get_or_set b k factory' provider' model' policy t3 t4 now' w' r1 = (Inr v, w', r2)"
      "reg_view b r2 = (reg_view b r1)(k \<mapsto> accessed e t4)"
    unfolding cm_get_or_set_def v by blast
  with r1 show ?thesis by fastforce
qed

definition sample_backends :: "int cache_registry" where
  "sample_backends = cm_new []"

definition counting_factory :: "int \<Rightarrow> (unit + int) \<times> int" where
  "counting_factory n = (Inr (n * 10), n + 1)"

lemma read_through_memoizes_witness:
  "\<exists>r1 r2. cm_get_or_set ''memory'' ''k'' counting_factory None None
       (Some \<lparr>cp_ttl = Some (Fin 2), cp_read = True, cp_write = True\<rparr>) 0 0 0 7 sample_backends
       = (Inr 70, 8, r1)
    \<and> cm_get_or_set ''memory'' ''k'' counting_factory None None
       (Some \<lparr>cp_ttl = Some (Fin 2), cp_read = True, cp_write = True\<rparr>) 1999999 1999999 1999999 8 r1
       = (Inr 70, 8, r2)
    \<and> (\<forall>k'. k' \<noteq> ''k'' \<longrightarrow> reg_view ''memory'' r2 k' = reg_view ''memory'' sample_backends k')"
proof (rule read_through_memoizes)
  show "reg_ok ''memory'' sample_backends"
    by (simp add: reg_ok_def sample_backends_def cm_new_def)
  show "\<forall>e. reg_view ''memory'' sample_backends ''k'' = Some e \<longrightarrow> expired e 0"
    by (simp add: reg_view_def sample_backends_def cm_new_def)
  show "counting_factory 7 = (Inr 70, 8)"
    by (simp add: counting_factory_def)
  show "mk_entry ''k'' (70::int) None None None None
      (case Some \<lparr>cp_ttl = Some (Fin 2), cp_read = True, cp_write = True\<rparr> of
         None \<Rightarrow> None | Some p \<Rightarrow> cp_ttl p) 0 None 0 =
    Inr \<lparr>cy_key = ''k'', cy_value = 70, cy_provider = None, cy_model = None, cy_created = 0,
         cy_expires = Some 2000000, cy_ttl = Some (Fin 2), cy_hits = 0, cy_last = None\<rparr>"
    by code_simp
qed (simp_all add: expired_def)


subsection \<open>Histories of a backend\<close>

datatype 'v mem_op =
    M_Get string time time
  | M_Set "'v entry"
  | M_Delete string
  | M_Contains string time time
  | M_Clear
  | M_Size "string \<Rightarrow> time" time

fun mem_step :: "'v mem_op \<Rightarrow> 'v memory \<Rightarrow> 'v memory" where
  "mem_step (M_Get k t1 t2) m = snd (mem_get k t1 t2 m)"
| "mem_step (M_Set e) m = mem_set e m"
| "mem_step (M_Delete k) m = snd (mem_delete k m)"
| "mem_step (M_Contains k t1 t2) m = snd (mem_contains k t1 t2 m)"
| "mem_step M_Clear m = mem_clear m"
| "mem_step (M_Size now u) m = snd (mem_size now m)"

text \<open>\<open>clocked t ops\<close>: the readings of the operations never go back, starting at \<open>t\<close>; \<open>M_Size now u\<close>
  takes its readings no later than \<open>u\<close>. Entries come from the constructor.\<close>

fun clocked :: "time \<Rightarrow> 'v mem_op list \<Rightarrow> bool" where
  "clocked t [] = True"
| "clocked t (M_Get k t1 t2 # ops) = (t \<le> t1 \<and> t1 \<le> t2 \<and> clocked t2 ops)"
| "clocked t (M_Contains k t1 t2 # ops) = (t \<le> t1 \<and> t1 \<le> t2 \<and> clocked t2 ops)"
| "clocked t (M_Size now u # ops) = ((\<forall>k. t \<le> now k \<and> now k \<le> u) \<and> clocked u ops)"
| "clocked t (M_Set e # ops) = (entry_ok e \<and> clocked t ops)"
| "clocked t (op # ops) = clocked t ops"

fun reading_after :: "time \<Rightarrow> 'v mem_op \<Rightarrow> time" where
  "reading_after t (M_Get k t1 t2) = t2"
| "reading_after t (M_Contains k t1 t2) = t2"
| "reading_after t (M_Size now u) = u"
| "reading_after t op = t"

text \<open>What a backend promises: a table of the last writes, which reads and clock do not change, and
  whose entries are visible until they expire.\<close>

type_synonym 'v writes = "string \<Rightarrow> ('v \<times> time option) option"

fun write_step :: "'v mem_op \<Rightarrow> 'v writes \<Rightarrow> 'v writes" where
  "write_step (M_Set e) s = s(cy_key e \<mapsto> (cy_value e, cy_expires e))"
| "write_step (M_Delete k) s = s(k := None)"
| "write_step M_Clear s = Map.empty"
| "write_step _ s = s"

definition visible :: "'v writes \<Rightarrow> string \<Rightarrow> time \<Rightarrow> 'v option" where
  "visible s k t =
     (case s k of None \<Rightarrow> None
      | Some (v, x) \<Rightarrow> if (case x of None \<Rightarrow> False | Some u \<Rightarrow> u \<le> t) then None else Some v)"

definition live :: "'v memory \<Rightarrow> string \<Rightarrow> time \<Rightarrow> 'v option" where
  "live m k t = (case mem_view m k of None \<Rightarrow> None
                 | Some e \<Rightarrow> if expired e t then None else Some (cy_value e))"

definition agrees :: "time \<Rightarrow> 'v memory \<Rightarrow> 'v writes \<Rightarrow> bool" where
  "agrees t m s \<longleftrightarrow> (\<forall>k u. t \<le> u \<longrightarrow> live m k u = visible s k u)"

lemma visible_simps [simp]:
  "visible (s(k := None)) k' t = (if k' = k then None else visible s k' t)"
  "visible (s(cy_key e \<mapsto> (cy_value e, cy_expires e))) k' t =
     (if k' = cy_key e then if expired e t then None else Some (cy_value e) else visible s k' t)"
  "visible Map.empty k t = None"
  by (simp_all add: visible_def expired_def split: option.splits)

lemma live_get:
  "t1 \<le> u \<Longrightarrow> live (snd (mem_get k t1 t2 m)) k' u = live m k' u"
  by (auto simp: live_def mem_get_view dest: expired_mono split: option.splits)

lemma live_size:
  "mem_ok m \<Longrightarrow> now k' \<le> u \<Longrightarrow> live (snd (mem_size now m)) k' u = live m k' u"
  by (auto simp: live_def mem_size_view dest: expired_mono split: option.splits)

lemma mem_get_live: "map_option cy_value (fst (mem_get k t1 t2 m)) = live m k t1"
  by (auto simp: live_def mem_get_def mem_view_def Let_def split: option.splits)

lemma clocked_Cons:
  "clocked t (op # ops) \<Longrightarrow> clocked t [op] \<and> clocked (reading_after t op) ops"
  by (cases op) auto

lemma mem_step_agrees:
  assumes "agrees t m s" "mem_ok m" "clocked t [op]"
  shows "agrees (reading_after t op) (mem_step op m) (write_step op s) \<and> mem_ok (mem_step op m)"
proof (cases op)
  case (M_Get k t1 t2)
  then show ?thesis
    using assms live_get [of t1 _ k t2 m] mem_get_ok by (auto simp: agrees_def)
next
  case (M_Set e)
  then show ?thesis
    using assms mem_set_ok by (auto simp: agrees_def live_def)
next
  case (M_Delete k)
  then show ?thesis
    using assms mem_delete_ok by (auto simp: agrees_def live_def)
next
  case (M_Contains k t1 t2)
  then have "mem_step op m = snd (mem_get k t1 t2 m)"
    by (simp add: mem_contains_def split: prod.splits)
  then show ?thesis
    using assms live_get [of t1 _ k t2 m] mem_get_ok M_Contains by (auto simp: agrees_def)
next
  case M_Clear
  then show ?thesis
    by (auto simp: agrees_def live_def)
next
  case (M_Size now u)
  have "live (snd (mem_size now m)) k u' = live m k u'" if "u \<le> u'" for k u'
    using live_size [OF assms(2), of now k u'] assms(3) M_Size that by (auto intro: order_trans)
  moreover have "t \<le> u"
    using assms(3) M_Size order_trans [of t "now ''''" u] by auto
  ultimately show ?thesis
    using assms M_Size mem_size_ok [OF assms(2)] by (auto simp: agrees_def)
qed

lemma history_agrees:
  assumes "agrees t m s" "mem_ok m" "clocked t ops"
  shows "agrees (foldl reading_after t ops) (fold mem_step ops m) (fold write_step ops s)
    \<and> mem_ok (fold mem_step ops m)"
  using assms
proof (induction ops arbitrary: t m s)
  case (Cons op ops)
  from clocked_Cons [OF Cons.prems(3)] mem_step_agrees [OF Cons.prems(1,2), of op]
  show ?case
    using Cons.IH [of "reading_after t op" "mem_step op m" "write_step op s"] by simp
qed simp

text \<open>C10: the in-memory backend implements a table of writes with expiry. After any operations in
  clock order, a read at a later instant returns exactly the value last written under the key, if it
  was not deleted or cleared since and has not expired by then; an expired value is never returned,
  and neither reads, containment tests nor size sweeps lose a live one.\<close>

theorem backend_implements_writes:
  assumes "clocked t ops" "foldl reading_after t ops \<le> t1"
  shows "map_option cy_value (fst (mem_get k t1 t2 (fold mem_step ops (new_memory name))))
           = visible (fold write_step ops Map.empty) k t1
    \<and> (fst (mem_contains k t1 t2 (fold mem_step ops (new_memory name)))
           \<longleftrightarrow> visible (fold write_step ops Map.empty) k t1 \<noteq> None)"
proof -
  have "agrees t (new_memory name) Map.empty"
    by (simp add: agrees_def live_def)
  from history_agrees [OF this mem_new_ok(1) assms(1)] assms(2)
  have *: "map_option cy_value (fst (mem_get k t1 t2 (fold mem_step ops (new_memory name))))
           = visible (fold write_step ops Map.empty) k t1"
    by (simp add: agrees_def mem_get_live)
  show ?thesis
    unfolding * [symmetric] by (simp add: mem_contains_def split: prod.splits)
qed

definition sample_entry :: "int entry" where
  "sample_entry = \<lparr>cy_key = ''k'', cy_value = 5, cy_provider = None, cy_model = None,
     cy_created = 0, cy_expires = Some 100, cy_ttl = None, cy_hits = 0, cy_last = None\<rparr>"

lemma backend_implements_writes_witness:
  "map_option cy_value (fst (mem_get ''k'' 99 99
       (fold mem_step [M_Set sample_entry, M_Size (\<lambda>_. 40) 50, M_Get ''k'' 60 60] (new_memory ''m''))))
     = Some 5
   \<and> map_option cy_value (fst (mem_get ''k'' 100 100
       (fold mem_step [M_Set sample_entry, M_Size (\<lambda>_. 40) 50, M_Get ''k'' 60 60] (new_memory ''m''))))
     = None"
proof -
  have ok: "clocked 0 [M_Set sample_entry, M_Size (\<lambda>_. 40) 50, M_Get ''k'' 60 60]"
    by (simp add: sample_entry_def entry_ok_def mk_entry_def expiry_def Let_def)
  show ?thesis
    by (subst (1 2) backend_implements_writes [OF ok, THEN conjunct1])
      (simp_all add: visible_def sample_entry_def)
qed

subsection \<open>Statistics\<close>

fun is_hit :: "cache_event \<Rightarrow> bool" where
  "is_hit (CacheHit k b) = True" | "is_hit _ = False"

fun is_miss :: "cache_event \<Rightarrow> bool" where
  "is_miss (CacheMiss k b) = True" | "is_miss _ = False"

fun is_expiry :: "cache_event \<Rightarrow> bool" where
  "is_expiry (CacheExpired k b) = True" | "is_expiry _ = False"

fun is_eviction :: "cache_event \<Rightarrow> bool" where
  "is_eviction (CacheEvicted k b) = True" | "is_eviction _ = False"

definition occurrences :: "('a \<Rightarrow> bool) \<Rightarrow> 'a list \<Rightarrow> int" where
  "occurrences P xs = int (length (filter P xs))"

lemma occurrences_simps [simp]:
  "occurrences P [] = 0"
  "occurrences P (xs @ ys) = occurrences P xs + occurrences P ys"
  "occurrences P (x # xs) = (if P x then 1 else 0) + occurrences P xs"
  by (simp_all add: occurrences_def)

lemma occurrences_map_all: "(\<And>x. P (f x)) \<Longrightarrow> occurrences P (map f xs) = int (length xs)"
  by (simp add: occurrences_def)

lemma occurrences_map_none: "(\<And>x. \<not> P (f x)) \<Longrightarrow> occurrences P (map f xs) = 0"
  by (simp add: occurrences_def)

fun is_read :: "'v mem_op \<Rightarrow> bool" where
  "is_read (M_Get k t1 t2) = True"
| "is_read (M_Contains k t1 t2) = True"
| "is_read _ = False"

definition counted :: "int \<Rightarrow> 'v memory \<Rightarrow> bool" where
  "counted reads m \<longleftrightarrow>
     sx_hits (me_stats m) = occurrences is_hit (me_events m)
   \<and> sx_misses (me_stats m) = occurrences is_miss (me_events m) + occurrences is_expiry (me_events m)
   \<and> sx_expired (me_stats m) = occurrences is_expiry (me_events m)
   \<and> sx_evicted (me_stats m) = occurrences is_eviction (me_events m)
   \<and> sx_hits (me_stats m) + sx_misses (me_stats m) = reads"

lemma counted_get: "counted n m \<Longrightarrow> counted (n + 1) (snd (mem_get k t1 t2 m))"
  by (auto simp: counted_def mem_get_def Let_def split: option.splits)

lemma counted_step: "counted n m \<Longrightarrow> counted (n + (if is_read op then 1 else 0)) (mem_step op m)"
proof (cases op)
  case (M_Contains k t1 t2)
  then show "counted n m \<Longrightarrow> ?thesis"
    using counted_get [of n m k t1 t2]
    by (cases "mem_get k t1 t2 m") (simp add: mem_contains_def)
next
  case (M_Get k t1 t2)
  then show "counted n m \<Longrightarrow> ?thesis"
    using counted_get [of n m k t1 t2] by simp
qed (auto simp: counted_def mem_set_def mem_delete_def mem_size_def Let_def
      occurrences_map_all occurrences_map_none)

lemma counted_run: "counted n m \<Longrightarrow> counted (n + occurrences is_read ops) (fold mem_step ops m)"
proof (induction ops arbitrary: n m)
  case (Cons op ops)
  from Cons.IH [OF counted_step [OF Cons.prems, of op]]
  show ?case by (simp add: add.assoc)
qed simp

text \<open>The statistics are those of the published events and of the calls: after any sequence of
  operations the hits are the published hits, the misses are the published misses and expiries
  together, the evictions are the deletions that found an entry and the entries dropped by
  \<open>clear\<close>, and hits and misses add up to the number of reads and containment tests.\<close>

theorem statistics_match_events:
  "counted (occurrences is_read ops) (fold mem_step ops (new_memory name))"
proof -
  have "counted 0 (new_memory name)"
    by (simp add: counted_def new_memory_def)
  from counted_run [OF this, of ops] show ?thesis by simp
qed

end
