(* ===== verification/Policy.thy ===== *)
theory Policy
  imports TK_Prelude "HOL-Library.Product_Lexorder"
begin

text \<open>
  The policy engine (\<open>src/src/tkai/policy/\<close>) and the adapters that put existing objects into a
  pipeline (\<open>interfaces.py\<close>, \<open>src/src/tkai/retry/adapter.py\<close>).

  A policy is a record of its methods. They read and change the caller's context and the policies'
  own state \<open>'w\<close>; \<open>enabled\<close>, \<open>evaluate\<close>, \<open>apply\<close> and \<open>shutdown\<close> may raise, and the left summand is
  then the class name of the exception. Names are fixed, priorities and the \<open>enabled\<close> flag are read
  from the state at every call, and \<open>name\<close> and \<open>priority\<close> do not raise. Policies do not reach the
  registry they run in. The engine's event bus is the list of events it publishes. The engine calls
  \<open>enabled\<close> outside its \<open>try\<close>, so an exception of \<open>enabled\<close> leaves the run, and the run is one
  caller's: \<open>execute\<close> holds no lock while policies run.
\<close>

subsection \<open>Models\<close>

datatype policy_stage =
    BEFORE_REQUEST | BEFORE_ROUTING | BEFORE_PROVIDER | AFTER_PROVIDER | AFTER_RESPONSE

fun stage_value :: "policy_stage \<Rightarrow> string" where
  "stage_value BEFORE_REQUEST = ''before_request''"
| "stage_value BEFORE_ROUTING = ''before_routing''"
| "stage_value BEFORE_PROVIDER = ''before_provider''"
| "stage_value AFTER_PROVIDER = ''after_provider''"
| "stage_value AFTER_RESPONSE = ''after_response''"

text \<open>The context data is a dictionary whose values are dictionaries of objects or other objects.\<close>

datatype 'o datum = Data_Dict "(string, 'o) dict" | Data_Object 'o

record 'o policy_context =
  px_stage :: policy_stage
  px_data :: "(string, 'o datum) dict"

record decision =
  pd_allowed :: bool
  pd_reason :: string

datatype outcome = Skipped | Failed | Executed

record execution =
  ex_policy :: string
  ex_stage :: policy_stage
  ex_outcome :: outcome
  ex_reason :: string

datatype policy_event =
    PolicyExecuted string string string
  | PolicyFailed string string string
  | PolicySkipped string string string

datatype policy_error =
    PolicyRegistrationError string
  | PolicyNotFoundError string
  | PolicyRaised string

record ('o, 'w) policy =
  po_name :: string
  po_priority :: "'w \<Rightarrow> int"
  po_enabled :: "'w \<Rightarrow> string + bool"
  po_evaluate :: "'o policy_context \<Rightarrow> 'w \<Rightarrow> (string + decision) \<times> 'o policy_context \<times> 'w"
  po_apply :: "'o policy_context \<Rightarrow> 'w \<Rightarrow> (string + unit) \<times> 'o policy_context \<times> 'w"
  po_shutdown :: "'w \<Rightarrow> (string + unit) \<times> 'w"

subsection \<open>Registry\<close>

record ('o, 'w) policy_registry =
  pr_policies :: "(string, ('o, 'w) policy) dict"
  pr_enabled :: "string set"

definition pr_new :: "('o, 'w) policy_registry" where
  "pr_new = \<lparr>pr_policies = [], pr_enabled = {}\<rparr>"

text \<open>The policy is stored before its \<open>enabled\<close> is asked, so it stays registered when that raises.\<close>

definition pr_register ::
  "('o, 'w) policy \<Rightarrow> 'w \<Rightarrow> ('o, 'w) policy_registry \<Rightarrow>
     (policy_error + unit) \<times> ('o, 'w) policy_registry" where
  "pr_register p w r =
     (let name = po_name p; r1 = r\<lparr>pr_policies := AList.update name p (pr_policies r)\<rparr> in
      if name = '''' then (Inl (PolicyRegistrationError name), r)
      else if map_of (pr_policies r) name \<noteq> None then (Inl (PolicyRegistrationError name), r)
      else case po_enabled p w of
             Inl x \<Rightarrow> (Inl (PolicyRaised x), r1)
           | Inr on \<Rightarrow>
               (Inr (), if on then r1\<lparr>pr_enabled := insert name (pr_enabled r1)\<rparr> else r1))"

definition pr_get :: "string \<Rightarrow> ('o, 'w) policy_registry \<Rightarrow> policy_error + ('o, 'w) policy" where
  "pr_get name r = dict_lookup (PolicyNotFoundError name) name (pr_policies r)"

definition pr_unregister ::
  "string \<Rightarrow> ('o, 'w) policy_registry \<Rightarrow> policy_error + ('o, 'w) policy \<times> ('o, 'w) policy_registry" where
  "pr_unregister name r =
     (case map_of (pr_policies r) name of
        None \<Rightarrow> Inl (PolicyNotFoundError name)
      | Some p \<Rightarrow> Inr (p, r\<lparr>pr_policies := AList.delete name (pr_policies r),
                            pr_enabled := pr_enabled r - {name}\<rparr>))"

definition rank :: "'w \<Rightarrow> ('o, 'w) policy \<Rightarrow> int \<times> string" where
  "rank w p = (- po_priority p w, po_name p)"

definition pr_list :: "'w \<Rightarrow> ('o, 'w) policy_registry \<Rightarrow> ('o, 'w) policy list" where
  "pr_list w r = sort_key (rank w) (map snd (pr_policies r))"

definition pr_enable ::
  "string \<Rightarrow> ('o, 'w) policy_registry \<Rightarrow> policy_error + ('o, 'w) policy_registry" where
  "pr_enable name r =
     (case pr_get name r of
        Inl e \<Rightarrow> Inl e | Inr _ \<Rightarrow> Inr (r\<lparr>pr_enabled := insert name (pr_enabled r)\<rparr>))"

definition pr_disable ::
  "string \<Rightarrow> ('o, 'w) policy_registry \<Rightarrow> policy_error + ('o, 'w) policy_registry" where
  "pr_disable name r =
     (case pr_get name r of
        Inl e \<Rightarrow> Inl e | Inr _ \<Rightarrow> Inr (r\<lparr>pr_enabled := pr_enabled r - {name}\<rparr>))"

definition pr_is_enabled :: "string \<Rightarrow> ('o, 'w) policy_registry \<Rightarrow> policy_error + bool" where
  "pr_is_enabled name r =
     (case pr_get name r of Inl e \<Rightarrow> Inl e | Inr _ \<Rightarrow> Inr (name \<in> pr_enabled r))"

subsection \<open>Engine\<close>

record ('o, 'w) policy_engine =
  pe_registry :: "('o, 'w) policy_registry"
  pe_events :: "policy_event list"

definition event_of :: "execution \<Rightarrow> policy_event" where
  "event_of x =
     (let s = stage_value (ex_stage x) in
      case ex_outcome x of
        Skipped \<Rightarrow> PolicySkipped (ex_policy x) s (ex_reason x)
      | Failed \<Rightarrow> PolicyFailed (ex_policy x) s (ex_reason x)
      | Executed \<Rightarrow> PolicyExecuted (ex_policy x) s (ex_reason x))"

text \<open>One round of the loop of \<open>execute\<close>: the execution it appends, the context and the state it
  leaves. It publishes \<open>event_of\<close> of that execution. An exception of \<open>enabled\<close> ends the loop.\<close>

definition run_policy ::
  "('o, 'w) policy_registry \<Rightarrow> ('o, 'w) policy \<Rightarrow> 'o policy_context \<Rightarrow> 'w \<Rightarrow>
     (string + execution) \<times> 'o policy_context \<times> 'w" where
  "run_policy r p c w =
     (let name = po_name p;
          record_as = (\<lambda>c' out reason. \<lparr>ex_policy = name, ex_stage = px_stage c',
                                         ex_outcome = out, ex_reason = reason\<rparr>)
      in if name \<notin> pr_enabled r then (Inr (record_as c Skipped ''disabled''), c, w)
         else case po_enabled p w of
           Inl x \<Rightarrow> (Inl x, c, w)
         | Inr False \<Rightarrow> (Inr (record_as c Skipped ''disabled''), c, w)
         | Inr True \<Rightarrow>
             (case po_evaluate p c w of
                (Inl x, c1, w1) \<Rightarrow> (Inr (record_as c1 Failed x), c1, w1)
              | (Inr d, c1, w1) \<Rightarrow>
                  if \<not> pd_allowed d then (Inr (record_as c1 Skipped (pd_reason d)), c1, w1)
                  else (case po_apply p c1 w1 of
                          (Inl x, c2, w2) \<Rightarrow> (Inr (record_as c2 Failed x), c2, w2)
                        | (Inr _, c2, w2) \<Rightarrow>
                            (Inr (record_as c2 Executed (pd_reason d)), c2, w2))))"

text \<open>The loop: the executions appended so far and the exception that ended it, if any.\<close>

fun run_policies ::
  "('o, 'w) policy_registry \<Rightarrow> ('o, 'w) policy list \<Rightarrow> 'o policy_context \<Rightarrow> 'w \<Rightarrow>
     execution list \<times> string option \<times> 'o policy_context \<times> 'w" where
  "run_policies r [] c w = ([], None, c, w)"
| "run_policies r (p # ps) c w =
     (case run_policy r p c w of
        (Inl err, c1, w1) \<Rightarrow> ([], Some err, c1, w1)
      | (Inr x, c1, w1) \<Rightarrow>
          (case run_policies r ps c1 w1 of (xs, err, c2, w2) \<Rightarrow> (x # xs, err, c2, w2)))"

definition pe_execute ::
  "'o policy_context \<Rightarrow> 'w \<Rightarrow> ('o, 'w) policy_engine \<Rightarrow>
     (string + execution list) \<times> 'o policy_context \<times> 'w \<times> ('o, 'w) policy_engine" where
  "pe_execute c w e =
     (case run_policies (pe_registry e) (pr_list w (pe_registry e)) c w of
        (xs, err, c', w') \<Rightarrow>
          (case err of None \<Rightarrow> Inr xs | Some x \<Rightarrow> Inl x, c', w',
           e\<lparr>pe_events := pe_events e @ map event_of xs\<rparr>))"

fun shutdown_policies ::
  "('o, 'w) policy list \<Rightarrow> 'w \<Rightarrow> policy_event list \<times> 'w" where
  "shutdown_policies [] w = ([], w)"
| "shutdown_policies (p # ps) w =
     (case po_shutdown p w of (res, w1) \<Rightarrow>
      case shutdown_policies ps w1 of (evs, w2) \<Rightarrow>
        ((case res of Inl x \<Rightarrow> [PolicyFailed (po_name p) ''shutdown'' x] | Inr _ \<Rightarrow> []) @ evs, w2))"

definition pe_shutdown :: "'w \<Rightarrow> ('o, 'w) policy_engine \<Rightarrow> 'w \<times> ('o, 'w) policy_engine" where
  "pe_shutdown w e =
     (case shutdown_policies (pr_list w (pe_registry e)) w of
        (evs, w') \<Rightarrow> (w', e\<lparr>pe_events := pe_events e @ evs\<rparr>))"

definition pl_run ::
  "policy_stage \<Rightarrow> (string, 'o datum) dict option \<Rightarrow> 'w \<Rightarrow> ('o, 'w) policy_engine \<Rightarrow>
     (string + 'o policy_context \<times> execution list) \<times> 'w \<times> ('o, 'w) policy_engine" where
  "pl_run stage data w e =
     (case pe_execute \<lparr>px_stage = stage, px_data = (case data of None \<Rightarrow> [] | Some d \<Rightarrow> d)\<rparr> w e of
        (Inl x, c, w', e') \<Rightarrow> (Inl x, w', e')
      | (Inr xs, c, w', e') \<Rightarrow> (Inr (c, xs), w', e'))"

text \<open>The manager owns one registry and one engine over it.\<close>

definition pm_new :: "('o, 'w) policy_engine" where
  "pm_new = \<lparr>pe_registry = pr_new, pe_events = []\<rparr>"

definition pm_lift ::
  "(('o, 'w) policy_registry \<Rightarrow> policy_error + ('o, 'w) policy_registry) \<Rightarrow>
     ('o, 'w) policy_engine \<Rightarrow> policy_error + ('o, 'w) policy_engine" where
  "pm_lift f e = (case f (pe_registry e) of Inl x \<Rightarrow> Inl x | Inr r \<Rightarrow> Inr (e\<lparr>pe_registry := r\<rparr>))"

definition pm_register ::
  "('o, 'w) policy \<Rightarrow> 'w \<Rightarrow> ('o, 'w) policy_engine \<Rightarrow>
     (policy_error + unit) \<times> ('o, 'w) policy_engine" where
  "pm_register p w e =
     (case pr_register p w (pe_registry e) of (res, r) \<Rightarrow> (res, e\<lparr>pe_registry := r\<rparr>))"

definition pm_enable ::
  "string \<Rightarrow> ('o, 'w) policy_engine \<Rightarrow> policy_error + ('o, 'w) policy_engine" where
  "pm_enable name = pm_lift (pr_enable name)"

definition pm_disable ::
  "string \<Rightarrow> ('o, 'w) policy_engine \<Rightarrow> policy_error + ('o, 'w) policy_engine" where
  "pm_disable name = pm_lift (pr_disable name)"

definition pm_unregister ::
  "string \<Rightarrow> ('o, 'w) policy_engine \<Rightarrow> policy_error + ('o, 'w) policy \<times> ('o, 'w) policy_engine" where
  "pm_unregister name e =
     (case pr_unregister name (pe_registry e) of
        Inl x \<Rightarrow> Inl x | Inr (p, r) \<Rightarrow> Inr (p, e\<lparr>pe_registry := r\<rparr>))"

fun summary_rows ::
  "('o, 'w) policy_registry \<Rightarrow> 'w \<Rightarrow> ('o, 'w) policy list \<Rightarrow> string + (string \<times> int \<times> bool) list" where
  "summary_rows r w [] = Inr []"
| "summary_rows r w (p # ps) =
     (case (if po_name p \<in> pr_enabled r then po_enabled p w else Inr False) of
        Inl x \<Rightarrow> Inl x
      | Inr on \<Rightarrow>
          (case summary_rows r w ps of
             Inl x \<Rightarrow> Inl x | Inr rows \<Rightarrow> Inr ((po_name p, po_priority p w, on) # rows)))"

definition pm_summary :: "'w \<Rightarrow> ('o, 'w) policy_engine \<Rightarrow> string + (string \<times> int \<times> bool) list" where
  "pm_summary w e = summary_rows (pe_registry e) w (pr_list w (pe_registry e))"

subsection \<open>Adapters\<close>

text \<open>The state of the adapters: the names of those that have been shut down. An adapter registers
  its target in the dictionary under \<open>policies\<close>; a value there that is no dictionary makes the item
  assignment raise \<open>TypeError\<close>.\<close>

type_synonym adapters = "string set"

definition accept :: decision where
  "accept = \<lparr>pd_allowed = True, pd_reason = ''accepted''\<rparr>"

definition compat_adapter :: "string \<Rightarrow> int \<Rightarrow> 'o \<Rightarrow> ('o, adapters) policy" where
  "compat_adapter name priority target =
     \<lparr>po_name = name, po_priority = (\<lambda>_. priority), po_enabled = (\<lambda>off. Inr (name \<notin> off)),
      po_evaluate = (\<lambda>c off. (Inr accept, c, off)),
      po_apply = (\<lambda>c off.
        case map_of (px_data c) ''policies'' of
          None \<Rightarrow> (Inr (), c\<lparr>px_data := AList.update ''policies'' (Data_Dict [(name, target)]) (px_data c)\<rparr>, off)
        | Some (Data_Dict d) \<Rightarrow>
            (Inr (), c\<lparr>px_data := AList.update ''policies'' (Data_Dict (AList.update name target d)) (px_data c)\<rparr>, off)
        | Some (Data_Object _) \<Rightarrow> (Inl ''TypeError'', c, off)),
      po_shutdown = (\<lambda>off. (Inr (), insert name off))\<rparr>"

definition routing_adapter :: "int \<Rightarrow> 'o \<Rightarrow> ('o, adapters) policy" where
  "routing_adapter = compat_adapter ''routing''"

definition breaker_adapter :: "int \<Rightarrow> 'o \<Rightarrow> ('o, adapters) policy" where
  "breaker_adapter = compat_adapter ''breaker''"

definition rate_limit_adapter :: "int \<Rightarrow> 'o \<Rightarrow> ('o, adapters) policy" where
  "rate_limit_adapter = compat_adapter ''rate_limit''"

definition cache_adapter :: "int \<Rightarrow> 'o \<Rightarrow> ('o, adapters) policy" where
  "cache_adapter = compat_adapter ''cache''"

definition plugin_adapter :: "int \<Rightarrow> 'o \<Rightarrow> ('o, adapters) policy" where
  "plugin_adapter = compat_adapter ''plugin''"

definition retry_adapter :: "string \<Rightarrow> int \<Rightarrow> 'o \<Rightarrow> ('o, adapters) policy" where
  "retry_adapter name priority manager =
     \<lparr>po_name = name, po_priority = (\<lambda>_. priority), po_enabled = (\<lambda>off. Inr (name \<notin> off)),
      po_evaluate = (\<lambda>c off. (Inr accept, c, off)),
      po_apply = (\<lambda>c off.
        (Inr (), c\<lparr>px_data := AList.update ''retry_manager'' (Data_Object manager) (px_data c)\<rparr>, off)),
      po_shutdown = (\<lambda>off. (Inr (), insert name off))\<rparr>"


subsection \<open>The contract of an ordered registry\<close>

text \<open>Clients iterate over \<open>listing\<close>, which is strictly sorted by \<open>order\<close>.\<close>

locale ordered_registry =
  fixes inv :: "'s \<Rightarrow> bool"
    and view :: "'s \<Rightarrow> 'k \<Rightarrow> 'v option"
    and key :: "'v \<Rightarrow> 'k"
    and order :: "'v \<Rightarrow> 'r::linorder"
    and listing :: "'s \<Rightarrow> 'v list"
    and remove :: "'k \<Rightarrow> 's \<Rightarrow> 'e + 'v \<times> 's"
  assumes listing_set: "inv s \<Longrightarrow> set (listing s) = ran (view s)"
    and listing_order: "inv s \<Longrightarrow> sorted (map order (listing s)) \<and> distinct (map order (listing s))"
    and view_key: "inv s \<Longrightarrow> view s k = Some v \<Longrightarrow> key v = k"
    and remove_removes: "inv s \<Longrightarrow> view s k = Some v \<Longrightarrow>
      \<exists>s'. remove k s = Inr (v, s') \<and> inv s' \<and> view s' = (view s)(k := None)"
    and remove_missing: "inv s \<Longrightarrow> view s k = None \<Longrightarrow> \<exists>e. remove k s = Inl e"
begin

lemma listing_unique:
  assumes "inv s" "inv s'" "set (listing s) = set l" "sorted (map order l)" "distinct (map order l)"
  shows "listing s = l"
proof (rule map_inj_on [where f = order])
  show "map order (listing s) = map order l"
    using listing_order [OF assms(1)] assms(3-5) by (intro sorted_distinct_set_unique) simp_all
  show "inj_on order (set (listing s) \<union> set l)"
    using assms(3,5) by (simp add: distinct_map)
qed

lemma listing_distinct: "inv s \<Longrightarrow> distinct (listing s)"
  using listing_order [of s] by (simp add: distinct_map)

lemma listing_keys:
  assumes "inv s"
  shows "distinct (map key (listing s))" and "key ` set (listing s) = dom (view s)"
proof -
  show "key ` set (listing s) = dom (view s)"
    using view_key [OF assms] listing_set [OF assms] by (force simp: ran_def dom_def image_iff)
  have "inj_on key (set (listing s))"
    using view_key [OF assms] listing_set [OF assms] by (force simp: inj_on_def ran_def)
  then show "distinct (map key (listing s))"
    using listing_distinct [OF assms] by (simp add: distinct_map)
qed

lemma listing_remove:
  assumes "inv s" "remove k s = Inr (v, s')"
  shows "inv s'" and "listing s' = filter (\<lambda>x. key x \<noteq> k) (listing s)"
proof -
  have s': "view s k = Some v" "inv s'" "view s' = (view s)(k := None)"
    using remove_removes [OF assms(1), of k] remove_missing [OF assms(1), of k] assms(2)
    by (cases "view s k"; auto)+
  then show "inv s'" by blast
  have "set (listing s') = set (filter (\<lambda>x. key x \<noteq> k) (listing s))"
    using listing_set [OF assms(1)] listing_set [OF s'(2)] s'(3) view_key [OF assms(1)]
    by (auto simp: ran_def)
  then show "listing s' = filter (\<lambda>x. key x \<noteq> k) (listing s)"
    using listing_order [OF assms(1)] s'(2)
    by (intro listing_unique) (auto simp: distinct_map inj_on_def intro: sorted_filter)
qed

end

definition pr_view :: "('o, 'w) policy_registry \<Rightarrow> string \<Rightarrow> ('o, 'w) policy option" where
  "pr_view r = map_of (pr_policies r)"

definition pr_ok :: "('o, 'w) policy_registry \<Rightarrow> bool" where
  "pr_ok r \<longleftrightarrow> keyed po_name (pr_policies r) \<and> pr_enabled r \<subseteq> fst ` set (pr_policies r)"

lemma pr_new_ok [inv_intros]: "pr_ok pr_new"
  by (simp add: pr_ok_def pr_new_def keyed_def)


lemma pr_view_dom: "pr_enabled r \<subseteq> fst ` set (pr_policies r) \<longleftrightarrow> pr_enabled r \<subseteq> dom (pr_view r)"
  by (simp add: pr_view_def dom_map_of_conv_image_fst)

lemma pr_ok_iff: "pr_ok r \<longleftrightarrow> keyed po_name (pr_policies r) \<and> pr_enabled r \<subseteq> dom (pr_view r)"
  by (simp add: pr_ok_def pr_view_dom)

lemma pr_register_ok [inv_intros]: "pr_ok r \<Longrightarrow> pr_ok (snd (pr_register p w r))"
  by (auto simp: pr_ok_iff pr_register_def pr_view_def Let_def split: if_splits sum.splits)

lemma pr_unregister_ok [inv_intros]: "pr_ok r \<Longrightarrow> pr_unregister n r = Inr (p, r') \<Longrightarrow> pr_ok r'"
  by (auto simp: pr_ok_iff pr_unregister_def pr_view_def split: option.splits)

lemma pr_enable_ok [inv_intros]: "pr_ok r \<Longrightarrow> pr_enable n r = Inr r' \<Longrightarrow> pr_ok r'"
  by (auto simp: pr_ok_iff pr_enable_def pr_get_def dict_lookup_def pr_view_def
      split: option.splits sum.splits)

lemma pr_disable_ok [inv_intros]: "pr_ok r \<Longrightarrow> pr_disable n r = Inr r' \<Longrightarrow> pr_ok r'"
  by (auto simp: pr_ok_iff pr_disable_def pr_get_def dict_lookup_def pr_view_def
      split: option.splits sum.splits)

interpretation policies: ordered_registry pr_ok pr_view po_name "rank w" "pr_list w" pr_unregister
  for w :: 'w
proof unfold_locales
  fix r :: "('b, 'w) policy_registry"
  assume r: "pr_ok r"
  then have d: "dict_ok (pr_policies r)" and k: "keyed po_name (pr_policies r)"
    by (simp_all add: pr_ok_def keyed_def)
  have names: "map po_name (map snd (pr_policies r)) = map fst (pr_policies r)"
    using k by (auto simp: keyed_def)
  show "set (pr_list w r) = ran (pr_view r)"
    using d by (force simp: pr_list_def pr_view_def ran_def)
  have "distinct (map po_name (map snd (pr_policies r)))"
    unfolding names by (rule d)
  then have "distinct (map snd (pr_policies r)) \<and> inj_on (rank w) (set (map snd (pr_policies r)))"
    unfolding distinct_map [of po_name] by (auto simp: inj_on_def rank_def)
  then have "distinct (map (rank w) (pr_list w r))"
    unfolding pr_list_def distinct_map [of "rank w"] by (simp only: distinct_sort set_sort)
  then show "sorted (map (rank w) (pr_list w r)) \<and> distinct (map (rank w) (pr_list w r))"
    by (simp add: pr_list_def)
next
  fix r :: "('b, 'w) policy_registry" and n p
  assume r: "pr_ok r"
  show "po_name p = n" if "pr_view r n = Some p"
    using r that by (auto simp: pr_ok_def pr_view_def dest: keyed_key)
  show "\<exists>r'. pr_unregister n r = Inr (p, r') \<and> pr_ok r' \<and> pr_view r' = (pr_view r)(n := None)"
    if "pr_view r n = Some p"
  proof -
    define r' where "r' = r\<lparr>pr_policies := AList.delete n (pr_policies r),
                            pr_enabled := pr_enabled r - {n}\<rparr>"
    then have r': "pr_unregister n r = Inr (p, r')" "pr_view r' = (pr_view r)(n := None)"
      using that by (simp_all add: pr_unregister_def pr_view_def)
    from pr_unregister_ok [OF r r'(1)] r' show ?thesis by blast
  qed
  show "\<exists>e. pr_unregister n r = Inl e" if "pr_view r n = None"
    using that by (auto simp: pr_unregister_def pr_view_def)
qed


subsection \<open>Execution\<close>

lemma ex_policy_run [simp]: "run_policy r p c w = (Inr x, c', w') \<Longrightarrow> ex_policy x = po_name p"
  by (auto simp: run_policy_def Let_def split: if_splits sum.splits prod.splits bool.splits)

text \<open>A round raises exactly when the policy is enabled in the registry and its \<open>enabled\<close> raises, and
  then nothing has changed.\<close>

lemma run_policy_Inl:
  "run_policy r p c w = (Inl x, c', w') \<longleftrightarrow>
     po_name p \<in> pr_enabled r \<and> po_enabled p w = Inl x \<and> c' = c \<and> w' = w"
  by (auto simp: run_policy_def Let_def split: if_splits sum.splits prod.splits bool.splits)

lemma run_policies_names:
  "run_policies r ps c w = (xs, err, c', w') \<Longrightarrow>
     case err of
       None \<Rightarrow> map ex_policy xs = map po_name ps
     | Some x \<Rightarrow> \<exists>before p after. ps = before @ p # after \<and> map ex_policy xs = map po_name before \<and>
         po_name p \<in> pr_enabled r \<and> po_enabled p w' = Inl x"
proof (induction r ps c w arbitrary: xs err c' w' rule: run_policies.induct)
  case (2 r p ps c w)
  obtain y c1 w1 where y: "run_policy r p c w = (y, c1, w1)" by (cases "run_policy r p c w") auto
  show ?case
  proof (cases y)
    case (Inl x)
    with y run_policy_Inl [of r p c w x c1 w1]
    have "po_name p \<in> pr_enabled r" "po_enabled p w1 = Inl x" by simp_all
    with "2.prems" y Inl show ?thesis by (auto intro!: exI [of _ "[]"])
  next
    case (Inr x)
    with "2.prems" y obtain ys where
      ys: "run_policies r ps c1 w1 = (ys, err, c', w')" "xs = x # ys" by (auto split: prod.splits)
    have x: "ex_policy x = po_name p" using y Inr by simp
    have IH: "case err of
       None \<Rightarrow> map ex_policy ys = map po_name ps
     | Some x \<Rightarrow> \<exists>before p after. ps = before @ p # after \<and> map ex_policy ys = map po_name before \<and>
         po_name p \<in> pr_enabled r \<and> po_enabled p w' = Inl x"
      by (rule "2.IH" [OF y [symmetric] Inr refl ys(1)])
    show ?thesis
    proof (cases err)
      case None
      with IH ys(2) x show ?thesis by simp
    next
      case (Some z)
      with IH obtain before q after where q: "ps = before @ q # after"
        "map ex_policy ys = map po_name before" "po_name q \<in> pr_enabled r" "po_enabled q w' = Inl z"
        by auto
      have l: "p # ps = (p # before) @ q # after" "map ex_policy xs = map po_name (p # before)"
        using q(1,2) ys(2) x by simp_all
      show ?thesis
        unfolding Some option.case by (intro exI conjI) (rule l q(3,4))+
    qed
  qed
qed simp

lemma run_policies_append:
  "run_policies r ps c w = (xs, None, c1, w1) \<Longrightarrow>
   run_policies r (ps @ qs) c w =
     (case run_policies r qs c1 w1 of (ys, err, c2, w2) \<Rightarrow> (xs @ ys, err, c2, w2))"
  by (induction ps arbitrary: c w xs) (auto split: prod.splits sum.splits)

lemma run_policies_records:
  "run_policies r ps c w = (xs, err, c', w') \<Longrightarrow> x \<in> set xs \<Longrightarrow>
     \<exists>q c w. q \<in> set ps \<and> fst (run_policy r q c w) = Inr x"
proof (induction r ps c w arbitrary: xs c' w' rule: run_policies.induct)
  case (2 r p ps c w)
  obtain y c1 w1 where y: "run_policy r p c w = (y, c1, w1)" by (cases "run_policy r p c w") auto
  with "2.prems" obtain z where z: "y = Inr z" by (cases y) auto
  with y "2.prems" obtain ys where ys: "run_policies r ps c1 w1 = (ys, err, c', w')" "xs = z # ys"
    by (auto split: prod.splits)
  show ?case
  proof (cases "x = z")
    case True
    then show ?thesis using y z by (metis fst_conv list.set_intros(1))
  next
    case False
    with ys "2.prems"(2) "2.IH" [OF y [symmetric] z refl ys(1)] show ?thesis by auto
  qed
qed simp

lemma run_policy_cong:
  "(po_name p \<in> pr_enabled r \<longleftrightarrow> po_name p \<in> pr_enabled r') \<Longrightarrow> run_policy r p = run_policy r' p"
  by (intro ext) (simp add: run_policy_def)

lemma run_policies_cong:
  "(\<And>q. q \<in> set ps \<Longrightarrow> run_policy r q = run_policy r' q) \<Longrightarrow>
   run_policies r ps c w = run_policies r' ps c w"
  by (induction ps arbitrary: c w) (auto split: prod.splits sum.splits)

lemma inert_policy:
  assumes "run_policies r ps c w = (xs, err, c', w')"
    and "\<And>q c w. q \<in> set ps \<Longrightarrow> po_name q = n \<Longrightarrow> \<exists>x. run_policy r q c w = (Inr x, c, w)"
    and "\<And>q. q \<in> set ps \<Longrightarrow> po_name q \<noteq> n \<Longrightarrow> run_policy r' q = run_policy r q"
  shows "run_policies r' (filter (\<lambda>q. po_name q \<noteq> n) ps) c w
           = (filter (\<lambda>x. ex_policy x \<noteq> n) xs, err, c', w')"
  using assms
proof (induction ps arbitrary: c w xs)
  case (Cons p ps)
  obtain x c1 w1 where x: "run_policy r p c w = (x, c1, w1)" by (cases "run_policy r p c w") auto
  show ?case
  proof (cases x)
    case (Inl z)
    with x Cons.prems(2) [of p c w] have "po_name p \<noteq> n" by auto
    with Cons.prems(1,3) x Inl show ?thesis by auto
  next
    case (Inr y)
    with x Cons.prems(1) obtain ys where
      ys: "run_policies r ps c1 w1 = (ys, err, c', w')" "xs = y # ys" by (auto split: prod.splits)
    have IH: "run_policies r' (filter (\<lambda>q. po_name q \<noteq> n) ps) c1 w1
                = (filter (\<lambda>x. ex_policy x \<noteq> n) ys, err, c', w')"
      using Cons.prems(2,3) by (intro Cons.IH [OF ys(1)]) auto
    show ?thesis
    proof (cases "po_name p = n")
      case True
      then have "(c1, w1) = (c, w)" using Cons.prems(2) [of p c w] x by auto
      with IH True ys(2) x Inr show ?thesis by simp
    next
      case False
      with Cons.prems(3) [of p] x have "run_policy r' p c w = (x, c1, w1)" by simp
      with IH False ys(2) x Inr show ?thesis by simp
    qed
  qed
qed simp

lemma unregistered_view:
  assumes "pr_ok r" "pr_unregister n r = Inr (p, r2)"
  shows "pr_view r n = Some p" and "pr_enabled r2 = pr_enabled r - {n}" and "po_name p = n"
    and "p \<in> set (pr_list w r)" and "q \<in> set (pr_list w r) \<Longrightarrow> po_name q = n \<Longrightarrow> q = p"
    and "po_name q \<noteq> n \<Longrightarrow> run_policy r2 q = run_policy r q"
proof -
  show p: "pr_view r n = Some p" and en: "pr_enabled r2 = pr_enabled r - {n}"
    using assms(2) by (auto simp: pr_unregister_def pr_view_def split: option.splits)
  show "po_name p = n" using policies.view_key [OF assms(1) p] .
  show "p \<in> set (pr_list w r)"
    using policies.listing_set [OF assms(1), of w] p by (auto simp: ran_def)
  show "q = p" if "q \<in> set (pr_list w r)" "po_name q = n"
    using that policies.listing_set [OF assms(1)] policies.view_key [OF assms(1)] p
    by (auto simp: ran_def)
  show "run_policy r2 q = run_policy r q" if "po_name q \<noteq> n"
    using that en by (intro run_policy_cong) simp
qed

lemma execute_inert:
  assumes "pr_ok (pe_registry e)" "pm_unregister n e = Inr (p, e2)"
    and "\<And>c w. \<exists>x. run_policy (pe_registry e) p c w = (Inr x, c, w)"
    and "pe_execute c w e = (res, c', w', e')"
  shows "\<exists>e2'. pe_execute c w e2 = (map_sum id (filter (\<lambda>x. ex_policy x \<noteq> n)) res, c', w', e2')"
proof -
  let ?r = "pe_registry e"
  obtain r2 where r2: "pr_unregister n ?r = Inr (p, r2)" "e2 = e\<lparr>pe_registry := r2\<rparr>"
    using assms(2) by (auto simp: pm_unregister_def split: sum.splits)
  note v = unregistered_view [OF assms(1) r2(1)]
  obtain xs err where run: "run_policies ?r (pr_list w ?r) c w = (xs, err, c', w')"
    and res: "res = (case err of None \<Rightarrow> Inr xs | Some x \<Rightarrow> Inl x)"
    using assms(4) by (auto simp: pe_execute_def split: prod.splits)
  have "run_policies r2 (filter (\<lambda>q. po_name q \<noteq> n) (pr_list w ?r)) c w
          = (filter (\<lambda>x. ex_policy x \<noteq> n) xs, err, c', w')"
    using assms(3) v(5,6) by (intro inert_policy [OF run]) blast+
  then show ?thesis
    using policies.listing_remove(2) [OF assms(1) r2(1), of w] r2(2) res
    by (simp add: pe_execute_def split: option.splits)
qed

text \<open>C14: one run that returns gives every registered policy exactly one execution record, in the
  order of descending priority and then ascending name, publishes exactly the event of each record in
  that order, and leaves the registry alone, whatever the policies do and however \<open>evaluate\<close> and
  \<open>apply\<close> fail. The run raises only the exception of an enabled policy's \<open>enabled\<close>; the policies
  before that one, and no others, have then been recorded as events.\<close>

theorem policies_run_once_in_order:
  assumes "pr_ok (pe_registry e)" "pe_execute c w e = (res, c', w', e')"
  shows "pe_registry e' = pe_registry e
    \<and> sorted (map (\<lambda>p. (- po_priority p w, po_name p)) (pr_list w (pe_registry e)))
    \<and> (case res of
         Inr xs \<Rightarrow> map ex_policy xs = map po_name (pr_list w (pe_registry e))
           \<and> distinct (map ex_policy xs)
           \<and> set (map ex_policy xs) = fst ` set (pr_policies (pe_registry e))
           \<and> pe_events e' = pe_events e @ map event_of xs
       | Inl x \<Rightarrow> \<exists>xs before p after. pr_list w (pe_registry e) = before @ p # after
           \<and> map ex_policy xs = map po_name before
           \<and> pe_events e' = pe_events e @ map event_of xs
           \<and> po_name p \<in> pr_enabled (pe_registry e) \<and> po_enabled p w' = Inl x)"
proof -
  let ?l = "pr_list w (pe_registry e)"
  obtain xs err where run: "run_policies (pe_registry e) ?l c w = (xs, err, c', w')"
    and res: "res = (case err of None \<Rightarrow> Inr xs | Some x \<Rightarrow> Inl x)"
    and e': "e' = e\<lparr>pe_events := pe_events e @ map event_of xs\<rparr>"
    using assms(2) by (auto simp: pe_execute_def split: prod.splits)
  note names = run_policies_names [OF run]
  have "set (map po_name ?l) = fst ` set (pr_policies (pe_registry e))"
    using policies.listing_keys(2) [OF assms(1), of w]
    by (simp add: pr_view_def dom_map_of_conv_image_fst)
  moreover have "distinct (map po_name ?l)"
    by (rule policies.listing_keys(1) [OF assms(1)])
  moreover have "sorted (map (\<lambda>p. (- po_priority p w, po_name p)) ?l)"
    using policies.listing_order [OF assms(1), of w] unfolding rank_def [abs_def] by blast
  ultimately show ?thesis
    using names res e' by (cases err) auto
qed

definition sample_policies :: "(nat, adapters) policy_engine" where
  "sample_policies = \<lparr>pe_registry =
     \<lparr>pr_policies = [(''cache'', cache_adapter 1 (10::nat)), (''breaker'', breaker_adapter 1 11),
                     (''retry'', retry_adapter ''retry'' 5 12)],
      pr_enabled = {''cache'', ''breaker'', ''retry''}\<rparr>, pe_events = []\<rparr>"

definition sample_context :: "nat policy_context" where
  "sample_context = \<lparr>px_stage = BEFORE_REQUEST, px_data = []\<rparr>"

lemma sample_policies_ok: "pr_ok (pe_registry sample_policies)"
  by (simp add: sample_policies_def pr_ok_def keyed_def cache_adapter_def breaker_adapter_def
      compat_adapter_def retry_adapter_def)

lemma policies_run_once_in_order_witness:
  "case pe_execute sample_context {} sample_policies of
     (Inl x, c', w', e') \<Rightarrow> False
   | (Inr xs, c', w', e') \<Rightarrow>
       map ex_policy xs = [''retry'', ''breaker'', ''cache''] \<and> pe_events e' = map event_of xs"
proof -
  obtain res c' w' e' where e: "pe_execute sample_context {} sample_policies = (res, c', w', e')"
    by (metis prod_cases4)
  have l: "pr_list {} (pe_registry sample_policies) =
      [retry_adapter ''retry'' 5 12, breaker_adapter 1 11, cache_adapter 1 10]"
    by (simp add: sample_policies_def pr_list_def rank_def cache_adapter_def breaker_adapter_def
        compat_adapter_def retry_adapter_def less_eq_char_def insort_key_def)
  have names: "map po_name (pr_list {} (pe_registry sample_policies)) = [''retry'', ''breaker'', ''cache'']"
    unfolding l by (simp add: retry_adapter_def breaker_adapter_def cache_adapter_def compat_adapter_def)
  have "\<exists>b. po_enabled p off = Inr b" if "p \<in> set (pr_list {} (pe_registry sample_policies))" for p off
    using that unfolding l
    by (auto simp: retry_adapter_def breaker_adapter_def cache_adapter_def compat_adapter_def)
  then have "po_enabled p off \<noteq> Inl x" if "pr_list {} (pe_registry sample_policies) = b @ p # a" for p off x a b
    using that by (metis Inl_Inr_False in_set_conv_decomp)
  moreover have "pe_events sample_policies = []" by (simp add: sample_policies_def)
  moreover note policies_run_once_in_order [OF sample_policies_ok e]
  ultimately show ?thesis unfolding e by (cases res) (auto simp: names)
qed

lemma unregister_disabled: "pm_disable n e = Inr e1 \<Longrightarrow> pm_unregister n e1 = pm_unregister n e"
  by (auto simp: pm_disable_def pm_lift_def pr_disable_def pm_unregister_def pr_unregister_def
      split: option.splits sum.splits)

text \<open>Disabling a policy is, for everyone else, the same as unregistering it: the run leaves the
  same context and the same state, the other policies have the same records, and the disabled policy
  is recorded as skipped without being evaluated.\<close>

theorem disabled_policy_is_skipped:
  assumes "pr_ok (pe_registry e)" "pm_disable n e = Inr e1" "pm_unregister n e = Inr (p, e2)"
    and "pe_execute c w e1 = (res, c', w', e1')"
  shows "\<exists>e2'. pe_execute c w e2 = (map_sum id (filter (\<lambda>x. ex_policy x \<noteq> n)) res, c', w', e2')
    \<and> (\<forall>xs. res = Inr xs \<longrightarrow>
         (\<forall>x \<in> set xs. ex_policy x = n \<longrightarrow> ex_outcome x = Skipped \<and> ex_reason x = ''disabled''))"
proof -
  let ?r = "pe_registry e1"
  obtain r1 where r1: "pr_disable n (pe_registry e) = Inr r1" "e1 = e\<lparr>pe_registry := r1\<rparr>"
    using assms(2) by (auto simp: pm_disable_def pm_lift_def split: sum.splits)
  have ok: "pr_ok ?r"
    using pr_disable_ok [OF assms(1) r1(1)] r1(2) by simp
  have off: "n \<notin> pr_enabled ?r"
    using r1 by (auto simp: pr_disable_def split: sum.splits)
  have un: "pm_unregister n e1 = Inr (p, e2)"
    using assms(3) by (simp add: unregister_disabled [OF assms(2)])
  have name: "po_name p = n"
    using policies.view_key [OF assms(1), of n p] assms(3)
    by (auto simp: pm_unregister_def pr_unregister_def pr_view_def split: option.splits)
  have skip: "run_policy ?r q c w =
      (Inr \<lparr>ex_policy = n, ex_stage = px_stage c, ex_outcome = Skipped, ex_reason = ''disabled''\<rparr>,
       c, w)" if "po_name q = n" for q c w
    using off that by (simp add: run_policy_def)
  have "\<exists>x. run_policy ?r p c w = (Inr x, c, w)" for c w
    by (simp add: skip name)
  from execute_inert [OF ok un this assms(4)]
  obtain e2' where e2':
    "pe_execute c w e2 = (map_sum id (filter (\<lambda>x. ex_policy x \<noteq> n)) res, c', w', e2')" ..
  have "ex_outcome x = Skipped \<and> ex_reason x = ''disabled''"
    if x: "res = Inr xs" "x \<in> set xs" "ex_policy x = n" for x xs
  proof -
    have run: "run_policies ?r (pr_list w ?r) c w = (xs, None, c', w')"
      using assms(4) x(1) by (auto simp: pe_execute_def split: prod.splits option.splits)
    obtain q c0 w0 where q: "fst (run_policy ?r q c0 w0) = Inr x"
      using run_policies_records [OF run x(2)] by blast
    then have "po_name q = n"
      using x(3) by (cases "run_policy ?r q c0 w0") auto
    with q skip show ?thesis by force
  qed
  with e2' show ?thesis by blast
qed

lemma disabled_policy_is_skipped_witness:
  "\<exists>e1 e2 p e2'. pm_disable ''breaker'' sample_policies = Inr e1
    \<and> pm_unregister ''breaker'' sample_policies = Inr (p, e2)
    \<and> (case pe_execute sample_context {} e1 of (res, c', w', _) \<Rightarrow>
         pe_execute sample_context {} e2 =
           (map_sum id (filter (\<lambda>x. ex_policy x \<noteq> ''breaker'')) res, c', w', e2'))"
proof -
  obtain e1 where e1: "pm_disable ''breaker'' sample_policies = Inr e1"
    by (simp add: sample_policies_def pm_disable_def pm_lift_def pr_disable_def pr_get_def
        dict_lookup_def)
  obtain p e2 where e2: "pm_unregister ''breaker'' sample_policies = Inr (p, e2)"
    by (simp add: sample_policies_def pm_unregister_def pr_unregister_def)
  obtain xs c' w' e' where x: "pe_execute sample_context {} e1 = (xs, c', w', e')"
    by (metis prod_cases4)
  from disabled_policy_is_skipped [OF sample_policies_ok e1 e2 x] obtain e2' where
    "pe_execute sample_context {} e2 =
       (map_sum id (filter (\<lambda>x. ex_policy x \<noteq> ''breaker'')) xs, c', w', e2')"
    by blast
  with e1 e2 x show ?thesis by auto
qed

text \<open>How a policy raises when the engine reaches it in the context \<open>c\<close> and the state \<open>w\<close>: in
  \<open>evaluate\<close>, or in \<open>apply\<close> after \<open>evaluate\<close> has allowed it; with the context and state it leaves.\<close>

definition policy_raises ::
  "('o, 'w) policy \<Rightarrow> 'o policy_context \<Rightarrow> 'w \<Rightarrow> (string \<times> 'o policy_context \<times> 'w) option" where
  "policy_raises p c w =
     (case po_evaluate p c w of
        (Inl x, c1, w1) \<Rightarrow> Some (x, c1, w1)
      | (Inr d, c1, w1) \<Rightarrow>
          if \<not> pd_allowed d then None
          else (case po_apply p c1 w1 of
                  (Inl x, c2, w2) \<Rightarrow> Some (x, c2, w2) | (Inr _, c2, w2) \<Rightarrow> None))"

lemma run_policy_raises:
  assumes "po_name p \<in> pr_enabled r" "po_enabled p w = Inr True"
    and "policy_raises p c w = Some (x, c', w')"
  shows "run_policy r p c w =
    (Inr \<lparr>ex_policy = po_name p, ex_stage = px_stage c', ex_outcome = Failed, ex_reason = x\<rparr>, c', w')"
  using assms
  by (auto simp: run_policy_def policy_raises_def Let_def split: prod.splits sum.splits if_splits)

text \<open>C15: a policy that raises, in \<open>evaluate\<close> or in \<open>apply\<close>, and whatever it has changed before, is
  isolated. The engine reaches it with the records, the context and the state of the policies before
  it, as an engine without it does; it is recorded as failed with the exception's name, and the
  policies after it run, as they do without it, but from the context and the state that it left. So
  where it has changed nothing, the records of the others, the context and the state are those of a
  run without it.\<close>

theorem failing_policy_is_isolated:
  assumes "pr_ok (pe_registry e)" "pm_unregister n e = Inr (p, e2)" "n \<in> pr_enabled (pe_registry e)"
    and "pr_list w (pe_registry e) = before @ p # after"
    and "run_policies (pe_registry e) before c w = (xs, None, c1, w1)"
    and "po_enabled p w1 = Inr True" "policy_raises p c1 w1 = Some (x, c2, w2)"
  shows "\<exists>y. ex_policy y = n \<and> ex_outcome y = Failed \<and> ex_reason y = x
    \<and> (case run_policies (pe_registry e) after c2 w2 of (ys, err, c', w') \<Rightarrow>
         \<exists>e'. pe_execute c w e =
           (case err of None \<Rightarrow> Inr (xs @ y # ys) | Some z \<Rightarrow> Inl z, c', w', e')
         \<and> pe_events e' = pe_events e @ map event_of (xs @ y # ys))
    \<and> (case run_policies (pe_registry e) after c1 w1 of (ys, err, c', w') \<Rightarrow>
         \<exists>e2'. pe_execute c w e2 =
           (case err of None \<Rightarrow> Inr (xs @ ys) | Some z \<Rightarrow> Inl z, c', w', e2')
         \<and> pe_events e2' = pe_events e @ map event_of (xs @ ys))"
proof -
  let ?r = "pe_registry e"
  define y where "y = \<lparr>ex_policy = n, ex_stage = px_stage c2, ex_outcome = Failed, ex_reason = x\<rparr>"
  obtain r2 where r2: "pr_unregister n ?r = Inr (p, r2)" "e2 = e\<lparr>pe_registry := r2\<rparr>"
    using assms(2) by (auto simp: pm_unregister_def split: sum.splits)
  note v = unregistered_view [OF assms(1) r2(1)]
  have "run_policy ?r p c1 w1 = (Inr y, c2, w2)"
    using run_policy_raises [OF _ assms(6,7)] assms(3) v(3) by (simp add: y_def)
  then have withp: "run_policies ?r (pr_list w ?r) c w =
      (case run_policies ?r after c2 w2 of (ys, err, c', w') \<Rightarrow> (xs @ y # ys, err, c', w'))"
    unfolding assms(4) run_policies_append [OF assms(5)] by (simp split: prod.splits)
  have "distinct (map po_name (pr_list w ?r))"
    by (rule policies.listing_keys(1) [OF assms(1)])
  then have others: "q \<in> set (before @ after) \<Longrightarrow> po_name q \<noteq> n" for q
    unfolding assms(4) using v(3) by (auto simp: image_iff)
  then have "pr_list w r2 = before @ after"
    using policies.listing_remove(2) [OF assms(1) r2(1), of w] assms(4) v(3)
    by (auto simp: filter_id_conv)
  moreover have "run_policies r2 (before @ after) c w = run_policies ?r (before @ after) c w"
    using others v(6) by (intro run_policies_cong) blast
  ultimately have without: "run_policies r2 (pr_list w r2) c w =
      (case run_policies ?r after c1 w1 of (ys, err, c', w') \<Rightarrow> (xs @ ys, err, c', w'))"
    by (simp add: run_policies_append [OF assms(5)])
  have y: "ex_policy y = n" "ex_outcome y = Failed" "ex_reason y = x" by (simp_all add: y_def)
  have failed: "case run_policies ?r after c2 w2 of (ys, err, c', w') \<Rightarrow>
      \<exists>e'. pe_execute c w e = (case err of None \<Rightarrow> Inr (xs @ y # ys) | Some z \<Rightarrow> Inl z, c', w', e')
      \<and> pe_events e' = pe_events e @ map event_of (xs @ y # ys)"
    by (auto simp: pe_execute_def withp split: prod.splits)
  have unaffected: "case run_policies ?r after c1 w1 of (ys, err, c', w') \<Rightarrow>
      \<exists>e2'. pe_execute c w e2 = (case err of None \<Rightarrow> Inr (xs @ ys) | Some z \<Rightarrow> Inl z, c', w', e2')
      \<and> pe_events e2' = pe_events e @ map event_of (xs @ ys)"
    by (auto simp: pe_execute_def without r2(2) split: prod.splits)
  show ?thesis by (intro exI [of _ y] conjI y failed unaffected)
qed

definition raising_policy :: "(nat, adapters) policy" where
  "raising_policy = (routing_adapter 3 0)\<lparr>
     po_apply := (\<lambda>c w. (Inl ''ValueError'', c\<lparr>px_data := []\<rparr>, w))\<rparr>"

definition failing_policies :: "(nat, adapters) policy_engine" where
  "failing_policies = sample_policies\<lparr>pe_registry :=
     \<lparr>pr_policies = (''routing'', raising_policy) # pr_policies (pe_registry sample_policies),
      pr_enabled = insert ''routing'' (pr_enabled (pe_registry sample_policies))\<rparr>\<rparr>"

lemma failing_policies_list:
  "pr_list {} (pe_registry failing_policies) =
     [retry_adapter ''retry'' 5 12] @ raising_policy # [breaker_adapter 1 11, cache_adapter 1 10]"
  by (simp add: failing_policies_def sample_policies_def pr_list_def rank_def raising_policy_def
      routing_adapter_def cache_adapter_def breaker_adapter_def compat_adapter_def retry_adapter_def
      less_eq_char_def insort_key_def)

lemma failing_policy_is_isolated_witness:
  "case pe_execute sample_context {} failing_policies of
     (Inl x, _, _, _) \<Rightarrow> False
   | (Inr xs, _, _, _) \<Rightarrow> \<exists>y \<in> set xs. ex_policy y = ''routing'' \<and> ex_reason y = ''ValueError''"
proof -
  have ok: "pr_ok (pe_registry failing_policies)"
    using sample_policies_ok
    by (auto simp: failing_policies_def pr_ok_def keyed_def raising_policy_def routing_adapter_def
        compat_adapter_def sample_policies_def)
  have on: "''routing'' \<in> pr_enabled (pe_registry failing_policies)"
    by (simp add: failing_policies_def)
  obtain e2 where e2: "pm_unregister ''routing'' failing_policies = Inr (raising_policy, e2)"
    by (simp add: failing_policies_def pm_unregister_def pr_unregister_def)
  define c1 where "c1 = sample_context\<lparr>px_data := [(''retry_manager'', Data_Object 12)]\<rparr>"
  define y0 where "y0 = \<lparr>ex_policy = ''retry'', ex_stage = BEFORE_REQUEST, ex_outcome = Executed,
    ex_reason = ''accepted''\<rparr>"
  have before: "run_policies (pe_registry failing_policies) [retry_adapter ''retry'' 5 12]
      sample_context {} = ([y0], None, c1, {})"
    by (simp add: run_policy_def retry_adapter_def failing_policies_def sample_policies_def
        accept_def sample_context_def c1_def y0_def)
  have raises: "po_enabled raising_policy {} = Inr True"
    "policy_raises raising_policy c1 {} = Some (''ValueError'', c1\<lparr>px_data := []\<rparr>, {})"
    by (simp_all add: raising_policy_def policy_raises_def routing_adapter_def compat_adapter_def
        accept_def)
  obtain ys c' w' where later: "run_policies (pe_registry failing_policies)
      [breaker_adapter 1 11, cache_adapter 1 10] (c1\<lparr>px_data := []\<rparr>) {} = (ys, None, c', w')"
    by (simp add: run_policy_def breaker_adapter_def cache_adapter_def compat_adapter_def
        failing_policies_def sample_policies_def accept_def Let_def)
  from failing_policy_is_isolated [OF ok e2 on failing_policies_list before raises, unfolded later]
  obtain y e' where "ex_policy y = ''routing''" "ex_reason y = ''ValueError''"
    "pe_execute sample_context {} failing_policies = (Inr ([y0] @ y # ys), c', w', e')" by auto
  then show ?thesis by simp
qed

text \<open>A policy whose \<open>enabled\<close> raises is not isolated: \<open>register\<close> raises but keeps it registered, and
  once it is enabled by name every run ends at it, so the policies after it are not run.\<close>

definition broken_policy :: "(nat, adapters) policy" where
  "broken_policy = (routing_adapter 3 0)\<lparr>po_enabled := (\<lambda>_. Inl ''OSError'')\<rparr>"

lemma broken_enabled_ends_run:
  "fst (pm_register broken_policy {} sample_policies) = Inl (PolicyRaised ''OSError'')"
  "pr_get ''routing'' (pe_registry (snd (pm_register broken_policy {} sample_policies))) =
     Inr broken_policy"
  "case pm_enable ''routing'' (snd (pm_register broken_policy {} sample_policies)) of
     Inl _ \<Rightarrow> False
   | Inr e \<Rightarrow> (case pe_execute sample_context {} e of (res, c, w, e') \<Rightarrow>
       res = Inl ''OSError'' \<and>
       pe_events e' = [PolicyExecuted ''retry'' ''before_request'' ''accepted''])"
  by (simp_all add: broken_policy_def pm_register_def pr_register_def sample_policies_def
      routing_adapter_def cache_adapter_def breaker_adapter_def compat_adapter_def retry_adapter_def
      pr_get_def dict_lookup_def pm_enable_def pm_lift_def pr_enable_def pe_execute_def pr_list_def
      rank_def less_eq_char_def insort_key_def run_policy_def accept_def sample_context_def
      event_of_def Let_def)

subsection \<open>Adapters in a pipeline\<close>

definition is_adapter :: "('o, adapters) policy \<Rightarrow> bool" where
  "is_adapter p \<longleftrightarrow> (\<exists>n k t. p = compat_adapter n k t \<or> p = retry_adapter n k t)"

lemma adapter_off: "is_adapter p \<Longrightarrow> po_enabled p off = Inr (po_name p \<notin> off)"
  by (auto simp: is_adapter_def compat_adapter_def retry_adapter_def)

lemma adapter_shutdown: "is_adapter p \<Longrightarrow> po_shutdown p off = (Inr (), insert (po_name p) off)"
  by (auto simp: is_adapter_def compat_adapter_def retry_adapter_def)

lemma shutdown_adapters:
  "(\<And>p. p \<in> set ps \<Longrightarrow> is_adapter p) \<Longrightarrow> shutdown_policies ps off = ([], off \<union> po_name ` set ps)"
  by (induction ps arbitrary: off) (auto simp: adapter_shutdown)

lemma run_policies_all_off:
  assumes "\<And>p w. p \<in> set ps \<Longrightarrow> po_enabled p off = Inr False"
  shows "run_policies r ps c off =
    (map (\<lambda>p. \<lparr>ex_policy = po_name p, ex_stage = px_stage c, ex_outcome = Skipped,
                ex_reason = ''disabled''\<rparr>) ps, None, c, off)"
  using assms
proof (induction ps)
  case (Cons p ps)
  then have "po_enabled p off = Inr False" by simp
  then have "run_policy r p c off = (Inr \<lparr>ex_policy = po_name p, ex_stage = px_stage c,
      ex_outcome = Skipped, ex_reason = ''disabled''\<rparr>, c, off)"
    by (simp add: run_policy_def Let_def)
  with Cons show ?case by simp
qed simp

text \<open>After \<open>shutdown\<close> no adapter takes part in a pipeline any more: \<open>shutdown\<close> publishes no
  failure and keeps the registry, and every later run of any stage on any data returns the context
  it was given, with one skipped record for every registered policy. A second \<open>shutdown\<close> changes
  nothing.\<close>

theorem shutdown_silences_adapters:
  assumes "pr_ok (pe_registry e)" "\<And>p. p \<in> ran (map_of (pr_policies (pe_registry e))) \<Longrightarrow> is_adapter p"
    and "pe_shutdown off e = (off', e')"
    and "pl_run stage data off' e' = (res, off'', e'')"
  shows "e' = e \<and> (\<exists>c xs. res = Inr (c, xs)
    \<and> c = \<lparr>px_stage = stage, px_data = (case data of None \<Rightarrow> [] | Some d \<Rightarrow> d)\<rparr> \<and> off'' = off'
    \<and> (\<forall>x \<in> set xs. ex_outcome x = Skipped \<and> ex_reason x = ''disabled'')
    \<and> set (map ex_policy xs) = dom (map_of (pr_policies (pe_registry e))))
    \<and> pe_shutdown off' e' = (off', e')"
proof -
  let ?r = "pe_registry e"
  have ad: "is_adapter p" if "p \<in> set (pr_list w ?r)" for p w
    using that assms(2) policies.listing_set [OF assms(1), of w] by (auto simp: pr_view_def)
  have names: "po_name ` set (pr_list w ?r) = dom (map_of (pr_policies ?r))" for w
    using policies.listing_keys(2) [OF assms(1), of w] by (simp add: pr_view_def)
  have down: "pe_shutdown w e = (w \<union> dom (map_of (pr_policies ?r)), e)" for w
    using ad [of _ w] names [of w] by (simp add: pe_shutdown_def shutdown_adapters)
  with assms(3) have off': "off' = off \<union> dom (map_of (pr_policies ?r))" "e' = e"
    by (metis Pair_inject)+
  have "po_enabled p off' = Inr False" if "p \<in> set (pr_list off' ?r)" for p
    using that ad [OF that] names [of off'] off'(1) by (auto simp: adapter_off)
  then have run: "run_policies ?r (pr_list off' ?r) c0 off' =
      (map (\<lambda>p. \<lparr>ex_policy = po_name p, ex_stage = px_stage c0, ex_outcome = Skipped,
                  ex_reason = ''disabled''\<rparr>) (pr_list off' ?r), None, c0, off')" for c0
    by (rule run_policies_all_off)
  define c where "c = \<lparr>px_stage = stage, px_data = (case data of None \<Rightarrow> [] | Some d \<Rightarrow> d)\<rparr>"
  define xs where "xs = map (\<lambda>p. \<lparr>ex_policy = po_name p, ex_stage = px_stage c, ex_outcome = Skipped,
                       ex_reason = ''disabled''\<rparr>) (pr_list off' ?r)"
  have res: "res = Inr (c, xs)" "off'' = off'"
    using assms(4) by (auto simp: pl_run_def pe_execute_def off'(2) run c_def xs_def)
  have "set (map ex_policy xs) = dom (map_of (pr_policies ?r))"
    using names [of off'] by (simp add: xs_def image_image)
  moreover have "\<forall>x \<in> set xs. ex_outcome x = Skipped \<and> ex_reason x = ''disabled''"
    by (simp add: xs_def)
  moreover have "pe_shutdown off' e' = (off', e')"
    using down [of off'] off' by auto
  ultimately show ?thesis
    using res off'(2) unfolding c_def by blast
qed

lemma shutdown_silences_adapters_witness:
  "case pe_shutdown {} sample_policies of (off', e') \<Rightarrow>
   case pl_run AFTER_RESPONSE None off' e' of (Inl x, _, _) \<Rightarrow> False | (Inr (c, xs), _, _) \<Rightarrow>
     c = \<lparr>px_stage = AFTER_RESPONSE, px_data = []\<rparr>
     \<and> set (map ex_policy xs) = {''cache'', ''breaker'', ''retry''}"
proof -
  have ad: "is_adapter p" if "p \<in> ran (map_of (pr_policies (pe_registry sample_policies)))" for p
    using that by (auto simp: sample_policies_def is_adapter_def cache_adapter_def
        breaker_adapter_def ran_def split: if_splits)
  obtain off' e' where s: "pe_shutdown {} sample_policies = (off', e')"
    by fastforce
  obtain res w e'' where r: "pl_run AFTER_RESPONSE None off' e' = (res, w, e'')"
    by (metis prod_cases3)
  have "dom (map_of (pr_policies (pe_registry sample_policies))) = {''cache'', ''breaker'', ''retry''}"
    by (auto simp: sample_policies_def)
  with shutdown_silences_adapters [OF sample_policies_ok ad s r] obtain c xs where
    "res = Inr (c, xs)" "c = \<lparr>px_stage = AFTER_RESPONSE, px_data = []\<rparr>"
    "set (map ex_policy xs) = {''cache'', ''breaker'', ''retry''}" by (auto simp del: set_map)
  with s r show ?thesis by simp
qed

end
