(* ===== verification/Scheduler.thy ===== *)
theory Scheduler
  imports Circuit_Breaker Health Py_Float
begin

text \<open>
  The runtime scheduler (\<open>src/src/tkai/runtime_scheduler.py\<close>): registered providers with their
  statistics and one circuit breaker each, and the selection by an explicit policy. Admission asks
  the breakers, which may become half open; each reads its clock, so the clock is a function of the
  provider. Two NaN are taken for one object, as
  in the comparison of tuples. Telemetry is not modelled.
\<close>

subsection \<open>State\<close>

datatype scheduling_policy =
    ROUND_ROBIN | WEIGHTED_ROUND_ROBIN | LEAST_LATENCY | LEAST_ERROR | LOWEST_COST | HIGHEST_SCORE
  | STICKY_SESSION | ADAPTIVE

datatype scheduler_error =
    Sched_ValueError string
  | Sched_KeyError string
  | Sched_ZeroDivisionError
  | Sched_OverflowError
  | Sched_Breaker cb_error

record provider_state =
  sp_provider :: string
  sp_latency :: pyfloat
  sp_successes :: int
  sp_failures :: int
  sp_cost :: pyfloat
  sp_priority :: int
  sp_weight :: int
  sp_health :: health_status

record provider_score =
  sr_provider :: string
  sr_health :: pyfloat
  sr_latency :: pyfloat
  sr_success_rate :: pyfloat
  sr_error_rate :: pyfloat
  sr_cost :: pyfloat
  sr_priority :: int
  sr_total :: pyfloat
  sr_breaker :: circuit_state

record scheduling_decision =
  sd_provider :: "string option"
  sd_policy :: scheduling_policy
  sd_candidates :: "string list"
  sd_scores :: "provider_score list"
  sd_reason :: string

record scheduler =
  sh_states :: "(string, provider_state) dict"
  sh_breakers :: cb_registry
  sh_sticky :: "(string, string) dict"
  sh_cursor :: int
  sh_strategy :: cb_strategy

definition new_scheduler :: "int \<Rightarrow> pyfloat \<Rightarrow> scheduler_error + scheduler" where
  "new_scheduler failures timeout =
     (if py_lt timeout (Fin 0) then Inl (Sched_ValueError ''recovery_timeout_seconds must not be negative.'')
      else case timedelta_of timeout of
             Inl Delta_NaN \<Rightarrow> Inl (Sched_ValueError ''cannot convert float NaN to integer'')
           | Inl Delta_Overflow \<Rightarrow> Inl Sched_OverflowError
           | Inr d \<Rightarrow>
               (case mk_threshold failures d (half_open_success_threshold default_threshold) of
                  Inl e \<Rightarrow> Inl (Sched_Breaker e)
                | Inr th \<Rightarrow> Inr \<lparr>sh_states = [], sh_breakers = [], sh_sticky = [], sh_cursor = 0,
                                  sh_strategy = threshold_strategy th\<rparr>))"

definition sh_register ::
  "string \<Rightarrow> pyfloat \<Rightarrow> pyfloat \<Rightarrow> int \<Rightarrow> int \<Rightarrow> health_status \<Rightarrow> scheduler \<Rightarrow> scheduler_error + scheduler" where
  "sh_register p latency cost priority weight health s =
     (if p = '''' \<or> py_lt latency (Fin 0) \<or> py_lt cost (Fin 0) \<or> weight < 1
      then Inl (Sched_ValueError ''Invalid scheduler provider configuration.'')
      else case new_breaker p (sh_strategy s) of
             Inl e \<Rightarrow> Inl (Sched_Breaker e)
           | Inr b \<Rightarrow> Inr (s\<lparr>sh_states := AList.update p
                 \<lparr>sp_provider = p, sp_latency = latency, sp_successes = 0, sp_failures = 0, sp_cost = cost,
                  sp_priority = priority, sp_weight = weight, sp_health = health\<rparr> (sh_states s),
               sh_breakers := AList.update p b (sh_breakers s)\<rparr>))"

definition sh_record_result ::
  "string \<Rightarrow> bool \<Rightarrow> pyfloat option \<Rightarrow> time \<Rightarrow> scheduler \<Rightarrow> scheduler_error + scheduler" where
  "sh_record_result p success latency now s =
     (case (map_of (sh_states s) p, map_of (sh_breakers s) p) of
        (Some st, Some b) \<Rightarrow>
          Inr (s\<lparr>sh_states := AList.update p
                   (st\<lparr>sp_successes := sp_successes st + of_bool success,
                       sp_failures := sp_failures st + of_bool (\<not> success),
                       sp_latency := (case latency of None \<Rightarrow> sp_latency st | Some l \<Rightarrow> l)\<rparr>) (sh_states s),
                 sh_breakers := AList.update p
                   (if success then record_success now b else record_failure now None b) (sh_breakers s)\<rparr>)
      | _ \<Rightarrow> Inl (Sched_KeyError p))"

subsection \<open>Scores\<close>

definition total_results :: "provider_state \<Rightarrow> int" where
  "total_results st = sp_successes st + sp_failures st"

definition ratio :: "int \<Rightarrow> int \<Rightarrow> pyfloat \<Rightarrow> scheduler_error + pyfloat" where
  "ratio a n dflt =
     (if n = 0 then Inr dflt
      else case py_int_div a n of None \<Rightarrow> Inl Sched_ZeroDivisionError | Some x \<Rightarrow> Inr x)"

definition error_rate :: "provider_state \<Rightarrow> scheduler_error + pyfloat" where
  "error_rate st = ratio (sp_failures st) (total_results st) (Fin 0)"

definition inverse_of :: "pyfloat \<Rightarrow> scheduler_error + pyfloat" where
  "inverse_of x =
     (case py_div (Fin 1) (py_add (Fin 1) x) of None \<Rightarrow> Inl Sched_ZeroDivisionError | Some y \<Rightarrow> Inr y)"

definition priority_score :: "int \<Rightarrow> scheduler_error + pyfloat" where
  "priority_score n =
     (case py_float_of_int n of
        None \<Rightarrow> Inl Sched_OverflowError
      | Some x \<Rightarrow> (case py_div x (Fin 100) of None \<Rightarrow> Inl Sched_ZeroDivisionError | Some y \<Rightarrow> Inr y))"

definition score :: "cb_registry \<Rightarrow> provider_state \<Rightarrow> scheduler_error + provider_score" where
  "score bs st =
     (case ratio (sp_successes st) (total_results st) (Fin 1) of Inl e \<Rightarrow> Inl e | Inr success \<Rightarrow>
      case error_rate st of Inl e \<Rightarrow> Inl e | Inr failure \<Rightarrow>
      case inverse_of (sp_latency st) of Inl e \<Rightarrow> Inl e | Inr latency \<Rightarrow>
      case inverse_of (sp_cost st) of Inl e \<Rightarrow> Inl e | Inr cost \<Rightarrow>
      case priority_score (sp_priority st) of Inl e \<Rightarrow> Inl e | Inr priority \<Rightarrow>
      case map_of bs (sp_provider st) of None \<Rightarrow> Inl (Sched_KeyError (sp_provider st)) | Some b \<Rightarrow>
        let health = (if sp_health st = HS_HEALTHY then Fin 1 else Fin (1 / 2)) in
        Inr \<lparr>sr_provider = sp_provider st, sr_health = health, sr_latency = latency,
             sr_success_rate = success, sr_error_rate = failure, sr_cost = cost,
             sr_priority = sp_priority st,
             sr_total = py_add (py_add (py_sub (py_add (py_add health latency) success) failure) cost) priority,
             sr_breaker = cs_state (br_snapshot b)\<rparr>)"

fun scores :: "cb_registry \<Rightarrow> provider_state list \<Rightarrow> scheduler_error + provider_score list" where
  "scores bs [] = Inr []"
| "scores bs (st # sts) =
     (case score bs st of
        Inl e \<Rightarrow> Inl e
      | Inr r \<Rightarrow> (case scores bs sts of Inl e \<Rightarrow> Inl e | Inr rs \<Rightarrow> Inr (r # rs)))"

subsection \<open>Selection\<close>

text \<open>The providers that may be used, in the order of registration: the breakers are asked one by one,
  and an exception of a breaker ends the schedule.\<close>

fun admitted ::
  "(string \<Rightarrow> time) \<Rightarrow> provider_state list \<Rightarrow> cb_registry \<Rightarrow> (scheduler_error + provider_state list) \<times> cb_registry" where
  "admitted clock [] bs = (Inr [], bs)"
| "admitted clock (st # sts) bs =
     (if sp_health st = HS_UNHEALTHY then admitted clock sts bs
      else case map_of bs (sp_provider st) of
        None \<Rightarrow> (Inl (Sched_KeyError (sp_provider st)), bs)
      | Some b \<Rightarrow>
          (case allow_request (clock (sp_provider st)) b of
             (Inl e, b') \<Rightarrow> (Inl (Sched_Breaker e), AList.update (sp_provider st) b' bs)
           | (Inr ok, b') \<Rightarrow>
               (case admitted clock sts (AList.update (sp_provider st) b' bs) of
                  (Inl e, bs') \<Rightarrow> (Inl e, bs')
                | (Inr l, bs') \<Rightarrow> (Inr (if ok then st # l else l), bs'))))"

definition rank_less :: "pyfloat \<times> string \<Rightarrow> pyfloat \<times> string \<Rightarrow> bool" where
  "rank_less a b = (if fst a \<noteq> fst b then py_lt (fst a) (fst b) else snd a < snd b)"

definition first_least :: "('a \<Rightarrow> pyfloat \<times> string) \<Rightarrow> 'a \<Rightarrow> 'a list \<Rightarrow> 'a" where
  "first_least key = foldl (\<lambda>best x. if rank_less (key x) (key best) then x else best)"

definition first_greatest :: "('a \<Rightarrow> pyfloat \<times> string) \<Rightarrow> 'a \<Rightarrow> 'a list \<Rightarrow> 'a" where
  "first_greatest key = foldl (\<lambda>best x. if rank_less (key best) (key x) then x else best)"

definition expanded :: "provider_state list \<Rightarrow> provider_state list" where
  "expanded sts = concat (map (\<lambda>st. replicate (nat (sp_weight st)) st) sts)"

definition turn :: "int \<Rightarrow> provider_state list \<Rightarrow> string" where
  "turn cursor sts = sp_provider (sts ! nat (cursor mod int (length sts)))"

definition sh_select ::
  "scheduling_policy \<Rightarrow> provider_state list \<Rightarrow> provider_score list \<Rightarrow> string option \<Rightarrow> scheduler \<Rightarrow>
     string option \<times> scheduler" where
  "sh_select policy sts rs session s =
     (if sts = [] then (None, s)
      else
        let sid = str_or session '''';
            kept = map_of (sh_sticky s) sid
        in if policy = STICKY_SESSION \<and> sid \<noteq> '''' \<and> (case kept of None \<Rightarrow> False | Some p \<Rightarrow> p \<in> sp_provider ` set sts)
           then (kept, s)
           else
             let (selected, s1) =
               (case policy of
                  ROUND_ROBIN \<Rightarrow> (turn (sh_cursor s) sts, s\<lparr>sh_cursor := sh_cursor s + 1\<rparr>)
                | WEIGHTED_ROUND_ROBIN \<Rightarrow> (turn (sh_cursor s) (expanded sts), s\<lparr>sh_cursor := sh_cursor s + 1\<rparr>)
                | LEAST_LATENCY \<Rightarrow>
                    (sp_provider (first_least (\<lambda>st. (sp_latency st, sp_provider st)) (hd sts) (tl sts)), s)
                | LEAST_ERROR \<Rightarrow>
                    (sp_provider (first_least (\<lambda>st. (projr (error_rate st), sp_provider st)) (hd sts) (tl sts)), s)
                | LOWEST_COST \<Rightarrow>
                    (sp_provider (first_least (\<lambda>st. (sp_cost st, sp_provider st)) (hd sts) (tl sts)), s)
                | _ \<Rightarrow>
                    (sr_provider (first_greatest (\<lambda>r. (sr_total r, sr_provider r)) (hd rs) (tl rs)), s))
             in (Some selected,
                 if policy = STICKY_SESSION \<and> sid \<noteq> ''''
                 then s1\<lparr>sh_sticky := AList.update sid selected (sh_sticky s1)\<rparr> else s1))"

definition sh_schedule ::
  "(string \<Rightarrow> time) \<Rightarrow> scheduling_policy \<Rightarrow> string option \<Rightarrow> scheduler \<Rightarrow>
     (scheduler_error + scheduling_decision) \<times> scheduler" where
  "sh_schedule clock policy session s =
     (case admitted clock (map snd (sh_states s)) (sh_breakers s) of
        (Inl e, bs) \<Rightarrow> (Inl e, s\<lparr>sh_breakers := bs\<rparr>)
      | (Inr l, bs) \<Rightarrow>
          let sts = sort_key sp_provider l; s1 = s\<lparr>sh_breakers := bs\<rparr> in
          case scores bs sts of
            Inl e \<Rightarrow> (Inl e, s1)
          | Inr rs \<Rightarrow>
              let (p, s2) = sh_select policy sts rs session s1 in
              (Inr \<lparr>sd_provider = p, sd_policy = policy, sd_candidates = map sp_provider sts, sd_scores = rs,
                    sd_reason = (if p = None then ''No eligible provider'' else ''Selected by explicit policy'')\<rparr>,
               s2))"


subsection \<open>Sequences of operations\<close>

datatype sched_op =
    Op_register string pyfloat pyfloat int int health_status
  | Op_record string bool "pyfloat option" time
  | Op_schedule "string \<Rightarrow> time" scheduling_policy "string option"

text \<open>An operation that raises leaves the state, except that a schedule has asked the breakers.\<close>

fun sh_apply :: "sched_op \<Rightarrow> scheduler \<Rightarrow> scheduler" where
  "sh_apply (Op_register p l c pr w h) s =
     (case sh_register p l c pr w h s of Inl _ \<Rightarrow> s | Inr s' \<Rightarrow> s')"
| "sh_apply (Op_record p ok l now) s = (case sh_record_result p ok l now s of Inl _ \<Rightarrow> s | Inr s' \<Rightarrow> s')"
| "sh_apply (Op_schedule clock policy session) s = snd (sh_schedule clock policy session s)"

definition sh_run :: "sched_op list \<Rightarrow> scheduler \<Rightarrow> scheduler" where
  "sh_run ops s = fold sh_apply ops s"

lemma sh_run_simps [simp]:
  "sh_run [] s = s"
  "sh_run (x # xs) s = sh_run xs (sh_apply x s)"
  by (simp_all add: sh_run_def)

subsection \<open>The invariant of the scheduler\<close>

definition sched_ok :: "scheduler \<Rightarrow> bool" where
  "sched_ok s \<longleftrightarrow>
     keyed sp_provider (sh_states s) \<and> dict_ok (sh_breakers s) \<and>
     dom (map_of (sh_breakers s)) = dom (map_of (sh_states s)) \<and>
     (\<forall>p st. map_of (sh_states s) p = Some st \<longrightarrow> 1 \<le> sp_weight st)"

definition usable :: "(string \<Rightarrow> time) \<Rightarrow> cb_registry \<Rightarrow> provider_state \<Rightarrow> bool" where
  "usable clock bs st \<longleftrightarrow>
     sp_health st \<noteq> HS_UNHEALTHY \<and>
     (case map_of bs (sp_provider st) of
        None \<Rightarrow> False | Some b \<Rightarrow> fst (allow_request (clock (sp_provider st)) b) = Inr True)"

lemma usable_update: "q \<noteq> sp_provider st \<Longrightarrow> usable clock (AList.update q b bs) st = usable clock bs st"
  by (simp add: usable_def)

lemma admitted_usable:
  assumes "distinct (map sp_provider sts)" "fst (admitted clock sts bs) = Inr l"
  shows "l = filter (usable clock bs) sts"
  using assms
proof (induction sts arbitrary: bs l)
  case (Cons st sts)
  show ?case
  proof (cases "sp_health st = HS_UNHEALTHY")
    case True
    with Cons show ?thesis by (simp add: usable_def)
  next
    case False
    with Cons.prems(2) obtain b where b: "map_of bs (sp_provider st) = Some b"
      by (auto split: option.splits)
    obtain a b' where a: "allow_request (clock (sp_provider st)) b = (a, b')" by fastforce
    with Cons.prems(2) False b obtain ok where ok: "a = Inr ok"
      by (cases a) (auto split: option.splits)
    let ?bs = "AList.update (sp_provider st) b' bs"
    obtain l' where l': "fst (admitted clock sts ?bs) = Inr l'" "l = (if ok then st # l' else l')"
      using Cons.prems(2) False b a ok
      by (auto split: option.splits prod.splits sum.splits)
    have "l' = filter (usable clock ?bs) sts"
      using Cons.prems(1) l'(1) by (intro Cons.IH) simp_all
    also have "\<dots> = filter (usable clock bs) sts"
      using Cons.prems(1) by (intro filter_cong) (auto intro!: usable_update)
    moreover have "usable clock bs st \<longleftrightarrow> ok"
      using False by (simp add: usable_def b a ok)
    ultimately show ?thesis using l'(2) by simp
  qed
qed simp

lemma admitted_not_key_error:
  assumes "sp_provider ` set sts \<subseteq> dom (map_of bs)"
  shows "fst (admitted clock sts bs) \<noteq> Inl (Sched_KeyError p)"
  using assms
proof (induction sts arbitrary: bs)
  case (Cons st sts)
  then obtain b where b: "map_of bs (sp_provider st) = Some b" by auto
  obtain a b' where a: "allow_request (clock (sp_provider st)) b = (a, b')" by fastforce
  have "fst (admitted clock sts bs) \<noteq> Inl (Sched_KeyError p)"
    "fst (admitted clock sts (AList.update (sp_provider st) b' bs)) \<noteq> Inl (Sched_KeyError p)"
    using Cons.prems by (auto intro!: Cons.IH simp del: not_None_eq)
  then show ?case
    by (auto simp: b a split: sum.split prod.split)
qed simp

lemma snd_admitted_Cons:
  "snd (admitted clock (st # sts) bs) =
     (if sp_health st = HS_UNHEALTHY then snd (admitted clock sts bs)
      else case map_of bs (sp_provider st) of None \<Rightarrow> bs
      | Some b \<Rightarrow>
          let bs' = AList.update (sp_provider st) (snd (allow_request (clock (sp_provider st)) b)) bs in
          case fst (allow_request (clock (sp_provider st)) b) of
            Inl _ \<Rightarrow> bs' | Inr _ \<Rightarrow> snd (admitted clock sts bs'))"
  by (simp split: option.split prod.split sum.split)

text \<open>Whatever asking one breaker keeps is kept by asking them all.\<close>

lemma admitted_keeps:
  assumes "\<And>p b bs. Q bs \<Longrightarrow> map_of bs p = Some b \<Longrightarrow> Q (AList.update p (snd (allow_request (clock p) b)) bs)"
    and "Q bs"
  shows "Q (snd (admitted clock sts bs))"
  using assms(2)
proof (induction sts arbitrary: bs)
  case (Cons st sts)
  then show ?case
    by (cases "map_of bs (sp_provider st)")
      (simp_all add: snd_admitted_Cons assms(1) Let_def del: admitted.simps split: sum.split)
qed simp

lemma dom_update_known: "map_of d p = Some b \<Longrightarrow> dom (map_of (AList.update p v d)) = dom (map_of d)"
  by (auto simp: dom_def)

lemma admitted_frame:
  assumes "dict_ok bs"
  shows "dict_ok (snd (admitted clock sts bs)) \<and>
    dom (map_of (snd (admitted clock sts bs))) = dom (map_of bs)"
  by (rule admitted_keeps) (use assms in \<open>simp_all add: dom_update_known del: map_of_eq_Some_iff map_of_update\<close>)



lemma sh_select_frame:
  "sh_states (snd (sh_select policy sts rs session s)) = sh_states s"
  "sh_breakers (snd (sh_select policy sts rs session s)) = sh_breakers s"
  by (auto simp: sh_select_def Let_def split: scheduling_policy.split prod.split)

lemma sh_schedule_frame:
  "sh_states (snd (sh_schedule clock policy session s)) = sh_states s"
  "sh_breakers (snd (sh_schedule clock policy session s)) =
     snd (admitted clock (map snd (sh_states s)) (sh_breakers s))"
proof -
  obtain r bs where a: "admitted clock (map snd (sh_states s)) (sh_breakers s) = (r, bs)" by fastforce
  have "sh_states (snd (sh_schedule clock policy session s)) = sh_states s \<and>
    sh_breakers (snd (sh_schedule clock policy session s)) = bs"
    by (cases r)
      (auto simp: sh_schedule_def Let_def a case_prod_unfold sh_select_frame split: sum.split)
  then show "sh_states (snd (sh_schedule clock policy session s)) = sh_states s"
    and "sh_breakers (snd (sh_schedule clock policy session s)) =
      snd (admitted clock (map snd (sh_states s)) (sh_breakers s))"
    by (simp_all add: a)
qed

lemma sh_apply_ok [inv_intros]:
  assumes "sched_ok s"
  shows "sched_ok (sh_apply op s)"
proof (cases op)
  case (Op_register p l c pr w h)
  with assms show ?thesis
    by (auto simp: sched_ok_def sh_register_def keyed_iff simp del: map_of_eq_Some_iff split: sum.split if_splits)
next
  case (Op_record p k l now)
  with assms show ?thesis
    by (auto simp: sched_ok_def sh_record_result_def keyed_iff insert_absorb domI
        simp del: map_of_eq_Some_iff split: option.split)
next
  case (Op_schedule clock policy session)
  with assms show ?thesis
    using admitted_frame [of "sh_breakers s" clock "map snd (sh_states s)"]
    by (simp add: sched_ok_def sh_schedule_frame)
qed

lemma new_scheduler_ok: "new_scheduler f t = Inr s \<Longrightarrow> sched_ok s"
  by (auto simp: new_scheduler_def sched_ok_def split: if_splits sum.splits delta_error.splits)

lemma sh_run_ok [inv_intros]: "sched_ok s \<Longrightarrow> sched_ok (sh_run ops s)"
  by (induction ops arbitrary: s) (simp_all add: sh_apply_ok)


subsection \<open>The best candidate\<close>

lemma rank_less_lex:
  "fst a \<noteq> NaN \<Longrightarrow> fst b \<noteq> NaN \<Longrightarrow>
    rank_less a b \<longleftrightarrow> fst a < fst b \<or> fst a = fst b \<and> snd a < snd b"
  by (auto simp: rank_less_def py_lt_less)

lemma first_least_best:
  assumes "\<forall>x \<in> set (b # xs). fst (key x) \<noteq> NaN"
  shows "first_least key b xs \<in> set (b # xs) \<and>
    (\<forall>x \<in> set (b # xs). \<not> rank_less (key x) (key (first_least key b xs)))"
  using assms
proof (induction xs arbitrary: b)
  case Nil
  then show ?case by (simp add: first_least_def rank_less_lex)
next
  case (Cons y ys)
  let ?c = "if rank_less (key y) (key b) then y else b"
  have eq: "first_least key b (y # ys) = first_least key ?c ys" by (simp add: first_least_def)
  have IH: "first_least key ?c ys \<in> set (?c # ys) \<and>
      (\<forall>x \<in> set (?c # ys). \<not> rank_less (key x) (key (first_least key ?c ys)))"
    using Cons.prems by (intro Cons.IH) auto
  let ?r = "first_least key ?c ys"
  have r: "fst (key ?r) \<noteq> NaN" "\<not> rank_less (key ?c) (key ?r)"
    using IH Cons.prems by (auto split: if_splits)
  have "\<not> rank_less (key x) (key ?r)" if "x = b \<or> x = y" for x
    using that r Cons.prems by (auto simp: rank_less_lex split: if_splits)
  with IH show ?case unfolding eq by (auto split: if_splits)
qed

lemma first_greatest_best:
  assumes "\<forall>x \<in> set (b # xs). fst (key x) \<noteq> NaN"
  shows "first_greatest key b xs \<in> set (b # xs) \<and>
    (\<forall>x \<in> set (b # xs). \<not> rank_less (key (first_greatest key b xs)) (key x))"
  using assms
proof (induction xs arbitrary: b)
  case Nil
  then show ?case by (simp add: first_greatest_def rank_less_lex)
next
  case (Cons y ys)
  let ?c = "if rank_less (key b) (key y) then y else b"
  have eq: "first_greatest key b (y # ys) = first_greatest key ?c ys" by (simp add: first_greatest_def)
  have IH: "first_greatest key ?c ys \<in> set (?c # ys) \<and>
      (\<forall>x \<in> set (?c # ys). \<not> rank_less (key (first_greatest key ?c ys)) (key x))"
    using Cons.prems by (intro Cons.IH) auto
  let ?r = "first_greatest key ?c ys"
  have r: "fst (key ?r) \<noteq> NaN" "\<not> rank_less (key ?r) (key ?c)"
    using IH Cons.prems by (auto split: if_splits)
  have "\<not> rank_less (key ?r) (key x)" if "x = b \<or> x = y" for x
    using that r Cons.prems by (auto simp: rank_less_lex split: if_splits)
  with IH show ?case unfolding eq by (auto split: if_splits)
qed

lemma fold_pick_in: "foldl (\<lambda>best x. if c best x then x else best) b xs \<in> set (b # xs)"
  by (induction xs arbitrary: b) auto

lemma first_in:
  "first_least key b xs \<in> set (b # xs)" "first_greatest key b xs \<in> set (b # xs)"
  unfolding first_least_def first_greatest_def by (rule fold_pick_in)+

lemma scores_providers:
  "scores bs sts = Inr rs \<Longrightarrow> map sr_provider rs = map sp_provider sts"
  by (induction sts arbitrary: rs) (auto simp: score_def Let_def split: sum.splits option.splits)

subsection \<open>Turns\<close>

lemma nth_cursor_in: "xs \<noteq> [] \<Longrightarrow> xs ! nat (c mod int (length xs)) \<in> set xs"
  by (intro nth_mem) (simp add: nat_less_iff)


lemma set_expanded: "\<forall>st \<in> set sts. 1 \<le> sp_weight st \<Longrightarrow> set (expanded sts) = set sts"
  by (induction sts) (auto simp: expanded_def)

lemma expanded_Nil_iff: "\<forall>st \<in> set sts. 1 \<le> sp_weight st \<Longrightarrow> expanded sts = [] \<longleftrightarrow> sts = []"
  using set_expanded [of sts] by (metis empty_set set_empty)


subsection \<open>Decisions\<close>

definition candidates :: "(string \<Rightarrow> time) \<Rightarrow> scheduler \<Rightarrow> provider_state list" where
  "candidates clock s = sort_key sp_provider (filter (usable clock (sh_breakers s)) (map snd (sh_states s)))"

definition asked :: "(string \<Rightarrow> time) \<Rightarrow> scheduler \<Rightarrow> scheduler" where
  "asked clock s = s\<lparr>sh_breakers := snd (admitted clock (map snd (sh_states s)) (sh_breakers s))\<rparr>"

lemma states_providers: "sched_ok s \<Longrightarrow> map sp_provider (map snd (sh_states s)) = map fst (sh_states s)"
  by (auto simp: sched_ok_def keyed_def)

lemma candidates_props:
  assumes "sched_ok s"
  shows "set (candidates clock s) =
      {st. map_of (sh_states s) (sp_provider st) = Some st \<and> usable clock (sh_breakers s) st}"
    and "sorted (map sp_provider (candidates clock s))" and "distinct (map sp_provider (candidates clock s))"
proof -
  have k: "keyed sp_provider (sh_states s)" using assms by (simp add: sched_ok_def)
  then show "set (candidates clock s) =
      {st. map_of (sh_states s) (sp_provider st) = Some st \<and> usable clock (sh_breakers s) st}"
    by (force simp: candidates_def keyed_def)
  show "sorted (map sp_provider (candidates clock s))" by (simp add: candidates_def)
  have "distinct (map sp_provider (map snd (sh_states s)))"
    using k by (simp only: states_providers [OF assms] keyed_dict_ok)
  then have "distinct (map sp_provider (filter (usable clock (sh_breakers s)) (map snd (sh_states s))))"
    by (rule distinct_map_filter)
  then show "distinct (map sp_provider (candidates clock s))"
    by (simp add: candidates_def distinct_map)
qed

lemma candidates_weight: "sched_ok s \<Longrightarrow> \<forall>st \<in> set (candidates clock s). 1 \<le> sp_weight st"
  using candidates_props(1) [of s clock] by (auto simp: sched_ok_def simp del: map_of_eq_Some_iff)

lemma providers_known:
  assumes "sched_ok s"
  shows "distinct (map sp_provider (map snd (sh_states s)))"
    and "sp_provider ` set (map snd (sh_states s)) \<subseteq> dom (map_of (sh_breakers s))"
proof -
  show "distinct (map sp_provider (map snd (sh_states s)))"
    using assms by (simp only: states_providers [OF assms]) (simp add: sched_ok_def keyed_def)
  have "sp_provider ` set (map snd (sh_states s)) = fst ` set (sh_states s)"
    using states_providers [OF assms] by (metis set_map)
  then show "sp_provider ` set (map snd (sh_states s)) \<subseteq> dom (map_of (sh_breakers s))"
    using assms by (simp add: sched_ok_def dom_map_of_conv_image_fst)
qed

lemma sh_schedule_alt:
  assumes "sched_ok s"
  shows "sh_schedule clock policy session s =
    (case fst (admitted clock (map snd (sh_states s)) (sh_breakers s)) of
       Inl e \<Rightarrow> (Inl e, asked clock s)
     | Inr _ \<Rightarrow>
    (case scores (sh_breakers (asked clock s)) (candidates clock s) of
       Inl e \<Rightarrow> (Inl e, asked clock s)
     | Inr rs \<Rightarrow>
         let (p, s2) = sh_select policy (candidates clock s) rs session (asked clock s) in
         (Inr \<lparr>sd_provider = p, sd_policy = policy, sd_candidates = map sp_provider (candidates clock s),
               sd_scores = rs,
               sd_reason = (if p = None then ''No eligible provider'' else ''Selected by explicit policy'')\<rparr>,
          s2)))"
proof -
  let ?sts = "map snd (sh_states s)"
  obtain r bs where a: "admitted clock ?sts (sh_breakers s) = (r, bs)" by fastforce
  show ?thesis
  proof (cases r)
    case (Inl e)
    then show ?thesis by (simp add: sh_schedule_def asked_def a)
  next
    case (Inr l)
    with admitted_usable [OF providers_known(1) [OF assms], of clock "sh_breakers s" l] a
    have "l = filter (usable clock (sh_breakers s)) ?sts" by simp
    with Inr show ?thesis
      by (simp add: sh_schedule_def candidates_def asked_def a Let_def split: sum.split)
  qed
qed

lemma sh_select_None_iff: "fst (sh_select policy sts rs session s) = None \<longleftrightarrow> sts = []"
  by (auto simp: sh_select_def Let_def split: scheduling_policy.split prod.split option.splits)


text \<open>What each policy chooses; \<open>key\<close> is the figure a least-of policy compares.\<close>

definition least_by :: "(provider_state \<Rightarrow> pyfloat) \<Rightarrow> scheduler \<Rightarrow> string list \<Rightarrow> string \<Rightarrow> bool" where
  "least_by key s cs p \<longleftrightarrow>
     (let k = \<lambda>q. (key (the (map_of (sh_states s) q)), q) in
      (\<forall>q \<in> set cs. fst (k q) \<noteq> NaN) \<longrightarrow> (\<forall>q \<in> set cs. \<not> rank_less (k q) (k p)))"

definition best_score :: "provider_score list \<Rightarrow> string \<Rightarrow> bool" where
  "best_score rs p \<longleftrightarrow>
     (\<forall>r \<in> set rs. sr_total r \<noteq> NaN) \<longrightarrow>
     (\<exists>r \<in> set rs. sr_provider r = p \<and>
       (\<forall>r' \<in> set rs. \<not> rank_less (sr_total r, sr_provider r) (sr_total r', sr_provider r')))"

lemma least_by_first:
  assumes "cs \<noteq> []" "\<And>st. st \<in> set cs \<Longrightarrow> map_of (sh_states s) (sp_provider st) = Some st"
  shows "least_by key s (map sp_provider cs)
    (sp_provider (first_least (\<lambda>st. (key st, sp_provider st)) (hd cs) (tl cs)))"
proof -
  let ?k = "\<lambda>st. (key st, sp_provider st)" and ?m = "first_least (\<lambda>st. (key st, sp_provider st)) (hd cs) (tl cs)"
  have cs: "hd cs # tl cs = cs" using assms(1) by simp
  have m: "?m \<in> set cs" using first_in(1) [of ?k "hd cs" "tl cs"] by (simp only: cs)
  have "\<forall>x \<in> set cs. \<not> rank_less (?k x) (?k ?m)" if "\<forall>x \<in> set cs. key x \<noteq> NaN"
    using first_least_best [of "hd cs" "tl cs" ?k] that by (simp only: cs fst_conv) blast
  with m show ?thesis by (auto simp: least_by_def assms(2))
qed

lemma best_score_first:
  assumes "rs \<noteq> []"
  shows "best_score rs (sr_provider (first_greatest (\<lambda>r. (sr_total r, sr_provider r)) (hd rs) (tl rs)))"
proof -
  let ?k = "\<lambda>r. (sr_total r, sr_provider r)"
  let ?m = "first_greatest ?k (hd rs) (tl rs)"
  have rs: "hd rs # tl rs = rs" using assms by simp
  have m: "?m \<in> set rs" using first_in(2) [of ?k "hd rs" "tl rs"] by (simp only: rs)
  have "\<forall>x \<in> set rs. \<not> rank_less (?k ?m) (?k x)" if "\<forall>x \<in> set rs. sr_total x \<noteq> NaN"
    using first_greatest_best [of "hd rs" "tl rs" ?k] that by (simp only: rs fst_conv) blast
  with m show ?thesis unfolding best_score_def by blast
qed

text \<open>The choice of a policy that is not bound to a session.\<close>

definition policy_choice ::
  "scheduling_policy \<Rightarrow> provider_state list \<Rightarrow> provider_score list \<Rightarrow> int \<Rightarrow> string" where
  "policy_choice policy sts rs c =
     (case policy of
        ROUND_ROBIN \<Rightarrow> turn c sts
      | WEIGHTED_ROUND_ROBIN \<Rightarrow> turn c (expanded sts)
      | LEAST_LATENCY \<Rightarrow> sp_provider (first_least (\<lambda>st. (sp_latency st, sp_provider st)) (hd sts) (tl sts))
      | LEAST_ERROR \<Rightarrow> sp_provider (first_least (\<lambda>st. (projr (error_rate st), sp_provider st)) (hd sts) (tl sts))
      | LOWEST_COST \<Rightarrow> sp_provider (first_least (\<lambda>st. (sp_cost st, sp_provider st)) (hd sts) (tl sts))
      | _ \<Rightarrow> sr_provider (first_greatest (\<lambda>r. (sr_total r, sr_provider r)) (hd rs) (tl rs)))"

lemma sh_select_choice:
  assumes "sts \<noteq> []" "policy \<noteq> STICKY_SESSION"
  shows "sh_select policy sts rs session s =
    (Some (policy_choice policy sts rs (sh_cursor s)),
     if policy = ROUND_ROBIN \<or> policy = WEIGHTED_ROUND_ROBIN then s\<lparr>sh_cursor := sh_cursor s + 1\<rparr> else s)"
  using assms by (cases policy) (simp_all add: sh_select_def policy_choice_def)

lemma sh_select_sticky:
  assumes "sts \<noteq> []"
  shows "sh_select STICKY_SESSION sts rs session s =
    (let sid = str_or session '''' in
     if sid = '''' then (Some (policy_choice STICKY_SESSION sts rs (sh_cursor s)), s)
     else case map_of (sh_sticky s) sid of
        Some p \<Rightarrow>
          if p \<in> sp_provider ` set sts then (Some p, s)
          else (Some (policy_choice STICKY_SESSION sts rs (sh_cursor s)),
                s\<lparr>sh_sticky := AList.update sid (policy_choice STICKY_SESSION sts rs (sh_cursor s)) (sh_sticky s)\<rparr>)
      | None \<Rightarrow>
          (Some (policy_choice STICKY_SESSION sts rs (sh_cursor s)),
           s\<lparr>sh_sticky := AList.update sid (policy_choice STICKY_SESSION sts rs (sh_cursor s)) (sh_sticky s)\<rparr>))"
  using assms by (auto simp: sh_select_def policy_choice_def Let_def split: option.split)

lemma policy_choice_in:
  assumes "sts \<noteq> []" "map sr_provider rs = map sp_provider sts" "\<forall>st \<in> set sts. 1 \<le> sp_weight st"
  shows "policy_choice policy sts rs c \<in> sp_provider ` set sts"
proof -
  have rs: "rs \<noteq> []" "sr_provider ` set rs = sp_provider ` set sts"
    using assms(1,2) by (auto simp flip: set_map)
  have f: "sp_provider (first_least k (hd sts) (tl sts)) \<in> sp_provider ` set sts" for k
    using first_in(1) [of k "hd sts" "tl sts"] assms(1) by simp
  have g: "sr_provider (first_greatest k (hd rs) (tl rs)) \<in> sp_provider ` set sts" for k
    using first_in(2) [of k "hd rs" "tl rs"] rs(1) by (simp flip: rs(2))
  have t: "turn c xs \<in> sp_provider ` set xs" if "xs \<noteq> []" for xs
    using nth_cursor_in [OF that] by (simp add: turn_def)
  show ?thesis
    using t [OF assms(1)] t [of "expanded sts"] assms(1)
    by (simp add: policy_choice_def expanded_Nil_iff [OF assms(3)] set_expanded [OF assms(3)] f g
        split: scheduling_policy.split)
qed


lemma scheduled:
  assumes "sched_ok s" "sh_schedule clock policy session s = (Inr d, s')"
  shows "sd_candidates d = map sp_provider (candidates clock s)"
    and "scores (sh_breakers (asked clock s)) (candidates clock s) = Inr (sd_scores d)"
    and "sh_select policy (candidates clock s) (sd_scores d) session (asked clock s) = (sd_provider d, s')"
  using assms(2) by (auto simp: sh_schedule_alt [OF assms(1)] split: sum.splits prod.splits)

lemma candidates_scores:
  assumes "sched_ok s" "sh_schedule clock policy session s = (Inr d, s')"
  shows "map sr_provider (sd_scores d) = map sp_provider (candidates clock s)"
  by (rule scores_providers [OF scheduled(2) [OF assms]])

lemma asked_sel [simp]:
  "sh_states (asked clock s) = sh_states s" "sh_cursor (asked clock s) = sh_cursor s"
  "sh_sticky (asked clock s) = sh_sticky s"
  by (simp_all add: asked_def)

lemma scheduled_choice:
  assumes "sched_ok s" "sh_schedule clock policy session s = (Inr d, s')" "policy \<noteq> STICKY_SESSION"
    "candidates clock s \<noteq> []"
  shows "sd_provider d = Some (policy_choice policy (candidates clock s) (sd_scores d) (sh_cursor s))"
  using scheduled(3) [OF assms(1,2)] by (simp add: sh_select_choice [OF assms(4,3)])

lemma scheduled_in:
  assumes "sched_ok s" "sh_schedule clock policy session s = (Inr d, s')" "sd_provider d = Some p"
  shows "p \<in> set (sd_candidates d)"
proof -
  note sch = scheduled [OF assms(1,2)]
  have ne: "candidates clock s \<noteq> []"
    using sch(3) assms(3) sh_select_None_iff [of policy "candidates clock s" "sd_scores d" session "asked clock s"]
    by simp
  note inn = policy_choice_in [OF ne candidates_scores [OF assms(1,2)] candidates_weight [OF assms(1)]]
  have "p \<in> sp_provider ` set (candidates clock s)"
  proof (cases "policy = STICKY_SESSION")
    case True
    with sch(3) assms(3) show ?thesis
      by (auto simp: sh_select_sticky [OF ne] Let_def inn split: if_splits option.splits)
  next
    case False
    with scheduled_choice [OF assms(1,2) False ne] assms(3) show ?thesis by (simp add: inn)
  qed
  then show ?thesis by (simp add: sch(1))
qed

lemma least_by_candidates:
  assumes "sched_ok s" "candidates clock s \<noteq> []"
  shows "least_by key s (map sp_provider (candidates clock s))
    (sp_provider (first_least (\<lambda>st. (key st, sp_provider st)) (hd (candidates clock s)) (tl (candidates clock s))))"
  using assms candidates_props(1) [OF assms(1), of clock]
  by (intro least_by_first) (simp_all del: map_of_eq_Some_iff)

lemma candidates_names:
  assumes "sched_ok s"
  shows "set (map sp_provider (candidates clock s)) =
    {p. \<exists>st b. map_of (sh_states s) p = Some st \<and> sp_health st \<noteq> HS_UNHEALTHY \<and>
      map_of (sh_breakers s) p = Some b \<and> fst (allow_request (clock p) b) = Inr True}"
proof -
  have k: "map_of (sh_states s) p = Some st \<Longrightarrow> sp_provider st = p" for p st
    using assms by (simp add: sched_ok_def keyed_iff)
  have *: "sp_provider ` {st. map_of (sh_states s) (sp_provider st) = Some st \<and> usable clock (sh_breakers s) st} =
      {p. \<exists>st. map_of (sh_states s) p = Some st \<and> usable clock (sh_breakers s) st}"
  proof (intro set_eqI iffI)
    fix p assume "p \<in> sp_provider ` {st. map_of (sh_states s) (sp_provider st) = Some st \<and> usable clock (sh_breakers s) st}"
    then show "p \<in> {p. \<exists>st. map_of (sh_states s) p = Some st \<and> usable clock (sh_breakers s) st}" by blast
  next
    fix p assume "p \<in> {p. \<exists>st. map_of (sh_states s) p = Some st \<and> usable clock (sh_breakers s) st}"
    then obtain st where st: "map_of (sh_states s) p = Some st" "usable clock (sh_breakers s) st" by blast
    from k [OF st(1)] st
    show "p \<in> sp_provider ` {st. map_of (sh_states s) (sp_provider st) = Some st \<and> usable clock (sh_breakers s) st}"
      by (intro image_eqI [where x = st]) (simp_all del: map_of_eq_Some_iff)
  qed
  have "usable clock (sh_breakers s) st \<longleftrightarrow> sp_health st \<noteq> HS_UNHEALTHY \<and>
      (\<exists>b. map_of (sh_breakers s) p = Some b \<and> fst (allow_request (clock p) b) = Inr True)"
    if "map_of (sh_states s) p = Some st" for p st
    using k [OF that] by (auto simp: usable_def simp del: map_of_eq_Some_iff split: option.split)
  then show ?thesis
    unfolding set_map candidates_props(1) [OF assms] * by blast
qed

lemma scores_not_key_error:
  assumes "\<forall>st \<in> set sts. map_of bs (sp_provider st) \<noteq> None"
  shows "scores bs sts \<noteq> Inl (Sched_KeyError p)"
  using assms
proof (induction sts)
  case (Cons st sts)
  then obtain b where "map_of bs (sp_provider st) = Some b" by auto
  then have "score bs st \<noteq> Inl (Sched_KeyError p)"
    by (auto simp: score_def ratio_def error_rate_def inverse_of_def priority_score_def Let_def
        split: option.splits sum.splits if_splits)
  with Cons show ?case by (auto split: sum.splits)
qed simp

lemma candidates_have_breakers:
  assumes "sched_ok s" "st \<in> set (candidates clock s)"
  shows "map_of (sh_breakers (asked clock s)) (sp_provider st) \<noteq> None"
proof -
  have "sp_provider st \<in> dom (map_of (sh_states s))"
    using assms(2) candidates_props(1) [OF assms(1), of clock] by auto
  then have "sp_provider st \<in> dom (map_of (sh_breakers (asked clock s)))"
    using assms(1) admitted_frame [of "sh_breakers s" clock "map snd (sh_states s)"]
    by (simp add: sched_ok_def asked_def)
  then show ?thesis by auto
qed

text \<open>C33: In every reachable state the scheduler is well formed: each provider is stored once, under its
  name, with a positive weight and with exactly one breaker; so no schedule raises KeyError.\<close>

theorem scheduler_well_formed:
  assumes "new_scheduler f t = Inr s0" "s = sh_run ops s0"
  shows "dict_ok (sh_states s) \<and> dict_ok (sh_breakers s) \<and>
    (\<forall>p st. map_of (sh_states s) p = Some st \<longrightarrow>
       sp_provider st = p \<and> 1 \<le> sp_weight st \<and> (\<exists>b. map_of (sh_breakers s) p = Some b)) \<and>
    (\<forall>clock policy session p. fst (sh_schedule clock policy session s) \<noteq> Inl (Sched_KeyError p))"
proof (intro conjI allI impI)
  have ok: "sched_ok s" using assms by (simp add: sh_run_ok new_scheduler_ok)
  then show "dict_ok (sh_states s)" "dict_ok (sh_breakers s)" by (simp_all add: sched_ok_def keyed_def)
  show "sp_provider st = p" "1 \<le> sp_weight st" "\<exists>b. map_of (sh_breakers s) p = Some b"
    if "map_of (sh_states s) p = Some st" for p st
    using ok that unfolding sched_ok_def by (blast dest: keyed_key)+
  show "fst (sh_schedule clock policy session s) \<noteq> Inl (Sched_KeyError p)" for clock policy session p
    using scores_not_key_error [of "candidates clock s" "sh_breakers (asked clock s)" p]
      candidates_have_breakers [OF ok, of _ clock]
      admitted_not_key_error [OF providers_known(2) [OF ok], of clock p]
    by (auto simp: sh_schedule_alt [OF ok] case_prod_unfold Let_def simp del: not_None_eq split: sum.splits)
qed

text \<open>C25: After any operations, a schedule that returns considers exactly the registered providers that are not
  unhealthy and that their breaker admits, in the order of their names, and selects one of them, or
  none exactly when there is none. The least-of policies select a provider no candidate undercuts
  (ties go to the smaller name), and the score policies one no candidate outscores, where no figure
  is NaN.\<close>

theorem schedule_selects_best:
  assumes "new_scheduler f t = Inr s0" "s = sh_run ops s0"
    and "sh_schedule clock policy session s = (Inr d, s')"
  shows "sorted (sd_candidates d) \<and> distinct (sd_candidates d) \<and>
    set (sd_candidates d) =
      {p. \<exists>st b. map_of (sh_states s) p = Some st \<and> sp_health st \<noteq> HS_UNHEALTHY \<and>
        map_of (sh_breakers s) p = Some b \<and> fst (allow_request (clock p) b) = Inr True} \<and>
    (sd_provider d = None \<longleftrightarrow> sd_candidates d = []) \<and>
    (\<forall>p. sd_provider d = Some p \<longrightarrow> p \<in> set (sd_candidates d) \<and>
      (policy = LEAST_LATENCY \<longrightarrow> least_by sp_latency s (sd_candidates d) p) \<and>
      (policy = LEAST_ERROR \<longrightarrow> least_by (\<lambda>st. projr (error_rate st)) s (sd_candidates d) p) \<and>
      (policy = LOWEST_COST \<longrightarrow> least_by sp_cost s (sd_candidates d) p) \<and>
      (policy \<in> {HIGHEST_SCORE, ADAPTIVE} \<longrightarrow> best_score (sd_scores d) p))"
proof -
  have ok: "sched_ok s" using assms(1,2) by (simp add: sh_run_ok new_scheduler_ok)
  note sch = scheduled [OF ok assms(3)]
  have none: "sd_provider d = None \<longleftrightarrow> sd_candidates d = []"
    using sch(3) sh_select_None_iff [of policy "candidates clock s" "sd_scores d" session "asked clock s"]
    by (simp add: sch(1))
  have best: "(policy = LEAST_LATENCY \<longrightarrow> least_by sp_latency s (sd_candidates d) p) \<and>
      (policy = LEAST_ERROR \<longrightarrow> least_by (\<lambda>st. projr (error_rate st)) s (sd_candidates d) p) \<and>
      (policy = LOWEST_COST \<longrightarrow> least_by sp_cost s (sd_candidates d) p) \<and>
      (policy \<in> {HIGHEST_SCORE, ADAPTIVE} \<longrightarrow> best_score (sd_scores d) p)" if p: "sd_provider d = Some p" for p
  proof -
    from p none have ne: "candidates clock s \<noteq> []" by (simp add: sch(1))
    then have rs: "sd_scores d \<noteq> []" using candidates_scores [OF ok assms(3)] by auto
    note ch = scheduled_choice [OF ok assms(3) _ ne] and least = least_by_candidates [OF ok ne]
    show ?thesis
      using ch p least [of sp_latency] least [of "\<lambda>st. projr (error_rate st)"] least [of sp_cost]
        best_score_first [OF rs]
      by (auto simp: policy_choice_def sch(1))
  qed
  show ?thesis
    using candidates_props(2,3) [OF ok, of clock] candidates_names [OF ok, of clock] none best
      scheduled_in [OF ok assms(3)]
    by (simp add: sch(1))
qed


subsection \<open>Round robin\<close>


definition chosen :: "scheduler_error + scheduling_decision \<Rightarrow> string option" where
  "chosen r = (case r of Inl _ \<Rightarrow> None | Inr d \<Rightarrow> sd_provider d)"

lemma chosen_simps [simp]: "chosen (Inl e) = None" "chosen (Inr d) = sd_provider d"
  by (simp_all add: chosen_def)





















subsection \<open>Sticky sessions\<close>

lemma sticky_kept:
  assumes "sid \<noteq> ''''" "\<not> (policy = STICKY_SESSION \<and> session = Some sid)"
  shows "map_of (sh_sticky (snd (sh_select policy sts rs session s))) sid = map_of (sh_sticky s) sid"
proof (cases "sts = []")
  case False
  show ?thesis
  proof (cases "policy = STICKY_SESSION")
    case True
    with assms have "str_or session '''' \<noteq> sid" by (cases session) (auto simp: str_or_def)
    with True show ?thesis
      by (auto simp: sh_select_sticky [OF False] Let_def simp del: map_of_eq_Some_iff split: option.split)
  qed (simp add: sh_select_choice [OF False])
qed (simp add: sh_select_def)

lemma sh_apply_sticky:
  assumes "sched_ok s" "sid \<noteq> ''''" "\<forall>clock. op \<noteq> Op_schedule clock STICKY_SESSION (Some sid)"
  shows "map_of (sh_sticky (sh_apply op s)) sid = map_of (sh_sticky s) sid"
proof (cases op)
  case (Op_schedule clock policy session)
  with assms(3) have "\<not> (policy = STICKY_SESSION \<and> session = Some sid)" by auto
  from sticky_kept [OF assms(2) this] Op_schedule show ?thesis
    by (simp add: sh_schedule_alt [OF assms(1)] case_prod_unfold Let_def split: sum.split)
qed (auto simp: sh_register_def sh_record_result_def split: sum.split option.split)

lemma sh_run_sticky:
  assumes "sched_ok s" "sid \<noteq> ''''" "\<forall>clock. Op_schedule clock STICKY_SESSION (Some sid) \<notin> set ops"
  shows "map_of (sh_sticky (sh_run ops s)) sid = map_of (sh_sticky s) sid"
  using assms
proof (induction ops arbitrary: s)
  case (Cons op ops)
  have "map_of (sh_sticky (sh_apply op s)) sid = map_of (sh_sticky s) sid"
    using Cons.prems by (intro sh_apply_sticky) auto
  with Cons sh_apply_ok [OF Cons.prems(1), of op] show ?case by simp
qed simp

text \<open>A sticky session keeps its provider: whatever happens between two schedules of the session,
  the second selects the provider of the first as long as that is still a candidate.\<close>

theorem sticky_session_keeps_provider:
  assumes "new_scheduler f t = Inr s0" "s = sh_run ops s0" "sid \<noteq> ''''"
    and "sh_schedule clock STICKY_SESSION (Some sid) s = (Inr d, s1)" "sd_provider d = Some p"
    and "\<forall>c. Op_schedule c STICKY_SESSION (Some sid) \<notin> set between"
    and "sh_schedule clock' STICKY_SESSION (Some sid) (sh_run between s1) = (Inr d', s2)"
    and "p \<in> set (sd_candidates d')"
  shows "sd_provider d' = Some p"
proof -
  have ok: "sched_ok s" using assms(1,2) by (simp add: sh_run_ok new_scheduler_ok)
  then have ok1: "sched_ok s1"
    using sh_apply_ok [OF ok, of "Op_schedule clock STICKY_SESSION (Some sid)"] assms(4) by simp
  let ?s = "sh_run between s1"
  have ok2: "sched_ok ?s" by (rule sh_run_ok [OF ok1])
  note a = scheduled [OF ok assms(4)] and b = scheduled [OF ok2 assms(7)]
  have ne: "candidates clock s \<noteq> []"
    using a(3) assms(5) sh_select_None_iff [of STICKY_SESSION "candidates clock s" "sd_scores d" "Some sid" "asked clock s"]
    by simp
  have "map_of (sh_sticky s1) sid = Some p"
    using a(3) assms(3,5)
    by (auto simp: sh_select_sticky [OF ne] Let_def simp del: map_of_eq_Some_iff split: if_splits option.splits)
  then have "map_of (sh_sticky ?s) sid = Some p"
    by (simp only: sh_run_sticky [OF ok1 assms(3,6)])
  moreover from assms(8) have "p \<in> sp_provider ` set (candidates clock' ?s)" by (simp add: b(1))
  moreover from this have "candidates clock' ?s \<noteq> []" by auto
  ultimately show ?thesis
    using b(3) assms(3) by (simp add: sh_select_sticky del: map_of_eq_Some_iff)
qed


subsection \<open>Sample inputs\<close>

definition sample_scheduler :: scheduler where
  "sample_scheduler = projr (new_scheduler 2 (Fin 0))"

definition sample_ops :: "sched_op list" where
  "sample_ops =
     [Op_register ''a'' (Fin 0) (Fin 0) 0 2 HS_HEALTHY, Op_register ''b'' PosInf (Fin 0) 0 1 HS_HEALTHY,
      Op_register ''c'' (Fin 0) (Fin 0) 0 1 HS_UNHEALTHY]"

lemma no_delay: "timedelta_of (Fin 0) = Inr 0"
  using timedelta_of_int [of 0] by simp

lemma sample_scheduler_new: "new_scheduler 2 (Fin 0) = Inr sample_scheduler"
  by (simp add: sample_scheduler_def new_scheduler_def mk_threshold_def default_threshold_def no_delay)

lemma rnd64_samples:
  "rnd64 1 = Fin 1" "rnd64 2 = Fin 2" "rnd64 4 = Fin 4" "rnd64 3 = Fin 3"
  subgoal using rnd64_power2 [of 0] by simp
  subgoal using rnd64_power2 [of 1] by simp
  subgoal using rnd64_power2 [of 2] by simp
  subgoal by code_simp
  done

lemmas sched_eval =
  sample_ops_def sample_scheduler_def new_scheduler_def mk_threshold_def default_threshold_def no_delay
  sh_register_def new_breaker_def new_cb_snapshot_def allow_request_def sh_schedule_def Let_def
  score_def ratio_def error_rate_def total_results_def inverse_of_def priority_score_def
  py_float_of_int_def py_sub_def rnd64_samples sh_select_def turn_def expanded_def first_least_def rank_less_def

lemma decision_of: "map_sum id g (fst r) = Inr y \<Longrightarrow> \<exists>d s'. r = (Inr d, s') \<and> g d = y"
  by (cases r; cases "fst r") auto


theorem scheduler_well_formed_witness:
  "\<exists>st b. map_of (sh_states (sh_run sample_ops sample_scheduler)) ''a'' = Some st \<and> sp_weight st = 2 \<and>
    map_of (sh_breakers (sh_run sample_ops sample_scheduler)) ''a'' = Some b"
proof -
  let ?s = "sh_run sample_ops sample_scheduler"
  obtain st where st: "map_of (sh_states ?s) ''a'' = Some st" "sp_weight st = 2" by (simp add: sched_eval)
  with scheduler_well_formed [OF sample_scheduler_new refl, of sample_ops] show ?thesis by blast
qed

theorem schedule_selects_best_witness:
  "\<exists>d s'. sh_schedule (\<lambda>_. 0) LEAST_LATENCY None (sh_run sample_ops sample_scheduler) = (Inr d, s') \<and>
    sd_provider d = Some ''a'' \<and> sd_candidates d = [''a'', ''b''] \<and>
    least_by sp_latency (sh_run sample_ops sample_scheduler) (sd_candidates d) ''a''"
proof -
  have "map_sum id (\<lambda>d. (sd_provider d, sd_candidates d))
      (fst (sh_schedule (\<lambda>_. 0) LEAST_LATENCY None (sh_run sample_ops sample_scheduler))) =
      Inr (Some ''a'', [''a'', ''b''])"
    by (simp add: sched_eval)
  from decision_of [OF this] obtain d s' where
    d: "sh_schedule (\<lambda>_. 0) LEAST_LATENCY None (sh_run sample_ops sample_scheduler) = (Inr d, s')"
      "sd_provider d = Some ''a''" "sd_candidates d = [''a'', ''b'']"
    by auto
  with schedule_selects_best [OF sample_scheduler_new refl d(1)] show ?thesis by blast
qed


text \<open>Between the two schedules the latency of the provider of the session gets worse.\<close>

theorem sticky_session_keeps_provider_witness:
  "map chosen [
     fst (sh_schedule (\<lambda>_. 0) STICKY_SESSION (Some ''u'') (sh_run sample_ops sample_scheduler)),
     fst (sh_schedule (\<lambda>_. 0) STICKY_SESSION (Some ''u'')
       (sh_run [Op_record ''a'' True (Some PosInf) 0]
         (snd (sh_schedule (\<lambda>_. 0) STICKY_SESSION (Some ''u'') (sh_run sample_ops sample_scheduler)))))] =
   [Some ''a'', Some ''a'']"
proof -
  let ?s = "sh_run sample_ops sample_scheduler"
  let ?s1 = "snd (sh_schedule (\<lambda>_. 0) STICKY_SESSION (Some ''u'') ?s)"
  let ?s2 = "sh_run [Op_record ''a'' True (Some PosInf) 0] ?s1"
  have "map_sum id sd_provider (fst (sh_schedule (\<lambda>_. 0) STICKY_SESSION (Some ''u'') ?s)) = Inr (Some ''a'')"
    by (simp add: sched_eval first_greatest_def str_or_def)
  from decision_of [OF this] obtain d where d: "sh_schedule (\<lambda>_. 0) STICKY_SESSION (Some ''u'') ?s = (Inr d, ?s1)"
      "sd_provider d = Some ''a''"
    by auto
  have "map_sum id sd_candidates (fst (sh_schedule (\<lambda>_. 0) STICKY_SESSION (Some ''u'') ?s2)) = Inr [''a'', ''b'']"
    by (simp add: sched_eval first_greatest_def str_or_def sh_record_result_def record_success_def py_int_div_def)
  from decision_of [OF this] obtain d' where d': "sh_schedule (\<lambda>_. 0) STICKY_SESSION (Some ''u'') ?s2 =
      (Inr d', snd (sh_schedule (\<lambda>_. 0) STICKY_SESSION (Some ''u'') ?s2))" "sd_candidates d' = [''a'', ''b'']"
    by auto
  have "sd_provider d' = Some ''a''"
    by (rule sticky_session_keeps_provider [OF sample_scheduler_new refl _ d _ d'(1)]) (simp_all add: d'(2))
  moreover note arg_cong [OF d(1), of fst, unfolded fst_conv] arg_cong [OF d'(1), of fst, unfolded fst_conv]
  ultimately show ?thesis by (simp only: list.map chosen_simps d(2))
qed

subsection \<open>One bad sample\<close>

text \<open>The latency of a result is not validated: after a sample of exactly -1 every schedule that would
  consider the provider raises, whatever the policy and the other providers.\<close>

lemma scores_raise: "st \<in> set sts \<Longrightarrow> score bs st = Inl e \<Longrightarrow> \<exists>e'. scores bs sts = Inl e'"
  by (induction sts) (auto split: sum.split)

lemma negative_latency_stops_scheduling:
  assumes "sched_ok s" "sh_record_result p ok (Some (Fin (- 1))) now s = Inr s1"
    and "map_of (sh_states s1) p = Some st" "usable clock (sh_breakers s1) st"
  shows "\<exists>e. fst (sh_schedule clock policy session s1) = Inl e"
proof -
  have ok1: "sched_ok s1" using sh_apply_ok [OF assms(1), of "Op_record p ok (Some (Fin (- 1))) now"] assms(2) by simp
  have st: "sp_latency st = Fin (- 1)"
    using assms(2,3) by (auto simp: sh_record_result_def simp del: map_of_eq_Some_iff split: option.splits)
  have p: "sp_provider st = p" using ok1 assms(3) by (simp add: sched_ok_def keyed_iff del: map_of_eq_Some_iff)
  have "\<exists>e. score bs st = Inl e" for bs
    by (auto simp: score_def inverse_of_def st split: sum.split)
  then obtain e where "score (sh_breakers (asked clock s1)) st = Inl e" by blast
  moreover have "st \<in> set (candidates clock s1)"
    using assms(3,4) p by (simp add: candidates_props(1) [OF ok1] del: map_of_eq_Some_iff)
  ultimately obtain e' where "scores (sh_breakers (asked clock s1)) (candidates clock s1) = Inl e'"
    using scores_raise by blast
  then show ?thesis by (simp add: sh_schedule_alt [OF ok1] split: sum.split)
qed

end
