(* ===== verification/Workflow_Runtime.thy ===== *)
theory Workflow_Runtime
  imports TK_Prelude Py_Float
begin

text \<open>
  The state of a workflow run (\<open>src/src/tkai/workflow/\<close>: \<open>models.py\<close>, \<open>control.py\<close>,
  \<open>task.py\<close>, \<open>dispatch.py\<close>, \<open>runtime.py\<close>): values, contexts, the two validated
  lifecycles, steps, the dispatcher and the runtime that owns them. Handlers and conditions are
  Python functions compared by identity, so a step names them and the engine gets their meaning
  as an environment. The classes hold no lock: operations are those of callers in turn.
\<close>

subsection \<open>Values and exceptions\<close>

text \<open>Dictionaries have string keys. \<open>VObj r c\<close> is any other object: \<open>r\<close> is its \<open>repr\<close>
  and \<open>c\<close> the \<open>repr\<close> of its deep copies, or \<open>None\<close> when \<open>copy.deepcopy\<close> refuses it. The copies of an
  object are taken to print alike: one that prints its own address is outside the model.\<close>

datatype pyval =
    VNone
  | VBool bool
  | VInt int
  | VFloat pyfloat
  | VStr string
  | VList "pyval list"
  | VTuple "pyval list"
  | VSet "pyval list"
  | VDict "(string \<times> pyval) list"
  | VObj string "string option"

type_synonym data = "(string, pyval) dict"

datatype exn = Exn (exn_type: string) (exn_msg: string)

text \<open>\<open>{**a, **b}\<close>.\<close>

definition dict_merge :: "('k, 'v) dict \<Rightarrow> ('k, 'v) dict \<Rightarrow> ('k, 'v) dict" where
  "dict_merge a b = fold (\<lambda>(k, v). AList.update k v) b a"

lemma map_of_dict_merge: "dict_ok b \<Longrightarrow> map_of (dict_merge a b) = map_of a ++ map_of b"
  unfolding dict_merge_def
proof (induction b arbitrary: a)
  case (Cons x b)
  obtain k v where x: "x = (k, v)" by (cases x)
  with Cons have "map_of (fold (\<lambda>(k, v). AList.update k v) b (AList.update k v a)) =
      (map_of a)(k \<mapsto> v) ++ map_of b" by simp
  moreover have "k \<notin> dom (map_of b)" using Cons.prems x by (simp add: dom_map_of_conv_image_fst)
  ultimately show ?case
    using x by (auto simp: map_add_def fun_eq_iff split: option.splits)
qed simp

subsection \<open>Workflow lifecycle\<close>

datatype workflow_status =
    WS_CREATED | WS_VALIDATED | WS_PENDING | WS_RUNNING | WS_PAUSED | WS_COMPLETED | WS_FAILED
  | WS_CANCELLED

datatype step_status = SS_PENDING | SS_RUNNING | SS_SKIPPED | SS_COMPLETED | SS_FAILED

fun workflow_targets :: "workflow_status \<Rightarrow> workflow_status list" where
  "workflow_targets WS_CREATED = [WS_VALIDATED, WS_CANCELLED]"
| "workflow_targets WS_VALIDATED = [WS_PENDING, WS_CANCELLED]"
| "workflow_targets WS_PENDING = [WS_RUNNING, WS_CANCELLED]"
| "workflow_targets WS_RUNNING = [WS_PAUSED, WS_COMPLETED, WS_FAILED, WS_CANCELLED]"
| "workflow_targets WS_PAUSED = [WS_RUNNING, WS_CANCELLED]"
| "workflow_targets WS_COMPLETED = []"
| "workflow_targets WS_FAILED = []"
| "workflow_targets WS_CANCELLED = []"

definition workflow_transition :: "workflow_status \<Rightarrow> workflow_status \<Rightarrow> exn + workflow_status" where
  "workflow_transition current target =
     (if target \<in> set (workflow_targets current) then Inr target
      else Inl (Exn ''ValueError'' ''Illegal workflow transition''))"

definition workflow_pause :: "workflow_status \<Rightarrow> exn + workflow_status" where
  "workflow_pause s = workflow_transition s WS_PAUSED"

definition workflow_resume :: "workflow_status \<Rightarrow> exn + workflow_status" where
  "workflow_resume s = workflow_transition s WS_RUNNING"

definition workflow_cancel :: "workflow_status \<Rightarrow> exn + workflow_status" where
  "workflow_cancel s = workflow_transition s WS_CANCELLED"

definition workflow_checkpoint :: "workflow_status \<Rightarrow> bool" where
  "workflow_checkpoint s \<longleftrightarrow> s = WS_RUNNING"

subsection \<open>Execution lifecycle\<close>

datatype execution_state =
    ES_PENDING | ES_RUNNING | ES_PAUSING | ES_PAUSED | ES_RESUMING | ES_CANCELLING | ES_CANCELLED
  | ES_COMPLETED | ES_FAILED

fun execution_targets :: "execution_state \<Rightarrow> execution_state list" where
  "execution_targets ES_PENDING = [ES_RUNNING, ES_CANCELLED]"
| "execution_targets ES_RUNNING = [ES_PAUSING, ES_CANCELLING, ES_COMPLETED, ES_FAILED]"
| "execution_targets ES_PAUSING = [ES_PAUSED, ES_CANCELLING]"
| "execution_targets ES_PAUSED = [ES_RESUMING, ES_CANCELLING]"
| "execution_targets ES_RESUMING = [ES_RUNNING, ES_CANCELLING]"
| "execution_targets ES_CANCELLING = [ES_CANCELLED]"
| "execution_targets ES_CANCELLED = []"
| "execution_targets ES_COMPLETED = []"
| "execution_targets ES_FAILED = []"

definition validate_transition :: "execution_state \<Rightarrow> execution_state \<Rightarrow> exn + unit" where
  "validate_transition current target =
     (if target \<in> set (execution_targets current) then Inr ()
      else Inl (Exn ''ExecutionTransitionError'' ''Illegal execution transition''))"

subsection \<open>Contexts\<close>

record wf_context =
  cx_inputs :: data
  cx_shared :: data
  cx_results :: data
  cx_previous :: pyval

definition context_data :: "wf_context \<Rightarrow> data" where
  "context_data c =
     AList.update ''previous_result'' (cx_previous c)
       (AList.update ''results'' (VDict (cx_results c)) (dict_merge (cx_inputs c) (cx_shared c)))"

record step_result =
  sr_name :: string
  sr_status :: step_status
  sr_output :: pyval
  sr_error :: "exn option"
  sr_attempts :: int

record stored_result =
  so_status :: string
  so_output :: pyval
  so_error :: "string option"
  so_attempts :: int

record exec_context =
  xc_workflow :: wf_context
  xc_state :: execution_state
  xc_completed :: "string set"
  xc_running :: "string set"
  xc_failed :: "string set"
  xc_cancelled :: "string set"
  xc_skipped :: "string set"
  xc_retries :: "(string, int) dict"
  xc_step_results :: "(string, stored_result) dict"

definition xc_transition :: "execution_state \<Rightarrow> exec_context \<Rightarrow> exn + exec_context" where
  "xc_transition target c =
     (case validate_transition (xc_state c) target of
        Inl e \<Rightarrow> Inl e | Inr _ \<Rightarrow> Inr (c\<lparr>xc_state := target\<rparr>))"

definition xc_pause :: "exec_context \<Rightarrow> exn + exec_context" where
  "xc_pause c = xc_transition ES_PAUSING c"

definition xc_resume :: "exec_context \<Rightarrow> exn + exec_context" where
  "xc_resume c = xc_transition ES_RESUMING c"

definition xc_cancel :: "exec_context \<Rightarrow> exn + exec_context" where
  "xc_cancel c = xc_transition (if xc_state c = ES_PENDING then ES_CANCELLED else ES_CANCELLING) c"

definition can_dispatch :: "exec_context \<Rightarrow> bool" where
  "can_dispatch c \<longleftrightarrow> xc_state c = ES_RUNNING"

subsection \<open>Steps\<close>

record step_retry =
  pl_max_attempts :: int
  pl_delay :: pyfloat
  pl_backoff :: pyfloat
  pl_retry_on :: "string list"

text \<open>\<open>st_name\<close> is the name after \<open>__post_init__\<close>; the handler and the conditions are named.\<close>

record step =
  st_task :: string
  st_handler :: string
  st_condition :: "string option"
  st_loop :: int
  st_retries :: int
  st_name :: string
  st_dependencies :: "string list"
  st_timeout :: "pyfloat option"
  st_retry :: "step_retry option"
  st_enabled :: bool
  st_continue_on_error :: bool
  st_iterable :: "pyval list option"
  st_loop_condition :: "string option"
  st_max_iterations :: int

definition step_post_init :: "string option \<Rightarrow> step \<Rightarrow> step" where
  "step_post_init n s = s\<lparr>st_name := (case n of None \<Rightarrow> st_task s | Some x \<Rightarrow> x)\<rparr>"

text \<open>\<open>step.name or step.task.name\<close>.\<close>

definition step_name :: "step \<Rightarrow> string" where
  "step_name s = (if st_name s = '''' then st_task s else st_name s)"

subsection \<open>Dispatcher\<close>

record dispatcher =
  di_pending :: "step list"
  di_completed :: "string set"
  di_in_flight :: "string set"

definition new_dispatcher :: "step list \<Rightarrow> string set \<Rightarrow> dispatcher" where
  "new_dispatcher steps completed =
     \<lparr>di_pending = steps, di_completed = completed, di_in_flight = {}\<rparr>"

definition step_ready :: "dispatcher \<Rightarrow> step \<Rightarrow> bool" where
  "step_ready d s \<longleftrightarrow> set (st_dependencies s) \<subseteq> di_completed d \<and> step_name s \<notin> di_in_flight d"

definition next_ready :: "dispatcher \<Rightarrow> step list" where
  "next_ready d = filter (step_ready d) (di_pending d)"

definition claim :: "step \<Rightarrow> dispatcher \<Rightarrow> exn + dispatcher" where
  "claim s d =
     (if s \<notin> set (di_pending d) \<or> step_name s \<in> di_in_flight d
      then Inl (Exn ''ValueError'' ''Step is not available for dispatch'')
      else Inr (d\<lparr>di_in_flight := insert (step_name s) (di_in_flight d)\<rparr>))"

text \<open>\<open>pending.remove(step)\<close> raises ValueError when the step is not there.\<close>

definition remove_pending :: "step \<Rightarrow> dispatcher \<Rightarrow> exn + dispatcher" where
  "remove_pending s d =
     (if s \<notin> set (di_pending d) then Inl (Exn ''ValueError'' ''list.remove(x): x not in list'')
      else Inr (d\<lparr>di_pending := remove1 s (di_pending d)\<rparr>))"

definition mark_complete :: "step \<Rightarrow> dispatcher \<Rightarrow> exn + dispatcher" where
  "mark_complete s d =
     (case remove_pending s d of
        Inl e \<Rightarrow> Inl e
      | Inr d' \<Rightarrow> Inr (d'\<lparr>di_in_flight := di_in_flight d' - {step_name s},
                          di_completed := insert (step_name s) (di_completed d')\<rparr>))"

definition mark_terminal :: "step \<Rightarrow> dispatcher \<Rightarrow> exn + dispatcher" where
  "mark_terminal s d =
     (case remove_pending s d of
        Inl e \<Rightarrow> Inl e
      | Inr d' \<Rightarrow> Inr (d'\<lparr>di_in_flight := di_in_flight d' - {step_name s}\<rparr>))"

text \<open>Every step with a name in flight stays, so removing the waiting ones one after the other
  leaves exactly the others.\<close>

definition cancel_waiting :: "dispatcher \<Rightarrow> step list \<times> dispatcher" where
  "cancel_waiting d =
     (let waiting = filter (\<lambda>s. step_name s \<notin> di_in_flight d) (di_pending d)
      in (waiting, d\<lparr>di_pending := foldl (\<lambda>p s. remove1 s p) (di_pending d) waiting\<rparr>))"

definition di_restore :: "string set \<Rightarrow> string set \<Rightarrow> dispatcher \<Rightarrow> dispatcher" where
  "di_restore terminal satisfied d =
     d\<lparr>di_pending := filter (\<lambda>s. step_name s \<notin> terminal) (di_pending d),
       di_completed := satisfied, di_in_flight := {}\<rparr>"

subsection \<open>Runtime\<close>

record runtime =
  ru_context :: exec_context
  ru_dispatcher :: dispatcher

definition new_runtime :: "step list \<Rightarrow> data \<Rightarrow> runtime" where
  "new_runtime steps inputs =
     \<lparr>ru_context =
        \<lparr>xc_workflow = \<lparr>cx_inputs = inputs, cx_shared = [], cx_results = [], cx_previous = VNone\<rparr>,
         xc_state = ES_PENDING, xc_completed = {}, xc_running = {}, xc_failed = {},
         xc_cancelled = {}, xc_skipped = {}, xc_retries = [], xc_step_results = []\<rparr>,
      ru_dispatcher = new_dispatcher steps {}\<rparr>"

definition ru_apply :: "(exec_context \<Rightarrow> exn + exec_context) \<Rightarrow> runtime \<Rightarrow> exn + runtime" where
  "ru_apply f r =
     (case f (ru_context r) of Inl e \<Rightarrow> Inl e | Inr c \<Rightarrow> Inr (r\<lparr>ru_context := c\<rparr>))"

definition ru_start :: "runtime \<Rightarrow> exn + runtime" where
  "ru_start r = ru_apply (xc_transition ES_RUNNING) r"

definition ru_pause :: "runtime \<Rightarrow> exn + runtime" where
  "ru_pause r = ru_apply xc_pause r"

definition ru_resume :: "runtime \<Rightarrow> exn + runtime" where
  "ru_resume r = ru_apply xc_resume r"

definition ru_cancel :: "runtime \<Rightarrow> exn + runtime" where
  "ru_cancel r = ru_apply xc_cancel r"

definition ru_checkpoint :: "runtime \<Rightarrow> bool" where
  "ru_checkpoint r \<longleftrightarrow> xc_state (ru_context r) = ES_RUNNING"

definition pause_requested :: "runtime \<Rightarrow> bool" where
  "pause_requested r \<longleftrightarrow> xc_state (ru_context r) = ES_PAUSING"

definition cancel_requested :: "runtime \<Rightarrow> bool" where
  "cancel_requested r \<longleftrightarrow> xc_state (ru_context r) = ES_CANCELLING"

text \<open>The two transitions of \<open>prepare_dispatch\<close> are always legal, so the right-hand sides write
  the state directly; \<open>prepare_dispatch_legal\<close> below shows it.\<close>

definition prepare_dispatch :: "runtime \<Rightarrow> bool \<times> runtime" where
  "prepare_dispatch r =
     (let c = ru_context r;
          c1 = (if xc_state c = ES_RESUMING then c\<lparr>xc_state := ES_RUNNING\<rparr> else c)
      in if xc_state c1 = ES_PAUSING
         then (False, r\<lparr>ru_context := if xc_running c1 = {} then c1\<lparr>xc_state := ES_PAUSED\<rparr> else c1\<rparr>)
         else (can_dispatch c1, r\<lparr>ru_context := c1\<rparr>))"

definition ru_complete :: "runtime \<Rightarrow> runtime" where
  "ru_complete r =
     (if xc_state (ru_context r) = ES_RUNNING
      then r\<lparr>ru_context := (ru_context r)\<lparr>xc_state := ES_COMPLETED\<rparr>\<rparr> else r)"

definition ru_fail :: "runtime \<Rightarrow> runtime" where
  "ru_fail r =
     (if xc_state (ru_context r) = ES_RUNNING
      then r\<lparr>ru_context := (ru_context r)\<lparr>xc_state := ES_FAILED\<rparr>\<rparr> else r)"

definition finish_cancel :: "runtime \<Rightarrow> runtime" where
  "finish_cancel r =
     (let (waiting, d) = cancel_waiting (ru_dispatcher r);
          c = ru_context r;
          c1 = c\<lparr>xc_cancelled := xc_cancelled c \<union> set (map step_name waiting)\<rparr>;
          c2 = (if xc_state c1 = ES_CANCELLING \<and> xc_running c1 = {}
                then c1\<lparr>xc_state := ES_CANCELLED\<rparr> else c1)
      in r\<lparr>ru_context := c2, ru_dispatcher := d\<rparr>)"

definition ru_restore :: "exec_context \<Rightarrow> string set \<Rightarrow> runtime \<Rightarrow> runtime" where
  "ru_restore c completed r =
     (let c' = c\<lparr>xc_completed := completed\<rparr>;
          terminal = xc_completed c' \<union> xc_skipped c' \<union> xc_failed c' \<union> xc_cancelled c';
          satisfied = xc_completed c' \<union> xc_skipped c'
      in r\<lparr>ru_context := c', ru_dispatcher := di_restore terminal satisfied (ru_dispatcher r)\<rparr>)"

subsection \<open>The execution lifecycle of a runtime\<close>

inductive exec_edge :: "execution_state \<Rightarrow> execution_state \<Rightarrow> bool" where
  edge: "t \<in> set (execution_targets s) \<Longrightarrow> exec_edge s t"

inductive_cases exec_edgeE [elim]: "exec_edge s t"

inductive_simps exec_edge_from [simp]:
  "exec_edge ES_PENDING t" "exec_edge ES_RUNNING t" "exec_edge ES_PAUSING t"
  "exec_edge ES_PAUSED t" "exec_edge ES_RESUMING t" "exec_edge ES_CANCELLING t"
  "exec_edge ES_CANCELLED t" "exec_edge ES_COMPLETED t" "exec_edge ES_FAILED t"

definition exec_terminal :: "execution_state \<Rightarrow> bool" where
  "exec_terminal s \<longleftrightarrow> s = ES_CANCELLED \<or> s = ES_COMPLETED \<or> s = ES_FAILED"

lemma exec_terminal_edge: "exec_terminal s \<Longrightarrow> \<not> exec_edge s t"
  by (auto simp: exec_terminal_def)

lemma validate_transition_edge:
  "validate_transition s t = Inr () \<longleftrightarrow> exec_edge s t"
  by (simp add: validate_transition_def exec_edge.simps)

datatype runtime_op =
    Op_Start | Op_Pause | Op_Resume | Op_Cancel | Op_Prepare | Op_Complete | Op_Fail | Op_Finish_Cancel

text \<open>A request that raises leaves the runtime as it was.\<close>

definition try_op :: "(runtime \<Rightarrow> exn + runtime) \<Rightarrow> runtime \<Rightarrow> runtime" where
  "try_op f r = (case f r of Inl _ \<Rightarrow> r | Inr r' \<Rightarrow> r')"

fun ru_op :: "runtime_op \<Rightarrow> runtime \<Rightarrow> runtime" where
  "ru_op Op_Start r = try_op ru_start r"
| "ru_op Op_Pause r = try_op ru_pause r"
| "ru_op Op_Resume r = try_op ru_resume r"
| "ru_op Op_Cancel r = try_op ru_cancel r"
| "ru_op Op_Prepare r = snd (prepare_dispatch r)"
| "ru_op Op_Complete r = ru_complete r"
| "ru_op Op_Fail r = ru_fail r"
| "ru_op Op_Finish_Cancel r = finish_cancel r"

abbreviation ru_state :: "runtime \<Rightarrow> execution_state" where
  "ru_state r \<equiv> xc_state (ru_context r)"

lemma try_op_transition:
  "ru_state (try_op (ru_apply (xc_transition t)) r) = ru_state r \<or>
   exec_edge (ru_state r) (ru_state (try_op (ru_apply (xc_transition t)) r))"
  by (auto simp: try_op_def ru_apply_def xc_transition_def validate_transition_def
      exec_edge.simps split: sum.splits if_splits)

lemma ru_op_transition:
  "ru_op Op_Start r = try_op (ru_apply (xc_transition ES_RUNNING)) r"
  "ru_op Op_Pause r = try_op (ru_apply (xc_transition ES_PAUSING)) r"
  "ru_op Op_Resume r = try_op (ru_apply (xc_transition ES_RESUMING)) r"
  "ru_op Op_Cancel r = try_op (ru_apply (xc_transition
     (if ru_state r = ES_PENDING then ES_CANCELLED else ES_CANCELLING))) r"
  by (simp_all add: ru_start_def ru_pause_def ru_resume_def ru_cancel_def xc_pause_def
      xc_resume_def xc_cancel_def ru_apply_def try_op_def)

lemma ru_op_edge:
  "ru_state (ru_op op r) = ru_state r \<or> exec_edge (ru_state r) (ru_state (ru_op op r))"
  by (cases op; (simp only: ru_op_transition try_op_transition)?)
    (auto simp: prepare_dispatch_def ru_complete_def ru_fail_def finish_cancel_def Let_def
      split: prod.splits)

lemma prepare_dispatch_legal:
  "ru_state (snd (prepare_dispatch r)) = ru_state r \<or>
   exec_edge (ru_state r) (ru_state (snd (prepare_dispatch r)))"
  using ru_op_edge [of Op_Prepare r] by simp

lemma prepare_dispatch_running:
  "fst (prepare_dispatch r) \<longleftrightarrow> ru_state r = ES_RUNNING \<or> ru_state r = ES_RESUMING"
  "fst (prepare_dispatch r) \<Longrightarrow> ru_state (snd (prepare_dispatch r)) = ES_RUNNING"
  "ru_dispatcher (snd (prepare_dispatch r)) = ru_dispatcher r"
  by (auto simp: prepare_dispatch_def can_dispatch_def Let_def)

lemma ru_op_terminal:
  "exec_terminal (ru_state r) \<Longrightarrow> ru_state (fold ru_op ops r) = ru_state r"
proof (induction ops arbitrary: r)
  case (Cons op ops)
  have "ru_state (ru_op op r) = ru_state r"
    using ru_op_edge [of op r] exec_terminal_edge [OF Cons.prems] by blast
  with Cons show ?case by simp
qed simp

text \<open>C11: under any sequence of control operations (start, pause, resume, cancel, dispatch
  preparation, completion, failure, closing a cancellation) the state of a runtime moves along the
  edges of the transition table only, a completed, failed or cancelled runtime keeps its state
  for ever, and work may be dispatched exactly when the state is RUNNING or RESUMING, which
  preparation turns into RUNNING.\<close>

theorem runtime_state_machine:
  "exec_edge\<^sup>*\<^sup>* (ru_state r) (ru_state (fold ru_op ops r)) \<and>
   (exec_terminal (ru_state r) \<longrightarrow> ru_state (fold ru_op ops r) = ru_state r) \<and>
   (fst (prepare_dispatch r) \<longleftrightarrow> ru_state r = ES_RUNNING \<or> ru_state r = ES_RESUMING)"
proof (intro conjI)
  show "exec_edge\<^sup>*\<^sup>* (ru_state r) (ru_state (fold ru_op ops r))"
  proof (induction ops arbitrary: r)
    case (Cons op ops)
    have "exec_edge\<^sup>*\<^sup>* (ru_state r) (ru_state (ru_op op r))"
      using ru_op_edge [of op r] by auto
    with Cons.IH [of "ru_op op r"] show ?case by (simp add: rtranclp_trans)
  qed simp
qed (use ru_op_terminal prepare_dispatch_running in blast)+

theorem runtime_state_machine_witness:
  "let r = ru_op Op_Cancel (new_runtime [] [])
   in ru_state r = ES_CANCELLED \<and> ru_state (fold ru_op [Op_Start, Op_Resume] r) = ES_CANCELLED"
  using runtime_state_machine [of "ru_op Op_Cancel (new_runtime [] [])" "[Op_Start, Op_Resume]"]
  by (simp add: try_op_def ru_cancel_def ru_apply_def xc_cancel_def xc_transition_def
      validate_transition_def new_runtime_def exec_terminal_def)

end
