(* ===== verification/Workflow_Checkpoint.thy ===== *)
theory Workflow_Checkpoint
  imports Workflow_Runtime
begin

text \<open>
  Checkpoints of a workflow run (\<open>checkpoint.py\<close>, \<open>recovery.py\<close>): conversion of values to
  JSON, the checkpoint of a runtime, the checkpoint store, and the reconstruction of a runtime
  from a checkpoint. The text of the JSON export is not modelled; what it carries is.
\<close>

subsection \<open>JSON-safe values\<close>

primrec json_safe :: "pyval \<Rightarrow> pyval" where
  "json_safe VNone = VNone"
| "json_safe (VBool b) = VBool b"
| "json_safe (VInt n) = VInt n"
| "json_safe (VFloat x) = VFloat x"
| "json_safe (VStr s) = VStr s"
| "json_safe (VList vs) = VList (map json_safe vs)"
| "json_safe (VTuple vs) = VList (map json_safe vs)"
| "json_safe (VSet vs) = VList (map json_safe vs)"
| "json_safe (VDict kvs) = VDict (map (map_prod id json_safe) kvs)"
| "json_safe (VObj r c) = VStr r"

primrec is_json :: "pyval \<Rightarrow> bool" where
  "is_json VNone = True"
| "is_json (VBool b) = True"
| "is_json (VInt n) = True"
| "is_json (VFloat x) = True"
| "is_json (VStr s) = True"
| "is_json (VList vs) = list_all id (map is_json vs)"
| "is_json (VTuple vs) = False"
| "is_json (VSet vs) = False"
| "is_json (VDict kvs) = list_all snd (map (map_prod id is_json) kvs)"
| "is_json (VObj r c) = False"

text \<open>Whether \<open>copy.deepcopy\<close> accepts a value.\<close>

primrec copyable :: "pyval \<Rightarrow> bool" where
  "copyable VNone = True"
| "copyable (VBool b) = True"
| "copyable (VInt n) = True"
| "copyable (VFloat x) = True"
| "copyable (VStr s) = True"
| "copyable (VList vs) = list_all id (map copyable vs)"
| "copyable (VTuple vs) = list_all id (map copyable vs)"
| "copyable (VSet vs) = list_all id (map copyable vs)"
| "copyable (VDict kvs) = list_all snd (map (map_prod id copyable) kvs)"
| "copyable (VObj r c) = (c \<noteq> None)"

text \<open>The deep copy of a value. An object is printed only after it has been copied, so what a checkpoint
  holds of it is the \<open>repr\<close> of its copy.\<close>

primrec deep_copy :: "pyval \<Rightarrow> pyval" where
  "deep_copy VNone = VNone"
| "deep_copy (VBool b) = VBool b"
| "deep_copy (VInt n) = VInt n"
| "deep_copy (VFloat x) = VFloat x"
| "deep_copy (VStr s) = VStr s"
| "deep_copy (VList vs) = VList (map deep_copy vs)"
| "deep_copy (VTuple vs) = VTuple (map deep_copy vs)"
| "deep_copy (VSet vs) = VSet (map deep_copy vs)"
| "deep_copy (VDict kvs) = VDict (map (map_prod id deep_copy) kvs)"
| "deep_copy (VObj r c) = VObj (case c of Some q \<Rightarrow> q | None \<Rightarrow> r) c"

definition json_copy :: "pyval \<Rightarrow> pyval" where
  "json_copy v = json_safe (deep_copy v)"

abbreviation json_data :: "data \<Rightarrow> data" where
  "json_data d \<equiv> map (map_prod id json_copy) d"

abbreviation copyable_data :: "data \<Rightarrow> bool" where
  "copyable_data d \<equiv> list_all (\<lambda>(k, v). copyable v) d"

lemma is_json_json_safe [simp]: "is_json (json_safe v)"
  by (induction v) (auto simp: list_all_iff)

lemma json_safe_is_json: "is_json v \<Longrightarrow> json_safe v = v"
proof (induction v)
  case (VList vs)
  then show ?case by (simp add: list_all_iff map_idI)
next
  case (VDict kvs)
  have "map_prod id json_safe kv = kv" if kv: "kv \<in> set kvs" for kv
  proof (cases kv)
    case (Pair k v)
    have "is_json v" using VDict.prems kv Pair by (auto simp: list_all_iff)
    with VDict.IH [OF kv, of v] Pair show ?thesis by (simp add: snds.intros)
  qed
  then show ?case by (simp add: map_idI)
qed simp_all

lemma deep_copy_json_safe [simp]: "deep_copy (json_safe v) = json_safe v"
proof (induction v)
  case (VDict kvs)
  then show ?case by (force simp: prod.map_comp snds.intros)
qed simp_all

lemma json_copy_VDict [simp]: "json_copy (VDict d) = VDict (json_data d)"
  by (auto simp: json_copy_def prod.map_comp)

lemma json_copy_idem [simp]: "json_copy (json_copy v) = json_copy v"
  by (simp add: json_copy_def json_safe_is_json)

lemma json_data_idem [simp]: "json_data (json_data d) = json_data d"
  by (simp add: prod.map_comp comp_def id_def)

lemma is_json_json_copy [simp]: "is_json (json_copy v)"
  by (simp add: json_copy_def)

lemma copyable_json_safe: "copyable (json_safe v)"
  by (induction v) (auto simp: list_all_iff)

lemma copyable_json_copy [simp]: "copyable (json_copy v)"
  by (simp add: json_copy_def copyable_json_safe)

subsection \<open>Checkpoints\<close>

record checkpoint =
  ck_context :: data
  ck_state :: string
  ck_ready :: "string list"
  ck_waiting :: "string list"
  ck_running :: "string list"
  ck_completed :: "string list"
  ck_failed :: "string list"
  ck_cancelled :: "string list"
  ck_skipped :: "string list"
  ck_retries :: "(string, int) dict"
  ck_step_results :: "(string, stored_result) dict"

definition copyable_results :: "(string, stored_result) dict \<Rightarrow> bool" where
  "copyable_results d \<longleftrightarrow> list_all (\<lambda>(n, r). copyable (so_output r)) d"

definition type_error :: exn where
  "type_error = Exn ''TypeError'' ''cannot pickle object''"

text \<open>\<open>Checkpoint.from_dict(checkpoint.to_dict())\<close>: \<open>asdict\<close> copies every value deeply, then the
  copy is made JSON-safe.\<close>

definition ck_detach :: "checkpoint \<Rightarrow> exn + checkpoint" where
  "ck_detach c =
     (if \<not> copyable_data (ck_context c) \<or> \<not> copyable_results (ck_step_results c)
      then Inl type_error
      else Inr (c\<lparr>ck_context := json_data (ck_context c),
        ck_step_results := map (map_prod id (\<lambda>r. r\<lparr>so_output := json_copy (so_output r)\<rparr>))
          (ck_step_results c)\<rparr>))"

definition state_names :: "(string \<times> execution_state) list" where
  "state_names =
     [(''PENDING'', ES_PENDING), (''RUNNING'', ES_RUNNING), (''PAUSING'', ES_PAUSING),
      (''PAUSED'', ES_PAUSED), (''RESUMING'', ES_RESUMING), (''CANCELLING'', ES_CANCELLING),
      (''CANCELLED'', ES_CANCELLED), (''COMPLETED'', ES_COMPLETED), (''FAILED'', ES_FAILED)]"

fun state_name :: "execution_state \<Rightarrow> string" where
  "state_name ES_PENDING = ''PENDING''"
| "state_name ES_RUNNING = ''RUNNING''"
| "state_name ES_PAUSING = ''PAUSING''"
| "state_name ES_PAUSED = ''PAUSED''"
| "state_name ES_RESUMING = ''RESUMING''"
| "state_name ES_CANCELLING = ''CANCELLING''"
| "state_name ES_CANCELLED = ''CANCELLED''"
| "state_name ES_COMPLETED = ''COMPLETED''"
| "state_name ES_FAILED = ''FAILED''"

lemma state_of_name [simp]: "map_of state_names (state_name s) = Some s"
  by (cases s) (simp_all add: state_names_def)

definition checkpoint_of :: "runtime \<Rightarrow> checkpoint" where
  "checkpoint_of r =
     (let c = ru_context r;
          ready = map step_name (next_ready (ru_dispatcher r))
      in \<lparr>ck_context =
            [(''inputs'', VDict (cx_inputs (xc_workflow c))),
             (''shared'', VDict (cx_shared (xc_workflow c))),
             (''results'', VDict (cx_results (xc_workflow c))),
             (''previous_result'', cx_previous (xc_workflow c))],
          ck_state = state_name (xc_state c),
          ck_ready = ready,
          ck_waiting = filter (\<lambda>n. n \<notin> set ready) (map step_name (di_pending (ru_dispatcher r))),
          ck_running = sorted_list_of_set (xc_running c),
          ck_completed = sorted_list_of_set (xc_completed c),
          ck_failed = sorted_list_of_set (xc_failed c),
          ck_cancelled = sorted_list_of_set (xc_cancelled c),
          ck_skipped = sorted_list_of_set (xc_skipped c),
          ck_retries = xc_retries c,
          ck_step_results = xc_step_results c\<rparr>)"

type_synonym checkpoint_store = "(string, checkpoint) dict"

definition create_checkpoint ::
  "string \<Rightarrow> runtime \<Rightarrow> checkpoint_store \<Rightarrow> (exn + checkpoint) \<times> checkpoint_store" where
  "create_checkpoint name r items =
     (case ck_detach (checkpoint_of r) of
        Inl e \<Rightarrow> (Inl e, items)
      | Inr c \<Rightarrow> (Inr c, AList.update name c items))"

definition load_checkpoint :: "string \<Rightarrow> checkpoint_store \<Rightarrow> exn + checkpoint" where
  "load_checkpoint name items =
     (case map_of items name of
        None \<Rightarrow> Inl (Exn ''KeyError'' ''Checkpoint was not found'')
      | Some c \<Rightarrow> ck_detach c)"

definition import_checkpoint ::
  "string \<Rightarrow> checkpoint \<Rightarrow> checkpoint_store \<Rightarrow> (exn + checkpoint) \<times> checkpoint_store" where
  "import_checkpoint name c items =
     (case ck_detach c of
        Inl e \<Rightarrow> (Inl e, items)
      | Inr c' \<Rightarrow>
          let items' = AList.update name c' items in (load_checkpoint name items', items'))"

subsection \<open>Recovery\<close>

text \<open>\<open>dict(context_data.get(key, {}))\<close>: a mapping is copied, an empty sequence makes an empty
  dictionary, and other values are rejected (a sequence of pairs, which \<open>dict\<close> also accepts, is
  outside the model).\<close>

definition context_dict :: "data \<Rightarrow> string \<Rightarrow> exn + data" where
  "context_dict d k =
     (case map_of d k of
        None \<Rightarrow> Inr []
      | Some (VDict kvs) \<Rightarrow> Inr (dict_merge [] kvs)
      | Some (VList []) \<Rightarrow> Inr []
      | Some (VTuple []) \<Rightarrow> Inr []
      | Some (VSet []) \<Rightarrow> Inr []
      | Some (VStr []) \<Rightarrow> Inr []
      | Some _ \<Rightarrow> Inl (Exn ''TypeError'' ''not a mapping''))"

definition ck_referenced :: "checkpoint \<Rightarrow> string set" where
  "ck_referenced c =
     set (ck_ready c) \<union> set (ck_waiting c) \<union> set (ck_running c) \<union> set (ck_completed c) \<union>
     set (ck_failed c) \<union> set (ck_cancelled c) \<union> set (ck_skipped c)"

definition restore_runtime :: "runtime \<Rightarrow> checkpoint \<Rightarrow> exn + runtime" where
  "restore_runtime r c =
     (if \<not> ck_referenced c \<subseteq> set (map step_name (di_pending (ru_dispatcher r)))
      then Inl (Exn ''RecoveryError'' ''Checkpoint contains unknown step(s)'')
      else case map_of state_names (ck_state c) of
             None \<Rightarrow> Inl (Exn ''RecoveryError'' ''Unknown execution state'')
           | Some state \<Rightarrow>
               (case (context_dict (ck_context c) ''inputs'', context_dict (ck_context c) ''shared'',
                      context_dict (ck_context c) ''results'') of
                  (Inr inputs, Inr shared, Inr results) \<Rightarrow>
                    let execution =
                      \<lparr>xc_workflow =
                         \<lparr>cx_inputs = inputs, cx_shared = shared, cx_results = results,
                          cx_previous = dict_get (ck_context c) ''previous_result'' VNone\<rparr>,
                       xc_state = state,
                       xc_completed = set (ck_completed c), xc_running = set (ck_running c),
                       xc_failed = set (ck_failed c), xc_cancelled = set (ck_cancelled c),
                       xc_skipped = set (ck_skipped c), xc_retries = ck_retries c,
                       xc_step_results = ck_step_results c\<rparr>
                    in Inr (ru_restore execution (xc_completed execution) r)
                | _ \<Rightarrow> Inl (Exn ''TypeError'' ''not a mapping'')))"

subsection \<open>Round trip\<close>

text \<open>What a recovery keeps of a runtime.\<close>

definition json_context :: "wf_context \<Rightarrow> wf_context" where
  "json_context c =
     \<lparr>cx_inputs = json_data (cx_inputs c), cx_shared = json_data (cx_shared c),
      cx_results = json_data (cx_results c), cx_previous = json_copy (cx_previous c)\<rparr>"

definition copyable_context :: "wf_context \<Rightarrow> bool" where
  "copyable_context c \<longleftrightarrow> copyable_data (cx_inputs c) \<and> copyable_data (cx_shared c) \<and>
     copyable_data (cx_results c) \<and> copyable (cx_previous c)"

definition recorded_names :: "exec_context \<Rightarrow> string set" where
  "recorded_names c =
     xc_running c \<union> xc_completed c \<union> xc_failed c \<union> xc_cancelled c \<union> xc_skipped c"

definition recovered :: "step list \<Rightarrow> runtime \<Rightarrow> runtime" where
  "recovered steps r =
     (let c = ru_context r
      in \<lparr>ru_context = c\<lparr>xc_workflow := json_context (xc_workflow c),
            xc_step_results := map (map_prod id (\<lambda>s. s\<lparr>so_output := json_copy (so_output s)\<rparr>))
              (xc_step_results c)\<rparr>,
          ru_dispatcher =
            \<lparr>di_pending = filter (\<lambda>s. step_name s \<notin>
                xc_completed c \<union> xc_skipped c \<union> xc_failed c \<union> xc_cancelled c) steps,
             di_completed = xc_completed c \<union> xc_skipped c, di_in_flight = {}\<rparr>\<rparr>)"

lemma dict_merge_Nil: "dict_ok d \<Longrightarrow> dict_merge [] d = d"
proof -
  have "dict_ok (a @ d) \<Longrightarrow> fold (\<lambda>(k, v). AList.update k v) d a = a @ d" for a
  proof (induction d arbitrary: a)
    case (Cons x d)
    obtain k v where x: "x = (k, v)" by (cases x)
    have "AList.update k v a = a @ [(k, v)]"
      using Cons.prems x by (induction a) auto
    then show ?case using Cons x by simp
  qed simp
  from this [of "[]"] show "dict_ok d \<Longrightarrow> dict_merge [] d = d" by (simp add: dict_merge_def)
qed

lemma dict_ok_json_data [simp]: "dict_ok (json_data d) \<longleftrightarrow> dict_ok d"
  by (simp add: comp_def)

lemma copyable_VDict: "copyable (VDict d) \<longleftrightarrow> copyable_data d"
  by (auto simp: list_all_iff)

text \<open>C4: a checkpoint of a runtime whose recorded step names belong to its definition and whose
  values can be copied is created and stored, loading it again returns the same checkpoint, and
  restoring it into a fresh runtime of the same definition succeeds. The result has the same
  state, the same running, completed, failed, cancelled and skipped steps and the same retry
  counters, the values in JSON form, and a queue that holds exactly the steps without a
  terminal result, in definition order.\<close>

theorem checkpoint_roundtrip:
  assumes "recorded_names (ru_context r) \<union> set (map step_name (di_pending (ru_dispatcher r)))
      \<subseteq> set (map step_name steps)"
    and "copyable_context (xc_workflow (ru_context r))"
    and "copyable_results (xc_step_results (ru_context r))"
    and "dict_ok (cx_inputs (xc_workflow (ru_context r)))"
      "dict_ok (cx_shared (xc_workflow (ru_context r)))"
      "dict_ok (cx_results (xc_workflow (ru_context r)))"
  shows "\<exists>c. create_checkpoint name r items = (Inr c, AList.update name c items) \<and>
     load_checkpoint name (AList.update name c items) = Inr c \<and>
     restore_runtime (new_runtime steps inputs) c = Inr (recovered steps r)"
proof -
  let ?c = "ru_context r"
  have ctx: "copyable_data (ck_context (checkpoint_of r))"
    using assms(2) copyable_VDict by (simp add: checkpoint_of_def Let_def copyable_context_def)
  have res: "copyable_results (ck_step_results (checkpoint_of r))"
    using assms(3) by (simp add: checkpoint_of_def Let_def)
  define c where "c = (checkpoint_of r)\<lparr>ck_context := json_data (ck_context (checkpoint_of r)),
    ck_step_results := map (map_prod id (\<lambda>r. r\<lparr>so_output := json_copy (so_output r)\<rparr>))
      (ck_step_results (checkpoint_of r))\<rparr>"
  have create: "ck_detach (checkpoint_of r) = Inr c"
    using ctx res by (simp add: ck_detach_def c_def)
  have again: "ck_detach c = Inr c"
    by (auto simp: ck_detach_def c_def list_all_iff copyable_results_def prod.map_comp comp_def
        id_def)
  have fin: "finite (recorded_names ?c)" using assms(1) finite_subset by blast
  then have "finite (xc_running ?c)" "finite (xc_completed ?c)" "finite (xc_failed ?c)"
    "finite (xc_cancelled ?c)" "finite (xc_skipped ?c)"
    by (simp_all add: recorded_names_def)
  note sets = this [THEN set_sorted_list_of_set]
  have ready: "set (ck_ready c) \<union> set (ck_waiting c) \<subseteq> set (map step_name (di_pending (ru_dispatcher r)))"
    by (auto simp: c_def checkpoint_of_def Let_def next_ready_def)
  have fields: "ck_running c = sorted_list_of_set (xc_running ?c)"
    "ck_completed c = sorted_list_of_set (xc_completed ?c)"
    "ck_failed c = sorted_list_of_set (xc_failed ?c)"
    "ck_cancelled c = sorted_list_of_set (xc_cancelled ?c)"
    "ck_skipped c = sorted_list_of_set (xc_skipped ?c)" "ck_retries c = xc_retries ?c"
    "ck_state c = state_name (xc_state ?c)"
    by (simp_all add: c_def checkpoint_of_def Let_def)
  have known: "ck_referenced c \<subseteq> set (map step_name steps)"
    using assms(1) ready sets unfolding ck_referenced_def fields recorded_names_def by auto
  have dicts: "context_dict (ck_context c) ''inputs'' = Inr (json_data (cx_inputs (xc_workflow ?c)))"
    "context_dict (ck_context c) ''shared'' = Inr (json_data (cx_shared (xc_workflow ?c)))"
    "context_dict (ck_context c) ''results'' = Inr (json_data (cx_results (xc_workflow ?c)))"
    "dict_get (ck_context c) ''previous_result'' VNone = json_copy (cx_previous (xc_workflow ?c))"
    using assms(4-6)
    by (simp_all add: c_def checkpoint_of_def Let_def context_dict_def dict_merge_Nil dict_get_def)
  have stored: "ck_step_results c =
      map (map_prod id (\<lambda>s. s\<lparr>so_output := json_copy (so_output s)\<rparr>)) (xc_step_results ?c)"
    by (simp add: c_def checkpoint_of_def Let_def)
  have "restore_runtime (new_runtime steps inputs) c = Inr (recovered steps r)"
    using known dicts stored sets fields
    by (simp add: restore_runtime_def new_runtime_def new_dispatcher_def ru_restore_def
        di_restore_def recovered_def json_context_def Let_def)
  with create again show ?thesis
    by (auto simp: create_checkpoint_def load_checkpoint_def)
qed

definition sample_step :: "string \<Rightarrow> string list \<Rightarrow> step" where
  "sample_step n deps =
     \<lparr>st_task = n, st_handler = n, st_condition = None, st_loop = 1, st_retries = 0, st_name = n,
      st_dependencies = deps, st_timeout = None, st_retry = None, st_enabled = True,
      st_continue_on_error = False, st_iterable = None, st_loop_condition = None,
      st_max_iterations = 100\<rparr>"

lemma step_name_sample [simp]: "n \<noteq> '''' \<Longrightarrow> step_name (sample_step n deps) = n"
  by (simp add: step_name_def sample_step_def)

definition sample_runtime :: runtime where
  "sample_runtime =
     (let r = new_runtime [sample_step ''a'' [], sample_step ''b'' [''a'']] [];
          c = ru_context r
      in r\<lparr>ru_context := c\<lparr>xc_state := ES_PAUSED, xc_completed := {''a''},
             xc_workflow := (xc_workflow c)\<lparr>cx_results := [(''a'', VTuple [VInt 1])]\<rparr>\<rparr>,
           ru_dispatcher := (ru_dispatcher r)\<lparr>di_pending := [sample_step ''b'' [''a'']],
             di_completed := {''a''}\<rparr>\<rparr>)"

theorem checkpoint_roundtrip_witness:
  "\<exists>c. create_checkpoint ''wf'' sample_runtime [] = (Inr c, [(''wf'', c)]) \<and>
     restore_runtime (new_runtime [sample_step ''a'' [], sample_step ''b'' [''a'']] []) c =
       Inr (recovered [sample_step ''a'' [], sample_step ''b'' [''a'']] sample_runtime)"
  using checkpoint_roundtrip [of sample_runtime "[sample_step ''a'' [], sample_step ''b'' [''a'']]"
      "''wf''" "[]" "[]"]
  by (auto simp: sample_runtime_def new_runtime_def new_dispatcher_def recorded_names_def
      copyable_context_def copyable_results_def Let_def)

text \<open>One step output that \<open>copy.deepcopy\<close> rejects makes every checkpoint of the runtime
  raise TypeError, although unknown values are meant to be exported as their \<open>repr\<close>; nothing is
  stored.\<close>

theorem uncopyable_output_blocks_checkpoint:
  assumes "(n, s) \<in> set (xc_step_results (ru_context r))" and "\<not> copyable (so_output s)"
  shows "create_checkpoint name r items = (Inl type_error, items)"
proof -
  have "\<not> copyable_results (ck_step_results (checkpoint_of r))"
    using assms by (auto simp: copyable_results_def list_all_iff checkpoint_of_def Let_def)
  then show ?thesis by (simp add: create_checkpoint_def ck_detach_def)
qed

theorem uncopyable_output_blocks_checkpoint_witness:
  "let c = ru_context (new_runtime [] []);
       r = (new_runtime [] [])\<lparr>ru_context := c\<lparr>xc_step_results :=
         [(''a'', \<lparr>so_status = ''COMPLETED'', so_output = VList [VObj ''<lock>'' None],
                   so_error = None, so_attempts = 1\<rparr>)]\<rparr>\<rparr>
   in create_checkpoint ''wf'' r [] = (Inl type_error, [])"
  unfolding Let_def by (rule uncopyable_output_blocks_checkpoint) auto

end
