(* ===== verification/Workflow_Engine.thy ===== *)
theory Workflow_Engine
  imports Workflow_Checkpoint "HOL-Library.Multiset"
begin

text \<open>
  Execution of workflows (\<open>executor.py\<close>, \<open>engine.py\<close>, the serial mode of \<open>scheduler.py\<close>). The
  environment gives a meaning to the names of handlers and conditions: a handler reads the
  context data it is passed and an outside state \<open>'w\<close>, and returns its outcome, the seconds it
  took (which a timeout is compared with) and the new outside state; an awaitable that it
  returns counts as its outcome. Conditions are pure. Requests to pause, resume or cancel that
  other threads make while a step runs are a function of the outside state after it. It also
  gives the base classes of the exception classes that handlers raise, which \<open>except\<close> clauses
  test; those of the source's own classes are \<open>class_bases\<close>. Nothing here holds a lock: a call of
  the engine is one caller's, from its start to its end. Events go to a log; a failing subscriber does not disturb a run. Messages of exceptions are abbreviated.
\<close>

datatype control = Request_Pause | Request_Resume | Request_Cancel

record 'w wf_env =
  en_handler :: "string \<Rightarrow> data \<Rightarrow> 'w \<Rightarrow> (exn + pyval) \<times> pyfloat \<times> 'w"
  en_condition :: "string \<Rightarrow> data \<Rightarrow> bool"
  en_requests :: "'w \<Rightarrow> control list"
  en_bases :: "string \<Rightarrow> string list"

datatype wf_event =
    StepStarted string int
  | TaskStarted string int
  | StepFailed string string
  | TaskFailed string string
  | StepRetried string int
  | StepCompleted string
  | TaskCompleted string pyval

record 'w xst =
  xs_world :: 'w
  xs_log :: "wf_event list"
  xs_slept :: "pyfloat list"

definition emit :: "wf_event list \<Rightarrow> 'w xst \<Rightarrow> 'w xst" where
  "emit es st = st\<lparr>xs_log := xs_log st @ es\<rparr>"

subsection \<open>Executor\<close>

definition should_run :: "'w wf_env \<Rightarrow> step \<Rightarrow> data \<Rightarrow> bool" where
  "should_run env s d \<longleftrightarrow>
     st_enabled s \<and> (case st_condition s of None \<Rightarrow> True | Some c \<Rightarrow> en_condition env c d)"

text \<open>\<open>isinstance(e, c)\<close> for the exceptions of this layer, which all descend from \<open>Exception\<close>.\<close>

definition class_bases :: "string \<Rightarrow> string list" where
  "class_bases c =
     (if c = ''RetryError'' then [''StepError'', ''WorkflowError'', ''TKAIError'']
      else if c = ''StepError'' \<or> c = ''ExecutionError'' then [''WorkflowError'', ''TKAIError'']
      else if c = ''WorkflowError'' then [''TKAIError''] else [])"

definition exn_isa :: "'w wf_env \<Rightarrow> exn \<Rightarrow> string \<Rightarrow> bool" where
  "exn_isa env e c \<longleftrightarrow>
     c = ''Exception'' \<or> c = exn_type e \<or> c \<in> set (class_bases (exn_type e)) \<or>
     c \<in> set (en_bases env (exn_type e))"

definition call_step :: "'w wf_env \<Rightarrow> step \<Rightarrow> data \<Rightarrow> 'w xst \<Rightarrow> (exn + pyval) \<times> 'w xst" where
  "call_step env s d st =
     (let (outcome, seconds, w) = en_handler env (st_handler s) d (xs_world st);
          st' = st\<lparr>xs_world := w\<rparr>
      in case st_timeout s of
           None \<Rightarrow> (outcome, st')
         | Some t \<Rightarrow>
             if py_lt t seconds then (Inl (Exn ''TimeoutError'' ''Step timed out''), st')
             else (case outcome of
                     Inl e \<Rightarrow>
                       (Inl (if exn_isa env e ''TimeoutError''
                             then Exn ''TimeoutError'' ''Step timed out'' else e), st')
                   | Inr v \<Rightarrow> (Inr v, st')))"

text \<open>\<open>time.sleep\<close> rejects NaN and negative delays, and delays beyond its 64-bit nanosecond
  clock.\<close>

definition sleep_error :: "pyfloat \<Rightarrow> exn option" where
  "sleep_error d =
     (case d of
        NaN \<Rightarrow> Some (Exn ''ValueError'' ''Invalid value NaN'')
      | NegInf \<Rightarrow> Some (Exn ''ValueError'' ''sleep length must be non-negative'')
      | PosInf \<Rightarrow> Some (Exn ''OverflowError'' ''timestamp too large'')
      | Fin x \<Rightarrow>
          if x < 0 then Some (Exn ''ValueError'' ''sleep length must be non-negative'')
          else if 2 ^ 63 \<le> x * 10 ^ 9 then Some (Exn ''OverflowError'' ''timestamp too large'')
          else None)"

definition retry_sleep :: "step_retry \<Rightarrow> int \<Rightarrow> 'w xst \<Rightarrow> exn option \<times> 'w xst" where
  "retry_sleep p attempt st =
     (case py_pow (pl_backoff p) (attempt - 1) of
        None \<Rightarrow> (Some (Exn ''OverflowError'' ''math range error''), st)
      | Some f \<Rightarrow>
          let d = py_mul (pl_delay p) f
          in case sleep_error d of
               Some e \<Rightarrow> (Some e, st)
             | None \<Rightarrow> (None, st\<lparr>xs_slept := xs_slept st @ [d]\<rparr>))"

definition step_policy :: "step \<Rightarrow> step_retry" where
  "step_policy s =
     (case st_retry s of
        Some p \<Rightarrow> p
      | None \<Rightarrow> \<lparr>pl_max_attempts = st_retries s + 1, pl_delay = Fin 0, pl_backoff = Fin 1,
                 pl_retry_on = [''Exception'']\<rparr>)"

definition retried_on :: "'w wf_env \<Rightarrow> step_retry \<Rightarrow> exn \<Rightarrow> bool" where
  "retried_on env p e \<longleftrightarrow> (\<exists>c \<in> set (pl_retry_on p). exn_isa env e c)"

fun attempts ::
  "'w wf_env \<Rightarrow> step \<Rightarrow> step_retry \<Rightarrow> data \<Rightarrow> int list \<Rightarrow> 'w xst \<Rightarrow> (exn + pyval) \<times> 'w xst" where
  "attempts env s p d [] st = (Inl (Exn ''AssertionError'' ''retry exhausted''), st)"
| "attempts env s p d (n # ns) st =
     (case call_step env s d (emit [StepStarted (st_name s) n, TaskStarted (st_task s) n] st) of
        (Inr v, st1) \<Rightarrow>
          (Inr v, emit [StepCompleted (st_name s), TaskCompleted (st_task s) v] st1)
      | (Inl e, st1) \<Rightarrow>
          if \<not> retried_on env p e then (Inl e, st1)
          else if n = pl_max_attempts p
          then (Inl (Exn ''RetryError'' ''Step failed''),
                emit [StepFailed (st_name s) (exn_msg e), TaskFailed (st_task s) (exn_msg e)] st1)
          else (case retry_sleep p n (emit [StepRetried (st_name s) n] st1) of
                  (Some x, st2) \<Rightarrow> (Inl x, st2)
                | (None, st2) \<Rightarrow> attempts env s p d ns st2))"

definition attempt_step :: "'w wf_env \<Rightarrow> step \<Rightarrow> data \<Rightarrow> 'w xst \<Rightarrow> (exn + pyval) \<times> 'w xst" where
  "attempt_step env s d st =
     attempts env s (step_policy s) d [1..pl_max_attempts (step_policy s)] st"

definition is_step_error :: "'w wf_env \<Rightarrow> exn \<Rightarrow> bool" where
  "is_step_error env e \<longleftrightarrow> exn_isa env e ''StepError''"

definition loop_items :: "step \<Rightarrow> pyval list" where
  "loop_items s = (case st_iterable s of Some xs \<Rightarrow> xs | None \<Rightarrow> map VInt [0..st_loop s - 1])"

text \<open>The loop of \<open>execute_result\<close> from index \<open>i\<close>; it also returns the context dictionary, where
  it leaves the last loop item.\<close>

fun run_items ::
  "'w wf_env \<Rightarrow> step \<Rightarrow> int \<Rightarrow> pyval list \<Rightarrow> pyval list \<Rightarrow> data \<Rightarrow> 'w xst \<Rightarrow>
     (exn + pyval list) \<times> data \<times> 'w xst" where
  "run_items env s i [] outs d st = (Inr outs, d, st)"
| "run_items env s i (x # xs) outs d st =
     (if st_max_iterations s \<le> i \<or>
         (case st_loop_condition s of None \<Rightarrow> False | Some c \<Rightarrow> \<not> en_condition env c d)
      then (Inr outs, d, st)
      else
        let d' = AList.update ''loop_item'' x d
        in case attempt_step env s d' st of
             (Inl e, st') \<Rightarrow> (Inl e, d', st')
           | (Inr v, st') \<Rightarrow> run_items env s (i + 1) xs (outs @ [v]) d' st')"

definition execute_result ::
  "'w wf_env \<Rightarrow> step \<Rightarrow> data \<Rightarrow> 'w xst \<Rightarrow> (exn + step_result) \<times> data \<times> 'w xst" where
  "execute_result env s d st =
     (if \<not> should_run env s d
      then (Inr \<lparr>sr_name = step_name s, sr_status = SS_SKIPPED, sr_output = VList [],
                 sr_error = None, sr_attempts = 0\<rparr>, d, st)
      else
        case run_items env s 0 (loop_items s) [] d st of
          (Inl e, d', st') \<Rightarrow>
            if is_step_error env e
            then (Inr \<lparr>sr_name = step_name s, sr_status = SS_FAILED, sr_output = VNone,
                       sr_error = Some e,
                       sr_attempts = (case st_retry s of Some p \<Rightarrow> pl_max_attempts p
                                                       | None \<Rightarrow> st_retries s + 1)\<rparr>, d', st')
            else (Inl e, d', st')
        | (Inr outs, d', st') \<Rightarrow>
            (Inr \<lparr>sr_name = step_name s, sr_status = SS_COMPLETED, sr_output = VList outs,
                  sr_error = None, sr_attempts = 1\<rparr>, d', st'))"

definition executor_execute ::
  "'w wf_env \<Rightarrow> step \<Rightarrow> data \<Rightarrow> 'w xst \<Rightarrow> (exn + pyval list) \<times> data \<times> 'w xst" where
  "executor_execute env s d st =
     (case execute_result env s d st of
        (Inl e, d', st') \<Rightarrow> (Inl e, d', st')
      | (Inr r, d', st') \<Rightarrow>
          (case (sr_status r, sr_error r) of
             (SS_FAILED, Some e) \<Rightarrow> (Inl e, d', st')
           | _ \<Rightarrow> (Inr (case sr_output r of VList vs \<Rightarrow> vs | v \<Rightarrow> [v]), d', st')))"

text \<open>\<open>Scheduler.run\<close> in serial mode: the steps share one context dictionary.\<close>

fun scheduler_run ::
  "'w wf_env \<Rightarrow> step list \<Rightarrow> data \<Rightarrow> 'w xst \<Rightarrow> (exn + pyval list list) \<times> data \<times> 'w xst" where
  "scheduler_run env [] d st = (Inr [], d, st)"
| "scheduler_run env (s # ss) d st =
     (case executor_execute env s d st of
        (Inl e, d', st') \<Rightarrow> (Inl e, d', st')
      | (Inr vs, d', st') \<Rightarrow>
          (case scheduler_run env ss d' st' of
             (Inl e, d'', st'') \<Rightarrow> (Inl e, d'', st'')
           | (Inr vss, d'', st'') \<Rightarrow> (Inr (vs # vss), d'', st'')))"

subsection \<open>Execution of a definition\<close>

record wf_definition =
  wd_name :: string
  wd_steps :: "step list"

record wf_result =
  wr_name :: string
  wr_status :: workflow_status
  wr_steps :: "step_result list"
  wr_output :: pyval
  wr_error :: "exn option"

definition record_result :: "step_result \<Rightarrow> wf_context \<Rightarrow> wf_context" where
  "record_result r c =
     c\<lparr>cx_results := AList.update (sr_name r) (sr_output r) (cx_results c),
       cx_previous := sr_output r\<rparr>"

fun run_ready ::
  "'w wf_env \<Rightarrow> step list \<Rightarrow> wf_context \<Rightarrow> step_result list \<Rightarrow> 'w xst \<Rightarrow>
     exn option \<times> wf_context \<times> step_result list \<times> 'w xst" where
  "run_ready env [] c rs st = (None, c, rs, st)"
| "run_ready env (s # ss) c rs st =
     (case execute_result env s (context_data c) st of
        (Inl e, _, st') \<Rightarrow> (Some e, c, rs, st')
      | (Inr r, _, st') \<Rightarrow>
          if sr_status r = SS_FAILED \<and> \<not> st_continue_on_error s
          then (sr_error r, record_result r c, rs @ [r], st')
          else run_ready env ss (record_result r c) (rs @ [r]) st')"

definition deps_met :: "wf_context \<Rightarrow> step \<Rightarrow> bool" where
  "deps_met c s \<longleftrightarrow> set (st_dependencies s) \<subseteq> set (map fst (cx_results c))"

definition circular_error :: exn where
  "circular_error = Exn ''WorkflowError'' ''Circular step dependency detected''"

lemma filter_rest_shorter:
  "filter P xs \<noteq> [] \<Longrightarrow> length (filter (\<lambda>x. \<not> P x) xs) < length xs"
  by (auto simp: filter_empty_conv intro: length_filter_less)

function run_rounds ::
  "'w wf_env \<Rightarrow> step list \<Rightarrow> wf_context \<Rightarrow> step_result list \<Rightarrow> 'w xst \<Rightarrow>
     exn option \<times> wf_context \<times> step_result list \<times> 'w xst" where
  "run_rounds env pending c rs st =
     (if pending = [] then (None, c, rs, st)
      else if filter (deps_met c) pending = [] then (Some circular_error, c, rs, st)
      else
        case run_ready env (filter (deps_met c) pending) c rs st of
          (Some e, c', rs', st') \<Rightarrow> (Some e, c', rs', st')
        | (None, c', rs', st') \<Rightarrow>
            run_rounds env (filter (\<lambda>s. \<not> deps_met c s) pending) c' rs' st')"
  by pat_completeness auto
termination
  by (relation "measure (\<lambda>(env, pending, c, rs, st). length pending)")
    (auto intro: filter_rest_shorter)

definition wf_execute ::
  "'w wf_env \<Rightarrow> wf_definition \<Rightarrow> data \<Rightarrow> 'w xst \<Rightarrow> wf_result \<times> 'w xst" where
  "wf_execute env def inputs st =
     (let known = set (map st_name (wd_steps def))
      in if \<exists>s \<in> set (wd_steps def). \<not> set (st_dependencies s) \<subseteq> known
         then (\<lparr>wr_name = wd_name def, wr_status = WS_FAILED, wr_steps = [], wr_output = VNone,
                wr_error = Some (Exn ''ValueError'' ''Missing step dependency'')\<rparr>, st)
         else
           case run_rounds env (wd_steps def)
                  \<lparr>cx_inputs = inputs, cx_shared = [], cx_results = [], cx_previous = VNone\<rparr> [] st of
             (None, c, rs, st') \<Rightarrow>
               (\<lparr>wr_name = wd_name def, wr_status = WS_COMPLETED, wr_steps = rs,
                 wr_output = cx_previous c, wr_error = None\<rparr>, st')
           | (Some e, c, rs, st') \<Rightarrow>
               (\<lparr>wr_name = wd_name def, wr_status = WS_FAILED, wr_steps = rs, wr_output = VNone,
                 wr_error = Some e\<rparr>, st'))"

subsection \<open>Dependency order\<close>

lemma execute_result_shape:
  assumes "execute_result env s d st = (Inr r, d', st')"
  shows "sr_name r = step_name s" and "sr_status r = SS_FAILED \<longleftrightarrow> sr_error r \<noteq> None"
    and "sr_status r \<in> {SS_SKIPPED, SS_COMPLETED, SS_FAILED}"
    and "\<not> st_enabled s \<Longrightarrow> sr_status r = SS_SKIPPED"
  using assms by (auto simp: execute_result_def should_run_def split: if_splits prod.splits sum.splits)

declare run_rounds.simps [simp del]

text \<open>How a step and its result fit in a run that goes on.\<close>

definition result_ok :: "step \<Rightarrow> step_result \<Rightarrow> bool" where
  "result_ok s r \<longleftrightarrow>
     sr_name r = step_name s \<and> (sr_status r = SS_FAILED \<longrightarrow> st_continue_on_error s) \<and>
     (\<not> st_enabled s \<longrightarrow> sr_status r = SS_SKIPPED) \<and>
     sr_status r \<in> {SS_SKIPPED, SS_COMPLETED, SS_FAILED}"

abbreviation result_keys :: "wf_context \<Rightarrow> string set" where
  "result_keys c \<equiv> set (map fst (cx_results c))"

lemma result_keys_record: "result_keys (record_result r c) = insert (sr_name r) (result_keys c)"
  using dom_update [of "sr_name r" "sr_output r" "cx_results c"]
  by (auto simp: record_result_def dom_map_of_conv_image_fst [symmetric] image_iff)

lemma run_ready_None:
  assumes "run_ready env ss c rs st = (None, c', rs', st')"
  shows "\<exists>new. rs' = rs @ new \<and> list_all2 result_ok ss new \<and>
           result_keys c' = result_keys c \<union> set (map step_name ss)"
  using assms
proof (induction ss arbitrary: c rs st)
  case (Cons s ss)
  from Cons.prems obtain r d' st1 where
    r: "execute_result env s (context_data c) st = (Inr r, d', st1)" and
    ok: "\<not> (sr_status r = SS_FAILED \<and> \<not> st_continue_on_error s)" and
    rest: "run_ready env ss (record_result r c) (rs @ [r]) st1 = (None, c', rs', st')"
  proof -
    obtain res d' st1 where e: "execute_result env s (context_data c) st = (res, d', st1)"
      by (metis surj_pair)
    with Cons.prems obtain r where r: "res = Inr r" by (cases res) auto
    with e execute_result_shape(2) have "sr_status r = SS_FAILED \<longleftrightarrow> sr_error r \<noteq> None" by blast
    with Cons.prems e r that show thesis by (auto split: if_splits)
  qed
  note shape = execute_result_shape [OF r]
  from Cons.IH [OF rest] obtain new where
    "rs' = (rs @ [r]) @ new" "list_all2 result_ok ss new"
    "result_keys c' = result_keys (record_result r c) \<union> set (map step_name ss)" by blast
  moreover have "result_ok s r" using ok shape(1,3,4) unfolding result_ok_def by blast
  ultimately show ?case
    using shape(1) result_keys_record by (intro exI [of _ "r # new"]) auto
qed simp

lemma run_ready_append:
  "run_ready env xs c rs st = (None, c1, rs1, st1) \<Longrightarrow>
   run_ready env (xs @ ys) c rs st = run_ready env ys c1 rs1 st1"
proof (induction xs arbitrary: c rs st)
  case (Cons s xs)
  obtain res d' st2 where e: "execute_result env s (context_data c) st = (res, d', st2)"
    by (metis surj_pair)
  with Cons.prems obtain r where r: "res = Inr r" by (cases res) auto
  with e execute_result_shape(2) have "sr_status r = SS_FAILED \<longleftrightarrow> sr_error r \<noteq> None" by blast
  with Cons e r show ?case by (auto split: if_splits)
qed simp

text \<open>\<open>ordered c order\<close>: each step comes after the steps it depends on.\<close>

definition ordered :: "string set \<Rightarrow> step list \<Rightarrow> bool" where
  "ordered done order \<longleftrightarrow>
     (\<forall>k < length order.
        set (st_dependencies (order ! k)) \<subseteq> done \<union> set (map step_name (take k order)))"

lemma ordered_append:
  assumes "\<forall>s \<in> set xs. set (st_dependencies s) \<subseteq> done"
    and "ordered (done \<union> set (map step_name xs)) ys"
  shows "ordered done (xs @ ys)"
  unfolding ordered_def
proof (intro allI impI)
  fix k assume k: "k < length (xs @ ys)"
  show "set (st_dependencies ((xs @ ys) ! k)) \<subseteq> done \<union> set (map step_name (take k (xs @ ys)))"
  proof (cases "k < length xs")
    case True
    then have "(xs @ ys) ! k \<in> set xs" by (simp add: nth_append)
    with assms(1) show ?thesis by blast
  next
    case False
    with k have "k - length xs < length ys" by simp
    with assms(2) have "set (st_dependencies (ys ! (k - length xs))) \<subseteq>
        done \<union> set (map step_name xs) \<union> set (map step_name (take (k - length xs) ys))"
      unfolding ordered_def by blast
    with False show ?thesis by (simp add: nth_append Un_assoc image_Un)
  qed
qed

lemma run_rounds_None:
  assumes "run_rounds env pending c rs st = (None, c', rs', st')"
  shows "\<exists>order new. mset order = mset pending \<and> rs' = rs @ new \<and>
           list_all2 result_ok order new \<and> ordered (result_keys c) order \<and>
           run_ready env order c rs st = (None, c', rs', st')"
  using assms
proof (induction env pending c rs st rule: run_rounds.induct)
  case (1 env pending c rs st)
  show ?case
  proof (cases "pending = []")
    case True
    with 1(2) show ?thesis by (auto simp: ordered_def run_rounds.simps)
  next
    case False
    let ?ready = "filter (deps_met c) pending" and ?rest = "filter (\<lambda>s. \<not> deps_met c s) pending"
    note unfolded = 1(2) [unfolded run_rounds.simps [of env pending c rs st]]
    have ready: "?ready \<noteq> []" using unfolded False by (auto split: if_splits)
    obtain e c1 rs1 st1 where run: "run_ready env ?ready c rs st = (e, c1, rs1, st1)"
      by (metis surj_pair)
    have e: "e = None" and later: "run_rounds env ?rest c1 rs1 st1 = (None, c', rs', st')"
      using unfolded False ready run by (cases e; simp)+
    from run e run_ready_None obtain new1 where
      n1: "rs1 = rs @ new1" "list_all2 result_ok ?ready new1"
        "result_keys c1 = result_keys c \<union> set (map step_name ?ready)" by blast
    from 1(1) [OF False ready run [symmetric, unfolded e] refl refl refl later] obtain order new where
      n2: "mset order = mset ?rest" "rs' = rs1 @ new" "list_all2 result_ok order new"
        "ordered (result_keys c1) order"
        "run_ready env order c1 rs1 st1 = (None, c', rs', st')" by blast
    have "mset (?ready @ order) = mset pending"
      using n2(1) by (simp add: multiset_partition [symmetric])
    moreover have "ordered (result_keys c) (?ready @ order)"
      using n2(4) n1(3) by (intro ordered_append) (auto simp: deps_met_def)
    moreover have "list_all2 result_ok (?ready @ order) (new1 @ new)"
      using n1(2) n2(3) by (rule list_all2_appendI)
    moreover have "run_ready env (?ready @ order) c rs st = (None, c', rs', st')"
      using run_ready_append run e n2(5) by fastforce
    ultimately show ?thesis using n1(1) n2(2) by (metis append.assoc)
  qed
qed

subsection \<open>Completion\<close>

text \<open>A step whose failures, if any, the definition tolerates.\<close>

definition step_safe :: "'w wf_env \<Rightarrow> step \<Rightarrow> bool" where
  "step_safe env s \<longleftrightarrow>
     (\<forall>d st. case fst (execute_result env s d st) of
        Inl _ \<Rightarrow> False
      | Inr r \<Rightarrow> sr_status r = SS_FAILED \<longrightarrow> st_continue_on_error s)"

lemma run_ready_safe:
  assumes "\<forall>s \<in> set ss. step_safe env s"
  shows "\<exists>c' rs' st'. run_ready env ss c rs st = (None, c', rs', st')"
  using assms
proof (induction ss arbitrary: c rs st)
  case (Cons s ss)
  obtain res d' st1 where e: "execute_result env s (context_data c) st = (res, d', st1)"
    by (metis surj_pair)
  from Cons.prems have "step_safe env s" by simp
  then have "case fst (execute_result env s (context_data c) st) of
      Inl _ \<Rightarrow> False | Inr r \<Rightarrow> sr_status r = SS_FAILED \<longrightarrow> st_continue_on_error s"
    unfolding step_safe_def by blast
  with e obtain r where "res = Inr r" "sr_status r = SS_FAILED \<longrightarrow> st_continue_on_error s"
    by (auto split: sum.splits)
  with e Cons show ?case by auto
qed simp

text \<open>Dependencies point to steps of smaller rank.\<close>

definition ranked :: "(string \<Rightarrow> nat) \<Rightarrow> string set \<Rightarrow> step list \<Rightarrow> bool" where
  "ranked rank done pending \<longleftrightarrow>
     (\<forall>s \<in> set pending. \<forall>d \<in> set (st_dependencies s).
        d \<in> done \<or> (d \<in> step_name ` set pending \<and> rank d < rank (step_name s)))"

lemma ranked_ready:
  assumes "ranked rank (result_keys c) pending" "pending \<noteq> []"
  shows "filter (deps_met c) pending \<noteq> []"
proof -
  obtain s where s: "s \<in> set pending"
    "\<forall>x. x \<in> set pending \<longrightarrow> rank (step_name s) \<le> rank (step_name x)"
    using assms(2) ex_has_least_nat [of "\<lambda>s. s \<in> set pending" "hd pending" "\<lambda>s. rank (step_name s)"]
    by auto
  have "d \<in> result_keys c" if "d \<in> set (st_dependencies s)" for d
    using assms(1) s that unfolding ranked_def by (metis imageE linorder_not_less)
  with s(1) show ?thesis by (auto simp: filter_empty_conv deps_met_def)
qed

lemma ranked_rest:
  assumes "ranked rank (result_keys c) pending"
    and "result_keys c' = result_keys c \<union> set (map step_name (filter (deps_met c) pending))"
  shows "ranked rank (result_keys c') (filter (\<lambda>s. \<not> deps_met c s) pending)"
  using assms unfolding ranked_def by (auto 4 4)

lemma run_rounds_ranked:
  assumes "\<forall>s \<in> set pending. step_safe env s" and "ranked rank (result_keys c) pending"
  shows "fst (run_rounds env pending c rs st) = None"
  using assms
proof (induction env pending c rs st rule: run_rounds.induct)
  case (1 env pending c rs st)
  show ?case
  proof (cases "pending = []")
    case True
    then show ?thesis by (simp add: run_rounds.simps)
  next
    case False
    let ?ready = "filter (deps_met c) pending" and ?rest = "filter (\<lambda>s. \<not> deps_met c s) pending"
    have ready: "?ready \<noteq> []" using ranked_ready 1(3) False .
    obtain c1 rs1 st1 where run: "run_ready env ?ready c rs st = (None, c1, rs1, st1)"
      using run_ready_safe [of ?ready env] 1(2) by fastforce
    have "ranked rank (result_keys c1) ?rest"
      using run_ready_None [OF run] by (intro ranked_rest [OF 1(3)]) auto
    from 1(1) [OF False ready run [symmetric] refl refl refl _ this] 1(2)
    have "fst (run_rounds env ?rest c1 rs1 st1) = None" by simp
    with False ready run show ?thesis by (subst run_rounds.simps) simp
  qed
qed

subsection \<open>Correctness of workflow execution\<close>

definition echo_env :: "unit wf_env" where
  "echo_env = \<lparr>en_handler = \<lambda>h d w. (Inr (VStr h), Fin 0, w), en_condition = \<lambda>c d. True,
     en_requests = \<lambda>w. [], en_bases = \<lambda>c. []\<rparr>"

definition start_xst :: "'w \<Rightarrow> 'w xst" where
  "start_xst w = \<lparr>xs_world = w, xs_log = [], xs_slept = []\<rparr>"

definition chain_definition :: wf_definition where
  "chain_definition = \<lparr>wd_name = ''wf'',
     wd_steps = [sample_step ''b'' [''a''], sample_step ''a'' []]\<rparr>"

lemma echo_execute:
  "execute_result echo_env (sample_step n deps) d st =
     (Inr \<lparr>sr_name = step_name (sample_step n deps), sr_status = SS_COMPLETED,
           sr_output = VList [VStr n], sr_error = None, sr_attempts = 1\<rparr>,
      AList.update ''loop_item'' (VInt 0) d,
      st\<lparr>xs_log := xs_log st @ [StepStarted n 1, TaskStarted n 1, StepCompleted n,
         TaskCompleted n (VStr n)]\<rparr>)"
  by (simp add: execute_result_def should_run_def sample_step_def loop_items_def attempt_step_def
      step_policy_def call_step_def echo_env_def emit_def)

lemma echo_safe: "step_safe echo_env (sample_step n deps)"
  by (simp add: step_safe_def echo_execute)

lemma ranked_completes:
  fixes rank :: "string \<Rightarrow> nat"
  assumes "\<forall>s \<in> set (wd_steps def). st_name s \<noteq> '''' \<and> step_safe env s"
    and "\<forall>s \<in> set (wd_steps def). \<forall>d \<in> set (st_dependencies s).
           d \<in> st_name ` set (wd_steps def) \<and> rank d < rank (st_name s)"
  shows "wr_status (fst (wf_execute env def inputs st)) = WS_COMPLETED"
proof -
  have names: "step_name s = st_name s" if "s \<in> set (wd_steps def)" for s
    using assms(1) that by (simp add: step_name_def)
  have "ranked rank {} (wd_steps def)"
    unfolding ranked_def
  proof (intro ballI disjI2 conjI)
    fix s d assume s: "s \<in> set (wd_steps def)" and d: "d \<in> set (st_dependencies s)"
    with assms(2) names show "d \<in> step_name ` set (wd_steps def)" by (auto simp: image_iff)
    show "rank d < rank (step_name s)" using assms(2) s d names by simp
  qed
  then have "fst (run_rounds env (wd_steps def)
      \<lparr>cx_inputs = inputs, cx_shared = [], cx_results = [], cx_previous = VNone\<rparr> [] st) = None"
    using assms(1) by (intro run_rounds_ranked) auto
  then obtain c rs st1 where "run_rounds env (wd_steps def)
      \<lparr>cx_inputs = inputs, cx_shared = [], cx_results = [], cx_previous = VNone\<rparr> [] st =
      (None, c, rs, st1)" by (metis prod.collapse)
  with assms(2) show ?thesis by (auto simp: wf_execute_def)
qed

lemma chain_completes:
  "wr_status (fst (wf_execute echo_env chain_definition [] (start_xst ()))) = WS_COMPLETED"
  by (rule ranked_completes [where rank = "\<lambda>n. if n = ''a'' then 0 else 1"])
    (auto simp: chain_definition_def echo_safe [unfolded sample_step_def] sample_step_def)

text \<open>C3: when \<open>WorkflowEngine.execute\<close> returns COMPLETED, there is an order of all steps of the
  definition, each once, in which every step comes after all the steps it depends on, and the whole
  run, with its results and the outside state it leaves, is the one of handing the steps of that
  order to the executor one by one, each with the results of those before it in its context. The
  result of a step is COMPLETED, or SKIPPED, as it is for every disabled step, or FAILED if the step
  has \<open>continue_on_error\<close>.\<close>

theorem execute_completed:
  assumes "wf_execute env def inputs st = (result, st')" and "wr_status result = WS_COMPLETED"
  shows "\<exists>order. mset order = mset (wd_steps def) \<and>
     list_all2 (\<lambda>s r. sr_name r = step_name s \<and>
        (sr_status r = SS_FAILED \<longrightarrow> st_continue_on_error s) \<and>
        (\<not> st_enabled s \<longrightarrow> sr_status r = SS_SKIPPED) \<and>
        sr_status r \<in> {SS_SKIPPED, SS_COMPLETED, SS_FAILED}) order (wr_steps result) \<and>
     (\<forall>k < length order. set (st_dependencies (order ! k)) \<subseteq> set (map step_name (take k order))) \<and>
     (\<exists>c. run_ready env order
            \<lparr>cx_inputs = inputs, cx_shared = [], cx_results = [], cx_previous = VNone\<rparr> [] st =
          (None, c, wr_steps result, st'))"
proof -
  obtain e c rs st1 where run: "run_rounds env (wd_steps def)
      \<lparr>cx_inputs = inputs, cx_shared = [], cx_results = [], cx_previous = VNone\<rparr> [] st =
      (e, c, rs, st1)" by (metis surj_pair)
  have "e = None" and "wr_steps result = rs" and "st1 = st'"
    using assms run by (auto simp: wf_execute_def split: if_splits option.splits)
  with run run_rounds_None [of env "wd_steps def"
      "\<lparr>cx_inputs = inputs, cx_shared = [], cx_results = [], cx_previous = VNone\<rparr>" "[]" st c rs st1]
  obtain order where "mset order = mset (wd_steps def)"
    "list_all2 result_ok order (wr_steps result)" "ordered {} order"
    "run_ready env order
       \<lparr>cx_inputs = inputs, cx_shared = [], cx_results = [], cx_previous = VNone\<rparr> [] st =
     (None, c, wr_steps result, st')" by auto
  then show ?thesis
    unfolding ordered_def result_ok_def by (intro exI [of _ order]) simp
qed

theorem execute_completed_witness:
  "\<exists>order. mset order = mset (wd_steps chain_definition) \<and>
     (\<forall>k < length order. set (st_dependencies (order ! k)) \<subseteq> set (map step_name (take k order)))"
proof -
  obtain result st' where r: "wf_execute echo_env chain_definition [] (start_xst ()) = (result, st')"
    by (metis surj_pair)
  have "wr_status result = WS_COMPLETED" using chain_completes r by simp
  from execute_completed [OF r this] show ?thesis by blast
qed

text \<open>C12: a definition whose dependencies are known and free of cycles (they go down in some
  rank) and whose steps do not fail, other than with \<open>continue_on_error\<close>, is executed to
  COMPLETED.\<close>

theorem acyclic_completes:
  fixes rank :: "string \<Rightarrow> nat"
  assumes "\<forall>s \<in> set (wd_steps def). st_name s \<noteq> '''' \<and> step_safe env s"
    and "\<forall>s \<in> set (wd_steps def). \<forall>d \<in> set (st_dependencies s).
           d \<in> st_name ` set (wd_steps def) \<and> rank d < rank (st_name s)"
  shows "wr_status (fst (wf_execute env def inputs st)) = WS_COMPLETED"
  using assms by (rule ranked_completes)

theorem acyclic_completes_witness:
  "wr_status (fst (wf_execute echo_env chain_definition [] (start_xst ()))) = WS_COMPLETED"
  by (rule acyclic_completes [where rank = "\<lambda>n. if n = ''a'' then 0 else 1"])
    (auto simp: chain_definition_def echo_safe [unfolded sample_step_def] sample_step_def)

text \<open>Steps that wait for each other are never reported as completed: when the definition
  contains a nonempty set of steps of which each depends on another one of the set, and step
  names are unique, the status is FAILED.\<close>

theorem cycle_fails:
  assumes "distinct (map step_name (wd_steps def))" and "C \<subseteq> set (wd_steps def)" "C \<noteq> {}"
    and "\<forall>s \<in> C. \<exists>s' \<in> C. step_name s' \<in> set (st_dependencies s)"
  shows "wr_status (fst (wf_execute env def inputs st)) = WS_FAILED"
proof (rule ccontr)
  obtain result st' where r: "wf_execute env def inputs st = (result, st')" by (metis surj_pair)
  assume "wr_status (fst (wf_execute env def inputs st)) \<noteq> WS_FAILED"
  with r have "wr_status result = WS_COMPLETED"
    by (auto simp: wf_execute_def split: if_splits option.splits prod.splits)
  from execute_completed [OF r this] obtain order where
    o: "mset order = mset (wd_steps def)"
      "\<forall>k < length order. set (st_dependencies (order ! k)) \<subseteq> set (map step_name (take k order))"
    by blast
  have dist: "distinct (map step_name order)" and set: "set order = set (wd_steps def)"
    using o(1) assms(1) by (metis distinct_map mset_eq_imp_distinct_iff mset_eq_setD)
      (metis o(1) mset_eq_setD)
  define k where "k = (LEAST k. k < length order \<and> order ! k \<in> C)"
  have ex: "\<exists>k. k < length order \<and> order ! k \<in> C"
    using assms(2,3) set by (metis ex_in_conv in_set_conv_nth subsetD)
  then have k: "k < length order" "order ! k \<in> C"
    unfolding k_def by (metis (mono_tags, lifting) LeastI)+
  from assms(4) k(2) obtain s' where s': "s' \<in> C" "step_name s' \<in> set (st_dependencies (order ! k))"
    by blast
  with o(2) k(1) have "step_name s' \<in> set (map step_name (take k order))" by blast
  then obtain j where j: "j < k" "step_name (order ! j) = step_name s'"
    using k(1) by (auto simp: in_set_conv_nth)
  have "s' \<in> set order" using s'(1) assms(2) set by blast
  with dist j k(1) have "order ! j = s'"
    by (metis distinct_map inj_on_eq_iff nth_mem order_less_trans)
  with s'(1) j(1) k(1) have "j < length order \<and> order ! j \<in> C" by simp
  with j(1) show False using not_less_Least unfolding k_def by blast
qed

theorem cycle_fails_witness:
  "wr_status (fst (wf_execute echo_env
     \<lparr>wd_name = ''wf'', wd_steps = [sample_step ''a'' [''b''], sample_step ''b'' [''a'']]\<rparr> []
     (start_xst ()))) = WS_FAILED"
  by (rule cycle_fails [where C = "{sample_step ''a'' [''b''], sample_step ''b'' [''a'']}"])
    (auto simp: sample_step_def step_name_def)

text \<open>A dependency on an unknown step fails the execution before any handler is called.\<close>

theorem missing_dependency_runs_nothing:
  assumes "s \<in> set (wd_steps def)" "d \<in> set (st_dependencies s)"
    and "\<forall>x \<in> set (wd_steps def). st_name x \<noteq> d"
  shows "snd (wf_execute env def inputs st) = st \<and>
    wr_status (fst (wf_execute env def inputs st)) = WS_FAILED \<and>
    wr_steps (fst (wf_execute env def inputs st)) = []"
  using assms by (auto simp: wf_execute_def)

theorem missing_dependency_runs_nothing_witness:
  "snd (wf_execute echo_env \<lparr>wd_name = ''wf'', wd_steps = [sample_step ''a'' [''x'']]\<rparr> []
     (start_xst ())) = start_xst ()"
  using missing_dependency_runs_nothing [of "sample_step ''a'' [''x'']"
      "\<lparr>wd_name = ''wf'', wd_steps = [sample_step ''a'' [''x'']]\<rparr>" "''x''" echo_env "[]"
      "start_xst ()"]
  by (simp add: sample_step_def)

subsection \<open>Definition registry\<close>

type_synonym wf_registry = "(string, wf_definition) dict"

definition wf_register :: "wf_definition \<Rightarrow> wf_registry \<Rightarrow> exn + wf_registry" where
  "wf_register def r = dict_register wd_name (Exn ''WorkflowError'' ''already registered'') def r"

definition wf_unregister :: "string \<Rightarrow> wf_registry \<Rightarrow> exn + (wf_definition \<times> wf_registry)" where
  "wf_unregister n r =
     (case map_of r n of
        None \<Rightarrow> Inl (Exn ''WorkflowNotFoundError'' n)
      | Some def \<Rightarrow> Inr (def, AList.delete n r))"

definition wf_get :: "string \<Rightarrow> wf_registry \<Rightarrow> exn + wf_definition" where
  "wf_get n r = dict_lookup (Exn ''WorkflowNotFoundError'' n) n r"

definition wf_list :: "wf_registry \<Rightarrow> string list" where
  "wf_list r = sorted_keys r"

definition wf_create :: "wf_definition \<Rightarrow> wf_registry \<Rightarrow> exn + (workflow_status \<times> wf_registry)" where
  "wf_create def r =
     (case wf_register def r of Inl e \<Rightarrow> Inl e | Inr r' \<Rightarrow> Inr (WS_CREATED, r'))"

interpretation workflow_reg: named_registry "keyed wd_name" map_of wd_name wf_register wf_get
  sorted_values
  by (rule dict_named_registry) (simp_all add: wf_register_def wf_get_def)

lemma wf_list_names: "keyed wd_name r \<Longrightarrow> wf_list r = map wd_name (sorted_values r)"
  using map_key_sorted_values [of r wd_name] by (simp add: wf_list_def keyed_iff)

end
