(* ===== verification/Workflow_Resume.thy ===== *)
theory Workflow_Resume
  imports Workflow_Engine
begin

text \<open>
  Controllable runs (\<open>engine.py\<close>: \<open>create_runtime\<close>, \<open>pause\<close>, \<open>cancel\<close>, \<open>resume\<close> and
  \<open>_execute_runtime\<close> in serial mode, where a batch is the first ready step). Requests that
  other threads make while a step runs are applied when its handler has returned: the loop reads
  the execution state only at its head. A request that is illegal in the current state raises at
  its caller and changes nothing.
\<close>

record 'w engine =
  eg_runtime :: runtime
  eg_status :: workflow_status
  eg_results :: "(string, step_result) dict"
  eg_store :: checkpoint_store
  eg_last :: "checkpoint option"
  eg_st :: "'w xst"

subsection \<open>Control\<close>

definition create_runtime :: "wf_definition \<Rightarrow> data \<Rightarrow> exn + runtime" where
  "create_runtime def inputs = ru_start (new_runtime (wd_steps def) inputs)"

definition eg_checkpoint :: "string \<Rightarrow> 'w engine \<Rightarrow> (exn + checkpoint) \<times> 'w engine" where
  "eg_checkpoint name g =
     (case create_checkpoint name (eg_runtime g) (eg_store g) of
        (Inl e, items) \<Rightarrow> (Inl e, g\<lparr>eg_store := items\<rparr>)
      | (Inr c, items) \<Rightarrow> (Inr c, g\<lparr>eg_store := items, eg_last := Some c\<rparr>))"

definition eg_pause :: "string \<Rightarrow> 'w engine \<Rightarrow> (exn + checkpoint) \<times> 'w engine" where
  "eg_pause name g =
     (case ru_pause (eg_runtime g) of
        Inl e \<Rightarrow> (Inl e, g)
      | Inr r \<Rightarrow> eg_checkpoint name (g\<lparr>eg_runtime := snd (prepare_dispatch r)\<rparr>))"

definition eg_cancel :: "string \<Rightarrow> 'w engine \<Rightarrow> (exn + checkpoint) \<times> 'w engine" where
  "eg_cancel name g =
     (case ru_cancel (eg_runtime g) of
        Inl e \<Rightarrow> (Inl e, g)
      | Inr r \<Rightarrow> eg_checkpoint name (g\<lparr>eg_runtime := finish_cancel r\<rparr>))"

fun request_op :: "control \<Rightarrow> runtime_op" where
  "request_op Request_Pause = Op_Pause"
| "request_op Request_Resume = Op_Resume"
| "request_op Request_Cancel = Op_Cancel"

subsection \<open>Stored results\<close>

fun status_name :: "step_status \<Rightarrow> string" where
  "status_name SS_PENDING = ''PENDING''"
| "status_name SS_RUNNING = ''RUNNING''"
| "status_name SS_SKIPPED = ''SKIPPED''"
| "status_name SS_COMPLETED = ''COMPLETED''"
| "status_name SS_FAILED = ''FAILED''"

definition status_names :: "(string \<times> step_status) list" where
  "status_names =
     [(''PENDING'', SS_PENDING), (''RUNNING'', SS_RUNNING), (''SKIPPED'', SS_SKIPPED),
      (''COMPLETED'', SS_COMPLETED), (''FAILED'', SS_FAILED)]"

definition step_result_data :: "step_result \<Rightarrow> stored_result" where
  "step_result_data r =
     \<lparr>so_status = status_name (sr_status r), so_output = sr_output r,
      so_error = map_option exn_msg (sr_error r), so_attempts = sr_attempts r\<rparr>"

definition restore_result :: "string \<Rightarrow> stored_result \<Rightarrow> exn + step_result" where
  "restore_result n s =
     (case map_of status_names (so_status s) of
        None \<Rightarrow> Inl (Exn ''KeyError'' (so_status s))
      | Some status \<Rightarrow>
          Inr \<lparr>sr_name = n, sr_status = status, sr_output = so_output s,
               sr_error = (case so_error s of
                  None \<Rightarrow> None
                | Some m \<Rightarrow> if m = '''' then None else Some (Exn ''Exception'' m)),
               sr_attempts = so_attempts s\<rparr>)"

fun restored_results :: "(string \<times> stored_result) list \<Rightarrow> exn + (string, step_result) dict" where
  "restored_results [] = Inr []"
| "restored_results ((n, s) # rest) =
     (case restore_result n s of
        Inl e \<Rightarrow> Inl e
      | Inr r \<Rightarrow>
          (case restored_results rest of Inl e \<Rightarrow> Inl e | Inr rs \<Rightarrow> Inr ((n, r) # rs)))"

definition ordered_results :: "wf_definition \<Rightarrow> (string, step_result) dict \<Rightarrow> step_result list" where
  "ordered_results def rs = List.map_filter (\<lambda>s. map_of rs (st_name s)) (wd_steps def)"

subsection \<open>The loop of a controlled run\<close>

text \<open>How the loop ends: a return, the end of the loop (\<open>break\<close> or nothing pending), or an
  exception.\<close>

datatype loop_end = Returned wf_result | Drained | Raised exn

definition current_result :: "wf_definition \<Rightarrow> 'w engine \<Rightarrow> wf_result" where
  "current_result def g =
     \<lparr>wr_name = wd_name def, wr_status = eg_status g,
      wr_steps = ordered_results def (eg_results g),
      wr_output = cx_previous (xc_workflow (ru_context (eg_runtime g))), wr_error = None\<rparr>"

definition set_status :: "workflow_status list \<Rightarrow> workflow_status \<Rightarrow> 'w engine \<Rightarrow> 'w engine" where
  "set_status when_in target g = (if eg_status g \<in> set when_in then g\<lparr>eg_status := target\<rparr> else g)"

text \<open>Return after a checkpoint, whose creation may raise.\<close>

definition return_with_checkpoint :: "wf_definition \<Rightarrow> 'w engine \<Rightarrow> loop_end \<times> 'w engine" where
  "return_with_checkpoint def g =
     (case eg_checkpoint (wd_name def) g of
        (Inl e, g') \<Rightarrow> (Raised e, g')
      | (Inr _, g') \<Rightarrow> (Returned (current_result def g'), g'))"

text \<open>The bookkeeping after the result of one step. The result is \<open>None\<close> when the run goes on.\<close>

definition settle_step ::
  "bool \<Rightarrow> step \<Rightarrow> step_result \<Rightarrow> 'w engine \<Rightarrow> exn option \<times> 'w engine" where
  "settle_step fail_fast s r g =
     (let n = sr_name r; rt = eg_runtime g; c = ru_context rt;
          c1 = c\<lparr>xc_running := xc_running c - {n},
                 xc_step_results := AList.update n (step_result_data r) (xc_step_results c),
                 xc_retries := AList.update n (sr_attempts r) (xc_retries c)\<rparr>;
          g1 = g\<lparr>eg_results := AList.update n r (eg_results g)\<rparr>
      in case sr_status r of
           SS_COMPLETED \<Rightarrow>
             let c2 = c1\<lparr>xc_completed := insert n (xc_completed c1)\<rparr>
             in (case mark_complete s (ru_dispatcher rt) of
                   Inl e \<Rightarrow> (Some e, g1\<lparr>eg_runtime := rt\<lparr>ru_context := c2\<rparr>\<rparr>)
                 | Inr d \<Rightarrow>
                     (None, g1\<lparr>eg_runtime :=
                        \<lparr>ru_context = c2\<lparr>xc_workflow := record_result r (xc_workflow c2)\<rparr>,
                         ru_dispatcher = d\<rparr>\<rparr>))
         | SS_SKIPPED \<Rightarrow>
             let c2 = c1\<lparr>xc_skipped := insert n (xc_skipped c1)\<rparr>
             in (case mark_complete s (ru_dispatcher rt) of
                   Inl e \<Rightarrow> (Some e, g1\<lparr>eg_runtime := rt\<lparr>ru_context := c2\<rparr>\<rparr>)
                 | Inr d \<Rightarrow> (None, g1\<lparr>eg_runtime := \<lparr>ru_context = c2, ru_dispatcher = d\<rparr>\<rparr>))
         | _ \<Rightarrow>
             let c2 = c1\<lparr>xc_failed := insert n (xc_failed c1)\<rparr>
             in (case mark_terminal s (ru_dispatcher rt) of
                   Inl e \<Rightarrow> (Some e, g1\<lparr>eg_runtime := rt\<lparr>ru_context := c2\<rparr>\<rparr>)
                 | Inr d \<Rightarrow>
                     if fail_fast \<and> \<not> st_continue_on_error s
                     then (Some (case sr_error r of
                                   Some e \<Rightarrow> e | None \<Rightarrow> Exn ''WorkflowError'' ''Step failed''),
                           g1\<lparr>eg_runtime := \<lparr>ru_context = c2, ru_dispatcher = d\<rparr>\<rparr>)
                     else
                       (None, g1\<lparr>eg_runtime := \<lparr>ru_context = c2,
                          ru_dispatcher = if st_continue_on_error s
                            then d\<lparr>di_completed := insert n (di_completed d)\<rparr> else d\<rparr>\<rparr>)))"

text \<open>Claim a ready step and execute it.\<close>

definition run_claimed ::
  "'w wf_env \<Rightarrow> step \<Rightarrow> 'w engine \<Rightarrow> (exn + step_result) \<times> 'w engine" where
  "run_claimed env s g =
     (let rt = eg_runtime g in
      case claim s (ru_dispatcher rt) of
        Inl e \<Rightarrow> (Inl e, g)
      | Inr d \<Rightarrow>
          let c = ru_context rt;
              c1 = c\<lparr>xc_running := insert (step_name s) (xc_running c)\<rparr>;
              (res, _, st) = execute_result env s (context_data (xc_workflow c)) (eg_st g);
              rt1 = fold ru_op (map request_op (en_requests env (xs_world st)))
                      \<lparr>ru_context = c1, ru_dispatcher = d\<rparr>
          in (res, g\<lparr>eg_runtime := rt1, eg_st := st\<rparr>))"

definition blocked_error :: exn where
  "blocked_error = Exn ''WorkflowError'' ''Circular or blocked step dependency detected''"

abbreviation eg_pending :: "'w engine \<Rightarrow> step list" where
  "eg_pending g \<equiv> di_pending (ru_dispatcher (eg_runtime g))"

lemma request_dispatcher [simp]:
  "ru_dispatcher (fold ru_op (map request_op qs) r) = ru_dispatcher r"
proof (induction qs arbitrary: r)
  case (Cons q qs)
  have "ru_dispatcher (ru_op (request_op q) r) = ru_dispatcher r"
    by (cases q) (auto simp: try_op_def ru_pause_def ru_resume_def ru_cancel_def ru_apply_def
        split: sum.splits)
  with Cons show ?case by simp
qed simp

lemma run_claimed_Inr:
  assumes "run_claimed env s g = (res, g')"
  shows "eg_pending g' = eg_pending g" and "res = Inr r \<Longrightarrow> sr_name r = step_name s"
    and "res = Inr r \<Longrightarrow> s \<in> set (eg_pending g)"
    and "di_completed (ru_dispatcher (eg_runtime g')) = di_completed (ru_dispatcher (eg_runtime g))"
    and "eg_status g' = eg_status g"
  using assms execute_result_shape(1)
  by (fastforce simp: run_claimed_def claim_def Let_def split: if_splits prod.splits)+

lemma remove_pending_Inr:
  "remove_pending s d = Inr d' \<Longrightarrow>
     s \<in> set (di_pending d) \<and> d' = d\<lparr>di_pending := remove1 s (di_pending d)\<rparr>"
  by (auto simp: remove_pending_def split: if_splits)

lemma settle_step_pending:
  assumes "settle_step ff s r g = (None, g')"
  shows "s \<in> set (eg_pending g)" and "eg_pending g' = remove1 s (eg_pending g)"
  using assms
  by (auto simp: settle_step_def mark_complete_def mark_terminal_def Let_def
      split: step_status.splits sum.splits if_splits dest!: remove_pending_Inr)

lemma settle_step_shorter:
  "settle_step ff s r g = (None, g') \<Longrightarrow> length (eg_pending g') < length (eg_pending g)"
  using settle_step_pending [of ff s r g g']
  by (metis One_nat_def Suc_pred diff_less length_pos_if_in_set length_remove1 zero_less_one)

lemma prepare_dispatch_dispatcher [simp]:
  "ru_dispatcher (snd (prepare_dispatch r)) = ru_dispatcher r"
  by (rule prepare_dispatch_running(3))

text \<open>One pass through the loop: how it ends (\<open>Inl\<close>) or the state for the next pass.\<close>

definition er_body ::
  "'w wf_env \<Rightarrow> wf_definition \<Rightarrow> bool \<Rightarrow> 'w engine \<Rightarrow> (loop_end \<times> 'w engine) + 'w engine" where
  "er_body env def ff g =
     (if eg_pending g = [] then Inl (Drained, g)
      else if cancel_requested (eg_runtime g)
      then Inl (return_with_checkpoint def (set_status [WS_RUNNING, WS_PAUSED] WS_CANCELLED
             (g\<lparr>eg_runtime := finish_cancel (eg_runtime g)\<rparr>)))
      else
        let go = fst (prepare_dispatch (eg_runtime g));
            g1 = g\<lparr>eg_runtime := snd (prepare_dispatch (eg_runtime g))\<rparr>
        in if \<not> go
           then Inl (if ru_state (eg_runtime g1) = ES_PAUSED
                     then return_with_checkpoint def (set_status [WS_RUNNING] WS_PAUSED g1)
                     else (Drained, g1))
           else
             case next_ready (ru_dispatcher (eg_runtime g1)) of
               [] \<Rightarrow> Inl (Raised blocked_error, g1)
             | s # _ \<Rightarrow>
                 (case run_claimed env s g1 of
                    (Inl e, g2) \<Rightarrow> Inl (Raised e, g2)
                  | (Inr r, g2) \<Rightarrow>
                      (case settle_step ff s r g2 of
                         (Some e, g3) \<Rightarrow> Inl (Raised e, g3)
                       | (None, g3) \<Rightarrow>
                           if xc_failed (ru_context (eg_runtime g3)) \<noteq> {} \<and> ff
                           then Inl (Drained, g3)
                           else Inr g3)))"

lemma er_body_next:
  assumes "er_body env def ff g = Inr g'"
  obtains s ss r g1 g2 where "eg_pending g \<noteq> []" "\<not> cancel_requested (eg_runtime g)"
    "fst (prepare_dispatch (eg_runtime g))"
    "g1 = g\<lparr>eg_runtime := snd (prepare_dispatch (eg_runtime g))\<rparr>"
    "next_ready (ru_dispatcher (eg_runtime g1)) = s # ss"
    "run_claimed env s g1 = (Inr r, g2)" "settle_step ff s r g2 = (None, g')"
    "\<not> (xc_failed (ru_context (eg_runtime g')) \<noteq> {} \<and> ff)"
  using assms that
  by (auto simp: er_body_def Let_def split: if_splits list.splits prod.splits sum.splits
      option.splits)

lemma er_body_shorter:
  assumes "er_body env def ff g = Inr g'"
  shows "length (eg_pending g') < length (eg_pending g)"
  using assms
proof (rule er_body_next)
  fix s ss r g1 g2
  assume g1: "g1 = g\<lparr>eg_runtime := snd (prepare_dispatch (eg_runtime g))\<rparr>"
    and run: "run_claimed env s g1 = (Inr r, g2)" and settle: "settle_step ff s r g2 = (None, g')"
  have "eg_pending g2 = eg_pending g" using run_claimed_Inr(1) [OF run] g1 by simp
  with settle_step_shorter [OF settle] show ?thesis by simp
qed

function er_loop :: "'w wf_env \<Rightarrow> wf_definition \<Rightarrow> bool \<Rightarrow> 'w engine \<Rightarrow> loop_end \<times> 'w engine" where
  "er_loop env def ff g =
     (case er_body env def ff g of Inl eg \<Rightarrow> eg | Inr g' \<Rightarrow> er_loop env def ff g')"
  by pat_completeness auto
termination
  by (relation "measure (\<lambda>(env, def, ff, g). length (eg_pending g))") (auto intro: er_body_shorter)

declare er_loop.simps [simp del]

text \<open>What follows the loop.\<close>

definition er_finish :: "wf_definition \<Rightarrow> 'w engine \<Rightarrow> loop_end \<times> 'w engine" where
  "er_finish def g =
     (let r1 = snd (prepare_dispatch (eg_runtime g));
          r2 = (if cancel_requested r1 then finish_cancel r1 else r1);
          g2 = g\<lparr>eg_runtime := r2\<rparr>
      in if ru_state r2 = ES_CANCELLED
         then return_with_checkpoint def (set_status [WS_RUNNING, WS_PAUSED] WS_CANCELLED g2)
         else if ru_state r2 = ES_PAUSED
         then return_with_checkpoint def (set_status [WS_RUNNING] WS_PAUSED g2)
         else if xc_failed (ru_context r2) \<noteq> {}
         then (case workflow_transition (eg_status g2) WS_FAILED of
                 Inl e \<Rightarrow> (Raised e, g2\<lparr>eg_runtime := ru_fail r2\<rparr>)
               | Inr s \<Rightarrow>
                   let g3 = g2\<lparr>eg_runtime := ru_fail r2, eg_status := s\<rparr>
                   in (Returned (current_result def g3), g3))
         else (case workflow_transition (eg_status g2) WS_COMPLETED of
                 Inl e \<Rightarrow> (Raised e, g2\<lparr>eg_runtime := ru_complete r2\<rparr>)
               | Inr s \<Rightarrow>
                   let g3 = g2\<lparr>eg_runtime := ru_complete r2, eg_status := s\<rparr>
                   in (Returned (current_result def g3), g3)))"

definition er_close :: "wf_definition \<Rightarrow> loop_end \<times> 'w engine \<Rightarrow> wf_result \<times> 'w engine" where
  "er_close def eg =
     (case eg of
        (Returned r, g) \<Rightarrow> (r, g)
      | (Drained, g) \<Rightarrow> (current_result def g, g)
      | (Raised e, g) \<Rightarrow>
          let g1 = set_status [WS_RUNNING] WS_FAILED (g\<lparr>eg_runtime := ru_fail (eg_runtime g)\<rparr>)
          in (\<lparr>wr_name = wd_name def, wr_status = eg_status g1,
               wr_steps = ordered_results def (eg_results g1), wr_output = VNone,
               wr_error = Some e\<rparr>, g1))"

definition execute_runtime ::
  "'w wf_env \<Rightarrow> wf_definition \<Rightarrow> bool \<Rightarrow> 'w engine \<Rightarrow> (exn + wf_result) \<times> 'w engine" where
  "execute_runtime env def ff g =
     (case restored_results (xc_step_results (ru_context (eg_runtime g))) of
        Inl e \<Rightarrow> (Inl e, g)
      | Inr rs \<Rightarrow>
          let (r, g') = er_close def
                (case er_loop env def ff (g\<lparr>eg_results := rs\<rparr>) of
                   (Drained, g1) \<Rightarrow> er_finish def g1
                 | eg \<Rightarrow> eg)
          in (Inr r, g'))"

datatype snapshot = Full checkpoint | Legacy data

definition checkpoint_from_snapshot :: "snapshot \<Rightarrow> exn + checkpoint" where
  "checkpoint_from_snapshot s =
     (case s of
        Full c \<Rightarrow> Inr c
      | Legacy context \<Rightarrow>
          (case context_dict context ''results'' of
             Inl e \<Rightarrow> Inl e
           | Inr results \<Rightarrow>
               Inr \<lparr>ck_context = context, ck_state = ''PAUSED'', ck_ready = [], ck_waiting = [],
                 ck_running = [], ck_completed = sort (map fst results), ck_failed = [],
                 ck_cancelled = [], ck_skipped = [], ck_retries = [], ck_step_results = []\<rparr>))"

text \<open>\<open>resume\<close> with a runtime (the one of the engine state) or with a snapshot.\<close>

definition resume_runtime ::
  "'w wf_env \<Rightarrow> wf_definition \<Rightarrow> bool \<Rightarrow> 'w engine \<Rightarrow> (exn + wf_result) \<times> 'w engine" where
  "resume_runtime env def ff g =
     (if eg_status g \<noteq> WS_PAUSED \<and> eg_status g \<noteq> WS_RUNNING
      then (Inl (Exn ''ValueError'' ''Only a running or paused workflow can be resumed''), g)
      else
        let g1 = g\<lparr>eg_status := WS_RUNNING\<rparr>
        in if ru_state (eg_runtime g1) = ES_PAUSED
           then (case ru_resume (eg_runtime g1) of
                   Inl e \<Rightarrow> (Inl e, g1)
                 | Inr r \<Rightarrow> execute_runtime env def ff (g1\<lparr>eg_runtime := r\<rparr>))
           else execute_runtime env def ff g1)"

definition resume_snapshot ::
  "'w wf_env \<Rightarrow> wf_definition \<Rightarrow> snapshot \<Rightarrow> bool \<Rightarrow> 'w engine \<Rightarrow> (exn + wf_result) \<times> 'w engine" where
  "resume_snapshot env def snap ff g =
     (case checkpoint_from_snapshot snap of
        Inl e \<Rightarrow> (Inl e, g)
      | Inr c \<Rightarrow>
          (case restore_runtime (new_runtime (wd_steps def) []) c of
             Inl e \<Rightarrow> (Inl e, g)
           | Inr r \<Rightarrow> resume_runtime env def ff (g\<lparr>eg_runtime := r\<rparr>)))"

subsection \<open>What a controlled run calls\<close>

definition started :: "wf_event list \<Rightarrow> string set" where
  "started es = {n. \<exists>i. StepStarted n i \<in> set es}"

lemma started_emit [simp]:
  "started (xs_log (emit es st)) = started (xs_log st) \<union> started es"
  by (auto simp: started_def emit_def)

lemma started_events [simp]:
  "started [] = {}" "started (StepStarted n i # es) = insert n (started es)"
  "started (TaskStarted n i # es) = started es" "started (StepFailed n m # es) = started es"
  "started (TaskFailed n m # es) = started es" "started (StepRetried n i # es) = started es"
  "started (StepCompleted n # es) = started es" "started (TaskCompleted n v # es) = started es"
  by (auto simp: started_def)

lemma call_step_log: "xs_log (snd (call_step env s d st)) = xs_log st"
  by (auto simp: call_step_def Let_def split: prod.splits option.splits sum.splits)

lemma retry_sleep_log: "xs_log (snd (retry_sleep p n st)) = xs_log st"
  by (auto simp: retry_sleep_def Let_def split: option.splits)

lemma attempts_started:
  "started (xs_log (snd (attempts env s p d ns st))) \<subseteq> insert (st_name s) (started (xs_log st))"
proof (induction ns arbitrary: st)
  case (Cons n ns)
  let ?st0 = "emit [StepStarted (st_name s) n, TaskStarted (st_task s) n] st"
  obtain res st1 where c: "call_step env s d ?st0 = (res, st1)" by (metis surj_pair)
  have l1: "xs_log st1 = xs_log ?st0" using call_step_log [of env s d ?st0] c by simp
  obtain e st2 where r: "retry_sleep p n (emit [StepRetried (st_name s) n] st1) = (e, st2)"
    by (metis surj_pair)
  have l2: "started (xs_log st2) = started (xs_log st1)"
    using retry_sleep_log [of p n "emit [StepRetried (st_name s) n] st1"] r by simp
  show ?case
    using c l1 l2 r Cons.IH [of st2] by (auto split: sum.splits option.splits)
qed auto

lemma run_items_started:
  "run_items env s i xs outs d st = (res, d', st') \<Longrightarrow>
     started (xs_log st') \<subseteq> insert (st_name s) (started (xs_log st))"
proof (induction xs arbitrary: i outs d st)
  case (Cons x xs)
  let ?d = "AList.update ''loop_item'' x d"
  obtain r st1 where a: "attempt_step env s ?d st = (r, st1)" by (metis surj_pair)
  have s1: "started (xs_log st1) \<subseteq> insert (st_name s) (started (xs_log st))"
    using attempts_started [of env s "step_policy s" ?d "[1..pl_max_attempts (step_policy s)]" st] a
    by (simp add: attempt_step_def)
  show ?case
  proof (cases "st_max_iterations s \<le> i \<or>
      (case st_loop_condition s of None \<Rightarrow> False | Some c \<Rightarrow> \<not> en_condition env c d)")
    case True
    with Cons.prems show ?thesis by auto
  next
    case False
    note step = Cons.prems [unfolded run_items.simps if_not_P [OF False] Let_def a]
    show ?thesis
    proof (cases r)
      case (Inl e)
      with step s1 show ?thesis by simp
    next
      case (Inr v)
      with step have "run_items env s (i + 1) xs (outs @ [v]) ?d st1 = (res, d', st')" by simp
      from Cons.IH [OF this] s1 show ?thesis by auto
    qed
  qed
qed auto

lemma execute_result_started:
  assumes "execute_result env s d st = (res, d', st')"
  shows "started (xs_log st') \<subseteq> insert (st_name s) (started (xs_log st))"
proof (cases "should_run env s d")
  case False
  with assms show ?thesis by (auto simp: execute_result_def)
next
  case True
  obtain r d1 st1 where r: "run_items env s 0 (loop_items s) [] d st = (r, d1, st1)"
    by (metis surj_pair)
  with assms True have "st' = st1" by (auto simp: execute_result_def split: sum.splits if_splits)
  with run_items_started [OF r] show ?thesis by simp
qed

abbreviation eg_started :: "'w engine \<Rightarrow> string set" where
  "eg_started g \<equiv> started (xs_log (eg_st g))"

lemma run_claimed_started:
  "run_claimed env s g = (res, g') \<Longrightarrow> eg_started g' \<subseteq> insert (st_name s) (eg_started g)"
  using execute_result_started
  by (auto simp: run_claimed_def Let_def split: sum.splits prod.splits) blast

lemma settle_step_st [simp]: "eg_st (snd (settle_step ff s r g)) = eg_st g"
  by (auto simp: settle_step_def Let_def split: step_status.splits sum.splits)

lemma return_with_checkpoint_st [simp]:
  "eg_st (snd (return_with_checkpoint def g)) = eg_st g"
  by (auto simp: return_with_checkpoint_def eg_checkpoint_def split: sum.splits prod.splits)

lemma set_status_fields [simp]:
  "eg_st (set_status ws t g) = eg_st g" "eg_runtime (set_status ws t g) = eg_runtime g"
  "eg_results (set_status ws t g) = eg_results g"
  by (simp_all add: set_status_def)

text \<open>An invariant of the passes holds for the state in which the loop stops.\<close>

lemma er_loop_invariant:
  assumes "P g"
    and "\<And>g g'. P g \<Longrightarrow> er_body env def ff g = Inr g' \<Longrightarrow> P g'"
    and "\<And>g eg. P g \<Longrightarrow> er_body env def ff g = Inl eg \<Longrightarrow> Q eg"
  shows "Q (er_loop env def ff g)"
  using assms(1)
proof (induction "length (eg_pending g)" arbitrary: g rule: less_induct)
  case less
  show ?case
  proof (cases "er_body env def ff g")
    case (Inl eg)
    with assms(3) less.prems show ?thesis by (subst er_loop.simps) simp
  next
    case (Inr g')
    have "Q (er_loop env def ff g')"
      using less.hyps [OF er_body_shorter [OF Inr] assms(2) [OF less.prems Inr]] .
    with Inr show ?thesis by (subst er_loop.simps) simp
  qed
qed

lemma er_body_stop:
  assumes "er_body env def ff g = Inl eg"
  shows "eg_st (snd eg) = eg_st g \<or>
    (\<exists>s res g2 g1. s \<in> set (eg_pending g) \<and> run_claimed env s g1 = (res, g2) \<and>
       eg_st g1 = eg_st g \<and> eg_st (snd eg) = eg_st g2)"
proof -
  let ?g1 = "g\<lparr>eg_runtime := snd (prepare_dispatch (eg_runtime g))\<rparr>"
  show ?thesis
  proof (cases "next_ready (ru_dispatcher (eg_runtime ?g1))")
    case Nil
    with assms show ?thesis by (auto simp: er_body_def Let_def split: if_splits)
  next
    case (Cons s ss)
    then have s: "s \<in> set (eg_pending g)"
      by (auto simp: next_ready_def filter_eq_Cons_iff)
    obtain res g2 where run: "run_claimed env s ?g1 = (res, g2)" by (metis surj_pair)
    have st: "eg_st g3 = eg_st g2" if "settle_step b s r g2 = (x, g3)" for b r x g3
      using settle_step_st [of b s r g2] that by simp
    have "eg_st (snd eg) = eg_st g \<or> eg_st (snd eg) = eg_st g2"
      using assms Cons run
      by (auto simp: er_body_def Let_def dest: st split: if_splits sum.splits prod.splits
          option.splits)
    then show ?thesis
    proof
      assume "eg_st (snd eg) = eg_st g2"
      then show ?thesis
        by (intro disjI2 exI [of _ s] exI [of _ res] exI [of _ g2] exI [of _ ?g1]) (simp add: s run)
    qed simp
  qed
qed

lemma er_body_next_started:
  assumes "er_body env def ff g = Inr g'"
  shows "eg_started g' \<subseteq> eg_started g \<union> st_name ` set (eg_pending g)"
    and "set (eg_pending g') \<subseteq> set (eg_pending g)"
proof -
  from assms obtain s ss r g1 g2 where
    g1: "g1 = g\<lparr>eg_runtime := snd (prepare_dispatch (eg_runtime g))\<rparr>" and
    ready: "next_ready (ru_dispatcher (eg_runtime g1)) = s # ss" and
    run: "run_claimed env s g1 = (Inr r, g2)" and settle: "settle_step ff s r g2 = (None, g')"
    by (rule er_body_next)
  have pend: "eg_pending g2 = eg_pending g" using run_claimed_Inr(1) [OF run] g1 by simp
  have "s \<in> set (eg_pending g)"
    using ready g1 by (auto simp: next_ready_def filter_eq_Cons_iff)
  with run_claimed_started [OF run] settle_step_st [of ff s r g2] settle g1
  show "eg_started g' \<subseteq> eg_started g \<union> st_name ` set (eg_pending g)" by auto
  show "set (eg_pending g') \<subseteq> set (eg_pending g)"
    using settle_step_pending(2) [OF settle] pend by (metis notin_set_remove1 subsetI)
qed

lemma er_loop_started:
  "eg_started (snd (er_loop env def ff g)) \<subseteq> eg_started g \<union> st_name ` set (eg_pending g)"
proof (rule er_loop_invariant [where P = "\<lambda>g'. eg_started g' \<subseteq> eg_started g \<union> st_name ` set (eg_pending g) \<and>
      set (eg_pending g') \<subseteq> set (eg_pending g)"])
  fix g1 g2
  assume "eg_started g1 \<subseteq> eg_started g \<union> st_name ` set (eg_pending g) \<and>
      set (eg_pending g1) \<subseteq> set (eg_pending g)" "er_body env def ff g1 = Inr g2"
  with er_body_next_started [of env def ff g1 g2]
  show "eg_started g2 \<subseteq> eg_started g \<union> st_name ` set (eg_pending g) \<and>
      set (eg_pending g2) \<subseteq> set (eg_pending g)" by blast
next
  fix g1 eg
  assume inv: "eg_started g1 \<subseteq> eg_started g \<union> st_name ` set (eg_pending g) \<and>
      set (eg_pending g1) \<subseteq> set (eg_pending g)" and body: "er_body env def ff g1 = Inl eg"
  from er_body_stop [OF body]
  show "eg_started (snd eg) \<subseteq> eg_started g \<union> st_name ` set (eg_pending g)"
  proof (elim disjE exE conjE)
    assume "eg_st (snd eg) = eg_st g1"
    with inv show ?thesis by simp
  next
    fix s res g2 g3
    assume s: "s \<in> set (eg_pending g1)" and run: "run_claimed env s g3 = (res, g2)"
      and st: "eg_st g3 = eg_st g1" "eg_st (snd eg) = eg_st g2"
    have "eg_started g2 \<subseteq> insert (st_name s) (eg_started g1)"
      using run_claimed_started [OF run] st(1) by simp
    with inv s st(2) show ?thesis by auto
  qed
qed auto

lemma er_finish_st [simp]: "eg_st (snd (er_finish def g)) = eg_st g"
  by (auto simp: er_finish_def Let_def split: sum.splits)

lemma er_close_st [simp]: "eg_st (snd (er_close def eg)) = eg_st (snd eg)"
  by (auto simp: er_close_def Let_def split: prod.splits loop_end.splits)

lemma er_close_eq: "er_close def eg = (r, g') \<Longrightarrow> eg_st g' = eg_st (snd eg)"
  using er_close_st [of def eg] by simp

lemma execute_runtime_started:
  assumes "execute_runtime env def ff g = (res, g')"
  shows "eg_started g' \<subseteq> eg_started g \<union> st_name ` set (eg_pending g)"
proof (cases "restored_results (xc_step_results (ru_context (eg_runtime g)))")
  case (Inl e)
  with assms show ?thesis by (auto simp: execute_runtime_def)
next
  case (Inr rs)
  obtain e g1 where loop: "er_loop env def ff (g\<lparr>eg_results := rs\<rparr>) = (e, g1)" by (metis surj_pair)
  have "eg_st g' = eg_st g1"
    using assms Inr loop
    by (cases e) (auto simp: execute_runtime_def split: prod.splits dest!: er_close_eq)
  with er_loop_started [of env def ff "g\<lparr>eg_results := rs\<rparr>"] loop show ?thesis by simp
qed

lemma resume_runtime_started:
  assumes "resume_runtime env def ff g = (res, g')"
  shows "eg_started g' \<subseteq> eg_started g \<union> st_name ` set (eg_pending g)"
proof -
  have disp: "ru_dispatcher r = ru_dispatcher (eg_runtime g)" if "ru_resume (eg_runtime g) = Inr r" for r
    using that by (auto simp: ru_resume_def ru_apply_def split: sum.splits)
  show ?thesis
    using assms disp
    by (fastforce simp: resume_runtime_def Let_def split: if_splits sum.splits
        dest: execute_runtime_started)
qed

lemma restore_runtime_pending:
  assumes "restore_runtime (new_runtime steps inputs) c = Inr r"
  shows "di_pending (ru_dispatcher r) = filter (\<lambda>s. step_name s \<notin>
     set (ck_completed c) \<union> set (ck_skipped c) \<union> set (ck_failed c) \<union> set (ck_cancelled c)) steps"
  using assms
  by (auto simp: restore_runtime_def ru_restore_def di_restore_def new_runtime_def
      new_dispatcher_def Let_def split: if_splits option.splits sum.splits)

definition sample_checkpoint :: checkpoint where
  "sample_checkpoint =
     \<lparr>ck_context = [], ck_state = ''PAUSED'', ck_ready = [''b''], ck_waiting = [], ck_running = [],
      ck_completed = [''a''], ck_failed = [], ck_cancelled = [], ck_skipped = [], ck_retries = [],
      ck_step_results = []\<rparr>"

definition sample_engine :: "unit engine" where
  "sample_engine = \<lparr>eg_runtime = new_runtime [] [], eg_status = WS_PAUSED, eg_results = [],
     eg_store = [], eg_last = None, eg_st = start_xst ()\<rparr>"

text \<open>C5: resuming from a checkpoint, however it ends, starts no step that the checkpoint records
  as completed, skipped, failed or cancelled.\<close>

theorem resume_skips_terminal_steps:
  assumes "resume_snapshot env def (Full c) ff g = (res, g')"
    and "n \<in> eg_started g'" "n \<notin> eg_started g"
  shows "\<exists>s \<in> set (wd_steps def). st_name s = n \<and> step_name s \<notin>
    set (ck_completed c) \<union> set (ck_skipped c) \<union> set (ck_failed c) \<union> set (ck_cancelled c)"
proof (cases "restore_runtime (new_runtime (wd_steps def) []) c")
  case (Inl e)
  with assms show ?thesis by (simp add: resume_snapshot_def checkpoint_from_snapshot_def)
next
  case (Inr r)
  with assms(1) have "resume_runtime env def ff (g\<lparr>eg_runtime := r\<rparr>) = (res, g')"
    by (simp add: resume_snapshot_def checkpoint_from_snapshot_def)
  from resume_runtime_started [OF this] assms(2,3) restore_runtime_pending [OF Inr]
  show ?thesis by auto
qed

theorem resume_skips_terminal_steps_witness:
  "''a'' \<notin> eg_started (snd (resume_snapshot echo_env chain_definition (Full sample_checkpoint) True
     sample_engine))"
proof
  assume a: "''a'' \<in> eg_started (snd (resume_snapshot echo_env chain_definition
    (Full sample_checkpoint) True sample_engine))"
  obtain res g' where r: "resume_snapshot echo_env chain_definition (Full sample_checkpoint) True
    sample_engine = (res, g')" by (metis surj_pair)
  have "''a'' \<notin> eg_started sample_engine" by (simp add: sample_engine_def start_xst_def)
  from resume_skips_terminal_steps [OF r _ this] a r show False
    by (auto simp: chain_definition_def sample_checkpoint_def step_name_def sample_step_def)
qed

subsection \<open>What COMPLETED means for a controlled run\<close>

text \<open>The names of steps that have ended.\<close>

definition ended :: "runtime \<Rightarrow> string set" where
  "ended r = xc_completed (ru_context r) \<union> xc_skipped (ru_context r) \<union> xc_failed (ru_context r)"

definition run_inv :: "string set \<Rightarrow> 'w engine \<Rightarrow> bool" where
  "run_inv names g \<longleftrightarrow>
     xc_running (ru_context (eg_runtime g)) = {} \<and> eg_status g = WS_RUNNING \<and>
     ru_state (eg_runtime g) \<in> {ES_RUNNING, ES_RESUMING, ES_PAUSING, ES_CANCELLING} \<and>
     names \<subseteq> step_name ` set (eg_pending g) \<union> ended (eg_runtime g)"

lemma request_context:
  assumes "ru_state r \<in> {ES_RUNNING, ES_PAUSING, ES_CANCELLING}"
  shows "\<exists>t \<in> {ES_RUNNING, ES_PAUSING, ES_CANCELLING}.
    ru_context (fold ru_op (map request_op qs) r) = (ru_context r)\<lparr>xc_state := t\<rparr>"
  using assms
proof (induction qs arbitrary: r)
  case Nil
  then show ?case by (intro bexI [of _ "ru_state r"]) auto
next
  case (Cons q qs)
  have "\<exists>t \<in> {ES_RUNNING, ES_PAUSING, ES_CANCELLING}.
      ru_context (ru_op (request_op q) r) = (ru_context r)\<lparr>xc_state := t\<rparr>"
    using Cons.prems
    by (cases q) (auto simp: try_op_def ru_pause_def ru_resume_def ru_cancel_def ru_apply_def
        xc_pause_def xc_resume_def xc_cancel_def xc_transition_def validate_transition_def)
  then obtain t where t: "t \<in> {ES_RUNNING, ES_PAUSING, ES_CANCELLING}"
    "ru_context (ru_op (request_op q) r) = (ru_context r)\<lparr>xc_state := t\<rparr>" by blast
  from Cons.IH [of "ru_op (request_op q) r"] t show ?case by fastforce
qed

lemma settle_step_None:
  assumes "settle_step ff s r g = (None, g')" and "sr_name r = step_name s"
  shows "xc_running (ru_context (eg_runtime g')) =
      xc_running (ru_context (eg_runtime g)) - {step_name s}"
    and "ended (eg_runtime g') = insert (step_name s) (ended (eg_runtime g))"
    and "eg_status g' = eg_status g" and "ru_state (eg_runtime g') = ru_state (eg_runtime g)"
  using assms
  by (auto simp: settle_step_def ended_def Let_def
      split: step_status.splits sum.splits if_splits)

lemma run_claimed_context:
  assumes "run_claimed env s g = (Inr r, g')" and "ru_state (eg_runtime g) = ES_RUNNING"
  shows "xc_running (ru_context (eg_runtime g')) =
      insert (step_name s) (xc_running (ru_context (eg_runtime g)))"
    and "ended (eg_runtime g') = ended (eg_runtime g)"
    and "ru_state (eg_runtime g') \<in> {ES_RUNNING, ES_PAUSING, ES_CANCELLING}"
proof -
  from assms(1) obtain d st where g': "g' = g\<lparr>eg_runtime :=
      fold ru_op (map request_op (en_requests env (xs_world st)))
        \<lparr>ru_context = (ru_context (eg_runtime g))\<lparr>xc_running :=
           insert (step_name s) (xc_running (ru_context (eg_runtime g)))\<rparr>, ru_dispatcher = d\<rparr>,
      eg_st := st\<rparr>"
    by (auto simp: run_claimed_def Let_def split: sum.splits prod.splits)
  from request_context [of "\<lparr>ru_context = (ru_context (eg_runtime g))\<lparr>xc_running :=
      insert (step_name s) (xc_running (ru_context (eg_runtime g)))\<rparr>, ru_dispatcher = d\<rparr>"
      "en_requests env (xs_world st)"] assms(2)
  show "xc_running (ru_context (eg_runtime g')) =
      insert (step_name s) (xc_running (ru_context (eg_runtime g)))"
    and "ended (eg_runtime g') = ended (eg_runtime g)"
    and "ru_state (eg_runtime g') \<in> {ES_RUNNING, ES_PAUSING, ES_CANCELLING}"
    by (auto simp: g' ended_def)
qed

lemma prepare_dispatch_context:
  assumes "fst (prepare_dispatch r)"
  shows "ru_context (snd (prepare_dispatch r)) = (ru_context r)\<lparr>xc_state := ES_RUNNING\<rparr>"
  using assms by (auto simp: prepare_dispatch_def can_dispatch_def Let_def split: if_splits)

lemma run_inv_next:
  assumes inv: "run_inv names g" and body: "er_body env def ff g = Inr g'"
  shows "run_inv names g'"
proof -
  from body obtain s ss r g1 g2 where
    go: "fst (prepare_dispatch (eg_runtime g))" and
    g1: "g1 = g\<lparr>eg_runtime := snd (prepare_dispatch (eg_runtime g))\<rparr>" and
    run: "run_claimed env s g1 = (Inr r, g2)" and settle: "settle_step ff s r g2 = (None, g')"
    by (rule er_body_next)
  have c1: "ru_context (eg_runtime g1) = (ru_context (eg_runtime g))\<lparr>xc_state := ES_RUNNING\<rparr>"
    using prepare_dispatch_context [OF go] g1 by simp
  note rc = run_claimed_context [OF run] run_claimed_Inr [OF run]
  note ss = settle_step_None [OF settle rc(5) [OF refl]] settle_step_pending(2) [OF settle]
  have pend: "eg_pending g2 = eg_pending g" using rc(4) g1 by simp
  have rest: "set (eg_pending g) \<subseteq> insert s (set (eg_pending g'))"
  proof
    fix t assume "t \<in> set (eg_pending g)"
    then show "t \<in> insert s (set (eg_pending g'))"
      unfolding ss(5) pend by (cases "t = s") simp_all
  qed
  have "ended (eg_runtime g1) = ended (eg_runtime g)" using c1 by (simp add: ended_def)
  with rc(2) c1 ss(2) have e: "ended (eg_runtime g') = insert (step_name s) (ended (eg_runtime g))"
    by simp
  have "step_name ` set (eg_pending g) \<subseteq>
      insert (step_name s) (step_name ` set (eg_pending g'))" using rest by blast
  then have "names \<subseteq> step_name ` set (eg_pending g') \<union> ended (eg_runtime g')"
    using inv unfolding e run_inv_def by blast
  moreover have "eg_status g' = WS_RUNNING"
    using inv ss(3) rc(8) g1 by (simp add: run_inv_def)
  moreover have "ru_state (eg_runtime g') \<in> {ES_RUNNING, ES_PAUSING, ES_CANCELLING}"
    using rc(3) c1 ss(4) by simp
  moreover have "xc_running (ru_context (eg_runtime g')) = {}"
    using inv rc(1) c1 ss(1) by (simp add: run_inv_def)
  ultimately show ?thesis unfolding run_inv_def by blast
qed

text \<open>The states in which the loop can stop.\<close>

definition stop_ok :: "string set \<Rightarrow> loop_end \<times> 'w engine \<Rightarrow> bool" where
  "stop_ok names eg \<longleftrightarrow>
     (case eg of
        (Drained, g) \<Rightarrow>
          eg_status g \<noteq> WS_COMPLETED \<and>
          ((eg_pending g = [] \<and> names \<subseteq> ended (eg_runtime g)) \<or>
           xc_failed (ru_context (eg_runtime g)) \<noteq> {})
      | (Returned r, g) \<Rightarrow> wr_status r \<noteq> WS_COMPLETED
      | (Raised e, g) \<Rightarrow> eg_status g \<noteq> WS_COMPLETED)"

lemma return_with_checkpoint_stop:
  assumes "eg_status g \<noteq> WS_COMPLETED"
  shows "stop_ok names (return_with_checkpoint def g)"
  using assms
  by (auto simp: stop_ok_def return_with_checkpoint_def eg_checkpoint_def current_result_def
      split: sum.splits prod.splits)

lemma settle_step_status: "eg_status (snd (settle_step ff s r g)) = eg_status g"
  by (auto simp: settle_step_def Let_def split: step_status.splits sum.splits)

lemma run_inv_stop:
  assumes inv: "run_inv names g" and body: "er_body env def ff g = Inl eg"
  shows "stop_ok names eg"
proof -
  let ?g1 = "g\<lparr>eg_runtime := snd (prepare_dispatch (eg_runtime g))\<rparr>"
  have status: "eg_status g = WS_RUNNING" and
    state: "ru_state (eg_runtime g) \<in> {ES_RUNNING, ES_RESUMING, ES_PAUSING, ES_CANCELLING}"
    and running: "xc_running (ru_context (eg_runtime g)) = {}"
    using inv by (auto simp: run_inv_def)
  show ?thesis
  proof (cases "eg_pending g = [] \<or> cancel_requested (eg_runtime g) \<or>
      \<not> fst (prepare_dispatch (eg_runtime g))")
    case True
    have paused: "ru_state (snd (prepare_dispatch (eg_runtime g))) = ES_PAUSED"
      if "\<not> fst (prepare_dispatch (eg_runtime g))" "\<not> cancel_requested (eg_runtime g)"
      using that state running
      by (auto simp: prepare_dispatch_def can_dispatch_def cancel_requested_def Let_def)
    show ?thesis
      using True body paused inv status
      by (auto simp: er_body_def Let_def set_status_def run_inv_def stop_ok_def [of _ "(Drained, _)"]
          intro!: return_with_checkpoint_stop split: if_splits)
  next
    case False
    have st: "eg_status g2 = WS_RUNNING" if "run_claimed env s ?g1 = (res, g2)" for s res g2
      using run_claimed_Inr(5) [OF that] status by simp
    have st': "eg_status g3 = WS_RUNNING"
      if "run_claimed env s ?g1 = (res, g2)" "settle_step b s r g2 = (x, g3)" for s res g2 b r x g3
      using settle_step_status [of b s r g2] that st by simp
    show ?thesis
      using body False status
      by (auto simp: er_body_def Let_def stop_ok_def dest: st st'
          split: if_splits list.splits prod.splits sum.splits option.splits)
  qed
qed

lemma er_loop_stop: "run_inv names g \<Longrightarrow> stop_ok names (er_loop env def ff g)"
  by (rule er_loop_invariant [where P = "run_inv names"]) (auto intro: run_inv_next run_inv_stop)

lemma prepare_dispatch_sets:
  "ended (snd (prepare_dispatch r)) = ended r"
  "xc_failed (ru_context (snd (prepare_dispatch r))) = xc_failed (ru_context r)"
  "ended (finish_cancel r) = ended r"
  "xc_failed (ru_context (finish_cancel r)) = xc_failed (ru_context r)"
  "ended (ru_complete r) = ended r"
  "xc_failed (ru_context (ru_complete r)) = xc_failed (ru_context r)"
  "ru_dispatcher (ru_complete r) = ru_dispatcher r"
  by (auto simp: prepare_dispatch_def finish_cancel_def ru_complete_def ended_def Let_def
      split: prod.splits)

lemma finish_cancel_Nil:
  "di_pending (ru_dispatcher r) = [] \<Longrightarrow> di_pending (ru_dispatcher (finish_cancel r)) = []"
  by (simp add: finish_cancel_def cancel_waiting_def Let_def)

lemma return_with_checkpoint_status:
  "return_with_checkpoint def g = (Returned r, g') \<Longrightarrow> wr_status r = eg_status g"
  by (auto simp: return_with_checkpoint_def eg_checkpoint_def current_result_def
      split: sum.splits prod.splits)

lemma er_finish_completed:
  assumes stop: "stop_ok names (Drained, g)" and fin: "er_finish def g = (Returned r, g')"
    and completed: "wr_status r = WS_COMPLETED"
  shows "eg_pending g' = [] \<and> xc_failed (ru_context (eg_runtime g')) = {} \<and>
    names \<subseteq> ended (eg_runtime g')"
proof -
  define r1 where "r1 = snd (prepare_dispatch (eg_runtime g))"
  define r2 where "r2 = (if cancel_requested r1 then finish_cancel r1 else r1)"
  let ?g2 = "g\<lparr>eg_runtime := r2\<rparr>"
  have sets: "ended r2 = ended (eg_runtime g)"
    "xc_failed (ru_context r2) = xc_failed (ru_context (eg_runtime g))"
    by (simp_all add: r1_def r2_def prepare_dispatch_sets)
  have pend: "di_pending (ru_dispatcher r2) = []" if "eg_pending g = []"
    using that by (simp add: r1_def r2_def finish_cancel_Nil)
  have fin': "er_finish def g = (if ru_state r2 = ES_CANCELLED
         then return_with_checkpoint def (set_status [WS_RUNNING, WS_PAUSED] WS_CANCELLED ?g2)
         else if ru_state r2 = ES_PAUSED
         then return_with_checkpoint def (set_status [WS_RUNNING] WS_PAUSED ?g2)
         else if xc_failed (ru_context r2) \<noteq> {}
         then (case workflow_transition (eg_status ?g2) WS_FAILED of
                 Inl e \<Rightarrow> (Raised e, ?g2\<lparr>eg_runtime := ru_fail r2\<rparr>)
               | Inr s \<Rightarrow>
                   let g3 = ?g2\<lparr>eg_runtime := ru_fail r2, eg_status := s\<rparr>
                   in (Returned (current_result def g3), g3))
         else (case workflow_transition (eg_status ?g2) WS_COMPLETED of
                 Inl e \<Rightarrow> (Raised e, ?g2\<lparr>eg_runtime := ru_complete r2\<rparr>)
               | Inr s \<Rightarrow>
                   let g3 = ?g2\<lparr>eg_runtime := ru_complete r2, eg_status := s\<rparr>
                   in (Returned (current_result def g3), g3)))"
    by (simp only: er_finish_def r1_def r2_def Let_def)
  have "eg_status (set_status ws t ?g2) \<noteq> WS_COMPLETED" if "t \<noteq> WS_COMPLETED" for ws t
    using that stop by (simp add: set_status_def stop_ok_def)
  with fin completed return_with_checkpoint_status
  have "ru_state r2 \<noteq> ES_CANCELLED" "ru_state r2 \<noteq> ES_PAUSED"
    unfolding fin' by (metis workflow_status.distinct)+
  with fin completed have "xc_failed (ru_context r2) = {}" and g': "eg_runtime g' = ru_complete r2"
    unfolding fin'
    by (auto simp: workflow_transition_def current_result_def Let_def split: if_splits sum.splits)
  with stop sets have "eg_pending g = []" "names \<subseteq> ended r2" by (auto simp: stop_ok_def)
  with pend g' sets \<open>xc_failed (ru_context r2) = {}\<close> show ?thesis
    by (simp add: prepare_dispatch_sets)
qed

lemma er_finish_raised:
  assumes "er_finish def g = (Raised e, g')" "eg_status g \<noteq> WS_COMPLETED"
  shows "eg_status g' \<noteq> WS_COMPLETED"
  using assms
  by (auto simp: er_finish_def Let_def return_with_checkpoint_def eg_checkpoint_def set_status_def
      split: if_splits sum.splits prod.splits)

lemma er_finish_not_drained: "er_finish def g \<noteq> (Drained, g')"
  by (auto simp: er_finish_def Let_def return_with_checkpoint_def split: sum.splits prod.splits)

lemma execute_runtime_completed:
  assumes inv: "run_inv names (g\<lparr>eg_results := rs\<rparr>)"
    and rs: "restored_results (xc_step_results (ru_context (eg_runtime g))) = Inr rs"
    and run: "execute_runtime env def ff g = (Inr r, g')" and c: "wr_status r = WS_COMPLETED"
  shows "eg_pending g' = [] \<and> xc_failed (ru_context (eg_runtime g')) = {} \<and>
    names \<subseteq> ended (eg_runtime g')"
proof -
  obtain e g1 where loop: "er_loop env def ff (g\<lparr>eg_results := rs\<rparr>) = (e, g1)" by (metis surj_pair)
  have stop: "stop_ok names (e, g1)"
    using er_loop_stop [OF inv, of env def ff] loop by simp
  have raised: "wr_status (fst (er_close def (Raised x, h))) \<noteq> WS_COMPLETED"
    if "eg_status h \<noteq> WS_COMPLETED" for x h
    using that by (simp add: er_close_def set_status_def)
  show ?thesis
  proof (cases e)
    case (Returned x)
    with run rs loop stop c show ?thesis
      by (auto simp: execute_runtime_def er_close_def stop_ok_def)
  next
    case (Raised x)
    with run rs loop stop c raised [of g1 x] show ?thesis
      by (auto simp: execute_runtime_def stop_ok_def split: prod.splits)
  next
    case Drained
    obtain e2 g2 where fin: "er_finish def g1 = (e2, g2)" by (metis surj_pair)
    with run rs loop Drained have close: "er_close def (e2, g2) = (r, g')"
      by (auto simp: execute_runtime_def split: prod.splits)
    show ?thesis
    proof (cases e2)
      case (Returned x)
      with close have "x = r" "g2 = g'" by (simp_all add: er_close_def)
      with er_finish_completed [OF stop [unfolded Drained]] fin Returned c show ?thesis by blast
    next
      case (Raised x)
      have "eg_status g1 \<noteq> WS_COMPLETED" using stop Drained by (simp add: stop_ok_def)
      with er_finish_raised fin Raised have "eg_status g2 \<noteq> WS_COMPLETED" by blast
      with raised [of g2 x] close Raised c show ?thesis by simp
    next
      case Drained
      with fin er_finish_not_drained show ?thesis by blast
    qed
  qed
qed

text \<open>When a run that starts RUNNING or PAUSED, with no step marked as running, is resumed and
  reported COMPLETED, whatever pause, resume and cancel requests arrive while its steps run, then
  nothing is pending, no step has failed, and every step that was pending has completed or was
  skipped.\<close>

theorem resume_completed:
  assumes "resume_runtime env def ff g = (Inr r, g')" and "wr_status r = WS_COMPLETED"
    and "ru_state (eg_runtime g) = ES_PAUSED \<or> ru_state (eg_runtime g) = ES_RUNNING"
    and "xc_running (ru_context (eg_runtime g)) = {}"
  shows "eg_pending g' = [] \<and> xc_failed (ru_context (eg_runtime g')) = {} \<and>
    step_name ` set (eg_pending g) \<subseteq>
      xc_completed (ru_context (eg_runtime g')) \<union> xc_skipped (ru_context (eg_runtime g'))"
proof -
  let ?names = "step_name ` set (eg_pending g)"
  obtain h where h: "execute_runtime env def ff h = (Inr r, g')"
    "eg_status h = WS_RUNNING" "eg_pending h = eg_pending g"
    "xc_running (ru_context (eg_runtime h)) = {}"
    "ru_state (eg_runtime h) = ES_RUNNING \<or> ru_state (eg_runtime h) = ES_RESUMING"
    using assms
    by (auto simp: resume_runtime_def Let_def ru_resume_def ru_apply_def xc_resume_def
        xc_transition_def validate_transition_def split: if_splits)
  then obtain rs where rs: "restored_results (xc_step_results (ru_context (eg_runtime h))) = Inr rs"
    by (cases "restored_results (xc_step_results (ru_context (eg_runtime h)))")
      (auto simp: execute_runtime_def)
  have "run_inv ?names (h\<lparr>eg_results := rs\<rparr>)" using h(2-5) by (auto simp: run_inv_def)
  from execute_runtime_completed [OF this rs h(1) assms(2)] show ?thesis
    by (auto simp: ended_def)
qed

definition paused_engine :: "unit engine" where
  "paused_engine = sample_engine\<lparr>eg_runtime := (let r = new_runtime [sample_step ''a'' []] []
     in r\<lparr>ru_context := (ru_context r)\<lparr>xc_state := ES_PAUSED\<rparr>\<rparr>)\<rparr>"

lemma paused_engine_facts:
  "ru_state (eg_runtime paused_engine) = ES_PAUSED"
  "xc_running (ru_context (eg_runtime paused_engine)) = {}"
  "eg_pending paused_engine = [sample_step ''a'' []]"
  by (simp_all only: paused_engine_def sample_engine_def engine.simps runtime.simps exec_context.simps
      new_runtime_def new_dispatcher_def dispatcher.simps Let_def)

theorem resume_completed_witness:
  "\<exists>r g'. resume_runtime echo_env \<lparr>wd_name = ''wf'', wd_steps = [sample_step ''a'' []]\<rparr> True
      paused_engine = (Inr r, g') \<and> wr_status r = WS_COMPLETED \<and>
    ''a'' \<in> xc_completed (ru_context (eg_runtime g')) \<union> xc_skipped (ru_context (eg_runtime g'))"
proof -
  let ?run = "resume_runtime echo_env \<lparr>wd_name = ''wf'', wd_steps = [sample_step ''a'' []]\<rparr> True
    paused_engine"
  have ok: "(case fst ?run of Inl _ \<Rightarrow> False | Inr r \<Rightarrow> wr_status r = WS_COMPLETED)"
    by code_simp
  then obtain r g' where r: "?run = (Inr r, g')" "wr_status r = WS_COMPLETED"
    by (cases ?run) (auto split: sum.splits)
  from resume_completed [OF r] paused_engine_facts show ?thesis
    using r by auto
qed

text \<open>A runtime that was asked to pause while a step was running keeps the state PAUSING with
  that step recorded as running, and so does its checkpoint. Resuming such a runtime, directly or
  after recovery, executes nothing, leaves every step pending and reports the workflow
  COMPLETED.\<close>

theorem resume_pausing_completes_nothing:
  assumes "ru_state (eg_runtime g) = ES_PAUSING" and "xc_running (ru_context (eg_runtime g)) \<noteq> {}"
    and "xc_failed (ru_context (eg_runtime g)) = {}" and "eg_pending g \<noteq> []"
    and "eg_status g = WS_PAUSED \<or> eg_status g = WS_RUNNING"
    and "restored_results (xc_step_results (ru_context (eg_runtime g))) = Inr rs"
  shows "\<exists>r g'. resume_runtime env def ff g = (Inr r, g') \<and> wr_status r = WS_COMPLETED \<and>
    eg_st g' = eg_st g \<and> eg_pending g' = eg_pending g"
proof -
  let ?g = "g\<lparr>eg_status := WS_RUNNING, eg_results := rs\<rparr>"
  have prep: "prepare_dispatch (eg_runtime g) = (False, eg_runtime g)"
    using assms(1,2) by (simp add: prepare_dispatch_def Let_def)
  have "er_body env def ff ?g = Inl (Drained, ?g)"
    using assms(1,4) prep by (simp add: er_body_def cancel_requested_def Let_def)
  then have "er_loop env def ff ?g = (Drained, ?g)" by (subst er_loop.simps) simp
  moreover have "er_finish def ?g = (Returned (current_result def (?g\<lparr>eg_status := WS_COMPLETED\<rparr>)),
      ?g\<lparr>eg_status := WS_COMPLETED\<rparr>)"
    using assms(1,3) prep
    by (simp add: er_finish_def cancel_requested_def workflow_transition_def ru_complete_def Let_def)
  ultimately show ?thesis
    using assms(1,5,6)
    by (auto simp: resume_runtime_def execute_runtime_def er_close_def current_result_def Let_def)
qed

text \<open>The engine after \<open>pause\<close> was called while step a was running, its checkpoint recovered.\<close>

definition pausing_runtime :: runtime where
  "pausing_runtime =
     (let r = try_op ru_pause (try_op ru_start (new_runtime [sample_step ''a'' []] []))
      in r\<lparr>ru_context := (ru_context r)\<lparr>xc_running := {''a''}\<rparr>\<rparr>)"

definition pausing_engine :: "unit engine" where
  "pausing_engine = \<lparr>eg_runtime = pausing_runtime, eg_status = WS_PAUSED, eg_results = [],
     eg_store = [], eg_last = None, eg_st = start_xst ()\<rparr>"

lemma pausing_engine_facts:
  "ru_state (eg_runtime pausing_engine) = ES_PAUSING"
  "xc_running (ru_context (eg_runtime pausing_engine)) = {''a''}"
  "xc_failed (ru_context (eg_runtime pausing_engine)) = {}"
  "eg_pending pausing_engine = [sample_step ''a'' []]"
  "eg_status pausing_engine = WS_PAUSED"
  "xc_step_results (ru_context (eg_runtime pausing_engine)) = []"
  by (simp_all add: pausing_engine_def pausing_runtime_def try_op_def ru_start_def ru_pause_def
      ru_apply_def xc_transition_def xc_pause_def validate_transition_def new_runtime_def
      new_dispatcher_def)

theorem resume_pausing_completes_nothing_witness:
  "\<exists>r g'. resume_runtime echo_env \<lparr>wd_name = ''wf'', wd_steps = [sample_step ''a'' []]\<rparr> True
      pausing_engine = (Inr r, g') \<and> wr_status r = WS_COMPLETED \<and>
    eg_st g' = eg_st pausing_engine \<and> eg_pending g' = [sample_step ''a'' []]"
  using resume_pausing_completes_nothing [of pausing_engine "[]" echo_env
      "\<lparr>wd_name = ''wf'', wd_steps = [sample_step ''a'' []]\<rparr>" True]
  by (simp add: pausing_engine_facts)

text \<open>A workflow in which step a fails and tolerates it, and step b needs a.\<close>

definition failing_env :: "unit wf_env" where
  "failing_env = \<lparr>en_handler = \<lambda>h d w.
       (if h = ''a'' then Inl (Exn ''ValueError'' ''no'') else Inr (VStr h), Fin 0, w),
     en_condition = \<lambda>c d. True, en_requests = \<lambda>w. [], en_bases = \<lambda>c. []\<rparr>"

definition tolerant_definition :: wf_definition where
  "tolerant_definition = \<lparr>wd_name = ''wf'',
     wd_steps = [(sample_step ''a'' [])\<lparr>st_continue_on_error := True\<rparr>, sample_step ''b'' [''a'']]\<rparr>"

definition tolerant_engine :: "unit engine" where
  "tolerant_engine = \<lparr>eg_runtime = try_op ru_start (new_runtime (wd_steps tolerant_definition) []),
     eg_status = WS_RUNNING, eg_results = [], eg_store = [], eg_last = None,
     eg_st = start_xst ()\<rparr>"

text \<open>\<open>execute\<close> and a controlled run disagree on \<open>continue_on_error\<close>: \<open>execute\<close> goes on
  after the tolerated failure of step a, calls step b and reports COMPLETED, while \<open>resume\<close> with
  its default \<open>fail_fast\<close> leaves the loop after a, never starts b and reports FAILED.\<close>

theorem tolerated_failure_stops_resume:
  "wr_status (fst (wf_execute failing_env tolerant_definition [] (start_xst ()))) = WS_COMPLETED \<and>
   (case fst (resume_runtime failing_env tolerant_definition True tolerant_engine) of
      Inl _ \<Rightarrow> False | Inr r \<Rightarrow> wr_status r = WS_FAILED \<and> map sr_name (wr_steps r) = [''a'']) \<and>
   eg_pending (snd (resume_runtime failing_env tolerant_definition True tolerant_engine)) =
     [sample_step ''b'' [''a'']]"
  by (intro conjI; code_simp)

text \<open>The same workflow where someone asks for a pause while a runs; the outside state tells
  whether a ran last.\<close>

definition pause_after_a_env :: "bool wf_env" where
  "pause_after_a_env = \<lparr>en_handler = \<lambda>h d w.
       (if h = ''a'' then Inl (Exn ''ValueError'' ''no'') else Inr (VStr h), Fin 0, h = ''a''),
     en_condition = \<lambda>c d. True,
     en_requests = \<lambda>w. if w then [Request_Pause] else [], en_bases = \<lambda>c. []\<rparr>"

definition interrupted_engine :: "bool engine" where
  "interrupted_engine = snd (resume_runtime pause_after_a_env tolerant_definition False
     \<lparr>eg_runtime = try_op ru_start (new_runtime (wd_steps tolerant_definition) []),
      eg_status = WS_RUNNING, eg_results = [], eg_store = [], eg_last = None,
      eg_st = start_xst False\<rparr>)"

text \<open>A tolerated failure satisfies its dependents only until the runtime is recovered. With
  \<open>fail_fast\<close> off and a pause after the tolerated failure of a, resuming the paused runtime
  itself executes b, but resuming from its checkpoint fails with a blocked dependency and b is
  never started.\<close>

theorem tolerated_failure_lost_on_recovery:
  "eg_status interrupted_engine = WS_PAUSED \<and>
   (case fst (resume_runtime pause_after_a_env tolerant_definition False interrupted_engine) of
      Inl _ \<Rightarrow> False | Inr r \<Rightarrow> map sr_name (wr_steps r) = [''a'', ''b'']) \<and>
   (case eg_last interrupted_engine of
      None \<Rightarrow> False
    | Some c \<Rightarrow>
        (case fst (resume_snapshot pause_after_a_env tolerant_definition (Full c) False
                     interrupted_engine) of
           Inl _ \<Rightarrow> False
         | Inr r \<Rightarrow> wr_error r = Some blocked_error \<and> map sr_name (wr_steps r) = [''a'']))"
  by (intro conjI; code_simp)

end
