(* ===== verification/Dist_Failover.thy ===== *)
theory Dist_Failover
  imports Py_Float
begin

text \<open>
  Backend health probes and backend failover (\<open>src/src/tkai/distributed/health.py\<close>, \<open>failover.py\<close>).
  The backends are not code of the checker or the manager: what a probe or a connect does is an
  argument of the step that calls it. The periodic worker calls the same steps; its thread is not
  modelled. A configuration in seconds is a float.
\<close>

subsection \<open>Health probes\<close>

datatype distributed_error =
    Dist_ValueError string
  | FailoverStateError string
  | Dist_Raised string

datatype backend_health = BH_HEALTHY | BH_DEGRADED | BH_UNHEALTHY

record backend_snapshot =
  bs_backend :: string
  bs_status :: backend_health
  bs_last_probe :: "time option"
  bs_last_error :: "string option"
  bs_failures :: int
  bs_attempts :: int

record probe_config =
  pc_interval :: pyfloat
  pc_timeout :: pyfloat
  pc_retries :: int
  pc_degraded_after :: int
  pc_unhealthy_after :: int

definition check_probe_config :: "probe_config \<Rightarrow> distributed_error + probe_config" where
  "check_probe_config c =
     (if py_le (pc_interval c) (Fin 0)
      then Inl (Dist_ValueError ''Health probe interval_seconds must be greater than zero.'')
      else if py_le (pc_timeout c) (Fin 0)
      then Inl (Dist_ValueError ''Health probe timeout_seconds must be greater than zero.'')
      else if pc_retries c < 0
      then Inl (Dist_ValueError ''Health probe retries must not be negative.'')
      else if pc_degraded_after c < 1
      then Inl (Dist_ValueError ''Health probe degraded_after_failures must be positive.'')
      else if pc_unhealthy_after c < pc_degraded_after c
      then Inl (Dist_ValueError ''Health probe unhealthy_after_failures must not be lower than degraded_after_failures.'')
      else Inr c)"

definition default_probe_config :: probe_config where
  "default_probe_config = \<lparr>pc_interval = Fin 30, pc_timeout = Fin 5, pc_retries = 1,
     pc_degraded_after = 1, pc_unhealthy_after = 3\<rparr>"

record health_checker =
  hk_backend :: string
  hk_config :: probe_config
  hk_failures :: int
  hk_attempts :: int
  hk_snapshot :: backend_snapshot

definition unprobed :: "string \<Rightarrow> backend_snapshot" where
  "unprobed b = \<lparr>bs_backend = b, bs_status = BH_UNHEALTHY, bs_last_probe = None, bs_last_error = None,
     bs_failures = 0, bs_attempts = 0\<rparr>"

definition new_checker :: "string \<Rightarrow> probe_config \<Rightarrow> health_checker" where
  "new_checker b c = \<lparr>hk_backend = b, hk_config = c, hk_failures = 0, hk_attempts = 0, hk_snapshot = unprobed b\<rparr>"

text \<open>The attempts of one probe: what the backend answers to the attempt with the given number.\<close>

datatype probe_answer = Answers bool | Raises string

fun probe_attempts :: "nat \<Rightarrow> (nat \<Rightarrow> probe_answer) \<Rightarrow> nat \<Rightarrow> string option \<Rightarrow> bool \<times> string option" where
  "probe_attempts 0 answer i err = (False, err)"
| "probe_attempts (Suc n) answer i err =
     (case answer i of
        Answers True \<Rightarrow> (True, err)
      | Answers False \<Rightarrow> probe_attempts n answer (Suc i) (Some ''RuntimeError'')
      | Raises t \<Rightarrow> probe_attempts n answer (Suc i) (Some t))"

definition record_probe_success :: "time \<Rightarrow> health_checker \<Rightarrow> health_checker" where
  "record_probe_success now k =
     (let a = hk_attempts k + 1 in
      k\<lparr>hk_failures := 0, hk_attempts := a,
        hk_snapshot := \<lparr>bs_backend = hk_backend k, bs_status = BH_HEALTHY, bs_last_probe = Some now,
                        bs_last_error = None, bs_failures = 0, bs_attempts = a\<rparr>\<rparr>)"

definition probe_status :: "probe_config \<Rightarrow> int \<Rightarrow> backend_health" where
  "probe_status c n =
     (if pc_unhealthy_after c \<le> n then BH_UNHEALTHY
      else if pc_degraded_after c \<le> n then BH_DEGRADED else BH_HEALTHY)"

definition record_probe_failure :: "time \<Rightarrow> string option \<Rightarrow> health_checker \<Rightarrow> health_checker" where
  "record_probe_failure now err k =
     (let f = hk_failures k + 1; a = hk_attempts k + 1 in
      k\<lparr>hk_failures := f, hk_attempts := a,
        hk_snapshot := \<lparr>bs_backend = hk_backend k, bs_status = probe_status (hk_config k) f,
                        bs_last_probe = Some now,
                        bs_last_error = Some (case err of None \<Rightarrow> ''ProbeError'' | Some t \<Rightarrow> t),
                        bs_failures = f, bs_attempts = a\<rparr>\<rparr>)"

definition hk_probe :: "(nat \<Rightarrow> probe_answer) \<Rightarrow> time \<Rightarrow> health_checker \<Rightarrow> health_checker" where
  "hk_probe answer now k =
     (case probe_attempts (nat (pc_retries (hk_config k) + 1)) answer 0 None of
        (True, _) \<Rightarrow> record_probe_success now k
      | (False, err) \<Rightarrow> record_probe_failure now err k)"

definition switch_backend :: "string \<Rightarrow> health_checker \<Rightarrow> health_checker" where
  "switch_backend b k = k\<lparr>hk_backend := b, hk_failures := 0, hk_attempts := 0, hk_snapshot := unprobed b\<rparr>"

text \<open>The operations of a checker as a datatype, and their execution in sequence.\<close>

datatype checker_op = Probe "nat \<Rightarrow> probe_answer" time | Switch string

fun checker_step :: "checker_op \<Rightarrow> health_checker \<Rightarrow> health_checker" where
  "checker_step (Probe answer now) k = hk_probe answer now k"
| "checker_step (Switch b) k = switch_backend b k"

definition checker_run :: "checker_op list \<Rightarrow> health_checker \<Rightarrow> health_checker" where
  "checker_run ops k = fold checker_step ops k"

subsection \<open>Failover\<close>

datatype failover_state = PRIMARY_ACTIVE | SECONDARY_ACTIVE | PRIMARY_RECOVERED

fun failover_state_value :: "failover_state \<Rightarrow> string" where
  "failover_state_value PRIMARY_ACTIVE = ''primary_active''"
| "failover_state_value SECONDARY_ACTIVE = ''secondary_active''"
| "failover_state_value PRIMARY_RECOVERED = ''primary_recovered''"

datatype backend_priority = PRIMARY | SECONDARY

record failover_config =
  fc_failure_threshold :: int
  fc_recovery_threshold :: int
  fc_interval :: pyfloat

definition check_failover_config :: "failover_config \<Rightarrow> distributed_error + failover_config" where
  "check_failover_config c =
     (if fc_failure_threshold c < 1
      then Inl (Dist_ValueError ''Failover failure_threshold must be positive.'')
      else if fc_recovery_threshold c < 1
      then Inl (Dist_ValueError ''Failover recovery_threshold must be positive.'')
      else if py_le (fc_interval c) (Fin 0)
      then Inl (Dist_ValueError ''Failover interval_seconds must be greater than zero.'')
      else Inr c)"

record failover_metrics =
  fm_evaluations :: int
  fm_failovers :: int
  fm_recoveries :: int
  fm_failbacks :: int

record failover =
  fo_primary :: string
  fo_secondary :: string
  fo_config :: failover_config
  fo_state :: failover_state
  fo_failures :: int
  fo_recoveries :: int
  fo_last_transition :: "time option"
  fo_health :: "backend_snapshot option"
  fo_metrics :: failover_metrics

definition new_failover :: "string \<Rightarrow> string \<Rightarrow> failover_config \<Rightarrow> failover" where
  "new_failover p q c = \<lparr>fo_primary = p, fo_secondary = q, fo_config = c, fo_state = PRIMARY_ACTIVE,
     fo_failures = 0, fo_recoveries = 0, fo_last_transition = None, fo_health = None,
     fo_metrics = \<lparr>fm_evaluations = 0, fm_failovers = 0, fm_recoveries = 0, fm_failbacks = 0\<rparr>\<rparr>"

record failover_snapshot =
  fs_state :: failover_state
  fs_active :: string
  fs_priority :: backend_priority
  fs_failures :: int
  fs_recoveries :: int
  fs_last_transition :: "time option"
  fs_health :: "backend_snapshot option"
  fs_metrics :: failover_metrics

definition active_backend :: "failover \<Rightarrow> string" where
  "active_backend s = (if fo_state s = PRIMARY_ACTIVE then fo_primary s else fo_secondary s)"

definition failover_snapshot_of :: "failover \<Rightarrow> failover_snapshot" where
  "failover_snapshot_of s =
     (let p = (if fo_state s = PRIMARY_ACTIVE then PRIMARY else SECONDARY) in
      \<lparr>fs_state = fo_state s, fs_active = (if p = PRIMARY then fo_primary s else fo_secondary s),
       fs_priority = p, fs_failures = fo_failures s, fs_recoveries = fo_recoveries s,
       fs_last_transition = fo_last_transition s, fs_health = fo_health s, fs_metrics = fo_metrics s\<rparr>)"

fun failover_targets :: "failover_state \<Rightarrow> failover_state set" where
  "failover_targets PRIMARY_ACTIVE = {SECONDARY_ACTIVE}"
| "failover_targets SECONDARY_ACTIVE = {PRIMARY_RECOVERED}"
| "failover_targets PRIMARY_RECOVERED = {PRIMARY_ACTIVE}"

definition fo_transition :: "failover_state \<Rightarrow> time \<Rightarrow> failover \<Rightarrow> distributed_error + failover" where
  "fo_transition t now s =
     (if t \<notin> failover_targets (fo_state s)
      then Inl (FailoverStateError (''Cannot transition from '' @ failover_state_value (fo_state s)
             @ '' to '' @ failover_state_value t @ ''.''))
      else Inr (s\<lparr>fo_state := t, fo_last_transition := Some now\<rparr>))"

datatype failover_event = BackendFailedOver string | PrimaryBackendRecovered string | BackendFailedBack string

text \<open>What \<open>connect\<close> of a backend does: it returns, or raises an exception of the given name.\<close>

type_synonym connect_result = "string option"

definition count_failover :: "failover_metrics \<Rightarrow> failover_metrics" where
  "count_failover m = m\<lparr>fm_failovers := fm_failovers m + 1\<rparr>"

definition count_recovery :: "failover_metrics \<Rightarrow> failover_metrics" where
  "count_recovery m = m\<lparr>fm_recoveries := fm_recoveries m + 1\<rparr>"

definition fo_evaluate ::
  "backend_snapshot \<Rightarrow> connect_result \<Rightarrow> time \<Rightarrow> failover \<Rightarrow>
     (distributed_error + failover_snapshot \<times> failover_event option) \<times> failover" where
  "fo_evaluate health conn now s =
     (let s1 = s\<lparr>fo_health := Some health,
                 fo_metrics := (fo_metrics s)\<lparr>fm_evaluations := fm_evaluations (fo_metrics s) + 1\<rparr>\<rparr>;
          return = (\<lambda>e s'. (Inr (failover_snapshot_of s', e), s'))
      in case fo_state s1 of
           PRIMARY_ACTIVE \<Rightarrow>
             if bs_status health = BH_HEALTHY then return None (s1\<lparr>fo_failures := 0\<rparr>)
             else
               let s2 = s1\<lparr>fo_failures := fo_failures s1 + 1\<rparr> in
               if fc_failure_threshold (fo_config s2) \<le> fo_failures s2
               then (case conn of
                       Some t \<Rightarrow> (Inl (Dist_Raised t), s2)
                     | None \<Rightarrow>
                         (case fo_transition SECONDARY_ACTIVE now s2 of
                            Inl e \<Rightarrow> (Inl e, s2)
                          | Inr s3 \<Rightarrow>
                              return (Some (BackendFailedOver (fo_secondary s3)))
                                (s3\<lparr>fo_metrics := count_failover (fo_metrics s3)\<rparr>)))
               else return None s2
         | SECONDARY_ACTIVE \<Rightarrow>
             if bs_status health = BH_HEALTHY
             then
               let s2 = s1\<lparr>fo_recoveries := fo_recoveries s1 + 1\<rparr> in
               if fc_recovery_threshold (fo_config s2) \<le> fo_recoveries s2
               then (case fo_transition PRIMARY_RECOVERED now s2 of
                       Inl e \<Rightarrow> (Inl e, s2)
                     | Inr s3 \<Rightarrow>
                         return (Some (PrimaryBackendRecovered (fo_primary s3)))
                           (s3\<lparr>fo_metrics := count_recovery (fo_metrics s3)\<rparr>))
               else return None s2
             else return None (s1\<lparr>fo_recoveries := 0\<rparr>)
         | PRIMARY_RECOVERED \<Rightarrow> return None s1)"

definition manual_failback ::
  "connect_result \<Rightarrow> time \<Rightarrow> failover \<Rightarrow>
     (distributed_error + failover_snapshot \<times> failover_event option) \<times> failover" where
  "manual_failback conn now s =
     (if fo_state s \<noteq> PRIMARY_RECOVERED
      then (Inl (FailoverStateError ''Manual failback requires a recovered primary backend.''), s)
      else case conn of
        Some t \<Rightarrow> (Inl (Dist_Raised t), s)
      | None \<Rightarrow>
          (case fo_transition PRIMARY_ACTIVE now s of
             Inl e \<Rightarrow> (Inl e, s)
           | Inr s1 \<Rightarrow>
               let s2 = s1\<lparr>fo_failures := 0, fo_recoveries := 0,
                           fo_metrics := (fo_metrics s1)\<lparr>fm_failbacks := fm_failbacks (fo_metrics s1) + 1\<rparr>\<rparr>
               in (Inr (failover_snapshot_of s2, Some (BackendFailedBack (fo_primary s2))), s2)))"

datatype failover_op = Evaluate backend_snapshot connect_result time | Failback connect_result time

fun failover_step :: "failover_op \<Rightarrow> failover \<Rightarrow> failover" where
  "failover_step (Evaluate h c now) s = snd (fo_evaluate h c now s)"
| "failover_step (Failback c now) s = snd (manual_failback c now s)"

definition failover_run :: "failover_op list \<Rightarrow> failover \<Rightarrow> failover" where
  "failover_run ops s = fold failover_step ops s"


subsection \<open>Probes and their status\<close>

definition reached :: "int \<Rightarrow> (nat \<Rightarrow> probe_answer) \<Rightarrow> bool" where
  "reached retries answer \<longleftrightarrow> (\<exists>i. int i \<le> retries \<and> answer i = Answers True)"

lemma probe_attempts_reached: "fst (probe_attempts n answer i err) \<longleftrightarrow> (\<exists>j < n. answer (i + j) = Answers True)"
proof (induction n arbitrary: i err)
  case (Suc n)
  have split: "(\<exists>j < Suc n. answer (i + j) = Answers True) \<longleftrightarrow>
      answer i = Answers True \<or> (\<exists>j < n. answer (Suc i + j) = Answers True)"
    by (auto simp: less_Suc_eq_0_disj)
  show ?case unfolding split using Suc.IH by (simp split: probe_answer.split bool.split)
qed simp

lemma hk_probe_cases:
  "\<exists>err. hk_probe answer now k = (if reached (pc_retries (hk_config k)) answer
     then record_probe_success now k else record_probe_failure now err k)"
proof -
  let ?n = "nat (pc_retries (hk_config k) + 1)"
  obtain b err where r: "probe_attempts ?n answer 0 None = (b, err)" by force
  have "b = (\<exists>j < ?n. answer j = Answers True)"
    using probe_attempts_reached [of ?n answer 0 None] by (simp add: r)
  also have "\<dots> = reached (pc_retries (hk_config k)) answer"
    unfolding reached_def by (simp add: zless_nat_eq_int_zless)
  finally show ?thesis by (cases b) (auto simp: hk_probe_def r)
qed

definition failed_probe :: "int \<Rightarrow> checker_op \<Rightarrow> bool" where
  "failed_probe retries p = (case p of Probe answer _ \<Rightarrow> \<not> reached retries answer | Switch _ \<Rightarrow> False)"

definition is_probe :: "checker_op \<Rightarrow> bool" where
  "is_probe p = (case p of Probe _ _ \<Rightarrow> True | Switch _ \<Rightarrow> False)"

lemma kinds_of_ops [simp]:
  "failed_probe r (Probe answer now) = (\<not> reached r answer)" "failed_probe r (Switch b) = False"
  "is_probe (Probe answer now)" "\<not> is_probe (Switch b)"
  by (simp_all add: failed_probe_def is_probe_def)

lemma reached_const [simp]: "reached r (\<lambda>_. a) \<longleftrightarrow> 0 \<le> r \<and> a = Answers True"
  by (auto simp: reached_def intro: exI [of _ 0])

text \<open>The length of the run of operations of one kind at the end of a history.\<close>

definition tail_run :: "('a \<Rightarrow> bool) \<Rightarrow> 'a list \<Rightarrow> int" where
  "tail_run P xs = int (length (takeWhile P (rev xs)))"

lemma tail_run_simps [simp]:
  "tail_run P [] = 0"
  "tail_run P (xs @ [x]) = (if P x then tail_run P xs + 1 else 0)"
  by (simp_all add: tail_run_def)

lemma tail_run_nonneg [simp]: "0 \<le> tail_run P xs"
  by (simp add: tail_run_def)

lemma checker_run_snoc [simp]: "checker_run (ops @ [p]) k = checker_step p (checker_run ops k)"
  by (simp add: checker_run_def)

lemma checker_run_streak:
  assumes "check_probe_config c = Inr c" "k = checker_run ops (new_checker b c)"
  shows "hk_config k = c \<and> hk_failures k = tail_run (failed_probe (pc_retries c)) ops
    \<and> hk_attempts k = tail_run is_probe ops
    \<and> bs_attempts (hk_snapshot k) = tail_run is_probe ops
    \<and> bs_status (hk_snapshot k) =
        (if tail_run is_probe ops = 0 then BH_UNHEALTHY
         else if tail_run (failed_probe (pc_retries c)) ops = 0 then BH_HEALTHY
         else probe_status c (tail_run (failed_probe (pc_retries c)) ops))"
  using assms(2)
proof (induction ops arbitrary: k rule: rev_induct)
  case Nil
  then show ?case by (simp add: checker_run_def new_checker_def unprobed_def)
next
  case (snoc p ops)
  let ?k = "checker_run ops (new_checker b c)" and ?f = "failed_probe (pc_retries c)"
  note ih = snoc.IH [OF refl]
  have pos: "tail_run Q ops + 1 \<noteq> 0" "0 < tail_run Q ops + 1" for Q :: "checker_op \<Rightarrow> bool"
    using tail_run_nonneg [of Q ops] by linarith+
  show ?case
  proof (cases p)
    case (Probe answer now)
    from hk_probe_cases [of answer now ?k] obtain err where
      "k = (if reached (pc_retries c) answer then record_probe_success now ?k else record_probe_failure now err ?k)"
      using snoc.prems ih by (auto simp: Probe)
    then show ?thesis
      using ih pos by (simp add: Probe record_probe_success_def record_probe_failure_def Let_def)
  next
    case (Switch b')
    with snoc.prems ih show ?thesis
      by (simp add: switch_backend_def unprobed_def)
  qed
qed

text \<open>The cached health of a backend is determined by the probes since the backend was selected: with
  none it is UNHEALTHY, after a probe one of whose bounded attempts reached the backend it is HEALTHY,
  and otherwise the number of failed probes in a row decides: UNHEALTHY from the one threshold on,
  DEGRADED from the other, HEALTHY below both.\<close>

theorem probe_status_by_streak:
  assumes "check_probe_config c = Inr c"
  shows "bs_status (hk_snapshot (checker_run ops (new_checker b c))) =
      (let streak = tail_run (failed_probe (pc_retries c)) ops in
       if tail_run is_probe ops = 0 then BH_UNHEALTHY
       else if streak = 0 then BH_HEALTHY
       else if pc_unhealthy_after c \<le> streak then BH_UNHEALTHY
       else if pc_degraded_after c \<le> streak then BH_DEGRADED else BH_HEALTHY)"
  using checker_run_streak [OF assms refl, of ops b] by (simp add: probe_status_def Let_def)

lemma probe_status_by_streak_witness:
  "bs_status (hk_snapshot (checker_run
     [Probe (\<lambda>_. Answers True) 1, Probe (\<lambda>_. Raises ''OSError'') 2, Probe (\<lambda>_. Answers False) 3]
     (new_checker ''LocalBackend'' default_probe_config))) = BH_DEGRADED"
  using probe_status_by_streak [of default_probe_config "[Probe (\<lambda>_. Answers True) 1, Probe (\<lambda>_. Raises ''OSError'') 2, Probe (\<lambda>_. Answers False) 3]" "''LocalBackend''"]
  by (simp add: check_probe_config_def default_probe_config_def tail_run_def Let_def)


subsection \<open>What the failover promises\<close>

text \<open>The specification keeps the results of the probes since the current backend became active.\<close>

datatype failover_spec = On_Primary "bool list" | On_Secondary "bool list" | Awaiting_Failback

definition healthy :: "backend_snapshot \<Rightarrow> bool" where
  "healthy h \<longleftrightarrow> bs_status h = BH_HEALTHY"

fun spec_step :: "failover_config \<Rightarrow> failover_op \<Rightarrow> failover_spec \<Rightarrow> failover_spec" where
  "spec_step c (Evaluate h conn _) (On_Primary hs) =
     (if conn = None \<and> fc_failure_threshold c \<le> tail_run Not (hs @ [healthy h])
      then On_Secondary [] else On_Primary (hs @ [healthy h]))"
| "spec_step c (Evaluate h conn _) (On_Secondary hs) =
     (if fc_recovery_threshold c \<le> tail_run (\<lambda>b. b) (hs @ [healthy h])
      then Awaiting_Failback else On_Secondary (hs @ [healthy h]))"
| "spec_step c (Failback None _) Awaiting_Failback = On_Primary []"
| "spec_step c _ s = s"

definition spec_run :: "failover_config \<Rightarrow> failover_op list \<Rightarrow> failover_spec" where
  "spec_run c ops = fold (spec_step c) ops (On_Primary [])"

fun implements :: "failover \<Rightarrow> failover_spec \<Rightarrow> bool" where
  "implements s (On_Primary hs) \<longleftrightarrow> fo_state s = PRIMARY_ACTIVE \<and> fo_failures s = tail_run Not hs
     \<and> fo_recoveries s = 0"
| "implements s (On_Secondary hs) \<longleftrightarrow> fo_state s = SECONDARY_ACTIVE \<and> fo_recoveries s = tail_run (\<lambda>b. b) hs"
| "implements s Awaiting_Failback \<longleftrightarrow> fo_state s = PRIMARY_RECOVERED"

lemma failover_run_snoc [simp]: "failover_run (ops @ [p]) s = failover_step p (failover_run ops s)"
  by (simp add: failover_run_def)

lemma spec_run_snoc [simp]: "spec_run c (ops @ [p]) = spec_step c p (spec_run c ops)"
  by (simp add: spec_run_def)

lemma failover_step_config [simp]:
  "fo_config (failover_step p s) = fo_config s" "fo_primary (failover_step p s) = fo_primary s"
  "fo_secondary (failover_step p s) = fo_secondary s"
  by (cases p; auto simp: fo_evaluate_def manual_failback_def fo_transition_def Let_def
      split: failover_state.splits option.splits)+

lemma failover_step_implements:
  assumes "1 \<le> fc_failure_threshold (fo_config s)" "1 \<le> fc_recovery_threshold (fo_config s)"
    and "implements s a"
  shows "implements (failover_step p s) (spec_step (fo_config s) p a)"
proof (cases p)
  case (Evaluate h conn now)
  then show ?thesis
    using assms by (cases a; cases conn)
      (auto simp: fo_evaluate_def fo_transition_def Let_def healthy_def)
next
  case (Failback conn now)
  then show ?thesis
    using assms by (cases a; cases conn) (auto simp: manual_failback_def fo_transition_def Let_def)
qed

text \<open>C31: the failover manager implements its specification: from the primary it switches to the secondary
  exactly when, since the primary became active, the number of non-healthy probes in a row reaches the
  failure threshold at a probe where the secondary can be connected; it then waits for as many healthy
  probes in a row as the recovery threshold says; and only a manual failback, once these were seen,
  makes the primary active again. The active backend is the one the specification names.\<close>

theorem failover_refines_streaks:
  assumes "check_failover_config c = Inr c"
  shows "implements (failover_run ops (new_failover p q c)) (spec_run c ops)
    \<and> active_backend (failover_run ops (new_failover p q c)) =
        (case spec_run c ops of On_Primary _ \<Rightarrow> p | _ \<Rightarrow> q)"
proof -
  have t: "1 \<le> fc_failure_threshold c" "1 \<le> fc_recovery_threshold c"
    using assms by (auto simp: check_failover_config_def split: if_splits)
  have cfg: "fo_config (failover_run ops (new_failover p q c)) = c
      \<and> fo_primary (failover_run ops (new_failover p q c)) = p
      \<and> fo_secondary (failover_run ops (new_failover p q c)) = q" for ops
    by (induction ops rule: rev_induct) (simp_all, simp add: failover_run_def new_failover_def)
  have "implements (failover_run ops (new_failover p q c)) (spec_run c ops)"
  proof (induction ops rule: rev_induct)
    case Nil
    show ?case by (simp add: failover_run_def spec_run_def new_failover_def)
  next
    case (snoc x ops)
    from failover_step_implements [OF _ _ snoc, of x] t show ?case by (simp add: cfg)
  qed
  then show ?thesis
    using cfg [of ops] by (cases "spec_run c ops") (simp_all add: active_backend_def)
qed

definition probe_result :: "backend_health \<Rightarrow> backend_snapshot" where
  "probe_result h = (unprobed ''RedisBackend'')\<lparr>bs_status := h\<rparr>"

definition sample_failover_config :: failover_config where
  "sample_failover_config = \<lparr>fc_failure_threshold = 2, fc_recovery_threshold = 1, fc_interval = Fin 30\<rparr>"

lemma failover_refines_streaks_witness:
  "active_backend (failover_run [Evaluate (probe_result BH_DEGRADED) None 1, Evaluate (probe_result BH_UNHEALTHY) None 2,
      Evaluate (probe_result BH_HEALTHY) None 3] (new_failover ''RedisBackend'' ''LocalBackend'' sample_failover_config))
     = ''LocalBackend''"
  using failover_refines_streaks [of sample_failover_config
      "[Evaluate (probe_result BH_DEGRADED) None 1, Evaluate (probe_result BH_UNHEALTHY) None 2,
        Evaluate (probe_result BH_HEALTHY) None 3]" "''RedisBackend''" "''LocalBackend''"]
  by (simp add: check_failover_config_def sample_failover_config_def spec_run_def healthy_def probe_result_def
      tail_run_def)

subsection \<open>Metrics\<close>

definition metrics_account :: "failover \<Rightarrow> bool" where
  "metrics_account s \<longleftrightarrow>
     (let m = fo_metrics s; k = fm_failbacks m in
      0 \<le> k \<and> fm_recoveries m = (if fo_state s = PRIMARY_RECOVERED then k + 1 else k)
      \<and> fm_failovers m = (if fo_state s = PRIMARY_ACTIVE then k else k + 1))"

lemma failover_step_metrics: "metrics_account s \<Longrightarrow> metrics_account (failover_step p s)"
  by (cases p; auto simp: metrics_account_def fo_evaluate_def manual_failback_def fo_transition_def
      count_failover_def count_recovery_def Let_def split: failover_state.splits option.splits)

text \<open>The counters of a manager tell its state: every failover is followed by a recovery and every recovery
  by a failback, in this order.\<close>

lemma failover_metrics_account: "metrics_account (failover_run ops (new_failover p q c))"
proof (induction ops rule: rev_induct)
  case Nil
  show ?case by (simp add: failover_run_def metrics_account_def new_failover_def)
qed (simp add: failover_step_metrics)

text \<open>Once the primary counts as recovered, later probes are only recorded: a primary that fails again can
  be made active by a manual failback, with its last known health UNHEALTHY.\<close>

lemma failback_to_failed_primary:
  "fo_state (failover_run [Evaluate (probe_result BH_UNHEALTHY) None 1, Evaluate (probe_result BH_UNHEALTHY) None 2,
      Evaluate (probe_result BH_HEALTHY) None 3, Evaluate (probe_result BH_UNHEALTHY) None 4, Failback None 5]
      (new_failover ''RedisBackend'' ''LocalBackend'' sample_failover_config)) = PRIMARY_ACTIVE"
  "map_option bs_status (fo_health (failover_run [Evaluate (probe_result BH_UNHEALTHY) None 1,
      Evaluate (probe_result BH_UNHEALTHY) None 2, Evaluate (probe_result BH_HEALTHY) None 3,
      Evaluate (probe_result BH_UNHEALTHY) None 4, Failback None 5]
      (new_failover ''RedisBackend'' ''LocalBackend'' sample_failover_config))) = Some BH_UNHEALTHY"
  by (simp_all add: failover_run_def new_failover_def fo_evaluate_def manual_failback_def fo_transition_def
      count_failover_def count_recovery_def Let_def sample_failover_config_def probe_result_def unprobed_def)

end
