(* ===== verification/Dist_Local.thy ===== *)
theory Dist_Local
  imports TK_Prelude
begin

text \<open>
  The local distributed runtime (\<open>src/src/tkai/distributed/\<close>: \<open>backend.py\<close>, \<open>locks.py\<close>,
  \<open>membership.py\<close>, \<open>heartbeat.py\<close>, \<open>registry.py\<close>, \<open>coordinator.py\<close>): the in-memory backend with its
  named locks, lock handles over any backend that has such locks, membership with expiry, the
  cooperative heartbeat, and the coordinator that owns one of each. Values are a type parameter,
  Python's None a value of its own. Subscribers are numbers. Published events are results.
  Datetimes are aware; naive ones, which the constructor rejects, have no counterpart here, and an
  expiry is taken to be within the range of a datetime. The backend's operations hold its lock; a lock
  handle holds none: it calls the backend and then changes its own record, so its operations are steps
  only for callers that take turns.
\<close>

subsection \<open>Backend\<close>

record 'v local_backend =
  lb_connected :: bool
  lb_values :: "(string, 'v option) dict"
  lb_subscribers :: "(string, nat list) dict"
  lb_locks :: "(string, string) dict"

definition new_backend :: "'v local_backend" where
  "new_backend = \<lparr>lb_connected = False, lb_values = [], lb_subscribers = [], lb_locks = []\<rparr>"

definition lb_connect :: "'v local_backend \<Rightarrow> 'v local_backend" where
  "lb_connect b = b\<lparr>lb_connected := True\<rparr>"

definition lb_disconnect :: "'v local_backend \<Rightarrow> 'v local_backend" where
  "lb_disconnect b = b\<lparr>lb_connected := False\<rparr>"

definition lb_get :: "string \<Rightarrow> 'v local_backend \<Rightarrow> 'v option" where
  "lb_get k b = dict_get (lb_values b) k None"

definition lb_set :: "string \<Rightarrow> 'v option \<Rightarrow> 'v local_backend \<Rightarrow> 'v local_backend" where
  "lb_set k v b = b\<lparr>lb_values := AList.update k v (lb_values b)\<rparr>"

definition lb_delete :: "string \<Rightarrow> 'v local_backend \<Rightarrow> bool \<times> 'v local_backend" where
  "lb_delete k b = (dict_get (lb_values b) k None \<noteq> None, b\<lparr>lb_values := AList.delete k (lb_values b)\<rparr>)"

text \<open>The handlers that are called with the value, in this order; what they raise is dropped.\<close>

definition lb_publish :: "string \<Rightarrow> 'v local_backend \<Rightarrow> nat list" where
  "lb_publish topic b = dict_get (lb_subscribers b) topic []"

definition lb_subscribe :: "string \<Rightarrow> nat \<Rightarrow> 'v local_backend \<Rightarrow> 'v local_backend" where
  "lb_subscribe topic h b =
     (let hs = dict_get (lb_subscribers b) topic [] in
      b\<lparr>lb_subscribers := AList.update topic (if h \<in> set hs then hs else hs @ [h]) (lb_subscribers b)\<rparr>)"

definition lb_acquire :: "string \<Rightarrow> string \<Rightarrow> 'v local_backend \<Rightarrow> bool \<times> 'v local_backend" where
  "lb_acquire name owner b =
     (case map_of (lb_locks b) name of
        None \<Rightarrow> (True, b\<lparr>lb_locks := AList.update name owner (lb_locks b)\<rparr>)
      | Some current \<Rightarrow>
          if current \<noteq> owner then (False, b)
          else (True, b\<lparr>lb_locks := AList.update name owner (lb_locks b)\<rparr>))"

definition lb_release :: "string \<Rightarrow> string \<Rightarrow> 'v local_backend \<Rightarrow> bool \<times> 'v local_backend" where
  "lb_release name owner b =
     (if map_of (lb_locks b) name \<noteq> Some owner then (False, b)
      else (True, b\<lparr>lb_locks := AList.delete name (lb_locks b)\<rparr>))"

definition lb_health :: "'v local_backend \<Rightarrow> bool" where
  "lb_health b = lb_connected b"

text \<open>Deleting a key whose value is None removes it and reports that it did not exist.\<close>

lemma delete_none_unreported:
  "lb_delete k (lb_set k None new_backend) = (False, new_backend)"
  by (simp add: lb_delete_def lb_set_def new_backend_def dict_get_def)

subsection \<open>Lock handles\<close>

record local_lock =
  lk_name :: string
  lk_owner :: string
  lk_ttl :: "time option"
  lk_expires :: "time option"
  lk_acquired :: bool

definition mk_lock :: "string \<Rightarrow> string \<Rightarrow> time option \<Rightarrow> local_lock" where
  "mk_lock n w ttl = \<lparr>lk_name = n, lk_owner = w, lk_ttl = ttl, lk_expires = None, lk_acquired = False\<rparr>"

datatype lock_event = LockAcquired string | LockReleased string

text \<open>The operations that a handle calls on its backend.\<close>

type_synonym 'b lock_call = "string \<Rightarrow> string \<Rightarrow> 'b \<Rightarrow> bool \<times> 'b"

definition renew_expiry :: "time \<Rightarrow> local_lock \<Rightarrow> local_lock" where
  "renew_expiry now h = (case lk_ttl h of None \<Rightarrow> h | Some d \<Rightarrow> h\<lparr>lk_expires := Some (now + d)\<rparr>)"

definition lk_acquire ::
  "'b lock_call \<Rightarrow> time \<Rightarrow> 'b \<Rightarrow> local_lock \<Rightarrow> (bool \<times> lock_event list) \<times> 'b \<times> local_lock" where
  "lk_acquire acq now b h =
     (case acq (lk_name h) (lk_owner h) b of
        (True, b') \<Rightarrow> ((True, [LockAcquired (lk_name h)]), b', renew_expiry now (h\<lparr>lk_acquired := True\<rparr>))
      | (False, b') \<Rightarrow> ((False, []), b', h\<lparr>lk_acquired := False\<rparr>))"

definition lk_release ::
  "'b lock_call \<Rightarrow> 'b \<Rightarrow> local_lock \<Rightarrow> (bool \<times> lock_event list) \<times> 'b \<times> local_lock" where
  "lk_release rel b h =
     (case rel (lk_name h) (lk_owner h) b of
        (True, b') \<Rightarrow> ((True, [LockReleased (lk_name h)]), b', h\<lparr>lk_acquired := False, lk_expires := None\<rparr>)
      | (False, b') \<Rightarrow> ((False, []), b', h))"

definition lk_renew :: "'b lock_call \<Rightarrow> time \<Rightarrow> 'b \<Rightarrow> local_lock \<Rightarrow> bool \<times> 'b \<times> local_lock" where
  "lk_renew acq now b h =
     (if \<not> lk_acquired h then (False, b, h)
      else case acq (lk_name h) (lk_owner h) b of
             (True, b') \<Rightarrow> (True, b', renew_expiry now h)
           | (False, b') \<Rightarrow> (False, b', h))"

record lock_snapshot =
  ls_name :: string
  ls_owner :: "string option"
  ls_acquired :: bool
  ls_expires :: "time option"

definition lk_snapshot :: "local_lock \<Rightarrow> lock_snapshot" where
  "lk_snapshot h = \<lparr>ls_name = lk_name h, ls_owner = (if lk_acquired h then Some (lk_owner h) else None),
     ls_acquired = lk_acquired h, ls_expires = lk_expires h\<rparr>"

text \<open>Handles that share one backend, and calls on them in any order.\<close>

datatype lock_op = Acquire nat time | Release nat | Renew nat time

fun lock_step ::
  "'b lock_call \<Rightarrow> 'b lock_call \<Rightarrow> lock_op \<Rightarrow> 'b \<times> local_lock list \<Rightarrow> 'b \<times> local_lock list" where
  "lock_step acq rel (Acquire i now) (b, hs) =
     (if i < length hs then (case lk_acquire acq now b (hs ! i) of (_, b', h') \<Rightarrow> (b', hs[i := h'])) else (b, hs))"
| "lock_step acq rel (Release i) (b, hs) =
     (if i < length hs then (case lk_release rel b (hs ! i) of (_, b', h') \<Rightarrow> (b', hs[i := h'])) else (b, hs))"
| "lock_step acq rel (Renew i now) (b, hs) =
     (if i < length hs then (case lk_renew acq now b (hs ! i) of (_, b', h') \<Rightarrow> (b', hs[i := h'])) else (b, hs))"

definition lock_run ::
  "'b lock_call \<Rightarrow> 'b lock_call \<Rightarrow> lock_op list \<Rightarrow> 'b \<times> local_lock list \<Rightarrow> 'b \<times> local_lock list" where
  "lock_run acq rel ops w = fold (lock_step acq rel) ops w"

abbreviation lock_key :: "local_lock \<Rightarrow> string \<times> string" where
  "lock_key h \<equiv> (lk_name h, lk_owner h)"

text \<open>What handles rely on in a backend.\<close>

locale lock_table =
  fixes holder :: "'b \<Rightarrow> string \<Rightarrow> string option"
    and acq :: "'b lock_call" and rel :: "'b lock_call"
  assumes acquire_law: "acq n w b = (r, b') \<Longrightarrow>
      (r \<longleftrightarrow> holder b n = None \<or> holder b n = Some w) \<and> holder b' = (if r then (holder b)(n \<mapsto> w) else holder b)"
    and release_law: "rel n w b = (r, b') \<Longrightarrow>
      (r \<longleftrightarrow> holder b n = Some w) \<and> holder b' = (if r then (holder b)(n := None) else holder b)"
begin

text \<open>A handle that believes to hold its lock does.\<close>

definition held :: "'b \<times> local_lock list \<Rightarrow> bool" where
  "held w \<longleftrightarrow> distinct (map lock_key (snd w))
     \<and> (\<forall>h \<in> set (snd w). lk_acquired h \<longrightarrow> holder (fst w) (lk_name h) = Some (lk_owner h))"

lemma held_update:
  assumes "held (b, hs)" "i < length hs" "lock_key h' = lock_key (hs ! i)"
    and "lk_acquired h' \<Longrightarrow> holder b' (lk_name h') = Some (lk_owner h')"
    and "\<And>h. h \<in> set hs \<Longrightarrow> lock_key h \<noteq> lock_key (hs ! i) \<Longrightarrow> holder b (lk_name h) = Some (lk_owner h)
           \<Longrightarrow> holder b' (lk_name h) = Some (lk_owner h)"
  shows "held (b', hs[i := h'])"
proof -
  have keys: "map lock_key (hs[i := h']) = map lock_key hs"
    using assms(2,3) by (simp add: map_update list_update_same_conv)
  have "holder b' (lk_name h) = Some (lk_owner h)" if h: "h \<in> set (hs[i := h'])" and a: "lk_acquired h" for h
  proof -
    from h obtain j where j: "j < length hs" "h = hs[i := h'] ! j" by (auto simp: in_set_conv_nth)
    show ?thesis
    proof (cases "j = i")
      case True
      with j a assms(2,4) show ?thesis by simp
    next
      case False
      then have "h = hs ! j" using j by simp
      moreover have "map lock_key hs ! j \<noteq> map lock_key hs ! i"
        using assms(1,2) j(1) False by (subst nth_eq_iff_index_eq) (simp_all add: held_def)
      then have "lock_key h \<noteq> lock_key (hs ! i)" using calculation j(1) assms(2) by simp
      ultimately show ?thesis using assms(5) [of h] assms(1) j(1) a by (simp add: held_def)
    qed
  qed
  with assms(1) keys show ?thesis by (simp add: held_def del: map_eq_conv)
qed

lemma lock_step_held: "held w \<Longrightarrow> held (lock_step acq rel op w)"
proof -
  assume "held w"
  moreover obtain b hs where w: "w = (b, hs)" by force
  ultimately have held: "held (b, hs)" by simp
  have acquired: "held (b', hs[i := h'])"
    if i: "i < length hs" and r: "acq (lk_name (hs ! i)) (lk_owner (hs ! i)) b = (r, b')"
      and h': "lock_key h' = lock_key (hs ! i)" "lk_acquired h' \<Longrightarrow> r" for i r b' h'
    using acquire_law [OF r] h'
    by (intro held_update [OF held i h'(1)]) (auto split: if_splits)
  have released: "held (b', hs[i := h'])"
    if i: "i < length hs" and r: "rel (lk_name (hs ! i)) (lk_owner (hs ! i)) b = (r, b')"
      and h': "lock_key h' = lock_key (hs ! i)" "lk_acquired h' \<Longrightarrow> \<not> r \<and> lk_acquired (hs ! i)" for i r b' h'
    using release_law [OF r] h' held i
    by (intro held_update [OF held i h'(1)]) (auto simp: held_def split: if_splits)
  have same: "held (b, hs[i := hs ! i])" for i using held by simp
  show ?thesis
  proof (cases op)
    case (Acquire i now)
    obtain r b' where r: "acq (lk_name (hs ! i)) (lk_owner (hs ! i)) b = (r, b')" by force
    let ?h = "if r then renew_expiry now ((hs ! i)\<lparr>lk_acquired := True\<rparr>) else (hs ! i)\<lparr>lk_acquired := False\<rparr>"
    have "lock_key ?h = lock_key (hs ! i)" "lk_acquired ?h \<Longrightarrow> r"
      by (auto simp: renew_expiry_def split: option.splits if_splits)
    from acquired [OF _ r this] held show ?thesis
      by (cases r) (auto simp: w Acquire lk_acquire_def r)
  next
    case (Release i)
    obtain r b' where r: "rel (lk_name (hs ! i)) (lk_owner (hs ! i)) b = (r, b')" by force
    let ?h = "if r then (hs ! i)\<lparr>lk_acquired := False, lk_expires := None\<rparr> else hs ! i"
    have "lock_key ?h = lock_key (hs ! i)" "lk_acquired ?h \<Longrightarrow> \<not> r \<and> lk_acquired (hs ! i)"
      by (auto split: if_splits)
    from released [OF _ r this] held show ?thesis
      by (cases r) (auto simp: w Release lk_release_def r)
  next
    case (Renew i now)
    obtain r b' where r: "acq (lk_name (hs ! i)) (lk_owner (hs ! i)) b = (r, b')" by force
    show ?thesis
    proof (cases "i < length hs \<and> lk_acquired (hs ! i)")
      case True
      then have "holder b (lk_name (hs ! i)) = Some (lk_owner (hs ! i))"
        using held by (simp add: held_def)
      then have r1: "r" using acquire_law [OF r] by simp
      have "lock_key (renew_expiry now (hs ! i)) = lock_key (hs ! i)"
        by (simp add: renew_expiry_def split: option.split)
      from acquired [OF _ r this] True r1 r show ?thesis by (simp add: w Renew lk_renew_def)
    qed (use held same in \<open>auto simp: w Renew lk_renew_def\<close>)
  qed
qed

lemma lock_run_held: "held w \<Longrightarrow> held (lock_run acq rel ops w)"
  unfolding lock_run_def by (induction ops arbitrary: w) (simp_all add: lock_step_held)

lemma exclusion:
  assumes "distinct (map lock_key hs)" "\<forall>h \<in> set hs. \<not> lk_acquired h"
    and "lock_run acq rel ops (b, hs) = (b', hs')" "h \<in> set hs'" "h' \<in> set hs'" "lk_name h = lk_name h'"
    and "lk_acquired h" "lk_acquired h'"
  shows "h = h' \<and> holder b' (lk_name h) = Some (lk_owner h)"
proof -
  have "held (b, hs)" using assms(1,2) by (simp add: held_def)
  from lock_run_held [OF this, of ops] have "held (b', hs')" by (simp add: assms(3))
  then have "holder b' (lk_name h) = Some (lk_owner h)" "holder b' (lk_name h') = Some (lk_owner h')"
    and "inj_on lock_key (set hs')"
    using assms(4,5,7,8) by (simp_all add: held_def distinct_map)
  moreover from this(1,2) have "lock_key h = lock_key h'" using assms(6) by simp
  ultimately show ?thesis using assms(4,5) by (auto dest: inj_onD)
qed

end

interpretation local_locks: lock_table "\<lambda>b. map_of (lb_locks b)" lb_acquire lb_release
  by unfold_locales (auto simp: lb_acquire_def lb_release_def split: option.splits if_splits)


text \<open>C30: locks exclude: after any sequence of whole calls of acquire, release and renew, one at a time, on
  handles of one in-memory backend, if no two handles have the same name and owner and none was
  acquired at first, then no two handles of one lock count as acquired, and the owner of a handle that
  does is the recorded one.\<close>

theorem lock_mutual_exclusion:
  fixes b :: "'v local_backend"
  assumes "distinct (map lock_key hs)" "\<forall>h \<in> set hs. \<not> lk_acquired h"
    and "lock_run lb_acquire lb_release ops (b, hs) = (b', hs')" "h \<in> set hs'" "h' \<in> set hs'"
    and "lk_name h = lk_name h'" "ls_acquired (lk_snapshot h)" "ls_acquired (lk_snapshot h')"
  shows "h = h' \<and> map_of (lb_locks b') (lk_name h) = ls_owner (lk_snapshot h)"
  using local_locks.exclusion [OF assms(1-6)] assms(7,8) by (auto simp: lk_snapshot_def)

definition two_nodes :: "local_lock list" where
  "two_nodes = [mk_lock ''job'' ''n1'' None, mk_lock ''job'' ''n2'' (Some 30)]"

lemma lock_mutual_exclusion_witness:
  "\<exists>b :: nat local_backend. \<exists>hs. lock_run lb_acquire lb_release
      [Acquire 0 1, Acquire 1 2, Release 0, Acquire 1 3] (new_backend, two_nodes) = (b, hs)
     \<and> map_of (lb_locks b) ''job'' = Some ''n2''"
proof -
  let ?ops = "[Acquire 0 1, Acquire 1 2, Release 0, Acquire 1 3]"
  obtain b :: "nat local_backend" and hs where
    run: "lock_run lb_acquire lb_release ?ops (new_backend, two_nodes) = (b, hs)" by force
  have hs: "hs = [mk_lock ''job'' ''n1'' None, (mk_lock ''job'' ''n2'' (Some 30))\<lparr>lk_acquired := True, lk_expires := Some 33\<rparr>]"
    using run by (auto simp: lock_run_def two_nodes_def mk_lock_def new_backend_def lk_acquire_def lk_release_def
        lb_acquire_def lb_release_def renew_expiry_def)
  let ?h = "(mk_lock ''job'' ''n2'' (Some 30))\<lparr>lk_acquired := True, lk_expires := Some 33\<rparr>"
  have 1: "distinct (map lock_key two_nodes)" "\<forall>h \<in> set two_nodes. \<not> lk_acquired h"
    by (simp_all add: two_nodes_def mk_lock_def)
  have 2: "?h \<in> set hs" "ls_acquired (lk_snapshot ?h)" by (simp_all add: hs lk_snapshot_def)
  from lock_mutual_exclusion [OF 1 run 2(1,1) refl 2(2,2)] run show ?thesis
    by (auto simp: lk_snapshot_def mk_lock_def)
qed

text \<open>Two handles of one owner are not told apart: the release through one frees the lock for another
  owner while the other handle still counts as acquired.\<close>

lemma shared_owner_breaks_exclusion:
  "map lk_acquired (snd (lock_run lb_acquire lb_release
      [Acquire 0 1, Acquire 1 2, Release 1, Acquire 2 3]
      (new_backend :: nat local_backend,
       [mk_lock ''job'' ''n1'' None, mk_lock ''job'' ''n1'' None, mk_lock ''job'' ''n2'' None])))
     = [True, False, True]"
  by (simp add: lock_run_def mk_lock_def new_backend_def lk_acquire_def lk_release_def
      lb_acquire_def lb_release_def renew_expiry_def)

subsection \<open>Membership\<close>

datatype node_status = ACTIVE | INACTIVE | EXPIRED

record node =
  nd_id :: string
  nd_host :: string
  nd_started :: time
  nd_last_seen :: time
  nd_capabilities :: "string set"
  nd_status :: node_status

datatype membership_error = Member_ValueError string | NodeNotFoundError string

definition check_node :: "node \<Rightarrow> membership_error + node" where
  "check_node n =
     (if nd_id n = '''' \<or> nd_host n = ''''
      then Inl (Member_ValueError ''node_id and hostname must not be empty'') else Inr n)"

datatype member_event =
    NodeJoined string | NodeLeft string | HeartbeatUpdated string
  | CoordinatorStarted string | CoordinatorStopped string

type_synonym membership = "(string, node) dict"

definition node_missing :: "string \<Rightarrow> membership_error" where
  "node_missing i = NodeNotFoundError (''Node '' @ [CHR 39] @ i @ [CHR 39] @ '' is not registered'')"

definition ms_register :: "node \<Rightarrow> membership \<Rightarrow> member_event list \<times> membership" where
  "ms_register n m = ([NodeJoined (nd_id n)], AList.update (nd_id n) n m)"

definition ms_unregister :: "string \<Rightarrow> membership \<Rightarrow> membership_error + node \<times> member_event list \<times> membership" where
  "ms_unregister i m =
     (case map_of m i of
        None \<Rightarrow> Inl (node_missing i)
      | Some n \<Rightarrow> Inr (n, [NodeLeft i], AList.delete i m))"

definition ms_heartbeat ::
  "string \<Rightarrow> time \<Rightarrow> membership \<Rightarrow> membership_error + node \<times> member_event list \<times> membership" where
  "ms_heartbeat i now m =
     (case map_of m i of
        None \<Rightarrow> Inl (node_missing i)
      | Some n \<Rightarrow>
          let n' = n\<lparr>nd_last_seen := now, nd_status := ACTIVE\<rparr>
          in Inr (n', [HeartbeatUpdated i], AList.update i n' m))"

definition expire_node :: "time \<Rightarrow> time \<Rightarrow> node \<Rightarrow> node" where
  "expire_node expiry now n =
     (if expiry < now - nd_last_seen n \<and> nd_status n \<noteq> EXPIRED then n\<lparr>nd_status := EXPIRED\<rparr> else n)"

definition ms_snapshot :: "time option \<Rightarrow> time \<Rightarrow> membership \<Rightarrow> node list \<times> membership" where
  "ms_snapshot expiry now m =
     (let m' = (case expiry of None \<Rightarrow> m | Some d \<Rightarrow> map (\<lambda>(i, n). (i, expire_node d now n)) m)
      in (sorted_values m', m'))"

lemma map_of_map_snd: "map_of (map (\<lambda>(k, v). (k, f v)) d) k = map_option f (map_of d k)"
  by (induction d) auto

text \<open>A snapshot lists every node once, by identifier; with an expiry it marks as EXPIRED exactly the nodes
  that were or whose last heartbeat is older, and changes nothing else.\<close>

lemma snapshot_marks_stale:
  assumes "keyed nd_id m" "ms_snapshot (Some d) now m = (ns, m')"
  shows "set ns = ran (map_of m')" "sorted (map nd_id ns)" "distinct (map nd_id ns)"
    "map_of m' i = map_option (\<lambda>n. n\<lparr>nd_status :=
       if d < now - nd_last_seen n then EXPIRED else nd_status n\<rparr>) (map_of m i)"
proof -
  have m': "m' = map (\<lambda>(i, n). (i, expire_node d now n)) m" and ns: "ns = sorted_values m'"
    using assms(2) by (auto simp: ms_snapshot_def Let_def)
  have view: "map_of m' i = map_option (expire_node d now) (map_of m i)" for i
    unfolding m' by (rule map_of_map_snd)
  have "map fst m' = map fst m" by (simp add: m' comp_def case_prod_beta)
  then have k: "keyed nd_id m'"
    using assms(1) view by (auto simp: keyed_iff expire_node_def)
  from keyed_listing [OF k] show "set ns = ran (map_of m')" "sorted (map nd_id ns)" "distinct (map nd_id ns)"
    by (simp_all add: ns)
  have "expire_node d now n = n\<lparr>nd_status := if d < now - nd_last_seen n then EXPIRED else nd_status n\<rparr>" for n
    by (cases n) (simp add: expire_node_def)
  then show "map_of m' i = map_option (\<lambda>n. n\<lparr>nd_status :=
       if d < now - nd_last_seen n then EXPIRED else nd_status n\<rparr>) (map_of m i)"
    unfolding view by (cases "map_of m i") simp_all
qed


subsection \<open>Heartbeat\<close>

record heartbeat =
  hb_node :: string
  hb_running :: bool
  hb_last :: "time option"

definition new_heartbeat :: "string \<Rightarrow> heartbeat" where
  "new_heartbeat i = \<lparr>hb_node = i, hb_running = False, hb_last = None\<rparr>"

text \<open>The instant is stored before the membership is asked, so that it stays when the node is missing.\<close>

definition hb_beat ::
  "time \<Rightarrow> heartbeat \<Rightarrow> membership \<Rightarrow> (membership_error + member_event list) \<times> heartbeat \<times> membership" where
  "hb_beat now h m =
     (if \<not> hb_running h then (Inr [], h, m)
      else let h' = h\<lparr>hb_last := Some now\<rparr> in
        case ms_heartbeat (hb_node h) now m of
          Inl e \<Rightarrow> (Inl e, h', m)
        | Inr (_, evs, m') \<Rightarrow> (Inr evs, h', m'))"

definition hb_start ::
  "time \<Rightarrow> heartbeat \<Rightarrow> membership \<Rightarrow> (membership_error + member_event list) \<times> heartbeat \<times> membership" where
  "hb_start now h m = hb_beat now (h\<lparr>hb_running := True\<rparr>) m"

definition hb_stop :: "heartbeat \<Rightarrow> heartbeat" where
  "hb_stop h = h\<lparr>hb_running := False\<rparr>"

subsection \<open>Resources\<close>

type_synonym 'r resources = "(string, 'r) dict"

definition rs_register :: "string \<Rightarrow> 'r \<Rightarrow> 'r resources \<Rightarrow> membership_error + 'r resources" where
  "rs_register n r d =
     (if n = '''' then Inl (Member_ValueError ''resource name must not be empty'')
      else Inr (AList.update n r d))"

definition rs_get :: "string \<Rightarrow> 'r resources \<Rightarrow> 'r option" where
  "rs_get n d = map_of d n"

definition rs_list :: "'r resources \<Rightarrow> string list" where
  "rs_list d = sorted_keys d"

definition rs_clear :: "'r resources \<Rightarrow> 'r resources" where
  "rs_clear d = []"

subsection \<open>Coordinator\<close>

record ('v, 'r) coordinator =
  dc_node :: node
  dc_backend :: "'v local_backend"
  dc_membership :: membership
  dc_heartbeat :: heartbeat
  dc_registry :: "'r resources"
  dc_started :: bool

definition new_coordinator :: "node \<Rightarrow> ('v, 'r) coordinator" where
  "new_coordinator n = \<lparr>dc_node = n, dc_backend = new_backend, dc_membership = [],
     dc_heartbeat = new_heartbeat (nd_id n), dc_registry = [], dc_started = False\<rparr>"

definition dc_start ::
  "time \<Rightarrow> ('v, 'r) coordinator \<Rightarrow> (membership_error + member_event list) \<times> ('v, 'r) coordinator" where
  "dc_start now c =
     (if dc_started c then (Inr [], c)
      else
        let (e1, m1) = ms_register (dc_node c) (dc_membership c);
            (r, h, m2) = hb_start now (dc_heartbeat c) m1;
            c1 = c\<lparr>dc_backend := lb_connect (dc_backend c), dc_membership := m2, dc_heartbeat := h\<rparr>
        in case r of
             Inl e \<Rightarrow> (Inl e, c1)
           | Inr e2 \<Rightarrow> (Inr (e1 @ e2 @ [CoordinatorStarted (nd_id (dc_node c))]), c1\<lparr>dc_started := True\<rparr>))"

definition dc_stop ::
  "('v, 'r) coordinator \<Rightarrow> (membership_error + member_event list) \<times> ('v, 'r) coordinator" where
  "dc_stop c =
     (if \<not> dc_started c then (Inr [], c)
      else
        let c1 = c\<lparr>dc_heartbeat := hb_stop (dc_heartbeat c)\<rparr>;
            closed = (\<lambda>m. c1\<lparr>dc_membership := m, dc_backend := lb_disconnect (dc_backend c1), dc_started := False\<rparr>)
        in case ms_unregister (nd_id (dc_node c)) (dc_membership c1) of
             Inl e \<Rightarrow> (Inl e, closed (dc_membership c1))
           | Inr (_, evs, m) \<Rightarrow> (Inr (evs @ [CoordinatorStopped (nd_id (dc_node c))]), closed m))"

definition dc_lock :: "string \<Rightarrow> ('v, 'r) coordinator \<Rightarrow> local_lock" where
  "dc_lock name c = mk_lock name (nd_id (dc_node c)) None"

definition dc_register_resource ::
  "string \<Rightarrow> 'r \<Rightarrow> ('v, 'r) coordinator \<Rightarrow> membership_error + ('v, 'r) coordinator" where
  "dc_register_resource n r c =
     (case rs_register n r (dc_registry c) of
        Inl e \<Rightarrow> Inl e | Inr d \<Rightarrow> Inr (c\<lparr>dc_registry := d\<rparr>))"

record coordinator_summary =
  cy_started :: bool
  cy_healthy :: bool
  cy_nodes :: "node list"
  cy_heartbeat :: heartbeat
  cy_resources :: "string list"

definition dc_summary :: "time \<Rightarrow> ('v, 'r) coordinator \<Rightarrow> coordinator_summary" where
  "dc_summary now c = \<lparr>cy_started = dc_started c, cy_healthy = lb_health (dc_backend c),
     cy_nodes = fst (ms_snapshot None now (dc_membership c)), cy_heartbeat = dc_heartbeat c,
     cy_resources = rs_list (dc_registry c)\<rparr>"

text \<open>The steps of a coordinator and of those who use its parts: other nodes join, leave and beat, its own
  heart beats, the expiry is simulated, resources are registered. A node is never unregistered by
  another caller.\<close>

inductive dc_step :: "('v, 'r) coordinator \<Rightarrow> ('v, 'r) coordinator \<Rightarrow> bool" where
  step_start: "dc_step c (snd (dc_start now c))"
| step_stop: "dc_step c (snd (dc_stop c))"
| step_join: "nd_id n \<noteq> nd_id (dc_node c) \<Longrightarrow>
    dc_step c (c\<lparr>dc_membership := snd (ms_register n (dc_membership c))\<rparr>)"
| step_leave: "i \<noteq> nd_id (dc_node c) \<Longrightarrow> ms_unregister i (dc_membership c) = Inr (n, evs, m) \<Longrightarrow>
    dc_step c (c\<lparr>dc_membership := m\<rparr>)"
| step_seen: "ms_heartbeat i now (dc_membership c) = Inr (n, evs, m) \<Longrightarrow> dc_step c (c\<lparr>dc_membership := m\<rparr>)"
| step_beat: "hb_beat now (dc_heartbeat c) (dc_membership c) = (r, h, m) \<Longrightarrow>
    dc_step c (c\<lparr>dc_heartbeat := h, dc_membership := m\<rparr>)"
| step_expire: "dc_step c (c\<lparr>dc_membership := snd (ms_snapshot d now (dc_membership c))\<rparr>)"
| step_resource: "dc_register_resource k r c = Inr c' \<Longrightarrow> dc_step c c'"

definition dc_inv :: "node \<Rightarrow> ('v, 'r) coordinator \<Rightarrow> bool" where
  "dc_inv n c \<longleftrightarrow> dc_node c = n \<and> hb_node (dc_heartbeat c) = nd_id n \<and> keyed nd_id (dc_membership c)
     \<and> (dc_started c \<longleftrightarrow> map_of (dc_membership c) (nd_id n) \<noteq> None)
     \<and> (dc_started c \<longleftrightarrow> hb_running (dc_heartbeat c)) \<and> (dc_started c \<longleftrightarrow> lb_health (dc_backend c))"

lemma ms_register_keyed: "keyed nd_id m \<Longrightarrow> keyed nd_id (snd (ms_register n m))"
  by (simp add: ms_register_def)

lemma ms_heartbeat_facts:
  assumes "ms_heartbeat i now m = Inr (n, evs, m')" "keyed nd_id m"
  shows "keyed nd_id m' \<and> (map_of m' j = None \<longleftrightarrow> map_of m j = None)"
proof -
  obtain v where v: "map_of m i = Some v" "m' = AList.update i (v\<lparr>nd_last_seen := now, nd_status := ACTIVE\<rparr>) m"
    using assms(1) by (auto simp: ms_heartbeat_def Let_def split: option.splits)
  then show ?thesis using assms(2) keyed_key [OF assms(2) v(1)] by simp
qed

lemma ms_snapshot_facts:
  assumes "keyed nd_id m"
  shows "keyed nd_id (snd (ms_snapshot d now m)) \<and> (map_of (snd (ms_snapshot d now m)) j = None \<longleftrightarrow> map_of m j = None)"
proof (cases d)
  case (Some e)
  have "nd_id (expire_node e now n) = nd_id n" for n by (simp add: expire_node_def)
  moreover have "map fst (map (\<lambda>(i, n). (i, expire_node e now n)) m) = map fst m"
    by (simp add: comp_def case_prod_beta)
  moreover have "snd (ms_snapshot d now m) = map (\<lambda>(i, n). (i, expire_node e now n)) m"
    by (simp add: ms_snapshot_def Some Let_def)
  ultimately show ?thesis
    using assms unfolding keyed_iff by (auto simp only: map_of_map_snd option.map_disc_iff map_option_eq_Some)
qed (use assms in \<open>simp add: ms_snapshot_def Let_def\<close>)

lemma dc_step_inv: "dc_step c c' \<Longrightarrow> dc_inv n c \<Longrightarrow> dc_inv n c'"
proof (induction rule: dc_step.induct)
  case (step_start c now)
  then show ?case
    by (auto simp: dc_start_def ms_register_def hb_start_def hb_beat_def ms_heartbeat_def lb_connect_def
        lb_health_def dc_inv_def Let_def)
next
  case (step_stop c)
  then show ?case
    by (auto simp: dc_stop_def ms_unregister_def hb_stop_def lb_disconnect_def lb_health_def dc_inv_def Let_def
        split: option.splits)
next
  case (step_join m c)
  then show ?case by (auto simp: dc_inv_def ms_register_def)
next
  case (step_leave i c v evs m)
  then show ?case by (auto simp: dc_inv_def ms_unregister_def split: option.splits)
next
  case (step_seen i now c v evs m)
  then show ?case using ms_heartbeat_facts [OF step_seen(1), of "nd_id n"] by (auto simp: dc_inv_def)
next
  case (step_beat now c r h m)
  have "keyed nd_id m \<and> (map_of m (nd_id n) = None \<longleftrightarrow> map_of (dc_membership c) (nd_id n) = None)"
    and "hb_node h = hb_node (dc_heartbeat c)" "hb_running h = hb_running (dc_heartbeat c)"
    using step_beat ms_heartbeat_facts [of _ now "dc_membership c" _ _ m "nd_id n"]
    by (auto simp: dc_inv_def hb_beat_def Let_def split: if_splits sum.splits)
  with step_beat(2) show ?case by (auto simp: dc_inv_def)
next
  case (step_expire c d now)
  then show ?case using ms_snapshot_facts [of "dc_membership c" d now "nd_id n"] by (auto simp: dc_inv_def)
next
  case (step_resource k r c c')
  then show ?case by (auto simp: dc_inv_def dc_register_resource_def split: sum.splits)
qed

text \<open>The parts of a coordinator stay in step: in every reachable state it is started exactly when its
  node is a member, exactly when its heart beats, and exactly when its backend is connected, whatever
  other nodes do.\<close>

theorem coordinator_in_step:
  assumes "dc_step\<^sup>*\<^sup>* (new_coordinator n) c"
  shows "(dc_started c \<longleftrightarrow> map_of (dc_membership c) (nd_id n) \<noteq> None)
    \<and> (dc_started c \<longleftrightarrow> hb_running (dc_heartbeat c)) \<and> (dc_started c \<longleftrightarrow> lb_health (dc_backend c))"
proof -
  from assms have "dc_inv n c"
  proof (induction rule: rtranclp_induct)
    case base
    show ?case by (simp add: dc_inv_def new_coordinator_def new_heartbeat_def new_backend_def lb_health_def)
  qed (rule dc_step_inv)
  then show ?thesis unfolding dc_inv_def by (elim conjE) (intro conjI)
qed

lemma coordinator_in_step_witness:
  "map_of (dc_membership (snd (dc_start 5 (new_coordinator
     \<lparr>nd_id = ''n1'', nd_host = ''h'', nd_started = 1, nd_last_seen = 1, nd_capabilities = {}, nd_status = ACTIVE\<rparr>
     :: (nat, nat) coordinator)))) ''n1'' \<noteq> None"
proof -
  let ?n = "\<lparr>nd_id = ''n1'', nd_host = ''h'', nd_started = 1, nd_last_seen = 1, nd_capabilities = {}, nd_status = ACTIVE\<rparr>"
  let ?c = "snd (dc_start 5 (new_coordinator ?n :: (nat, nat) coordinator))"
  have "dc_step\<^sup>*\<^sup>* (new_coordinator ?n) ?c" by (rule r_into_rtranclp) (rule step_start)
  from coordinator_in_step [OF this] have "dc_started ?c = (map_of (dc_membership ?c) (nd_id ?n) \<noteq> None)" by blast
  moreover have "dc_started ?c"
    by (simp add: dc_start_def new_coordinator_def ms_register_def hb_start_def hb_beat_def ms_heartbeat_def
        new_heartbeat_def Let_def)
  ultimately show ?thesis by simp
qed

end
