(* ===== verification/Dist_Discovery.thy ===== *)
theory Dist_Discovery
  imports Py_Float "HOL-Library.Product_Lexorder" "HOL-Library.FSet"
begin

text \<open>
  Service discovery (\<open>src/src/tkai/distributed/discovery.py\<close>): service instances with a time to
  live, their JSON form, the local registry with its cleanup, and the filtered lookup. The clock is an
  argument (\<open>now\<close>), and so are \<open>isoformat\<close>, \<open>fromisoformat\<close> and \<open>str\<close> of values that are not strings.
  Instants are aware; the constructor's rejection of naive ones has no counterpart. The cleanup worker
  is a caller of \<open>sv_cleanup\<close>. \<open>lookup\<close> and \<open>list\<close> clean up and then read, each in its own section of
  the lock (\<open>sv_cleanup\<close>, then \<open>sv_found\<close> or \<open>sv_all\<close>); the theorems are about calls one after the
  other, and \<open>stored_between_sections\<close> shows what another caller may do in between.
\<close>

subsection \<open>Service instances\<close>

datatype service_error =
    Sv_ValueError string
  | Sv_OverflowError
  | Sv_KeyError string
  | ServiceInstanceNotFoundError string string

record instance_data =
  si_service :: string
  si_id :: string
  si_endpoint :: string
  si_registered :: time
  si_expires :: time
  si_version :: "string option"
  si_region :: "string option"
  si_tags :: "string fset"
  si_metadata :: "(string, string) dict"

definition check_instance :: "instance_data \<Rightarrow> service_error + instance_data" where
  "check_instance i =
     (if si_service i = '''' \<or> si_id i = '''' \<or> si_endpoint i = ''''
      then Inl (Sv_ValueError ''service, instance_id, and endpoint must not be empty.'')
      else if si_expires i \<le> si_registered i
      then Inl (Sv_ValueError ''expires_at must be later than registered_at.'')
      else Inr i)"

text \<open>\<open>now + timedelta(seconds=ttl)\<close> behind the check of the time to live.\<close>

definition ttl_end :: "pyfloat \<Rightarrow> time \<Rightarrow> service_error + time" where
  "ttl_end ttl now =
     (if py_le ttl (Fin 0)
      then Inl (Sv_ValueError ''Service instance ttl_seconds must be greater than zero.'')
      else case timedelta_of ttl of
             Inl Delta_NaN \<Rightarrow> Inl (Sv_ValueError ''cannot convert float NaN to integer'')
           | Inl Delta_Overflow \<Rightarrow> Inl Sv_OverflowError
           | Inr d \<Rightarrow> if max_instant < now + d then Inl Sv_OverflowError else Inr (now + d))"

definition create_instance ::
  "string \<Rightarrow> string \<Rightarrow> string \<Rightarrow> pyfloat \<Rightarrow> string option \<Rightarrow> string option \<Rightarrow> string fset \<Rightarrow>
     (string, string) dict \<Rightarrow> time \<Rightarrow> service_error + instance_data" where
  "create_instance service iid endpoint ttl version region tags metadata now =
     (case ttl_end ttl now of
        Inl e \<Rightarrow> Inl e
      | Inr x \<Rightarrow> check_instance \<lparr>si_service = service, si_id = iid, si_endpoint = endpoint,
          si_registered = now, si_expires = x, si_version = version, si_region = region,
          si_tags = tags, si_metadata = metadata\<rparr>)"

definition renewed :: "pyfloat \<Rightarrow> time \<Rightarrow> instance_data \<Rightarrow> service_error + instance_data" where
  "renewed ttl now i =
     (case ttl_end ttl now of Inl e \<Rightarrow> Inl e | Inr x \<Rightarrow> check_instance (i\<lparr>si_expires := x\<rparr>))"

definition is_expired :: "time \<Rightarrow> instance_data \<Rightarrow> bool" where
  "is_expired now i \<longleftrightarrow> si_expires i \<le> now"

subsection \<open>The JSON form\<close>

datatype json =
    JString string
  | JNull
  | JList "json list"
  | JObject "(string \<times> json) list"
  | JOther string

definition of_optional :: "string option \<Rightarrow> json" where
  "of_optional x = (case x of None \<Rightarrow> JNull | Some s \<Rightarrow> JString s)"

definition optional_string :: "json \<Rightarrow> string option" where
  "optional_string v = (case v of JString s \<Rightarrow> Some s | _ \<Rightarrow> None)"

definition instance_to_dict :: "(time \<Rightarrow> string) \<Rightarrow> instance_data \<Rightarrow> (string, json) dict" where
  "instance_to_dict fmt i =
     [(''service'', JString (si_service i)),
      (''instance_id'', JString (si_id i)),
      (''endpoint'', JString (si_endpoint i)),
      (''registered_at'', JString (fmt (si_registered i))),
      (''expires_at'', JString (fmt (si_expires i))),
      (''version'', of_optional (si_version i)),
      (''region'', of_optional (si_region i)),
      (''tags'', JList (map JString (sorted_list_of_fset (si_tags i)))),
      (''metadata'', JObject (map (\<lambda>(k, v). (k, JString v)) (si_metadata i)))]"

definition py_str :: "(json \<Rightarrow> string) \<Rightarrow> json \<Rightarrow> string" where
  "py_str text v = (case v of JString s \<Rightarrow> s | _ \<Rightarrow> text v)"

definition required_field ::
  "(json \<Rightarrow> string) \<Rightarrow> string \<Rightarrow> (string, json) dict \<Rightarrow> service_error + string" where
  "required_field text k d = (case map_of d k of None \<Rightarrow> Inl (Sv_KeyError k) | Some v \<Rightarrow> Inr (py_str text v))"

definition time_field ::
  "(string \<Rightarrow> time option) \<Rightarrow> (json \<Rightarrow> string) \<Rightarrow> string \<Rightarrow> (string, json) dict \<Rightarrow> service_error + time" where
  "time_field parse text k d =
     (case required_field text k d of
        Inl e \<Rightarrow> Inl e
      | Inr s \<Rightarrow> (case parse s of None \<Rightarrow> Inl (Sv_ValueError ''Invalid isoformat string'') | Some t \<Rightarrow> Inr t))"

fun is_string :: "json \<Rightarrow> bool" where
  "is_string (JString s) = True"
| "is_string _ = False"

fun string_list :: "json \<Rightarrow> string list option" where
  "string_list (JList vs) = (if list_all is_string vs then Some (map (\<lambda>v. the (optional_string v)) vs) else None)"
| "string_list _ = None"

fun object_items :: "json \<Rightarrow> (string \<times> json) list option" where
  "object_items (JObject kvs) = Some kvs"
| "object_items _ = None"

text \<open>The arguments of the constructor are evaluated in order; the first that raises decides.\<close>

definition instance_from_dict ::
  "(string \<Rightarrow> time option) \<Rightarrow> (json \<Rightarrow> string) \<Rightarrow> (string, json) dict \<Rightarrow> service_error + instance_data" where
  "instance_from_dict parse text d =
     (case string_list (dict_get d ''tags'' (JList [])) of
        None \<Rightarrow> Inl (Sv_ValueError ''Service instance tags must be a list of strings.'')
      | Some tags \<Rightarrow>
      case object_items (dict_get d ''metadata'' (JObject [])) of
        None \<Rightarrow> Inl (Sv_ValueError ''Service instance metadata must be a mapping.'')
      | Some metadata \<Rightarrow>
      case required_field text ''service'' d of Inl e \<Rightarrow> Inl e | Inr service \<Rightarrow>
      case required_field text ''instance_id'' d of Inl e \<Rightarrow> Inl e | Inr iid \<Rightarrow>
      case required_field text ''endpoint'' d of Inl e \<Rightarrow> Inl e | Inr endpoint \<Rightarrow>
      case time_field parse text ''registered_at'' d of Inl e \<Rightarrow> Inl e | Inr registered \<Rightarrow>
      case time_field parse text ''expires_at'' d of Inl e \<Rightarrow> Inl e | Inr expires \<Rightarrow>
      check_instance \<lparr>si_service = service, si_id = iid, si_endpoint = endpoint,
        si_registered = registered, si_expires = expires,
        si_version = optional_string (dict_get d ''version'' JNull),
        si_region = optional_string (dict_get d ''region'' JNull),
        si_tags = fset_of_list tags, si_metadata = map (\<lambda>(k, v). (k, py_str text v)) metadata\<rparr>)"

subsection \<open>The filtered result of a lookup\<close>

definition instance_matches ::
  "string option \<Rightarrow> string option \<Rightarrow> string fset \<Rightarrow> (string, string) dict \<Rightarrow> instance_data \<Rightarrow> bool" where
  "instance_matches version region tags metadata i \<longleftrightarrow>
     (version = None \<or> si_version i = version) \<and> (region = None \<or> si_region i = region) \<and>
     tags |\<subseteq>| si_tags i \<and> list_all (\<lambda>(k, v). map_of (si_metadata i) k = Some v) metadata"

definition filter_instances ::
  "instance_data list \<Rightarrow> string option \<Rightarrow> string option \<Rightarrow> string fset \<Rightarrow> (string, string) dict \<Rightarrow> instance_data list" where
  "filter_instances is version region tags metadata =
     filter (instance_matches version region tags metadata) (sort_key (\<lambda>i. (si_service i, si_id i)) is)"

subsection \<open>The local registry\<close>

type_synonym services = "(string, (string, instance_data) dict) dict"

definition check_interval :: "pyfloat \<Rightarrow> service_error + services" where
  "check_interval x =
     (if py_le x (Fin 0) then Inl (Sv_ValueError ''cleanup_interval_seconds must be greater than zero.'')
      else Inr [])"

definition sv_register :: "instance_data \<Rightarrow> services \<Rightarrow> services" where
  "sv_register i r =
     AList.update (si_service i) (AList.update (si_id i) i (dict_get r (si_service i) [])) r"

definition sv_deregister :: "string \<Rightarrow> string \<Rightarrow> services \<Rightarrow> bool \<times> services" where
  "sv_deregister service iid r =
     (case map_of r service of
        None \<Rightarrow> (False, r)
      | Some d \<Rightarrow>
          if map_of d iid = None then (False, r)
          else
            let d' = AList.delete iid d in
            (True, if d' = [] then AList.delete service r else AList.update service d' r))"

definition sv_renew ::
  "string \<Rightarrow> string \<Rightarrow> pyfloat \<Rightarrow> time \<Rightarrow> services \<Rightarrow> service_error + instance_data \<times> services" where
  "sv_renew service iid ttl now r =
     (case map_of (dict_get r service []) iid of
        None \<Rightarrow> Inl (ServiceInstanceNotFoundError service iid)
      | Some i \<Rightarrow>
          (case renewed ttl now i of
             Inl e \<Rightarrow> Inl e
           | Inr i' \<Rightarrow> Inr (i', AList.update service (AList.update iid i' (dict_get r service [])) r)))"

definition live :: "time \<Rightarrow> (string, instance_data) dict \<Rightarrow> (string, instance_data) dict" where
  "live now d = filter (\<lambda>(k, i). \<not> is_expired now i) d"

definition sv_cleanup :: "time \<Rightarrow> services \<Rightarrow> nat \<times> services" where
  "sv_cleanup now r =
     (sum_list (map (\<lambda>(s, d). length d - length (live now d)) r),
      filter (\<lambda>(s, d). d \<noteq> []) (map (\<lambda>(s, d). (s, live now d)) r))"

text \<open>What a lookup and a listing read after the cleanup.\<close>

definition sv_found ::
  "string \<Rightarrow> string option \<Rightarrow> string option \<Rightarrow> string fset \<Rightarrow> (string, string) dict \<Rightarrow> services \<Rightarrow>
     instance_data list" where
  "sv_found service version region tags metadata r =
     filter_instances (map snd (dict_get r service [])) version region tags metadata"

definition sv_all :: "services \<Rightarrow> instance_data list" where
  "sv_all r = concat (map sorted_values (sorted_values r))"

definition sv_lookup ::
  "string \<Rightarrow> string option \<Rightarrow> string option \<Rightarrow> string fset \<Rightarrow> (string, string) dict \<Rightarrow> time \<Rightarrow> services \<Rightarrow>
     instance_data list \<times> services" where
  "sv_lookup service version region tags metadata now r =
     (let r' = snd (sv_cleanup now r) in
      (sv_found service version region tags metadata r', r'))"

definition sv_list :: "time \<Rightarrow> services \<Rightarrow> instance_data list \<times> services" where
  "sv_list now r =
     (let r' = snd (sv_cleanup now r) in (sv_all r', r'))"

subsection \<open>The contract of a service registry\<close>

text \<open>A directory is a finite map from service and instance id to the instance. What is asked of every
  registry, local or remote: each operation acts on the directory as named here, and a lookup returns
  the live instances that match, in the order of service and id. \<open>named\<close> are the names the provider
  can tell apart.\<close>

type_synonym directory = "string \<times> string \<Rightarrow> instance_data option"

definition alive :: "time \<Rightarrow> directory \<Rightarrow> directory" where
  "alive now m = (\<lambda>k. case m k of None \<Rightarrow> None | Some i \<Rightarrow> if is_expired now i then None else Some i)"

definition in_order :: "instance_data list \<Rightarrow> bool" where
  "in_order is \<longleftrightarrow>
     sorted (map (\<lambda>i. (si_service i, si_id i)) is) \<and> distinct (map (\<lambda>i. (si_service i, si_id i)) is)"

definition stored_under_name :: "directory \<Rightarrow> bool" where
  "stored_under_name m \<longleftrightarrow>
     (\<forall>s k i. m (s, k) = Some i \<longrightarrow> si_service i = s \<and> si_id i = k \<and> check_instance i = Inr i)"

datatype dir_op =
    Dir_register instance_data
  | Dir_deregister string string
  | Dir_renew string string pyfloat time
  | Dir_lookup string "string option" "string option" "string fset" "(string, string) dict" time
  | Dir_list time
  | Dir_cleanup time

fun dir_step :: "dir_op \<Rightarrow> directory \<Rightarrow> directory" where
  "dir_step (Dir_register i) m = m((si_service i, si_id i) \<mapsto> i)"
| "dir_step (Dir_deregister s k) m = m((s, k) := None)"
| "dir_step (Dir_renew s k ttl now) m =
     (case m (s, k) of
        None \<Rightarrow> m
      | Some i \<Rightarrow> (case renewed ttl now i of Inl _ \<Rightarrow> m | Inr i' \<Rightarrow> m((s, k) \<mapsto> i')))"
| "dir_step (Dir_lookup s v g ts md now) m = alive now m"
| "dir_step (Dir_list now) m = alive now m"
| "dir_step (Dir_cleanup now) m = alive now m"

definition dir_run :: "dir_op list \<Rightarrow> directory" where
  "dir_run ops = fold dir_step ops (\<lambda>_. None)"

text \<open>The instances that callers hand over are constructed ones that the provider can keep
  (\<open>fit\<close>).\<close>

abbreviation constructed :: "instance_data \<Rightarrow> bool" where
  "constructed i \<equiv> check_instance i = Inr i"

fun named_op :: "(string \<Rightarrow> string \<Rightarrow> bool) \<Rightarrow> (instance_data \<Rightarrow> bool) \<Rightarrow> dir_op \<Rightarrow> bool" where
  "named_op named fit (Dir_register i) = (named (si_service i) (si_id i) \<and> constructed i \<and> fit i)"
| "named_op named fit (Dir_deregister s k) = named s k"
| "named_op named fit (Dir_renew s k ttl now) = named s k"
| "named_op named fit (Dir_lookup s v g ts md now) = (\<forall>k. named s k)"
| "named_op named fit (Dir_list now) = True"
| "named_op named fit (Dir_cleanup now) = True"

locale service_directory =
  fixes inv :: "'s \<Rightarrow> bool"
    and view :: "'s \<Rightarrow> directory"
    and named :: "string \<Rightarrow> string \<Rightarrow> bool"
    and fit :: "instance_data \<Rightarrow> bool"
    and start :: 's
    and register :: "instance_data \<Rightarrow> 's \<Rightarrow> 's"
    and deregister :: "string \<Rightarrow> string \<Rightarrow> 's \<Rightarrow> bool \<times> 's"
    and renew :: "string \<Rightarrow> string \<Rightarrow> pyfloat \<Rightarrow> time \<Rightarrow> 's \<Rightarrow> (service_error + instance_data) \<times> 's"
    and lookup :: "string \<Rightarrow> string option \<Rightarrow> string option \<Rightarrow> string fset \<Rightarrow> (string, string) dict \<Rightarrow> time \<Rightarrow> 's \<Rightarrow>
      instance_data list \<times> 's"
    and listing :: "time \<Rightarrow> 's \<Rightarrow> instance_data list \<times> 's"
    and cleanup :: "time \<Rightarrow> 's \<Rightarrow> nat \<times> 's"
  assumes start: "inv start" "view start = (\<lambda>_. None)"
    and view_ok: "inv s \<Longrightarrow> stored_under_name (view s)"
    and view_named: "inv s \<Longrightarrow> view s (a, k) = Some i \<Longrightarrow> named a k"
    and register: "inv s \<Longrightarrow> named (si_service i) (si_id i) \<Longrightarrow> constructed i \<Longrightarrow> fit i \<Longrightarrow>
      inv (register i s) \<and> view (register i s) = (view s)((si_service i, si_id i) \<mapsto> i)"
    and deregister: "inv s \<Longrightarrow> named a k \<Longrightarrow>
      inv (snd (deregister a k s)) \<and> view (snd (deregister a k s)) = (view s)((a, k) := None) \<and>
      fst (deregister a k s) = (view s (a, k) \<noteq> None)"
    and renew: "inv s \<Longrightarrow> named a k \<Longrightarrow>
      inv (snd (renew a k ttl now s)) \<and>
      (case view s (a, k) of
         None \<Rightarrow> fst (renew a k ttl now s) = Inl (ServiceInstanceNotFoundError a k) \<and>
           view (snd (renew a k ttl now s)) = view s
       | Some i \<Rightarrow> fst (renew a k ttl now s) = renewed ttl now i \<and>
           view (snd (renew a k ttl now s)) =
             (case renewed ttl now i of Inl e \<Rightarrow> view s | Inr i' \<Rightarrow> (view s)((a, k) \<mapsto> i')))"
    and lookup: "inv s \<Longrightarrow> (\<And>k. named a k) \<Longrightarrow>
      inv (snd (lookup a v g ts md now s)) \<and> view (snd (lookup a v g ts md now s)) = alive now (view s) \<and>
      in_order (fst (lookup a v g ts md now s)) \<and>
      set (fst (lookup a v g ts md now s)) =
        {i. \<exists>k. alive now (view s) (a, k) = Some i \<and> instance_matches v g ts md i}"
    and listing: "inv s \<Longrightarrow>
      inv (snd (listing now s)) \<and> view (snd (listing now s)) = alive now (view s) \<and>
      in_order (fst (listing now s)) \<and> set (fst (listing now s)) = ran (alive now (view s))"
    and cleanup: "inv s \<Longrightarrow>
      inv (snd (cleanup now s)) \<and> view (snd (cleanup now s)) = alive now (view s) \<and>
      fst (cleanup now s) = card {k. \<exists>i. view s k = Some i \<and> is_expired now i}"
begin

fun step :: "dir_op \<Rightarrow> 's \<Rightarrow> 's" where
  "step (Dir_register i) s = register i s"
| "step (Dir_deregister a k) s = snd (deregister a k s)"
| "step (Dir_renew a k ttl now) s = snd (renew a k ttl now s)"
| "step (Dir_lookup a v g ts md now) s = snd (lookup a v g ts md now s)"
| "step (Dir_list now) s = snd (listing now s)"
| "step (Dir_cleanup now) s = snd (cleanup now s)"

definition run :: "dir_op list \<Rightarrow> 's" where
  "run ops = fold step ops start"

lemma step_refines:
  assumes "inv s" "named_op named fit op"
  shows "inv (step op s) \<and> view (step op s) = dir_step op (view s)"
proof (cases op)
  case (Dir_renew a k ttl now)
  with assms renew [of s a k ttl now] show ?thesis by (auto split: option.splits sum.splits)
qed (use assms in \<open>simp_all add: register deregister lookup listing cleanup\<close>)

lemma run_refines:
  assumes "list_all (named_op named fit) ops"
  shows "inv (run ops) \<and> view (run ops) = dir_run ops"
proof -
  have "inv (fold step ops s) \<and> view (fold step ops s) = fold dir_step ops (view s)" if "inv s" for s
    using that assms
  proof (induction ops arbitrary: s)
    case (Cons op ops)
    from Cons.prems have st: "inv (step op s)" "view (step op s) = dir_step op (view s)"
      using step_refines [of s op] by simp_all
    from Cons.IH [OF st(1)] Cons.prems(2) st(2) show ?case by simp
  qed simp
  from this [OF start(1)] show ?thesis by (simp add: run_def dir_run_def start(2))
qed

lemma lookup_exact:
  assumes "list_all (named_op named fit) ops" "\<And>k. named a k"
  shows "in_order (fst (lookup a v g ts md now (run ops))) \<and>
    set (fst (lookup a v g ts md now (run ops))) =
      {i. \<exists>k. alive now (dir_run ops) (a, k) = Some i \<and> instance_matches v g ts md i}"
  using run_refines [OF assms(1)] lookup [of "run ops" a v g ts md now] assms(2) by simp

end


subsection \<open>The local registry keeps the contract\<close>

definition services_ok :: "services \<Rightarrow> bool" where
  "services_ok r \<longleftrightarrow> dict_ok r \<and>
     (\<forall>s d. map_of r s = Some d \<longrightarrow> d \<noteq> [] \<and> keyed si_id d \<and>
       (\<forall>k i. map_of d k = Some i \<longrightarrow> si_service i = s \<and> check_instance i = Inr i))"

definition sv_view :: "services \<Rightarrow> directory" where
  "sv_view r = (\<lambda>(s, k). map_of (dict_get r s []) k)"

lemma sv_view_Some: "sv_view r (s, k) = Some i \<longleftrightarrow> (\<exists>d. map_of r s = Some d \<and> map_of d k = Some i)"
  by (simp add: sv_view_def dict_get_def split: option.split)

lemma dict_get_services:
  assumes "services_ok r"
  shows "keyed si_id (dict_get r s [])"
    and "map_of (dict_get r s []) k = Some i \<Longrightarrow> si_service i = s \<and> si_id i = k \<and> check_instance i = Inr i"
proof -
  have *: "d = [] \<or> map_of r s = Some d" if "dict_get r s [] = d" for d
    using that by (auto simp: dict_get_def split: option.splits)
  show k: "keyed si_id (dict_get r s [])"
    using assms * [OF refl] by (auto simp: services_ok_def simp del: map_of_eq_Some_iff)
  assume i: "map_of (dict_get r s []) k = Some i"
  with * [OF refl] have "map_of r s = Some (dict_get r s [])" by auto
  with assms i have "si_service i = s \<and> check_instance i = Inr i"
    unfolding services_ok_def by blast
  with keyed_key [OF k i] show "si_service i = s \<and> si_id i = k \<and> check_instance i = Inr i" by blast
qed

lemma services_ok_update:
  assumes "services_ok r" "d \<noteq> []" "keyed si_id d"
    "\<And>k i. map_of d k = Some i \<Longrightarrow> si_service i = s \<and> check_instance i = Inr i"
  shows "services_ok (AList.update s d r)"
  using assms by (simp add: services_ok_def del: map_of_eq_Some_iff)

lemma update_nonempty [simp]: "AList.update k v d \<noteq> []"
  by (cases d) auto

text \<open>Storing a constructed instance under its name.\<close>

lemma store_instance:
  assumes "services_ok r" "check_instance i = Inr i" "si_service i = s" "si_id i = k"
  shows "services_ok (AList.update s (AList.update k i (dict_get r s [])) r) \<and>
    sv_view (AList.update s (AList.update k i (dict_get r s [])) r) = (sv_view r)((s, k) \<mapsto> i)"
proof
  show "services_ok (AList.update s (AList.update k i (dict_get r s [])) r)"
    using dict_get_services [OF assms(1), of s] assms(2-4)
    by (intro services_ok_update [OF assms(1)]) (auto simp del: map_of_eq_Some_iff split: if_splits)
  show "sv_view (AList.update s (AList.update k i (dict_get r s [])) r) = (sv_view r)((s, k) \<mapsto> i)"
    by (auto simp: sv_view_def)
qed

lemma delete_instance:
  fixes k :: string
  assumes "services_ok r" "map_of r s = Some d"
  defines "r' \<equiv> (if AList.delete k d = [] then AList.delete s r else AList.update s (AList.delete k d) r)"
  shows "services_ok r' \<and> sv_view r' = (sv_view r)((s, k) := None)"
proof
  have d: "keyed si_id d" "\<And>k i. map_of d k = Some i \<Longrightarrow> si_service i = s \<and> check_instance i = Inr i"
    using assms(1,2) by (auto simp: services_ok_def)
  show "services_ok r'"
  proof (cases "AList.delete k d = []")
    case True
    with assms(1) show ?thesis by (simp add: r'_def services_ok_def del: map_of_eq_Some_iff)
  next
    case False
    with d have "services_ok (AList.update s (AList.delete k d) r)"
      by (intro services_ok_update [OF assms(1)]) (auto simp del: map_of_eq_Some_iff split: if_splits)
    with False show ?thesis by (simp add: r'_def)
  qed
  have "map_of (AList.delete k d) = (map_of d)(k := None)" by simp
  then have "AList.delete k d = [] \<Longrightarrow> (map_of d)(k := None) = (\<lambda>_. None)" by simp
  then show "sv_view r' = (sv_view r)((s, k) := None)"
    by (auto simp: r'_def sv_view_def dict_get_def assms(2) fun_eq_iff simp del: map_of_eq_Some_iff) metis
qed


text \<open>Cleaning up.\<close>

lemma map_of_filter_dict:
  assumes "dict_ok d"
  shows "map_of (filter (\<lambda>(k, v). P v) d) k = (case map_of d k of None \<Rightarrow> None | Some v \<Rightarrow> if P v then Some v else None)"
  using assms by (induction d) (auto simp: map_of_eq_None_iff image_iff split: option.split)

lemma map_of_live:
  "dict_ok d \<Longrightarrow> map_of (live now d) k =
    (case map_of d k of None \<Rightarrow> None | Some i \<Rightarrow> if is_expired now i then None else Some i)"
  using map_of_filter_dict [of d "\<lambda>i. \<not> is_expired now i" k] by (simp add: live_def cong: option.case_cong if_cong)
    (auto split: option.split)

lemma dict_ok_filter: "dict_ok d \<Longrightarrow> dict_ok (filter P d)"
  by (induction d) auto

lemma dict_ok_live: "dict_ok d \<Longrightarrow> dict_ok (live now d)"
  by (simp add: live_def dict_ok_filter)

lemma keyed_live: "keyed si_id d \<Longrightarrow> keyed si_id (live now d)"
  by (auto simp: keyed_def dict_ok_live live_def dict_ok_filter)

lemma map_of_cleanup:
  assumes "dict_ok r"
  shows "map_of (snd (sv_cleanup now r)) s =
    (case map_of r s of None \<Rightarrow> None | Some d \<Rightarrow> if live now d = [] then None else Some (live now d))"
proof -
  have ok: "dict_ok (map (\<lambda>(s, d). (s, live now d)) r)"
    using assms by (simp add: case_prod_unfold comp_def)
  have "map_of (map (\<lambda>(s, d). (s, live now d)) r) s = map_option (live now) (map_of r s)"
    by (induction r) auto
  then show ?thesis
    by (auto simp: sv_cleanup_def map_of_filter_dict [OF ok] simp del: map_of_eq_Some_iff split: option.split)
qed

lemma live_view: "map_of r s = Some d \<Longrightarrow> keyed si_id d \<Longrightarrow> map_of (live now d) k = alive now (sv_view r) (s, k)"
  by (simp add: map_of_live keyed_dict_ok alive_def sv_view_def dict_get_def)

lemma cleanup_refines:
  assumes "services_ok r"
  shows "services_ok (snd (sv_cleanup now r)) \<and> sv_view (snd (sv_cleanup now r)) = alive now (sv_view r)"
proof
  have ok: "dict_ok r" and ent: "map_of r s = Some d \<Longrightarrow> keyed si_id d \<and>
      (\<forall>k i. map_of d k = Some i \<longrightarrow> si_service i = s \<and> check_instance i = Inr i)" for s d
    using assms by (auto simp: services_ok_def)
  note mc = map_of_cleanup [OF ok, of now]
  show "services_ok (snd (sv_cleanup now r))"
    unfolding services_ok_def
  proof (intro conjI allI impI)
    show "dict_ok (snd (sv_cleanup now r))"
      using ok by (auto simp: sv_cleanup_def comp_def case_prod_unfold intro!: dict_ok_filter)
    fix s d assume "map_of (snd (sv_cleanup now r)) s = Some d"
    then obtain e where e: "map_of r s = Some e" "d = live now e" "d \<noteq> []"
      by (auto simp: mc simp del: map_of_eq_Some_iff split: option.splits if_splits)
    then show "d \<noteq> []" "keyed si_id d" using ent [OF e(1)] by (simp_all add: keyed_live)
    fix k i assume "map_of d k = Some i"
    then have "map_of e k = Some i"
      using ent [OF e(1)] by (auto simp: e(2) map_of_live keyed_dict_ok simp del: map_of_eq_Some_iff
          split: option.splits if_splits)
    with ent [OF e(1)] show "si_service i = s" "check_instance i = Inr i" by blast+
  qed
  show "sv_view (snd (sv_cleanup now r)) = alive now (sv_view r)"
  proof
    fix x :: "string \<times> string"
    obtain s k where x: "x = (s, k)" by fastforce
    show "sv_view (snd (sv_cleanup now r)) x = alive now (sv_view r) x"
    proof (cases "map_of r s")
      case None
      then show ?thesis by (simp add: x sv_view_def dict_get_def mc alive_def)
    next
      case (Some d)
      from live_view [OF Some, of now k] ent [OF Some]
      have l: "map_of (live now d) k = alive now (sv_view r) (s, k)" by blast
      show ?thesis
      proof (cases "live now d = []")
        case True
        with l show ?thesis by (simp add: x sv_view_def [of "snd (sv_cleanup now r)"] dict_get_def mc Some)
      next
        case False
        with l show ?thesis by (simp add: x sv_view_def [of "snd (sv_cleanup now r)"] dict_get_def mc Some)
      qed
    qed
  qed
qed


text \<open>The number of removed instances.\<close>

definition expired_keys :: "time \<Rightarrow> (string, instance_data) dict \<Rightarrow> string set" where
  "expired_keys now d = {k. \<exists>i. map_of d k = Some i \<and> is_expired now i}"

lemma expired_keys_sub: "expired_keys now d \<subseteq> fst ` set d"
  by (auto simp: expired_keys_def dest: map_of_SomeD intro: rev_image_eqI)

lemma card_expired_keys:
  assumes "dict_ok d"
  shows "length d - length (live now d) = card (expired_keys now d)"
  using assms
proof (induction d)
  case (Cons x d)
  obtain k i where x: "x = (k, i)" by fastforce
  have k: "k \<notin> expired_keys now d" using Cons.prems expired_keys_sub [of now d] by (auto simp: x)
  have fin: "finite (expired_keys now d)" by (rule finite_subset [OF expired_keys_sub]) simp
  have eq: "expired_keys now (x # d) = (if is_expired now i then insert k (expired_keys now d) else expired_keys now d)"
    using Cons.prems by (auto simp: expired_keys_def x rev_image_eqI)
  have "length (live now d) \<le> length d" by (simp add: live_def)
  then have "Suc (length d) - length (live now d) = Suc (length d - length (live now d))" by (rule Suc_diff_le)
  moreover have "live now (x # d) = (if is_expired now i then live now d else x # live now d)"
    by (simp add: live_def x)
  ultimately show ?case using Cons k fin by (simp add: eq)
qed (simp add: expired_keys_def live_def)

lemma cleanup_count:
  assumes "services_ok r"
  shows "fst (sv_cleanup now r) = card {k. \<exists>i. sv_view r k = Some i \<and> is_expired now i}"
proof -
  have "sum_list (map (\<lambda>(s, d). length d - length (live now d)) r) =
      card {(s, k). \<exists>d. map_of r s = Some d \<and> k \<in> expired_keys now d}"
    if "dict_ok r" "\<And>s d. map_of r s = Some d \<Longrightarrow> dict_ok d" for r
    using that
  proof (induction r)
    case (Cons x r)
    obtain s d where x: "x = (s, d)" by fastforce
    let ?E = "\<lambda>r. {(s, k). \<exists>d. map_of r s = Some d \<and> k \<in> expired_keys now d}"
    have s: "map_of r s = None" using Cons.prems(1) by (simp add: x map_of_eq_None_iff)
    have d: "dict_ok d" using Cons.prems(2) [of s d] by (simp add: x)
    have IH: "sum_list (map (\<lambda>(s, d). length d - length (live now d)) r) = card (?E r)"
    proof (rule Cons.IH)
      show "dict_ok r" using Cons.prems(1) by simp
      show "dict_ok e" if "map_of r t = Some e" for t e
        using that Cons.prems(2) [of t e] s by (cases "t = s") (simp_all add: x del: map_of_eq_Some_iff)
    qed
    have eq: "?E (x # r) = Pair s ` expired_keys now d \<union> ?E r"
      using s by (auto simp: x split: if_splits)
    have disj: "Pair s ` expired_keys now d \<inter> ?E r = {}" using s by auto
    have fin: "finite (Pair s ` expired_keys now d)"
      by (intro finite_imageI finite_subset [OF expired_keys_sub]) simp
    have "?E r \<subseteq> (\<Union>(s, d) \<in> set r. Pair s ` (fst ` set d))"
      using expired_keys_sub [of now] by (force dest: map_of_SomeD)
    then have "finite (?E r)" by (rule finite_subset) auto
    with fin disj have "card (?E (x # r)) = card (Pair s ` expired_keys now d) + card (?E r)"
      unfolding eq by (intro card_Un_disjoint)
    also have "card (Pair s ` expired_keys now d) = card (expired_keys now d)"
      by (intro card_image) (simp add: inj_on_def)
    finally show ?case using IH card_expired_keys [OF d, of now] by (simp add: x)
  qed simp
  note count = this
  have "dict_ok r" and "\<And>s d. map_of r s = Some d \<Longrightarrow> dict_ok d"
    using assms unfolding services_ok_def by (blast intro: keyed_dict_ok)+
  then have "fst (sv_cleanup now r) = card {(s, k). \<exists>d. map_of r s = Some d \<and> k \<in> expired_keys now d}"
    unfolding sv_cleanup_def fst_conv by (rule count)
  also have "{(s, k). \<exists>d. map_of r s = Some d \<and> k \<in> expired_keys now d} =
      {k. \<exists>i. sv_view r k = Some i \<and> is_expired now i}"
    by (auto simp: sv_view_Some expired_keys_def simp del: map_of_eq_Some_iff)
  finally show ?thesis .
qed

text \<open>Lookups and listings.\<close>

lemma in_order_filter: "in_order is \<Longrightarrow> in_order (filter P is)"
  by (auto simp: in_order_def sorted_filter distinct_map_filter)

lemma filter_instances_exact:
  assumes "keyed si_id d"
  shows "in_order (filter_instances (map snd d) v g ts md)"
    and "set (filter_instances (map snd d) v g ts md) = {i. \<exists>k. map_of d k = Some i \<and> instance_matches v g ts md i}"
proof -
  have "map si_id (map snd d) = map fst d" using assms by (auto simp: keyed_def)
  then have "distinct (map si_id (map snd d))" using keyed_dict_ok [OF assms] by (simp only:)
  then have "distinct (map (\<lambda>i. (si_service i, si_id i)) (map snd d))"
    by (auto simp: distinct_map inj_on_def)
  then have "in_order (sort_key (\<lambda>i. (si_service i, si_id i)) (map snd d))"
    by (simp only: in_order_def sorted_sort_key distinct_map distinct_sort set_sort simp_thms)
  then show "in_order (filter_instances (map snd d) v g ts md)"
    unfolding filter_instances_def by (rule in_order_filter)
  show "set (filter_instances (map snd d) v g ts md) = {i. \<exists>k. map_of d k = Some i \<and> instance_matches v g ts md i}"
    using keyed_dict_ok [OF assms] by (force simp: filter_instances_def)
qed

lemma lookup_refines:
  assumes "services_ok r"
  shows "services_ok (snd (sv_lookup s v g ts md now r)) \<and>
    sv_view (snd (sv_lookup s v g ts md now r)) = alive now (sv_view r) \<and>
    in_order (fst (sv_lookup s v g ts md now r)) \<and>
    set (fst (sv_lookup s v g ts md now r)) =
      {i. \<exists>k. alive now (sv_view r) (s, k) = Some i \<and> instance_matches v g ts md i}"
proof -
  from cleanup_refines [OF assms, of now]
  have c: "services_ok (snd (sv_cleanup now r))" "sv_view (snd (sv_cleanup now r)) = alive now (sv_view r)" by auto
  have k: "keyed si_id (dict_get (snd (sv_cleanup now r)) s [])" by (rule dict_get_services [OF c(1)])
  have "map_of (dict_get (snd (sv_cleanup now r)) s []) k = alive now (sv_view r) (s, k)" for k
    unfolding c(2) [symmetric] by (simp add: sv_view_def)
  with c filter_instances_exact [OF k, of v g ts md] show ?thesis
    by (simp add: sv_lookup_def sv_found_def Let_def del: map_of_eq_Some_iff)
qed

lemma in_order_append:
  "in_order (xs @ ys) \<longleftrightarrow> in_order xs \<and> in_order ys \<and>
     (\<forall>x \<in> set xs. \<forall>y \<in> set ys. (si_service x, si_id x) < (si_service y, si_id y))"
  by (auto simp: in_order_def sorted_append order_less_le image_iff) 

lemma listing_in_order:
  assumes "services_ok r" "sorted ks" "distinct ks" "set ks \<subseteq> dom (map_of r)"
  shows "in_order (concat (map (\<lambda>s. sorted_values (the (map_of r s))) ks))"
  using assms(2-4)
proof (induction ks)
  case (Cons s ks)
  from Cons.prems(3) obtain d where d: "map_of r s = Some d" by auto
  have val: "keyed si_id (the (map_of r s))"
      "\<forall>i \<in> set (sorted_values (the (map_of r s))). si_service i = s" if "s \<in> dom (map_of r)" for s
  proof -
    from that obtain d where d: "map_of r s = Some d" by auto
    with assms(1) show k: "keyed si_id (the (map_of r s))" by (simp add: services_ok_def)
    from assms(1) d have "\<forall>k i. map_of d k = Some i \<longrightarrow> si_service i = s"
      by (simp add: services_ok_def)
    with keyed_listing(1) [OF k] show "\<forall>i \<in> set (sorted_values (the (map_of r s))). si_service i = s"
      by (auto simp: d ran_def simp del: map_of_eq_Some_iff)
  qed
  have "map (\<lambda>i. (si_service i, si_id i)) (sorted_values d) = map (Pair s) (map si_id (sorted_values d))"
    using val(2) [of s] d by (auto simp: domI)
  moreover have "sorted (map (Pair s) xs) = sorted xs" for xs :: "string list"
    by (induction xs) (auto simp: less_eq_prod_def)
  ultimately have here: "in_order (sorted_values d)"
    using keyed_listing(2,3) [OF val(1) [of s]] d
    by (simp add: in_order_def domI distinct_map inj_on_def del: map_map)
  have rest: "in_order (concat (map (\<lambda>s. sorted_values (the (map_of r s))) ks))"
    using Cons by simp
  have "(si_service x, si_id x) < (si_service y, si_id y)"
    if "x \<in> set (sorted_values d)" "y \<in> set (concat (map (\<lambda>s. sorted_values (the (map_of r s))) ks))" for x y
  proof -
    from that(2) obtain t where t: "t \<in> set ks" "y \<in> set (sorted_values (the (map_of r t)))" by auto
    have "s < t" using Cons.prems(1,2) t(1) by (auto simp: order_less_le)
    moreover have "si_service x = s" "si_service y = t"
      using val(2) [of s] val(2) [of t] that(1) t Cons.prems(3) d by auto
    ultimately show ?thesis by (simp add: less_prod_def)
  qed
  with here rest d show ?case by (simp add: in_order_append)
qed (simp add: in_order_def)


lemma list_refines:
  assumes "services_ok r"
  shows "services_ok (snd (sv_list now r)) \<and> sv_view (snd (sv_list now r)) = alive now (sv_view r) \<and>
    in_order (fst (sv_list now r)) \<and> set (fst (sv_list now r)) = ran (alive now (sv_view r))"
proof -
  from cleanup_refines [OF assms, of now]
  have c: "services_ok (snd (sv_cleanup now r))" "sv_view (snd (sv_cleanup now r)) = alive now (sv_view r)" by auto
  let ?r = "snd (sv_cleanup now r)"
  have ok: "dict_ok ?r" using c(1) by (simp add: services_ok_def)
  have "fst (sv_list now r) = concat (map (\<lambda>s. sorted_values (the (map_of ?r s))) (sorted_keys ?r))"
    by (simp add: sv_list_def sv_all_def Let_def sorted_values_def [of ?r] comp_def)
  moreover have "in_order (concat (map (\<lambda>s. sorted_values (the (map_of ?r s))) (sorted_keys ?r)))"
    using sorted_keys_props [OF ok] by (intro listing_in_order [OF c(1)]) simp_all
  ultimately have ord: "in_order (fst (sv_list now r))" by simp
  have "set (sorted_values d) = ran (map_of d)" if "map_of ?r s = Some d" for s d
  proof -
    from c(1) that have "keyed si_id d" by (simp add: services_ok_def del: map_of_eq_Some_iff)
    then show ?thesis by (rule keyed_listing)
  qed
  then have "set (fst (sv_list now r)) = (\<Union>d \<in> ran (map_of ?r). ran (map_of d))"
    using set_sorted_values [OF ok]
    by (simp add: sv_list_def sv_all_def Let_def del: map_of_eq_Some_iff) (force simp: ran_def simp del: map_of_eq_Some_iff)
  also have "\<dots> = ran (sv_view ?r)"
    by (force simp: ran_def sv_view_Some simp del: map_of_eq_Some_iff)
  finally show ?thesis using c ord by (simp add: sv_list_def sv_all_def Let_def)
qed

lemma deregister_refines:
  assumes "services_ok r"
  shows "services_ok (snd (sv_deregister s k r)) \<and>
    sv_view (snd (sv_deregister s k r)) = (sv_view r)((s, k) := None) \<and>
    fst (sv_deregister s k r) = (sv_view r (s, k) \<noteq> None)"
proof (cases "map_of r s")
  case None
  then have "sv_view r (s, k) = None" by (simp add: sv_view_def dict_get_def)
  with None assms show ?thesis by (simp add: sv_deregister_def fun_upd_idem)
next
  case (Some d)
  then have v: "sv_view r (s, k) = map_of d k" by (simp add: sv_view_def dict_get_def)
  show ?thesis
  proof (cases "map_of d k")
    case None
    with Some v assms show ?thesis by (simp add: sv_deregister_def fun_upd_idem)
  next
    case k: (Some i)
    with delete_instance [OF assms Some, of k] Some v show ?thesis
      by (simp add: sv_deregister_def Let_def del: map_of_eq_Some_iff)
  qed
qed

lemma check_instance_same: "check_instance i = Inr i' \<Longrightarrow> i' = i"
  by (auto simp: check_instance_def split: if_splits)

lemma renewed_fields:
  assumes "renewed ttl now i = Inr i'"
  shows "check_instance i' = Inr i'" "si_service i' = si_service i" "si_id i' = si_id i"
proof -
  from assms obtain x where x: "check_instance (i\<lparr>si_expires := x\<rparr>) = Inr i'"
    by (auto simp: renewed_def split: sum.splits)
  with check_instance_same [OF x]
  show "check_instance i' = Inr i'" "si_service i' = si_service i" "si_id i' = si_id i" by simp_all
qed

lemma renew_refines:
  assumes "services_ok r"
  shows "case sv_view r (s, k) of
      None \<Rightarrow> sv_renew s k ttl now r = Inl (ServiceInstanceNotFoundError s k)
    | Some i \<Rightarrow>
        (case renewed ttl now i of
           Inl e \<Rightarrow> sv_renew s k ttl now r = Inl e
         | Inr i' \<Rightarrow> \<exists>r'. sv_renew s k ttl now r = Inr (i', r') \<and> services_ok r' \<and>
             sv_view r' = (sv_view r)((s, k) \<mapsto> i'))"
proof (cases "sv_view r (s, k)")
  case None
  then show ?thesis by (simp add: sv_renew_def sv_view_def)
next
  case (Some i)
  then have i: "map_of (dict_get r s []) k = Some i" by (simp add: sv_view_def)
  show ?thesis
  proof (cases "renewed ttl now i")
    case (Inl e)
    with Some i show ?thesis by (simp add: sv_renew_def del: map_of_eq_Some_iff)
  next
    case (Inr i')
    from dict_get_services(2) [OF assms i] renewed_fields [OF Inr]
    have "check_instance i' = Inr i'" "si_service i' = s" "si_id i' = k" by simp_all
    from store_instance [OF assms this] Some i Inr show ?thesis
      by (simp add: sv_renew_def del: map_of_eq_Some_iff)
  qed
qed

text \<open>A renewal that raises leaves the registry as it is.\<close>

definition sv_renew_state ::
  "string \<Rightarrow> string \<Rightarrow> pyfloat \<Rightarrow> time \<Rightarrow> services \<Rightarrow> (service_error + instance_data) \<times> services" where
  "sv_renew_state s k ttl now r =
     (case sv_renew s k ttl now r of Inl e \<Rightarrow> (Inl e, r) | Inr (i, r') \<Rightarrow> (Inr i, r'))"

interpretation local_services: service_directory services_ok sv_view "\<lambda>_ _. True" "\<lambda>_. True" "[]" sv_register sv_deregister
  sv_renew_state sv_lookup sv_list sv_cleanup
proof unfold_locales
  show "services_ok []" by (simp add: services_ok_def)
  show "sv_view [] = (\<lambda>_. None)" by (auto simp: sv_view_def)
  fix r :: services assume ok: "services_ok r"
  show "stored_under_name (sv_view r)"
    using dict_get_services(2) [OF ok] by (simp add: stored_under_name_def sv_view_def del: map_of_eq_Some_iff)
  show "services_ok (sv_register i r) \<and> sv_view (sv_register i r) = (sv_view r)((si_service i, si_id i) \<mapsto> i)"
    if "check_instance i = Inr i" for i
    unfolding sv_register_def by (rule store_instance [OF ok that]) simp_all
  fix s k ttl now v g ts md
  show "services_ok (snd (sv_deregister s k r)) \<and> sv_view (snd (sv_deregister s k r)) = (sv_view r)((s, k) := None) \<and>
      fst (sv_deregister s k r) = (sv_view r (s, k) \<noteq> None)"
    by (rule deregister_refines [OF ok])
  show "services_ok (snd (sv_renew_state s k ttl now r)) \<and>
      (case sv_view r (s, k) of
         None \<Rightarrow> fst (sv_renew_state s k ttl now r) = Inl (ServiceInstanceNotFoundError s k) \<and>
           sv_view (snd (sv_renew_state s k ttl now r)) = sv_view r
       | Some i \<Rightarrow> fst (sv_renew_state s k ttl now r) = renewed ttl now i \<and>
           sv_view (snd (sv_renew_state s k ttl now r)) =
             (case renewed ttl now i of Inl e \<Rightarrow> sv_view r | Inr i' \<Rightarrow> (sv_view r)((s, k) \<mapsto> i')))"
    using renew_refines [OF ok, of s k ttl now] ok
    by (auto simp: sv_renew_state_def split: option.splits sum.splits)
  show "services_ok (snd (sv_lookup s v g ts md now r)) \<and>
      sv_view (snd (sv_lookup s v g ts md now r)) = alive now (sv_view r) \<and>
      in_order (fst (sv_lookup s v g ts md now r)) \<and>
      set (fst (sv_lookup s v g ts md now r)) =
        {i. \<exists>k. alive now (sv_view r) (s, k) = Some i \<and> instance_matches v g ts md i}"
    by (rule lookup_refines [OF ok])
  show "services_ok (snd (sv_list now r)) \<and> sv_view (snd (sv_list now r)) = alive now (sv_view r) \<and>
      in_order (fst (sv_list now r)) \<and> set (fst (sv_list now r)) = ran (alive now (sv_view r))"
    by (rule list_refines [OF ok])
  show "services_ok (snd (sv_cleanup now r)) \<and> sv_view (snd (sv_cleanup now r)) = alive now (sv_view r) \<and>
      fst (sv_cleanup now r) = card {k. \<exists>i. sv_view r k = Some i \<and> is_expired now i}"
    using cleanup_refines [OF ok, of now] cleanup_count [OF ok, of now] by simp
qed simp_all


subsection \<open>Sequences of operations on the local registry\<close>

fun sv_step :: "dir_op \<Rightarrow> services \<Rightarrow> services" where
  "sv_step (Dir_register i) r = sv_register i r"
| "sv_step (Dir_deregister s k) r = snd (sv_deregister s k r)"
| "sv_step (Dir_renew s k ttl now) r = snd (sv_renew_state s k ttl now r)"
| "sv_step (Dir_lookup s v g ts md now) r = snd (sv_lookup s v g ts md now r)"
| "sv_step (Dir_list now) r = snd (sv_list now r)"
| "sv_step (Dir_cleanup now) r = snd (sv_cleanup now r)"

definition sv_run :: "dir_op list \<Rightarrow> services" where
  "sv_run ops = fold sv_step ops []"

definition constructed_ops :: "dir_op list \<Rightarrow> bool" where
  "constructed_ops ops \<longleftrightarrow> (\<forall>i. Dir_register i \<in> set ops \<longrightarrow> check_instance i = Inr i)"

lemma local_run: "local_services.run ops = sv_run ops"
proof -
  have "local_services.step op r = sv_step op r" for op r by (cases op) simp_all
  then have "local_services.step = sv_step" by (intro ext)
  then show ?thesis by (simp add: local_services.run_def sv_run_def)
qed

lemma constructed_named: "constructed_ops ops \<Longrightarrow> list_all (named_op (\<lambda>_ _. True) (\<lambda>_. True)) ops"
proof -
  have "named_op (\<lambda>_ _. True) (\<lambda>_. True) op \<longleftrightarrow> (\<forall>i. op = Dir_register i \<longrightarrow> check_instance i = Inr i)" for op
    by (cases op) simp_all
  then show "constructed_ops ops \<Longrightarrow> list_all (named_op (\<lambda>_ _. True) (\<lambda>_. True)) ops"
    by (auto simp: constructed_ops_def list_all_iff)
qed

lemmas local_refines = local_services.run_refines [OF constructed_named, unfolded local_run]

text \<open>C32: The local service registry implements a directory: after any operations it holds for every
  name the instance last registered or renewed under it that was not deregistered, nor expired at a
  later cleanup, and a lookup returns exactly the live instances of the service that match every
  filter, in the order of their names, each once.\<close>

theorem discovery_implements_directory:
  assumes "constructed_ops ops"
  shows "sv_view (sv_run ops) = dir_run ops \<and>
    in_order (fst (sv_lookup s v g ts md now (sv_run ops))) \<and>
    set (fst (sv_lookup s v g ts md now (sv_run ops))) =
      {i. \<exists>k. alive now (dir_run ops) (s, k) = Some i \<and> instance_matches v g ts md i} \<and>
    in_order (fst (sv_list now (sv_run ops))) \<and>
    set (fst (sv_list now (sv_run ops))) = ran (alive now (dir_run ops)) \<and>
    fst (sv_cleanup now (sv_run ops)) = card {k. \<exists>i. dir_run ops k = Some i \<and> is_expired now i}"
proof -
  note r = local_refines [OF assms]
  show ?thesis
    using r lookup_refines [of "sv_run ops" s v g ts md now] list_refines [of "sv_run ops" now]
      cleanup_count [of "sv_run ops" now]
    by simp
qed

subsection \<open>Time to live\<close>

fun clock_of :: "dir_op \<Rightarrow> time option" where
  "clock_of (Dir_lookup s v g ts md now) = Some now"
| "clock_of (Dir_list now) = Some now"
| "clock_of (Dir_cleanup now) = Some now"
| "clock_of (Dir_renew s k ttl now) = Some now"
| "clock_of _ = None"

fun about :: "string \<Rightarrow> string \<Rightarrow> dir_op \<Rightarrow> bool" where
  "about s k (Dir_register i) = (si_service i = s \<and> si_id i = k)"
| "about s k (Dir_deregister s' k') = (s' = s \<and> k' = k)"
| "about s k (Dir_renew s' k' ttl now) = (s' = s \<and> k' = k)"
| "about s k _ = False"

lemma dir_step_other:
  assumes "\<not> about s k op" "m (s, k) = Some i" "\<And>t. clock_of op = Some t \<Longrightarrow> t < si_expires i"
  shows "dir_step op m (s, k) = Some i"
  using assms by (cases op) (auto simp: alive_def is_expired_def split: option.split sum.split)

lemma dir_steps_other:
  assumes "\<forall>op \<in> set ops. \<not> about s k op" "m (s, k) = Some i"
    "\<forall>op \<in> set ops. \<forall>t. clock_of op = Some t \<longrightarrow> t < si_expires i"
  shows "fold dir_step ops m (s, k) = Some i"
  using assms
proof (induction ops arbitrary: m)
  case (Cons op ops)
  have "dir_step op m (s, k) = Some i" using Cons.prems by (intro dir_step_other) auto
  with Cons show ?case by simp
qed simp

lemma create_instance_fields:
  assumes "create_instance s k e ttl v g ts md t = Inr i"
  shows "check_instance i = Inr i" "si_service i = s" "si_id i = k" "t < si_expires i"
proof -
  from assms obtain x where x: "check_instance \<lparr>si_service = s, si_id = k, si_endpoint = e, si_registered = t,
      si_expires = x, si_version = v, si_region = g, si_tags = ts, si_metadata = md\<rparr> = Inr i"
    by (auto simp: create_instance_def split: sum.splits)
  from check_instance_same [OF x] x
  show "check_instance i = Inr i" "si_service i = s" "si_id i = k" "t < si_expires i"
    by (auto simp: check_instance_def split: if_splits)
qed

text \<open>A created and registered instance is found by the lookups of its service exactly until it
  expires, after its creation: as long as no operation is about its name, the other operations and
  cleanups, which read earlier clocks, do not remove it before, and no lookup returns it after.\<close>

theorem instance_found_until_expiry:
  assumes "constructed_ops (before @ later)" "create_instance s k endpoint ttl version region tags metadata t0 = Inr i"
    and "\<forall>op \<in> set later. \<not> about s k op \<and> (\<forall>t. clock_of op = Some t \<longrightarrow> t \<le> now)"
  shows "t0 < si_expires i \<and>
    (i \<in> set (fst (sv_lookup s None None {||} [] now (sv_run (before @ Dir_register i # later)))) \<longleftrightarrow>
       now < si_expires i)"
proof -
  note c = create_instance_fields [OF assms(2)]
  let ?ops = "before @ Dir_register i # later"
  have ops: "constructed_ops ?ops" using assms(1) c(1) by (auto simp: constructed_ops_def)
  have look: "set (fst (sv_lookup s None None {||} [] now (sv_run ?ops))) =
      {j. \<exists>k. alive now (dir_run ?ops) (s, k) = Some j}"
    using discovery_implements_directory [OF ops, of s None None "{||}" "[]" now]
    by (simp add: instance_matches_def)
  have dead: "\<not> is_expired now j" if "alive now m x = Some j" for m x j
    using that by (auto simp: alive_def split: option.splits if_splits)
  have found: "dir_run ?ops (s, k) = Some i" if "now < si_expires i"
    unfolding dir_run_def fold_append fold_Cons comp_def
    using assms(3) that c by (intro dir_steps_other) force+
  show ?thesis
  proof (intro conjI iffI)
    show "t0 < si_expires i" by (rule c(4))
    show "now < si_expires i" if "i \<in> set (fst (sv_lookup s None None {||} [] now (sv_run ?ops)))"
      using that dead unfolding look by (force simp: is_expired_def)
    show "i \<in> set (fst (sv_lookup s None None {||} [] now (sv_run ?ops)))" if "now < si_expires i"
      using found [OF that] that unfolding look by (auto simp: alive_def is_expired_def intro!: exI [of _ k])
  qed
qed

subsection \<open>The JSON form is faithful\<close>

lemma optional_string_of [simp]: "optional_string (of_optional x) = x"
  by (cases x) (simp_all add: optional_string_def of_optional_def)

lemma string_list_strings [simp]: "string_list (JList (map JString ss)) = Some ss"
  by (induction ss) (auto simp: optional_string_def split: if_splits)

text \<open>The instants that a datetime represents, and instances whose fields are a datetime and a dict.\<close>

definition representable_time :: "time \<Rightarrow> bool" where
  "representable_time t \<longleftrightarrow> min_instant \<le> t \<and> t \<le> max_instant"

definition representable :: "instance_data \<Rightarrow> bool" where
  "representable i \<longleftrightarrow> representable_time (si_registered i) \<and> representable_time (si_expires i) \<and>
     dict_ok (si_metadata i)"

lemma renewed_representable:
  assumes "renewed ttl now i = Inr i'" "representable i"
  shows "representable i'"
proof -
  from assms(1) obtain x where x: "ttl_end ttl now = Inr x" "check_instance (i\<lparr>si_expires := x\<rparr>) = Inr i'"
    by (auto simp: renewed_def split: sum.splits)
  then have i': "i' = i\<lparr>si_expires := x\<rparr>" "si_registered i < x"
    using check_instance_same [OF x(2)] by (auto simp: check_instance_def split: if_splits)
  moreover have "x \<le> max_instant"
    using x(1) by (auto simp: ttl_end_def split: if_splits sum.splits delta_error.splits)
  ultimately show ?thesis using assms(2) by (simp add: representable_def representable_time_def)
qed

lemma instance_json_roundtrip':
  assumes "\<forall>t. representable_time t \<longrightarrow> parse (fmt t) = Some t" "check_instance i = Inr i" "representable i"
  shows "instance_from_dict parse text (instance_to_dict fmt i) = Inr i"
proof -
  have i: "\<lparr>si_service = si_service i, si_id = si_id i, si_endpoint = si_endpoint i,
      si_registered = si_registered i, si_expires = si_expires i, si_version = si_version i,
      si_region = si_region i, si_tags = si_tags i, si_metadata = si_metadata i\<rparr> = i" by simp
  have md: "map ((\<lambda>(k, v). (k, py_str text v)) \<circ> (\<lambda>(k, v). (k, JString v))) (si_metadata i) = si_metadata i"
    by (rule map_idI) (auto simp: py_str_def)
  show ?thesis
    using assms
    by (simp add: instance_from_dict_def instance_to_dict_def dict_get_def required_field_def time_field_def
        py_str_def [of "text" "JString s" for s] representable_def md i
        del: string_list.simps)
qed

text \<open>An instance is restored from its JSON form as it was, given that \<open>fromisoformat\<close> inverts
  \<open>isoformat\<close> on aware datetimes, which Python documents.\<close>

theorem instance_json_roundtrip:
  assumes "\<forall>t. representable_time t \<longrightarrow> parse (fmt t) = Some t" "check_instance i = Inr i" "representable i"
  shows "instance_from_dict parse text (instance_to_dict fmt i) = Inr i"
  by (rule instance_json_roundtrip' [OF assms])


subsection \<open>Sample inputs\<close>

definition sample_instance :: instance_data where
  "sample_instance = \<lparr>si_service = ''api'', si_id = ''1'', si_endpoint = ''http://h'', si_registered = 0,
     si_expires = 30 * one_second, si_version = Some ''v1'', si_region = None, si_tags = {|''blue'', ''eu''|},
     si_metadata = [(''zone'', ''a'')]\<rparr>"

lemma sample_instance_ok: "check_instance sample_instance = Inr sample_instance"
  by (simp add: check_instance_def sample_instance_def one_second_def)

lemma sample_representable: "representable sample_instance"
  by (simp add: representable_def representable_time_def sample_instance_def one_second_def
      min_instant_def max_instant_def)

text \<open>Another caller may store an instance between the cleanup of a lookup and its read; the read does
  not test the expiry again and returns it although it has expired.\<close>

lemma stored_between_sections:
  "sv_found ''api'' None None {||} [] (sv_register sample_instance (snd (sv_cleanup one_minute []))) =
     [sample_instance] \<and> is_expired one_minute sample_instance"
  by (simp add: sv_found_def sv_register_def sv_cleanup_def filter_instances_def instance_matches_def
      is_expired_def sample_instance_def dict_get_def one_minute_def one_second_def)

lemma sample_instance_created:
  "create_instance ''api'' ''1'' ''http://h'' (Fin 30) (Some ''v1'') None {|''blue'', ''eu''|} [(''zone'', ''a'')] 0 =
    Inr sample_instance"
proof -
  have "timedelta_of (Fin 30) = Inr (30 * one_second)"
    using timedelta_of_int [of 30] by (simp add: one_second_def)
  then show ?thesis
    by (simp add: create_instance_def ttl_end_def check_instance_def sample_instance_def max_instant_def one_second_def)
qed

theorem discovery_implements_directory_witness:
  "fst (sv_lookup ''api'' (Some ''v1'') None {|''eu''|} [(''zone'', ''a'')] 5 (sv_run [Dir_register sample_instance])) =
    [sample_instance]"
proof -
  let ?is = "fst (sv_lookup ''api'' (Some ''v1'') None {|''eu''|} [(''zone'', ''a'')] 5 (sv_run [Dir_register sample_instance]))"
  have ok: "constructed_ops [Dir_register sample_instance]" by (simp add: constructed_ops_def sample_instance_ok)
  have d: "dir_run [Dir_register sample_instance] = [(''api'', ''1'') \<mapsto> sample_instance]"
    by (simp add: dir_run_def sample_instance_def)
  have "\<not> is_expired 5 sample_instance" "instance_matches (Some ''v1'') None {|''eu''|} [(''zone'', ''a'')] sample_instance"
    by (simp_all add: is_expired_def instance_matches_def sample_instance_def one_second_def)
  then have "set ?is = {sample_instance}" "in_order ?is"
    using discovery_implements_directory [OF ok, of "''api''" "Some ''v1''" None "{|''eu''|}" "[(''zone'', ''a'')]" 5]
    by (auto simp: d alive_def split: if_splits)
  then show ?thesis
    by (cases ?is; cases "tl ?is") (auto simp: in_order_def)
qed

theorem instance_found_until_expiry_witness:
  "sample_instance \<in> set (fst (sv_lookup ''api'' None None {||} [] 7
     (sv_run ([] @ Dir_register sample_instance # [Dir_cleanup 5, Dir_deregister ''api'' ''2'']))))"
proof -
  have "7 < si_expires sample_instance" by (simp add: sample_instance_def one_second_def)
  moreover have "constructed_ops ([] @ [Dir_cleanup 5, Dir_deregister ''api'' ''2''])"
    by (simp add: constructed_ops_def)
  note instance_found_until_expiry [OF this sample_instance_created, of 7]
  ultimately show ?thesis by simp
qed

text \<open>A reversible text for instants.\<close>

definition sample_format :: "time \<Rightarrow> string" where
  "sample_format t = (if 0 \<le> t then replicate (nat t) CHR ''p'' else CHR ''m'' # replicate (nat (- t)) CHR ''p'')"

definition sample_parse :: "string \<Rightarrow> time option" where
  "sample_parse s = Some (if s \<noteq> [] \<and> hd s = CHR ''m'' then - int (length (tl s)) else int (length s))"

lemma sample_parse_format: "sample_parse (sample_format t) = Some t"
proof -
  have "replicate (nat t) CHR ''p'' \<noteq> [] \<Longrightarrow> hd (replicate (nat t) CHR ''p'') = CHR ''p''" by simp
  then show ?thesis
    by (auto simp: sample_parse_def sample_format_def simp del: hd_replicate)
qed

theorem instance_json_roundtrip_witness:
  "instance_from_dict sample_parse (\<lambda>_. '''') (instance_to_dict sample_format sample_instance) = Inr sample_instance"
  by (rule instance_json_roundtrip [OF _ sample_instance_ok sample_representable])
    (simp add: sample_parse_format)

end
