(* ===== verification/Dist_Redis.thy ===== *)
theory Dist_Redis
  imports Dist_Discovery Dist_Local
begin

text \<open>
  The Redis backend (\<open>src/src/tkai/distributed/redis.py\<close>) and the service registry over it
  (\<open>RedisServiceRegistry\<close> of \<open>discovery.py\<close>). The client is a parameter: its calls are functions on
  the world \<open>'c\<close> it talks to (the connection, the server, other processes), and a call that raises
  gives \<open>None\<close>. Values of keys are text (bytes are taken decoded), \<open>dumps\<close> and \<open>loads\<close> are
  the JSON codec. \<open>reliable\<close> names what a server documents for the calls used here, in a time in which
  no lock expires.
\<close>

subsection \<open>Client, configuration, state\<close>

record 'c redis_client =
  rc_ping :: "'c \<Rightarrow> bool option \<times> 'c"
  rc_get :: "string \<Rightarrow> 'c \<Rightarrow> string option option \<times> 'c"
  rc_set :: "string \<Rightarrow> string \<Rightarrow> 'c \<Rightarrow> bool option \<times> 'c"
  rc_set_nx :: "string \<Rightarrow> string \<Rightarrow> int \<Rightarrow> 'c \<Rightarrow> bool option \<times> 'c"
  rc_delete :: "string \<Rightarrow> 'c \<Rightarrow> int option \<times> 'c"
  rc_publish :: "string \<Rightarrow> string \<Rightarrow> 'c \<Rightarrow> int option \<times> 'c"
  rc_close :: "'c \<Rightarrow> unit option \<times> 'c"

datatype redis_error =
    Redis_ValueError string
  | RedisBackendUnavailableError string
  | RedisBackendConnectionError string nat
  | RedisBackendOperationError string nat
  | Redis_Raised string

text \<open>The number is that of the attempts the message counts, zero where it counts none. Opening a client
  may find no redis package, or raise otherwise.\<close>

record 'c redis_setup =
  rs_client :: "'c redis_client"
  rs_create :: "'c \<Rightarrow> redis_error option \<times> 'c"
  rs_namespace :: string
  rs_attempts :: int
  rs_lock_ttl :: int
  rs_external :: bool

definition check_setup :: "string \<Rightarrow> pyfloat \<Rightarrow> 'c redis_setup \<Rightarrow> redis_error + 'c redis_setup" where
  "check_setup url timeout c =
     (if url = '''' then Inl (Redis_ValueError ''Redis URL must not be empty.'')
      else if rs_namespace c = '''' then Inl (Redis_ValueError ''Redis namespace must not be empty.'')
      else if py_le timeout (Fin 0)
      then Inl (Redis_ValueError ''Redis timeout_seconds must be greater than zero.'')
      else if rs_attempts c < 0
      then Inl (Redis_ValueError ''Redis reconnect_attempts must not be negative.'')
      else if rs_lock_ttl c \<le> 0
      then Inl (Redis_ValueError ''Redis lock_ttl_seconds must be greater than zero.'')
      else Inr c)"

record 'c redis_backend =
  rb_client :: bool
  rb_connected :: bool
  rb_subscribers :: "(string, nat list) dict"
  rb_world :: 'c

definition new_redis_backend :: "'c redis_setup \<Rightarrow> 'c \<Rightarrow> 'c redis_backend" where
  "new_redis_backend c w =
     \<lparr>rb_client = rs_external c, rb_connected = False, rb_subscribers = [], rb_world = w\<rparr>"

type_synonym ('a, 'c) action = "'c redis_backend \<Rightarrow> (redis_error + 'a) \<times> 'c redis_backend"

definition redis_key :: "'c redis_setup \<Rightarrow> string \<Rightarrow> string" where
  "redis_key c k = rs_namespace c @ '':value:'' @ k"

definition redis_topic :: "'c redis_setup \<Rightarrow> string \<Rightarrow> string" where
  "redis_topic c k = rs_namespace c @ '':topic:'' @ k"

definition redis_lock_key :: "'c redis_setup \<Rightarrow> string \<Rightarrow> string" where
  "redis_lock_key c k = rs_namespace c @ '':lock:'' @ k"

subsection \<open>Bounded attempts\<close>

text \<open>\<open>client = self._client or self._create_client()\<close>.\<close>

definition ensure_client :: "'c redis_setup \<Rightarrow> (unit, 'c) action" where
  "ensure_client c b =
     (if rb_client b then (Inr (), b)
      else case rs_create c (rb_world b) of
             (Some e, w) \<Rightarrow> (Inl e, b\<lparr>rb_world := w\<rparr>)
           | (None, w) \<Rightarrow> (Inr (), b\<lparr>rb_client := True, rb_world := w\<rparr>))"

definition rb_reconnect :: "'c redis_setup \<Rightarrow> (unit, 'c) action" where
  "rb_reconnect c b =
     (case ensure_client c (b\<lparr>rb_connected := False, rb_client := rs_external c \<and> rb_client b\<rparr>) of
        (Inl e, b1) \<Rightarrow> (Inl e, b1)
      | (Inr _, b1) \<Rightarrow>
          (case rc_ping (rs_client c) (rb_world b1) of
             (None, w) \<Rightarrow> (Inl (RedisBackendConnectionError ''Redis reconnect failed.'' 0), b1\<lparr>rb_world := w\<rparr>)
           | (Some _, w) \<Rightarrow> (Inr (), b1\<lparr>rb_connected := True, rb_world := w\<rparr>)))"

definition attempts_spent :: "string \<Rightarrow> nat \<Rightarrow> redis_error" where
  "attempts_spent name tries =
     (if name = ''connect'' then RedisBackendConnectionError name tries else RedisBackendOperationError name tries)"

text \<open>The loop of \<open>_execute\<close>: \<open>left\<close> attempts remain after this one, \<open>tries\<close> counts it.\<close>

fun attempt_loop ::
  "'c redis_setup \<Rightarrow> (unit, 'c) action \<Rightarrow> ('c \<Rightarrow> 'a option \<times> 'c) \<Rightarrow> string \<Rightarrow> nat \<Rightarrow> nat \<Rightarrow> ('a, 'c) action" where
  "attempt_loop c require op name left tries b =
     (let again = (\<lambda>b1.
            (case left of
               0 \<Rightarrow> (Inl (attempts_spent name tries), b1)
             | Suc rest \<Rightarrow>
                 (case rb_reconnect c b1 of
                    (Inl e, b2) \<Rightarrow> (Inl e, b2)
                  | (Inr _, b2) \<Rightarrow> attempt_loop c require op name rest (Suc tries) b2)))
      in case require b of
           (Inl (RedisBackendUnavailableError m), b1) \<Rightarrow> (Inl (RedisBackendUnavailableError m), b1)
         | (Inl _, b1) \<Rightarrow> again b1
         | (Inr _, b1) \<Rightarrow>
             (case op (rb_world b1) of
                (Some v, w) \<Rightarrow> (Inr v, b1\<lparr>rb_world := w\<rparr>)
              | (None, w) \<Rightarrow> again (b1\<lparr>rb_world := w\<rparr>)))"

text \<open>\<open>connect\<close> has made sure of the client before its attempts begin, and a reconnect that returns has a
  client again, so the client is there at each of them.\<close>

definition rb_connect :: "'c redis_setup \<Rightarrow> (unit, 'c) action" where
  "rb_connect c b =
     (if rb_connected b then (Inr (), b)
      else case ensure_client c b of
             (Inl e, b1) \<Rightarrow> (Inl e, b1)
           | (Inr _, b1) \<Rightarrow>
               (case attempt_loop c (\<lambda>b. (Inr (), b)) (rc_ping (rs_client c)) ''connect''
                       (nat (rs_attempts c)) 1 b1 of
                  (Inl e, b2) \<Rightarrow> (Inl e, b2)
                | (Inr _, b2) \<Rightarrow> (Inr (), b2\<lparr>rb_connected := True\<rparr>)))"

definition rb_require :: "'c redis_setup \<Rightarrow> (unit, 'c) action" where
  "rb_require c b =
     (if rb_client b then (Inr (), b)
      else case rb_connect c b of
             (Inl e, b1) \<Rightarrow> (Inl e, b1)
           | (Inr _, b1) \<Rightarrow>
               if rb_client b1 then (Inr (), b1)
               else (Inl (RedisBackendConnectionError ''Redis client was not initialized.'' 0), b1))"

definition rb_execute :: "'c redis_setup \<Rightarrow> ('c \<Rightarrow> 'a option \<times> 'c) \<Rightarrow> string \<Rightarrow> ('a, 'c) action" where
  "rb_execute c op name = attempt_loop c (rb_require c) op name (nat (rs_attempts c)) 1"

subsection \<open>Operations\<close>

definition rb_disconnect :: "'c redis_setup \<Rightarrow> (unit, 'c) action" where
  "rb_disconnect c b =
     (if \<not> rb_connected b \<and> \<not> rb_client b then (Inr (), b)
      else
        let b1 = b\<lparr>rb_connected := False, rb_client := rs_external c \<and> rb_client b\<rparr> in
        if rb_client b \<and> \<not> rs_external c
        then (case rc_close (rs_client c) (rb_world b1) of
                (None, w) \<Rightarrow> (Inl (RedisBackendOperationError ''Redis client close failed.'' 0), b1\<lparr>rb_world := w\<rparr>)
              | (Some _, w) \<Rightarrow> (Inr (), b1\<lparr>rb_world := w\<rparr>))
        else (Inr (), b1))"

definition rb_get :: "'c redis_setup \<Rightarrow> (string \<Rightarrow> 'v option) \<Rightarrow> string \<Rightarrow> ('v option, 'c) action" where
  "rb_get c loads k b =
     (case rb_execute c (rc_get (rs_client c) (redis_key c k)) ''get'' b of
        (Inl e, b1) \<Rightarrow> (Inl e, b1)
      | (Inr None, b1) \<Rightarrow> (Inr None, b1)
      | (Inr (Some raw), b1) \<Rightarrow>
          (case loads raw of
             None \<Rightarrow> (Inl (RedisBackendOperationError ''Redis returned invalid JSON data.'' 0), b1)
           | Some v \<Rightarrow> (Inr (Some v), b1)))"

definition rb_set :: "'c redis_setup \<Rightarrow> ('v \<Rightarrow> string option) \<Rightarrow> string \<Rightarrow> 'v \<Rightarrow> (unit, 'c) action" where
  "rb_set c dumps k v b =
     (case dumps v of
        None \<Rightarrow> (Inl (RedisBackendOperationError ''Redis backend values must be JSON-compatible.'' 0), b)
      | Some payload \<Rightarrow>
          (case rb_execute c (rc_set (rs_client c) (redis_key c k) payload) ''set'' b of
             (Inl e, b1) \<Rightarrow> (Inl e, b1)
           | (Inr _, b1) \<Rightarrow> (Inr (), b1)))"

definition rb_delete :: "'c redis_setup \<Rightarrow> string \<Rightarrow> (bool, 'c) action" where
  "rb_delete c k b =
     (case rb_execute c (rc_delete (rs_client c) (redis_key c k)) ''delete'' b of
        (Inl e, b1) \<Rightarrow> (Inl e, b1)
      | (Inr n, b1) \<Rightarrow> (Inr (n \<noteq> 0), b1))"

text \<open>The result of a publication are the handlers called, as for the local backend.\<close>

definition rb_publish ::
  "'c redis_setup \<Rightarrow> ('v \<Rightarrow> string option) \<Rightarrow> string \<Rightarrow> 'v \<Rightarrow> (nat list, 'c) action" where
  "rb_publish c dumps topic v b =
     (case dumps v of
        None \<Rightarrow> (Inl (RedisBackendOperationError ''Redis backend values must be JSON-compatible.'' 0), b)
      | Some payload \<Rightarrow>
          (case rb_execute c (rc_publish (rs_client c) (redis_topic c topic) payload) ''publish'' b of
             (Inl e, b1) \<Rightarrow> (Inl e, b1)
           | (Inr _, b1) \<Rightarrow> (Inr (dict_get (rb_subscribers b1) topic []), b1)))"

definition rb_subscribe :: "string \<Rightarrow> nat \<Rightarrow> 'c redis_backend \<Rightarrow> 'c redis_backend" where
  "rb_subscribe topic h b =
     (let hs = dict_get (rb_subscribers b) topic [] in
      b\<lparr>rb_subscribers := AList.update topic (if h \<in> set hs then hs else hs @ [h]) (rb_subscribers b)\<rparr>)"

definition rb_acquire :: "'c redis_setup \<Rightarrow> string \<Rightarrow> string \<Rightarrow> (bool, 'c) action" where
  "rb_acquire c name owner b =
     (case rb_execute c (rc_get (rs_client c) (redis_lock_key c name)) ''lock lookup'' b of
        (Inl e, b1) \<Rightarrow> (Inl e, b1)
      | (Inr current, b1) \<Rightarrow>
          if current = Some owner then (Inr True, b1)
          else rb_execute c (rc_set_nx (rs_client c) (redis_lock_key c name) owner (rs_lock_ttl c)) ''lock acquire'' b1)"

definition rb_release :: "'c redis_setup \<Rightarrow> string \<Rightarrow> string \<Rightarrow> (bool, 'c) action" where
  "rb_release c name owner b =
     (case rb_execute c (rc_get (rs_client c) (redis_lock_key c name)) ''lock lookup'' b of
        (Inl e, b1) \<Rightarrow> (Inl e, b1)
      | (Inr current, b1) \<Rightarrow>
          if current \<noteq> Some owner then (Inr False, b1)
          else
            (case rb_execute c (rc_delete (rs_client c) (redis_lock_key c name)) ''lock release'' b1 of
               (Inl e, b2) \<Rightarrow> (Inl e, b2)
             | (Inr n, b2) \<Rightarrow> (Inr (n \<noteq> 0), b2)))"

definition rb_probe :: "'c redis_setup \<Rightarrow> pyfloat option \<Rightarrow> (bool, 'c) action" where
  "rb_probe c timeout b =
     (if (case timeout of None \<Rightarrow> False | Some t \<Rightarrow> py_le t (Fin 0))
      then (Inl (Redis_ValueError ''Health probe timeout_seconds must be greater than zero.''), b)
      else case rb_connect c b of
             (Inl e, b1) \<Rightarrow> (Inl e, b1)
           | (Inr _, b1) \<Rightarrow> rb_execute c (rc_ping (rs_client c)) ''health probe'' b1)"

subsection \<open>The bound on attempts\<close>

declare attempt_loop.simps [simp del]

text \<open>The world after a failed attempt and the ping of the reconnection.\<close>

definition failed_round :: "'c redis_setup \<Rightarrow> ('c \<Rightarrow> 'a option \<times> 'c) \<Rightarrow> 'c \<Rightarrow> 'c" where
  "failed_round c op w = snd (rc_ping (rs_client c) (snd (op w)))"

lemma reconnect_external:
  assumes "rs_external c" "rb_client b" "fst (rc_ping (rs_client c) (rb_world b)) \<noteq> None"
  shows "rb_reconnect c b =
    (Inr (), b\<lparr>rb_connected := True, rb_world := snd (rc_ping (rs_client c) (rb_world b))\<rparr>)"
  using assms by (cases "rc_ping (rs_client c) (rb_world b)") (auto simp: rb_reconnect_def ensure_client_def)

lemma attempt_loop_rounds:
  assumes "rs_external c" "rb_client b" "\<forall>w. fst (rc_ping (rs_client c) w) \<noteq> None"
    and "\<forall>i < j. fst (op ((failed_round c op ^^ i) (rb_world b))) = None"
    and "fst (op ((failed_round c op ^^ j) (rb_world b))) = Some v"
  shows "fst (attempt_loop c (rb_require c) op name left tries b) =
      (if j \<le> left then Inr v else Inl (attempts_spent name (tries + left))) \<and>
    rb_world (snd (attempt_loop c (rb_require c) op name left tries b)) =
      snd (op ((failed_round c op ^^ (min j left)) (rb_world b)))"
  using assms(2,4,5)
proof (induction left arbitrary: b j tries)
  case (0 b j tries)
  then show ?case
    by (cases j; cases "op (rb_world b)") (auto simp: attempt_loop.simps Let_def rb_require_def)
next
  case (Suc left b j tries)
  show ?case
  proof (cases j)
    case 0
    with Suc.prems show ?thesis
      by (cases "op (rb_world b)") (simp add: attempt_loop.simps Let_def rb_require_def)
  next
    case (Suc i)
    let ?b = "b\<lparr>rb_world := snd (op (rb_world b))\<rparr>"
    let ?b' = "b\<lparr>rb_connected := True, rb_world := failed_round c op (rb_world b)\<rparr>"
    obtain w where op: "op (rb_world b) = (None, w)"
      using Suc.prems(2) Suc by (cases "op (rb_world b)") auto
    have loop: "attempt_loop c (rb_require c) op name (Suc left) tries b =
        attempt_loop c (rb_require c) op name left (Suc tries) ?b'"
      using reconnect_external [of c ?b] assms(1,3) Suc.prems(1)
      by (subst attempt_loop.simps) (simp add: Let_def rb_require_def op failed_round_def)
    have shift: "(failed_round c op ^^ n) (rb_world ?b') = (failed_round c op ^^ Suc n) (rb_world b)" for n
      by (simp add: funpow_swap1)
    have "\<forall>n < i. fst (op ((failed_round c op ^^ n) (rb_world ?b'))) = None"
      using Suc.prems(2) Suc unfolding shift by auto
    moreover have "fst (op ((failed_round c op ^^ i) (rb_world ?b'))) = Some v"
      using Suc.prems(3) Suc unfolding shift by simp
    ultimately have "fst (attempt_loop c (rb_require c) op name left (Suc tries) ?b') =
        (if i \<le> left then Inr v else Inl (attempts_spent name (Suc tries + left))) \<and>
      rb_world (snd (attempt_loop c (rb_require c) op name left (Suc tries) ?b')) =
        snd (op ((failed_round c op ^^ (min i left)) (rb_world ?b')))"
      using Suc.prems(1) by (intro Suc.IH) simp_all
    then show ?thesis unfolding loop shift using Suc by simp
  qed
qed

text \<open>C29: With a client that the caller supplied and whose pings never raise, an operation of the Redis
  backend that would succeed after \<open>j\<close> failures succeeds when \<open>j\<close> is within the reconnection budget, and
  otherwise raises after one attempt more than the budget; either way nothing further is sent to the
  server.\<close>

theorem redis_attempts_bounded:
  assumes "rs_external c" "rb_client b" "0 \<le> rs_attempts c" "\<forall>w. fst (rc_ping (rs_client c) w) \<noteq> None"
    and "\<forall>i < j. fst (op ((failed_round c op ^^ i) (rb_world b))) = None"
    and "fst (op ((failed_round c op ^^ j) (rb_world b))) = Some v"
  shows "fst (rb_execute c op name b) =
      (if int j \<le> rs_attempts c then Inr v else Inl (attempts_spent name (nat (rs_attempts c + 1)))) \<and>
    rb_world (snd (rb_execute c op name b)) =
      snd (op ((failed_round c op ^^ (min j (nat (rs_attempts c)))) (rb_world b)))"
proof -
  have "j \<le> nat (rs_attempts c) \<longleftrightarrow> int j \<le> rs_attempts c"
    and "nat (rs_attempts c + 1) = 1 + nat (rs_attempts c)" using assms(3) by auto
  then show ?thesis
    using attempt_loop_rounds [OF assms(1,2,4-6), of name "nat (rs_attempts c)" 1]
    by (simp add: rb_execute_def)
qed

text \<open>The condition on the pings is needed: a reconnection that fails gives up at once, whatever is left of
  the budget.\<close>

lemma failed_reconnect_ends_attempts:
  assumes "rs_external c" "rb_client b" "0 < rs_attempts c" "op (rb_world b) = (None, w)"
    and "rc_ping (rs_client c) w = (None, w')"
  shows "fst (rb_execute c op name b) = Inl (RedisBackendConnectionError ''Redis reconnect failed.'' 0)"
proof -
  from assms(3) obtain n where "nat (rs_attempts c) = Suc n" by (cases "nat (rs_attempts c)") auto
  with assms show ?thesis
    by (simp add: rb_execute_def attempt_loop.simps Let_def rb_require_def rb_reconnect_def ensure_client_def)
qed

subsection \<open>A reliable server\<close>

definition reliable :: "'c redis_client \<Rightarrow> ('c \<Rightarrow> string \<Rightarrow> string option) \<Rightarrow> bool" where
  "reliable rc data \<longleftrightarrow>
     (\<forall>w k. \<exists>w'. rc_get rc k w = (Some (data w k), w') \<and> data w' = data w) \<and>
     (\<forall>w k v. \<exists>w'. rc_set rc k v w = (Some True, w') \<and> data w' = (data w)(k \<mapsto> v)) \<and>
     (\<forall>w k v ttl. \<exists>w'. rc_set_nx rc k v ttl w = (Some (data w k = None), w') \<and>
        data w' = (if data w k = None then (data w)(k \<mapsto> v) else data w)) \<and>
     (\<forall>w k. \<exists>w'. rc_delete rc k w = (Some (of_bool (data w k \<noteq> None)), w') \<and> data w' = (data w)(k := None))"

definition usable_backend :: "'c redis_setup \<Rightarrow> 'c redis_backend \<Rightarrow> bool" where
  "usable_backend c b \<longleftrightarrow> rs_external c \<and> rb_client b"

lemma execute_ok:
  assumes "usable_backend c b" "op (rb_world b) = (Some v, w)"
  shows "rb_execute c op name b = (Inr v, b\<lparr>rb_world := w\<rparr>)"
  using assms by (simp add: rb_execute_def attempt_loop.simps Let_def rb_require_def usable_backend_def)

lemma usable_world [simp]: "usable_backend c (b\<lparr>rb_world := w\<rparr>) = usable_backend c b"
  by (simp add: usable_backend_def)

lemma codec_key_neq [simp]:
  "redis_key c k \<noteq> redis_lock_key c n" "redis_lock_key c n \<noteq> redis_key c k"
  "redis_key c k = redis_key c k' \<longleftrightarrow> k = k'" "redis_lock_key c k = redis_lock_key c k' \<longleftrightarrow> k = k'"
  by (auto simp: redis_key_def redis_lock_key_def)

text \<open>One attempt of each call.\<close>

lemma exec_get:
  assumes "reliable (rs_client c) data" "usable_backend c b"
  shows "\<exists>w. rb_execute c (rc_get (rs_client c) k) name b = (Inr (data (rb_world b) k), b\<lparr>rb_world := w\<rparr>) \<and>
    data w = data (rb_world b)"
proof -
  from assms(1) obtain w where "rc_get (rs_client c) k (rb_world b) = (Some (data (rb_world b) k), w)"
    "data w = data (rb_world b)" unfolding reliable_def by blast
  with execute_ok [OF assms(2), of "rc_get (rs_client c) k"] show ?thesis by blast
qed

lemma exec_set:
  assumes "reliable (rs_client c) data" "usable_backend c b"
  shows "\<exists>w. rb_execute c (rc_set (rs_client c) k v) name b = (Inr True, b\<lparr>rb_world := w\<rparr>) \<and>
    data w = (data (rb_world b))(k \<mapsto> v)"
proof -
  from assms(1) obtain w where "rc_set (rs_client c) k v (rb_world b) = (Some True, w)"
    "data w = (data (rb_world b))(k \<mapsto> v)" unfolding reliable_def by blast
  with execute_ok [OF assms(2), of "rc_set (rs_client c) k v"] show ?thesis by blast
qed

lemma exec_set_nx:
  assumes "reliable (rs_client c) data" "usable_backend c b"
  shows "\<exists>w. rb_execute c (rc_set_nx (rs_client c) k v ttl) name b =
      (Inr (data (rb_world b) k = None), b\<lparr>rb_world := w\<rparr>) \<and>
    data w = (if data (rb_world b) k = None then (data (rb_world b))(k \<mapsto> v) else data (rb_world b))"
proof -
  from assms(1) obtain w where "rc_set_nx (rs_client c) k v ttl (rb_world b) = (Some (data (rb_world b) k = None), w)"
    "data w = (if data (rb_world b) k = None then (data (rb_world b))(k \<mapsto> v) else data (rb_world b))"
    unfolding reliable_def by blast
  with execute_ok [OF assms(2), of "rc_set_nx (rs_client c) k v ttl"] show ?thesis by blast
qed

lemma exec_delete:
  assumes "reliable (rs_client c) data" "usable_backend c b"
  shows "\<exists>w. rb_execute c (rc_delete (rs_client c) k) name b =
      (Inr (of_bool (data (rb_world b) k \<noteq> None)), b\<lparr>rb_world := w\<rparr>) \<and>
    data w = (data (rb_world b))(k := None)"
proof -
  from assms(1) obtain w where "rc_delete (rs_client c) k (rb_world b) = (Some (of_bool (data (rb_world b) k \<noteq> None)), w)"
    "data w = (data (rb_world b))(k := None)" unfolding reliable_def by blast
  with execute_ok [OF assms(2), of "rc_delete (rs_client c) k"] show ?thesis by blast
qed

text \<open>The operations on a reliable server.\<close>

lemma rb_get_ok:
  assumes "reliable (rs_client c) data" "usable_backend c b"
    "\<And>raw. data (rb_world b) (redis_key c k) = Some raw \<Longrightarrow> loads raw \<noteq> None"
  shows "\<exists>w. rb_get c loads k b = (Inr (Option.bind (data (rb_world b) (redis_key c k)) loads), b\<lparr>rb_world := w\<rparr>) \<and>
    data w = data (rb_world b)"
proof -
  from exec_get [OF assms(1,2)] obtain w where
    w: "rb_execute c (rc_get (rs_client c) (redis_key c k)) ''get'' b =
      (Inr (data (rb_world b) (redis_key c k)), b\<lparr>rb_world := w\<rparr>)" "data w = data (rb_world b)" by blast
  then show ?thesis
    using assms(3) by (cases "data (rb_world b) (redis_key c k)") (auto simp: rb_get_def)
qed

lemma rb_set_ok:
  assumes "reliable (rs_client c) data" "usable_backend c b" "dumps v = Some s"
  shows "\<exists>w. rb_set c dumps k v b = (Inr (), b\<lparr>rb_world := w\<rparr>) \<and> data w = (data (rb_world b))(redis_key c k \<mapsto> s)"
proof -
  from exec_set [OF assms(1,2)] obtain w where
    w: "rb_execute c (rc_set (rs_client c) (redis_key c k) s) ''set'' b = (Inr True, b\<lparr>rb_world := w\<rparr>)"
      "data w = (data (rb_world b))(redis_key c k \<mapsto> s)" by blast
  then show ?thesis using assms(3) by (simp add: rb_set_def) blast
qed

lemma rb_delete_ok:
  assumes "reliable (rs_client c) data" "usable_backend c b"
  shows "\<exists>w. rb_delete c k b = (Inr (data (rb_world b) (redis_key c k) \<noteq> None), b\<lparr>rb_world := w\<rparr>) \<and>
    data w = (data (rb_world b))(redis_key c k := None)"
proof -
  from exec_delete [OF assms(1,2)] obtain w where
    w: "rb_execute c (rc_delete (rs_client c) (redis_key c k)) ''delete'' b =
        (Inr (of_bool (data (rb_world b) (redis_key c k) \<noteq> None)), b\<lparr>rb_world := w\<rparr>)"
      "data w = (data (rb_world b))(redis_key c k := None)" by blast
  then show ?thesis by (simp add: rb_delete_def) blast
qed

lemma rb_acquire_ok:
  assumes "reliable (rs_client c) data" "usable_backend c b" "h = data (rb_world b) (redis_lock_key c n)"
  shows "\<exists>w. rb_acquire c n u b = (Inr (h = None \<or> h = Some u), b\<lparr>rb_world := w\<rparr>) \<and>
    data w = (if h = None then (data (rb_world b))(redis_lock_key c n \<mapsto> u) else data (rb_world b))"
proof -
  from exec_get [OF assms(1,2)] obtain w where
    w: "rb_execute c (rc_get (rs_client c) (redis_lock_key c n)) ''lock lookup'' b = (Inr h, b\<lparr>rb_world := w\<rparr>)"
      "data w = data (rb_world b)" unfolding assms(3) by blast
  from exec_set_nx [OF assms(1), of "b\<lparr>rb_world := w\<rparr>" "redis_lock_key c n" u "rs_lock_ttl c" "''lock acquire''"]
  obtain w' where w': "rb_execute c (rc_set_nx (rs_client c) (redis_lock_key c n) u (rs_lock_ttl c)) ''lock acquire''
        (b\<lparr>rb_world := w\<rparr>) = (Inr (h = None), b\<lparr>rb_world := w'\<rparr>)"
      "data w' = (if h = None then (data w)(redis_lock_key c n \<mapsto> u) else data w)"
    using assms(2,3) by (auto simp: w(2))
  then show ?thesis using w by (auto simp: rb_acquire_def)
qed

lemma rb_release_ok:
  assumes "reliable (rs_client c) data" "usable_backend c b" "h = data (rb_world b) (redis_lock_key c n)"
  shows "\<exists>w. rb_release c n u b = (Inr (h = Some u), b\<lparr>rb_world := w\<rparr>) \<and>
    data w = (if h = Some u then (data (rb_world b))(redis_lock_key c n := None) else data (rb_world b))"
proof -
  from exec_get [OF assms(1,2)] obtain w where
    w: "rb_execute c (rc_get (rs_client c) (redis_lock_key c n)) ''lock lookup'' b = (Inr h, b\<lparr>rb_world := w\<rparr>)"
      "data w = data (rb_world b)" unfolding assms(3) by blast
  from exec_delete [OF assms(1), of "b\<lparr>rb_world := w\<rparr>" "redis_lock_key c n" "''lock release''"]
  obtain w' where w': "rb_execute c (rc_delete (rs_client c) (redis_lock_key c n)) ''lock release'' (b\<lparr>rb_world := w\<rparr>) =
        (Inr (of_bool (h \<noteq> None)), b\<lparr>rb_world := w'\<rparr>)"
      "data w' = (data w)(redis_lock_key c n := None)"
    using assms(2,3) by (auto simp: w(2))
  then show ?thesis using w by (auto simp: rb_release_def)
qed

subsection \<open>The local and the Redis backend agree\<close>

datatype 'v store_op =
    St_set string 'v
  | St_get string
  | St_delete string
  | St_acquire string string
  | St_release string string

datatype 'v answer = An_done | An_value "'v option" | An_bool bool | An_raised redis_error

fun local_answer :: "'v store_op \<Rightarrow> 'v local_backend \<Rightarrow> 'v answer \<times> 'v local_backend" where
  "local_answer (St_set k v) b = (An_done, lb_set k (Some v) b)"
| "local_answer (St_get k) b = (An_value (lb_get k b), b)"
| "local_answer (St_delete k) b = (case lb_delete k b of (r, b') \<Rightarrow> (An_bool r, b'))"
| "local_answer (St_acquire n u) b = (case lb_acquire n u b of (r, b') \<Rightarrow> (An_bool r, b'))"
| "local_answer (St_release n u) b = (case lb_release n u b of (r, b') \<Rightarrow> (An_bool r, b'))"

definition answered :: "('a \<Rightarrow> 'v answer) \<Rightarrow> (redis_error + 'a) \<times> 's \<Rightarrow> 'v answer \<times> 's" where
  "answered f r = ((case fst r of Inl e \<Rightarrow> An_raised e | Inr x \<Rightarrow> f x), snd r)"

fun redis_answer ::
  "'c redis_setup \<Rightarrow> ('v \<Rightarrow> string option) \<Rightarrow> (string \<Rightarrow> 'v option) \<Rightarrow> 'v store_op \<Rightarrow> 'c redis_backend \<Rightarrow>
     'v answer \<times> 'c redis_backend" where
  "redis_answer c dumps loads (St_set k v) b = answered (\<lambda>_. An_done) (rb_set c dumps k v b)"
| "redis_answer c dumps loads (St_get k) b = answered An_value (rb_get c loads k b)"
| "redis_answer c dumps loads (St_delete k) b = answered An_bool (rb_delete c k b)"
| "redis_answer c dumps loads (St_acquire n u) b = answered An_bool (rb_acquire c n u b)"
| "redis_answer c dumps loads (St_release n u) b = answered An_bool (rb_release c n u b)"

fun answers :: "('o \<Rightarrow> 's \<Rightarrow> 'a \<times> 's) \<Rightarrow> 'o list \<Rightarrow> 's \<Rightarrow> 'a list" where
  "answers f [] s = []"
| "answers f (x # xs) s = (case f x s of (a, s') \<Rightarrow> a # answers f xs s')"

text \<open>The codec restores the values of \<open>V\<close>; JSON does not restore every Python value.\<close>

definition codec :: "'v set \<Rightarrow> ('v \<Rightarrow> string option) \<Rightarrow> (string \<Rightarrow> 'v option) \<Rightarrow> bool" where
  "codec V dumps loads \<longleftrightarrow> (\<forall>v \<in> V. \<exists>s. dumps v = Some s \<and> loads s = Some v)"

lemma codecD: "codec V dumps loads \<Longrightarrow> v \<in> V \<Longrightarrow> dumps v = Some s \<Longrightarrow> loads s = Some v"
  unfolding codec_def by (metis option.inject)

definition values_set :: "'v store_op list \<Rightarrow> 'v set" where
  "values_set xs = {v. \<exists>k. St_set k v \<in> set xs}"

definition same_content ::
  "'v set \<Rightarrow> 'c redis_setup \<Rightarrow> ('v \<Rightarrow> string option) \<Rightarrow> (string \<Rightarrow> string option) \<Rightarrow> 'v local_backend \<Rightarrow> bool" where
  "same_content V c dumps m lb \<longleftrightarrow>
     (\<forall>k. map_of (lb_values lb) k \<noteq> Some None \<and>
        (\<forall>v. dict_get (lb_values lb) k None = Some v \<longrightarrow> v \<in> V) \<and>
        m (redis_key c k) = Option.bind (dict_get (lb_values lb) k None) dumps) \<and>
     (\<forall>n. m (redis_lock_key c n) = map_of (lb_locks lb) n)"

lemma same_answer:
  assumes rel: "reliable (rs_client c) data" and ok: "usable_backend c b" and cd: "codec V dumps loads"
    and new: "\<And>k v. x = St_set k v \<Longrightarrow> v \<in> V"
    and same: "same_content V c dumps (data (rb_world b)) lb"
  shows "\<exists>a w lb'. redis_answer c dumps loads x b = (a, b\<lparr>rb_world := w\<rparr>) \<and> local_answer x lb = (a, lb') \<and>
    same_content V c dumps (data w) lb'"
proof (cases x)
  case (St_set k v)
  from cd new [OF St_set] obtain s where s: "dumps v = Some s" unfolding codec_def by blast
  from rb_set_ok [where dumps = dumps, OF rel ok s, of k] obtain w where
    "rb_set c dumps k v b = (Inr (), b\<lparr>rb_world := w\<rparr>)" "data w = (data (rb_world b))(redis_key c k \<mapsto> s)" by blast
  with same s new [OF St_set] show ?thesis
    by (auto simp: St_set answered_def lb_set_def same_content_def dict_get_def intro!: exI [of _ w])
next
  case (St_get k)
  let ?d = "data (rb_world b) (redis_key c k)"
  have d: "?d = Option.bind (lb_get k lb) dumps" using same by (simp add: same_content_def lb_get_def)
  have V: "v \<in> V" if "lb_get k lb = Some v" for v
    using same that by (simp add: same_content_def lb_get_def)
  have present: "loads raw \<noteq> None" if "?d = Some raw" for raw
  proof (cases "lb_get k lb")
    case (Some v)
    with cd that d V show ?thesis by (auto dest: codecD)
  qed (use that d in simp)
  from rb_get_ok [where loads = loads, OF rel ok present] obtain w where
    w: "rb_get c loads k b = (Inr (Option.bind ?d loads), b\<lparr>rb_world := w\<rparr>)" "data w = data (rb_world b)" by blast
  have "Option.bind ?d loads = lb_get k lb"
  proof (cases "lb_get k lb")
    case (Some v)
    from cd V [OF Some] obtain s where "dumps v = Some s" "loads s = Some v"
      unfolding codec_def by blast
    with Some d show ?thesis by simp
  qed (use d in simp)
  with w same show ?thesis by (auto simp: St_get answered_def intro!: exI [of _ w])
next
  case (St_delete k)
  from rb_delete_ok [OF rel ok, of k] obtain w where
    w: "rb_delete c k b = (Inr (data (rb_world b) (redis_key c k) \<noteq> None), b\<lparr>rb_world := w\<rparr>)"
    "data w = (data (rb_world b))(redis_key c k := None)" by blast
  have "data (rb_world b) (redis_key c k) \<noteq> None \<longleftrightarrow> dict_get (lb_values lb) k None \<noteq> None"
  proof (cases "dict_get (lb_values lb) k None")
    case (Some v)
    with same have v: "v \<in> V" "data (rb_world b) (redis_key c k) = dumps v"
      by (simp_all add: same_content_def)
    with cd Some show ?thesis unfolding codec_def by fastforce
  qed (use same in \<open>simp add: same_content_def\<close>)
  with w same show ?thesis by (auto simp: St_delete answered_def lb_delete_def same_content_def intro!: exI [of _ w])
next
  case (St_acquire n u)
  have h: "map_of (lb_locks lb) n = data (rb_world b) (redis_lock_key c n)" using same by (simp add: same_content_def)
  from rb_acquire_ok [OF rel ok h, of u] obtain w where
    w: "rb_acquire c n u b = (Inr (map_of (lb_locks lb) n = None \<or> map_of (lb_locks lb) n = Some u), b\<lparr>rb_world := w\<rparr>)"
    "data w = (if map_of (lb_locks lb) n = None then (data (rb_world b))(redis_lock_key c n \<mapsto> u) else data (rb_world b))"
    by blast
  with same show ?thesis
    by (auto simp: St_acquire answered_def lb_acquire_def same_content_def intro!: exI [of _ w] simp del: map_of_eq_Some_iff split: option.split)
next
  case (St_release n u)
  have h: "map_of (lb_locks lb) n = data (rb_world b) (redis_lock_key c n)" using same by (simp add: same_content_def)
  from rb_release_ok [OF rel ok h, of u] obtain w where
    w: "rb_release c n u b = (Inr (map_of (lb_locks lb) n = Some u), b\<lparr>rb_world := w\<rparr>)"
    "data w = (if map_of (lb_locks lb) n = Some u then (data (rb_world b))(redis_lock_key c n := None) else data (rb_world b))"
    by blast
  with same show ?thesis
    by (auto simp: St_release answered_def lb_release_def same_content_def intro!: exI [of _ w] simp del: map_of_eq_Some_iff)
qed

text \<open>C28: On a reliable, initially empty server, with a JSON codec that restores the values that are set,
  none of which is None, the Redis backend answers every sequence of set, get, delete, acquire and
  release exactly as the in-memory backend does, and raises nothing.\<close>

theorem redis_agrees_with_local:
  fixes c :: "'c redis_setup" and dumps :: "'v \<Rightarrow> string option"
  assumes "reliable (rs_client c) data" "usable_backend c b" "codec (values_set xs) dumps loads"
    and "\<forall>k. data (rb_world b) k = None"
  shows "answers (redis_answer c dumps loads) xs b = answers local_answer xs new_backend"
proof -
  let ?V = "values_set xs"
  have "answers (redis_answer c dumps loads) ys b = answers local_answer ys lb"
    if "usable_backend c b" "same_content ?V c dumps (data (rb_world b)) lb" "set ys \<subseteq> set xs" for b lb ys
    using that
  proof (induction ys arbitrary: b lb)
    case (Cons x ys)
    have new: "v \<in> ?V" if "x = St_set k v" for k v
      using that Cons.prems(3) by (auto simp: values_set_def)
    from same_answer [OF assms(1) Cons.prems(1) assms(3) _ Cons.prems(2), of x] new obtain a w lb' where
      s: "redis_answer c dumps loads x b = (a, b\<lparr>rb_world := w\<rparr>)" "local_answer x lb = (a, lb')"
        "same_content ?V c dumps (data w) lb'" by blast
    have "answers (redis_answer c dumps loads) ys (b\<lparr>rb_world := w\<rparr>) = answers local_answer ys lb'"
      using Cons.prems(1,3) s(3) by (intro Cons.IH) simp_all
    with s show ?case by simp
  qed simp
  moreover have "same_content ?V c dumps (data (rb_world b)) new_backend"
    using assms(4) by (simp add: same_content_def new_backend_def dict_get_def)
  ultimately show ?thesis using assms(2) by blast
qed

text \<open>The values that agree are those other than None: a stored None is deleted with True here, with False
  by the local backend (\<open>delete_none_unreported\<close>).\<close>

subsection \<open>Leases\<close>

text \<open>An acquisition by the current owner sends a single GET: the lease of the lock is not extended. The
  renewal of a handle over this backend moves the expiry it reports, not the one the server applies.\<close>

lemma renewal_keeps_lease:
  assumes "usable_backend c b" "rc_get (rs_client c) (redis_lock_key c n) (rb_world b) = (Some (Some u), w)"
  shows "rb_acquire c n u b = (Inr True, b\<lparr>rb_world := w\<rparr>)"
proof -
  have "rb_execute c (rc_get (rs_client c) (redis_lock_key c n)) ''lock lookup'' b = (Inr (Some u), b\<lparr>rb_world := w\<rparr>)"
    by (rule execute_ok [where op = "rc_get (rs_client c) (redis_lock_key c n)"]) (use assms in simp_all)
  then show ?thesis by (simp add: rb_acquire_def)
qed

text \<open>The release is two calls: if the lease runs out after the GET and another owner takes the lock before
  the DELETE, the lock of the other owner is deleted and the release reports success: nothing is asked
  of the key that the DELETE removes.\<close>

lemma release_can_free_foreign_lock:
  assumes "usable_backend c b" "rc_get (rs_client c) (redis_lock_key c n) (rb_world b) = (Some (Some u), w)"
    and "rc_delete (rs_client c) (redis_lock_key c n) w = (Some 1, w')"
  shows "rb_release c n u b = (Inr True, b\<lparr>rb_world := w'\<rparr>)"
proof -
  have "rb_execute c (rc_get (rs_client c) (redis_lock_key c n)) ''lock lookup'' b = (Inr (Some u), b\<lparr>rb_world := w\<rparr>)"
    by (rule execute_ok [where op = "rc_get (rs_client c) (redis_lock_key c n)"]) (use assms in simp_all)
  moreover have "rb_execute c (rc_delete (rs_client c) (redis_lock_key c n)) ''lock release'' (b\<lparr>rb_world := w\<rparr>) =
      (Inr 1, b\<lparr>rb_world := w'\<rparr>)"
    using execute_ok [where op = "rc_delete (rs_client c) (redis_lock_key c n)" and b = "b\<lparr>rb_world := w\<rparr>"]
      assms(1,3) by simp
  ultimately show ?thesis by (simp add: rb_release_def)
qed


subsection \<open>A server in memory\<close>

definition memory_client :: "(string \<Rightarrow> string option) redis_client" where
  "memory_client =
     \<lparr>rc_ping = \<lambda>w. (Some True, w),
      rc_get = \<lambda>k w. (Some (w k), w),
      rc_set = \<lambda>k v w. (Some True, w(k \<mapsto> v)),
      rc_set_nx = \<lambda>k v ttl w. (Some (w k = None), if w k = None then w(k \<mapsto> v) else w),
      rc_delete = \<lambda>k w. (Some (of_bool (w k \<noteq> None)), w(k := None)),
      rc_publish = \<lambda>t v w. (Some 0, w),
      rc_close = \<lambda>w. (Some (), w)\<rparr>"

definition memory_setup :: "(string \<Rightarrow> string option) redis_setup" where
  "memory_setup = \<lparr>rs_client = memory_client, rs_create = \<lambda>w. (None, w), rs_namespace = ''tkai'',
     rs_attempts = 1, rs_lock_ttl = 30, rs_external = True\<rparr>"

lemma memory_reliable: "reliable (rs_client memory_setup) (\<lambda>w. w)"
  by (simp add: reliable_def memory_setup_def memory_client_def)

lemma memory_usable: "usable_backend memory_setup (new_redis_backend memory_setup w)"
  by (simp add: usable_backend_def memory_setup_def new_redis_backend_def)

theorem redis_agrees_with_local_witness:
  "answers (redis_answer memory_setup Some Some)
     [St_set ''k'' ''v'', St_get ''k'', St_acquire ''l'' ''a'', St_acquire ''l'' ''b'', St_delete ''k''] 
     (new_redis_backend memory_setup (\<lambda>_. None)) =
   [An_done, An_value (Some ''v''), An_bool True, An_bool False, An_bool True]"
proof -
  have "codec V Some Some" for V :: "string set" by (simp add: codec_def)
  then have e: "answers (redis_answer memory_setup Some Some) xs (new_redis_backend memory_setup (\<lambda>_. None)) =
      answers local_answer xs new_backend" for xs
    by (rule redis_agrees_with_local [OF memory_reliable memory_usable]) (simp add: new_redis_backend_def)
  show ?thesis unfolding e
    by (simp add: new_backend_def lb_set_def lb_get_def lb_acquire_def lb_delete_def dict_get_def)
qed

text \<open>An operation that fails once.\<close>

definition flaky_get :: "nat \<Rightarrow> nat option \<times> nat" where
  "flaky_get n = (if n = 0 then None else Some n, Suc n)"

definition counting_setup :: "int \<Rightarrow> nat redis_setup" where
  "counting_setup n =
     \<lparr>rs_client = \<lparr>rc_ping = \<lambda>w. (Some True, w), rc_get = \<lambda>k w. (None, w), rc_set = \<lambda>k v w. (None, w),
        rc_set_nx = \<lambda>k v ttl w. (None, w), rc_delete = \<lambda>k w. (None, w), rc_publish = \<lambda>t v w. (None, w),
        rc_close = \<lambda>w. (Some (), w)\<rparr>,
      rs_create = \<lambda>w. (None, w), rs_namespace = ''tkai'', rs_attempts = n, rs_lock_ttl = 30, rs_external = True\<rparr>"

theorem redis_attempts_bounded_witness:
  "fst (rb_execute (counting_setup 1) flaky_get ''get'' (new_redis_backend (counting_setup 1) 0)) = Inr 1 \<and>
   fst (rb_execute (counting_setup 0) flaky_get ''get'' (new_redis_backend (counting_setup 0) 0)) =
     Inl (attempts_spent ''get'' 1)"
proof -
  let ?b = "\<lambda>n. new_redis_backend (counting_setup n) 0"
  have c: "rs_external (counting_setup n)" "rb_client (?b n)" "rs_attempts (counting_setup n) = n"
    "\<forall>w. fst (rc_ping (rs_client (counting_setup n)) w) \<noteq> None" for n
    by (simp_all add: counting_setup_def new_redis_backend_def)
  have r: "failed_round (counting_setup n) flaky_get w = Suc w" for n w
    by (simp add: failed_round_def counting_setup_def flaky_get_def)
  have "fst (rb_execute (counting_setup n) flaky_get ''get'' (?b n)) =
      (if int 1 \<le> n then Inr 1 else Inl (attempts_spent ''get'' (nat (n + 1))))" if "0 \<le> n" for n
    using redis_attempts_bounded [where op = flaky_get and j = 1 and v = 1 and name = "''get''", OF c(1,2) _ c(4), of n] that
    by (simp add: c(3) r) (simp add: flaky_get_def new_redis_backend_def c(3))
  from this [of 1] this [of 0] show ?thesis by simp
qed

end
