(* ===== verification/Dist_Remote_Services.thy ===== *)
theory Dist_Remote_Services
  imports Dist_Redis "HOL-Library.Countable"
begin

text \<open>
  The service registry over a Redis backend (\<open>RedisServiceRegistry\<close> of
  \<open>src/src/tkai/distributed/discovery.py\<close>): instance records and one index per service are kept as
  JSON values of the backend, and the registry remembers the services it has seen. An operation is a
  function of the state that may raise; \<open>and_then\<close> is the sequence of two. Where the code iterates over a
  set, whose order Python leaves open, the model takes the sorted order. The registry is shown to keep
  the contract of Dist_Discovery on a reliable server, for services whose name has no colon.
\<close>

subsection \<open>Setting and state\<close>

datatype remote_error = From_backend redis_error | From_registry service_error

record 'c remote =
  rm_redis :: "'c redis_setup"
  rm_namespace :: string
  rm_dumps :: "json \<Rightarrow> string option"
  rm_loads :: "string \<Rightarrow> json option"
  rm_format :: "time \<Rightarrow> string"
  rm_parse :: "string \<Rightarrow> time option"
  rm_text :: "json \<Rightarrow> string"

record 'c remote_services =
  rv_known :: "string set"
  rv_backend :: "'c redis_backend"

definition new_remote_services :: "pyfloat \<Rightarrow> 'c remote \<Rightarrow> 'c redis_backend \<Rightarrow> service_error + 'c remote_services" where
  "new_remote_services interval m b =
     (if rm_namespace m = '''' then Inl (Sv_ValueError ''Service registry namespace must not be empty.'')
      else if py_le interval (Fin 0)
      then Inl (Sv_ValueError ''cleanup_interval_seconds must be greater than zero.'')
      else Inr \<lparr>rv_known = {}, rv_backend = b\<rparr>)"

type_synonym ('a, 'c) remote_action = "'c remote_services \<Rightarrow> (remote_error + 'a) \<times> 'c remote_services"

definition and_then :: "('a, 'c) remote_action \<Rightarrow> ('a \<Rightarrow> ('b, 'c) remote_action) \<Rightarrow> ('b, 'c) remote_action" where
  "and_then f g s = (case f s of (Inl e, s') \<Rightarrow> (Inl e, s') | (Inr x, s') \<Rightarrow> g x s')"

definition give :: "'a \<Rightarrow> ('a, 'c) remote_action" where
  "give x s = (Inr x, s)"

definition fail :: "service_error \<Rightarrow> ('a, 'c) remote_action" where
  "fail e s = (Inl (From_registry e), s)"

definition on_backend :: "('a, 'c) action \<Rightarrow> ('a, 'c) remote_action" where
  "on_backend f s =
     (case f (rv_backend s) of
        (Inl e, b) \<Rightarrow> (Inl (From_backend e), s\<lparr>rv_backend := b\<rparr>)
      | (Inr x, b) \<Rightarrow> (Inr x, s\<lparr>rv_backend := b\<rparr>))"

definition remember :: "(string set \<Rightarrow> string set) \<Rightarrow> (unit, 'c) remote_action" where
  "remember f s = (Inr (), s\<lparr>rv_known := f (rv_known s)\<rparr>)"

fun each :: "('x \<Rightarrow> ('a, 'c) remote_action) \<Rightarrow> 'x list \<Rightarrow> ('a list, 'c) remote_action" where
  "each f [] = give []"
| "each f (x # xs) = and_then (f x) (\<lambda>y. and_then (each f xs) (\<lambda>ys. give (y # ys)))"

subsection \<open>Records and indexes\<close>

definition index_key :: "'c remote \<Rightarrow> string \<Rightarrow> string" where
  "index_key m a = rm_namespace m @ '':index:'' @ a"

definition instance_key :: "'c remote \<Rightarrow> string \<Rightarrow> string \<Rightarrow> string" where
  "instance_key m a k = rm_namespace m @ '':instance:'' @ a @ '':'' @ k"

definition rv_get :: "'c remote \<Rightarrow> string \<Rightarrow> (json option, 'c) remote_action" where
  "rv_get m k = on_backend (rb_get (rm_redis m) (rm_loads m) k)"

definition rv_put :: "'c remote \<Rightarrow> string \<Rightarrow> json \<Rightarrow> (unit, 'c) remote_action" where
  "rv_put m k v = on_backend (rb_set (rm_redis m) (rm_dumps m) k v)"

definition rv_del :: "'c remote \<Rightarrow> string \<Rightarrow> (bool, 'c) remote_action" where
  "rv_del m k = on_backend (rb_delete (rm_redis m) k)"

definition index_set :: "json option \<Rightarrow> string set" where
  "index_set v =
     (case v of None \<Rightarrow> {} | Some j \<Rightarrow> (case string_list j of None \<Rightarrow> {} | Some l \<Rightarrow> set l))"

definition rv_index :: "'c remote \<Rightarrow> string \<Rightarrow> (string set, 'c) remote_action" where
  "rv_index m a = and_then (rv_get m (index_key m a)) (\<lambda>v. give (index_set v))"

definition rv_save_index :: "'c remote \<Rightarrow> string \<Rightarrow> string set \<Rightarrow> (unit, 'c) remote_action" where
  "rv_save_index m a index = rv_put m (index_key m a) (JList (map JString (sorted_list_of_set index)))"

definition record_of :: "'c remote \<Rightarrow> instance_data \<Rightarrow> json" where
  "record_of m i = JObject (instance_to_dict (rm_format m) i)"

definition rv_read :: "'c remote \<Rightarrow> string \<Rightarrow> string \<Rightarrow> (instance_data option, 'c) remote_action" where
  "rv_read m a k = and_then (rv_get m (instance_key m a k)) (\<lambda>v.
     case v of
       Some (JObject d) \<Rightarrow>
         (case instance_from_dict (rm_parse m) (rm_text m) d of
            Inl e \<Rightarrow> fail e
          | Inr i \<Rightarrow> give (Some i))
     | _ \<Rightarrow> give None)"

subsection \<open>Operations\<close>

definition rv_register :: "'c remote \<Rightarrow> instance_data \<Rightarrow> (unit, 'c) remote_action" where
  "rv_register m i =
     and_then (rv_put m (instance_key m (si_service i) (si_id i)) (record_of m i)) (\<lambda>_.
     and_then (rv_index m (si_service i)) (\<lambda>index.
     and_then (rv_save_index m (si_service i) (insert (si_id i) index)) (\<lambda>_.
     remember (insert (si_service i)))))"

definition rv_deregister :: "'c remote \<Rightarrow> string \<Rightarrow> string \<Rightarrow> (bool, 'c) remote_action" where
  "rv_deregister m a k =
     and_then (rv_index m a) (\<lambda>index.
     and_then (if k \<in> index then rv_save_index m a (index - {k}) else give ()) (\<lambda>_.
     and_then (rv_del m (instance_key m a k)) (\<lambda>_.
     and_then (if index - {k} = {} then remember (\<lambda>s. s - {a}) else give ()) (\<lambda>_.
     give (k \<in> index)))))"

definition rv_renew :: "'c remote \<Rightarrow> string \<Rightarrow> string \<Rightarrow> pyfloat \<Rightarrow> time \<Rightarrow> (instance_data, 'c) remote_action" where
  "rv_renew m a k ttl now =
     and_then (rv_read m a k) (\<lambda>i.
     case i of
       None \<Rightarrow> fail (ServiceInstanceNotFoundError a k)
     | Some i \<Rightarrow>
         (case renewed ttl now i of
            Inl e \<Rightarrow> fail e
          | Inr i' \<Rightarrow> and_then (rv_put m (instance_key m a k) (record_of m i')) (\<lambda>_. give i')))"

fun purge_ids ::
  "'c remote \<Rightarrow> time \<Rightarrow> string \<Rightarrow> string list \<Rightarrow> string set \<times> nat \<Rightarrow> (string set \<times> nat, 'c) remote_action" where
  "purge_ids m now a [] (index, n) = give (index, n)"
| "purge_ids m now a (k # ks) (index, n) =
     and_then (rv_read m a k) (\<lambda>i.
     if (case i of None \<Rightarrow> True | Some x \<Rightarrow> is_expired now x)
     then and_then (rv_del m (instance_key m a k)) (\<lambda>_. purge_ids m now a ks (index - {k}, Suc n))
     else purge_ids m now a ks (index, n))"

definition purge_service :: "'c remote \<Rightarrow> time \<Rightarrow> string \<Rightarrow> (nat, 'c) remote_action" where
  "purge_service m now a =
     and_then (rv_index m a) (\<lambda>index.
     and_then (purge_ids m now a (sorted_list_of_set index) (index, 0)) (\<lambda>(index', n).
     and_then (rv_save_index m a index') (\<lambda>_.
     and_then (if index' = {} then remember (\<lambda>s. s - {a}) else give ()) (\<lambda>_.
     give n))))"

definition rv_cleanup :: "'c remote \<Rightarrow> time \<Rightarrow> (nat, 'c) remote_action" where
  "rv_cleanup m now s =
     and_then (each (purge_service m now) (sorted_list_of_set (rv_known s))) (\<lambda>ns. give (sum_list ns)) s"

definition rv_instances :: "'c remote \<Rightarrow> string \<Rightarrow> (instance_data list, 'c) remote_action" where
  "rv_instances m a =
     and_then (rv_index m a) (\<lambda>index.
     and_then (each (rv_read m a) (sorted_list_of_set index)) (\<lambda>is.
     give (List.map_filter (\<lambda>i. i) is)))"

definition rv_lookup ::
  "'c remote \<Rightarrow> string \<Rightarrow> string option \<Rightarrow> string option \<Rightarrow> string fset \<Rightarrow> (string, string) dict \<Rightarrow> time \<Rightarrow>
     (instance_data list, 'c) remote_action" where
  "rv_lookup m a version region tags metadata now =
     and_then (rv_cleanup m now) (\<lambda>_.
     and_then (rv_instances m a) (\<lambda>is.
     give (filter_instances is version region tags metadata)))"

definition rv_list :: "'c remote \<Rightarrow> time \<Rightarrow> (instance_data list, 'c) remote_action" where
  "rv_list m now =
     and_then (rv_cleanup m now) (\<lambda>_. \<lambda>s.
     and_then (each (rv_instances m) (sorted_list_of_set (rv_known s))) (\<lambda>iss. give (concat iss)) s)"

text \<open>A colon in a service name makes the records of two instances one.\<close>

lemma colliding_names: "instance_key m ''a:b'' ''c'' = instance_key m ''a'' ''b:c''"
  by (simp add: instance_key_def)

subsection \<open>What an operation does on a reliable server\<close>

text \<open>The JSON values that the registry stores: text, null, lists and objects with distinct keys.\<close>

fun json_ok :: "json \<Rightarrow> bool" where
  "json_ok (JString s) = True"
| "json_ok JNull = True"
| "json_ok (JList vs) = (\<forall>v \<in> set vs. json_ok v)"
| "json_ok (JObject kvs) = (distinct (map fst kvs) \<and> (\<forall>v \<in> snd ` set kvs. json_ok v))"
| "json_ok (JOther s) = False"

text \<open>What is assumed: the server is reliable, JSON restores these values, and \<open>fromisoformat\<close> inverts
  \<open>isoformat\<close> on the instants of a datetime.\<close>

definition setting :: "'c remote \<Rightarrow> ('c \<Rightarrow> string \<Rightarrow> string option) \<Rightarrow> bool" where
  "setting m data \<longleftrightarrow> reliable (rs_client (rm_redis m)) data \<and>
     codec (Collect json_ok) (rm_dumps m) (rm_loads m) \<and>
     (\<forall>t. representable_time t \<longrightarrow> rm_parse m (rm_format m t) = Some t)"

lemma record_json_ok: "representable i \<Longrightarrow> json_ok (record_of m i)"
proof -
  have "map fst (map (\<lambda>(k, v). (k, JString v)) xs) = map fst xs" for xs :: "(string \<times> string) list"
    by (induction xs) auto
  moreover have "json_ok (of_optional x)" for x by (cases x) (simp_all add: of_optional_def)
  ultimately show "representable i \<Longrightarrow> json_ok (record_of m i)"
    by (auto simp: record_of_def instance_to_dict_def representable_def simp del: map_map)
qed

lemma index_json_ok: "json_ok (JList (map JString ks))"
  by auto

type_synonym content = "string \<Rightarrow> json option"

definition content :: "'c remote \<Rightarrow> ('c \<Rightarrow> string \<Rightarrow> string option) \<Rightarrow> 'c remote_services \<Rightarrow> content" where
  "content m data s = (\<lambda>k. Option.bind (data (rb_world (rv_backend s)) (redis_key (rm_redis m) k)) (rm_loads m))"

definition good :: "'c remote \<Rightarrow> ('c \<Rightarrow> string \<Rightarrow> string option) \<Rightarrow> 'c remote_services \<Rightarrow> bool" where
  "good m data s \<longleftrightarrow> usable_backend (rm_redis m) (rv_backend s) \<and>
     (\<forall>k raw. data (rb_world (rv_backend s)) (redis_key (rm_redis m) k) = Some raw \<longrightarrow> rm_loads m raw \<noteq> None)"

text \<open>The action ends with this result in a good state with this content and these services.\<close>

definition ends ::
  "'c remote \<Rightarrow> ('c \<Rightarrow> string \<Rightarrow> string option) \<Rightarrow> ('a, 'c) remote_action \<Rightarrow> 'c remote_services \<Rightarrow>
     remote_error + 'a \<Rightarrow> content \<Rightarrow> string set \<Rightarrow> bool" where
  "ends m data f s r C K \<longleftrightarrow>
     (\<exists>s'. f s = (r, s') \<and> good m data s' \<and> content m data s' = C \<and> rv_known s' = K)"

lemma ends_then:
  assumes "ends m data f s (Inr x) C K"
    and "\<And>s'. good m data s' \<Longrightarrow> content m data s' = C \<Longrightarrow> rv_known s' = K \<Longrightarrow> ends m data (g x) s' r C' K'"
  shows "ends m data (and_then f g) s r C' K'"
  using assms unfolding ends_def by (fastforce simp: and_then_def)

lemma ends_then_raise:
  assumes "ends m data f s (Inl e) C K"
  shows "ends m data (and_then f g) s (Inl e) C K"
  using assms unfolding ends_def by (auto simp: and_then_def)

lemma ends_give: "good m data s \<Longrightarrow> ends m data (give x) s (Inr x) (content m data s) (rv_known s)"
  by (simp add: ends_def give_def)

lemma ends_give':
  "good m data s \<Longrightarrow> content m data s = C \<Longrightarrow> rv_known s = K \<Longrightarrow> ends m data (give x) s (Inr x) C K"
  by (auto simp: ends_def give_def)

lemma ends_fail: "good m data s \<Longrightarrow> ends m data (fail e) s (Inl (From_registry e)) (content m data s) (rv_known s)"
  by (simp add: ends_def fail_def)

lemma ends_remember:
  "good m data s \<Longrightarrow> ends m data (remember f) s (Inr ()) (content m data s) (f (rv_known s))"
  by (simp add: ends_def remember_def good_def content_def)

lemma ends_get:
  assumes "setting m data" "good m data s"
  shows "ends m data (rv_get m k) s (Inr (content m data s k)) (content m data s) (rv_known s)"
proof -
  have "\<exists>w. rb_get (rm_redis m) (rm_loads m) k (rv_backend s) =
      (Inr (content m data s k), (rv_backend s)\<lparr>rb_world := w\<rparr>) \<and> data w = data (rb_world (rv_backend s))"
    unfolding content_def
    by (rule rb_get_ok) (use assms in \<open>auto simp: setting_def good_def\<close>)
  then obtain w where "rb_get (rm_redis m) (rm_loads m) k (rv_backend s) =
      (Inr (content m data s k), (rv_backend s)\<lparr>rb_world := w\<rparr>)" "data w = data (rb_world (rv_backend s))" by blast
  with assms(2) show ?thesis
    by (simp add: ends_def rv_get_def on_backend_def good_def) (simp add: content_def)
qed

lemma ends_put:
  assumes "setting m data" "json_ok v" "good m data s"
  shows "ends m data (rv_put m k v) s (Inr ()) ((content m data s)(k \<mapsto> v)) (rv_known s)"
proof -
  from assms(1,2) obtain t where t: "rm_dumps m v = Some t" "rm_loads m t = Some v"
    unfolding setting_def codec_def by blast
  have "\<exists>w. rb_set (rm_redis m) (rm_dumps m) k v (rv_backend s) = (Inr (), (rv_backend s)\<lparr>rb_world := w\<rparr>) \<and>
      data w = (data (rb_world (rv_backend s)))(redis_key (rm_redis m) k \<mapsto> t)"
    by (rule rb_set_ok) (use assms t in \<open>auto simp: setting_def good_def\<close>)
  then obtain w where w: "rb_set (rm_redis m) (rm_dumps m) k v (rv_backend s) = (Inr (), (rv_backend s)\<lparr>rb_world := w\<rparr>)"
      "data w = (data (rb_world (rv_backend s)))(redis_key (rm_redis m) k \<mapsto> t)" by blast
  with assms(3) t show ?thesis
    by (auto simp: ends_def rv_put_def on_backend_def good_def content_def fun_eq_iff)
qed

lemma ends_del:
  assumes "setting m data" "good m data s"
  shows "\<exists>r. ends m data (rv_del m k) s (Inr r) ((content m data s)(k := None)) (rv_known s)"
proof -
  have "\<exists>w. rb_delete (rm_redis m) k (rv_backend s) =
      (Inr (data (rb_world (rv_backend s)) (redis_key (rm_redis m) k) \<noteq> None), (rv_backend s)\<lparr>rb_world := w\<rparr>) \<and>
      data w = (data (rb_world (rv_backend s)))(redis_key (rm_redis m) k := None)"
    by (rule rb_delete_ok) (use assms in \<open>auto simp: setting_def good_def\<close>)
  then obtain r w where "rb_delete (rm_redis m) k (rv_backend s) = (Inr r, (rv_backend s)\<lparr>rb_world := w\<rparr>)"
      "data w = (data (rb_world (rv_backend s)))(redis_key (rm_redis m) k := None)" by blast
  with assms(2) show ?thesis
    by (auto simp: ends_def rv_del_def on_backend_def good_def content_def fun_eq_iff)
qed

lemma ends_index:
  assumes "setting m data" "good m data s"
  shows "ends m data (rv_index m a) s (Inr (index_set (content m data s (index_key m a)))) (content m data s) (rv_known s)"
  unfolding rv_index_def
  by (rule ends_then [OF ends_get [OF assms]]) (rule ends_give')

lemma index_set_strings:
  "finite A \<Longrightarrow> index_set (Some (JList (map JString (sorted_list_of_set A)))) = A"
  by (simp add: index_set_def del: string_list.simps)

text \<open>A read of a stored record, and of an absent one.\<close>

lemma ends_read:
  assumes "setting m data" "good m data s"
    and "content m data s (instance_key m a k) = map_option (record_of m) i"
    and "\<And>x. i = Some x \<Longrightarrow> check_instance x = Inr x \<and> representable x"
  shows "ends m data (rv_read m a k) s (Inr i) (content m data s) (rv_known s)"
  unfolding rv_read_def
proof (rule ends_then [OF ends_get [OF assms(1,2)]])
  fix s' assume s': "good m data s'" "content m data s' = content m data s" "rv_known s' = rv_known s"
  have json: "instance_from_dict (rm_parse m) (rm_text m) (instance_to_dict (rm_format m) x) = Inr x" if "i = Some x" for x
    using assms(1,4) that by (intro instance_json_roundtrip') (simp_all add: setting_def)
  show "ends m data
      (case content m data s (instance_key m a k) of
         Some (JObject d) \<Rightarrow> (case instance_from_dict (rm_parse m) (rm_text m) d of Inl e \<Rightarrow> fail e | Inr i \<Rightarrow> give (Some i))
       | _ \<Rightarrow> give None) s' (Inr i) (content m data s) (rv_known s)"
    using ends_give [OF s'(1)] s'(2,3) by (cases i) (simp_all add: assms(3) record_of_def json)
qed


subsection \<open>The directory that the content represents\<close>

definition plain_name :: "string \<Rightarrow> string \<Rightarrow> bool" where
  "plain_name a k \<longleftrightarrow> CHR '':'' \<notin> set a"

definition ids :: "directory \<Rightarrow> string \<Rightarrow> string set" where
  "ids d a = {k. d (a, k) \<noteq> None}"

definition directory_ok :: "directory \<Rightarrow> bool" where
  "directory_ok d \<longleftrightarrow> stored_under_name d \<and> (\<forall>a k. d (a, k) \<noteq> None \<longrightarrow> plain_name a k) \<and>
     (\<forall>a k i. d (a, k) = Some i \<longrightarrow> representable i) \<and> (\<forall>a. finite (ids d a))"

definition records :: "'c remote \<Rightarrow> content \<Rightarrow> directory \<Rightarrow> bool" where
  "records m C d \<longleftrightarrow> (\<forall>a k. plain_name a k \<longrightarrow> C (instance_key m a k) = map_option (record_of m) (d (a, k)))"

definition shape :: "'c remote \<Rightarrow> content \<Rightarrow> string set \<Rightarrow> directory \<Rightarrow> bool" where
  "shape m C K d \<longleftrightarrow> directory_ok d \<and> records m C d \<and>
     (\<forall>a. CHR '':'' \<notin> set a \<longrightarrow> index_set (C (index_key m a)) = ids d a) \<and>
     finite K \<and> K = {a. ids d a \<noteq> {}}"

definition holds :: "'c remote \<Rightarrow> ('c \<Rightarrow> string \<Rightarrow> string option) \<Rightarrow> 'c remote_services \<Rightarrow> directory \<Rightarrow> bool" where
  "holds m data s d \<longleftrightarrow> good m data s \<and> shape m (content m data s) (rv_known s) d"

definition leads ::
  "'c remote \<Rightarrow> ('c \<Rightarrow> string \<Rightarrow> string option) \<Rightarrow> ('a, 'c) remote_action \<Rightarrow> 'c remote_services \<Rightarrow>
     remote_error + 'a \<Rightarrow> directory \<Rightarrow> bool" where
  "leads m data f s r d \<longleftrightarrow> (\<exists>s'. f s = (r, s') \<and> holds m data s' d)"

lemma leads_ends: "ends m data f s r C K \<Longrightarrow> shape m C K d \<Longrightarrow> leads m data f s r d"
  by (auto simp: ends_def leads_def holds_def)

lemma keys_distinct [simp]:
  "index_key m a \<noteq> instance_key m b k" "instance_key m b k \<noteq> index_key m a"
  "index_key m a = index_key m b \<longleftrightarrow> a = b"
  by (auto simp: index_key_def instance_key_def)

lemma instance_key_eq:
  assumes "CHR '':'' \<notin> set a" "CHR '':'' \<notin> set b"
  shows "instance_key m a k = instance_key m b l \<longleftrightarrow> a = b \<and> k = l"
proof -
  have "a = b \<and> k = l" if "a @ CHR '':'' # k = b @ CHR '':'' # l"
  proof -
    from that have "takeWhile ((\<noteq>) CHR '':'') (a @ CHR '':'' # k) = takeWhile ((\<noteq>) CHR '':'') (b @ CHR '':'' # l)"
      by simp
    moreover have "takeWhile ((\<noteq>) CHR '':'') (x @ CHR '':'' # y) = x" if "CHR '':'' \<notin> set x" for x y :: string
      using that by (subst takeWhile_append2) auto
    ultimately have "a = b" using assms by simp
    with that show ?thesis by simp
  qed
  then show ?thesis by (auto simp: instance_key_def)
qed

lemma records_put:
  assumes "records m C d" "plain_name a k"
  shows "records m (C(instance_key m a k \<mapsto> record_of m i)) (d((a, k) \<mapsto> i))"
  using assms by (auto simp: records_def plain_name_def instance_key_eq)

lemma records_del:
  assumes "records m C d" "plain_name a k"
  shows "records m (C(instance_key m a k := None)) (d((a, k) := None))"
  using assms by (auto simp: records_def plain_name_def instance_key_eq)

lemma records_index [simp]: "records m (C(index_key m a := v)) d = records m C d"
  by (simp add: records_def)

lemma ids_put [simp]: "ids (d((a, k) \<mapsto> i)) b = (if a = b then insert k (ids d b) else ids d b)"
  by (auto simp: ids_def)

lemma ids_del [simp]: "ids (d((a, k) := None)) b = (if a = b then ids d b - {k} else ids d b)"
  by (auto simp: ids_def)

lemma directory_ok_put:
  assumes "directory_ok d" "check_instance i = Inr i" "plain_name (si_service i) (si_id i)" "representable i"
  shows "directory_ok (d((si_service i, si_id i) \<mapsto> i))"
  using assms by (auto simp: directory_ok_def stored_under_name_def)

lemma directory_ok_del: "directory_ok d \<Longrightarrow> directory_ok (d((a, k) := None))"
  by (auto simp: directory_ok_def stored_under_name_def)

text \<open>A change of the entries of one service, its index and the registered services along with it.\<close>

lemma shape_update:
  assumes "shape m C K d" "CHR '':'' \<notin> set a" "directory_ok d'" "records m C' d'"
    and "\<And>b. b \<noteq> a \<Longrightarrow> ids d' b = ids d b"
    and "\<And>b. b \<noteq> a \<Longrightarrow> C' (index_key m b) = C (index_key m b)"
    and "index_set (C' (index_key m a)) = ids d' a"
    and "K' = (if ids d' a = {} then K - {a} else insert a K)"
  shows "shape m C' K' d'"
proof -
  have "index_set (C' (index_key m b)) = ids d' b" if "CHR '':'' \<notin> set b" for b
    using assms(1,5-7) that by (cases "b = a") (simp_all add: shape_def)
  moreover have "K' = {b. ids d' b \<noteq> {}}"
  proof (intro set_eqI)
    show "b \<in> K' \<longleftrightarrow> b \<in> {b. ids d' b \<noteq> {}}" for b
      using assms(1,5,8) by (cases "b = a") (auto simp: shape_def)
  qed
  moreover have "finite K" using assms(1) unfolding shape_def by blast
  then have "finite K'" by (simp add: assms(8))
  ultimately show ?thesis using assms(3,4) by (simp add: shape_def)
qed

lemma register_leads:
  assumes set: "setting m data" and s: "holds m data s d"
    and i: "check_instance i = Inr i" "plain_name (si_service i) (si_id i)" "representable i"
  shows "leads m data (rv_register m i) s (Inr ()) (d((si_service i, si_id i) \<mapsto> i))"
proof -
  let ?a = "si_service i" and ?k = "si_id i" and ?C = "content m data s" and ?K = "rv_known s"
  let ?C1 = "?C(instance_key m ?a ?k \<mapsto> record_of m i)"
  let ?C2 = "?C1(index_key m ?a \<mapsto> JList (map JString (sorted_list_of_set (insert ?k (ids d ?a)))))"
  have g: "good m data s" and sh: "shape m ?C ?K d" using s by (simp_all add: holds_def)
  have fin: "finite (ids d ?a)" using sh by (simp add: shape_def directory_ok_def)
  have idx: "index_set (?C1 (index_key m ?a)) = ids d ?a" using sh i(2) by (simp add: shape_def plain_name_def)
  have "ends m data (rv_register m i) s (Inr ()) ?C2 (insert ?a ?K)"
    unfolding rv_register_def
  proof (rule ends_then [OF ends_put [OF set record_json_ok [OF i(3)] g]])
    fix s1 assume s1: "good m data s1" "content m data s1 = ?C1" "rv_known s1 = ?K"
    show "ends m data (and_then (rv_index m ?a) (\<lambda>index. and_then (rv_save_index m ?a (insert ?k index))
        (\<lambda>_. remember (insert ?a)))) s1 (Inr ()) ?C2 (insert ?a ?K)"
    proof (rule ends_then [OF ends_index [OF set s1(1), of ?a]])
      fix s2 assume s2: "good m data s2" "content m data s2 = content m data s1" "rv_known s2 = rv_known s1"
      show "ends m data (and_then (rv_save_index m ?a (insert ?k (index_set (content m data s1 (index_key m ?a)))))
          (\<lambda>_. remember (insert ?a))) s2 (Inr ()) ?C2 (insert ?a ?K)"
        unfolding rv_save_index_def
        by (rule ends_then [OF ends_put [OF set index_json_ok s2(1)]])
          (use ends_remember idx s1 s2 in \<open>fastforce\<close>)
    qed
  qed
  moreover have "shape m ?C2 (insert ?a ?K) (d((?a, ?k) \<mapsto> i))"
  proof (rule shape_update [OF sh, of ?a])
    show "CHR '':'' \<notin> set ?a" using i(2) by (simp add: plain_name_def)
    show "directory_ok (d((?a, ?k) \<mapsto> i))" using sh i by (intro directory_ok_put) (simp_all add: shape_def)
    have "records m ?C1 (d((?a, ?k) \<mapsto> i))" using sh i(2) by (intro records_put) (simp_all add: shape_def)
    then show "records m ?C2 (d((?a, ?k) \<mapsto> i))" by (simp only: records_index)
    have "?C2 (index_key m ?a) = Some (JList (map JString (sorted_list_of_set (insert ?k (ids d ?a)))))"
      by simp
    then show "index_set (?C2 (index_key m ?a)) = ids (d((?a, ?k) \<mapsto> i)) ?a"
      using index_set_strings [of "insert ?k (ids d ?a)"] fin by (simp only:) simp
  qed simp_all
  ultimately show ?thesis by (rule leads_ends)
qed


lemma leads_then:
  assumes "leads m data f s (Inr x) d1" "\<And>s'. holds m data s' d1 \<Longrightarrow> leads m data (g x) s' r d2"
  shows "leads m data (and_then f g) s r d2"
  using assms unfolding leads_def by (fastforce simp: and_then_def)

lemma leads_then_raise: "leads m data f s (Inl e) d \<Longrightarrow> leads m data (and_then f g) s (Inl e) d"
  unfolding leads_def by (auto simp: and_then_def)

lemma leads_give: "holds m data s d \<Longrightarrow> leads m data (give x) s (Inr x) d"
  by (auto simp: leads_def give_def)

lemma leads_fail: "holds m data s d \<Longrightarrow> leads m data (fail e) s (Inl (From_registry e)) d"
  by (auto simp: leads_def fail_def)

lemma holds_ids: "holds m data s d \<Longrightarrow> finite (ids d a)" "holds m data s d \<Longrightarrow> finite (rv_known s)"
  "holds m data s d \<Longrightarrow> rv_known s = {a. ids d a \<noteq> {}}"
  unfolding holds_def shape_def directory_ok_def by blast+

lemma leads_index:
  assumes "setting m data" "holds m data s d" "CHR '':'' \<notin> set a"
  shows "leads m data (rv_index m a) s (Inr (ids d a)) d"
proof -
  have "good m data s" and sh: "shape m (content m data s) (rv_known s) d" using assms(2) by (simp_all add: holds_def)
  from ends_index [OF assms(1) this(1), of a] sh assms(3)
  have "ends m data (rv_index m a) s (Inr (ids d a)) (content m data s) (rv_known s)" by (simp add: shape_def)
  then show ?thesis using sh by (rule leads_ends)
qed

lemma holds_record:
  assumes "holds m data s d" "plain_name a k"
  shows "content m data s (instance_key m a k) = map_option (record_of m) (d (a, k))"
    and "d (a, k) = Some i \<Longrightarrow>
      check_instance i = Inr i \<and> representable i \<and> si_service i = a \<and> si_id i = k"
  using assms by (auto simp: holds_def shape_def records_def directory_ok_def stored_under_name_def)

lemma leads_read:
  assumes "setting m data" "holds m data s d" "plain_name a k"
  shows "leads m data (rv_read m a k) s (Inr (d (a, k))) d"
proof -
  have "ends m data (rv_read m a k) s (Inr (d (a, k))) (content m data s) (rv_known s)"
    using assms holds_record [OF assms(2,3)] by (intro ends_read) (auto simp: holds_def)
  moreover have "shape m (content m data s) (rv_known s) d" using assms(2) unfolding holds_def by blast
  ultimately show ?thesis by (rule leads_ends)
qed

lemma ends_remember_if:
  "good m data s \<Longrightarrow> ends m data (if b then remember f else give ()) s (Inr ()) (content m data s)
     (if b then f (rv_known s) else rv_known s)"
  by (simp add: ends_remember ends_give)

lemma deregister_leads:
  assumes set: "setting m data" and s: "holds m data s d" and a: "plain_name a k"
  shows "leads m data (rv_deregister m a k) s (Inr (d (a, k) \<noteq> None)) (d((a, k) := None))"
  unfolding rv_deregister_def
proof (rule leads_then [OF leads_index [OF set s]])
  show "CHR '':'' \<notin> set a" using a by (simp add: plain_name_def)
  fix s1 assume s1: "holds m data s1 d"
  let ?C = "content m data s1" and ?K = "rv_known s1" and ?J = "ids d a"
  let ?saved = "if k \<in> ?J then ?C(index_key m a \<mapsto> JList (map JString (sorted_list_of_set (?J - {k})))) else ?C"
  let ?C2 = "?saved(instance_key m a k := None)"
  let ?K2 = "if ?J - {k} = {} then ?K - {a} else ?K"
  have g: "good m data s1" and sh: "shape m ?C ?K d" using s1 by (simp_all add: holds_def)
  have J: "k \<in> ?J \<longleftrightarrow> d (a, k) \<noteq> None" by (simp add: ids_def)
  have "ends m data (if k \<in> ?J then rv_save_index m a (?J - {k}) else give ()) s1 (Inr ()) ?saved ?K"
    using ends_put [OF set index_json_ok g] ends_give [OF g, of "()"] by (simp add: rv_save_index_def)
  then have "ends m data
      (and_then (if k \<in> ?J then rv_save_index m a (?J - {k}) else give ()) (\<lambda>_.
       and_then (rv_del m (instance_key m a k)) (\<lambda>_.
       and_then (if ?J - {k} = {} then remember (\<lambda>s. s - {a}) else give ()) (\<lambda>_. give (k \<in> ?J)))))
      s1 (Inr (k \<in> ?J)) ?C2 ?K2"
  proof (rule ends_then)
    fix s2 assume s2: "good m data s2" "content m data s2 = ?saved" "rv_known s2 = ?K"
    from ends_del [OF set s2(1), of "instance_key m a k"] obtain r where
      "ends m data (rv_del m (instance_key m a k)) s2 (Inr r) ?C2 ?K" by (auto simp: s2(2,3))
    then show "ends m data (and_then (rv_del m (instance_key m a k)) (\<lambda>_.
        and_then (if ?J - {k} = {} then remember (\<lambda>s. s - {a}) else give ()) (\<lambda>_. give (k \<in> ?J))))
        s2 (Inr (k \<in> ?J)) ?C2 ?K2"
    proof (rule ends_then)
      fix s3 assume s3: "good m data s3" "content m data s3 = ?C2" "rv_known s3 = ?K"
      have "ends m data (if ?J - {k} = {} then remember (\<lambda>s. s - {a}) else give ()) s3 (Inr ()) ?C2 ?K2"
        using ends_remember_if [OF s3(1), of "?J - {k} = {}" "\<lambda>s. s - {a}"] by (simp only: s3(2,3))
      then show "ends m data (and_then (if ?J - {k} = {} then remember (\<lambda>s. s - {a}) else give ())
          (\<lambda>_. give (k \<in> ?J))) s3 (Inr (k \<in> ?J)) ?C2 ?K2"
        by (rule ends_then) (rule ends_give')
    qed
  qed
  moreover have "shape m ?C2 ?K2 (d((a, k) := None))"
  proof (rule shape_update [OF sh, of a])
    show "CHR '':'' \<notin> set a" using a by (simp add: plain_name_def)
    show "directory_ok (d((a, k) := None))" using sh by (intro directory_ok_del) (simp add: shape_def)
    have "records m ?saved d" using sh by (simp add: shape_def)
    then show "records m ?C2 (d((a, k) := None))" using a by (rule records_del)
    have fin: "finite (?J - {k})" using sh by (simp add: shape_def directory_ok_def)
    have here: "index_set (?C (index_key m a)) = ?J" using sh a by (simp add: shape_def plain_name_def)
    show "index_set (?C2 (index_key m a)) = ids (d((a, k) := None)) a"
    proof (cases "k \<in> ?J")
      case True
      then have "?C2 (index_key m a) = Some (JList (map JString (sorted_list_of_set (?J - {k}))))" by simp
      then show ?thesis using index_set_strings [OF fin] by (simp only: ids_del if_True simp_thms)
    qed (use here in simp)
    show "?K2 = (if ids (d((a, k) := None)) a = {} then ?K - {a} else insert a ?K)"
      using holds_ids(3) [OF s1] by auto
  qed simp_all
  ultimately show "leads m data
      (and_then (if k \<in> ?J then rv_save_index m a (?J - {k}) else give ()) (\<lambda>_.
       and_then (rv_del m (instance_key m a k)) (\<lambda>_.
       and_then (if ?J - {k} = {} then remember (\<lambda>s. s - {a}) else give ()) (\<lambda>_. give (k \<in> ?J)))))
      s1 (Inr (d (a, k) \<noteq> None)) (d((a, k) := None))"
    unfolding J [symmetric] by (rule leads_ends)
qed

lemma renew_leads:
  assumes set: "setting m data" and s: "holds m data s d" and a: "plain_name a k"
  shows "case d (a, k) of
      None \<Rightarrow> leads m data (rv_renew m a k ttl now) s (Inl (From_registry (ServiceInstanceNotFoundError a k))) d
    | Some i \<Rightarrow>
        (case renewed ttl now i of
           Inl e \<Rightarrow> leads m data (rv_renew m a k ttl now) s (Inl (From_registry e)) d
         | Inr i' \<Rightarrow> leads m data (rv_renew m a k ttl now) s (Inr i') (d((a, k) \<mapsto> i')))"
proof -
  note rd = leads_then [OF leads_read [OF set s a]]
  show ?thesis
  proof (cases "d (a, k)")
    case None
    have "leads m data (rv_renew m a k ttl now) s (Inl (From_registry (ServiceInstanceNotFoundError a k))) d"
      unfolding rv_renew_def by (rule rd) (simp add: None leads_fail)
    with None show ?thesis by simp
  next
    case (Some i)
    show ?thesis
    proof (cases "renewed ttl now i")
      case (Inl e)
      have "leads m data (rv_renew m a k ttl now) s (Inl (From_registry e)) d"
        unfolding rv_renew_def by (rule rd) (simp add: Some Inl leads_fail)
      with Some Inl show ?thesis by simp
    next
      case (Inr i')
      have i': "check_instance i' = Inr i'" "si_service i' = a" "si_id i' = k" "representable i'"
        using renewed_fields [OF Inr] renewed_representable [OF Inr] holds_record(2) [OF s a Some]
        by simp_all
      have "leads m data (rv_renew m a k ttl now) s (Inr i') (d((a, k) \<mapsto> i'))"
        unfolding rv_renew_def
      proof (rule rd)
        fix s1 assume s1: "holds m data s1 d"
        let ?C = "content m data s1" and ?K = "rv_known s1"
        let ?C1 = "?C(instance_key m a k \<mapsto> record_of m i')"
        have g: "good m data s1" and sh: "shape m ?C ?K d" using s1 by (simp_all add: holds_def)
        have "ends m data (and_then (rv_put m (instance_key m a k) (record_of m i')) (\<lambda>_. give i')) s1 (Inr i') ?C1 ?K"
          by (rule ends_then [OF ends_put [OF set record_json_ok [OF i'(4)] g]]) (rule ends_give')
        moreover have "shape m ?C1 ?K (d((a, k) \<mapsto> i'))"
        proof (rule shape_update [OF sh, of a])
          show "CHR '':'' \<notin> set a" using a by (simp add: plain_name_def)
          show "directory_ok (d((a, k) \<mapsto> i'))"
            using directory_ok_put [of d i'] sh i' a by (simp add: shape_def)
          show "records m ?C1 (d((a, k) \<mapsto> i'))" using sh a by (intro records_put) (simp_all add: shape_def)
          show "index_set (?C1 (index_key m a)) = ids (d((a, k) \<mapsto> i')) a"
            using sh a Some by (auto simp: shape_def plain_name_def ids_def)
          show "?K = (if ids (d((a, k) \<mapsto> i')) a = {} then ?K - {a} else insert a ?K)"
            using holds_ids(3) [OF s1] Some by (auto simp: ids_def)
        qed simp_all
        ultimately have "leads m data (and_then (rv_put m (instance_key m a k) (record_of m i')) (\<lambda>_. give i'))
            s1 (Inr i') (d((a, k) \<mapsto> i'))" by (rule leads_ends)
        then show "leads m data
            (case d (a, k) of None \<Rightarrow> fail (ServiceInstanceNotFoundError a k)
             | Some i \<Rightarrow> (case renewed ttl now i of Inl e \<Rightarrow> fail e
                | Inr i' \<Rightarrow> and_then (rv_put m (instance_key m a k) (record_of m i')) (\<lambda>_. give i')))
            s1 (Inr i') (d((a, k) \<mapsto> i'))" by (simp add: Some Inr)
      qed
      with Some Inr show ?thesis by simp
    qed
  qed
qed


subsection \<open>Cleaning up\<close>

definition dead :: "time \<Rightarrow> directory \<Rightarrow> string \<Rightarrow> string \<Rightarrow> bool" where
  "dead now d a k = (case d (a, k) of None \<Rightarrow> True | Some i \<Rightarrow> is_expired now i)"

text \<open>The directory without the expired instances of the service among the given ids.\<close>

definition purged :: "time \<Rightarrow> string \<Rightarrow> string set \<Rightarrow> directory \<Rightarrow> directory" where
  "purged now a X d = (\<lambda>x. if fst x = a \<and> snd x \<in> X \<and> dead now d a (snd x) then None else d x)"

lemma purged_Cons:
  "purged now a (insert k X) d =
    purged now a X (if dead now d a k then d((a, k) := None) else d)"
  by (auto simp: purged_def dead_def fun_eq_iff)

lemma dead_other: "k \<noteq> l \<Longrightarrow> dead now (d((a, k) := None)) a l = dead now d a l"
  by (simp add: dead_def)

lemma purge_ids_ends:
  assumes "setting m data" "CHR '':'' \<notin> set a" "distinct ks"
    and "good m data s" "records m (content m data s) d" "directory_ok d"
  shows "\<exists>C. ends m data (purge_ids m now a ks (J, n)) s
      (Inr (J - {k \<in> set ks. dead now d a k}, n + length (filter (dead now d a) ks))) C (rv_known s) \<and>
    records m C (purged now a (set ks) d) \<and> (\<forall>b. C (index_key m b) = content m data s (index_key m b))"
  using assms(3-6)
proof (induction ks arbitrary: s d J n)
  case Nil
  then show ?case using ends_give [OF Nil.prems(2), of "(J, n)"]
    by (auto simp: purged_def intro!: exI [of _ "content m data s"])
next
  case (Cons k ks)
  have pl: "plain_name a k" using assms(2) by (simp add: plain_name_def)
  note g = Cons.prems(2) and rec = Cons.prems(3) and ok = Cons.prems(4)
  have rd: "ends m data (rv_read m a k) s (Inr (d (a, k))) (content m data s) (rv_known s)"
    using rec ok pl
    by (intro ends_read [OF assms(1) g]) (auto simp: records_def directory_ok_def stored_under_name_def)
  show ?case
  proof (cases "dead now d a k")
    case False
    from rd obtain s1 where s1: "rv_read m a k s = (Inr (d (a, k)), s1)" "good m data s1"
      "content m data s1 = content m data s" "rv_known s1 = rv_known s" unfolding ends_def by blast
    have "\<exists>C. ends m data (purge_ids m now a ks (J, n)) s1
        (Inr (J - {k \<in> set ks. dead now d a k}, n + length (filter (dead now d a) ks))) C (rv_known s1) \<and>
      records m C (purged now a (set ks) d) \<and> (\<forall>b. C (index_key m b) = content m data s1 (index_key m b))"
      using Cons.prems s1 by (intro Cons.IH) simp_all
    moreover have "purge_ids m now a (k # ks) (J, n) s = purge_ids m now a ks (J, n) s1"
      using False s1(1) by (auto simp: and_then_def dead_def split: option.splits)
    moreover have "{l \<in> set (k # ks). dead now d a l} = {l \<in> set ks. dead now d a l}" using False by auto
    ultimately show ?thesis
      using False s1(3,4) by (simp add: purged_Cons ends_def del: purge_ids.simps)
  next
    case True
    define d' where "d' = d((a, k) := None)"
    from rd obtain s1 where s1: "rv_read m a k s = (Inr (d (a, k)), s1)" "good m data s1"
      "content m data s1 = content m data s" "rv_known s1 = rv_known s" unfolding ends_def by blast
    from ends_del [OF assms(1) s1(2), of "instance_key m a k"] obtain r s2 where
      s2: "rv_del m (instance_key m a k) s1 = (Inr r, s2)" "good m data s2"
        "content m data s2 = (content m data s)(instance_key m a k := None)" "rv_known s2 = rv_known s"
      unfolding ends_def s1(3,4) by blast
    have "records m (content m data s2) d'" unfolding s2(3) d'_def by (rule records_del [OF rec pl])
    have other: "dead now d' a l = dead now d a l" if "l \<in> set ks" for l
      using that Cons.prems(1) unfolding d'_def by (intro dead_other) auto
    have dist: "distinct ks" using Cons.prems(1) by simp
    note Cons.IH [where J = "J - {k}" and n = "Suc n", OF dist s2(2) \<open>records m (content m data s2) d'\<close> directory_ok_del [OF ok, of a k, folded d'_def]]
    moreover have "purge_ids m now a (k # ks) (J, n) s = purge_ids m now a ks (J - {k}, Suc n) s2"
      using True s1(1) s2(1) by (auto simp: and_then_def dead_def split: option.splits)
    moreover have "filter (dead now d' a) ks = filter (dead now d a) ks"
      using other by (intro filter_cong) simp_all
    moreover have "J - {k} - {l \<in> set ks. dead now d' a l} = J - {l \<in> set (k # ks). dead now d a l}"
      using True other by auto
    ultimately show ?thesis
      using True s2(3,4) by (simp add: purged_Cons ends_def d'_def [symmetric] del: purge_ids.simps)
  qed
qed


definition expired_ids :: "time \<Rightarrow> directory \<Rightarrow> string \<Rightarrow> string set" where
  "expired_ids now d a = {k. \<exists>i. d (a, k) = Some i \<and> is_expired now i}"

lemma dead_ids: "k \<in> ids d a \<Longrightarrow> dead now d a k \<longleftrightarrow> k \<in> expired_ids now d a"
  by (auto simp: dead_def ids_def expired_ids_def)

lemma purged_ids: "purged now a (ids d a) d = purged now a UNIV d"
  by (auto simp: purged_def ids_def dead_def fun_eq_iff)

lemma ids_purged: "ids (purged now a UNIV d) b = (if b = a then ids d a - expired_ids now d a else ids d b)"
  by (auto simp: ids_def purged_def dead_def expired_ids_def split: option.splits)

lemma directory_ok_purged: "directory_ok d \<Longrightarrow> directory_ok (purged now a X d)"
proof -
  assume ok: "directory_ok d"
  have "ids (purged now a X d) b \<subseteq> ids d b" for b by (auto simp: ids_def purged_def)
  with ok have "finite (ids (purged now a X d) b)" for b
    unfolding directory_ok_def by (blast intro: finite_subset)
  with ok show ?thesis by (auto simp: directory_ok_def stored_under_name_def purged_def split: if_splits)
qed

lemma purge_service_leads:
  assumes set: "setting m data" and s: "holds m data s d" and a: "CHR '':'' \<notin> set a"
  shows "leads m data (purge_service m now a) s (Inr (card (expired_ids now d a))) (purged now a UNIV d)"
  unfolding purge_service_def
proof (rule leads_then [OF leads_index [OF set s a]])
  fix s1 assume s1: "holds m data s1 d"
  let ?J = "ids d a" and ?E = "expired_ids now d a" and ?K = "rv_known s1" and ?d = "purged now a UNIV d"
  let ?ks = "sorted_list_of_set ?J"
  have g: "good m data s1" and sh: "shape m (content m data s1) ?K d" using s1 by (simp_all add: holds_def)
  have fin: "finite ?J" by (rule holds_ids [OF s1])
  then have ks: "set ?ks = ?J" "distinct ?ks" by simp_all
  have E: "?E \<subseteq> ?J" by (auto simp: expired_ids_def ids_def)
  have "?J - {k \<in> set ?ks. dead now d a k} = ?J - ?E" using dead_ids [of _ d a now] by (auto simp: fin)
  moreover have "length (filter (dead now d a) ?ks) = card ?E"
  proof -
    have "set (filter (dead now d a) ?ks) = ?E" using dead_ids [of _ d a now] E by (auto simp: fin)
    with ks(2) show ?thesis by (metis distinct_card distinct_filter)
  qed
  ultimately obtain C where C: "ends m data (purge_ids m now a ?ks (?J, 0)) s1 (Inr (?J - ?E, card ?E)) C ?K"
    "records m C ?d" "\<forall>b. C (index_key m b) = content m data s1 (index_key m b)"
    using purge_ids_ends [where d = d and J = ?J and n = 0 and now = now, OF set a ks(2) g] sh
    by (auto simp: shape_def fin purged_ids)
  let ?C = "C(index_key m a \<mapsto> JList (map JString (sorted_list_of_set (?J - ?E))))"
  let ?K2 = "if ?J - ?E = {} then ?K - {a} else ?K"
  have "ends m data (and_then (purge_ids m now a ?ks (?J, 0)) (\<lambda>(index', n).
      and_then (rv_save_index m a index') (\<lambda>_.
      and_then (if index' = {} then remember (\<lambda>s. s - {a}) else give ()) (\<lambda>_. give n)))) s1 (Inr (card ?E)) ?C ?K2"
  proof (rule ends_then [OF C(1)], unfold prod.case)
    fix s2 assume s2: "good m data s2" "content m data s2 = C" "rv_known s2 = ?K"
    show "ends m data (and_then (rv_save_index m a (?J - ?E)) (\<lambda>_.
        and_then (if ?J - ?E = {} then remember (\<lambda>s. s - {a}) else give ()) (\<lambda>_. give (card ?E)))) s2 (Inr (card ?E)) ?C ?K2"
      unfolding rv_save_index_def
    proof (rule ends_then [OF ends_put [OF set index_json_ok s2(1)]], unfold s2(2,3))
      fix s3 assume s3: "good m data s3" "content m data s3 = ?C" "rv_known s3 = ?K"
      have "ends m data (if ?J - ?E = {} then remember (\<lambda>s. s - {a}) else give ()) s3 (Inr ()) ?C ?K2"
        using ends_remember_if [OF s3(1), of "?J - ?E = {}" "\<lambda>s. s - {a}"] by (simp only: s3(2,3))
      then show "ends m data (and_then (if ?J - ?E = {} then remember (\<lambda>s. s - {a}) else give ())
          (\<lambda>_. give (card ?E))) s3 (Inr (card ?E)) ?C ?K2"
        by (rule ends_then) (rule ends_give')
    qed
  qed
  moreover have "shape m ?C ?K2 ?d"
  proof (rule shape_update [OF sh a])
    show "directory_ok ?d" using sh by (intro directory_ok_purged) (simp add: shape_def)
    show "records m ?C ?d" using C(2) by simp
    show "ids ?d b = ids d b" if "b \<noteq> a" for b using that by (simp add: ids_purged)
    show "?C (index_key m b) = content m data s1 (index_key m b)" if "b \<noteq> a" for b using that C(3) by simp
    show "index_set (?C (index_key m a)) = ids ?d a"
      using index_set_strings [of "?J - ?E"] fin by (simp add: ids_purged)
    show "?K2 = (if ids ?d a = {} then ?K - {a} else insert a ?K)"
      using holds_ids(3) [OF s1] by (auto simp: ids_purged)
  qed
  ultimately show "leads m data (and_then (purge_ids m now a ?ks (?J, 0)) (\<lambda>(index', n).
      and_then (rv_save_index m a index') (\<lambda>_.
      and_then (if index' = {} then remember (\<lambda>s. s - {a}) else give ()) (\<lambda>_. give n)))) s1 (Inr (card ?E)) ?d"
    by (rule leads_ends)
qed


definition purged_all :: "time \<Rightarrow> string set \<Rightarrow> directory \<Rightarrow> directory" where
  "purged_all now A d = (\<lambda>x. if fst x \<in> A \<and> dead now d (fst x) (snd x) then None else d x)"

lemma purged_all_Cons:
  assumes "a \<notin> A"
  shows "purged_all now A (purged now a UNIV d) = purged_all now (insert a A) d"
proof
  fix x :: "string \<times> string"
  obtain b k where x: "x = (b, k)" by fastforce
  have "dead now (purged now a UNIV d) b k = dead now d b k" if "b \<noteq> a"
    using that by (simp add: dead_def purged_def)
  then show "purged_all now A (purged now a UNIV d) x = purged_all now (insert a A) d x"
    using assms by (auto simp: purged_all_def x) (auto simp: purged_def)
qed

lemma expired_ids_other: "b \<noteq> a \<Longrightarrow> expired_ids now (purged now a UNIV d) b = expired_ids now d b"
  by (simp add: expired_ids_def purged_def)

lemma each_purge_leads:
  assumes "setting m data" "holds m data s d" "distinct as" "\<forall>a \<in> set as. CHR '':'' \<notin> set a"
  shows "leads m data (each (purge_service m now) as) s (Inr (map (\<lambda>a. card (expired_ids now d a)) as))
    (purged_all now (set as) d)"
  using assms(2-4)
proof (induction as arbitrary: s d)
  case Nil
  then show ?case by (simp add: purged_all_def leads_give)
next
  case (Cons a as)
  have a: "CHR '':'' \<notin> set a" and new: "a \<notin> set as" using Cons.prems by simp_all
  define d' where "d' = purged now a UNIV d"
  have same: "map (\<lambda>b. card (expired_ids now d' b)) as = map (\<lambda>b. card (expired_ids now d b)) as"
  proof (rule map_cong [OF refl])
    fix b assume "b \<in> set as"
    with new have "b \<noteq> a" by auto
    then show "card (expired_ids now d' b) = card (expired_ids now d b)"
      by (simp add: d'_def expired_ids_other)
  qed
  have all: "purged_all now (set as) d' = purged_all now (set (a # as)) d"
    using purged_all_Cons [OF new, of now d] by (simp add: d'_def)
  have "leads m data (purge_service m now a) s (Inr (card (expired_ids now d a))) d'"
    unfolding d'_def by (rule purge_service_leads [OF assms(1) Cons.prems(1) a])
  then show ?case unfolding each.simps(2)
  proof (rule leads_then)
    fix s1 assume s1: "holds m data s1 d'"
    have "leads m data (each (purge_service m now) as) s1 (Inr (map (\<lambda>b. card (expired_ids now d b)) as))
        (purged_all now (set (a # as)) d)"
      using Cons.IH [OF s1] Cons.prems(2,3) by (simp only: same all) simp
    then show "leads m data (and_then (each (purge_service m now) as)
        (\<lambda>ys. give (card (expired_ids now d a) # ys))) s1
        (Inr (map (\<lambda>a. card (expired_ids now d a)) (a # as))) (purged_all now (set (a # as)) d)"
      by (rule leads_then) (simp add: leads_give)
  qed
qed

lemma known_plain: "holds m data s d \<Longrightarrow> a \<in> rv_known s \<Longrightarrow> CHR '':'' \<notin> set a"
  using holds_ids(3) [of m data s d]
  by (auto simp: holds_def shape_def directory_ok_def ids_def plain_name_def)

lemma cleanup_leads:
  assumes "setting m data" "holds m data s d"
  shows "leads m data (rv_cleanup m now) s (Inr (card {x. \<exists>i. d x = Some i \<and> is_expired now i})) (alive now d)"
proof -
  let ?K = "rv_known s" and ?n = "\<lambda>a. card (expired_ids now d a)"
  have fin: "finite ?K" by (rule holds_ids [OF assms(2)])
  have K: "?K = {a. ids d a \<noteq> {}}" by (rule holds_ids [OF assms(2)])
  have "expired_ids now d a \<subseteq> ids d a" for a by (auto simp: expired_ids_def ids_def)
  then have finE: "finite (expired_ids now d a)" for a
    using holds_ids(1) [OF assms(2)] by (blast intro: finite_subset)
  have all: "purged_all now ?K d = alive now d"
    by (auto simp: purged_all_def alive_def dead_def K ids_def fun_eq_iff split: option.split)
  have "sum_list (map ?n (sorted_list_of_set ?K)) = (\<Sum>a \<in> ?K. ?n a)"
    using fin by (simp add: sum_list_distinct_conv_sum_set)
  also have "\<dots> = card (SIGMA a : ?K. expired_ids now d a)"
    using fin finE by simp
  also have "(SIGMA a : ?K. expired_ids now d a) = {x. \<exists>i. d x = Some i \<and> is_expired now i}"
    by (auto simp: expired_ids_def K ids_def)
  finally have count: "sum_list (map ?n (sorted_list_of_set ?K)) = card {x. \<exists>i. d x = Some i \<and> is_expired now i}" .
  have "leads m data (each (purge_service m now) (sorted_list_of_set ?K)) s
      (Inr (map ?n (sorted_list_of_set ?K))) (purged_all now (set (sorted_list_of_set ?K)) d)"
    by (rule each_purge_leads [OF assms]) (use fin known_plain [OF assms(2)] in auto)
  then have "leads m data (each (purge_service m now) (sorted_list_of_set ?K)) s
      (Inr (map ?n (sorted_list_of_set ?K))) (alive now d)"
    using fin by (simp add: all)
  then have "leads m data (and_then (each (purge_service m now) (sorted_list_of_set ?K)) (\<lambda>ns. give (sum_list ns))) s
      (Inr (card {x. \<exists>i. d x = Some i \<and> is_expired now i})) (alive now d)"
    by (rule leads_then) (simp add: count leads_give)
  then show ?thesis by (simp add: leads_def rv_cleanup_def)
qed

subsection \<open>Lookups and listings\<close>

lemma each_leads:
  assumes "\<And>x s. x \<in> set xs \<Longrightarrow> holds m data s d \<Longrightarrow> leads m data (f x) s (Inr (g x)) d" "holds m data s d"
  shows "leads m data (each f xs) s (Inr (map g xs)) d"
  using assms
proof (induction xs arbitrary: s)
  case Nil
  then show ?case by (simp add: leads_give)
next
  case (Cons x xs)
  have "leads m data (f x) s (Inr (g x)) d" using Cons.prems by simp
  then show ?case unfolding each.simps(2)
  proof (rule leads_then)
    fix s1 assume s1: "holds m data s1 d"
    have "leads m data (each f xs) s1 (Inr (map g xs)) d" using Cons.prems(1) s1 by (intro Cons.IH) simp_all
    then show "leads m data (and_then (each f xs) (\<lambda>ys. give (g x # ys))) s1 (Inr (map g (x # xs))) d"
      by (rule leads_then) (simp add: leads_give)
  qed
qed

text \<open>The instances of a service in the order of their ids.\<close>

definition service_list :: "directory \<Rightarrow> string \<Rightarrow> instance_data list" where
  "service_list d a = map (\<lambda>k. the (d (a, k))) (sorted_list_of_set (ids d a))"

lemma instances_leads:
  assumes "setting m data" "holds m data s d" "CHR '':'' \<notin> set a"
  shows "leads m data (rv_instances m a) s (Inr (service_list d a)) d"
  unfolding rv_instances_def
proof (rule leads_then [OF leads_index [OF assms]])
  fix s1 assume s1: "holds m data s1 d"
  let ?ks = "sorted_list_of_set (ids d a)"
  have "List.map_filter (\<lambda>i. i) (map (\<lambda>k. d (a, k)) ks) = map (\<lambda>k. the (d (a, k))) ks" if "set ks \<subseteq> ids d a" for ks
    using that by (induction ks) (auto simp: ids_def List.map_filter_def)
  then have some: "List.map_filter (\<lambda>i. i) (map (\<lambda>k. d (a, k)) ?ks) = service_list d a"
    using holds_ids(1) [OF s1] by (simp add: service_list_def)
  have "leads m data (each (rv_read m a) ?ks) s1 (Inr (map (\<lambda>k. d (a, k)) ?ks)) d"
    using assms(1,3) s1 by (intro each_leads leads_read) (simp_all add: plain_name_def)
  then show "leads m data (and_then (each (rv_read m a) ?ks) (\<lambda>is. give (List.map_filter (\<lambda>i. i) is))) s1
      (Inr (service_list d a)) d"
    by (rule leads_then) (simp add: some leads_give)
qed


lemma service_list_props:
  assumes "directory_ok d"
  shows "in_order (service_list d a)" and "set (service_list d a) = {i. \<exists>k. d (a, k) = Some i}"
proof -
  let ?ks = "sorted_list_of_set (ids d a)"
  have fin: "finite (ids d a)" and st: "stored_under_name d" using assms by (simp_all add: directory_ok_def)
  have name: "si_service (the (d (a, k))) = a \<and> si_id (the (d (a, k))) = k" if "k \<in> ids d a" for k
    using that st by (auto simp: ids_def stored_under_name_def)
  have "map (\<lambda>i. (si_service i, si_id i)) (service_list d a) = map (Pair a) ?ks"
    using name fin by (simp add: service_list_def)
  moreover have "sorted (map (Pair a) xs) = sorted xs" for xs :: "string list"
    by (induction xs) (auto simp: less_eq_prod_def)
  ultimately show "in_order (service_list d a)"
    by (simp add: in_order_def distinct_map inj_on_def)
  show "set (service_list d a) = {i. \<exists>k. d (a, k) = Some i}"
    using fin by (force simp: service_list_def ids_def)
qed

lemma services_in_order:
  assumes "directory_ok d" "sorted as" "distinct as"
  shows "in_order (concat (map (service_list d) as))"
  using assms(2,3)
proof (induction as)
  case (Cons a as)
  have name: "si_service i = b" if "i \<in> set (service_list d b)" for i b
    using that assms(1) by (auto simp: service_list_props(2) [OF assms(1)] directory_ok_def stored_under_name_def)
  have "(si_service x, si_id x) < (si_service y, si_id y)"
    if "x \<in> set (service_list d a)" "y \<in> set (concat (map (service_list d) as))" for x y
  proof -
    from that(2) obtain b where b: "b \<in> set as" "y \<in> set (service_list d b)" by auto
    have "a < b" using Cons.prems b(1) by (auto simp: order_less_le)
    then show ?thesis by (simp add: less_prod_def name [OF that(1)] name [OF b(2)])
  qed
  with Cons service_list_props(1) [OF assms(1)] show ?case by (simp add: in_order_append)
qed (simp add: in_order_def)

lemma filter_instances_ordered:
  assumes "in_order is"
  shows "in_order (filter_instances is v g ts md)"
    and "set (filter_instances is v g ts md) = {i \<in> set is. instance_matches v g ts md i}"
proof -
  have "sort_key (\<lambda>i. (si_service i, si_id i)) is = is"
    using assms by (simp add: in_order_def sorted_sort_id sort_key_id_if_sorted)
  then show "in_order (filter_instances is v g ts md)"
    "set (filter_instances is v g ts md) = {i \<in> set is. instance_matches v g ts md i}"
    using in_order_filter [OF assms] by (auto simp: filter_instances_def)
qed

lemma holds_ok: "holds m data s d \<Longrightarrow> directory_ok d"
  by (simp add: holds_def shape_def)

lemma lookup_leads:
  assumes "setting m data" "holds m data s d" "CHR '':'' \<notin> set a"
  shows "\<exists>is. leads m data (rv_lookup m a v g ts md now) s (Inr is) (alive now d) \<and> in_order is \<and>
    set is = {i. \<exists>k. alive now d (a, k) = Some i \<and> instance_matches v g ts md i}"
proof -
  let ?d = "alive now d"
  have "leads m data (rv_lookup m a v g ts md now) s (Inr (filter_instances (service_list ?d a) v g ts md)) ?d"
    unfolding rv_lookup_def
  proof (rule leads_then [OF cleanup_leads [OF assms(1,2)]])
    fix s1 assume "holds m data s1 ?d"
    from instances_leads [OF assms(1) this assms(3)]
    show "leads m data (and_then (rv_instances m a) (\<lambda>is. give (filter_instances is v g ts md))) s1
        (Inr (filter_instances (service_list ?d a) v g ts md)) ?d"
      by (rule leads_then) (simp add: leads_give)
  qed
  moreover from this have ok: "directory_ok ?d" by (auto simp: leads_def dest: holds_ok)
  moreover note service_list_props [OF ok, of a]
  ultimately show ?thesis
    using filter_instances_ordered [OF service_list_props(1) [OF ok, of a], of v g ts md] by auto
qed

lemma list_leads:
  assumes "setting m data" "holds m data s d"
  shows "\<exists>is. leads m data (rv_list m now) s (Inr is) (alive now d) \<and> in_order is \<and> set is = ran (alive now d)"
proof -
  let ?d = "alive now d"
  let ?as = "sorted_list_of_set {a. ids ?d a \<noteq> {}}"
  have lead: "leads m data (rv_list m now) s (Inr (concat (map (service_list ?d) ?as))) ?d"
    unfolding rv_list_def
  proof (rule leads_then [OF cleanup_leads [OF assms]])
    fix s1 assume s1: "holds m data s1 ?d"
    let ?K = "sorted_list_of_set (rv_known s1)"
    have K: "?K = ?as" using holds_ids(3) [OF s1] by simp
    have "leads m data (each (rv_instances m) ?K) s1 (Inr (map (service_list ?d) ?K)) ?d"
      using assms(1) s1 known_plain [OF s1] holds_ids(2) [OF s1] by (intro each_leads instances_leads) auto
    then have "leads m data (and_then (each (rv_instances m) ?K) (\<lambda>iss. give (concat iss))) s1
        (Inr (concat (map (service_list ?d) ?as))) ?d"
      by (rule leads_then) (simp add: leads_give K)
    then show "leads m data (\<lambda>s. and_then (each (rv_instances m) (sorted_list_of_set (rv_known s)))
        (\<lambda>iss. give (concat iss)) s) s1 (Inr (concat (map (service_list ?d) ?as))) ?d"
      by (simp add: leads_def)
  qed
  then obtain s' where s': "holds m data s' ?d" by (auto simp: leads_def)
  have ok: "directory_ok ?d" by (rule holds_ok [OF s'])
  have fin: "finite {a. ids ?d a \<noteq> {}}" using holds_ids(2,3) [OF s'] by simp
  have "in_order (concat (map (service_list ?d) ?as))"
    by (rule services_in_order [OF ok]) simp_all
  moreover have "set (concat (map (service_list ?d) ?as)) = ran ?d"
    using fin by (auto simp: service_list_props(2) [OF ok] ran_def ids_def)
  ultimately show ?thesis using lead by blast
qed


subsection \<open>The contract of the remote registry\<close>

definition stored_instance :: "'c remote \<Rightarrow> json option \<Rightarrow> instance_data option" where
  "stored_instance m v =
     (case v of
        Some (JObject d) \<Rightarrow>
          (case instance_from_dict (rm_parse m) (rm_text m) d of Inl e \<Rightarrow> None | Inr i \<Rightarrow> Some i)
      | _ \<Rightarrow> None)"

definition rv_view :: "'c remote \<Rightarrow> ('c \<Rightarrow> string \<Rightarrow> string option) \<Rightarrow> 'c remote_services \<Rightarrow> directory" where
  "rv_view m data s =
     (\<lambda>(a, k). if plain_name a k then stored_instance m (content m data s (instance_key m a k)) else None)"

definition rv_inv :: "'c remote \<Rightarrow> ('c \<Rightarrow> string \<Rightarrow> string option) \<Rightarrow> 'c remote_services \<Rightarrow> bool" where
  "rv_inv m data s \<longleftrightarrow> holds m data s (rv_view m data s)"

lemma view_unique:
  assumes "setting m data" "holds m data s d"
  shows "rv_view m data s = d"
proof
  fix x :: "string \<times> string"
  obtain a k where x: "x = (a, k)" by fastforce
  show "rv_view m data s x = d x"
  proof (cases "plain_name a k")
    case True
    note h = holds_record [OF assms(2) True]
    show ?thesis
    proof (cases "d (a, k)")
      case (Some i)
      have "instance_from_dict (rm_parse m) (rm_text m) (instance_to_dict (rm_format m) i) = Inr i"
        using assms(1) h(2) [OF Some] by (intro instance_json_roundtrip') (simp_all add: setting_def)
      with Some h(1) show ?thesis by (simp add: x rv_view_def True stored_instance_def record_of_def)
    qed (use h(1) in \<open>simp add: x rv_view_def True stored_instance_def\<close>)
  next
    case False
    have "plain_name a k" if "d (a, k) \<noteq> None"
      using holds_ok [OF assms(2)] that unfolding directory_ok_def by blast
    with False have "d (a, k) = None" by blast
    with False show ?thesis by (simp add: x rv_view_def)
  qed
qed

lemma leads_view:
  assumes "setting m data" "leads m data f s r d"
  shows "fst (f s) = r" "rv_inv m data (snd (f s))" "rv_view m data (snd (f s)) = d"
proof -
  from assms(2) obtain s' where s': "f s = (r, s')" "holds m data s' d" by (auto simp: leads_def)
  with view_unique [OF assms(1) s'(2)]
  show "fst (f s) = r" "rv_inv m data (snd (f s))" "rv_view m data (snd (f s)) = d" by (simp_all add: rv_inv_def)
qed

text \<open>The operations as those of the contract: what a reliable server never raises is left out.\<close>

definition remote_result :: "remote_error + 'a \<Rightarrow> service_error + 'a" where
  "remote_result r = (case r of Inl (From_registry e) \<Rightarrow> Inl e | Inl (From_backend e) \<Rightarrow> Inl Sv_OverflowError | Inr x \<Rightarrow> Inr x)"

definition total_action :: "('a, 'c) remote_action \<Rightarrow> 'c remote_services \<Rightarrow> 'a \<times> 'c remote_services" where
  "total_action f s = (projr (fst (f s)), snd (f s))"

definition renew_action ::
  "'c remote \<Rightarrow> string \<Rightarrow> string \<Rightarrow> pyfloat \<Rightarrow> time \<Rightarrow> 'c remote_services \<Rightarrow> (service_error + instance_data) \<times> 'c remote_services" where
  "renew_action m a k ttl now s = (remote_result (fst (rv_renew m a k ttl now s)), snd (rv_renew m a k ttl now s))"

lemma remote_service_directory:
  assumes set: "setting m data" and start: "holds m data start (\<lambda>_. None)"
  shows "service_directory (rv_inv m data) (rv_view m data) plain_name representable start
    (\<lambda>i s. snd (rv_register m i s)) (\<lambda>a k. total_action (rv_deregister m a k)) (renew_action m)
    (\<lambda>a v g ts md now. total_action (rv_lookup m a v g ts md now)) (\<lambda>now. total_action (rv_list m now))
    (\<lambda>now. total_action (rv_cleanup m now))"
proof
  show "rv_view m data start = (\<lambda>_. None)" by (rule view_unique [OF set start])
  then show "rv_inv m data start" using start by (simp add: rv_inv_def)
next
  fix s assume "rv_inv m data s"
  then have s: "holds m data s (rv_view m data s)" by (simp add: rv_inv_def)
  show "stored_under_name (rv_view m data s)" using holds_ok [OF s] by (simp add: directory_ok_def)
  show "plain_name a k" if "rv_view m data s (a, k) = Some i" for a k i
    using that holds_ok [OF s] by (auto simp: directory_ok_def)
  show "rv_inv m data (snd (rv_register m i s)) \<and>
      rv_view m data (snd (rv_register m i s)) = (rv_view m data s)((si_service i, si_id i) \<mapsto> i)"
    if "plain_name (si_service i) (si_id i)" "constructed i" "representable i" for i
    using leads_view [OF set register_leads [OF set s that(2,1,3)]] by blast
  show "rv_inv m data (snd (total_action (rv_deregister m a k) s)) \<and>
      rv_view m data (snd (total_action (rv_deregister m a k) s)) = (rv_view m data s)((a, k) := None) \<and>
      fst (total_action (rv_deregister m a k) s) = (rv_view m data s (a, k) \<noteq> None)" if "plain_name a k" for a k
    using leads_view [OF set deregister_leads [OF set s that]] by (simp add: total_action_def)
  show "rv_inv m data (snd (renew_action m a k ttl now s)) \<and>
      (case rv_view m data s (a, k) of
         None \<Rightarrow> fst (renew_action m a k ttl now s) = Inl (ServiceInstanceNotFoundError a k) \<and>
           rv_view m data (snd (renew_action m a k ttl now s)) = rv_view m data s
       | Some i \<Rightarrow> fst (renew_action m a k ttl now s) = renewed ttl now i \<and>
           rv_view m data (snd (renew_action m a k ttl now s)) =
             (case renewed ttl now i of Inl e \<Rightarrow> rv_view m data s | Inr i' \<Rightarrow> (rv_view m data s)((a, k) \<mapsto> i')))"
    if "plain_name a k" for a k ttl now
    using renew_leads [OF set s that, of ttl now] leads_view [OF set, of "rv_renew m a k ttl now" s]
    by (auto simp: renew_action_def remote_result_def split: option.splits sum.splits)
  show "rv_inv m data (snd (total_action (rv_lookup m a v g ts md now) s)) \<and>
      rv_view m data (snd (total_action (rv_lookup m a v g ts md now) s)) = alive now (rv_view m data s) \<and>
      in_order (fst (total_action (rv_lookup m a v g ts md now) s)) \<and>
      set (fst (total_action (rv_lookup m a v g ts md now) s)) =
        {i. \<exists>k. alive now (rv_view m data s) (a, k) = Some i \<and> instance_matches v g ts md i}"
    if "\<And>k. plain_name a k" for a v g ts md now
    using lookup_leads [OF set s, of a v g ts md now] that leads_view [OF set, of "rv_lookup m a v g ts md now" s]
    by (fastforce simp: total_action_def plain_name_def)
  show "rv_inv m data (snd (total_action (rv_list m now) s)) \<and>
      rv_view m data (snd (total_action (rv_list m now) s)) = alive now (rv_view m data s) \<and>
      in_order (fst (total_action (rv_list m now) s)) \<and>
      set (fst (total_action (rv_list m now) s)) = ran (alive now (rv_view m data s))" for now
    using list_leads [OF set s, of now] leads_view [OF set, of "rv_list m now" s]
    by (fastforce simp: total_action_def)
  show "rv_inv m data (snd (total_action (rv_cleanup m now) s)) \<and>
      rv_view m data (snd (total_action (rv_cleanup m now) s)) = alive now (rv_view m data s) \<and>
      fst (total_action (rv_cleanup m now) s) = card {k. \<exists>i. rv_view m data s k = Some i \<and> is_expired now i}" for now
    using leads_view [OF set cleanup_leads [OF set s, of now]] by (simp add: total_action_def)
qed


subsection \<open>The remote and the local registry agree\<close>

fun rv_step :: "'c remote \<Rightarrow> dir_op \<Rightarrow> 'c remote_services \<Rightarrow> 'c remote_services" where
  "rv_step m (Dir_register i) s = snd (rv_register m i s)"
| "rv_step m (Dir_deregister a k) s = snd (rv_deregister m a k s)"
| "rv_step m (Dir_renew a k ttl now) s = snd (rv_renew m a k ttl now s)"
| "rv_step m (Dir_lookup a v g ts md now) s = snd (rv_lookup m a v g ts md now s)"
| "rv_step m (Dir_list now) s = snd (rv_list m now s)"
| "rv_step m (Dir_cleanup now) s = snd (rv_cleanup m now s)"

definition rv_run :: "'c remote \<Rightarrow> dir_op list \<Rightarrow> 'c remote_services \<Rightarrow> 'c remote_services" where
  "rv_run m ops s = fold (rv_step m) ops s"

definition empty_store :: "'c remote \<Rightarrow> ('c \<Rightarrow> string \<Rightarrow> string option) \<Rightarrow> 'c remote_services \<Rightarrow> bool" where
  "empty_store m data s \<longleftrightarrow> usable_backend (rm_redis m) (rv_backend s) \<and> rv_known s = {} \<and>
     (\<forall>k. data (rb_world (rv_backend s)) (redis_key (rm_redis m) k) = None)"

lemma empty_holds: "empty_store m data s \<Longrightarrow> holds m data s (\<lambda>_. None)"
  by (simp add: empty_store_def holds_def good_def shape_def directory_ok_def stored_under_name_def
      records_def ids_def content_def index_set_def)

lemma rv_run_refines:
  assumes "setting m data" "empty_store m data s" "list_all (named_op plain_name representable) ops"
  shows "rv_inv m data (rv_run m ops s) \<and> rv_view m data (rv_run m ops s) = dir_run ops"
proof -
  note dir = remote_service_directory [OF assms(1) empty_holds [OF assms(2)]]
  have step: "rv_inv m data (rv_step m op s) \<and> rv_view m data (rv_step m op s) = dir_step op (rv_view m data s)"
    if "rv_inv m data s" "named_op plain_name representable op" for op s
    using service_directory.step_refines [OF dir that]
    by (cases op) (simp_all add: service_directory.step.simps [OF dir] total_action_def renew_action_def)
  have "rv_inv m data (fold (rv_step m) ops s) \<and> rv_view m data (fold (rv_step m) ops s) = fold dir_step ops (rv_view m data s)"
    if "rv_inv m data s" for s
    using that assms(3)
  proof (induction ops arbitrary: s)
    case (Cons op ops)
    with step [of s op] show ?case by simp
  qed simp
  moreover have "rv_view m data s = (\<lambda>_. None)" "rv_inv m data s"
    using view_unique [OF assms(1) empty_holds [OF assms(2)]] empty_holds [OF assms(2)] by (simp_all add: rv_inv_def)
  ultimately show ?thesis by (simp add: rv_run_def dir_run_def)
qed

lemma in_order_unique: "in_order xs \<Longrightarrow> in_order ys \<Longrightarrow> set xs = set ys \<Longrightarrow> xs = ys"
proof -
  assume o: "in_order xs" "in_order ys" and s: "set xs = set ys"
  let ?f = "\<lambda>i. (si_service i, si_id i)"
  have "map ?f xs = map ?f ys"
    using o s by (intro sorted_distinct_set_unique) (simp_all add: in_order_def)
  moreover have "inj_on ?f (set xs \<union> set ys)" using o(1) s by (simp add: in_order_def distinct_map)
  ultimately show "xs = ys" by (rule map_inj_on)
qed

lemma plain_constructed:
  assumes "list_all (named_op plain_name representable) ops"
  shows "constructed_ops ops"
  using assms by (auto simp: constructed_ops_def list_all_iff)

text \<open>C27: Started on an empty reliable server, with a JSON codec that restores text, null, lists and objects
  with distinct keys, and an \<open>isoformat\<close> that \<open>fromisoformat\<close> inverts on the instants of a datetime, the
  Redis service registry gives, after any operations on services whose names have no colon, the same
  lookups, listings and cleanup counts as the in-memory registry after the same operations, and
  raises nothing there.\<close>

theorem remote_registry_agrees_with_local:
  assumes "setting m data" "empty_store m data s" "list_all (named_op plain_name representable) ops" "CHR '':'' \<notin> set a"
  shows "fst (rv_lookup m a v g ts md now (rv_run m ops s)) = Inr (fst (sv_lookup a v g ts md now (sv_run ops))) \<and>
    fst (rv_list m now (rv_run m ops s)) = Inr (fst (sv_list now (sv_run ops))) \<and>
    fst (rv_cleanup m now (rv_run m ops s)) = Inr (fst (sv_cleanup now (sv_run ops)))"
proof (intro conjI)
  let ?d = "dir_run ops"
  have r: "holds m data (rv_run m ops s) ?d"
    using rv_run_refines [OF assms(1-3)] unfolding rv_inv_def by metis
  note l = local_refines [OF plain_constructed [OF assms(3)]]
  obtain xs where "leads m data (rv_lookup m a v g ts md now) (rv_run m ops s) (Inr xs) (alive now ?d)"
    "in_order xs" "set xs = {i. \<exists>k. alive now ?d (a, k) = Some i \<and> instance_matches v g ts md i}"
    using lookup_leads [OF assms(1) r assms(4), of v g ts md now] by blast
  moreover from this(2,3) have "xs = fst (sv_lookup a v g ts md now (sv_run ops))"
    using lookup_refines [of "sv_run ops" a v g ts md now] l by (intro in_order_unique) simp_all
  ultimately show "fst (rv_lookup m a v g ts md now (rv_run m ops s)) = Inr (fst (sv_lookup a v g ts md now (sv_run ops)))"
    using leads_view(1) [OF assms(1)] by blast
  obtain js where "leads m data (rv_list m now) (rv_run m ops s) (Inr js) (alive now ?d)"
    "in_order js" "set js = ran (alive now ?d)"
    using list_leads [OF assms(1) r, of now] by blast
  moreover from this(2,3) have "js = fst (sv_list now (sv_run ops))"
    using list_refines [of "sv_run ops" now] l by (intro in_order_unique) simp_all
  ultimately show "fst (rv_list m now (rv_run m ops s)) = Inr (fst (sv_list now (sv_run ops)))"
    using leads_view(1) [OF assms(1)] by blast
  show "fst (rv_cleanup m now (rv_run m ops s)) = Inr (fst (sv_cleanup now (sv_run ops)))"
    using leads_view(1) [OF assms(1) cleanup_leads [OF assms(1) r, of now]] cleanup_count [of "sv_run ops" now] l
    by simp
qed


subsection \<open>Sample inputs\<close>

instantiation json :: countable
begin
instance by countable_datatype
end

text \<open>A codec: a value is written as its number, in unary.\<close>

definition memory_remote :: "(string \<Rightarrow> string option) remote" where
  "memory_remote =
     \<lparr>rm_redis = memory_setup, rm_namespace = ''services'',
      rm_dumps = \<lambda>v. Some (replicate (to_nat v) CHR ''x''), rm_loads = \<lambda>s. Some (from_nat (length s)),
      rm_format = sample_format, rm_parse = sample_parse, rm_text = \<lambda>_. ''''\<rparr>"

definition memory_services :: "(string \<Rightarrow> string option) remote_services" where
  "memory_services = \<lparr>rv_known = {}, rv_backend = new_redis_backend memory_setup (\<lambda>_. None)\<rparr>"

lemma memory_setting: "setting memory_remote (\<lambda>w. w)"
  using memory_reliable sample_parse_format by (simp add: setting_def memory_remote_def codec_def)

lemma memory_empty: "empty_store memory_remote (\<lambda>w. w) memory_services"
  using memory_usable [of "\<lambda>_. None"]
  by (simp add: empty_store_def memory_remote_def memory_services_def) (simp add: new_redis_backend_def)

theorem remote_registry_agrees_with_local_witness:
  "fst (rv_lookup memory_remote ''api'' None None {||} [] 5
     (rv_run memory_remote [Dir_register sample_instance, Dir_cleanup 4] memory_services)) = Inr [sample_instance]"
proof -
  have ops: "list_all (named_op plain_name representable) [Dir_register sample_instance, Dir_cleanup 4]"
    using sample_instance_ok sample_representable by (simp add: plain_name_def) (simp add: sample_instance_def)
  have a: "CHR '':'' \<notin> set ''api''" by simp
  have "fst (sv_lookup ''api'' None None {||} [] 5 (sv_run [Dir_register sample_instance, Dir_cleanup 4])) = [sample_instance]"
    by (simp add: sv_run_def sv_register_def sv_cleanup_def sv_lookup_def sv_found_def live_def is_expired_def filter_instances_def
        instance_matches_def sample_instance_def one_second_def dict_get_def Let_def)
  with remote_registry_agrees_with_local [OF memory_setting memory_empty ops a] show ?thesis by simp
qed

end
