(* ===== verification/Package_Models.thy ===== *)
theory Package_Models
  imports TK_Prelude Py_Float
begin

text \<open>
  Marketplace descriptors (\<open>src/marketplace/models.py\<close>): versions and their text, dependencies,
  publishers and packages, with the checks that their constructors make. Metadata mappings are
  association lists.
\<close>

datatype market_value = MV_Str string | MV_Int int | MV_Float pyfloat | MV_Bool bool | MV_None

datatype model_error = Model_ValueError string

datatype package_kind = PK_PLUGIN | PK_PROVIDER | PK_MEMORY | PK_WORKFLOW | PK_TOOL

record package_version =
  pv_major :: int
  pv_minor :: int
  pv_patch :: int
  pv_prerelease :: "string option"

definition mk_version :: "int \<Rightarrow> int \<Rightarrow> int \<Rightarrow> string option \<Rightarrow> model_error + package_version" where
  "mk_version major minor patch pre =
     (if min (min major minor) patch < 0
      then Inl (Model_ValueError ''Package version components must not be negative.'')
      else if pre = Some ''''
      then Inl (Model_ValueError ''Package prerelease must not be empty when provided.'')
      else Inr \<lparr>pv_major = major, pv_minor = minor, pv_patch = patch, pv_prerelease = pre\<rparr>)"

definition version_ok :: "package_version \<Rightarrow> bool" where
  "version_ok v \<longleftrightarrow>
     mk_version (pv_major v) (pv_minor v) (pv_patch v) (pv_prerelease v) = Inr v"

text \<open>Decimal text of a number, as \<open>str\<close> renders it; version components are never negative.\<close>

definition digit_char :: "nat \<Rightarrow> char" where
  "digit_char d = char_of (48 + d)"

fun digits :: "nat \<Rightarrow> string" where
  "digits n = (if n < 10 then [digit_char n] else digits (n div 10) @ [digit_char (n mod 10)])"

definition str_int :: "int \<Rightarrow> string" where
  "str_int i = (if i < 0 then CHR ''-'' # digits (nat (- i)) else digits (nat i))"

definition version_str :: "package_version \<Rightarrow> string" where
  "version_str v =
     (let base = str_int (pv_major v) @ ''.'' @ str_int (pv_minor v) @ ''.'' @ str_int (pv_patch v)
      in case pv_prerelease v of None \<Rightarrow> base | Some p \<Rightarrow> base @ ''-'' @ p)"

record package_dependency =
  dp_package :: string
  dp_constraint :: "string option"
  dp_required :: bool

definition mk_dependency :: "string \<Rightarrow> string option \<Rightarrow> bool \<Rightarrow> model_error + package_dependency" where
  "mk_dependency pid c req =
     (if pid = '''' then Inl (Model_ValueError ''Package dependency requires a package id.'')
      else Inr \<lparr>dp_package = pid, dp_constraint = c, dp_required = req\<rparr>)"

record publisher_descriptor =
  pu_id :: string
  pu_name :: string
  pu_metadata :: "(string, market_value) dict"

definition mk_publisher ::
  "string \<Rightarrow> string \<Rightarrow> (string, market_value) dict \<Rightarrow> model_error + publisher_descriptor" where
  "mk_publisher pid name metadata =
     (if pid = '''' \<or> name = ''''
      then Inl (Model_ValueError ''Publisher id and name are required.'')
      else Inr \<lparr>pu_id = pid, pu_name = name, pu_metadata = metadata\<rparr>)"

record package_descriptor =
  pk_id :: string
  pk_name :: string
  pk_kind :: package_kind
  pk_version :: package_version
  pk_publisher :: publisher_descriptor
  pk_description :: string
  pk_dependencies :: "package_dependency list"
  pk_capabilities :: "string set"
  pk_signature :: "string option"
  pk_metadata :: "(string, market_value) dict"

definition check_package :: "package_descriptor \<Rightarrow> model_error + package_descriptor" where
  "check_package p =
     (if pk_id p = '''' \<or> pk_name p = ''''
      then Inl (Model_ValueError ''Package id and name are required.'')
      else if \<not> distinct (map dp_package (pk_dependencies p))
      then Inl (Model_ValueError ''Package dependencies must not contain duplicates.'')
      else Inr p)"

subsection \<open>Version text\<close>

lemma char_of_digit: "d < 10 \<Longrightarrow> of_char (digit_char d) = 48 + d"
  by (simp add: digit_char_def)

lemma digit_char_inject: "\<lbrakk>a < 10; b < 10; digit_char a = digit_char b\<rbrakk> \<Longrightarrow> a = b"
  by (metis add_left_cancel char_of_digit)

definition is_digit :: "char \<Rightarrow> bool" where
  "is_digit c \<longleftrightarrow> 48 \<le> (of_char c :: nat) \<and> (of_char c :: nat) \<le> 57"

lemma is_digit_digit_char [simp]: "d < 10 \<Longrightarrow> is_digit (digit_char d)"
  by (simp add: is_digit_def char_of_digit)

declare digits.simps [simp del]

lemma digits_digits: "c \<in> set (digits n) \<Longrightarrow> is_digit c"
  by (induction n rule: digits.induct) (subst (asm) (2) digits.simps, auto split: if_splits)

lemma digits_nonempty [simp]: "digits n \<noteq> []"
  by (subst digits.simps) simp

text \<open>\<open>int\<close> on a string of digits.\<close>

definition parse_digits :: "string \<Rightarrow> nat" where
  "parse_digits s = foldl (\<lambda>n c. 10 * n + (of_char c - 48)) 0 s"

lemma parse_digits_digits [simp]: "parse_digits (digits n) = n"
proof (induction n rule: digits.induct)
  case (1 n)
  then show ?case
    by (subst digits.simps) (auto simp: parse_digits_def char_of_digit)
qed

lemma digits_inject [simp]: "digits m = digits n \<longleftrightarrow> m = n"
  by (metis parse_digits_digits)

lemma str_int_digits: "0 \<le> i \<Longrightarrow> str_int i = digits (nat i)"
  by (simp add: str_int_def)

lemma not_digit [simp]: "\<not> is_digit CHR ''.''" "\<not> is_digit CHR ''-''"
  by (simp_all add: is_digit_def)

lemma split_at_nondigit:
  assumes "u @ c # v = u' @ c' # v'" "\<forall>x \<in> set u. is_digit x" "\<forall>x \<in> set u'. is_digit x"
    and "\<not> is_digit c" "\<not> is_digit c'"
  shows "u = u' \<and> c = c' \<and> v = v'"
  using assms
proof (induction u arbitrary: u')
  case Nil
  then show ?case by (cases u') auto
next
  case (Cons a u)
  then show ?case by (cases u') auto
qed

lemma takeWhile_digits:
  assumes "\<forall>x \<in> set u. is_digit x"
  shows "takeWhile is_digit (u @ v) = u @ takeWhile is_digit v"
  using assms by (simp add: takeWhile_append2)

text \<open>Different versions have different texts, so that exact comparison of texts is comparison of
  versions.\<close>

lemma version_str_inject:
  assumes "version_ok v" "version_ok w" "version_str v = version_str w"
  shows "v = w"
proof -
  note ok = assms(1,2) [unfolded version_ok_def mk_version_def]
  have nn: "0 \<le> pv_major v" "0 \<le> pv_minor v" "0 \<le> pv_patch v"
      "0 \<le> pv_major w" "0 \<le> pv_minor w" "0 \<le> pv_patch w"
    using ok by (auto split: if_splits)
  define tail where "tail p = (case p of None \<Rightarrow> '''' | Some q \<Rightarrow> CHR ''-'' # q)" for p :: "string option"
  have str: "version_str x = digits (nat (pv_major x)) @ CHR ''.'' # digits (nat (pv_minor x)) @ CHR ''.'' #
      digits (nat (pv_patch x)) @ tail (pv_prerelease x)"
    if "0 \<le> pv_major x" "0 \<le> pv_minor x" "0 \<le> pv_patch x" for x
    using that by (auto simp: version_str_def str_int_digits tail_def split: option.splits)
  have d: "\<forall>x \<in> set (digits n). is_digit x" for n
    using digits_digits by blast
  note eq = assms(3) [unfolded str [OF nn(1-3)] str [OF nn(4-6)]]
  from split_at_nondigit [OF eq d d] have 1: "pv_major v = pv_major w"
    and eq2: "digits (nat (pv_minor v)) @ CHR ''.'' # digits (nat (pv_patch v)) @ tail (pv_prerelease v)
       = digits (nat (pv_minor w)) @ CHR ''.'' # digits (nat (pv_patch w)) @ tail (pv_prerelease w)"
    using nn by auto
  from split_at_nondigit [OF eq2 d d] have 2: "pv_minor v = pv_minor w"
    and eq3: "digits (nat (pv_patch v)) @ tail (pv_prerelease v)
       = digits (nat (pv_patch w)) @ tail (pv_prerelease w)"
    using nn by auto
  have "takeWhile is_digit (tail p) = []" for p
    by (simp add: tail_def split: option.splits)
  then have "digits (nat (pv_patch v)) = digits (nat (pv_patch w))"
    using arg_cong [OF eq3, of "takeWhile is_digit"] by (simp add: takeWhile_digits [OF d])
  then have 3: "pv_patch v = pv_patch w" "tail (pv_prerelease v) = tail (pv_prerelease w)"
    using eq3 nn by auto
  then have "pv_prerelease v = pv_prerelease w"
    by (auto simp: tail_def split: option.splits)
  with 1 2 3 show ?thesis by simp
qed

end
