(* ===== verification/Package_Graph.thy ===== *)
theory Package_Graph
  imports Package_Models
begin

text \<open>
  The descriptor registry of the Marketplace and its dependency graph
  (\<open>src/marketplace/registry.py\<close>, \<open>catalog.py\<close>, \<open>reference.py\<close>, \<open>dependency.py\<close>).

  \<open>DependencyGraph.resolve\<close> is a depth-first search. Its set \<open>visiting\<close> is restored whenever a call
  of \<open>visit\<close> returns, and an exception leaves all of them, so at every call it holds the identifiers
  on the path from the root; here it is an argument of the recursion. Python's recursion limit is
  not modelled.
\<close>

subsection \<open>Registry, catalog and reference Marketplace\<close>

type_synonym package_registry = "(string, package_descriptor) dict"

datatype market_error =
    PackageConflictError string
  | PackageNotFoundError string
  | DependencyResolutionError string
  | Graph_ValueError string

definition mr_register ::
  "package_descriptor \<Rightarrow> package_registry \<Rightarrow> market_error + package_registry" where
  "mr_register p r = dict_register pk_id (PackageConflictError (pk_id p)) p r"

definition mr_unregister ::
  "string \<Rightarrow> package_registry \<Rightarrow> market_error + package_descriptor \<times> package_registry" where
  "mr_unregister k r =
     (case map_of r k of
        None \<Rightarrow> Inl (PackageNotFoundError k)
      | Some p \<Rightarrow> Inr (p, AList.delete k r))"

definition mr_get :: "string \<Rightarrow> package_registry \<Rightarrow> market_error + package_descriptor" where
  "mr_get k r = dict_lookup (PackageNotFoundError k) k r"

definition mr_list :: "package_kind option \<Rightarrow> package_registry \<Rightarrow> package_descriptor list" where
  "mr_list kind r = filter (\<lambda>p. kind = None \<or> kind = Some (pk_kind p)) (sorted_values r)"

definition mr_exists :: "string \<Rightarrow> package_registry \<Rightarrow> bool" where
  "mr_exists k r \<longleftrightarrow> map_of r k \<noteq> None"

definition mr_snapshot :: "package_registry \<Rightarrow> package_descriptor list" where
  "mr_snapshot r = mr_list None r"

definition mr_clear :: "package_registry \<Rightarrow> package_registry" where
  "mr_clear r = []"

text \<open>\<open>package_id\<close> as the key of the registry: the contract of \<^theory_text>\<open>named_registry\<close> holds.\<close>

interpretation market: named_registry "keyed pk_id" map_of pk_id mr_register mr_get sorted_values
  by (rule dict_named_registry [where err = "\<lambda>p. PackageConflictError (pk_id p)"])
    (simp_all add: mr_register_def mr_get_def)

subsection \<open>The dependency graph\<close>

type_synonym package_graph = "(string, package_descriptor) dict"

definition pg_make :: "package_descriptor list \<Rightarrow> market_error + package_graph" where
  "pg_make ps =
     (let g = fold (\<lambda>p. AList.update (pk_id p) p) ps [] in
      if length g \<noteq> length ps
      then Inl (Graph_ValueError ''Dependency graph package ids must be unique.'') else Inr g)"

definition dependencies_for :: "string \<Rightarrow> package_graph \<Rightarrow> market_error + string list" where
  "dependencies_for k g =
     (case map_of g k of
        None \<Rightarrow> Inl (DependencyResolutionError k)
      | Some p \<Rightarrow> Inr (map dp_package (pk_dependencies p)))"

definition required_ids :: "package_descriptor \<Rightarrow> string list" where
  "required_ids p = map dp_package (filter dp_required (pk_dependencies p))"

datatype visit_error = Cyclic string | Missing string

text \<open>The message of the exception that the two failures raise.\<close>

fun visit_exception :: "visit_error \<Rightarrow> market_error" where
  "visit_exception (Cyclic k) = DependencyResolutionError (''Cyclic dependency at '' @ k @ ''.'')"
| "visit_exception (Missing k) = DependencyResolutionError (''Missing dependency '' @ k @ ''.'')"

definition unexplored :: "package_graph \<Rightarrow> string set \<Rightarrow> nat" where
  "unexplored g visiting = length (filter (\<lambda>(k, p). k \<notin> visiting) g)"

lemma unexplored_insert:
  assumes "map_of g k = Some p" "k \<notin> visiting"
  shows "unexplored g (insert k visiting) < unexplored g visiting"
proof -
  have "(k, p) \<in> set g" using assms(1) by (rule map_of_SomeD)
  then obtain xs ys where g: "g = xs @ (k, p) # ys" by (auto simp: in_set_conv_decomp)
  have "length (filter (\<lambda>(j, p). j \<notin> insert k visiting) zs) \<le> length (filter (\<lambda>(j, p). j \<notin> visiting) zs)"
    for zs :: "(string \<times> package_descriptor) list"
    by (induction zs) auto
  from this [of xs] this [of ys] show ?thesis
    using assms(2) by (simp add: unexplored_def g)
qed

type_synonym search = "string set \<times> package_descriptor list"

function (sequential)
  visit :: "package_graph \<Rightarrow> string set \<Rightarrow> string \<Rightarrow> search \<Rightarrow> visit_error + search"
and visit_all :: "package_graph \<Rightarrow> string set \<Rightarrow> string list \<Rightarrow> search \<Rightarrow> visit_error + search"
where
  "visit g visiting k s =
     (if k \<in> fst s then Inr s
      else if k \<in> visiting then Inl (Cyclic k)
      else case map_of g k of
             None \<Rightarrow> Inl (Missing k)
           | Some p \<Rightarrow>
               (case visit_all g (insert k visiting) (required_ids p) s of
                  Inl e \<Rightarrow> Inl e
                | Inr s' \<Rightarrow> Inr (insert k (fst s'), snd s' @ [p])))"
| "visit_all g visiting [] s = Inr s"
| "visit_all g visiting (k # ks) s =
     (case visit g visiting k s of Inl e \<Rightarrow> Inl e | Inr s' \<Rightarrow> visit_all g visiting ks s')"
  by pat_completeness auto
termination
  by (relation "measures [\<lambda>x. case x of Inl (g, v, k, s) \<Rightarrow> unexplored g v
                                | Inr (g, v, ks, s) \<Rightarrow> unexplored g v,
                          \<lambda>x. case x of Inl _ \<Rightarrow> 0 | Inr (g, v, ks, s) \<Rightarrow> Suc (length ks)]")
    (auto simp: unexplored_insert)

declare visit.simps [simp del]

definition pg_resolve :: "string \<Rightarrow> package_graph \<Rightarrow> visit_error + package_descriptor list" where
  "pg_resolve k g = (case visit g {} k ({}, []) of Inl e \<Rightarrow> Inl e | Inr s \<Rightarrow> Inr (snd s))"

definition mk_publish :: "package_descriptor \<Rightarrow> package_registry \<Rightarrow> market_error + package_registry" where
  "mk_publish p r = mr_register p r"

definition mk_dependency_graph :: "package_registry \<Rightarrow> market_error + package_graph" where
  "mk_dependency_graph r = pg_make (mr_snapshot r)"


subsection \<open>Correctness of the search\<close>

definition requires :: "package_graph \<Rightarrow> (string \<times> string) set" where
  "requires g = {(a, b). \<exists>p. map_of g a = Some p \<and> b \<in> set (required_ids p)}"

text \<open>\<open>dep_ordered g ps\<close>: every package of the list stands in the graph under its own identifier,
  and its required dependencies stand before it; no identifier occurs twice.\<close>

definition dep_ordered :: "package_graph \<Rightarrow> package_descriptor list \<Rightarrow> bool" where
  "dep_ordered g ps \<longleftrightarrow>
     distinct (map pk_id ps) \<and>
     (\<forall>p \<in> set ps. map_of g (pk_id p) = Some p) \<and>
     (\<forall>xs p ys. ps = xs @ p # ys \<longrightarrow> set (required_ids p) \<subseteq> pk_id ` set xs)"

lemma dep_ordered_Nil [simp]: "dep_ordered g []"
  by (simp add: dep_ordered_def)

lemma dep_ordered_snoc:
  assumes "dep_ordered g ps" "map_of g (pk_id p) = Some p" "pk_id p \<notin> pk_id ` set ps"
    and "set (required_ids p) \<subseteq> pk_id ` set ps"
  shows "dep_ordered g (ps @ [p])"
proof -
  have "set (required_ids q) \<subseteq> pk_id ` set xs" if "ps @ [p] = xs @ q # ys" for xs q ys
  proof (cases ys rule: rev_cases)
    case Nil
    with that assms(4) show ?thesis by simp
  next
    case (snoc zs z)
    with that have "ps = xs @ q # zs" by simp
    with assms(1) show ?thesis unfolding dep_ordered_def by blast
  qed
  with assms(1-3) show ?thesis by (auto simp: dep_ordered_def)
qed

definition search_ok :: "package_graph \<Rightarrow> search \<Rightarrow> bool" where
  "search_ok g s \<longleftrightarrow> dep_ordered g (snd s) \<and> fst s = pk_id ` set (snd s)"

text \<open>What one call adds: packages that are reachable from its argument and not on the path.\<close>

definition extends :: "package_graph \<Rightarrow> string set \<Rightarrow> string set \<Rightarrow> search \<Rightarrow> search \<Rightarrow> bool" where
  "extends g visiting from s s' \<longleftrightarrow>
     (\<exists>zs. snd s' = snd s @ zs \<and> pk_id ` set zs \<inter> visiting = {} \<and>
       (\<forall>z \<in> set zs. \<exists>a \<in> from. (a, pk_id z) \<in> (requires g)\<^sup>*))"

lemma extends_refl [simp]: "extends g v A s s"
  by (simp add: extends_def)

lemma extends_trans:
  assumes "extends g v A s s'" "extends g v B s' s''"
  shows "extends g v (A \<union> B) s s''"
proof -
  obtain zs zs' where "snd s' = snd s @ zs" "snd s'' = snd s' @ zs'"
    "pk_id ` set zs \<inter> v = {}" "pk_id ` set zs' \<inter> v = {}"
    "\<forall>z \<in> set zs. \<exists>a \<in> A. (a, pk_id z) \<in> (requires g)\<^sup>*"
    "\<forall>z \<in> set zs'. \<exists>a \<in> B. (a, pk_id z) \<in> (requires g)\<^sup>*"
    using assms unfolding extends_def by blast
  then show ?thesis
    unfolding extends_def by (intro exI [of _ "zs @ zs'"]) auto
qed

lemma visit_sound:
  assumes "keyed pk_id g"
  shows "\<lbrakk>visit g v k s = Inr s'; search_ok g s\<rbrakk>
           \<Longrightarrow> search_ok g s' \<and> k \<in> fst s' \<and> extends g v {k} s s'
             \<and> (k \<notin> fst s \<longrightarrow> map_of g k = Some (last (snd s')) \<and> snd s' \<noteq> [])"
    and "\<lbrakk>visit_all g v ks s = Inr s'; search_ok g s\<rbrakk>
           \<Longrightarrow> search_ok g s' \<and> set ks \<subseteq> fst s' \<and> extends g v (set ks) s s' \<and> fst s \<subseteq> fst s'"
  using assms
proof (induction g v k s and g v ks s arbitrary: s' and s' rule: visit_visit_all.induct)
  case (1 g v k s)
  show ?case
  proof (cases "k \<in> fst s")
    case True
    with 1 show ?thesis by (simp add: visit.simps)
  next
    case new: False
    with "1.prems"(1) have nv: "k \<notin> v" by (auto simp: visit.simps split: if_splits)
    with new "1.prems"(1) obtain p s1 where p: "map_of g k = Some p"
      and s1: "visit_all g (insert k v) (required_ids p) s = Inr s1"
      and s': "s' = (insert k (fst s1), snd s1 @ [p])"
      by (auto simp: visit.simps split: option.splits sum.splits)
    have id: "pk_id p = k" using "1.prems"(3) p by (rule keyed_key)
    from "1.IH" [OF new nv p s1 "1.prems"(2,3)]
    have ok: "search_ok g s1" and deps: "set (required_ids p) \<subseteq> fst s1"
      and ex: "extends g (insert k v) (set (required_ids p)) s s1" by blast+
    obtain zs where zs: "snd s1 = snd s @ zs" "pk_id ` set zs \<inter> insert k v = {}"
      "\<forall>z \<in> set zs. \<exists>a \<in> set (required_ids p). (a, pk_id z) \<in> (requires g)\<^sup>*"
      using ex unfolding extends_def by blast
    have fresh: "k \<notin> pk_id ` set (snd s1)"
      using zs(1,2) new "1.prems"(2) by (auto simp: search_ok_def)
    have "dep_ordered g (snd s1 @ [p])"
      using ok p fresh deps by (intro dep_ordered_snoc) (auto simp: search_ok_def id)
    then have "search_ok g s'"
      using ok by (auto simp: search_ok_def s' id)
    moreover have "(k, pk_id z) \<in> (requires g)\<^sup>*" if z: "z \<in> set zs" for z
    proof -
      obtain a where "a \<in> set (required_ids p)" "(a, pk_id z) \<in> (requires g)\<^sup>*"
        using zs(3) z by blast
      moreover from this p have "(k, a) \<in> requires g" by (auto simp: requires_def)
      ultimately show ?thesis by (meson converse_rtrancl_into_rtrancl)
    qed
    then have "extends g v {k} s s'"
      unfolding extends_def using zs(1,2) nv
      by (intro exI [of _ "zs @ [p]"]) (auto simp: s' id)
    ultimately show ?thesis using p by (simp add: s')
  qed
next
  case (3 g v k ks s)
  from "3.prems"(1) obtain s1 where s1: "visit g v k s = Inr s1" "visit_all g v ks s1 = Inr s'"
    by (auto split: sum.splits)
  from "3.IH"(1) [OF s1(1) "3.prems"(2,3)]
  have 1: "search_ok g s1" "k \<in> fst s1" "extends g v {k} s s1" by blast+
  from "3.IH"(2) [OF s1(1) s1(2) 1(1) "3.prems"(3)]
  have 2: "search_ok g s'" "set ks \<subseteq> fst s'" "extends g v (set ks) s1 s'" "fst s1 \<subseteq> fst s'" by blast+
  have "fst s \<subseteq> fst s1"
    using 1(1,3) "3.prems"(2) by (auto simp: search_ok_def extends_def)
  with 1 2 extends_trans [OF 1(3) 2(3)] show ?case by auto
qed simp_all


lemma visit_error:
  fixes g :: package_graph
  defines "R \<equiv> requires g"
  shows "\<lbrakk>visit g v k s = Inl e; \<forall>a \<in> v. (a, k) \<in> R\<^sup>+\<rbrakk>
           \<Longrightarrow> (\<exists>x. e = Cyclic x \<and> (k, x) \<in> R\<^sup>* \<and> (x, x) \<in> R\<^sup>+)
             \<or> (\<exists>x. e = Missing x \<and> (k, x) \<in> R\<^sup>* \<and> map_of g x = None)"
    and "\<lbrakk>visit_all g v ks s = Inl e; \<forall>a \<in> v. \<forall>k \<in> set ks. (a, k) \<in> R\<^sup>+\<rbrakk>
           \<Longrightarrow> (\<exists>x. e = Cyclic x \<and> (\<exists>k \<in> set ks. (k, x) \<in> R\<^sup>*) \<and> (x, x) \<in> R\<^sup>+)
             \<or> (\<exists>x. e = Missing x \<and> (\<exists>k \<in> set ks. (k, x) \<in> R\<^sup>*) \<and> map_of g x = None)"
  unfolding R_def
proof (induction g v k s and g v ks s rule: visit_visit_all.induct)
  case (1 g v k s)
  let ?R = "requires g"
  from "1.prems"(1) have new: "k \<notin> fst s" by (auto simp: visit.simps)
  show ?case
  proof (cases "k \<in> v")
    case True
    with "1.prems" new show ?thesis by (auto simp: visit.simps)
  next
    case nv: False
    show ?thesis
    proof (cases "map_of g k")
      case None
      with "1.prems"(1) new nv show ?thesis by (auto simp: visit.simps)
    next
      case (Some p)
      with "1.prems"(1) new nv have e: "visit_all g (insert k v) (required_ids p) s = Inl e"
        by (auto simp: visit.simps split: sum.splits)
      have edge: "(k, a) \<in> ?R" if "a \<in> set (required_ids p)" for a
        using that Some by (auto simp: requires_def)
      have "\<forall>a \<in> insert k v. \<forall>d \<in> set (required_ids p). (a, d) \<in> ?R\<^sup>+"
        using edge "1.prems"(2) by (auto intro: trancl.intros)
      note IH = "1.IH" [OF new nv Some e this]
      have reach: "(k, x) \<in> ?R\<^sup>*" if "\<exists>a \<in> set (required_ids p). (a, x) \<in> ?R\<^sup>*" for x
        using that edge by (meson converse_rtrancl_into_rtrancl)
      from IH reach show ?thesis by blast
    qed
  qed
next
  case (3 g v k ks s)
  show ?case
  proof (cases "visit g v k s")
    case (Inl e')
    with "3.prems" "3.IH"(1) [of] show ?thesis by auto
  next
    case (Inr s1)
    with "3.prems" "3.IH"(2) [OF Inr] show ?thesis by auto
  qed
qed simp_all

lemma dep_ordered_before:
  "dep_ordered g (xs @ p # ys) \<Longrightarrow> set (required_ids p) \<subseteq> pk_id ` set xs"
  by (auto simp: dep_ordered_def)

lemma dep_ordered_requires:
  "\<lbrakk>dep_ordered g ps; p \<in> set ps\<rbrakk> \<Longrightarrow> (pk_id p, b) \<in> requires g \<longleftrightarrow> b \<in> set (required_ids p)"
  by (auto simp: dep_ordered_def requires_def)

lemma dep_ordered_closed:
  assumes "dep_ordered g ps" "a \<in> pk_id ` set ps" "(a, b) \<in> (requires g)\<^sup>*"
  shows "b \<in> pk_id ` set ps"
  using assms(3,2)
proof (induction rule: rtrancl_induct)
  case (step b c)
  then obtain p where p: "p \<in> set ps" "b = pk_id p" by auto
  with step.hyps(2) have c: "c \<in> set (required_ids p)"
    using dep_ordered_requires [OF assms(1) p(1)] by simp
  from p(1) obtain xs ys where ps: "ps = xs @ p # ys" by (auto simp: in_set_conv_decomp)
  with c dep_ordered_before [of g xs p ys] assms(1) show ?case by auto
qed

lemma dep_ordered_no_cycle:
  assumes "dep_ordered g ps" "ps = xs @ p # ys" "(pk_id p, b) \<in> (requires g)\<^sup>+"
  shows "b \<in> pk_id ` set xs"
  using assms(3)
proof (induction rule: trancl_induct)
  case (base b)
  have "p \<in> set ps" by (simp add: assms(2))
  with base have "b \<in> set (required_ids p)"
    using dep_ordered_requires [OF assms(1)] by blast
  with dep_ordered_before [of g xs p ys] assms(1,2) show ?case by auto
next
  case (step b c)
  then obtain q where q: "q \<in> set xs" "b = pk_id q" by auto
  then obtain us vs where xs: "xs = us @ q # vs" by (auto simp: in_set_conv_decomp)
  have "q \<in> set ps" using q(1) assms(2) by simp
  then have "c \<in> set (required_ids q)"
    using step.hyps(2) dep_ordered_requires [OF assms(1)] q(2) by blast
  moreover have "dep_ordered g (us @ q # (vs @ p # ys))" using xs assms(1,2) by simp
  ultimately have "c \<in> pk_id ` set us" using dep_ordered_before by blast
  then show ?case using xs by auto
qed

lemma dep_ordered_acyclic:
  assumes "dep_ordered g ps" "a \<in> pk_id ` set ps"
  shows "(a, a) \<notin> (requires g)\<^sup>+"
proof
  assume cyc: "(a, a) \<in> (requires g)\<^sup>+"
  obtain p where "p \<in> set ps" "pk_id p = a"
    using assms(2) by blast
  then obtain xs ys where p: "pk_id p = a" "ps = xs @ p # ys"
    by (auto simp: in_set_conv_decomp)
  with dep_ordered_no_cycle [OF assms(1) p(2)] cyc have "a \<in> pk_id ` set xs" by simp
  with p assms(1) show False by (auto simp: dep_ordered_def)
qed

lemma pg_resolve_Inr:
  assumes "keyed pk_id g" "pg_resolve k g = Inr ps"
  shows "dep_ordered g ps" and "ps \<noteq> []" and "map_of g k = Some (last ps)"
    and "\<And>p. p \<in> set ps \<Longrightarrow> (k, pk_id p) \<in> (requires g)\<^sup>*"
proof -
  obtain s where s: "visit g {} k ({}, []) = Inr s" "ps = snd s"
    using assms(2) by (auto simp: pg_resolve_def split: sum.splits)
  have init: "search_ok g ({}, [])"
    by (simp add: search_ok_def)
  from visit_sound(1) [OF assms(1) s(1) init]
  have ok: "search_ok g s" "extends g {} {k} ({}, []) s"
      "map_of g k = Some (last (snd s)) \<and> snd s \<noteq> []"
    by simp_all
  show "dep_ordered g ps" using ok(1) by (simp add: search_ok_def s(2))
  show "ps \<noteq> []" "map_of g k = Some (last ps)" using ok(3) by (simp_all add: s(2))
  show "(k, pk_id p) \<in> (requires g)\<^sup>*" if "p \<in> set ps" for p
    using ok(2) that by (auto simp: extends_def s(2))
qed

lemma pg_resolve_Inl:
  assumes "pg_resolve k g = Inl e"
  shows "(\<exists>x. e = Cyclic x \<and> (k, x) \<in> (requires g)\<^sup>* \<and> (x, x) \<in> (requires g)\<^sup>+)
       \<or> (\<exists>x. e = Missing x \<and> (k, x) \<in> (requires g)\<^sup>* \<and> map_of g x = None)"
  using assms visit_error(1) [of g "{}" k "({}, [])" e]
  by (auto simp: pg_resolve_def split: sum.splits)


lemma pg_make_keyed:
  assumes "pg_make ds = Inr g"
  shows "keyed pk_id g"
proof -
  have "keyed pk_id (fold (\<lambda>p. AList.update (pk_id p) p) ds d)" if "keyed pk_id d" for d
    using that by (induction ds arbitrary: d) auto
  then show ?thesis
    using assms by (auto simp: pg_make_def Let_def split: if_splits)
qed

lemma pg_make_fold:
  "\<lbrakk>distinct (map pk_id ds); pk_id ` set ds \<inter> fst ` set d = {}\<rbrakk>
     \<Longrightarrow> fold (\<lambda>p. AList.update (pk_id p) p) ds d = d @ map (\<lambda>p. (pk_id p, p)) ds"
proof (induction ds arbitrary: d)
  case (Cons p ds)
  have "AList.update (pk_id p) p d = d @ [(pk_id p, p)]" if "pk_id p \<notin> fst ` set d"
    using that by (induction d) auto
  with Cons show ?case by auto
qed simp

lemma pg_make_distinct:
  "distinct (map pk_id ds) \<Longrightarrow> pg_make ds = Inr (map (\<lambda>p. (pk_id p, p)) ds)"
  by (simp add: pg_make_def Let_def pg_make_fold)

text \<open>The graph of a registry is never rejected and has the registry's packages.\<close>

lemma dependency_graph_of_registry:
  assumes "keyed pk_id r"
  shows "\<exists>g. mk_dependency_graph r = Inr g \<and> map_of g = map_of r"
proof -
  let ?ps = "sorted_values r"
  have ids: "map pk_id ?ps = sorted_keys r"
    using assms by (auto intro!: map_key_sorted_values simp: keyed_iff)
  have d: "distinct (map pk_id ?ps)"
    using keyed_listing(3) [OF assms] .
  have "map_of (map (\<lambda>p. (pk_id p, p)) ?ps) k = map_of r k" for k
  proof (cases "map_of r k")
    case None
    then have "k \<notin> pk_id ` set ?ps"
      using assms keyed_listing(1) [OF assms] by (auto simp: ran_def dest: keyed_key)
    then have "map_of (map (\<lambda>p. (pk_id p, p)) ?ps) k = None"
      by (simp add: map_of_eq_None_iff image_image)
    with None show ?thesis by simp
  next
    case (Some p)
    then have "p \<in> set ?ps" "pk_id p = k"
      using keyed_listing(1) [OF assms] keyed_key [OF assms] by (auto simp: ran_def)
    then have "(k, p) \<in> set (map (\<lambda>p. (pk_id p, p)) ?ps)" by auto
    with d Some show ?thesis by (auto simp: o_def intro: map_of_is_SomeI)
  qed
  then show ?thesis
    using pg_make_distinct [OF d]
    by (auto simp: mk_dependency_graph_def mr_snapshot_def mr_list_def)
qed

lemma pg_resolve_closed:
  assumes "keyed pk_id g" "pg_resolve k g = Inr ps"
  shows "pk_id ` set ps = {x. (k, x) \<in> (requires g)\<^sup>*}"
proof -
  note r = pg_resolve_Inr [OF assms]
  have "k \<in> pk_id ` set ps"
    using r(2,3) keyed_key [OF assms(1) r(3)] by (metis imageI last_in_set)
  from dep_ordered_closed [OF r(1) this] r(4) show ?thesis by blast
qed

text \<open>C22: a resolved package order is complete and installable: it contains exactly the packages that
  the requested one reaches through required dependencies, each once and as the graph declares it,
  the requested package comes last, and every package comes after all the packages it requires.\<close>

theorem package_order_correct:
  assumes "pg_make ds = Inr g" "pg_resolve k g = Inr ps"
  shows "distinct (map pk_id ps)
    \<and> pk_id ` set ps = {x. (k, x) \<in> (requires g)\<^sup>*}
    \<and> (\<forall>p \<in> set ps. map_of g (pk_id p) = Some p)
    \<and> pk_id (last ps) = k
    \<and> (\<forall>xs p ys. ps = xs @ p # ys \<longrightarrow> set (required_ids p) \<subseteq> pk_id ` set xs)"
proof -
  note k = pg_make_keyed [OF assms(1)]
  note r = pg_resolve_Inr [OF k assms(2)]
  show ?thesis
    using r(1) pg_resolve_closed [OF k assms(2)] keyed_key [OF k r(3)] by (simp add: dep_ordered_def)
qed

definition sample_package :: "string \<Rightarrow> package_dependency list \<Rightarrow> package_descriptor" where
  "sample_package k ds = \<lparr>pk_id = k, pk_name = k, pk_kind = PK_TOOL,
     pk_version = \<lparr>pv_major = 1, pv_minor = 0, pv_patch = 0, pv_prerelease = None\<rparr>,
     pk_publisher = \<lparr>pu_id = ''p'', pu_name = ''P'', pu_metadata = []\<rparr>, pk_description = '''',
     pk_dependencies = ds, pk_capabilities = {}, pk_signature = None, pk_metadata = []\<rparr>"

definition sample_packages :: "package_descriptor list" where
  "sample_packages =
     [sample_package ''app'' [\<lparr>dp_package = ''lib'', dp_constraint = None, dp_required = True\<rparr>,
                              \<lparr>dp_package = ''gone'', dp_constraint = None, dp_required = False\<rparr>],
      sample_package ''lib'' [\<lparr>dp_package = ''base'', dp_constraint = None, dp_required = True\<rparr>],
      sample_package ''base'' []]"

lemma package_order_correct_witness:
  "\<exists>g ps. pg_make sample_packages = Inr g \<and> pg_resolve ''app'' g = Inr ps
     \<and> map pk_id ps = [''base'', ''lib'', ''app''] \<and> pk_id (last ps) = ''app''"
proof -
  obtain g where g: "pg_make sample_packages = Inr g"
      "g = map (\<lambda>p. (pk_id p, p)) sample_packages"
    by (simp add: pg_make_distinct sample_packages_def sample_package_def)

  have g': "map_of g ''app'' = Some (sample_packages ! 0)" "map_of g ''lib'' = Some (sample_packages ! 1)"
      "map_of g ''base'' = Some (sample_packages ! 2)"
    by (simp_all add: g(2) sample_packages_def sample_package_def)
  have r: "required_ids (sample_packages ! 0) = [''lib'']" "required_ids (sample_packages ! 1) = [''base'']"
      "required_ids (sample_packages ! 2) = []"
    by (simp_all add: sample_packages_def sample_package_def required_ids_def)
  have "visit g {} ''app'' ({}, []) = Inr ({''app'', ''lib'', ''base''},
      [sample_packages ! 2, sample_packages ! 1, sample_packages ! 0])"
    by (simp add: visit.simps [of g _ "''app''"] visit.simps [of g _ "''lib''"]
        visit.simps [of g _ "''base''"] g' r [simplified])
  then have ps: "pg_resolve ''app'' g = Inr [sample_packages ! 2, sample_packages ! 1, sample_packages ! 0]"
      "map pk_id [sample_packages ! 2, sample_packages ! 1, sample_packages ! 0] = [''base'', ''lib'', ''app'']"
    by (simp_all add: pg_resolve_def sample_packages_def sample_package_def)
  have "pk_id (last [sample_packages ! 2, sample_packages ! 1, sample_packages ! 0]) = ''app''"
    using package_order_correct [OF g(1) ps(1)] by (elim conjE)
  with g(1) ps show ?thesis by (intro exI conjI)
qed

text \<open>Resolution succeeds exactly when it can: every identifier that is reached through required
  dependencies is in the graph and none of them requires itself, directly or not. Otherwise the
  exception names a reached identifier that is missing or lies on a cycle.\<close>

theorem package_resolution_total:
  assumes "pg_make ds = Inr g"
  shows "((\<exists>ps. pg_resolve k g = Inr ps) \<longleftrightarrow>
      (\<forall>x. (k, x) \<in> (requires g)\<^sup>* \<longrightarrow> map_of g x \<noteq> None \<and> (x, x) \<notin> (requires g)\<^sup>+))
    \<and> (\<forall>e. pg_resolve k g = Inl e \<longrightarrow>
        (\<exists>x. (k, x) \<in> (requires g)\<^sup>* \<and>
          (e = Cyclic x \<and> (x, x) \<in> (requires g)\<^sup>+ \<or> e = Missing x \<and> map_of g x = None)))"
proof -
  note key = pg_make_keyed [OF assms]
  have "map_of g x \<noteq> None \<and> (x, x) \<notin> (requires g)\<^sup>+"
    if "pg_resolve k g = Inr ps" "(k, x) \<in> (requires g)\<^sup>*" for ps x
  proof -
    have x: "x \<in> pk_id ` set ps" using pg_resolve_closed [OF key that(1)] that(2) by simp
    moreover have "dep_ordered g ps" by (rule pg_resolve_Inr(1) [OF key that(1)])
    ultimately show ?thesis
      using dep_ordered_acyclic by (auto simp: dep_ordered_def)
  qed
  then show ?thesis
    using pg_resolve_Inl [of k g] by (cases "pg_resolve k g") auto
qed

lemma package_resolution_total_witness:
  "\<exists>g. pg_make (sample_package ''z'' [\<lparr>dp_package = ''z'', dp_constraint = None, dp_required = True\<rparr>]
        # sample_packages) = Inr g
     \<and> \<not> (\<exists>ps. pg_resolve ''z'' g = Inr ps) \<and> (''z'', ''z'') \<in> (requires g)\<^sup>+"
proof -
  let ?ds = "sample_package ''z'' [\<lparr>dp_package = ''z'', dp_constraint = None, dp_required = True\<rparr>]
        # sample_packages"
  obtain g where g: "pg_make ?ds = Inr g" "g = map (\<lambda>p. (pk_id p, p)) ?ds"
    by (simp add: pg_make_distinct sample_packages_def sample_package_def)
  have "(''z'', ''z'') \<in> requires g"
    by (auto simp: requires_def g(2) sample_package_def required_ids_def image_iff)
  then have "(''z'', ''z'') \<in> (requires g)\<^sup>+" by blast
  with package_resolution_total [OF g(1), of "''z''"] g(1) show ?thesis by blast
qed

end
