(* ===== verification/Package_Catalog.thy ===== *)
theory Package_Catalog
  imports Package_Models "HOL-Library.Product_Lexorder" "HOL-Library.Sublist" "HOL-Library.Multiset"
begin

text \<open>
  Publishers (\<open>src/marketplace/publisher/\<close>) and the package catalog
  (\<open>src/marketplace/package_catalog/\<close>): descriptors with the checks of their constructors, the two
  in-memory registries, and the local search. A frozenset of tags is the list of its elements in
  iteration order. \<open>str.casefold\<close> is the parameter \<open>casefold\<close> of the search.
\<close>

subsection \<open>Publishers\<close>

datatype publisher_tier = COMMUNITY | VERIFIED | OFFICIAL | ENTERPRISE

record publisher_capability =
  pc_name :: string
  pc_description :: string

definition mk_capability :: "string \<Rightarrow> string \<Rightarrow> model_error + publisher_capability" where
  "mk_capability name d =
     (if name = '''' then Inl (Model_ValueError ''Publisher capability requires a name.'')
      else Inr \<lparr>pc_name = name, pc_description = d\<rparr>)"

record publisher_organization =
  og_id :: string
  og_name :: string
  og_metadata :: "(string, market_value) dict"

definition mk_organization ::
  "string \<Rightarrow> string \<Rightarrow> (string, market_value) dict \<Rightarrow> model_error + publisher_organization" where
  "mk_organization oid name metadata =
     (if oid = '''' \<or> name = ''''
      then Inl (Model_ValueError ''Publisher organization id and name are required.'')
      else Inr \<lparr>og_id = oid, og_name = name, og_metadata = metadata\<rparr>)"

record publisher_profile =
  pf_display_name :: string
  pf_description :: string
  pf_website :: "string option"
  pf_metadata :: "(string, market_value) dict"

definition mk_profile ::
  "string \<Rightarrow> string \<Rightarrow> string option \<Rightarrow> (string, market_value) dict \<Rightarrow> model_error + publisher_profile"
  where
  "mk_profile name d website metadata =
     (if name = '''' then Inl (Model_ValueError ''Publisher profile requires a display name.'')
      else Inr \<lparr>pf_display_name = name, pf_description = d, pf_website = website,
                pf_metadata = metadata\<rparr>)"

record publisher =
  pb_id :: string
  pb_profile :: publisher_profile
  pb_tier :: publisher_tier
  pb_organization :: "publisher_organization option"
  pb_capabilities :: "publisher_capability set"
  pb_metadata :: "(string, market_value) dict"

definition mk_market_publisher ::
  "string \<Rightarrow> publisher_profile \<Rightarrow> publisher_tier \<Rightarrow> publisher_organization option \<Rightarrow>
     publisher_capability set \<Rightarrow> (string, market_value) dict \<Rightarrow> model_error + publisher" where
  "mk_market_publisher i p t og cs md =
     (if i = '''' then Inl (Model_ValueError ''Publisher requires an id.'')
      else Inr \<lparr>pb_id = i, pb_profile = p, pb_tier = t, pb_organization = og,
                pb_capabilities = cs, pb_metadata = md\<rparr>)"

text \<open>The factory: the profile is constructed first.\<close>

definition create_publisher ::
  "string \<Rightarrow> string \<Rightarrow> string \<Rightarrow> string option \<Rightarrow> publisher_tier \<Rightarrow> publisher_organization option \<Rightarrow>
     publisher_capability set \<Rightarrow> (string, market_value) dict option \<Rightarrow> model_error + publisher" where
  "create_publisher i name d website t og cs md =
     (let m = (case md of None \<Rightarrow> [] | Some x \<Rightarrow> x) in
      case mk_profile name d website m of
        Inl e \<Rightarrow> Inl e
      | Inr p \<Rightarrow> mk_market_publisher i p t og cs m)"

text \<open>\<open>PublisherPolicy.validate_creation\<close>: always valid, with the warnings it returns.\<close>

definition validate_creation :: "publisher \<Rightarrow> bool \<times> string list" where
  "validate_creation p =
     (True, if pb_tier p \<in> {OFFICIAL, ENTERPRISE} \<and> pb_organization p = None
            then [''Official or Enterprise publisher has no organization.''] else [])"

datatype publisher_error =
    PublisherConflictError string
  | PublisherNotFoundError string
  | Publisher_ValueError string

type_synonym publisher_registry = "(string, publisher) dict"

definition pub_register :: "publisher \<Rightarrow> publisher_registry \<Rightarrow> publisher_error + publisher_registry" where
  "pub_register p r = dict_register pb_id (PublisherConflictError (pb_id p)) p r"

definition pub_unregister ::
  "string \<Rightarrow> publisher_registry \<Rightarrow> publisher_error + publisher \<times> publisher_registry" where
  "pub_unregister k r =
     (case map_of r k of
        None \<Rightarrow> Inl (PublisherNotFoundError k)
      | Some p \<Rightarrow> Inr (p, AList.delete k r))"

definition pub_get :: "string \<Rightarrow> publisher_registry \<Rightarrow> publisher_error + publisher" where
  "pub_get k r = dict_lookup (PublisherNotFoundError k) k r"

definition pub_list :: "publisher_tier option \<Rightarrow> publisher_registry \<Rightarrow> publisher list" where
  "pub_list t r = filter (\<lambda>p. t = None \<or> t = Some (pb_tier p)) (sorted_values r)"

definition pub_create ::
  "string \<Rightarrow> string \<Rightarrow> publisher_tier \<Rightarrow> publisher_registry \<Rightarrow>
     publisher_error + publisher \<times> publisher_registry" where
  "pub_create i name t r =
     (case create_publisher i name '''' None t None {} None of
        Inl (Model_ValueError x) \<Rightarrow> Inl (Publisher_ValueError x)
      | Inr p \<Rightarrow> (case pub_register p r of Inl e \<Rightarrow> Inl e | Inr r' \<Rightarrow> Inr (p, r')))"

definition pub_clear :: "publisher_registry \<Rightarrow> publisher_registry" where
  "pub_clear r = []"

interpretation publishers: named_registry "keyed pb_id" map_of pb_id pub_register pub_get sorted_values
  by (rule dict_named_registry [where err = "\<lambda>p. PublisherConflictError (pb_id p)"])
    (simp_all add: pub_register_def pub_get_def)

subsection \<open>Manifests\<close>

datatype package_category =
    CAT_PROVIDER | CAT_WORKFLOW | CAT_TOOL | CAT_PLUGIN | CAT_MEMORY | CAT_TEMPLATE | CAT_EXTENSION

fun category_value :: "package_category \<Rightarrow> string" where
  "category_value CAT_PROVIDER = ''provider''"
| "category_value CAT_WORKFLOW = ''workflow''"
| "category_value CAT_TOOL = ''tool''"
| "category_value CAT_PLUGIN = ''plugin''"
| "category_value CAT_MEMORY = ''memory''"
| "category_value CAT_TEMPLATE = ''template''"
| "category_value CAT_EXTENSION = ''extension''"

text \<open>The characters that \<open>str.strip\<close> removes, among the first 256.\<close>

definition is_space :: "char \<Rightarrow> bool" where
  "is_space c \<longleftrightarrow> (of_char c :: nat) \<in> {9, 10, 11, 12, 13, 28, 29, 30, 31, 32, 133, 160}"

definition strip :: "string \<Rightarrow> string" where
  "strip s = rev (dropWhile is_space (rev (dropWhile is_space s)))"

definition mk_tag :: "string \<Rightarrow> model_error + string" where
  "mk_tag v = (if v = '''' \<or> v \<noteq> strip v
               then Inl (Model_ValueError ''Package tag must not be empty or padded.'') else Inr v)"

record icon =
  ic_name :: string
  ic_media_type :: string

definition mk_icon :: "string \<Rightarrow> string \<Rightarrow> model_error + icon" where
  "mk_icon name t = (if name = '''' then Inl (Model_ValueError ''Package icon requires a name.'')
                     else Inr \<lparr>ic_name = name, ic_media_type = t\<rparr>)"

record package_metadata =
  pm_summary :: string
  pm_icon :: "icon option"
  pm_values :: "(string, market_value) dict"

record compatibility =
  cm_runtime :: "string option"
  cm_sdk :: "string option"
  cm_studio :: "string option"
  cm_enterprise :: "string option"
  cm_cloud :: "string option"

record manifest =
  mf_package_id :: string
  mf_publisher_id :: string
  mf_name :: string
  mf_description :: string
  mf_version :: package_version
  mf_category :: package_category
  mf_tags :: "string list"
  mf_compatibility :: compatibility
  mf_dependencies :: "package_dependency list"
  mf_metadata :: package_metadata

definition check_manifest :: "manifest \<Rightarrow> model_error + manifest" where
  "check_manifest m =
     (if mf_package_id m = '''' \<or> mf_publisher_id m = '''' \<or> mf_name m = ''''
      then Inl (Model_ValueError ''Package manifest id, publisher id, and name are required.'')
      else if \<not> distinct (map dp_package (mf_dependencies m))
      then Inl (Model_ValueError ''Package manifest dependencies must not contain duplicates.'')
      else Inr m)"

record catalog_package =
  cg_manifest :: manifest
  cg_featured :: bool

definition cg_id :: "catalog_package \<Rightarrow> string" where
  "cg_id p = mf_package_id (cg_manifest p)"

subsection \<open>The catalog service\<close>

datatype catalog_error =
    CatalogPackageConflictError string
  | CatalogPackageNotFoundError string

type_synonym package_catalog = "(string, catalog_package) dict"

definition cat_register :: "catalog_package \<Rightarrow> package_catalog \<Rightarrow> catalog_error + package_catalog" where
  "cat_register p c = dict_register cg_id (CatalogPackageConflictError (cg_id p)) p c"

definition cat_unregister ::
  "string \<Rightarrow> package_catalog \<Rightarrow> catalog_error + catalog_package \<times> package_catalog" where
  "cat_unregister k c =
     (case map_of c k of
        None \<Rightarrow> Inl (CatalogPackageNotFoundError k)
      | Some p \<Rightarrow> Inr (p, AList.delete k c))"

definition cat_get :: "string \<Rightarrow> package_catalog \<Rightarrow> catalog_error + catalog_package" where
  "cat_get k c = dict_lookup (CatalogPackageNotFoundError k) k c"

definition cat_list :: "package_catalog \<Rightarrow> catalog_package list" where
  "cat_list c = sorted_values c"

definition cat_close :: "package_catalog \<Rightarrow> package_catalog" where
  "cat_close c = []"

interpretation catalog: named_registry "keyed cg_id" map_of cg_id cat_register cat_get sorted_values
  by (rule dict_named_registry [where err = "\<lambda>p. CatalogPackageConflictError (cg_id p)"])
    (simp_all add: cat_register_def cat_get_def)

record catalog_filter =
  cf_category :: "package_category option"
  cf_publisher_id :: "string option"
  cf_tag :: "string option"
  cf_version :: "package_version option"

datatype catalog_sort = BY_NAME | BY_PUBLISHER | BY_VERSION

record catalog_query =
  cq_keyword :: "string option"
  cq_filter :: catalog_filter
  cq_sort :: catalog_sort
  cq_descending :: bool

definition catalog_matches :: "catalog_filter \<Rightarrow> catalog_package \<Rightarrow> bool" where
  "catalog_matches f p \<longleftrightarrow>
     (let m = cg_manifest p in
        (cf_category f = None \<or> cf_category f = Some (mf_category m))
      \<and> (cf_publisher_id f = None \<or> cf_publisher_id f = Some (mf_publisher_id m))
      \<and> (case cf_tag f of None \<Rightarrow> True | Some t \<Rightarrow> t \<in> set (mf_tags m))
      \<and> (cf_version f = None \<or> cf_version f = Some (mf_version m)))"

definition cat_filter :: "catalog_filter \<Rightarrow> package_catalog \<Rightarrow> catalog_package list" where
  "cat_filter f c = filter (catalog_matches f) (cat_list c)"

text \<open>\<open>'' ''.join\<close> of a list of strings.\<close>

fun joined :: "string \<Rightarrow> string list \<Rightarrow> string" where
  "joined sep [] = ''''"
| "joined sep [x] = x"
| "joined sep (x # xs) = x @ sep @ joined sep xs"

definition search_text :: "catalog_package \<Rightarrow> string" where
  "search_text p =
     (let m = cg_manifest p in
      joined '' '' ([mf_name m, mf_description m, mf_publisher_id m] @ mf_tags m))"

text \<open>\<open>sorted(xs, key=key, reverse=reverse)\<close>, which keeps equal elements in their order.\<close>

definition py_sorted :: "('a \<Rightarrow> 'k::linorder) \<Rightarrow> bool \<Rightarrow> 'a list \<Rightarrow> 'a list" where
  "py_sorted key reverse xs = (if reverse then rev (sort_key key (rev xs)) else sort_key key xs)"

definition pre_text :: "package_version \<Rightarrow> string" where
  "pre_text v = (case pv_prerelease v of None \<Rightarrow> '''' | Some p \<Rightarrow> p)"

definition cat_sort :: "catalog_sort \<Rightarrow> bool \<Rightarrow> catalog_package list \<Rightarrow> catalog_package list" where
  "cat_sort field desc ps =
     (case field of
        BY_PUBLISHER \<Rightarrow>
          py_sorted (\<lambda>p. (mf_publisher_id (cg_manifest p), mf_name (cg_manifest p), cg_id p)) desc ps
      | BY_VERSION \<Rightarrow>
          py_sorted (\<lambda>p. let v = mf_version (cg_manifest p) in
                       (pv_major v, pv_minor v, pv_patch v, pre_text v, cg_id p)) desc ps
      | BY_NAME \<Rightarrow> py_sorted (\<lambda>p. (mf_name (cg_manifest p), cg_id p)) desc ps)"

definition default_query :: catalog_query where
  "default_query = \<lparr>cq_keyword = None,
     cq_filter = \<lparr>cf_category = None, cf_publisher_id = None, cf_tag = None, cf_version = None\<rparr>,
     cq_sort = BY_NAME, cq_descending = False\<rparr>"

definition cat_search ::
  "(string \<Rightarrow> string) \<Rightarrow> catalog_query option \<Rightarrow> package_catalog \<Rightarrow> catalog_package list \<times> int" where
  "cat_search casefold query c =
     (let q = (case query of None \<Rightarrow> default_query | Some x \<Rightarrow> x);
          ps = cat_filter (cq_filter q) c;
          ps' = (case cq_keyword q of
                   None \<Rightarrow> ps
                 | Some k \<Rightarrow> if k = '''' then ps
                             else filter (\<lambda>p. sublist (casefold k) (casefold (search_text p))) ps);
          ordered = cat_sort (cq_sort q) (cq_descending q) ps'
      in (ordered, int (length ordered)))"

subsection \<open>Search\<close>

lemma mset_py_sorted [simp]: "mset (py_sorted key r xs) = mset xs"
  by (simp add: py_sorted_def)

lemma set_py_sorted [simp]: "set (py_sorted key r xs) = set xs"
  by (simp add: py_sorted_def)

lemma length_py_sorted [simp]: "length (py_sorted key r xs) = length xs"
  by (simp add: py_sorted_def)

lemma distinct_py_sorted [simp]: "distinct (py_sorted key r xs) = distinct xs"
  by (simp add: py_sorted_def)

lemma sorted_py_sorted:
  "sorted (map key (if r then rev (py_sorted key r xs) else py_sorted key r xs))"
  by (simp add: py_sorted_def)

lemma cat_sort_set [simp]:
  "set (cat_sort field d ps) = set ps" "distinct (cat_sort field d ps) = distinct ps"
  by (cases field; simp add: cat_sort_def)+

text \<open>The packages that a query asks for.\<close>

definition asked_for :: "(string \<Rightarrow> string) \<Rightarrow> catalog_query \<Rightarrow> catalog_package \<Rightarrow> bool" where
  "asked_for casefold q p \<longleftrightarrow> catalog_matches (cq_filter q) p \<and>
     (case cq_keyword q of None \<Rightarrow> True
      | Some k \<Rightarrow> k = '''' \<or> sublist (casefold k) (casefold (search_text p)))"

lemma cat_search_filter:
  "fst (cat_search casefold (Some q) c) =
     cat_sort (cq_sort q) (cq_descending q) (filter (asked_for casefold q) (sorted_values c))"
  by (auto simp: cat_search_def asked_for_def cat_filter_def cat_list_def Let_def
      split: option.splits intro!: arg_cong [of _ _ "cat_sort _ _"] filter_cong)

lemma dict_values_distinct:
  assumes "keyed key (d :: ('k::linorder, 'v) dict)"
  shows "distinct (sorted_values d)"
  using keyed_listing(3) [OF assms] by (simp add: distinct_map)

text \<open>A catalog search returns each registered package that satisfies the filter and contains the
  keyword, once, and nothing else, with their number as the total; by name the result is sorted by
  name and package id, downwards when asked for; and registering the packages in another order
  gives the same result.\<close>

theorem catalog_search_exact:
  assumes "keyed cg_id c"
  shows "set (fst (cat_search casefold (Some q) c)) = {p \<in> ran (map_of c). asked_for casefold q p}
    \<and> distinct (fst (cat_search casefold (Some q) c))
    \<and> snd (cat_search casefold (Some q) c) = int (card {p \<in> ran (map_of c). asked_for casefold q p})
    \<and> (cq_sort q = BY_NAME \<longrightarrow>
        sorted (map (\<lambda>p. (mf_name (cg_manifest p), cg_id p))
          (if cq_descending q then rev (fst (cat_search casefold (Some q) c))
           else fst (cat_search casefold (Some q) c))))
    \<and> (\<forall>c'. keyed cg_id c' \<and> map_of c' = map_of c \<longrightarrow>
        cat_search casefold (Some q) c' = cat_search casefold (Some q) c)"
proof -
  let ?r = "fst (cat_search casefold (Some q) c)"
  have set: "set ?r = {p \<in> ran (map_of c). asked_for casefold q p}"
    using keyed_listing(1) [OF assms] by (auto simp: cat_search_filter)
  have dist: "distinct ?r"
    using dict_values_distinct [OF assms] by (simp add: cat_search_filter)
  have "snd (cat_search casefold (Some q) c) = int (length ?r)"
    by (simp add: cat_search_def Let_def)
  then have total: "snd (cat_search casefold (Some q) c) = int (card {p \<in> ran (map_of c). asked_for casefold q p})"
    using distinct_card [OF dist] set by simp
  have srt: "sorted (map (\<lambda>p. (mf_name (cg_manifest p), cg_id p)) (if cq_descending q then rev ?r else ?r))"
    if "cq_sort q = BY_NAME"
    unfolding cat_search_filter that cat_sort_def catalog_sort.case by (rule sorted_py_sorted)
  have "cat_search casefold (Some q) c' = cat_search casefold (Some q) c"
    if "keyed cg_id c'" "map_of c' = map_of c" for c'
    using sorted_values_cong [of c' c] that assms
    by (simp add: cat_search_def cat_filter_def cat_list_def keyed_dict_ok)
  with set dist total srt show ?thesis by blast
qed


definition sample_manifest :: "string \<Rightarrow> string \<Rightarrow> package_version \<Rightarrow> manifest" where
  "sample_manifest k name v = \<lparr>mf_package_id = k, mf_publisher_id = ''acme'', mf_name = name,
     mf_description = ''demo'', mf_version = v, mf_category = CAT_TOOL, mf_tags = [''x''],
     mf_compatibility = \<lparr>cm_runtime = None, cm_sdk = None, cm_studio = None, cm_enterprise = None,
                         cm_cloud = None\<rparr>,
     mf_dependencies = [],
     mf_metadata = \<lparr>pm_summary = '''', pm_icon = None, pm_values = []\<rparr>\<rparr>"

definition sample_version :: "int \<Rightarrow> package_version" where
  "sample_version n = \<lparr>pv_major = n, pv_minor = 0, pv_patch = 0, pv_prerelease = None\<rparr>"

definition sample_catalog :: package_catalog where
  "sample_catalog =
     [(''b'', \<lparr>cg_manifest = sample_manifest ''b'' ''B'' (sample_version 1), cg_featured = False\<rparr>),
      (''a'', \<lparr>cg_manifest = sample_manifest ''a'' ''A'' (sample_version 2), cg_featured = False\<rparr>)]"

lemma catalog_search_exact_witness:
  "set (fst (cat_search (\<lambda>s. s) (Some (default_query\<lparr>cq_keyword := Some ''B''\<rparr>)) sample_catalog))
     = {snd (sample_catalog ! 0)}
   \<and> snd (cat_search (\<lambda>s. s) (Some (default_query\<lparr>cq_keyword := Some ''B''\<rparr>)) sample_catalog) = 1"
proof -
  let ?q = "default_query\<lparr>cq_keyword := Some ''B''\<rparr>"
  have k: "keyed cg_id sample_catalog"
    by (simp add: keyed_def sample_catalog_def cg_id_def sample_manifest_def)
  have ran: "ran (map_of sample_catalog) = {snd (sample_catalog ! 0), snd (sample_catalog ! 1)}"
    using keyed_dict_ok [OF k] by (simp add: sample_catalog_def ran_map_of)
  have "asked_for (\<lambda>s. s) ?q (snd (sample_catalog ! 0))"
    by code_simp
  moreover have "\<not> asked_for (\<lambda>s. s) ?q (snd (sample_catalog ! 1))"
    by code_simp
  ultimately have "{p \<in> ran (map_of sample_catalog). asked_for (\<lambda>s. s) ?q p} = {snd (sample_catalog ! 0)}"
    by (auto simp: ran)
  with catalog_search_exact [OF k, of "\<lambda>s. s" ?q] show ?thesis by simp
qed

end
