(* ===== verification/Publication.thy ===== *)
theory Publication
  imports Package_Catalog
begin

text \<open>
  The publication workflow (\<open>src/marketplace/publication/\<close>): requests and policies with the checks of
  their constructors, the lifecycle table, the structural validator and the in-memory service. The
  service is built with the reference validator. An operation that raises leaves the service as it
  was, so an operation is a function to an error or to its result and the new service.
\<close>

datatype publication_status = DRAFT | SUBMITTED | VALIDATING | ACCEPTED | REJECTED | WITHDRAWN

fun status_value :: "publication_status \<Rightarrow> string" where
  "status_value DRAFT = ''draft''"
| "status_value SUBMITTED = ''submitted''"
| "status_value VALIDATING = ''validating''"
| "status_value ACCEPTED = ''accepted''"
| "status_value REJECTED = ''rejected''"
| "status_value WITHDRAWN = ''withdrawn''"

datatype publication_decision = ACCEPT | REJECT | DEFER

datatype publication_error =
    Publication_ValueError string
  | PublicationValidationError string
  | PublicationConflictError string
  | PublicationNotFoundError string
  | PublicationStateError string
  | PublicationClosedError

definition mk_publication_id :: "string \<Rightarrow> publication_error + string" where
  "mk_publication_id v =
     (if v = '''' then Inl (Publication_ValueError ''Publication id must not be empty.'') else Inr v)"

record publication_request =
  rq_id :: string
  rq_publisher :: string
  rq_manifest :: manifest
  rq_status :: publication_status
  rq_metadata :: "(string, market_value) dict"

definition check_request :: "publication_request \<Rightarrow> publication_error + publication_request" where
  "check_request r =
     (if rq_publisher r = ''''
      then Inl (Publication_ValueError ''Publication request publisher id must not be empty.'')
      else if rq_publisher r \<noteq> mf_publisher_id (rq_manifest r)
      then Inl (Publication_ValueError
             ''Publication request publisher id must match package manifest.'')
      else Inr r)"

record issue =
  is_code :: string
  is_message :: string
  is_field :: string

record publication_result =
  rs_id :: string
  rs_status :: publication_status
  rs_decision :: publication_decision
  rs_issues :: "issue list"

record publication_snapshot =
  sn_request :: publication_request
  sn_status :: publication_status
  sn_result :: "publication_result option"

record policy_rule =
  rule_name :: string
  rule_enabled :: bool
  rule_description :: string

text \<open>The rules of a policy describe it; no code reads them.\<close>

record publication_policy =
  pp_community :: bool
  pp_required_tier :: "publisher_tier option"
  pp_prerelease :: bool
  pp_empty_dependencies :: bool
  pp_unknown_compatibility :: bool
  pp_duplicate_coordinate :: bool
  pp_max_tags :: int
  pp_max_metadata :: int
  pp_rules :: "policy_rule list"

definition check_policy :: "publication_policy \<Rightarrow> publication_error + publication_policy" where
  "check_policy p =
     (if pp_max_tags p < 0 \<or> pp_max_metadata p < 0
      then Inl (Publication_ValueError ''Publication policy limits must not be negative.'')
      else Inr p)"

definition default_publication_policy :: publication_policy where
  "default_publication_policy = \<lparr>pp_community = True, pp_required_tier = None, pp_prerelease = True,
     pp_empty_dependencies = True, pp_unknown_compatibility = True, pp_duplicate_coordinate = False,
     pp_max_tags = 16, pp_max_metadata = 32, pp_rules = []\<rparr>"

subsection \<open>Lifecycle\<close>

fun publication_targets :: "publication_status \<Rightarrow> publication_status list" where
  "publication_targets DRAFT = [SUBMITTED, WITHDRAWN]"
| "publication_targets SUBMITTED = [VALIDATING, WITHDRAWN]"
| "publication_targets VALIDATING = [ACCEPTED, REJECTED]"
| "publication_targets REJECTED = [SUBMITTED]"
| "publication_targets ACCEPTED = []"
| "publication_targets WITHDRAWN = []"

definition allowed_transitions :: "publication_status \<Rightarrow> publication_status list" where
  "allowed_transitions s = sort_key status_value (publication_targets s)"

definition publication_transition ::
  "publication_status \<Rightarrow> publication_status \<Rightarrow> publication_error + publication_status" where
  "publication_transition current target =
     (if target \<in> set (publication_targets current) then Inr target
      else Inl (PublicationStateError (''Illegal publication transition: '' @ status_value current
             @ '' -> '' @ status_value target)))"

subsection \<open>Validator\<close>

fun tier_order :: "publisher_tier \<Rightarrow> int" where
  "tier_order COMMUNITY = 0"
| "tier_order VERIFIED = 1"
| "tier_order OFFICIAL = 2"
| "tier_order ENTERPRISE = 3"

definition mk_issue :: "string \<Rightarrow> string \<Rightarrow> string \<Rightarrow> issue" where
  "mk_issue c m f = \<lparr>is_code = c, is_message = m, is_field = f\<rparr>"

definition sort_issues :: "issue list \<Rightarrow> issue list" where
  "sort_issues = sort_key (\<lambda>i. (is_code i, is_field i))"

definition evaluate_policy ::
  "publisher \<Rightarrow> publication_request \<Rightarrow> publication_policy \<Rightarrow> publication_decision \<times> issue list" where
  "evaluate_policy pub r p =
     (let m = rq_manifest r; c = mf_compatibility m;
          issues =
            (if \<not> pp_community p \<and> pb_tier pub = COMMUNITY
             then [mk_issue ''community_not_allowed'' ''Community publisher submissions are not allowed.''
                     ''publisher_tier''] else [])
          @ (case pp_required_tier p of None \<Rightarrow> []
             | Some t \<Rightarrow> if tier_order (pb_tier pub) < tier_order t
                 then [mk_issue ''publisher_tier_required''
                         ''Publisher tier does not meet the required level.'' ''publisher_tier'']
                 else [])
          @ (if \<not> pp_prerelease p \<and> pv_prerelease (mf_version m) \<noteq> None
             then [mk_issue ''prerelease_not_allowed'' ''Prerelease package versions are not allowed.''
                     ''version''] else [])
          @ (if \<not> pp_empty_dependencies p \<and> mf_dependencies m = []
             then [mk_issue ''dependencies_required'' ''Package dependencies must be declared.''
                     ''dependencies''] else [])
          @ (if \<not> pp_unknown_compatibility p \<and>
                None \<in> {cm_runtime c, cm_sdk c, cm_studio c, cm_enterprise c, cm_cloud c}
             then [mk_issue ''compatibility_required'' ''All compatibility targets must be declared.''
                     ''compatibility''] else [])
          @ (if pp_max_tags p < int (length (mf_tags m))
             then [mk_issue ''tag_limit_exceeded'' ''Package tag count exceeds the local policy limit.''
                     ''tags''] else [])
          @ (if pp_max_metadata p < int (length (rq_metadata r))
             then [mk_issue ''metadata_limit_exceeded''
                     ''Publication metadata count exceeds the local policy limit.'' ''metadata''] else []);
          ordered = sort_issues issues
      in (if ordered = [] then ACCEPT else REJECT, ordered))"

definition validate_publication ::
  "publisher \<Rightarrow> publication_request \<Rightarrow> publication_policy \<Rightarrow> publication_result" where
  "validate_publication pub r p =
     (let m = rq_manifest r;
          issues =
            (if rq_id r = '''' then [mk_issue ''publication_id_required''
               ''Publication id is required.'' ''publication_id''] else [])
          @ (if rq_publisher r = '''' then [mk_issue ''publisher_id_required''
               ''Publisher id is required.'' ''publisher_id''] else [])
          @ (if mf_package_id m = '''' then [mk_issue ''package_id_required''
               ''Package id is required.'' ''package_id''] else [])
          @ (if pv_major (mf_version m) < 0 then [mk_issue ''version_invalid''
               ''Package version is invalid.'' ''version''] else []);
          (d, pi) = evaluate_policy pub r p;
          ordered = sort_issues (issues @ pi)
      in \<lparr>rs_id = rq_id r, rs_status = rq_status r,
          rs_decision = (if ordered \<noteq> [] then REJECT else d), rs_issues = ordered\<rparr>)"

subsection \<open>Service\<close>

type_synonym pub_coordinate = "string \<times> string \<times> string"

record publication_service =
  sv_publisher :: publisher
  sv_policy :: publication_policy
  sv_snapshots :: "(string, publication_snapshot) dict"
  sv_coordinates :: "pub_coordinate set"
  sv_closed :: bool

definition new_publication_service :: "publisher \<Rightarrow> publication_policy \<Rightarrow> publication_service" where
  "new_publication_service pub p = \<lparr>sv_publisher = pub, sv_policy = p, sv_snapshots = [],
     sv_coordinates = {}, sv_closed = False\<rparr>"

definition request_coordinate :: "publication_request \<Rightarrow> pub_coordinate" where
  "request_coordinate r =
     (rq_publisher r, mf_package_id (rq_manifest r), version_str (mf_version (rq_manifest r)))"

definition ps_submit ::
  "publication_request \<Rightarrow> publication_service \<Rightarrow>
     publication_error + publication_snapshot \<times> publication_service" where
  "ps_submit r s =
     (if sv_closed s then Inl PublicationClosedError
      else if rq_publisher r \<noteq> pb_id (sv_publisher s)
      then Inl (PublicationValidationError ''Publication request publisher does not match this service.'')
      else if map_of (sv_snapshots s) (rq_id r) \<noteq> None then Inl (PublicationConflictError (rq_id r))
      else if \<not> pp_duplicate_coordinate (sv_policy s) \<and> request_coordinate r \<in> sv_coordinates s
      then Inl (PublicationConflictError ''Duplicate publication coordinate is not allowed.'')
      else
        case (if rq_status r = DRAFT then publication_transition DRAFT SUBMITTED
              else if rq_status r \<noteq> SUBMITTED
              then Inl (PublicationValidationError
                     ''Publication request status must be draft or submitted.'')
              else Inr SUBMITTED) of
          Inl e \<Rightarrow> Inl e
        | Inr current \<Rightarrow>
            let n = \<lparr>sn_request = r, sn_status = current, sn_result = None\<rparr>
            in Inr (n, s\<lparr>sv_snapshots := AList.update (rq_id r) n (sv_snapshots s),
                         sv_coordinates := insert (request_coordinate r) (sv_coordinates s)\<rparr>))"

definition ps_lookup ::
  "string \<Rightarrow> publication_service \<Rightarrow> publication_error + publication_snapshot" where
  "ps_lookup i s = dict_lookup (PublicationNotFoundError i) i (sv_snapshots s)"

definition ps_get :: "string \<Rightarrow> publication_service \<Rightarrow> publication_error + publication_snapshot" where
  "ps_get i s = (if sv_closed s then Inl PublicationClosedError else ps_lookup i s)"

definition ps_validate ::
  "string \<Rightarrow> publication_service \<Rightarrow> publication_error + publication_result \<times> publication_service" where
  "ps_validate i s =
     (if sv_closed s then Inl PublicationClosedError
      else case ps_lookup i s of
        Inl e \<Rightarrow> Inl e
      | Inr n \<Rightarrow>
          (case publication_transition (sn_status n) VALIDATING of
             Inl e \<Rightarrow> Inl e
           | Inr st \<Rightarrow>
               let res = (validate_publication (sv_publisher s) (sn_request n) (sv_policy s))
                           \<lparr>rs_status := st\<rparr>
               in Inr (res, s\<lparr>sv_snapshots := AList.update (rq_id (sn_request n))
                      \<lparr>sn_request = sn_request n, sn_status = st, sn_result = Some res\<rparr>
                      (sv_snapshots s)\<rparr>)))"

definition ps_transition ::
  "publication_snapshot \<Rightarrow> publication_status \<Rightarrow> publication_service \<Rightarrow>
     publication_error + publication_snapshot \<times> publication_service" where
  "ps_transition n target s =
     (case publication_transition (sn_status n) target of
        Inl e \<Rightarrow> Inl e
      | Inr st \<Rightarrow>
          let u = \<lparr>sn_request = sn_request n, sn_status = st,
                   sn_result = map_option (\<lambda>x. x\<lparr>rs_status := st\<rparr>) (sn_result n)\<rparr>
          in Inr (u, s\<lparr>sv_snapshots := AList.update (rq_id (sn_request n)) u (sv_snapshots s)\<rparr>))"

definition ps_accept ::
  "string \<Rightarrow> publication_service \<Rightarrow> publication_error + publication_snapshot \<times> publication_service" where
  "ps_accept i s =
     (if sv_closed s then Inl PublicationClosedError
      else case ps_lookup i s of
        Inl e \<Rightarrow> Inl e
      | Inr n \<Rightarrow>
          if map_option rs_decision (sn_result n) \<noteq> Some ACCEPT
          then Inl (PublicationValidationError
                 ''Publication cannot be accepted without a local accept decision.'')
          else ps_transition n ACCEPTED s)"

definition ps_reject ::
  "string \<Rightarrow> publication_service \<Rightarrow> publication_error + publication_snapshot \<times> publication_service" where
  "ps_reject i s =
     (if sv_closed s then Inl PublicationClosedError
      else case ps_lookup i s of Inl e \<Rightarrow> Inl e | Inr n \<Rightarrow> ps_transition n REJECTED s)"

definition ps_withdraw ::
  "string \<Rightarrow> publication_service \<Rightarrow> publication_error + publication_snapshot \<times> publication_service" where
  "ps_withdraw i s =
     (if sv_closed s then Inl PublicationClosedError
      else case ps_lookup i s of Inl e \<Rightarrow> Inl e | Inr n \<Rightarrow> ps_transition n WITHDRAWN s)"

definition ps_list :: "publication_service \<Rightarrow> publication_error + publication_snapshot list" where
  "ps_list s = (if sv_closed s then Inl PublicationClosedError else Inr (sorted_values (sv_snapshots s)))"

definition ps_clear :: "publication_service \<Rightarrow> publication_error + publication_service" where
  "ps_clear s = (if sv_closed s then Inl PublicationClosedError
                 else Inr (s\<lparr>sv_snapshots := [], sv_coordinates := {}\<rparr>))"

definition ps_close :: "publication_service \<Rightarrow> publication_service" where
  "ps_close s = (if sv_closed s then s
                 else s\<lparr>sv_snapshots := [], sv_coordinates := {}, sv_closed := True\<rparr>)"


subsection \<open>What acceptance promises\<close>

text \<open>The declared rules, without the order and the text of the issues.\<close>

definition complies :: "publisher \<Rightarrow> publication_policy \<Rightarrow> publication_request \<Rightarrow> bool" where
  "complies pub p r \<longleftrightarrow>
     (let m = rq_manifest r; c = mf_compatibility m in
        (pp_community p \<or> pb_tier pub \<noteq> COMMUNITY)
      \<and> (\<forall>t. pp_required_tier p = Some t \<longrightarrow> tier_order t \<le> tier_order (pb_tier pub))
      \<and> (pp_prerelease p \<or> pv_prerelease (mf_version m) = None)
      \<and> (pp_empty_dependencies p \<or> mf_dependencies m \<noteq> [])
      \<and> (pp_unknown_compatibility p \<or>
           None \<notin> {cm_runtime c, cm_sdk c, cm_studio c, cm_enterprise c, cm_cloud c})
      \<and> int (length (mf_tags m)) \<le> pp_max_tags p
      \<and> int (length (rq_metadata r)) \<le> pp_max_metadata p)"

definition well_shaped :: "publication_request \<Rightarrow> bool" where
  "well_shaped r \<longleftrightarrow> rq_id r \<noteq> '''' \<and> rq_publisher r \<noteq> '''' \<and> mf_package_id (rq_manifest r) \<noteq> ''''
     \<and> 0 \<le> pv_major (mf_version (rq_manifest r))"

lemma sort_issues_Nil [simp]: "sort_issues xs = [] \<longleftrightarrow> xs = []"
  by (metis sort_issues_def length_0_conv length_sort)

lemma append_Nil_iff: "xs @ ys = [] \<longleftrightarrow> xs = [] \<and> ys = []"
  by simp

lemma no_issue_if: "(if b then [x] else []) = [] \<longleftrightarrow> \<not> b"
  by simp

lemma no_issue_tier:
  "(case q of None \<Rightarrow> [] | Some t \<Rightarrow> if f t < g t then [x] else []) = []
     \<longleftrightarrow> (\<forall>t. q = Some t \<longrightarrow> g t \<le> (f t :: int))"
  by (auto split: option.splits)

lemma no_issues: "snd (evaluate_policy pub r p) = [] \<longleftrightarrow> complies pub p r"
  unfolding evaluate_policy_def complies_def Let_def snd_conv sort_issues_Nil append_Nil_iff
    no_issue_if no_issue_tier de_Morgan_conj not_not not_less by (rule refl)

lemma evaluate_complies:
  "evaluate_policy pub r p = (d, xs) \<Longrightarrow> (xs = [] \<longleftrightarrow> complies pub p r) \<and> (d = ACCEPT \<longleftrightarrow> xs = [])"
  using no_issues [of pub r p] by (auto simp: evaluate_policy_def Let_def)

lemma validator_decision:
  "rs_decision (validate_publication pub r p) = ACCEPT \<longleftrightarrow> complies pub p r \<and> well_shaped r"
proof -
  obtain d pi where e: "evaluate_policy pub r p = (d, pi)" by force
  from evaluate_complies [OF e] show ?thesis
    by (auto simp: validate_publication_def well_shaped_def e Let_def)
qed

lemma validator_id [simp]: "rs_id (validate_publication pub r p) = rq_id r"
  by (simp add: validate_publication_def Let_def split: prod.splits)

inductive pub_step :: "publication_service \<Rightarrow> publication_service \<Rightarrow> bool" where
  submit: "ps_submit r s = Inr (n, s') \<Longrightarrow> pub_step s s'"
| validate: "ps_validate i s = Inr (res, s') \<Longrightarrow> pub_step s s'"
| accept: "ps_accept i s = Inr (n, s') \<Longrightarrow> pub_step s s'"
| reject: "ps_reject i s = Inr (n, s') \<Longrightarrow> pub_step s s'"
| withdraw: "ps_withdraw i s = Inr (n, s') \<Longrightarrow> pub_step s s'"
| clear: "ps_clear s = Inr s' \<Longrightarrow> pub_step s s'"
| close: "pub_step s (ps_close s)"

definition snapshot_ok :: "publication_service \<Rightarrow> publication_snapshot \<Rightarrow> bool" where
  "snapshot_ok s n \<longleftrightarrow>
     rq_publisher (sn_request n) = pb_id (sv_publisher s)
   \<and> request_coordinate (sn_request n) \<in> sv_coordinates s
   \<and> (\<forall>res. sn_result n = Some res \<longrightarrow>
        res = (validate_publication (sv_publisher s) (sn_request n) (sv_policy s))
                \<lparr>rs_status := sn_status n\<rparr>)
   \<and> (sn_status n = ACCEPTED \<longrightarrow> map_option rs_decision (sn_result n) = Some ACCEPT)
   \<and> (sn_status n \<in> {VALIDATING, REJECTED} \<longrightarrow> sn_result n \<noteq> None)
   \<and> sn_status n \<noteq> DRAFT"

definition snapshot_id :: "publication_snapshot \<Rightarrow> string" where
  "snapshot_id n = rq_id (sn_request n)"

definition one_per_coordinate :: "publication_snapshot set \<Rightarrow> bool" where
  "one_per_coordinate A \<longleftrightarrow> (\<forall>m \<in> A. \<forall>n \<in> A.
     request_coordinate (sn_request m) = request_coordinate (sn_request n) \<longrightarrow> snapshot_id m = snapshot_id n)"

lemma one_per_coordinate_empty [simp]: "one_per_coordinate {}"
  by (simp add: one_per_coordinate_def)

lemma one_per_coordinate_insert:
  assumes "one_per_coordinate A"
    and "\<And>m. m \<in> A \<Longrightarrow> request_coordinate (sn_request m) \<noteq> request_coordinate (sn_request n)"
  shows "one_per_coordinate (insert n A)"
  unfolding one_per_coordinate_def using assms(1) [unfolded one_per_coordinate_def] assms(2)
  by (metis insert_iff)

definition pub_inv :: "publication_service \<Rightarrow> bool" where
  "pub_inv s \<longleftrightarrow>
     keyed snapshot_id (sv_snapshots s)
   \<and> (\<forall>n \<in> ran (map_of (sv_snapshots s)). snapshot_ok s n)
   \<and> (\<not> pp_duplicate_coordinate (sv_policy s) \<longrightarrow>
        one_per_coordinate (ran (map_of (sv_snapshots s))))
   \<and> (sv_closed s \<longrightarrow> sv_snapshots s = [])"

lemma new_service_inv [inv_intros]: "pub_inv (new_publication_service pub p)"
  by (simp add: pub_inv_def new_publication_service_def one_per_coordinate_def)

lemma lookup_Inr: "ps_lookup i s = Inr n \<longleftrightarrow> map_of (sv_snapshots s) i = Some n"
  by (simp add: ps_lookup_def dict_lookup_def split: option.splits)

text \<open>Replacing a snapshot by one for the same request keeps the invariant.\<close>

lemma replace_inv:
  assumes "pub_inv s" "map_of (sv_snapshots s) i = Some n" "snapshot_ok s u"
    and "sn_request u = sn_request n"
  shows "pub_inv (s\<lparr>sv_snapshots := AList.update (rq_id (sn_request n)) u (sv_snapshots s)\<rparr>)"
proof -
  let ?s = "s\<lparr>sv_snapshots := AList.update (rq_id (sn_request n)) u (sv_snapshots s)\<rparr>"
  have k: "keyed snapshot_id (sv_snapshots s)" using assms(1) by (simp add: pub_inv_def)
  have i: "rq_id (sn_request n) = i"
    using keyed_key [OF k assms(2)] by (simp add: snapshot_id_def)
  have ran: "m = u \<or> m \<in> ran (map_of (sv_snapshots s)) \<and> snapshot_id m \<noteq> i"
    if m: "m \<in> ran (map_of (sv_snapshots ?s))" for m
  proof -
    from m obtain j where j: "((map_of (sv_snapshots s))(i \<mapsto> u)) j = Some m"
      by (auto simp: ran_def i)
    show ?thesis
    proof (cases "j = i")
      case False
      with j have "map_of (sv_snapshots s) j = Some m" by simp
      with keyed_key [OF k this] False show ?thesis by (auto simp: ran_def)
    qed (use j in simp)
  qed
  have ok: "snapshot_ok ?s m = snapshot_ok s m" for m by (simp add: snapshot_ok_def)
  have n: "n \<in> ran (map_of (sv_snapshots s))" using assms(2) by (auto simp: ran_def)
  have "keyed snapshot_id (sv_snapshots ?s)"
    using k assms(4) by (simp add: snapshot_id_def)
  moreover have "snapshot_ok ?s m" if "m \<in> ran (map_of (sv_snapshots ?s))" for m
    using ran [OF that] assms(1,3) unfolding ok by (auto simp: pub_inv_def)
  moreover have one: "snapshot_id m = snapshot_id m'"
    if nodup: "\<not> pp_duplicate_coordinate (sv_policy s)" and m: "m \<in> ran (map_of (sv_snapshots ?s))"
      and m': "m' \<in> ran (map_of (sv_snapshots ?s))"
      and same: "request_coordinate (sn_request m) = request_coordinate (sn_request m')" for m m'
  proof -
    have "\<exists>w \<in> ran (map_of (sv_snapshots s)). sn_request w = sn_request v"
      if v: "v \<in> ran (map_of (sv_snapshots ?s))" for v
      using ran [OF v] n assms(4) by metis
    note old = this
    obtain w where w: "w \<in> ran (map_of (sv_snapshots s))" "sn_request w = sn_request m"
      using old [OF m] by blast
    obtain w' where w': "w' \<in> ran (map_of (sv_snapshots s))" "sn_request w' = sn_request m'"
      using old [OF m'] by blast
    have "snapshot_id w = snapshot_id w'"
      using assms(1) nodup same w w' unfolding pub_inv_def one_per_coordinate_def by metis
    with w(2) w'(2) show ?thesis unfolding snapshot_id_def by metis
  qed
  moreover have "\<not> pp_duplicate_coordinate (sv_policy s) \<longrightarrow>
      one_per_coordinate (ran (map_of (sv_snapshots ?s)))"
    unfolding one_per_coordinate_def using one by blast
  moreover have "\<not> sv_closed s"
    using assms(1,2) by (auto simp: pub_inv_def)
  ultimately show ?thesis unfolding pub_inv_def by simp
qed


lemma snapshot_ok_replaced:
  assumes "snapshot_ok s n" "publication_transition (sn_status n) st = Inr st'" "st \<noteq> VALIDATING"
    and "st' = ACCEPTED \<Longrightarrow> map_option rs_decision (sn_result n) = Some ACCEPT"
  shows "snapshot_ok s \<lparr>sn_request = sn_request n, sn_status = st',
      sn_result = map_option (\<lambda>x. x\<lparr>rs_status := st'\<rparr>) (sn_result n)\<rparr>"
  using assms
  by (cases "sn_status n"; cases st)
    (auto simp: snapshot_ok_def publication_transition_def split: if_splits)

lemma ps_transition_inv:
  assumes "pub_inv s" "map_of (sv_snapshots s) i = Some n" "ps_transition n st s = Inr (u, s')"
    and "st \<noteq> VALIDATING" "st = ACCEPTED \<Longrightarrow> map_option rs_decision (sn_result n) = Some ACCEPT"
  shows "pub_inv s'"
proof -
  obtain st' where st': "publication_transition (sn_status n) st = Inr st'" "st' = st"
    using assms(3) by (auto simp: ps_transition_def publication_transition_def split: if_splits)
  have "snapshot_ok s n"
    using assms(1,2) by (auto simp: pub_inv_def ran_def)
  from snapshot_ok_replaced [OF this st'(1) assms(4)] st'(2) assms(5)
  have "snapshot_ok s \<lparr>sn_request = sn_request n, sn_status = st',
      sn_result = map_option (\<lambda>x. x\<lparr>rs_status := st'\<rparr>) (sn_result n)\<rparr>" by blast
  from replace_inv [OF assms(1,2) this] assms(3) st' show ?thesis
    by (auto simp: ps_transition_def Let_def)
qed

lemma ps_validate_inv:
  assumes "pub_inv s" "ps_validate i s = Inr (res, s')"
  shows "pub_inv s'"
proof -
  obtain n st where n: "map_of (sv_snapshots s) i = Some n"
    and st: "publication_transition (sn_status n) VALIDATING = Inr st"
    using assms(2) by (auto simp: ps_validate_def lookup_Inr split: if_splits sum.splits)
  have st': "st = VALIDATING"
    using st by (auto simp: publication_transition_def split: if_splits)
  have "snapshot_ok s n"
    using assms(1) n by (auto simp: pub_inv_def ran_def)
  then have ok: "snapshot_ok s \<lparr>sn_request = sn_request n, sn_status = st, sn_result = Some
      ((validate_publication (sv_publisher s) (sn_request n) (sv_policy s))\<lparr>rs_status := st\<rparr>)\<rparr>"
    by (simp add: snapshot_ok_def st')
  from replace_inv [OF assms(1) n ok] assms(2) st n show ?thesis
    by (auto simp: ps_validate_def lookup_Inr [THEN iffD2, OF n] Let_def split: if_splits)
qed

lemma ps_submit_inv:
  assumes "pub_inv s" "ps_submit r s = Inr (n, s')"
  shows "pub_inv s'"
proof -
  let ?d = "sv_snapshots s"
  from assms(2) have c: "\<not> sv_closed s" "rq_publisher r = pb_id (sv_publisher s)"
      "map_of ?d (rq_id r) = None"
      "\<not> pp_duplicate_coordinate (sv_policy s) \<longrightarrow> request_coordinate r \<notin> sv_coordinates s"
    and n: "n = \<lparr>sn_request = r, sn_status = SUBMITTED, sn_result = None\<rparr>"
    and s': "s' = s\<lparr>sv_snapshots := AList.update (rq_id r) n ?d,
                    sv_coordinates := insert (request_coordinate r) (sv_coordinates s)\<rparr>"
    by (auto simp: ps_submit_def publication_transition_def Let_def split: if_splits)
  have ran: "ran (map_of (sv_snapshots s')) = insert n (ran (map_of ?d))"
    using c(3) by (simp add: s' ran_map_upd)
  have old: "\<forall>m \<in> ran (map_of ?d). snapshot_ok s m"
    and one: "\<not> pp_duplicate_coordinate (sv_policy s) \<Longrightarrow> one_per_coordinate (ran (map_of ?d))"
    using assms(1) by (simp_all add: pub_inv_def)
  have "snapshot_ok s' n"
    by (simp add: snapshot_ok_def s' n c(2))
  moreover have "snapshot_ok s' m" if "snapshot_ok s m" for m
    using that by (simp add: snapshot_ok_def s')
  ultimately have 1: "\<forall>m \<in> insert n (ran (map_of ?d)). snapshot_ok s' m"
    using old by blast
  have "one_per_coordinate (insert n A)"
    if "one_per_coordinate A" "\<forall>m \<in> A. request_coordinate (sn_request m) \<noteq> request_coordinate r" for A
    using that by (intro one_per_coordinate_insert) (simp_all add: n)
  moreover have "\<forall>m \<in> ran (map_of ?d). request_coordinate (sn_request m) \<in> sv_coordinates s"
    using old by (simp add: snapshot_ok_def)
  ultimately have 2: "one_per_coordinate (insert n (ran (map_of ?d)))"
    if "\<not> pp_duplicate_coordinate (sv_policy s)"
    using one [OF that] that c(4) by metis
  have 3: "keyed snapshot_id (sv_snapshots s')"
    using assms(1) by (simp add: pub_inv_def s' n snapshot_id_def)
  have "sv_policy s' = sv_policy s" "\<not> sv_closed s'"
    using c(1) by (simp_all add: s')
  with 1 2 3 show ?thesis unfolding pub_inv_def ran by simp
qed

theorem pub_step_inv: "pub_step s s' \<Longrightarrow> pub_inv s \<Longrightarrow> pub_inv s'"
proof (induction rule: pub_step.induct)
  case (accept i s n s')
  then show ?case
    by (auto simp: ps_accept_def lookup_Inr split: if_splits sum.splits
        intro: ps_transition_inv)
next
  case (reject i s n s')
  then show ?case
    by (auto simp: ps_reject_def lookup_Inr split: if_splits sum.splits intro: ps_transition_inv)
next
  case (withdraw i s n s')
  then show ?case
    by (auto simp: ps_withdraw_def lookup_Inr split: if_splits sum.splits intro: ps_transition_inv)
next
  case (clear s s')
  then show ?case by (auto simp: ps_clear_def pub_inv_def split: if_splits)
next
  case (close s)
  then show ?case
    by (cases "sv_closed s") (simp_all add: ps_close_def pub_inv_def)
next
  case (submit r s n s')
  from ps_submit_inv [OF submit(2,1)] show ?case .
next
  case (validate i s res s')
  from ps_validate_inv [OF validate(2,1)] show ?case .
qed

lemma pub_steps_fixed:
  "pub_step\<^sup>*\<^sup>* s s' \<Longrightarrow> sv_publisher s' = sv_publisher s \<and> sv_policy s' = sv_policy s"
proof (induction rule: rtranclp_induct)
  case (step s1 s2)
  have "sv_publisher s2 = sv_publisher s1 \<and> sv_policy s2 = sv_policy s1"
    using step.hyps(2)
    by cases (auto simp: ps_submit_def ps_validate_def ps_accept_def ps_reject_def ps_withdraw_def
        ps_transition_def ps_clear_def ps_close_def Let_def split: if_splits sum.splits)
  with step.IH show ?case by simp
qed simp


lemma pub_reachable_inv:
  "pub_step\<^sup>*\<^sup>* (new_publication_service pub p) s \<Longrightarrow> pub_inv s"
  by (induction rule: rtranclp_induct) (auto intro: pub_step_inv new_service_inv)

lemma accepted_complies:
  assumes "pub_step\<^sup>*\<^sup>* (new_publication_service pub p) s" "map_of (sv_snapshots s) i = Some n"
    and "sn_status n = ACCEPTED"
  shows "complies pub p (sn_request n)"
proof -
  have inv: "pub_inv s" by (rule pub_reachable_inv [OF assms(1)])
  have fixed: "sv_publisher s = pub" "sv_policy s = p"
    using pub_steps_fixed [OF assms(1)] by (simp_all add: new_publication_service_def)
  have ok: "snapshot_ok s n" using inv assms(2) by (auto simp: pub_inv_def ran_def)
  have "map_option rs_decision (sn_result n) = Some ACCEPT"
    using ok assms(3) by (simp add: snapshot_ok_def)
  then obtain res where res: "sn_result n = Some res" "rs_decision res = ACCEPT" by blast
  then have "res = (validate_publication pub (sn_request n) p)\<lparr>rs_status := ACCEPTED\<rparr>"
    using ok assms(3) by (simp add: snapshot_ok_def fixed)
  with res(2) have "rs_decision (validate_publication pub (sn_request n) p) = ACCEPT" by simp
  then show ?thesis by (simp add: validator_decision)
qed

text \<open>C20: whatever operations a publication service performs, a publication that it records as
  accepted comes from the service's publisher and satisfies every rule of the service's policy (tier,
  prerelease, dependencies, compatibility targets, numbers of tags and metadata entries), it carries
  the result that the validator computed for it, with an accept decision; and unless the policy
  allows it no two publications, withdrawn and rejected ones included, have the same publisher,
  package and version.\<close>

theorem accepted_publications_comply:
  assumes "pub_step\<^sup>*\<^sup>* (new_publication_service pub p) s" "map_of (sv_snapshots s) i = Some n"
  shows "rq_publisher (sn_request n) = pb_id pub
    \<and> (sn_status n = ACCEPTED \<longrightarrow> complies pub p (sn_request n) \<and> well_shaped (sn_request n)
        \<and> sn_result n = Some ((validate_publication pub (sn_request n) p)\<lparr>rs_status := ACCEPTED\<rparr>)
        \<and> rs_decision (the (sn_result n)) = ACCEPT)
    \<and> (\<not> pp_duplicate_coordinate p \<longrightarrow>
        (\<forall>j m. map_of (sv_snapshots s) j = Some m
           \<and> request_coordinate (sn_request m) = request_coordinate (sn_request n) \<longrightarrow> j = i))"
proof -
  have inv: "pub_inv s" by (rule pub_reachable_inv [OF assms(1)])
  have fixed: "sv_publisher s = pub" "sv_policy s = p"
    using pub_steps_fixed [OF assms(1)] by (simp_all add: new_publication_service_def)
  have n: "n \<in> ran (map_of (sv_snapshots s))" using assms(2) by (auto simp: ran_def)
  then have ok: "snapshot_ok s n" using inv by (simp add: pub_inv_def)
  have acc: "complies pub p (sn_request n) \<and> well_shaped (sn_request n)
      \<and> sn_result n = Some ((validate_publication pub (sn_request n) p)\<lparr>rs_status := ACCEPTED\<rparr>)
      \<and> rs_decision (the (sn_result n)) = ACCEPT" if ac: "sn_status n = ACCEPTED"
  proof -
    have "map_option rs_decision (sn_result n) = Some ACCEPT"
      using ok ac by (simp add: snapshot_ok_def)
    then obtain res where res: "sn_result n = Some res" "rs_decision res = ACCEPT"
      by blast
    then have eq: "res = (validate_publication pub (sn_request n) p)\<lparr>rs_status := ACCEPTED\<rparr>"
      using ok ac by (simp add: snapshot_ok_def fixed)
    then have "rs_decision (validate_publication pub (sn_request n) p) = ACCEPT"
      using res(2) by simp
    with res eq show ?thesis by (simp add: validator_decision)
  qed
  have "j = i" if dup: "\<not> pp_duplicate_coordinate p" and m: "map_of (sv_snapshots s) j = Some m"
    and same: "request_coordinate (sn_request m) = request_coordinate (sn_request n)" for j m
  proof -
    have one: "one_per_coordinate (ran (map_of (sv_snapshots s)))"
      using inv dup by (simp add: pub_inv_def fixed)
    have "m \<in> ran (map_of (sv_snapshots s))" using m by (auto simp: ran_def)
    with one n same have "snapshot_id m = snapshot_id n"
      unfolding one_per_coordinate_def by blast
    moreover have "keyed snapshot_id (sv_snapshots s)" using inv by (simp add: pub_inv_def)
    ultimately show ?thesis using m assms(2) by (metis keyed_key)
  qed
  with ok acc fixed show ?thesis by (auto simp: snapshot_ok_def)
qed

definition sample_publisher :: publisher where
  "sample_publisher = \<lparr>pb_id = ''acme'', pb_profile = \<lparr>pf_display_name = ''Acme'', pf_description = '''',
     pf_website = None, pf_metadata = []\<rparr>, pb_tier = VERIFIED, pb_organization = None,
     pb_capabilities = {}, pb_metadata = []\<rparr>"

definition sample_request :: publication_request where
  "sample_request = \<lparr>rq_id = ''r1'', rq_publisher = ''acme'',
     rq_manifest = sample_manifest ''a'' ''A'' (sample_version 1), rq_status = DRAFT, rq_metadata = []\<rparr>"

definition sample_published :: "publication_service" where
  "sample_published =
     (let s0 = new_publication_service sample_publisher default_publication_policy;
          s1 = snd (projr (ps_submit sample_request s0));
          s2 = snd (projr (ps_validate ''r1'' s1))
      in snd (projr (ps_accept ''r1'' s2)))"

lemma sample_published_steps:
  "pub_step\<^sup>*\<^sup>* (new_publication_service sample_publisher default_publication_policy) sample_published"
  "map_option sn_status (map_of (sv_snapshots sample_published) ''r1'') = Some ACCEPTED"
  "map_option sn_request (map_of (sv_snapshots sample_published) ''r1'') = Some sample_request"
proof -
  let ?s0 = "new_publication_service sample_publisher default_publication_policy"
  define s1 where "s1 = snd (projr (ps_submit sample_request ?s0))"
  define s2 where "s2 = snd (projr (ps_validate ''r1'' s1))"
  note defs = new_publication_service_def sample_publisher_def sample_request_def
    default_publication_policy_def sample_manifest_def sample_version_def
  have s1: "ps_submit sample_request ?s0 = Inr (\<lparr>sn_request = sample_request, sn_status = SUBMITTED,
      sn_result = None\<rparr>, s1)"
    by (simp add: s1_def ps_submit_def publication_transition_def Let_def defs)
  then have m1: "sv_snapshots s1 = [(''r1'', \<lparr>sn_request = sample_request, sn_status = SUBMITTED,
      sn_result = None\<rparr>)]" and f1: "sv_publisher s1 = sample_publisher"
      "sv_policy s1 = default_publication_policy" "\<not> sv_closed s1"
    by (auto simp: s1_def ps_submit_def publication_transition_def Let_def defs)
  define res where "res = (validate_publication sample_publisher sample_request
      default_publication_policy)\<lparr>rs_status := VALIDATING\<rparr>"
  have s2: "ps_validate ''r1'' s1 = Inr (res, s2)"
    and m2: "sv_snapshots s2 = [(''r1'', \<lparr>sn_request = sample_request, sn_status = VALIDATING,
      sn_result = Some res\<rparr>)]" and f2: "\<not> sv_closed s2"
    by (simp_all add: s2_def ps_validate_def ps_lookup_def dict_lookup_def m1 f1 Let_def res_def
        publication_transition_def) (simp_all add: sample_request_def)
  have "complies sample_publisher default_publication_policy sample_request \<and> well_shaped sample_request"
    by (simp add: complies_def well_shaped_def Let_def defs)
  then have d: "rs_decision res = ACCEPT"
    by (simp add: res_def validator_decision)
  have pub: "sample_published = snd (projr (ps_accept ''r1'' s2))"
    by (simp add: sample_published_def s1_def s2_def Let_def)
  have id: "rq_id sample_request = ''r1''" by (simp add: sample_request_def)
  have s3: "ps_accept ''r1'' s2 = Inr (\<lparr>sn_request = sample_request, sn_status = ACCEPTED,
      sn_result = Some (res\<lparr>rs_status := ACCEPTED\<rparr>)\<rparr>, sample_published)"
    "map_option sn_status (map_of (sv_snapshots sample_published) ''r1'') = Some ACCEPTED"
    "map_option sn_request (map_of (sv_snapshots sample_published) ''r1'') = Some sample_request"
    unfolding pub using d by (simp_all add: ps_accept_def
        ps_lookup_def dict_lookup_def m2 f2 ps_transition_def publication_transition_def Let_def id)
  show "pub_step\<^sup>*\<^sup>* ?s0 sample_published"
    using pub_step.submit [OF s1] pub_step.validate [OF s2] pub_step.accept [OF s3(1)]
    by (meson rtranclp.rtrancl_into_rtrancl rtranclp.rtrancl_refl)
  show "map_option sn_status (map_of (sv_snapshots sample_published) ''r1'') = Some ACCEPTED"
    by (rule s3(2))
  show "map_option sn_request (map_of (sv_snapshots sample_published) ''r1'') = Some sample_request"
    by (rule s3(3))
qed

lemma accepted_publications_comply_witness:
  "\<exists>n. map_of (sv_snapshots sample_published) ''r1'' = Some n \<and> sn_status n = ACCEPTED
     \<and> complies sample_publisher default_publication_policy (sn_request n)"
proof -
  obtain n where n: "map_of (sv_snapshots sample_published) ''r1'' = Some n" "sn_status n = ACCEPTED"
    using sample_published_steps(2) by auto
  with accepted_publications_comply [OF sample_published_steps(1) n(1)] show ?thesis by blast
qed


definition moved :: "publication_snapshot \<Rightarrow> publication_snapshot \<Rightarrow> bool" where
  "moved n n' \<longleftrightarrow> sn_request n' = sn_request n \<and>
     (n' = n \<or> sn_status n' \<in> set (publication_targets (sn_status n)))"

lemma moved_refl [simp]: "moved n n"
  by (simp add: moved_def)

lemma transition_moves:
  assumes "pub_inv s" "map_of (sv_snapshots s) i = Some n" "ps_transition m st s = Inr (u, s')"
    and "map_of (sv_snapshots s) j = Some m"
  shows "\<exists>n'. map_of (sv_snapshots s') i = Some n' \<and> moved n n'"
proof -
  have "keyed snapshot_id (sv_snapshots s)" using assms(1) by (simp add: pub_inv_def)
  from keyed_key [OF this assms(4)] have id: "rq_id (sn_request m) = j"
    by (simp add: snapshot_id_def)
  have u: "sv_snapshots s' = AList.update j u (sv_snapshots s)" "sn_request u = sn_request m"
      "sn_status u \<in> set (publication_targets (sn_status m))"
    using assms(3) by (auto simp: ps_transition_def publication_transition_def Let_def id
        split: if_splits)
  show ?thesis
    using assms(2,4) u by (cases "i = j") (auto simp: moved_def)
qed

lemma step_moves:
  assumes "pub_step s s'" "pub_inv s" "map_of (sv_snapshots s) i = Some n"
  shows "sv_snapshots s' = [] \<or> (\<exists>n'. map_of (sv_snapshots s') i = Some n' \<and> moved n n')"
  using assms
proof (induction rule: pub_step.induct)
  case (submit r s m s')
  then have "sv_snapshots s' = AList.update (rq_id r) m (sv_snapshots s)" "i \<noteq> rq_id r"
    by (auto simp: ps_submit_def Let_def split: if_splits sum.splits)
  with submit.prems(2) show ?case by simp
next
  case (validate j s res s')
  have k: "keyed snapshot_id (sv_snapshots s)" using validate.prems(1) by (simp add: pub_inv_def)
  obtain m where m: "map_of (sv_snapshots s) j = Some m"
    using validate.hyps by (auto simp: ps_validate_def lookup_Inr split: if_splits sum.splits)
  have id: "rq_id (sn_request m) = j" using keyed_key [OF k m] by (simp add: snapshot_id_def)
  obtain u where "sv_snapshots s' = AList.update j u (sv_snapshots s)" "sn_request u = sn_request m"
      "sn_status u \<in> set (publication_targets (sn_status m))"
    using validate.hyps m by (auto simp: ps_validate_def lookup_Inr [THEN iffD2, OF m]
        publication_transition_def Let_def id split: if_splits)
  with m validate.prems(2) show ?case by (cases "i = j") (auto simp: moved_def)
next
  case (accept j s m s')
  then show ?case
    by (auto simp: ps_accept_def lookup_Inr split: if_splits sum.splits dest: transition_moves)
next
  case (reject j s m s')
  then show ?case
    by (auto simp: ps_reject_def lookup_Inr split: if_splits sum.splits dest: transition_moves)
next
  case (withdraw j s m s')
  then show ?case
    by (auto simp: ps_withdraw_def lookup_Inr split: if_splits sum.splits dest: transition_moves)
next
  case (clear s s')
  then show ?case by (auto simp: ps_clear_def split: if_splits)
next
  case (close s)
  then show ?case by (simp add: ps_close_def)
qed

text \<open>One operation moves publications along the lifecycle table only: every publication keeps its
  request, its status stays or takes an edge of the table, and an accepted or withdrawn publication
  does not change at all; only \<open>clear\<close> and \<open>close\<close> drop publications, and then all of them.\<close>

theorem publication_lifecycle:
  assumes "pub_step\<^sup>*\<^sup>* (new_publication_service pub p) s" "pub_step s s'"
    and "map_of (sv_snapshots s) i = Some n"
  shows "sv_snapshots s' = [] \<or>
    (\<exists>n'. map_of (sv_snapshots s') i = Some n' \<and> sn_request n' = sn_request n
       \<and> (n' = n \<or> sn_status n' \<in> set (publication_targets (sn_status n)))
       \<and> (sn_status n \<in> {ACCEPTED, WITHDRAWN} \<longrightarrow> n' = n))"
  using step_moves [OF assms(2) pub_reachable_inv [OF assms(1)] assms(3)]
  by (auto simp: moved_def)

definition sample_submitted :: publication_service where
  "sample_submitted =
     snd (projr (ps_submit sample_request
       (new_publication_service sample_publisher default_publication_policy)))"

lemma publication_lifecycle_witness:
  "\<exists>n s' n'. map_of (sv_snapshots sample_submitted) ''r1'' = Some n \<and> sn_status n = SUBMITTED
     \<and> ps_withdraw ''r1'' sample_submitted = Inr (n', s') \<and> sn_status n' = WITHDRAWN
     \<and> WITHDRAWN \<in> set (publication_targets SUBMITTED)"
proof -
  let ?s0 = "new_publication_service sample_publisher default_publication_policy"
  let ?n = "\<lparr>sn_request = sample_request, sn_status = SUBMITTED, sn_result = None\<rparr>"
  let ?u = "\<lparr>sn_request = sample_request, sn_status = WITHDRAWN, sn_result = None\<rparr>"
  have id: "rq_id sample_request = ''r1''" by (simp add: sample_request_def)
  have sub: "ps_submit sample_request ?s0 = Inr (?n, sample_submitted)"
    by (simp add: sample_submitted_def ps_submit_def publication_transition_def Let_def
        new_publication_service_def sample_publisher_def sample_request_def)
  have m: "sv_snapshots sample_submitted = [(''r1'', ?n)]" "\<not> sv_closed sample_submitted"
    by (simp_all add: sample_submitted_def ps_submit_def publication_transition_def Let_def
        new_publication_service_def sample_publisher_def sample_request_def)
  have reach: "pub_step\<^sup>*\<^sup>* ?s0 sample_submitted"
    using pub_step.submit [OF sub] by blast
  define s' where "s' = sample_submitted\<lparr>sv_snapshots := [(''r1'', ?u)]\<rparr>"
  have w: "ps_withdraw ''r1'' sample_submitted = Inr (?u, s')"
    by (simp add: ps_withdraw_def ps_lookup_def dict_lookup_def m ps_transition_def
        publication_transition_def Let_def id s'_def)
  have n: "map_of (sv_snapshots sample_submitted) ''r1'' = Some ?n" by (simp add: m)
  have "?u = ?n \<or> sn_status ?u \<in> set (publication_targets (sn_status ?n))"
    using publication_lifecycle [OF reach pub_step.withdraw [OF w] n] by (simp add: s'_def)
  then show ?thesis using n w by auto
qed

end
