(* ===== verification/Package_Registry.thy ===== *)
theory Package_Registry
  imports Publication
begin

text \<open>
  The Registry Foundation (\<open>src/marketplace/registry_foundation/\<close>): entries with the checks of their
  constructor, the service with its coordinate index and its event history, queries, the derived
  index of a snapshot, statistics, and the adapter that turns an accepted publication into an entry.
  \<open>str.casefold\<close> is the parameter \<open>casefold\<close>.
\<close>

subsection \<open>Models\<close>

datatype registry_status = RG_ACTIVE | RG_WITHDRAWN | RG_DEPRECATED

fun registry_status_value :: "registry_status \<Rightarrow> string" where
  "registry_status_value RG_ACTIVE = ''active''"
| "registry_status_value RG_WITHDRAWN = ''withdrawn''"
| "registry_status_value RG_DEPRECATED = ''deprecated''"

datatype registry_event_type =
    EV_REGISTERED | EV_UNREGISTERED | EV_WITHDRAWN | EV_RESTORED | EV_DEPRECATED | EV_CLEARED | EV_CLOSED

datatype registry_sort = S_PACKAGE_ID | S_PUBLISHER_ID | S_VERSION | S_CATEGORY | S_STATUS

datatype registry_error =
    Registry_ValueError string
  | RegistryConflictError string
  | RegistryNotFoundError string
  | RegistryClosedError
  | RegistryPublicationError string

definition mk_entry_id :: "string \<Rightarrow> registry_error + string" where
  "mk_entry_id v =
     (if v = '''' then Inl (Registry_ValueError ''Registry entry id must not be empty.'') else Inr v)"

record coordinate =
  co_publisher :: string
  co_package :: string
  co_version :: package_version

definition mk_coordinate :: "string \<Rightarrow> string \<Rightarrow> package_version \<Rightarrow> registry_error + coordinate" where
  "mk_coordinate pub pkg v =
     (if pub = '''' \<or> pkg = ''''
      then Inl (Registry_ValueError ''Registry coordinate publisher and package ids are required.'')
      else Inr \<lparr>co_publisher = pub, co_package = pkg, co_version = v\<rparr>)"

type_synonym coordinate_key = "string \<times> string \<times> string"

definition coordinate_key :: "coordinate \<Rightarrow> coordinate_key" where
  "coordinate_key c = (co_publisher c, co_package c, version_str (co_version c))"

record reg_entry =
  re_id :: string
  re_coordinate :: coordinate
  re_publication :: string
  re_manifest :: manifest
  re_publisher :: publisher
  re_category :: package_category
  re_dependencies :: "package_dependency list"
  re_compatibility :: compatibility
  re_tags :: "string list"
  re_status :: registry_status
  re_metadata :: "(string, market_value) dict"

definition check_entry :: "reg_entry \<Rightarrow> registry_error + reg_entry" where
  "check_entry e =
     (if re_publication e = ''''
      then Inl (Registry_ValueError ''Registry entry requires a publication id.'')
      else if co_publisher (re_coordinate e) \<noteq> pb_id (re_publisher e)
      then Inl (Registry_ValueError ''Registry coordinate publisher must match entry publisher.'')
      else if co_package (re_coordinate e) \<noteq> mf_package_id (re_manifest e)
      then Inl (Registry_ValueError ''Registry coordinate package must match entry manifest.'')
      else if co_version (re_coordinate e) \<noteq> mf_version (re_manifest e)
      then Inl (Registry_ValueError ''Registry coordinate version must match entry manifest.'')
      else Inr e)"

record registry_event =
  rv_sequence :: int
  rv_type :: registry_event_type
  rv_entry :: "string option"
  rv_coordinate :: "coordinate option"

subsection \<open>Adapter\<close>

definition entry_from_snapshot ::
  "publisher \<Rightarrow> string \<Rightarrow> publication_snapshot \<Rightarrow> (string, market_value) dict \<Rightarrow>
     registry_error + reg_entry" where
  "entry_from_snapshot pub i n metadata =
     (if sn_status n \<noteq> ACCEPTED
      then Inl (RegistryPublicationError ''Only accepted publication snapshots can be registered.'')
      else
        let r = sn_request n; m = rq_manifest r in
        if rq_publisher r \<noteq> pb_id pub
        then Inl (RegistryPublicationError
               ''Publication snapshot publisher does not match the injected publisher.'')
        else case mk_coordinate (pb_id pub) (mf_package_id m) (mf_version m) of
               Inl e \<Rightarrow> Inl e
             | Inr c \<Rightarrow>
                 check_entry \<lparr>re_id = i, re_coordinate = c, re_publication = rq_id r,
                   re_manifest = m, re_publisher = pub, re_category = mf_category m,
                   re_dependencies = mf_dependencies m, re_compatibility = mf_compatibility m,
                   re_tags = mf_tags m, re_status = RG_ACTIVE, re_metadata = metadata\<rparr>)"

definition project_entry :: "reg_entry \<Rightarrow> catalog_package" where
  "project_entry e = \<lparr>cg_manifest = re_manifest e, cg_featured = False\<rparr>"

subsection \<open>Service\<close>

record registry_service =
  rg_entries :: "(string, reg_entry) dict"
  rg_coordinates :: "(coordinate_key, string) dict"
  rg_events :: "registry_event list"
  rg_sequence :: int
  rg_closed :: bool

definition new_registry :: registry_service where
  "new_registry = \<lparr>rg_entries = [], rg_coordinates = [], rg_events = [], rg_sequence = 0,
     rg_closed = False\<rparr>"

definition rg_emit :: "registry_event_type \<Rightarrow> reg_entry option \<Rightarrow> registry_service \<Rightarrow> registry_service" where
  "rg_emit t e s = s\<lparr>rg_sequence := rg_sequence s + 1,
     rg_events := rg_events s @ [\<lparr>rv_sequence = rg_sequence s + 1, rv_type = t,
       rv_entry = map_option re_id e, rv_coordinate = map_option re_coordinate e\<rparr>]\<rparr>"

definition rg_register :: "reg_entry \<Rightarrow> registry_service \<Rightarrow> registry_error + registry_service" where
  "rg_register e s =
     (if rg_closed s then Inl RegistryClosedError
      else if map_of (rg_entries s) (re_id e) \<noteq> None
      then Inl (RegistryConflictError (''Registry entry already exists: '' @ re_id e @ ''.''))
      else if map_of (rg_coordinates s) (coordinate_key (re_coordinate e)) \<noteq> None
      then Inl (RegistryConflictError (''Registry coordinate already exists: '' @
             co_publisher (re_coordinate e) @ ''/'' @ co_package (re_coordinate e) @ ''/'' @
             version_str (co_version (re_coordinate e)) @ ''.''))
      else Inr (rg_emit EV_REGISTERED (Some e)
             (s\<lparr>rg_entries := AList.update (re_id e) e (rg_entries s),
                rg_coordinates := AList.update (coordinate_key (re_coordinate e)) (re_id e)
                                    (rg_coordinates s)\<rparr>)))"

definition rg_register_publication ::
  "publisher \<Rightarrow> string \<Rightarrow> publication_snapshot \<Rightarrow> (string, market_value) dict \<Rightarrow> registry_service \<Rightarrow>
     registry_error + reg_entry \<times> registry_service" where
  "rg_register_publication pub i n metadata s =
     (case entry_from_snapshot pub i n metadata of
        Inl x \<Rightarrow> Inl x
      | Inr e \<Rightarrow> (case rg_register e s of Inl x \<Rightarrow> Inl x | Inr s' \<Rightarrow> Inr (e, s')))"

definition rg_lookup :: "string \<Rightarrow> registry_service \<Rightarrow> registry_error + reg_entry" where
  "rg_lookup i s =
     dict_lookup (RegistryNotFoundError (''Registry entry was not found: '' @ i @ ''.'')) i (rg_entries s)"

definition rg_get :: "string \<Rightarrow> registry_service \<Rightarrow> registry_error + reg_entry" where
  "rg_get i s = (if rg_closed s then Inl RegistryClosedError else rg_lookup i s)"

definition rg_unregister ::
  "string \<Rightarrow> registry_service \<Rightarrow> registry_error + reg_entry \<times> registry_service" where
  "rg_unregister i s =
     (if rg_closed s then Inl RegistryClosedError
      else case rg_lookup i s of
        Inl x \<Rightarrow> Inl x
      | Inr e \<Rightarrow> Inr (e, rg_emit EV_UNREGISTERED (Some e)
             (s\<lparr>rg_entries := AList.delete i (rg_entries s),
                rg_coordinates := AList.delete (coordinate_key (re_coordinate e)) (rg_coordinates s)\<rparr>)))"

definition rg_set_status ::
  "string \<Rightarrow> registry_status \<Rightarrow> registry_event_type \<Rightarrow> registry_service \<Rightarrow>
     registry_error + reg_entry \<times> registry_service" where
  "rg_set_status i st ev s =
     (if rg_closed s then Inl RegistryClosedError
      else case rg_lookup i s of
        Inl x \<Rightarrow> Inl x
      | Inr e \<Rightarrow>
          if re_status e = st then Inr (e, s)
          else let e' = e\<lparr>re_status := st\<rparr>
               in Inr (e', rg_emit ev (Some e') (s\<lparr>rg_entries := AList.update i e' (rg_entries s)\<rparr>)))"

definition rg_withdraw where "rg_withdraw i = rg_set_status i RG_WITHDRAWN EV_WITHDRAWN"

definition rg_deprecate where "rg_deprecate i = rg_set_status i RG_DEPRECATED EV_DEPRECATED"

definition rg_restore where "rg_restore i = rg_set_status i RG_ACTIVE EV_RESTORED"

text \<open>\<open>Inr None\<close> stands for the \<open>KeyError\<close> of an index entry without registry entry;
  \<open>registry_index_exact\<close> excludes it.\<close>

definition rg_get_by_coordinate :: "coordinate \<Rightarrow> registry_service \<Rightarrow> registry_error + reg_entry option" where
  "rg_get_by_coordinate c s =
     (if rg_closed s then Inl RegistryClosedError
      else case map_of (rg_coordinates s) (coordinate_key c) of
        None \<Rightarrow> Inl (RegistryNotFoundError ''Registry coordinate was not found.'')
      | Some i \<Rightarrow> Inr (map_of (rg_entries s) i))"

definition rg_exists :: "string \<Rightarrow> registry_service \<Rightarrow> registry_error + bool" where
  "rg_exists i s = (if rg_closed s then Inl RegistryClosedError
                    else Inr (map_of (rg_entries s) i \<noteq> None))"

definition ordered_entries :: "registry_service \<Rightarrow> reg_entry list" where
  "ordered_entries s = sorted_values (rg_entries s)"

definition rg_list :: "registry_service \<Rightarrow> registry_error + reg_entry list" where
  "rg_list s = (if rg_closed s then Inl RegistryClosedError else Inr (ordered_entries s))"

definition rg_clear :: "registry_service \<Rightarrow> registry_error + registry_service" where
  "rg_clear s =
     (if rg_closed s then Inl RegistryClosedError
      else if rg_entries s = [] then Inr s
      else Inr (rg_emit EV_CLEARED None (s\<lparr>rg_entries := [], rg_coordinates := []\<rparr>)))"

definition rg_close :: "registry_service \<Rightarrow> registry_service" where
  "rg_close s =
     (if rg_closed s then s
      else rg_emit EV_CLOSED None (s\<lparr>rg_entries := [], rg_coordinates := [], rg_closed := True\<rparr>))"

subsection \<open>Queries\<close>

record registry_filter =
  rf_publisher :: "string option"
  rf_package :: "string option"
  rf_category :: "package_category option"
  rf_version :: "package_version option"
  rf_tag :: "string option"
  rf_status :: "registry_status option"

record registry_query =
  rq_keyword :: "string option"
  rq_filter :: registry_filter
  rq_sort :: registry_sort
  rq_descending :: bool

definition default_registry_query :: registry_query where
  "default_registry_query = \<lparr>rq_keyword = None, rq_filter = \<lparr>rf_publisher = None, rf_package = None,
     rf_category = None, rf_version = None, rf_tag = None, rf_status = None\<rparr>,
     rq_sort = S_PACKAGE_ID, rq_descending = False\<rparr>"

definition entry_matches :: "reg_entry \<Rightarrow> registry_filter \<Rightarrow> bool" where
  "entry_matches e f \<longleftrightarrow>
     (rf_publisher f = None \<or> rf_publisher f = Some (pb_id (re_publisher e)))
   \<and> (rf_package f = None \<or> rf_package f = Some (mf_package_id (re_manifest e)))
   \<and> (rf_category f = None \<or> rf_category f = Some (re_category e))
   \<and> (rf_version f = None \<or> rf_version f = Some (mf_version (re_manifest e)))
   \<and> (case rf_tag f of None \<Rightarrow> True | Some t \<Rightarrow> t \<in> set (re_tags e))
   \<and> (rf_status f = None \<or> rf_status f = Some (re_status e))"

definition entry_keyword :: "(string \<Rightarrow> string) \<Rightarrow> reg_entry \<Rightarrow> string option \<Rightarrow> bool" where
  "entry_keyword casefold e k =
     (case k of
        None \<Rightarrow> True
      | Some w \<Rightarrow>
          strip w = '''' \<or>
          (\<exists>v \<in> set ([mf_package_id (re_manifest e), mf_name (re_manifest e),
                     mf_description (re_manifest e), pb_id (re_publisher e)] @ re_tags e).
             sublist (casefold w) (casefold v)))"

definition entry_sort_key :: "registry_sort \<Rightarrow> reg_entry \<Rightarrow> string \<times> string" where
  "entry_sort_key f e =
     ((case f of
         S_PACKAGE_ID \<Rightarrow> mf_package_id (re_manifest e)
       | S_PUBLISHER_ID \<Rightarrow> pb_id (re_publisher e)
       | S_VERSION \<Rightarrow> version_str (mf_version (re_manifest e))
       | S_CATEGORY \<Rightarrow> category_value (re_category e)
       | S_STATUS \<Rightarrow> registry_status_value (re_status e)), re_id e)"

definition rg_filter :: "registry_filter \<Rightarrow> registry_service \<Rightarrow> registry_error + reg_entry list" where
  "rg_filter f s =
     (if rg_closed s then Inl RegistryClosedError
      else Inr (filter (\<lambda>e. entry_matches e f) (ordered_entries s)))"

definition rg_search ::
  "(string \<Rightarrow> string) \<Rightarrow> registry_query option \<Rightarrow> registry_service \<Rightarrow>
     registry_error + reg_entry list \<times> int" where
  "rg_search casefold query s =
     (if rg_closed s then Inl RegistryClosedError
      else
        let q = (case query of None \<Rightarrow> default_registry_query | Some q \<Rightarrow> q);
            es = filter (\<lambda>e. entry_matches e (rq_filter q) \<and> entry_keyword casefold e (rq_keyword q))
                   (ordered_entries s);
            srt = py_sorted (entry_sort_key (rq_sort q)) (rq_descending q) es
        in Inr (srt, int (length srt)))"

text \<open>The derived index of a snapshot.\<close>

record registry_index =
  ix_coordinates :: "(coordinate_key, string) dict"
  ix_packages :: "(string, string list) dict"
  ix_publishers :: "(string, string list) dict"
  ix_categories :: "(string, string list) dict"
  ix_versions :: "(string, string list) dict"
  ix_tags :: "(string, string list) dict"
  ix_statuses :: "(string, string list) dict"

definition grouped :: "'k \<Rightarrow> 'v \<Rightarrow> ('k, 'v list) dict \<Rightarrow> ('k, 'v list) dict" where
  "grouped k v d = AList.update k (dict_get d k [] @ [v]) d"

definition index_entry :: "reg_entry \<Rightarrow> registry_index \<Rightarrow> registry_index" where
  "index_entry e ix =
     (let i = re_id e in
      ix\<lparr>ix_coordinates := AList.update (coordinate_key (re_coordinate e)) i (ix_coordinates ix),
         ix_packages := grouped (mf_package_id (re_manifest e)) i (ix_packages ix),
         ix_publishers := grouped (pb_id (re_publisher e)) i (ix_publishers ix),
         ix_categories := grouped (category_value (re_category e)) i (ix_categories ix),
         ix_versions := grouped (version_str (mf_version (re_manifest e))) i (ix_versions ix),
         ix_statuses := grouped (registry_status_value (re_status e)) i (ix_statuses ix),
         ix_tags := fold (\<lambda>t. grouped t i) (re_tags e) (ix_tags ix)\<rparr>)"

definition build_index :: "reg_entry list \<Rightarrow> registry_index" where
  "build_index es =
     (let ix = fold index_entry es \<lparr>ix_coordinates = [], ix_packages = [], ix_publishers = [],
                 ix_categories = [], ix_versions = [], ix_tags = [], ix_statuses = []\<rparr>
      in ix\<lparr>ix_tags := map (\<lambda>(k, is). (k, sort is)) (ix_tags ix)\<rparr>)"

record registry_snapshot =
  rn_entries :: "reg_entry list"
  rn_index :: registry_index

definition rg_snapshot :: "registry_service \<Rightarrow> registry_error + registry_snapshot" where
  "rg_snapshot s =
     (if rg_closed s then Inl RegistryClosedError
      else Inr \<lparr>rn_entries = ordered_entries s, rn_index = build_index (ordered_entries s)\<rparr>)"

record registry_statistics =
  rt_total :: int
  rt_active :: int
  rt_withdrawn :: int
  rt_deprecated :: int
  rt_publishers :: int
  rt_packages :: int
  rt_versions :: int
  rt_categories :: int

definition count_of :: "('a \<Rightarrow> bool) \<Rightarrow> 'a list \<Rightarrow> int" where
  "count_of P xs = int (length (filter P xs))"

definition distinct_values :: "('a \<Rightarrow> 'b) \<Rightarrow> 'a list \<Rightarrow> int" where
  "distinct_values f xs = int (card (set (map f xs)))"

definition rg_statistics :: "registry_service \<Rightarrow> registry_error + registry_statistics" where
  "rg_statistics s =
     (if rg_closed s then Inl RegistryClosedError
      else
        let es = ordered_entries s in
        Inr \<lparr>rt_total = int (length es),
             rt_active = count_of (\<lambda>e. re_status e = RG_ACTIVE) es,
             rt_withdrawn = count_of (\<lambda>e. re_status e = RG_WITHDRAWN) es,
             rt_deprecated = count_of (\<lambda>e. re_status e = RG_DEPRECATED) es,
             rt_publishers = distinct_values (\<lambda>e. pb_id (re_publisher e)) es,
             rt_packages = distinct_values (\<lambda>e. mf_package_id (re_manifest e)) es,
             rt_versions = distinct_values (\<lambda>e. version_str (mf_version (re_manifest e))) es,
             rt_categories = distinct_values re_category es\<rparr>)"


subsection \<open>The registry invariant\<close>

definition index_exact :: "registry_service \<Rightarrow> bool" where
  "index_exact s \<longleftrightarrow> (\<forall>k i. map_of (rg_coordinates s) k = Some i \<longleftrightarrow>
     (\<exists>e. map_of (rg_entries s) i = Some e \<and> coordinate_key (re_coordinate e) = k))"

definition events_numbered :: "registry_service \<Rightarrow> bool" where
  "events_numbered s \<longleftrightarrow>
     rg_sequence s = int (length (rg_events s)) \<and>
     map rv_sequence (rg_events s) = map int [1..<Suc (length (rg_events s))]"

definition rg_inv :: "registry_service \<Rightarrow> bool" where
  "rg_inv s \<longleftrightarrow> keyed re_id (rg_entries s) \<and> index_exact s \<and> events_numbered s
     \<and> (rg_closed s \<longrightarrow> rg_entries s = [])"

lemma rg_emit_simps [simp]:
  "rg_entries (rg_emit t e s) = rg_entries s" "rg_coordinates (rg_emit t e s) = rg_coordinates s"
  "rg_closed (rg_emit t e s) = rg_closed s"
  "index_exact (rg_emit t e s) = index_exact s"
  by (simp_all add: rg_emit_def index_exact_def)

lemma rg_emit_numbered: "events_numbered s \<Longrightarrow> events_numbered (rg_emit t e s)"
  by (simp add: events_numbered_def rg_emit_def)

lemma events_numbered_cong:
  "events_numbered s \<Longrightarrow> events_numbered (s\<lparr>rg_entries := a, rg_coordinates := b\<rparr>)"
  "events_numbered s \<Longrightarrow> events_numbered (s\<lparr>rg_entries := a\<rparr>)"
  "events_numbered s \<Longrightarrow> events_numbered (s\<lparr>rg_entries := a, rg_coordinates := b, rg_closed := c\<rparr>)"
  by (simp_all add: events_numbered_def)

lemma new_registry_inv [inv_intros]: "rg_inv new_registry"
  by (simp add: rg_inv_def new_registry_def index_exact_def events_numbered_def)

lemma rg_lookup_Inr: "rg_lookup i s = Inr e \<longleftrightarrow> map_of (rg_entries s) i = Some e"
  by (simp add: rg_lookup_def dict_lookup_def split: option.splits)

lemma rg_register_inv:
  assumes "rg_inv s" "rg_register e s = Inr s'"
  shows "rg_inv s'"
proof -
  let ?k = "coordinate_key (re_coordinate e)"
  from assms(2) have c: "\<not> rg_closed s" "map_of (rg_entries s) (re_id e) = None"
      "map_of (rg_coordinates s) ?k = None"
    and s': "s' = rg_emit EV_REGISTERED (Some e)
             (s\<lparr>rg_entries := AList.update (re_id e) e (rg_entries s),
                rg_coordinates := AList.update ?k (re_id e) (rg_coordinates s)\<rparr>)"
    by (auto simp: rg_register_def split: if_splits)
  have ix: "index_exact s" using assms(1) by (simp add: rg_inv_def)
  have "index_exact s'"
    unfolding index_exact_def
  proof (intro allI)
    fix k i
    have none: "\<not> (\<exists>f. map_of (rg_entries s) j = Some f \<and> coordinate_key (re_coordinate f) = ?k)" for j
      using ix c(3) unfolding index_exact_def by (metis option.distinct(1))
    have "map_of (rg_coordinates s) k \<noteq> Some (re_id e)"
      using ix c(2) unfolding index_exact_def by (metis option.distinct(1))
    then show "map_of (rg_coordinates s') k = Some i \<longleftrightarrow>
        (\<exists>f. map_of (rg_entries s') i = Some f \<and> coordinate_key (re_coordinate f) = k)"
      using none [of i] ix [unfolded index_exact_def, rule_format, of k i]
      by (cases "k = ?k"; cases "i = re_id e") (auto simp: s')
  qed
  moreover have "keyed re_id (rg_entries s')" "events_numbered s'" "\<not> rg_closed s'"
    using assms(1) c by (auto simp: s' rg_inv_def intro: rg_emit_numbered events_numbered_cong)
  ultimately show ?thesis by (simp add: rg_inv_def)
qed

lemma rg_unregister_inv:
  assumes "rg_inv s" "rg_unregister i s = Inr (e, s')"
  shows "rg_inv s'"
proof -
  let ?k = "coordinate_key (re_coordinate e)"
  from assms(2) have c: "\<not> rg_closed s" "map_of (rg_entries s) i = Some e"
    and s': "s' = rg_emit EV_UNREGISTERED (Some e)
             (s\<lparr>rg_entries := AList.delete i (rg_entries s),
                rg_coordinates := AList.delete ?k (rg_coordinates s)\<rparr>)"
    by (auto simp: rg_unregister_def rg_lookup_Inr split: if_splits sum.splits)
  have ix: "index_exact s" using assms(1) by (simp add: rg_inv_def)
  then have ki: "map_of (rg_coordinates s) ?k = Some i"
    using c(2) unfolding index_exact_def by blast
  have "index_exact s'"
    unfolding index_exact_def
  proof (intro allI)
    fix k j
    have "map_of (rg_coordinates s) k = Some i \<longleftrightarrow> k = ?k"
      using ix c(2) ki unfolding index_exact_def by (metis option.inject)
    moreover have "map_of (rg_coordinates s) ?k = Some j \<longleftrightarrow> j = i" using ki by auto
    ultimately show "map_of (rg_coordinates s') k = Some j \<longleftrightarrow>
        (\<exists>f. map_of (rg_entries s') j = Some f \<and> coordinate_key (re_coordinate f) = k)"
      using ix [unfolded index_exact_def, rule_format, of k j]
      by (cases "k = ?k"; cases "j = i") (auto simp: s')
  qed
  moreover have "keyed re_id (rg_entries s')" "events_numbered s'" "\<not> rg_closed s'"
    using assms(1) c by (auto simp: s' rg_inv_def intro: rg_emit_numbered events_numbered_cong)
  ultimately show ?thesis by (simp add: rg_inv_def)
qed

lemma rg_set_status_inv:
  assumes "rg_inv s" "rg_set_status i st ev s = Inr (e, s')"
  shows "rg_inv s'"
proof -
  obtain e0 where c: "\<not> rg_closed s" "map_of (rg_entries s) i = Some e0"
    using assms(2) by (auto simp: rg_set_status_def rg_lookup_Inr split: if_splits sum.splits)
  have id: "re_id e0 = i" using assms(1) c(2) by (auto simp: rg_inv_def dest: keyed_key)
  show ?thesis
  proof (cases "re_status e0 = st")
    case True
    with assms c show ?thesis
      by (auto simp: rg_set_status_def rg_lookup_Inr [THEN iffD2, OF c(2)] Let_def)
  next
    case False
    let ?e = "e0\<lparr>re_status := st\<rparr>"
    have s': "s' = rg_emit ev (Some ?e) (s\<lparr>rg_entries := AList.update i ?e (rg_entries s)\<rparr>)"
      using assms(2) c False
      by (auto simp: rg_set_status_def rg_lookup_Inr [THEN iffD2, OF c(2)] Let_def)
    have ix: "index_exact s" using assms(1) by (simp add: rg_inv_def)
    have "index_exact s'"
      unfolding index_exact_def
    proof (intro allI)
      fix k j
      show "map_of (rg_coordinates s') k = Some j \<longleftrightarrow>
          (\<exists>f. map_of (rg_entries s') j = Some f \<and> coordinate_key (re_coordinate f) = k)"
        using ix [unfolded index_exact_def, rule_format, of k j] c(2)
        by (cases "j = i") (auto simp: s')
    qed
    moreover have "keyed re_id (rg_entries s')" "events_numbered s'" "\<not> rg_closed s'"
      using assms(1) c id by (auto simp: s' rg_inv_def intro: rg_emit_numbered events_numbered_cong)
    ultimately show ?thesis by (simp add: rg_inv_def)
  qed
qed


inductive reg_step :: "registry_service \<Rightarrow> registry_service \<Rightarrow> bool" where
  register: "rg_register e s = Inr s' \<Longrightarrow> reg_step s s'"
| unregister: "rg_unregister i s = Inr (e, s') \<Longrightarrow> reg_step s s'"
| withdraw: "rg_withdraw i s = Inr (e, s') \<Longrightarrow> reg_step s s'"
| deprecate: "rg_deprecate i s = Inr (e, s') \<Longrightarrow> reg_step s s'"
| restore: "rg_restore i s = Inr (e, s') \<Longrightarrow> reg_step s s'"
| clear: "rg_clear s = Inr s' \<Longrightarrow> reg_step s s'"
| close: "reg_step s (rg_close s)"

lemma index_exact_empty: "index_exact s' \<Longrightarrow> rg_entries s = [] \<Longrightarrow> rg_coordinates s = [] \<Longrightarrow> index_exact s"
  by (simp add: index_exact_def)

lemma reg_step_inv: "reg_step s s' \<Longrightarrow> rg_inv s \<Longrightarrow> rg_inv s'"
proof (induction rule: reg_step.induct)
  case (clear s s')
  then show ?case
    by (auto simp: rg_clear_def rg_inv_def split: if_splits
        intro: rg_emit_numbered events_numbered_cong index_exact_empty)
next
  case (close s)
  then show ?case
    by (auto simp: rg_close_def rg_inv_def
        intro: rg_emit_numbered events_numbered_cong index_exact_empty)
qed (auto simp: rg_withdraw_def rg_deprecate_def rg_restore_def
      intro: rg_register_inv rg_unregister_inv rg_set_status_inv)

lemma reg_reachable_inv: "reg_step\<^sup>*\<^sup>* new_registry s \<Longrightarrow> rg_inv s"
  by (induction rule: rtranclp_induct) (auto intro: reg_step_inv new_registry_inv)

text \<open>The identifiers that the event history leaves registered.\<close>

fun replay_event :: "registry_event \<Rightarrow> string set \<Rightarrow> string set" where
  "replay_event v ids =
     (case (rv_type v, rv_entry v) of
        (EV_REGISTERED, Some i) \<Rightarrow> insert i ids
      | (EV_UNREGISTERED, Some i) \<Rightarrow> ids - {i}
      | (EV_CLEARED, _) \<Rightarrow> {}
      | (EV_CLOSED, _) \<Rightarrow> {}
      | _ \<Rightarrow> ids)"

definition replayed :: "registry_service \<Rightarrow> string set" where
  "replayed s = fold replay_event (rg_events s) {}"

lemma replayed_emit [simp]:
  "replayed (rg_emit t e s) =
     replay_event \<lparr>rv_sequence = rg_sequence s + 1, rv_type = t, rv_entry = map_option re_id e,
       rv_coordinate = map_option re_coordinate e\<rparr> (replayed s)"
  by (simp add: replayed_def rg_emit_def)

lemma replayed_update [simp]:
  "replayed (s\<lparr>rg_entries := a\<rparr>) = replayed s" "replayed (s\<lparr>rg_coordinates := b\<rparr>) = replayed s"
  "replayed (s\<lparr>rg_closed := c\<rparr>) = replayed s"
  by (simp_all add: replayed_def)

lemma set_status_replay:
  assumes "rg_set_status i st ev s = Inr (e, s')" "ev \<in> {EV_WITHDRAWN, EV_DEPRECATED, EV_RESTORED}"
    and "replayed s = dom (map_of (rg_entries s))"
  shows "replayed s' = dom (map_of (rg_entries s'))"
  using assms by (auto simp: rg_set_status_def rg_lookup_Inr Let_def split: if_splits sum.splits)

lemma step_replay:
  "reg_step s s' \<Longrightarrow> rg_inv s \<Longrightarrow> replayed s = dom (map_of (rg_entries s))
     \<Longrightarrow> replayed s' = dom (map_of (rg_entries s'))"
proof (induction rule: reg_step.induct)
  case (register e s s')
  then show ?case by (auto simp: rg_register_def split: if_splits)
next
  case (unregister i s e s')
  then have id: "re_id e = i"
    by (auto simp: rg_unregister_def rg_lookup_Inr rg_inv_def split: if_splits sum.splits
        dest: keyed_key)
  from unregister show ?case
    by (auto simp: rg_unregister_def id split: if_splits sum.splits)
next
  case (clear s s')
  then show ?case by (auto simp: rg_clear_def split: if_splits)
next
  case (close s)
  then show ?case by (auto simp: rg_close_def rg_inv_def)
qed (auto simp: rg_withdraw_def rg_deprecate_def rg_restore_def dest: set_status_replay)

lemma reachable_replay:
  "reg_step\<^sup>*\<^sup>* new_registry s \<Longrightarrow> replayed s = dom (map_of (rg_entries s))"
proof (induction rule: rtranclp_induct)
  case base
  then show ?case by (simp add: replayed_def new_registry_def)
next
  case (step s1 s2)
  then show ?case using step_replay reg_reachable_inv by blast
qed

text \<open>C21: after any operations of an open registry service, the lookup by coordinate finds exactly the
  registered entry that has this publisher, package and version text, never an entry that is gone;
  no two entries share a coordinate; the events carry the numbers 1, 2, 3 and so on without a gap;
  and replaying the registrations, removals and clearings among them gives exactly the identifiers
  of the registered entries.\<close>

theorem registry_index_exact:
  assumes "reg_step\<^sup>*\<^sup>* new_registry s" "\<not> rg_closed s"
  shows "(\<forall>c r. rg_get_by_coordinate c s = Inr r \<longleftrightarrow>
        (\<exists>i e. r = Some e \<and> rg_get i s = Inr e \<and> coordinate_key (re_coordinate e) = coordinate_key c))
    \<and> (\<forall>i j e f. rg_get i s = Inr e \<and> rg_get j s = Inr f
        \<and> coordinate_key (re_coordinate e) = coordinate_key (re_coordinate f) \<longrightarrow> i = j)
    \<and> map rv_sequence (rg_events s) = map int [1..<Suc (length (rg_events s))]
    \<and> replayed s = {i. \<exists>e. rg_get i s = Inr e}"
proof -
  have inv: "rg_inv s" by (rule reg_reachable_inv [OF assms(1)])
  then have ix: "\<And>k i. map_of (rg_coordinates s) k = Some i \<longleftrightarrow>
     (\<exists>e. map_of (rg_entries s) i = Some e \<and> coordinate_key (re_coordinate e) = k)"
    unfolding rg_inv_def index_exact_def by blast
  have get: "rg_get i s = Inr e \<longleftrightarrow> map_of (rg_entries s) i = Some e" for i e
    using assms(2) by (simp add: rg_get_def rg_lookup_Inr)
  have 1: "rg_get_by_coordinate c s = Inr r \<longleftrightarrow>
      (\<exists>i e. r = Some e \<and> rg_get i s = Inr e \<and> coordinate_key (re_coordinate e) = coordinate_key c)"
    for c r
  proof (cases "map_of (rg_coordinates s) (coordinate_key c)")
    case None
    have "coordinate_key (re_coordinate e) \<noteq> coordinate_key c" if "map_of (rg_entries s) i = Some e" for i e
      using None ix that by (metis option.distinct(1))
    with None assms(2) show ?thesis
      unfolding get by (auto simp: rg_get_by_coordinate_def)
  next
    case (Some i)
    then obtain e where e: "map_of (rg_entries s) i = Some e"
        "coordinate_key (re_coordinate e) = coordinate_key c" using ix by blast
    have only: "j = i \<and> f = e"
      if "map_of (rg_entries s) j = Some f" "coordinate_key (re_coordinate f) = coordinate_key c" for j f
      using ix Some e that by (metis option.inject)
    have "rg_get_by_coordinate c s = Inr r \<longleftrightarrow> r = Some e"
      using Some e assms(2) by (auto simp: rg_get_by_coordinate_def)
    then show ?thesis
      unfolding get using only e by blast
  qed
  have 2: "i = j" if "rg_get i s = Inr e" "rg_get j s = Inr f"
    "coordinate_key (re_coordinate e) = coordinate_key (re_coordinate f)" for i j e f
    using that unfolding get by (metis ix option.inject)
  have 3: "map rv_sequence (rg_events s) = map int [1..<Suc (length (rg_events s))]"
    using inv unfolding rg_inv_def events_numbered_def by blast
  have 4: "replayed s = {i. \<exists>e. rg_get i s = Inr e}"
    using reachable_replay [OF assms(1)] by (auto simp: get)
  from 1 2 3 4 show ?thesis by blast
qed

definition sample_reg_entry :: reg_entry where
  "sample_reg_entry = projr (entry_from_snapshot sample_publisher ''e1''
     (the (map_of (sv_snapshots sample_published) ''r1'')) [])"

lemma registry_index_exact_witness:
  "\<exists>s. rg_register sample_reg_entry new_registry = Inr s \<and> \<not> rg_closed s
     \<and> replayed s = {i. \<exists>e. rg_get i s = Inr e}"
proof -
  obtain s where s: "rg_register sample_reg_entry new_registry = Inr s"
    by (simp add: rg_register_def new_registry_def)
  then have "\<not> rg_closed s" by (auto simp: rg_register_def new_registry_def)
  moreover have "reg_step\<^sup>*\<^sup>* new_registry s" using reg_step.register [OF s] by blast
  ultimately show ?thesis using registry_index_exact [of s] s by blast
qed


subsection \<open>The derived index\<close>

lemma dict_get_grouped:
  "dict_get (grouped k v d) k' [] = dict_get d k' [] @ (if k' = k then [v] else [])"
  by (simp add: grouped_def)

lemma dict_get_tags:
  "distinct ts \<Longrightarrow>
     dict_get (fold (\<lambda>t. grouped t i) ts d) k [] = dict_get d k [] @ (if k \<in> set ts then [i] else [])"
  by (induction ts arbitrary: d) (auto simp: dict_get_grouped)

lemma dict_get_sorted:
  "dict_get (map (\<lambda>(k, is). (k, sort is)) d) k [] = sort (dict_get d k [])"
  by (induction d) (auto simp: dict_get_def)

text \<open>\<open>having f k es\<close>: the identifiers of the entries whose field \<open>f\<close> is \<open>k\<close>, in the order of the list.\<close>

definition having :: "(reg_entry \<Rightarrow> 'k) \<Rightarrow> 'k \<Rightarrow> reg_entry list \<Rightarrow> string list" where
  "having f k es = map re_id (filter (\<lambda>e. f e = k) es)"

lemma fold_index_entry:
  assumes "\<forall>e \<in> set es. distinct (re_tags e)"
  shows "dict_get (ix_packages (fold index_entry es ix)) k []
           = dict_get (ix_packages ix) k [] @ having (\<lambda>e. mf_package_id (re_manifest e)) k es"
    and "dict_get (ix_publishers (fold index_entry es ix)) k []
           = dict_get (ix_publishers ix) k [] @ having (\<lambda>e. pb_id (re_publisher e)) k es"
    and "dict_get (ix_categories (fold index_entry es ix)) k []
           = dict_get (ix_categories ix) k [] @ having (\<lambda>e. category_value (re_category e)) k es"
    and "dict_get (ix_versions (fold index_entry es ix)) k []
           = dict_get (ix_versions ix) k [] @ having (\<lambda>e. version_str (mf_version (re_manifest e))) k es"
    and "dict_get (ix_statuses (fold index_entry es ix)) k []
           = dict_get (ix_statuses ix) k [] @ having (\<lambda>e. registry_status_value (re_status e)) k es"
    and "dict_get (ix_tags (fold index_entry es ix)) k []
           = dict_get (ix_tags ix) k [] @ map re_id (filter (\<lambda>e. k \<in> set (re_tags e)) es)"
  using assms
  by (induction es arbitrary: ix)
    (simp_all add: index_entry_def Let_def dict_get_grouped dict_get_tags having_def)

lemma sorted_ids:
  assumes "keyed re_id d"
  shows "sorted (map re_id (filter P (sorted_values d)))"
  using keyed_listing(2) [OF assms] by (rule sorted_filter)

text \<open>The index of a snapshot agrees with its entries: under every package, publisher, category,
  version and status it lists exactly the entries that have it, in the order of the entry ids, and
  under every tag exactly the entries that carry it.\<close>

theorem snapshot_index_exact:
  assumes "reg_step\<^sup>*\<^sup>* new_registry s" "rg_snapshot s = Inr n"
    and "\<And>e. e \<in> set (rn_entries n) \<Longrightarrow> distinct (re_tags e)"
  shows "dict_get (ix_packages (rn_index n)) k [] = having (\<lambda>e. mf_package_id (re_manifest e)) k (rn_entries n)
    \<and> dict_get (ix_publishers (rn_index n)) k [] = having (\<lambda>e. pb_id (re_publisher e)) k (rn_entries n)
    \<and> dict_get (ix_categories (rn_index n)) k [] = having (\<lambda>e. category_value (re_category e)) k (rn_entries n)
    \<and> dict_get (ix_versions (rn_index n)) k []
        = having (\<lambda>e. version_str (mf_version (re_manifest e))) k (rn_entries n)
    \<and> dict_get (ix_statuses (rn_index n)) k []
        = having (\<lambda>e. registry_status_value (re_status e)) k (rn_entries n)
    \<and> dict_get (ix_tags (rn_index n)) k []
        = map re_id (filter (\<lambda>e. k \<in> set (re_tags e)) (rn_entries n))"
proof -
  have inv: "rg_inv s" by (rule reg_reachable_inv [OF assms(1)])
  then have key: "keyed re_id (rg_entries s)" by (simp add: rg_inv_def)
  have n: "rn_entries n = sorted_values (rg_entries s)" "rn_index n = build_index (rn_entries n)"
    using assms(2) by (auto simp: rg_snapshot_def ordered_entries_def split: if_splits)
  have tags: "\<forall>e \<in> set (rn_entries n). distinct (re_tags e)" using assms(3) by blast
  have "sort (map re_id (filter P (rn_entries n))) = map re_id (filter P (rn_entries n))" for P
    unfolding n(1) using sorted_ids [OF key, of P] by (simp add: sorted_sort_id)
  then show ?thesis
    by (simp add: n(2) build_index_def Let_def dict_get_sorted fold_index_entry [OF tags])
qed


definition sample_registry :: registry_service where
  "sample_registry = projr (rg_register sample_reg_entry new_registry)"

lemma sample_registry_facts:
  "rg_register sample_reg_entry new_registry = Inr sample_registry"
  "reg_step\<^sup>*\<^sup>* new_registry sample_registry"
  "rg_entries sample_registry = [(re_id sample_reg_entry, sample_reg_entry)]" "\<not> rg_closed sample_registry"
proof -
  show s: "rg_register sample_reg_entry new_registry = Inr sample_registry"
    by (simp add: sample_registry_def rg_register_def new_registry_def)
  show "reg_step\<^sup>*\<^sup>* new_registry sample_registry"
    using reg_step.register [OF s] by blast
  show "rg_entries sample_registry = [(re_id sample_reg_entry, sample_reg_entry)]"
    "\<not> rg_closed sample_registry"
    by (simp_all add: sample_registry_def rg_register_def new_registry_def)
qed

lemma sample_entry_tags: "re_tags sample_reg_entry = [''x''] \<and> re_id sample_reg_entry = ''e1''"
proof -
  obtain n where n: "map_of (sv_snapshots sample_published) ''r1'' = Some n" "sn_status n = ACCEPTED"
      "sn_request n = sample_request"
    using sample_published_steps(2,3) by auto
  show ?thesis
    by (simp add: sample_reg_entry_def n entry_from_snapshot_def Let_def check_entry_def
        mk_coordinate_def sample_request_def sample_publisher_def sample_manifest_def)
qed

lemma snapshot_index_exact_witness:
  "\<exists>n. rg_snapshot sample_registry = Inr n \<and> dict_get (ix_tags (rn_index n)) ''x'' [] = [''e1'']"
proof -
  obtain n where n: "rg_snapshot sample_registry = Inr n" "rn_entries n = [sample_reg_entry]"
    using sample_registry_facts(3,4)
    by (auto simp: rg_snapshot_def ordered_entries_def sorted_values_def sorted_keys_def)
  have "distinct (re_tags e)" if "e \<in> set (rn_entries n)" for e
    using that n(2) sample_entry_tags by simp
  from snapshot_index_exact [OF sample_registry_facts(2) n(1) this, of "''x''"] n sample_entry_tags
  show ?thesis by auto
qed

subsection \<open>From publication to registry\<close>

text \<open>Only what was accepted reaches the registry: when a registry registers a publication that a
  publication service holds, then the publication was accepted there, so that it satisfies the
  service's policy, and the new entry has the manifest of the publication, its dependencies, tags
  and category, the coordinate of the request, and is found under that coordinate.\<close>

theorem registered_publications_comply:
  assumes "pub_step\<^sup>*\<^sup>* (new_publication_service pub p) ps" "ps_get j ps = Inr n"
    and "reg_step\<^sup>*\<^sup>* new_registry s" "rg_register_publication pub i n md s = Inr (e, s')"
  shows "complies pub p (sn_request n) \<and> sn_status n = ACCEPTED
    \<and> re_manifest e = rq_manifest (sn_request n) \<and> re_dependencies e = mf_dependencies (re_manifest e)
    \<and> re_tags e = mf_tags (re_manifest e) \<and> re_category e = mf_category (re_manifest e)
    \<and> coordinate_key (re_coordinate e) = request_coordinate (sn_request n)
    \<and> rg_get_by_coordinate (re_coordinate e) s' = Inr (Some e)"
proof -
  have n: "map_of (sv_snapshots ps) j = Some n"
    using assms(2) by (auto simp: ps_get_def lookup_Inr split: if_splits)
  have e: "entry_from_snapshot pub i n md = Inr e" "rg_register e s = Inr s'"
    using assms(4) by (auto simp: rg_register_publication_def split: sum.splits)
  have fields: "sn_status n = ACCEPTED" "re_manifest e = rq_manifest (sn_request n)"
    "re_dependencies e = mf_dependencies (re_manifest e)" "re_tags e = mf_tags (re_manifest e)"
    "re_category e = mf_category (re_manifest e)"
    "coordinate_key (re_coordinate e) = request_coordinate (sn_request n)"
    using e(1) by (auto simp: entry_from_snapshot_def Let_def check_entry_def mk_coordinate_def
        coordinate_key_def request_coordinate_def split: if_splits sum.splits)
  have "complies pub p (sn_request n)"
    using accepted_complies [OF assms(1) n fields(1)] .
  moreover have "rg_get_by_coordinate (re_coordinate e) s' = Inr (Some e)"
    using e(2) by (auto simp: rg_register_def rg_get_by_coordinate_def split: if_splits)
  ultimately show ?thesis using fields by blast
qed

lemma registered_publications_comply_witness:
  "\<exists>n e s'. ps_get ''r1'' sample_published = Inr n
     \<and> rg_register_publication sample_publisher ''e1'' n [] new_registry = Inr (e, s')
     \<and> complies sample_publisher default_publication_policy (sn_request n)"
proof -
  obtain n where n: "map_of (sv_snapshots sample_published) ''r1'' = Some n" "sn_status n = ACCEPTED"
      "sn_request n = sample_request"
    using sample_published_steps(2,3) by auto
  have "pub_inv sample_published"
    by (rule pub_reachable_inv [OF sample_published_steps(1)])
  then have "\<not> sv_closed sample_published" using n(1) by (auto simp: pub_inv_def)
  then have g: "ps_get ''r1'' sample_published = Inr n"
    using n(1) by (simp add: ps_get_def lookup_Inr)
  obtain e where e: "entry_from_snapshot sample_publisher ''e1'' n [] = Inr e"
    by (simp add: n entry_from_snapshot_def Let_def check_entry_def mk_coordinate_def
        sample_request_def sample_publisher_def sample_manifest_def)
  obtain s' where s: "rg_register_publication sample_publisher ''e1'' n [] new_registry = Inr (e, s')"
    by (simp add: rg_register_publication_def e rg_register_def new_registry_def)
  from registered_publications_comply [OF sample_published_steps(1) g rtranclp.rtrancl_refl s] g s
  show ?thesis by blast
qed

end
