(* ===== verification/Resolver_Graph.thy ===== *)
theory Resolver_Graph
  imports Package_Registry
begin

text \<open>
  The graph of the dependency resolver (\<open>src/marketplace/resolver/models.py\<close>, \<open>graph.py\<close>):
  coordinates, requirements, the mutable builder, the immutable graph with its queries, the search
  for cycles and the topological order. \<open>cycles\<close> keeps its path in a list that every call restores;
  here the path is an argument, and it bounds the recursion. \<open>topological_order\<close> recurses on
  unseen nodes; it is written with fuel, and \<open>topo_enough_fuel\<close> shows that the fuel it is given
  suffices for every graph.
\<close>

subsection \<open>Models\<close>

datatype resolver_error =
    Resolver_ValueError string
  | Resolver_TypeError string
  | ResolverGraphError string
  | ResolverClosedError

text \<open>A \<open>DependencyCoordinate\<close> has the fields of the registry's coordinate and a key of its own.\<close>

type_synonym dep_key = "string \<times> string \<times> int \<times> int \<times> int \<times> string"

definition mk_dep_coordinate ::
  "string \<Rightarrow> string \<Rightarrow> package_version \<Rightarrow> resolver_error + coordinate" where
  "mk_dep_coordinate pub pkg v =
     (if pub = '''' \<or> pkg = ''''
      then Inl (Resolver_ValueError ''Dependency coordinate publisher and package ids are required.'')
      else Inr \<lparr>co_publisher = pub, co_package = pkg, co_version = v\<rparr>)"

definition dep_key :: "coordinate \<Rightarrow> dep_key" where
  "dep_key c = (let v = co_version c in
     (co_publisher c, co_package c, pv_major v, pv_minor v, pv_patch v, pre_text v))"

record requirement =
  rm_package :: string
  rm_publisher :: "string option"
  rm_version :: "string option"
  rm_optional :: bool
  rm_prerelease :: bool
  rm_metadata :: "(string, market_value) dict"

definition check_requirement :: "requirement \<Rightarrow> resolver_error + requirement" where
  "check_requirement r =
     (if rm_package r = '''' then Inl (Resolver_ValueError ''Dependency requirement package id is required.'')
      else Inr r)"

record dep_node =
  dn_coordinate :: coordinate
  dn_dependencies :: "requirement list"

record dep_edge =
  de_source :: coordinate
  de_target :: coordinate
  de_requirement :: requirement

definition edge_key :: "dep_edge \<Rightarrow> dep_key \<times> dep_key" where
  "edge_key e = (dep_key (de_source e), dep_key (de_target e))"

record dep_graph =
  gr_nodes :: "dep_node list"
  gr_edges :: "dep_edge list"

definition mk_graph :: "dep_node list \<Rightarrow> dep_edge list \<Rightarrow> dep_graph" where
  "mk_graph ns es = \<lparr>gr_nodes = sort_key (\<lambda>n. dep_key (dn_coordinate n)) ns,
                     gr_edges = sort_key edge_key es\<rparr>"

definition dependencies_of :: "dep_graph \<Rightarrow> coordinate \<Rightarrow> coordinate list" where
  "dependencies_of g c = map de_target (filter (\<lambda>e. de_source e = c) (gr_edges g))"

definition dependents_of :: "dep_graph \<Rightarrow> coordinate \<Rightarrow> coordinate list" where
  "dependents_of g c = map de_source (filter (\<lambda>e. de_target e = c) (gr_edges g))"

definition graph_roots :: "dep_graph \<Rightarrow> coordinate list" where
  "graph_roots g =
     filter (\<lambda>c. c \<notin> de_target ` set (gr_edges g)) (map dn_coordinate (gr_nodes g))"

definition graph_leaves :: "dep_graph \<Rightarrow> coordinate list" where
  "graph_leaves g =
     filter (\<lambda>c. c \<notin> de_source ` set (gr_edges g)) (map dn_coordinate (gr_nodes g))"

subsection \<open>Builder\<close>

record graph_builder =
  gb_nodes :: "(coordinate, dep_node) dict"
  gb_edges :: "(coordinate \<times> coordinate, dep_edge) dict"

definition new_builder :: graph_builder where
  "new_builder = \<lparr>gb_nodes = [], gb_edges = []\<rparr>"

definition add_node :: "dep_node \<Rightarrow> graph_builder \<Rightarrow> resolver_error + graph_builder" where
  "add_node n b =
     (case map_of (gb_nodes b) (dn_coordinate n) of
        Some m \<Rightarrow>
          if m \<noteq> n then Inl (ResolverGraphError ''Dependency graph node coordinate is duplicated.'')
          else Inr (b\<lparr>gb_nodes := AList.update (dn_coordinate n) n (gb_nodes b)\<rparr>)
      | None \<Rightarrow> Inr (b\<lparr>gb_nodes := AList.update (dn_coordinate n) n (gb_nodes b)\<rparr>))"

definition add_edge :: "dep_edge \<Rightarrow> graph_builder \<Rightarrow> resolver_error + graph_builder" where
  "add_edge e b =
     (if map_of (gb_nodes b) (de_source e) = None \<or> map_of (gb_nodes b) (de_target e) = None
      then Inl (ResolverGraphError ''Dependency graph edges require existing nodes.'')
      else if map_of (gb_edges b) (de_source e, de_target e) \<noteq> None
      then Inl (ResolverGraphError ''Dependency graph edge is duplicated.'')
      else Inr (b\<lparr>gb_edges := AList.update (de_source e, de_target e) e (gb_edges b)\<rparr>))"

definition build_graph :: "graph_builder \<Rightarrow> dep_graph" where
  "build_graph b = mk_graph (map snd (gb_nodes b)) (map snd (gb_edges b))"

subsection \<open>Cycles\<close>

text \<open>\<open>path\<close> is the list \<open>visiting\<close> at the call, the state is what was found and what was visited.\<close>

definition index_of :: "'a \<Rightarrow> 'a list \<Rightarrow> nat" where
  "index_of x xs = length (takeWhile (\<lambda>y. y \<noteq> x) xs)"

type_synonym cycle_state = "coordinate list list \<times> coordinate set"

definition targets :: "dep_graph \<Rightarrow> coordinate list" where
  "targets g = map de_target (gr_edges g)"

lemma dependencies_in_targets: "set (dependencies_of g c) \<subseteq> set (targets g)"
  by (auto simp: dependencies_of_def targets_def)

definition off_path :: "dep_graph \<Rightarrow> coordinate list \<Rightarrow> coordinate list \<Rightarrow> nat" where
  "off_path g path cs = card ((set cs \<union> set (targets g)) - set path)"

lemma off_path_push:
  assumes "c \<notin> set path"
  shows "off_path g (path @ [c]) (dependencies_of g c) < off_path g path [c]"
proof -
  have "(set (dependencies_of g c) \<union> set (targets g)) - set (path @ [c])
      = ((set [c] \<union> set (targets g)) - set path) - {c}"
    using dependencies_in_targets [of g c] by auto
  then show ?thesis
    unfolding off_path_def using assms by (simp only:) (rule card_Diff1_less; simp)
qed

lemma off_path_mono: "set cs \<subseteq> set cs' \<Longrightarrow> off_path g path cs \<le> off_path g path cs'"
  unfolding off_path_def by (rule card_mono) auto

lemma off_path_Cons:
  "off_path g path [c] < off_path g path (c # cs) \<or> off_path g path [c] = off_path g path (c # cs)"
  "off_path g path cs < off_path g path (c # cs) \<or> off_path g path cs = off_path g path (c # cs)"
  using off_path_mono [of "[c]" "c # cs" g path] off_path_mono [of cs "c # cs" g path]
  by (auto simp: le_less)

function (sequential)
  cycle_visit :: "dep_graph \<Rightarrow> coordinate list \<Rightarrow> coordinate \<Rightarrow> cycle_state \<Rightarrow> cycle_state"
and cycle_visits :: "dep_graph \<Rightarrow> coordinate list \<Rightarrow> coordinate list \<Rightarrow> cycle_state \<Rightarrow> cycle_state"
where
  "cycle_visit g path c s =
     (if c \<in> set path
      then (let cycle = drop (index_of c path) path @ [c]
            in (if cycle \<in> set (fst s) then s else (fst s @ [cycle], snd s)))
      else if c \<in> snd s then s
      else (let s' = cycle_visits g (path @ [c]) (dependencies_of g c) s
            in (fst s', insert c (snd s'))))"
| "cycle_visits g path [] s = s"
| "cycle_visits g path (c # cs) s = cycle_visits g path cs (cycle_visit g path c s)"
  by pat_completeness auto

termination
proof (relation "measures [\<lambda>x. case x of Inl (g, path, c, s) \<Rightarrow> off_path g path [c]
                                       | Inr (g, path, cs, s) \<Rightarrow> off_path g path cs,
                            \<lambda>x. case x of Inl _ \<Rightarrow> 0 | Inr (g, path, cs, s) \<Rightarrow> Suc (length cs)]")
  fix g :: dep_graph and path :: "coordinate list" and c cs and s :: cycle_state
  let ?m = "measures [\<lambda>x. case x of Inl (g, path, c, s) \<Rightarrow> off_path g path [c]
                                  | Inr (g, path, cs, s) \<Rightarrow> off_path g path cs,
                      \<lambda>x. case x of Inl _ \<Rightarrow> 0 | Inr (g, path, cs, s) \<Rightarrow> Suc (length cs)]"
  show "c \<notin> set path \<Longrightarrow> c \<notin> snd s \<Longrightarrow> (Inr (g, path @ [c], dependencies_of g c, s), Inl (g, path, c, s)) \<in> ?m"
    using off_path_push [where c = c and path = path and g = g] by simp
  show "(Inl (g, path, c, s), Inr (g, path, c # cs, s)) \<in> ?m"
    "\<And>s'. (Inr (g, path, cs, s'), Inr (g, path, c # cs, s)) \<in> ?m"
    using off_path_Cons [where g = g and path = path and c = c and cs = cs] by auto
qed simp

declare cycle_visit.simps [simp del]

definition graph_cycles :: "dep_graph \<Rightarrow> coordinate list list" where
  "graph_cycles g = fst (cycle_visits g [] (map dn_coordinate (gr_nodes g)) ([], {}))"

subsection \<open>Topological order\<close>

type_synonym topo_state = "coordinate list \<times> coordinate set"

fun topo_visit :: "nat \<Rightarrow> dep_graph \<Rightarrow> coordinate \<Rightarrow> topo_state \<Rightarrow> topo_state option"
and topo_visits :: "nat \<Rightarrow> dep_graph \<Rightarrow> coordinate list \<Rightarrow> topo_state \<Rightarrow> topo_state option"
where
  "topo_visit 0 g c s = None"
| "topo_visit (Suc n) g c s =
     (if c \<in> snd s then Some s
      else case topo_visits n g (dependencies_of g c) (fst s, insert c (snd s)) of
             None \<Rightarrow> None
           | Some s' \<Rightarrow> Some (fst s' @ [c], snd s'))"
| "topo_visits n g [] s = Some s"
| "topo_visits n g (c # cs) s =
     (case topo_visit n g c s of None \<Rightarrow> None | Some s' \<Rightarrow> topo_visits n g cs s')"

definition topo_fuel :: "dep_graph \<Rightarrow> nat" where
  "topo_fuel g = Suc (length (gr_nodes g) + length (gr_edges g))"

definition topological_order :: "dep_graph \<Rightarrow> coordinate list option" where
  "topological_order g =
     map_option fst (topo_visits (topo_fuel g) g (map dn_coordinate (gr_nodes g)) ([], {}))"


subsection \<open>Correctness\<close>

definition edge_rel :: "dep_graph \<Rightarrow> (coordinate \<times> coordinate) set" where
  "edge_rel g = {(a, b). b \<in> set (dependencies_of g a)}"

lemma edge_rel_iff: "(a, b) \<in> edge_rel g \<longleftrightarrow> (\<exists>e \<in> set (gr_edges g). de_source e = a \<and> de_target e = b)"
  by (auto simp: edge_rel_def dependencies_of_def)

text \<open>A node is settled when no infinite chain of dependencies starts there.\<close>

definition settled :: "dep_graph \<Rightarrow> coordinate set" where
  "settled g = {a. Wellfounded.accp (\<lambda>b a. (a, b) \<in> edge_rel g) a}"

lemma settledI: "(\<And>b. b \<in> set (dependencies_of g a) \<Longrightarrow> b \<in> settled g) \<Longrightarrow> a \<in> settled g"
  unfolding settled_def edge_rel_def by (auto intro: accp.accI)

lemma settled_dep: "a \<in> settled g \<Longrightarrow> (a, b) \<in> edge_rel g \<Longrightarrow> b \<in> settled g"
  unfolding settled_def by (auto elim: accp.cases)

lemma settled_no_cycle:
  assumes "a \<in> settled g"
  shows "(a, a) \<notin> (edge_rel g)\<^sup>+"
proof -
  have "\<forall>b. (a, b) \<in> (edge_rel g)\<^sup>+ \<longrightarrow> b \<noteq> a"
    using assms unfolding settled_def mem_Collect_eq
  proof (induction a rule: accp.induct)
    case (accI a)
    show ?case
    proof (intro allI impI notI)
      fix b assume "(a, b) \<in> (edge_rel g)\<^sup>+" "b = a"
      then have cyc: "(a, a) \<in> (edge_rel g)\<^sup>+" by simp
      then obtain c where c: "(a, c) \<in> edge_rel g" "(c, a) \<in> (edge_rel g)\<^sup>*"
        by (meson tranclD)
      from c(2) c(1) have "(c, c) \<in> (edge_rel g)\<^sup>+" by (rule rtrancl_into_trancl1)
      with accI.IH [OF c(1)] show False by blast
    qed
  qed
  then show ?thesis by blast
qed

text \<open>A search that finds no cycle settles what it visits.\<close>

lemma cycle_visit_found_mono:
  "set (fst s) \<subseteq> set (fst (cycle_visit g path c s))"
  "set (fst s) \<subseteq> set (fst (cycle_visits g path cs s))"
proof (induction g path c s and g path cs s rule: cycle_visit_cycle_visits.induct)
  case (1 g path c s)
  then show ?case by (auto simp: cycle_visit.simps Let_def)
qed auto

lemma cycle_visit_none:
  "\<lbrakk>fst (cycle_visit g path c s) = []; snd s \<subseteq> settled g\<rbrakk>
     \<Longrightarrow> c \<in> snd (cycle_visit g path c s) \<and> snd (cycle_visit g path c s) \<subseteq> settled g
       \<and> snd s \<subseteq> snd (cycle_visit g path c s)"
  "\<lbrakk>fst (cycle_visits g path cs s) = []; snd s \<subseteq> settled g\<rbrakk>
     \<Longrightarrow> set cs \<subseteq> snd (cycle_visits g path cs s) \<and> snd (cycle_visits g path cs s) \<subseteq> settled g
       \<and> snd s \<subseteq> snd (cycle_visits g path cs s)"
proof (induction g path c s and g path cs s rule: cycle_visit_cycle_visits.induct)
  case (1 g path c s)
  have np: "c \<notin> set path"
  proof
    assume "c \<in> set path"
    with "1.prems"(1) show False by (auto simp: cycle_visit.simps Let_def split: if_splits)
  qed
  show ?case
  proof (cases "c \<in> snd s")
    case True
    with np "1.prems" show ?thesis by (simp add: cycle_visit.simps)
  next
    case False
    let ?s = "cycle_visits g (path @ [c]) (dependencies_of g c) s"
    have v: "cycle_visit g path c s = (fst ?s, insert c (snd ?s))"
      using np False by (simp add: cycle_visit.simps Let_def)
    with "1.prems"(1) have "fst ?s = []" by simp
    from "1.IH" [OF np False this "1.prems"(2)]
    have deps: "set (dependencies_of g c) \<subseteq> snd ?s" "snd ?s \<subseteq> settled g" "snd s \<subseteq> snd ?s" by blast+
    have "c \<in> settled g" by (rule settledI) (use deps(1,2) in blast)
    with deps show ?thesis unfolding v by auto
  qed
next
  case (3 g path c cs s)
  have "fst (cycle_visit g path c s) = []"
    using cycle_visit_found_mono(2) [of "cycle_visit g path c s" g path cs] "3.prems"(1) by auto
  from "3.IH"(1) [OF this "3.prems"(2)] "3.IH"(2) "3.prems"(1)
  show ?case by auto
qed simp_all

lemma no_cycles_settled:
  assumes "graph_cycles g = []"
  shows "dn_coordinate ` set (gr_nodes g) \<subseteq> settled g"
  using cycle_visit_none(2) [of g "[]" "map dn_coordinate (gr_nodes g)" "([], {})"] assms
  by (auto simp: graph_cycles_def)

text \<open>And what it reports are cycles.\<close>

lemma drop_index_of:
  "c \<in> set path \<Longrightarrow> \<exists>p q. path = p @ c # q \<and> drop (index_of c path) path = c # q"
proof (induction path)
  case (Cons a path)
  show ?case
  proof (cases "a = c")
    case True
    then show ?thesis by (intro exI [of _ "[]"] exI [of _ path]) (simp add: index_of_def)
  next
    case False
    with Cons obtain p q where "path = p @ c # q" "drop (index_of c path) path = c # q" by auto
    with False show ?thesis by (intro exI [of _ "a # p"] exI [of _ q]) (simp add: index_of_def)
  qed
qed simp

fun is_chain :: "dep_graph \<Rightarrow> coordinate list \<Rightarrow> bool" where
  "is_chain g (a # b # cs) \<longleftrightarrow> (a, b) \<in> edge_rel g \<and> is_chain g (b # cs)"
| "is_chain g _ \<longleftrightarrow> True"

definition is_cycle :: "dep_graph \<Rightarrow> coordinate list \<Rightarrow> bool" where
  "is_cycle g cs \<longleftrightarrow> 2 \<le> length cs \<and> hd cs = last cs \<and> is_chain g cs"

lemma is_chain_snoc: "cs \<noteq> [] \<Longrightarrow> is_chain g (cs @ [c]) \<longleftrightarrow> is_chain g cs \<and> (last cs, c) \<in> edge_rel g"
  by (induction g cs rule: is_chain.induct) auto

lemma is_chain_tl: "is_chain g (a # q) \<Longrightarrow> is_chain g q"
  by (cases q) auto

lemma is_chain_drop: "is_chain g (p @ q) \<Longrightarrow> is_chain g q"
  by (induction p) (auto dest: is_chain_tl)

lemma cycle_visit_sound:
  "\<lbrakk>\<forall>cy \<in> set (fst s). is_cycle g cy; is_chain g (path @ [c])\<rbrakk>
     \<Longrightarrow> \<forall>cy \<in> set (fst (cycle_visit g path c s)). is_cycle g cy"
  "\<lbrakk>\<forall>cy \<in> set (fst s). is_cycle g cy; \<forall>c \<in> set cs. is_chain g (path @ [c])\<rbrakk>
     \<Longrightarrow> \<forall>cy \<in> set (fst (cycle_visits g path cs s)). is_cycle g cy"
proof (induction g path c s and g path cs s rule: cycle_visit_cycle_visits.induct)
  case (1 g path c s)
  show ?case
  proof (cases "c \<in> set path")
    case True
    from drop_index_of [OF True] obtain p q where
      pq: "path = p @ c # q" "drop (index_of c path) path = c # q" by (elim exE conjE)
    with "1.prems"(2) have "is_chain g ((c # q) @ [c])"
      using is_chain_drop [of g p "(c # q) @ [c]"] by simp
    then have "is_cycle g (drop (index_of c path) path @ [c])"
      by (simp add: is_cycle_def pq(2))
    with True "1.prems"(1) show ?thesis by (auto simp: cycle_visit.simps Let_def)
  next
    case np: False
    show ?thesis
    proof (cases "c \<in> snd s")
      case False
      have "\<forall>d \<in> set (dependencies_of g c). is_chain g ((path @ [c]) @ [d])"
        using "1.prems"(2) by (subst is_chain_snoc) (auto simp: edge_rel_def)
      from "1.IH" [OF np False "1.prems"(1) this] np False show ?thesis
        by (simp add: cycle_visit.simps Let_def)
    qed (use np "1.prems" in \<open>simp add: cycle_visit.simps\<close>)
  qed
qed simp_all

lemma graph_cycles_sound: "cy \<in> set (graph_cycles g) \<Longrightarrow> is_cycle g cy"
proof -
  assume "cy \<in> set (graph_cycles g)"
  then show ?thesis
    using cycle_visit_sound(2) [of "([], {})" g "map dn_coordinate (gr_nodes g)" "[]"]
    by (simp add: graph_cycles_def)
qed


subsection \<open>The topological order\<close>

lemma topo_fuel_suffices:
  fixes g :: dep_graph
  assumes "finite U" "set (targets g) \<subseteq> U"
  shows "\<lbrakk>c \<in> U; card (U - snd s) < n\<rbrakk> \<Longrightarrow> \<exists>s'. topo_visit n g c s = Some s' \<and> snd s \<subseteq> snd s'"
    and "\<lbrakk>set cs \<subseteq> U; card (U - snd s) < n\<rbrakk> \<Longrightarrow> \<exists>s'. topo_visits n g cs s = Some s' \<and> snd s \<subseteq> snd s'"
  using assms
proof (induction n g c s and n g cs s rule: topo_visit_topo_visits.induct)
  case (2 n g c s)
  show ?case
  proof (cases "c \<in> snd s")
    case False
    let ?s = "(fst s, insert c (snd s))"
    have "U - insert c (snd s) = (U - snd s) - {c}" by auto
    then have "card (U - insert c (snd s)) < card (U - snd s)"
      using False "2.prems"(1,3) by (simp only:) (rule card_Diff1_less; simp)
    then have "card (U - snd ?s) < n" using "2.prems"(2) by simp
    moreover have "set (dependencies_of g c) \<subseteq> U"
      using dependencies_in_targets [of g c] "2.prems"(4) by blast
    ultimately obtain s' where "topo_visits n g (dependencies_of g c) ?s = Some s'" "snd ?s \<subseteq> snd s'"
      using "2.IH" [OF False] "2.prems"(3,4) by blast
    then show ?thesis by (auto simp: False)
  qed simp
next
  case (4 n g c cs s)
  then obtain s1 where s1: "topo_visit n g c s = Some s1" "snd s \<subseteq> snd s1" by auto
  have "card (U - snd s1) \<le> card (U - snd s)"
    using s1(2) "4.prems"(3) by (intro card_mono) auto
  with "4.IH"(2) [OF s1(1)] "4.prems" obtain s' where
    "topo_visits n g cs s1 = Some s'" "snd s1 \<subseteq> snd s'" by auto
  with s1 show ?case by auto
qed simp_all

lemma topo_enough_fuel: "\<exists>cs. topological_order g = Some cs"
proof -
  let ?U = "set (map dn_coordinate (gr_nodes g)) \<union> set (targets g)"
  have "card ?U \<le> card (set (map dn_coordinate (gr_nodes g))) + card (set (targets g))"
    by (rule card_Un_le)
  also have "\<dots> \<le> length (gr_nodes g) + length (gr_edges g)"
    using card_length [of "map dn_coordinate (gr_nodes g)"] card_length [of "targets g"]
    by (simp add: targets_def)
  finally have "card (?U - snd ([] :: coordinate list, {} :: coordinate set)) < topo_fuel g"
    by (simp add: topo_fuel_def)
  from topo_fuel_suffices(2) [OF _ _ _ this, of g "map dn_coordinate (gr_nodes g)"]
  obtain s' where "topo_visits (topo_fuel g) g (map dn_coordinate (gr_nodes g)) ([], {}) = Some s'"
    by auto
  then show ?thesis by (simp add: topological_order_def)
qed

definition deps_first :: "dep_graph \<Rightarrow> coordinate list \<Rightarrow> bool" where
  "deps_first g cs \<longleftrightarrow> distinct cs \<and>
     (\<forall>xs c ys. cs = xs @ c # ys \<longrightarrow> set (dependencies_of g c) \<subseteq> set xs)"

lemma deps_first_snoc:
  assumes "deps_first g cs" "c \<notin> set cs" "set (dependencies_of g c) \<subseteq> set cs"
  shows "deps_first g (cs @ [c])"
proof -
  have "set (dependencies_of g d) \<subseteq> set xs" if d: "cs @ [c] = xs @ d # ys" for xs d ys
  proof (cases ys rule: rev_cases)
    case Nil
    with d assms(3) show ?thesis by simp
  next
    case (snoc zs z)
    with d have "cs = xs @ d # zs" by simp
    with assms(1) show ?thesis unfolding deps_first_def by blast
  qed
  with assms(1,2) show ?thesis by (simp add: deps_first_def)
qed

text \<open>\<open>P\<close> is the set of nodes on the path to the call: seen, but not yet in the order.\<close>

lemma topo_visit_correct:
  "\<lbrakk>topo_visit n g c s = Some s'; c \<in> settled g; \<forall>p \<in> P. (p, c) \<in> (edge_rel g)\<^sup>+;
    snd s = set (fst s) \<union> P; P \<inter> set (fst s) = {}; deps_first g (fst s)\<rbrakk>
   \<Longrightarrow> snd s' = set (fst s') \<union> P \<and> P \<inter> set (fst s') = {} \<and> deps_first g (fst s') \<and> c \<in> set (fst s')
     \<and> set (fst s) \<subseteq> set (fst s')"
  "\<lbrakk>topo_visits n g cs s = Some s'; \<forall>c \<in> set cs. c \<in> settled g; \<forall>p \<in> P. \<forall>c \<in> set cs. (p, c) \<in> (edge_rel g)\<^sup>+;
    snd s = set (fst s) \<union> P; P \<inter> set (fst s) = {}; deps_first g (fst s)\<rbrakk>
   \<Longrightarrow> snd s' = set (fst s') \<union> P \<and> P \<inter> set (fst s') = {} \<and> deps_first g (fst s')
     \<and> set cs \<subseteq> set (fst s') \<and> set (fst s) \<subseteq> set (fst s')"
proof (induction n g c s and n g cs s arbitrary: s' P and s' P rule: topo_visit_topo_visits.induct)
  case (2 n g c s)
  show ?case
  proof (cases "c \<in> snd s")
    case True
    moreover have "c \<notin> P"
      using "2.prems"(2,3) settled_no_cycle by blast
    ultimately show ?thesis using "2.prems" by auto
  next
    case False
    let ?s = "(fst s, insert c (snd s))"
    obtain s1 where s1: "topo_visits n g (dependencies_of g c) ?s = Some s1"
      and s': "s' = (fst s1 @ [c], snd s1)"
      using "2.prems"(1) False by (auto split: option.splits)
    have edge: "(c, d) \<in> edge_rel g" if "d \<in> set (dependencies_of g c)" for d
      using that by (simp add: edge_rel_def)
    have 1: "\<forall>d \<in> set (dependencies_of g c). d \<in> settled g"
      using edge settled_dep "2.prems"(2) by blast
    have 2: "\<forall>p \<in> insert c P. \<forall>d \<in> set (dependencies_of g c). (p, d) \<in> (edge_rel g)\<^sup>+"
      using edge "2.prems"(3) by (auto intro: trancl.intros)
    have 3: "snd ?s = set (fst ?s) \<union> insert c P" "insert c P \<inter> set (fst ?s) = {}" "deps_first g (fst ?s)"
      using "2.prems"(4-6) False by auto
    from "2.IH" [OF False s1 1 2 3]
    have r: "snd s1 = set (fst s1) \<union> insert c P" "insert c P \<inter> set (fst s1) = {}"
      "deps_first g (fst s1)" "set (dependencies_of g c) \<subseteq> set (fst s1)" "set (fst s) \<subseteq> set (fst s1)"
      by simp_all
    have "c \<notin> P" using "2.prems"(4) False by simp
    with r deps_first_snoc [OF r(3) _ r(4)] show ?thesis by (auto simp: s')
  qed
next
  case (4 n g c cs s)
  obtain s1 where s1: "topo_visit n g c s = Some s1" "topo_visits n g cs s1 = Some s'"
    using "4.prems"(1) by (auto split: option.splits)
  have "c \<in> settled g" "\<forall>p \<in> P. (p, c) \<in> (edge_rel g)\<^sup>+" using "4.prems"(2,3) by simp_all
  from "4.IH"(1) [OF s1(1) this "4.prems"(4-6)]
  have r: "snd s1 = set (fst s1) \<union> P" "P \<inter> set (fst s1) = {}" "deps_first g (fst s1)"
    "c \<in> set (fst s1)" "set (fst s) \<subseteq> set (fst s1)" by simp_all
  have "\<forall>c \<in> set cs. c \<in> settled g" "\<forall>p \<in> P. \<forall>c \<in> set cs. (p, c) \<in> (edge_rel g)\<^sup>+"
    using "4.prems"(2,3) by simp_all
  from "4.IH"(2) [OF s1(1) s1(2) this r(1-3)] r(4,5) show ?case by auto
qed simp_all

lemma topological_order_correct:
  assumes "graph_cycles g = []" "topological_order g = Some cs"
  shows "deps_first g cs" and "dn_coordinate ` set (gr_nodes g) \<subseteq> set cs"
proof -
  obtain s' where s': "topo_visits (topo_fuel g) g (map dn_coordinate (gr_nodes g)) ([], {}) = Some s'"
    "cs = fst s'"
    using assms(2) by (auto simp: topological_order_def)
  have "\<forall>c \<in> set (map dn_coordinate (gr_nodes g)). c \<in> settled g"
    using no_cycles_settled [OF assms(1)] by auto
  from topo_visit_correct(2) [OF s'(1) this, of "{}"]
  show "deps_first g cs" "dn_coordinate ` set (gr_nodes g) \<subseteq> set cs"
    by (simp_all add: s'(2) deps_first_def)
qed


definition graph_ok :: "dep_graph \<Rightarrow> bool" where
  "graph_ok g \<longleftrightarrow> (\<forall>e \<in> set (gr_edges g).
     de_source e \<in> dn_coordinate ` set (gr_nodes g) \<and> de_target e \<in> dn_coordinate ` set (gr_nodes g))"

lemma chain_trancl: "is_chain g (a # cs) \<Longrightarrow> cs \<noteq> [] \<Longrightarrow> (a, last cs) \<in> (edge_rel g)\<^sup>+"
proof (induction cs arbitrary: a)
  case (Cons b cs)
  then have ab: "(a, b) \<in> edge_rel g" "is_chain g (b # cs)" by simp_all
  show ?case
  proof (cases "cs = []")
    case False
    with Cons.IH [OF ab(2)] ab(1) show ?thesis by (simp add: trancl_into_trancl2)
  qed (use ab in auto)
qed simp

lemma is_cycle_trancl: "is_cycle g cy \<Longrightarrow> (hd cy, hd cy) \<in> (edge_rel g)\<^sup>+"
  using chain_trancl [of g "hd cy" "tl cy"]
  by (cases cy; cases "tl cy = []") (auto simp: is_cycle_def)

lemma graph_ok_deps: "graph_ok g \<Longrightarrow> set (dependencies_of g c) \<subseteq> dn_coordinate ` set (gr_nodes g)"
  by (auto simp: graph_ok_def dependencies_of_def)

lemma topo_visits_nodes:
  assumes "graph_ok g"
  shows "topo_visit n g c s = Some s' \<Longrightarrow>
           set (fst s') \<subseteq> set (fst s) \<union> insert c (dn_coordinate ` set (gr_nodes g))"
    and "topo_visits n g cs s = Some s' \<Longrightarrow>
           set (fst s') \<subseteq> set (fst s) \<union> set cs \<union> dn_coordinate ` set (gr_nodes g)"
  using assms
proof (induction n g c s and n g cs s arbitrary: s' and s' rule: topo_visit_topo_visits.induct)
  case (2 n g c s)
  show ?case
  proof (cases "c \<in> snd s")
    case False
    with "2.prems"(1) obtain s1 where s1: "topo_visits n g (dependencies_of g c) (fst s, insert c (snd s)) = Some s1"
        "s' = (fst s1 @ [c], snd s1)" by (auto split: option.splits)
    have "set (fst s1) \<subseteq> set (fst s) \<union> set (dependencies_of g c) \<union> dn_coordinate ` set (gr_nodes g)"
      using "2.IH" [OF False s1(1) "2.prems"(2)] by simp
    also have "\<dots> \<subseteq> set (fst s) \<union> dn_coordinate ` set (gr_nodes g)"
      using graph_ok_deps [OF "2.prems"(2), of c] by blast
    finally show ?thesis using s1(2) by auto
  qed (use "2.prems" in auto)
next
  case (4 n g c cs s)
  obtain s1 where s1: "topo_visit n g c s = Some s1" "topo_visits n g cs s1 = Some s'"
    using "4.prems"(1) by (auto split: option.splits)
  from "4.IH"(1) [OF s1(1) "4.prems"(2)] "4.IH"(2) [OF s1 "4.prems"(2)] show ?case by auto
qed auto


lemma topological_order_nodes:
  assumes "graph_ok g" "topological_order g = Some cs"
  shows "set cs \<subseteq> dn_coordinate ` set (gr_nodes g)"
proof -
  obtain s' where "topo_visits (topo_fuel g) g (map dn_coordinate (gr_nodes g)) ([], {}) = Some s'"
    "cs = fst s'" using assms(2) by (auto simp: topological_order_def)
  with topo_visits_nodes(2) [OF assms(1) this(1)] show ?thesis by auto
qed

text \<open>C23: on a graph whose edges join its nodes, the search reports cycles only (each begins and ends
  with the same node and follows edges), it reports none exactly when no node depends on itself,
  directly or not, and in that case the topological order exists, lists every node once, and lists
  the dependencies of a node before the node.\<close>

theorem resolver_graph_correct:
  assumes "graph_ok g"
  shows "(\<forall>cy \<in> set (graph_cycles g). is_cycle g cy)
    \<and> (graph_cycles g = [] \<longleftrightarrow> (\<forall>c. (c, c) \<notin> (edge_rel g)\<^sup>+))
    \<and> (graph_cycles g = [] \<longrightarrow> (\<exists>cs. topological_order g = Some cs \<and> distinct cs
         \<and> set cs = dn_coordinate ` set (gr_nodes g)
         \<and> (\<forall>xs c ys. cs = xs @ c # ys \<longrightarrow> set (dependencies_of g c) \<subseteq> set xs)))"
proof -
  have 1: "\<forall>cy \<in> set (graph_cycles g). is_cycle g cy"
    using graph_cycles_sound by blast
  have 2: "graph_cycles g = []" if ac: "\<forall>c. (c, c) \<notin> (edge_rel g)\<^sup>+"
  proof (rule ccontr)
    assume "graph_cycles g \<noteq> []"
    then have "is_cycle g (hd (graph_cycles g))" using 1 by simp
    then show False using is_cycle_trancl ac by blast
  qed
  have 3: "(c, c) \<notin> (edge_rel g)\<^sup>+" if none: "graph_cycles g = []" for c
  proof
    assume cyc: "(c, c) \<in> (edge_rel g)\<^sup>+"
    then obtain d where "(c, d) \<in> edge_rel g" by (meson tranclD)
    then have "c \<in> dn_coordinate ` set (gr_nodes g)"
      using assms by (auto simp: edge_rel_iff graph_ok_def)
    then show False using no_cycles_settled [OF none] settled_no_cycle cyc by blast
  qed
  have 4: "\<exists>cs. topological_order g = Some cs \<and> distinct cs
         \<and> set cs = dn_coordinate ` set (gr_nodes g)
         \<and> (\<forall>xs c ys. cs = xs @ c # ys \<longrightarrow> set (dependencies_of g c) \<subseteq> set xs)"
    if none: "graph_cycles g = []"
  proof -
    obtain cs where cs: "topological_order g = Some cs" using topo_enough_fuel by blast
    with topological_order_nodes [OF assms cs] topological_order_correct [OF none cs] show ?thesis
      unfolding deps_first_def by blast
  qed
  from 1 2 3 4 show ?thesis by blast
qed

definition sample_coordinate :: "string \<Rightarrow> coordinate" where
  "sample_coordinate k = \<lparr>co_publisher = ''acme'', co_package = k, co_version = sample_version 1\<rparr>"

definition sample_requirement :: "string \<Rightarrow> requirement" where
  "sample_requirement k = \<lparr>rm_package = k, rm_publisher = None, rm_version = None, rm_optional = False,
     rm_prerelease = False, rm_metadata = []\<rparr>"

definition sample_dep_graph :: dep_graph where
  "sample_dep_graph = mk_graph
     [\<lparr>dn_coordinate = sample_coordinate ''b'', dn_dependencies = []\<rparr>,
      \<lparr>dn_coordinate = sample_coordinate ''a'', dn_dependencies = [sample_requirement ''b'']\<rparr>]
     [\<lparr>de_source = sample_coordinate ''a'', de_target = sample_coordinate ''b'',
       de_requirement = sample_requirement ''b''\<rparr>]"

lemma resolver_graph_correct_witness:
  "graph_cycles sample_dep_graph = [] \<and> (\<exists>cs. topological_order sample_dep_graph = Some cs
     \<and> set cs = {sample_coordinate ''a'', sample_coordinate ''b''})"
proof -
  have ne: "sample_coordinate ''a'' \<noteq> sample_coordinate ''b''"
    by (simp add: sample_coordinate_def)
  have ok: "graph_ok sample_dep_graph"
    by (auto simp: sample_dep_graph_def mk_graph_def graph_ok_def)
  have nodes: "dn_coordinate ` set (gr_nodes sample_dep_graph)
      = {sample_coordinate ''a'', sample_coordinate ''b''}"
    by (auto simp: sample_dep_graph_def mk_graph_def)
  have edge: "edge_rel sample_dep_graph = {(sample_coordinate ''a'', sample_coordinate ''b'')}"
    by (auto simp: edge_rel_iff sample_dep_graph_def mk_graph_def)
  have "c = sample_coordinate ''a'' \<and> d = sample_coordinate ''b''"
    if "(c, d) \<in> (edge_rel sample_dep_graph)\<^sup>+" for c d
    using that ne by (induction rule: trancl_induct) (auto simp: edge)
  then have "\<forall>c. (c, c) \<notin> (edge_rel sample_dep_graph)\<^sup>+" using ne by blast
  with resolver_graph_correct [OF ok] nodes show ?thesis by auto
qed

end
