(* ===== verification/Resolver.thy ===== *)
theory Resolver
  imports Resolver_Graph
begin

text \<open>
  The dependency resolver (\<open>src/marketplace/resolver/service.py\<close>, \<open>source.py\<close> and the result models):
  version requirements, the choice of a candidate, the recursive expansion of requirements, the
  result and the service. \<open>expand\<close> is written with fuel; \<open>resolution_terminates\<close> shows that one
  more than the number of candidates is enough. The list \<open>visiting\<close> is restored by every call and
  is an argument here. A layer of \<open>target_versions\<close> that is no field of the compatibility record
  declares nothing.
\<close>

subsection \<open>Versions\<close>

type_synonym version_key = "int \<times> int \<times> int \<times> string"

definition version_key :: "package_version \<Rightarrow> version_key" where
  "version_key v = (pv_major v, pv_minor v, pv_patch v, pre_text v)"

text \<open>\<open>str.split\<close> on a character, the first occurrence of a separator, and \<open>str.isdigit\<close> on the first
  256 characters: the superscripts are digits that \<open>int\<close> rejects.\<close>

fun split_on :: "char \<Rightarrow> string \<Rightarrow> string list" where
  "split_on c [] = [[]]"
| "split_on c (x # xs) =
     (if x = c then [] # split_on c xs
      else case split_on c xs of [] \<Rightarrow> [[x]] | p # ps \<Rightarrow> (x # p) # ps)"

fun split_first :: "string \<Rightarrow> string \<Rightarrow> (string \<times> string) option" where
  "split_first sep [] = (if sep = [] then Some ([], []) else None)"
| "split_first sep (x # xs) =
     (if prefix sep (x # xs) then Some ([], drop (length sep) (x # xs))
      else map_option (\<lambda>(a, b). (x # a, b)) (split_first sep xs))"

definition is_superscript :: "char \<Rightarrow> bool" where
  "is_superscript c \<longleftrightarrow> (of_char c :: nat) \<in> {178, 179, 185}"

definition py_isdigit :: "string \<Rightarrow> bool" where
  "py_isdigit s \<longleftrightarrow> s \<noteq> '''' \<and> list_all (\<lambda>c. is_digit c \<or> is_superscript c) s"

definition parse_version :: "string \<Rightarrow> resolver_error + version_key" where
  "parse_version value =
     (let (main, pre) = (case split_first ''-'' value of None \<Rightarrow> (value, '''') | Some (a, b) \<Rightarrow> (a, b));
          parts = split_on CHR ''.'' main
      in if length parts \<noteq> 3 \<or> \<not> list_all py_isdigit parts
         then Inr (1000000000, 1000000000, 1000000000, ''invalid'')
         else if list_ex (list_ex is_superscript) parts
         then Inl (Resolver_ValueError ''invalid literal for int() with base 10'')
         else Inr (int (parse_digits (parts ! 0)), int (parse_digits (parts ! 1)),
                   int (parse_digits (parts ! 2)), pre))"

definition matches_version :: "package_version \<Rightarrow> requirement \<Rightarrow> resolver_error + bool" where
  "matches_version v r =
     (if pv_prerelease v \<noteq> None \<and> \<not> rm_prerelease r then Inr False
      else case rm_version r of
        None \<Rightarrow> Inr True
      | Some t \<Rightarrow>
          if t = '''' \<or> t = ''any'' then Inr True
          else if prefix ''=='' t then Inr (version_str v = drop 2 t)
          else if prefix ''>='' t \<and> split_first '',<'' t \<noteq> None then
            (let (lower, upper) = the (split_first '',<'' t) in
             case parse_version (drop 2 lower) of
               Inl e \<Rightarrow> Inl e
             | Inr l \<Rightarrow>
                 if \<not> l \<le> version_key v then Inr False
                 else (case parse_version upper of Inl e \<Rightarrow> Inl e | Inr u \<Rightarrow> Inr (version_key v < u)))
          else Inr False)"

subsection \<open>Requests, issues, results\<close>

datatype resolution_status = RS_RESOLVED | RS_UNRESOLVED | RS_PARTIAL | RS_INVALID

datatype resolution_strategy = EXACT | HIGHEST_COMPATIBLE | LOWEST_COMPATIBLE | DETERMINISTIC_FIRST

datatype issue_code =
    MISSING_DEPENDENCY | CYCLE_DETECTED | DUPLICATE_DEPENDENCY | VERSION_CONFLICT
  | INVALID_REQUIREMENT | ROOT_NOT_FOUND | COMPATIBILITY_MISMATCH | AMBIGUOUS_CANDIDATE
  | INVALID_REGISTRY_ENTRY

fun issue_code_value :: "issue_code \<Rightarrow> string" where
  "issue_code_value MISSING_DEPENDENCY = ''missing_dependency''"
| "issue_code_value CYCLE_DETECTED = ''cycle_detected''"
| "issue_code_value DUPLICATE_DEPENDENCY = ''duplicate_dependency''"
| "issue_code_value VERSION_CONFLICT = ''version_conflict''"
| "issue_code_value INVALID_REQUIREMENT = ''invalid_requirement''"
| "issue_code_value ROOT_NOT_FOUND = ''root_not_found''"
| "issue_code_value COMPATIBILITY_MISMATCH = ''compatibility_mismatch''"
| "issue_code_value AMBIGUOUS_CANDIDATE = ''ambiguous_candidate''"
| "issue_code_value INVALID_REGISTRY_ENTRY = ''invalid_registry_entry''"

record resolution_issue =
  ri_code :: issue_code
  ri_message :: string
  ri_coordinate :: "coordinate option"
  ri_dependency :: "requirement option"
  ri_path :: "coordinate list"
  ri_metadata :: "(string, market_value) dict"

definition mk_resolution_issue :: "issue_code \<Rightarrow> string \<Rightarrow> resolution_issue" where
  "mk_resolution_issue c m = \<lparr>ri_code = c, ri_message = m, ri_coordinate = None, ri_dependency = None,
     ri_path = [], ri_metadata = []\<rparr>"

definition issue_key :: "resolution_issue \<Rightarrow> string \<times> string \<times> string" where
  "issue_key i = (issue_code_value (ri_code i),
     case ri_coordinate i of None \<Rightarrow> '''' | Some c \<Rightarrow> co_package c, ri_message i)"

record explanation =
  xl_code :: string
  xl_message :: string
  xl_coordinate :: "coordinate option"
  xl_dependency :: "requirement option"

datatype snapshot_input = From_Source "reg_entry list" | From_Snapshot registry_snapshot | Other_Object

record resolution_request =
  qr_snapshot :: snapshot_input
  qr_coordinates :: "coordinate list"
  qr_requirements :: "requirement list"
  qr_strategy :: resolution_strategy
  qr_targets :: "(string, string) dict"
  qr_optional :: bool
  qr_metadata :: "(string, market_value) dict"

definition check_resolution_request :: "resolution_request \<Rightarrow> resolver_error + resolution_request" where
  "check_resolution_request q =
     (if qr_coordinates q = [] \<and> qr_requirements q = []
      then Inl (Resolver_ValueError ''Resolution request requires at least one root.'')
      else if qr_coordinates q \<noteq> [] \<and> qr_requirements q \<noteq> []
      then Inl (Resolver_ValueError ''Resolution request must use coordinates or requirements, not both.'')
      else Inr q)"

record resolution_result =
  rr_status :: resolution_status
  rr_roots :: "requirement list"
  rr_selected :: "coordinate list"
  rr_order :: "coordinate list"
  rr_graph :: dep_graph
  rr_issues :: "resolution_issue list"
  rr_explanations :: "explanation list"
  rr_metadata :: "(string, market_value) dict"

text \<open>The candidate source: a captured source, or a registry snapshot whose entries are sorted.\<close>

definition capture_source :: "registry_snapshot \<Rightarrow> reg_entry list" where
  "capture_source n = sort_key (\<lambda>e. dep_key (re_coordinate e)) (rn_entries n)"

definition resolution_source :: "snapshot_input \<Rightarrow> resolver_error + reg_entry list" where
  "resolution_source s =
     (case s of
        From_Source es \<Rightarrow> Inr es
      | From_Snapshot n \<Rightarrow> Inr (capture_source n)
      | Other_Object \<Rightarrow> Inl (Resolver_TypeError ''Resolution request requires a RegistrySnapshot.''))"

definition request_roots :: "resolution_request \<Rightarrow> requirement list" where
  "request_roots q =
     (if qr_requirements q \<noteq> [] then qr_requirements q
      else map (\<lambda>c. \<lparr>rm_package = co_package c, rm_publisher = Some (co_publisher c),
             rm_version = Some (''=='' @ version_str (co_version c)), rm_optional = False,
             rm_prerelease = False, rm_metadata = []\<rparr>) (qr_coordinates q))"

definition entry_requirements :: "package_dependency list \<Rightarrow> requirement list" where
  "entry_requirements ds =
     map (\<lambda>d. \<lparr>rm_package = dp_package d, rm_publisher = None, rm_version = dp_constraint d,
            rm_optional = \<not> dp_required d, rm_prerelease = False, rm_metadata = []\<rparr>) ds"

subsection \<open>Expansion\<close>

record expansion =
  xp_builder :: graph_builder
  xp_selected :: "(coordinate, reg_entry) dict"
  xp_issues :: "resolution_issue list"
  xp_explanations :: "explanation list"
  xp_requirements :: "(string option \<times> string, string set) dict"

definition new_expansion :: expansion where
  "new_expansion = \<lparr>xp_builder = new_builder, xp_selected = [], xp_issues = [], xp_explanations = [],
     xp_requirements = []\<rparr>"

definition add_issue :: "resolution_issue \<Rightarrow> expansion \<Rightarrow> expansion" where
  "add_issue i x = x\<lparr>xp_issues := xp_issues x @ [i]\<rparr>"

definition add_explanation :: "explanation \<Rightarrow> expansion \<Rightarrow> expansion" where
  "add_explanation e x = x\<lparr>xp_explanations := xp_explanations x @ [e]\<rparr>"

text \<open>The entries that meet a requirement, in candidate order; the version is looked at last.\<close>

fun matching :: "requirement \<Rightarrow> reg_entry list \<Rightarrow> resolver_error + reg_entry list" where
  "matching r [] = Inr []"
| "matching r (e # es) =
     (if mf_package_id (re_manifest e) = rm_package r \<and>
         (case rm_publisher r of None \<Rightarrow> True | Some p \<Rightarrow> pb_id (re_publisher e) = p)
      then (case matches_version (mf_version (re_manifest e)) r of
              Inl x \<Rightarrow> Inl x
            | Inr b \<Rightarrow>
                (case matching r es of Inl x \<Rightarrow> Inl x | Inr ms \<Rightarrow> Inr (if b then e # ms else ms)))
      else matching r es)"

fun first_max :: "('a \<Rightarrow> 'k::linorder) \<Rightarrow> 'a \<Rightarrow> 'a list \<Rightarrow> 'a" where
  "first_max f m [] = m"
| "first_max f m (x # xs) = first_max f (if f m < f x then x else m) xs"

fun first_min :: "('a \<Rightarrow> 'k::linorder) \<Rightarrow> 'a \<Rightarrow> 'a list \<Rightarrow> 'a" where
  "first_min f m [] = m"
| "first_min f m (x # xs) = first_min f (if f x < f m then x else m) xs"

definition pick :: "resolution_strategy \<Rightarrow> reg_entry list \<Rightarrow> reg_entry" where
  "pick s ms =
     (let f = (\<lambda>e. version_key (mf_version (re_manifest e))) in
      case s of
        HIGHEST_COMPATIBLE \<Rightarrow> first_max f (hd ms) (tl ms)
      | LOWEST_COMPATIBLE \<Rightarrow> first_min f (hd ms) (tl ms)
      | _ \<Rightarrow> hd ms)"

definition choose_entry ::
  "resolution_strategy \<Rightarrow> reg_entry list \<Rightarrow> requirement \<Rightarrow> expansion \<Rightarrow>
     resolver_error + reg_entry option \<times> expansion" where
  "choose_entry s cands r x =
     (case matching r cands of
        Inl e \<Rightarrow> Inl e
      | Inr [] \<Rightarrow> Inr (None, x)
      | Inr ms \<Rightarrow>
          (let sorted_ms = sort_key (\<lambda>e. dep_key (re_coordinate e)) ms in
           Inr (Some (pick s sorted_ms),
                if 1 < length sorted_ms
                then add_issue ((mk_resolution_issue AMBIGUOUS_CANDIDATE
                  ''Multiple local candidates match dependency; deterministic selection used.'')
                    \<lparr>ri_dependency := Some r\<rparr>) x
                else x)))"

definition note_requirement :: "requirement \<Rightarrow> expansion \<Rightarrow> expansion" where
  "note_requirement r x =
     (let key = (rm_publisher r, rm_package r);
          previous = insert (str_or (rm_version r) ''any'') (dict_get (xp_requirements x) key {});
          x' = x\<lparr>xp_requirements := AList.update key previous (xp_requirements x)\<rparr>
      in if 1 < card previous \<and> ''any'' \<notin> previous
         then add_issue ((mk_resolution_issue VERSION_CONFLICT
                ''Conflicting local dependency version requirements.'')\<lparr>ri_dependency := Some r\<rparr>) x'
         else x')"

text \<open>\<open>getattr(entry.compatibility, layer, None)\<close>: a layer is any string, so beside the five declared
  layers it may name an attribute of the class itself: two of these are strings, the others (methods and
  other objects, here as a CPython 3.11 dataclass has them) equal no target version.\<close>

datatype attribute = Text_attribute string | Other_attribute

definition class_attributes :: "string list" where
  "class_attributes =
     [''__annotations__'', ''__class__'', ''__dataclass_fields__'', ''__dataclass_params__'',
      ''__delattr__'', ''__dir__'', ''__eq__'', ''__format__'', ''__ge__'', ''__getattribute__'',
      ''__getstate__'', ''__gt__'', ''__hash__'', ''__init__'', ''__init_subclass__'', ''__le__'',
      ''__lt__'', ''__match_args__'', ''__ne__'', ''__new__'', ''__reduce__'', ''__reduce_ex__'',
      ''__repr__'', ''__setattr__'', ''__setstate__'', ''__sizeof__'', ''__slots__'', ''__str__'',
      ''__subclasshook__'']"

definition layer_of :: "compatibility \<Rightarrow> string \<Rightarrow> attribute option" where
  "layer_of c l =
     (if l = ''runtime'' then map_option Text_attribute (cm_runtime c)
      else if l = ''sdk'' then map_option Text_attribute (cm_sdk c)
      else if l = ''studio'' then map_option Text_attribute (cm_studio c)
      else if l = ''enterprise'' then map_option Text_attribute (cm_enterprise c)
      else if l = ''cloud'' then map_option Text_attribute (cm_cloud c)
      else if l = ''__module__'' then Some (Text_attribute ''marketplace.package_catalog.models'')
      else if l = ''__doc__'' then Some (Text_attribute
        ''Version declarations for Platform layers; no compatibility check is run.'')
      else if l \<in> set class_attributes then Some Other_attribute
      else None)"

definition compatibility_issues :: "coordinate \<Rightarrow> compatibility \<Rightarrow> (string, string) dict \<Rightarrow> resolution_issue list" where
  "compatibility_issues c k layers =
     map (\<lambda>(l, t). (mk_resolution_issue COMPATIBILITY_MISMATCH
              ''Explicit target version does not match compatibility declaration.'')
            \<lparr>ri_coordinate := Some c, ri_metadata := [(''layer'', MV_Str l), (''target'', MV_Str t)]\<rparr>)
       (filter (\<lambda>(l, t). case layer_of k l of None \<Rightarrow> False | Some d \<Rightarrow> d \<noteq> Text_attribute t) layers)"

definition not_found ::
  "resolution_request \<Rightarrow> requirement \<Rightarrow> coordinate option \<Rightarrow> coordinate list \<Rightarrow> expansion \<Rightarrow> expansion" where
  "not_found q r parent visiting x =
     (if \<not> rm_optional r \<or> qr_optional q
      then add_issue ((mk_resolution_issue
             (if parent = None then ROOT_NOT_FOUND else MISSING_DEPENDENCY)
             ''No local registry candidate satisfies dependency.'')
               \<lparr>ri_dependency := Some r, ri_path := visiting\<rparr>) x
      else add_explanation \<lparr>xl_code = ''optional_dependency_skipped'',
             xl_message = ''Optional dependency has no local candidate and was skipped.'',
             xl_coordinate = None, xl_dependency = Some r\<rparr> x)"

definition link :: "coordinate option \<Rightarrow> coordinate \<Rightarrow> requirement \<Rightarrow> expansion \<Rightarrow> resolver_error + expansion" where
  "link parent c r x =
     (case parent of
        None \<Rightarrow> Inr x
      | Some p \<Rightarrow>
          (case add_edge \<lparr>de_source = p, de_target = c, de_requirement = r\<rparr> (xp_builder x) of
             Inl e \<Rightarrow> Inl e
           | Inr b \<Rightarrow> Inr (x\<lparr>xp_builder := b\<rparr>)))"

text \<open>A candidate that is chosen for the first time: it is recorded, added to the graph, linked to its
  parent, and checked against the explicit targets.\<close>

definition admit ::
  "resolution_request \<Rightarrow> requirement \<Rightarrow> coordinate option \<Rightarrow> reg_entry \<Rightarrow> expansion \<Rightarrow>
     resolver_error + expansion" where
  "admit q r parent e x =
     (let c = re_coordinate e;
          x1 = x\<lparr>xp_selected := AList.update c e (xp_selected x)\<rparr>
      in case add_node \<lparr>dn_coordinate = c, dn_dependencies = entry_requirements (re_dependencies e)\<rparr>
                (xp_builder x1) of
           Inl err \<Rightarrow> Inl err
         | Inr b \<Rightarrow>
             (case link parent c r (x1\<lparr>xp_builder := b\<rparr>) of
                Inl err \<Rightarrow> Inl err
              | Inr x2 \<Rightarrow> Inr (x2\<lparr>xp_issues := xp_issues x2 @
                              compatibility_issues c (re_compatibility e) (qr_targets q)\<rparr>)))"

definition note_cycle :: "coordinate \<Rightarrow> requirement \<Rightarrow> coordinate \<Rightarrow> coordinate list \<Rightarrow> expansion \<Rightarrow> expansion" where
  "note_cycle c d target visiting x =
     add_explanation \<lparr>xl_code = ''cycle_detected'', xl_message = ''A local dependency cycle was detected.'',
         xl_coordinate = Some c, xl_dependency = Some d\<rparr>
       (add_issue ((mk_resolution_issue CYCLE_DETECTED ''Dependency cycle detected.'')
           \<lparr>ri_coordinate := Some c, ri_dependency := Some d,
            ri_path := drop (index_of target visiting) visiting @ [target]\<rparr>) x)"

definition duplicate_key :: "requirement \<Rightarrow> string \<times> string option \<times> string option" where
  "duplicate_key d = (rm_package d, rm_publisher d, rm_version d)"

fun expand ::
  "nat \<Rightarrow> resolution_request \<Rightarrow> reg_entry list \<Rightarrow> requirement \<Rightarrow> coordinate option \<Rightarrow>
     coordinate list \<Rightarrow> expansion \<Rightarrow> (resolver_error + coordinate option \<times> expansion) option"
and expand_deps ::
  "nat \<Rightarrow> resolution_request \<Rightarrow> reg_entry list \<Rightarrow> coordinate \<Rightarrow> coordinate list \<Rightarrow>
     (string \<times> string option \<times> string option) set \<Rightarrow> requirement list \<Rightarrow> expansion \<Rightarrow>
     (resolver_error + expansion) option"
where
  "expand 0 q cands r parent visiting x = None"
| "expand (Suc n) q cands r parent visiting x =
     (case choose_entry (qr_strategy q) cands r (note_requirement r x) of
        Inl e \<Rightarrow> Some (Inl e)
      | Inr (None, x1) \<Rightarrow> Some (Inr (None, not_found q r parent visiting x1))
      | Inr (Some e, x1) \<Rightarrow>
          let c = re_coordinate e in
          if map_of (xp_selected x1) c \<noteq> None
          then (case link parent c r x1 of
                  Inl err \<Rightarrow> Some (Inl err) | Inr x2 \<Rightarrow> Some (Inr (Some c, x2)))
          else (case admit q r parent e x1 of
                  Inl err \<Rightarrow> Some (Inl err)
                | Inr x2 \<Rightarrow>
                    (case expand_deps n q cands c (visiting @ [c]) {}
                            (entry_requirements (re_dependencies e)) x2 of
                       None \<Rightarrow> None
                     | Some (Inl err) \<Rightarrow> Some (Inl err)
                     | Some (Inr x3) \<Rightarrow>
                         Some (Inr (Some c, add_explanation \<lparr>xl_code = ''candidate_selected'',
                           xl_message = ''Candidate selected using deterministic local ordering.'',
                           xl_coordinate = Some c, xl_dependency = Some r\<rparr> x3)))))"
| "expand_deps n q cands c visiting seen [] x = Some (Inr x)"
| "expand_deps n q cands c visiting seen (d # ds) x =
     (if duplicate_key d \<in> seen
      then expand_deps n q cands c visiting seen ds
             (add_issue ((mk_resolution_issue DUPLICATE_DEPENDENCY ''Duplicate dependency declaration.'')
                \<lparr>ri_coordinate := Some c, ri_dependency := Some d\<rparr>) x)
      else (case expand n q cands d (Some c) visiting x of
              None \<Rightarrow> None
            | Some (Inl err) \<Rightarrow> Some (Inl err)
            | Some (Inr (target, x1)) \<Rightarrow>
                let x2 = (case target of
                            None \<Rightarrow> x1
                          | Some t \<Rightarrow> if t \<in> set visiting then note_cycle c d t visiting x1 else x1)
                in expand_deps n q cands c visiting (insert (duplicate_key d) seen) ds x2))"

fun expand_roots ::
  "nat \<Rightarrow> resolution_request \<Rightarrow> reg_entry list \<Rightarrow> requirement list \<Rightarrow> expansion \<Rightarrow>
     (resolver_error + expansion) option" where
  "expand_roots n q cands [] x = Some (Inr x)"
| "expand_roots n q cands (r # rs) x =
     (case expand n q cands r None [] x of
        None \<Rightarrow> None
      | Some (Inl e) \<Rightarrow> Some (Inl e)
      | Some (Inr (_, x1)) \<Rightarrow> expand_roots n q cands rs x1)"


subsection \<open>The result\<close>

definition cycle_issue :: "coordinate list \<Rightarrow> resolution_issue" where
  "cycle_issue cy = (mk_resolution_issue CYCLE_DETECTED ''Dependency cycle detected.'')\<lparr>ri_path := cy\<rparr>"

fun add_cycle_issues :: "coordinate list list \<Rightarrow> resolution_issue list \<Rightarrow> resolution_issue list" where
  "add_cycle_issues [] issues = issues"
| "add_cycle_issues (cy # cys) issues =
     add_cycle_issues cys (if cycle_issue cy \<in> set issues then issues else issues @ [cycle_issue cy])"

definition fatal_issue :: "resolution_issue \<Rightarrow> bool" where
  "fatal_issue i \<longleftrightarrow> ri_code i \<noteq> AMBIGUOUS_CANDIDATE"

definition result_status :: "resolution_issue list \<Rightarrow> (coordinate, reg_entry) dict \<Rightarrow> resolution_status" where
  "result_status issues selected =
     (if filter fatal_issue issues = [] then RS_RESOLVED
      else if selected \<noteq> [] then RS_PARTIAL else RS_UNRESOLVED)"

definition finish_resolution :: "resolution_request \<Rightarrow> expansion \<Rightarrow> resolution_result option" where
  "finish_resolution q x =
     (let g = build_graph (xp_builder x);
          issues = add_cycle_issues (graph_cycles g) (xp_issues x)
      in map_option (\<lambda>order.
           \<lparr>rr_status = result_status issues (xp_selected x), rr_roots = request_roots q,
            rr_selected = sort_key dep_key (map fst (xp_selected x)), rr_order = order,
            rr_graph = g, rr_issues = sort_key issue_key issues,
            rr_explanations = xp_explanations x, rr_metadata = qr_metadata q\<rparr>)
           (if list_ex (\<lambda>i. ri_code i = CYCLE_DETECTED) issues then Some [] else topological_order g))"

definition resolve_fuel :: "reg_entry list \<Rightarrow> nat" where
  "resolve_fuel cands = Suc (length cands)"

definition resolve_request :: "resolution_request \<Rightarrow> (resolver_error + resolution_result) option" where
  "resolve_request q =
     (case resolution_source (qr_snapshot q) of
        Inl e \<Rightarrow> Some (Inl e)
      | Inr cands \<Rightarrow>
          (case expand_roots (resolve_fuel cands) q cands (request_roots q) new_expansion of
             None \<Rightarrow> None
           | Some (Inl e) \<Rightarrow> Some (Inl e)
           | Some (Inr x) \<Rightarrow> map_option Inr (finish_resolution q x)))"

subsection \<open>The service\<close>

record resolver_service =
  rv_last :: "resolution_result option"
  rv_closed :: bool

definition new_resolver :: resolver_service where
  "new_resolver = \<lparr>rv_last = None, rv_closed = False\<rparr>"

definition resolver_resolve ::
  "resolution_request \<Rightarrow> resolver_service \<Rightarrow>
     ((resolver_error + resolution_result) \<times> resolver_service) option" where
  "resolver_resolve q s =
     (if rv_closed s then Some (Inl ResolverClosedError, s)
      else map_option (\<lambda>r. case r of
               Inl e \<Rightarrow> (Inl e, s)
             | Inr v \<Rightarrow> (Inr v, s\<lparr>rv_last := Some v\<rparr>)) (resolve_request q))"

definition resolver_validate ::
  "resolution_request \<Rightarrow> resolver_service \<Rightarrow>
     ((resolver_error + resolution_issue list) \<times> resolver_service) option" where
  "resolver_validate q s =
     map_option (\<lambda>(r, t). (map_sum id rr_issues r, t)) (resolver_resolve q s)"

definition resolver_build_graph ::
  "resolution_request \<Rightarrow> resolver_service \<Rightarrow>
     ((resolver_error + dep_graph) \<times> resolver_service) option" where
  "resolver_build_graph q s =
     map_option (\<lambda>(r, t). (map_sum id rr_graph r, t)) (resolver_resolve q s)"

definition resolver_explain ::
  "resolution_result option \<Rightarrow> resolver_service \<Rightarrow> resolver_error + explanation list" where
  "resolver_explain r s =
     (if rv_closed s then Inl ResolverClosedError
      else case (case r of None \<Rightarrow> rv_last s | Some v \<Rightarrow> Some v) of
             None \<Rightarrow> Inr []
           | Some v \<Rightarrow> Inr (rr_explanations v))"

definition resolver_snapshot :: "resolver_service \<Rightarrow> resolver_error + resolution_result option" where
  "resolver_snapshot s = (if rv_closed s then Inl ResolverClosedError else Inr (rv_last s))"

definition resolver_clear :: "resolver_service \<Rightarrow> resolver_error + resolver_service" where
  "resolver_clear s = (if rv_closed s then Inl ResolverClosedError else Inr (s\<lparr>rv_last := None\<rparr>))"

definition resolver_close :: "resolver_service \<Rightarrow> resolver_service" where
  "resolver_close s = (if rv_closed s then s else s\<lparr>rv_last := None, rv_closed := True\<rparr>)"

subsection \<open>Candidates and their choice\<close>

definition meets :: "requirement \<Rightarrow> reg_entry \<Rightarrow> bool" where
  "meets r e \<longleftrightarrow> mf_package_id (re_manifest e) = rm_package r
     \<and> (case rm_publisher r of None \<Rightarrow> True | Some p \<Rightarrow> pb_id (re_publisher e) = p)
     \<and> matches_version (mf_version (re_manifest e)) r = Inr True"

lemma matching_exact: "matching r es = Inr ms \<Longrightarrow> ms = filter (meets r) es"
proof (induction es arbitrary: ms)
  case (Cons e es)
  show ?case
  proof (cases "mf_package_id (re_manifest e) = rm_package r
      \<and> (case rm_publisher r of None \<Rightarrow> True | Some p \<Rightarrow> pb_id (re_publisher e) = p)")
    case True
    with Cons show ?thesis
      by (auto simp: meets_def split: sum.splits if_splits)
  next
    case False
    with Cons show ?thesis by (auto simp: meets_def)
  qed
qed simp

lemma first_max_greatest:
  fixes f :: "'a \<Rightarrow> 'k::linorder"
  shows "first_max f m xs \<in> set (m # xs) \<and> (\<forall>y \<in> set (m # xs). f y \<le> f (first_max f m xs))"
proof (induction xs arbitrary: m)
  case (Cons x xs)
  show ?case
    using Cons.IH [of x] Cons.IH [of m] by (auto dest: order_trans intro: order_trans)
qed simp

lemma first_min_least:
  fixes f :: "'a \<Rightarrow> 'k::linorder"
  shows "first_min f m xs \<in> set (m # xs) \<and> (\<forall>y \<in> set (m # xs). f (first_min f m xs) \<le> f y)"
proof (induction xs arbitrary: m)
  case (Cons x xs)
  show ?case
    using Cons.IH [of x] Cons.IH [of m] by (auto dest: order_trans intro: order_trans)
qed simp

definition entry_key :: "reg_entry \<Rightarrow> version_key" where
  "entry_key e = version_key (mf_version (re_manifest e))"

lemma pick_best:
  assumes "ms \<noteq> []"
  shows "pick s ms \<in> set ms"
    and "s = HIGHEST_COMPATIBLE \<Longrightarrow> e \<in> set ms \<Longrightarrow> entry_key e \<le> entry_key (pick s ms)"
    and "s = LOWEST_COMPATIBLE \<Longrightarrow> e \<in> set ms \<Longrightarrow> entry_key (pick s ms) \<le> entry_key e"
    and "s \<notin> {HIGHEST_COMPATIBLE, LOWEST_COMPATIBLE} \<Longrightarrow> pick s ms = hd ms"
  using first_max_greatest [of entry_key "hd ms" "tl ms"] first_min_least [of entry_key "hd ms" "tl ms"] assms
  by (cases s; force simp: pick_def Let_def entry_key_def [abs_def])+


lemma choose_entry_none:
  "choose_entry s cands r x = Inr (None, x') \<Longrightarrow> x' = x \<and> filter (meets r) cands = []"
  by (auto simp: choose_entry_def Let_def split: sum.splits list.splits dest: matching_exact)

lemma choose_entry_some:
  assumes "choose_entry s cands r x = Inr (Some e, x')"
  shows "e \<in> set cands \<and> meets r e"
    and "x' = x \<or> (\<exists>i. ri_code i = AMBIGUOUS_CANDIDATE \<and> x' = add_issue i x)"
    and "s = HIGHEST_COMPATIBLE \<Longrightarrow> e' \<in> set cands \<Longrightarrow> meets r e' \<Longrightarrow> entry_key e' \<le> entry_key e"
    and "s = LOWEST_COMPATIBLE \<Longrightarrow> e' \<in> set cands \<Longrightarrow> meets r e' \<Longrightarrow> entry_key e \<le> entry_key e'"
    and "s \<notin> {HIGHEST_COMPATIBLE, LOWEST_COMPATIBLE} \<Longrightarrow> e' \<in> set cands \<Longrightarrow> meets r e' \<Longrightarrow>
           dep_key (re_coordinate e) \<le> dep_key (re_coordinate e')"
proof -
  let ?k = "\<lambda>e. dep_key (re_coordinate e)"
  let ?i = "(mk_resolution_issue AMBIGUOUS_CANDIDATE
    ''Multiple local candidates match dependency; deterministic selection used.'')\<lparr>ri_dependency := Some r\<rparr>"
  obtain ms where ms: "matching r cands = Inr ms" "ms \<noteq> []"
    using assms by (auto simp: choose_entry_def split: sum.splits list.splits)
  then have sel: "e = pick s (sort_key ?k ms)" "x' = (if 1 < length (sort_key ?k ms) then add_issue ?i x else x)"
    using assms by (auto simp: choose_entry_def Let_def split: list.splits)
  have "ri_code ?i = AMBIGUOUS_CANDIDATE" by (simp add: mk_resolution_issue_def)
  with sel(2) have x': "x' = x \<or> (\<exists>i. ri_code i = AMBIGUOUS_CANDIDATE \<and> x' = add_issue i x)" by metis
  note ms = ms sel(1) x'
  have f: "ms = filter (meets r) cands" by (rule matching_exact [OF ms(1)])
  have ne: "sort_key ?k ms \<noteq> []"
  proof
    assume "sort_key ?k ms = []"
    then have "set (sort_key ?k ms) = {}" by simp
    with ms(2) show False by simp
  qed
  note b = pick_best [OF ne]
  show "e \<in> set cands \<and> meets r e" using b(1) [of s] by (simp add: ms(3) f)
  show "x' = x \<or> (\<exists>i. ri_code i = AMBIGUOUS_CANDIDATE \<and> x' = add_issue i x)" by (rule ms(4))
  show "s = HIGHEST_COMPATIBLE \<Longrightarrow> e' \<in> set cands \<Longrightarrow> meets r e' \<Longrightarrow> entry_key e' \<le> entry_key e"
    using b(2) [of s e'] by (simp add: ms(3) f)
  show "s = LOWEST_COMPATIBLE \<Longrightarrow> e' \<in> set cands \<Longrightarrow> meets r e' \<Longrightarrow> entry_key e \<le> entry_key e'"
    using b(3) [of s e'] by (simp add: ms(3) f)
  assume s: "s \<notin> {HIGHEST_COMPATIBLE, LOWEST_COMPATIBLE}" "e' \<in> set cands" "meets r e'"
  have e: "e = hd (sort_key ?k ms)" using b(4) [OF s(1)] by (simp add: ms(3))
  obtain y ys where ys: "sort_key ?k ms = y # ys" using ne by (cases "sort_key ?k ms") auto
  have "sorted (map ?k (sort_key ?k ms))" by simp
  moreover have "e' \<in> set (sort_key ?k ms)" using s(2,3) by (simp add: f)
  ultimately show "?k e \<le> ?k e'" unfolding e by (auto simp: ys)
qed

text \<open>A requirement is satisfied by the best candidate for the strategy: when the choice returns a
  candidate it is one of the candidates that meet the requirement, it has the greatest (least) version
  key among them under HIGHEST_COMPATIBLE (LOWEST_COMPATIBLE) and the least coordinate otherwise;
  when it returns none, no candidate meets the requirement.\<close>

theorem candidate_choice_best:
  assumes "choose_entry s cands r x = Inr (chosen, x')"
  shows "case chosen of
      None \<Rightarrow> (\<forall>e \<in> set cands. \<not> meets r e)
    | Some e \<Rightarrow> e \<in> set cands \<and> meets r e \<and> (\<forall>e' \<in> set cands. meets r e' \<longrightarrow>
        (if s = HIGHEST_COMPATIBLE then entry_key e' \<le> entry_key e
         else if s = LOWEST_COMPATIBLE then entry_key e \<le> entry_key e'
         else dep_key (re_coordinate e) \<le> dep_key (re_coordinate e')))"
proof (cases chosen)
  case None
  with assms choose_entry_none [of s cands r x x'] show ?thesis by (auto simp: filter_empty_conv)
next
  case (Some e)
  with assms have "choose_entry s cands r x = Inr (Some e, x')" by simp
  from choose_entry_some [OF this] show ?thesis by (auto simp: Some)
qed

subsection \<open>Enough fuel\<close>

definition selected_coordinates :: "expansion \<Rightarrow> coordinate set" where
  "selected_coordinates x = fst ` set (xp_selected x)"

lemma selected_map_of: "map_of (xp_selected x) c = None \<longleftrightarrow> c \<notin> selected_coordinates x"
  by (simp add: selected_coordinates_def map_of_eq_None_iff)

lemma selected_simps [simp]:
  "selected_coordinates (add_issue i x) = selected_coordinates x"
  "selected_coordinates (add_explanation l x) = selected_coordinates x"
  "selected_coordinates (note_requirement r x) = selected_coordinates x"
  "selected_coordinates (not_found q r p v x) = selected_coordinates x"
  "selected_coordinates (note_cycle c d t v x) = selected_coordinates x"
  by (auto simp: selected_coordinates_def add_issue_def add_explanation_def note_requirement_def
      not_found_def note_cycle_def Let_def)

lemma selected_link: "link p c r x = Inr x' \<Longrightarrow> selected_coordinates x' = selected_coordinates x"
  by (auto simp: link_def selected_coordinates_def split: option.splits sum.splits)

lemma selected_admit:
  assumes "admit q r p e x = Inr x'"
  shows "selected_coordinates x' = insert (re_coordinate e) (selected_coordinates x)"
proof -
  obtain b x2 where "link p (re_coordinate e) r (x\<lparr>xp_selected := AList.update (re_coordinate e) e (xp_selected x),
      xp_builder := b\<rparr>) = Inr x2" and x': "selected_coordinates x' = selected_coordinates x2"
    using assms by (auto simp: admit_def Let_def selected_coordinates_def split: sum.splits)
  from selected_link [OF this(1)] show ?thesis
    using dom_update [of "re_coordinate e" e "xp_selected x"]
    by (simp add: x') (simp add: selected_coordinates_def dom_map_of_conv_image_fst [symmetric])
qed

lemma expand_fuel_suffices:
  "card (re_coordinate ` set cands - selected_coordinates x) < n \<Longrightarrow>
     \<exists>res. expand n q cands r parent visiting x = Some res \<and>
       (case res of Inl _ \<Rightarrow> True | Inr (_, x') \<Rightarrow> selected_coordinates x \<subseteq> selected_coordinates x')"
  "card (re_coordinate ` set cands - selected_coordinates x) < n \<Longrightarrow>
     \<exists>res. expand_deps n q cands c visiting seen ds x = Some res \<and>
       (case res of Inl _ \<Rightarrow> True | Inr x' \<Rightarrow> selected_coordinates x \<subseteq> selected_coordinates x')"
proof (induction n q cands r parent visiting x and n q cands c visiting seen ds x
    rule: expand_expand_deps.induct)
  case (2 n q cands r parent visiting x)
  show ?case
  proof (cases "choose_entry (qr_strategy q) cands r (note_requirement r x)")
    case (Inr p)
    obtain chosen x1 where p: "p = (chosen, x1)" by force
    note ch = Inr [unfolded p]
    show ?thesis
    proof (cases chosen)
      case None
      with ch choose_entry_none [of "qr_strategy q" cands r "note_requirement r x" x1]
      show ?thesis by simp
    next
      case (Some e)
      note ch = ch [unfolded Some]
      let ?c = "re_coordinate e"
      have sel: "selected_coordinates x1 = selected_coordinates x"
        using choose_entry_some(2) [OF ch] by auto
      have e: "e \<in> set cands" using choose_entry_some(1) [OF ch] by simp
      show ?thesis
      proof (cases "map_of (xp_selected x1) ?c = None")
        case False
        then show ?thesis
          using ch sel by (auto simp: Let_def dest: selected_link split: sum.splits)
      next
        case True
        show ?thesis
        proof (cases "admit q r parent e x1")
          case (Inr x2)
          have sel2: "selected_coordinates x2 = insert ?c (selected_coordinates x)"
            using selected_admit [OF Inr] sel by simp
          have "re_coordinate ` set cands - selected_coordinates x2
              = (re_coordinate ` set cands - selected_coordinates x) - {?c}"
            using sel2 by auto
          also have "card \<dots> < card (re_coordinate ` set cands - selected_coordinates x)"
            using e True sel by (intro card_Diff1_less) (auto simp: selected_map_of)
          finally have "card (re_coordinate ` set cands - selected_coordinates x2) < n"
            using "2.prems" by simp
          from "2.IH" [OF ch refl refl refl _ Inr this] True
          obtain res where "expand_deps n q cands ?c (visiting @ [?c]) {}
                (entry_requirements (re_dependencies e)) x2 = Some res"
            "case res of Inl _ \<Rightarrow> True | Inr x' \<Rightarrow> selected_coordinates x2 \<subseteq> selected_coordinates x'"
            by blast
          with ch True Inr sel2 show ?thesis
            by (auto simp: Let_def split: sum.splits)
        qed (use ch True in \<open>simp add: Let_def\<close>)
      qed
    qed
  qed simp
next
  case (4 n q cands c visiting seen d ds x)
  show ?case
  proof (cases "duplicate_key d \<in> seen")
    case True
    from "4.IH"(1) [OF True] "4.prems" True show ?thesis by (auto split: sum.splits)
  next
    case False
    from "4.IH"(2) [OF False "4.prems"] obtain res where
      res: "expand n q cands d (Some c) visiting x = Some res"
      "case res of Inl _ \<Rightarrow> True | Inr (_, x') \<Rightarrow> selected_coordinates x \<subseteq> selected_coordinates x'"
      by blast
    show ?thesis
    proof (cases res)
      case (Inr p)
      obtain t x1 where p: "p = (t, x1)" by force
      let ?x = "case t of None \<Rightarrow> x1 | Some u \<Rightarrow> if u \<in> set visiting then note_cycle c d u visiting x1 else x1"
      have sel: "selected_coordinates ?x = selected_coordinates x1" by (simp split: option.splits)
      have sub: "selected_coordinates x \<subseteq> selected_coordinates x1" using res(2) by (simp add: Inr p)
      then have "card (re_coordinate ` set cands - selected_coordinates ?x)
          \<le> card (re_coordinate ` set cands - selected_coordinates x)"
        unfolding sel by (intro card_mono) auto
      with "4.prems" have "card (re_coordinate ` set cands - selected_coordinates ?x) < n" by simp
      from "4.IH"(3) [OF False res(1) Inr p [symmetric] refl this] obtain res' where
        res': "expand_deps n q cands c visiting (insert (duplicate_key d) seen) ds ?x = Some res'"
        "case res' of Inl _ \<Rightarrow> True | Inr x' \<Rightarrow> selected_coordinates ?x \<subseteq> selected_coordinates x'"
        by blast
      have "expand_deps n q cands c visiting seen (d # ds) x = Some res'"
        using res(1) res'(1) by (simp add: False Inr p Let_def)
      moreover have "case res' of Inl _ \<Rightarrow> True | Inr x' \<Rightarrow> selected_coordinates x \<subseteq> selected_coordinates x'"
        using res'(2) sub unfolding sel by (cases res') auto
      ultimately show ?thesis by blast
    qed (use res False in simp)
  qed
qed simp_all


lemma expand_roots_fuel_suffices:
  "card (re_coordinate ` set cands - selected_coordinates x) < n \<Longrightarrow>
     \<exists>res. expand_roots n q cands rs x = Some res"
proof (induction rs arbitrary: x)
  case (Cons r rs)
  obtain res where res: "expand n q cands r None [] x = Some res"
      "case res of Inl _ \<Rightarrow> True | Inr (_, x') \<Rightarrow> selected_coordinates x \<subseteq> selected_coordinates x'"
    using expand_fuel_suffices(1) [OF Cons.prems] by blast
  show ?case
  proof (cases res)
    case (Inr p)
    obtain t x1 where p: "p = (t, x1)" by force
    have "selected_coordinates x \<subseteq> selected_coordinates x1" using res(2) by (simp add: Inr p)
    then have "card (re_coordinate ` set cands - selected_coordinates x1)
        \<le> card (re_coordinate ` set cands - selected_coordinates x)"
      by (intro card_mono) auto
    with Cons.prems have "card (re_coordinate ` set cands - selected_coordinates x1) < n" by simp
    from Cons.IH [OF this] show ?thesis using res(1) by (simp add: Inr p)
  qed (use res in simp)
qed simp

lemma finish_total: "\<exists>r. finish_resolution q x = Some r"
  using topo_enough_fuel [of "build_graph (xp_builder x)"] by (auto simp: finish_resolution_def Let_def)

lemma resolve_request_total: "\<exists>r. resolve_request q = Some r"
proof (cases "resolution_source (qr_snapshot q)")
  case (Inr cands)
  have "card (re_coordinate ` set cands - selected_coordinates new_expansion) \<le> length cands"
    using card_image_le [of "set cands" re_coordinate] card_length [of cands]
    by (simp add: selected_coordinates_def new_expansion_def)
  then have "card (re_coordinate ` set cands - selected_coordinates new_expansion) < resolve_fuel cands"
    by (simp add: resolve_fuel_def)
  from expand_roots_fuel_suffices [OF this, of q "request_roots q"] obtain res where
    res: "expand_roots (resolve_fuel cands) q cands (request_roots q) new_expansion = Some res" ..
  show ?thesis
  proof (cases res)
    case (Inr x)
    obtain v where "finish_resolution q x = Some v" using finish_total by blast
    with res \<open>resolution_source _ = _\<close> Inr show ?thesis by (simp add: resolve_request_def)
  qed (use res Inr in \<open>simp add: resolve_request_def\<close>)
qed (simp add: resolve_request_def)

text \<open>C24: the resolver always returns: for every request and every state of the service the bounded
  expansion and the bounded topological order deliver a result or an error; an error leaves the last
  result as it was, and a result is what snapshot and explain then report.\<close>

theorem resolver_returns:
  "\<exists>res t. resolver_resolve q s = Some (res, t)
     \<and> (case res of
          Inl _ \<Rightarrow> t = s
        | Inr v \<Rightarrow> \<not> rv_closed s \<and> resolve_request q = Some (Inr v)
             \<and> resolver_snapshot t = Inr (Some v)
             \<and> resolver_explain None t = Inr (rr_explanations v))"
proof -
  obtain r where r: "resolve_request q = Some r" using resolve_request_total by blast
  show ?thesis
  proof (cases "rv_closed s")
    case False
    then show ?thesis
      by (cases r) (simp_all add: r resolver_resolve_def resolver_snapshot_def resolver_explain_def)
  qed (simp add: resolver_resolve_def)
qed

subsection \<open>A resolved result is sound\<close>

text \<open>What holds of an expansion at every moment; \<open>pending\<close> holds the coordinates whose dependencies are
  still being expanded.\<close>

definition joined_edges :: "expansion \<Rightarrow> (coordinate \<times> coordinate) set" where
  "joined_edges x = fst ` set (gb_edges (xp_builder x))"

definition satisfied :: "reg_entry list \<Rightarrow> expansion \<Rightarrow> coordinate \<Rightarrow> requirement \<Rightarrow> bool" where
  "satisfied cands x c d \<longleftrightarrow> (\<exists>e \<in> set cands. meets d e \<and> re_coordinate e \<in> selected_coordinates x
     \<and> (c, re_coordinate e) \<in> joined_edges x)"

definition clean :: "expansion \<Rightarrow> bool" where
  "clean x \<longleftrightarrow> (\<forall>i \<in> set (xp_issues x). \<not> fatal_issue i)"

definition graph_inv :: "expansion \<Rightarrow> bool" where
  "graph_inv x \<longleftrightarrow> distinct (map fst (xp_selected x))
     \<and> fst ` set (gb_nodes (xp_builder x)) = selected_coordinates x
     \<and> (\<forall>(c, n) \<in> set (gb_nodes (xp_builder x)). dn_coordinate n = c)
     \<and> (\<forall>(k, e) \<in> set (gb_edges (xp_builder x)). (de_source e, de_target e) = k)
     \<and> (\<forall>(a, b) \<in> joined_edges x. a \<in> selected_coordinates x \<and> b \<in> selected_coordinates x)"

definition compatible_with :: "(string, string) dict \<Rightarrow> reg_entry \<Rightarrow> bool" where
  "compatible_with ts e \<longleftrightarrow> (\<forall>(l, t) \<in> set ts. case layer_of (re_compatibility e) l of
     None \<Rightarrow> True | Some d \<Rightarrow> d = Text_attribute t)"

definition selection_inv :: "resolution_request \<Rightarrow> reg_entry list \<Rightarrow> coordinate set \<Rightarrow> expansion \<Rightarrow> bool" where
  "selection_inv q cands pending x \<longleftrightarrow> (\<forall>c e. map_of (xp_selected x) c = Some e \<longrightarrow>
     e \<in> set cands \<and> re_coordinate e = c
     \<and> (clean x \<longrightarrow> compatible_with (qr_targets q) e
        \<and> (c \<notin> pending \<longrightarrow> (\<forall>d \<in> set (entry_requirements (re_dependencies e)).
             \<not> rm_optional d \<longrightarrow> satisfied cands x c d))))"

definition grows_to :: "expansion \<Rightarrow> expansion \<Rightarrow> bool" where
  "grows_to x x' \<longleftrightarrow> (\<forall>c e. map_of (xp_selected x) c = Some e \<longrightarrow> map_of (xp_selected x') c = Some e)
     \<and> joined_edges x \<subseteq> joined_edges x' \<and> set (xp_issues x) \<subseteq> set (xp_issues x')"

lemma grows_to_refl [simp]: "grows_to x x"
  by (simp add: grows_to_def)

lemma grows_to_trans: "grows_to x y \<Longrightarrow> grows_to y z \<Longrightarrow> grows_to x z"
  unfolding grows_to_def by blast

lemma grows_to_clean: "grows_to x y \<Longrightarrow> clean y \<Longrightarrow> clean x"
  unfolding grows_to_def clean_def by blast

lemma grows_to_selected:
  assumes "grows_to x y"
  shows "selected_coordinates x \<subseteq> selected_coordinates y"
proof
  fix c assume "c \<in> selected_coordinates x"
  then have "map_of (xp_selected x) c \<noteq> None" by (simp add: selected_map_of)
  then obtain e where "map_of (xp_selected x) c = Some e" by blast
  then have "map_of (xp_selected y) c = Some e" using assms unfolding grows_to_def by blast
  then show "c \<in> selected_coordinates y" using selected_map_of [of y c] by simp
qed

lemma grows_to_satisfied: "grows_to x y \<Longrightarrow> satisfied cands x c d \<Longrightarrow> satisfied cands y c d"
  using grows_to_selected [of x y] unfolding grows_to_def satisfied_def by blast


text \<open>Steps that only add an issue or an explanation, or note a requirement.\<close>

definition same_choices :: "expansion \<Rightarrow> expansion \<Rightarrow> bool" where
  "same_choices x y \<longleftrightarrow> xp_selected y = xp_selected x \<and> xp_builder y = xp_builder x
     \<and> set (xp_issues x) \<subseteq> set (xp_issues y)"

lemma same_choices_intros:
  "same_choices x (add_issue i x)"
  "same_choices x (add_explanation l x)"
  "same_choices x (note_requirement r x)"
  "same_choices x (not_found q r p v x)"
  "same_choices x (note_cycle c d t v x)"
  by (auto simp: same_choices_def add_issue_def add_explanation_def note_requirement_def
      not_found_def note_cycle_def Let_def)

lemma same_choices_selected: "same_choices x y \<Longrightarrow> selected_coordinates y = selected_coordinates x"
  by (simp add: same_choices_def selected_coordinates_def)

lemma same_choices_edges: "same_choices x y \<Longrightarrow> joined_edges y = joined_edges x"
  by (simp add: same_choices_def joined_edges_def)

lemma same_choices_extends: "same_choices x y \<Longrightarrow> grows_to x y"
  by (auto simp: same_choices_def grows_to_def joined_edges_def)

lemma same_choices_graph: "same_choices x y \<Longrightarrow> graph_inv x \<Longrightarrow> graph_inv y"
  using same_choices_selected [of x y] same_choices_edges [of x y]
  by (simp add: graph_inv_def same_choices_def)

lemma grows_to_selection:
  assumes "selection_inv q cands pending x" "grows_to x y" "xp_selected y = xp_selected x"
  shows "selection_inv q cands pending y"
  using assms(1,3) grows_to_clean [OF assms(2)] grows_to_satisfied [OF assms(2)]
  unfolding selection_inv_def by metis

lemma same_choices_selection:
  "same_choices x y \<Longrightarrow> selection_inv q cands pending x \<Longrightarrow> selection_inv q cands pending y"
  by (rule grows_to_selection) (auto simp: same_choices_extends same_choices_def)

text \<open>Linking a selected parent to a selected target.\<close>

lemma link_steps:
  assumes "link p c r x = Inr x'" "graph_inv x" "c \<in> selected_coordinates x"
    "\<forall>a. p = Some a \<longrightarrow> a \<in> selected_coordinates x"
  shows "graph_inv x'" "grows_to x x'" "xp_selected x' = xp_selected x"
    "\<forall>a. p = Some a \<longrightarrow> (a, c) \<in> joined_edges x'" "xp_issues x' = xp_issues x"
proof -
  have "graph_inv x' \<and> grows_to x x' \<and> xp_selected x' = xp_selected x \<and>
    (\<forall>a. p = Some a \<longrightarrow> (a, c) \<in> joined_edges x') \<and> xp_issues x' = xp_issues x"
  proof (cases p)
    case None
    with assms(1,2) show ?thesis by (simp add: link_def)
  next
    case (Some a)
    let ?e = "\<lparr>de_source = a, de_target = c, de_requirement = r\<rparr>"
    have new: "map_of (gb_edges (xp_builder x)) (a, c) = None"
      and x': "x' = x\<lparr>xp_builder := (xp_builder x)\<lparr>gb_edges := gb_edges (xp_builder x) @ [((a, c), ?e)]\<rparr>\<rparr>"
      using assms(1)
      by (auto simp: Some link_def add_edge_def update_fresh split: sum.splits if_splits)
    have "joined_edges x' = insert (a, c) (joined_edges x)"
      by (simp add: joined_edges_def x')
    with assms(2-4) show ?thesis
      by (auto simp: Some graph_inv_def grows_to_def x' selected_coordinates_def)
  qed
  then show "graph_inv x'" "grows_to x x'" "xp_selected x' = xp_selected x"
    "\<forall>a. p = Some a \<longrightarrow> (a, c) \<in> joined_edges x'" "xp_issues x' = xp_issues x" by simp_all
qed


lemma compatibility_issues_none:
  "(\<forall>i \<in> set (compatibility_issues c (re_compatibility e) ts). \<not> fatal_issue i) \<Longrightarrow> compatible_with ts e"
  unfolding compatible_with_def
  by (auto simp: compatibility_issues_def fatal_issue_def mk_resolution_issue_def split: option.splits)

lemma admit_steps:
  assumes "admit q r p e x = Inr x'" "graph_inv x" "selection_inv q cands pending x"
    and "e \<in> set cands" "re_coordinate e \<notin> selected_coordinates x"
    and "\<forall>a. p = Some a \<longrightarrow> a \<in> selected_coordinates x"
  shows "graph_inv x'" "grows_to x x'" "map_of (xp_selected x') (re_coordinate e) = Some e"
    "selection_inv q cands (insert (re_coordinate e) pending) x'"
    "\<forall>a. p = Some a \<longrightarrow> (a, re_coordinate e) \<in> joined_edges x'"
proof -
  let ?c = "re_coordinate e"
  let ?n = "\<lparr>dn_coordinate = ?c, dn_dependencies = entry_requirements (re_dependencies e)\<rparr>"
  have fresh: "map_of (xp_selected x) ?c = None" using assms(5) by (simp add: selected_map_of)
  have node: "map_of (gb_nodes (xp_builder x)) ?c = None"
    using assms(2,5) by (simp add: graph_inv_def map_of_eq_None_iff_fst)
  define x1 where "x1 = x\<lparr>xp_selected := xp_selected x @ [(?c, e)],
      xp_builder := (xp_builder x)\<lparr>gb_nodes := gb_nodes (xp_builder x) @ [(?c, ?n)]\<rparr>\<rparr>"
  obtain x2 where x2: "link p ?c r x1 = Inr x2"
    and x': "x' = x2\<lparr>xp_issues := xp_issues x2 @ compatibility_issues ?c (re_compatibility e) (qr_targets q)\<rparr>"
    using assms(1) by (auto simp: admit_def Let_def add_node_def node fresh update_fresh x1_def split: sum.splits)
  have sel1: "selected_coordinates x1 = insert ?c (selected_coordinates x)"
    by (auto simp: selected_coordinates_def x1_def)
  have edges1: "joined_edges x1 = joined_edges x" by (simp add: joined_edges_def x1_def)
  have nodes1: "gb_nodes (xp_builder x1) = gb_nodes (xp_builder x) @ [(?c, ?n)]"
    "gb_edges (xp_builder x1) = gb_edges (xp_builder x)" by (simp_all add: x1_def)
  have "distinct (map fst (xp_selected x1))"
    using assms(2,5) by (simp add: graph_inv_def x1_def selected_coordinates_def)
  with assms(2) have g1: "graph_inv x1"
    unfolding graph_inv_def sel1 edges1 nodes1 by auto
  have ext1: "grows_to x x1" using fresh by (auto simp: grows_to_def edges1) (auto simp: x1_def map_add_Some_iff)
  have in1: "?c \<in> selected_coordinates x1" "\<forall>a. p = Some a \<longrightarrow> a \<in> selected_coordinates x1"
    using assms(6) by (auto simp: sel1)
  note l = link_steps [OF x2 g1 in1]
  have same: "xp_selected x' = xp_selected x1" "xp_builder x' = xp_builder x2"
    "set (xp_issues x') = set (xp_issues x) \<union> set (compatibility_issues ?c (re_compatibility e) (qr_targets q))"
    using l(3,5) by (simp_all add: x' x1_def)
  have sel': "selected_coordinates x' = selected_coordinates x2" "joined_edges x' = joined_edges x2"
    by (simp_all add: selected_coordinates_def joined_edges_def x')
  have ext2: "grows_to x2 x'" by (auto simp: grows_to_def x' joined_edges_def)
  show ext: "grows_to x x'" using ext1 l(2) ext2 grows_to_trans by blast
  show "graph_inv x'" using l(1) unfolding graph_inv_def sel' same(2) by (simp add: x')
  show "\<forall>a. p = Some a \<longrightarrow> (a, ?c) \<in> joined_edges x'" using l(4) by (simp add: sel')
  have m: "map_of (xp_selected x') = (map_of (xp_selected x)) (?c \<mapsto> e)"
    using fresh by (auto simp: same(1) x1_def map_add_def fun_eq_iff split: option.splits)
  then show "map_of (xp_selected x') ?c = Some e" by simp
  have comp: "clean x' \<Longrightarrow> compatible_with (qr_targets q) e"
    using same(3) by (intro compatibility_issues_none [of ?c]) (auto simp: clean_def)
  show "selection_inv q cands (insert ?c pending) x'"
    unfolding selection_inv_def
  proof (intro allI impI)
    fix c f assume cf: "map_of (xp_selected x') c = Some f"
    show "f \<in> set cands \<and> re_coordinate f = c \<and> (clean x' \<longrightarrow> compatible_with (qr_targets q) f \<and>
      (c \<notin> insert ?c pending \<longrightarrow> (\<forall>d \<in> set (entry_requirements (re_dependencies f)).
         \<not> rm_optional d \<longrightarrow> satisfied cands x' c d)))"
    proof (cases "c = ?c")
      case True
      with cf m have "f = e" by simp
      with True comp assms(4) show ?thesis by simp
    next
      case False
      with cf m have "map_of (xp_selected x) c = Some f" by simp
      with assms(3) show ?thesis
        using grows_to_clean [OF ext] grows_to_satisfied [OF ext] unfolding selection_inv_def by blast
    qed
  qed
qed


definition answered ::
  "reg_entry list \<Rightarrow> coordinate option \<Rightarrow> requirement \<Rightarrow> coordinate option \<Rightarrow> expansion \<Rightarrow> bool" where
  "answered cands p r t x \<longleftrightarrow> (case t of
      None \<Rightarrow> rm_optional r
    | Some u \<Rightarrow> \<exists>e \<in> set cands. meets r e \<and> re_coordinate e = u \<and> u \<in> selected_coordinates x
        \<and> (\<forall>a. p = Some a \<longrightarrow> (a, u) \<in> joined_edges x))"

lemma answered_satisfied:
  "answered cands (Some c) d t x \<Longrightarrow> \<not> rm_optional d \<Longrightarrow> satisfied cands x c d"
  by (auto simp: answered_def satisfied_def split: option.splits)

lemma grows_to_answered:
  assumes "grows_to x y" "answered cands p r t x"
  shows "answered cands p r t y"
proof (cases t)
  case (Some u)
  have edges: "joined_edges x \<subseteq> joined_edges y" using assms(1) by (simp add: grows_to_def)
  from assms(2) obtain e where e: "e \<in> set cands" "meets r e" "re_coordinate e = u"
    "u \<in> selected_coordinates x" "\<forall>a. p = Some a \<longrightarrow> (a, u) \<in> joined_edges x"
    unfolding answered_def Some option.case by blast
  have "u \<in> selected_coordinates y" using e(4) grows_to_selected [OF assms(1)] by (rule set_rev_mp)
  moreover have "\<forall>a. p = Some a \<longrightarrow> (a, u) \<in> joined_edges y" using e(5) edges by (cases p) auto
  ultimately show ?thesis unfolding answered_def Some option.case using e(1-3) by (intro bexI [of _ e] conjI)
qed (use assms(2) in \<open>simp add: answered_def\<close>)

lemma selection_done:
  assumes "selection_inv q cands (insert c pending) x" "map_of (xp_selected x) c = Some e"
    and "clean x \<longrightarrow> (\<forall>d \<in> set (entry_requirements (re_dependencies e)). \<not> rm_optional d \<longrightarrow> satisfied cands x c d)"
  shows "selection_inv q cands pending x"
  unfolding selection_inv_def
proof (intro allI impI)
  fix k f assume "map_of (xp_selected x) k = Some f"
  then show "f \<in> set cands \<and> re_coordinate f = k \<and> (clean x \<longrightarrow> compatible_with (qr_targets q) f \<and>
      (k \<notin> pending \<longrightarrow> (\<forall>d \<in> set (entry_requirements (re_dependencies f)).
         \<not> rm_optional d \<longrightarrow> satisfied cands x k d)))"
    using assms by (cases "k = c") (auto simp: selection_inv_def)
qed

lemma not_found_clean: "clean (not_found q r p v x) \<Longrightarrow> rm_optional r"
  by (auto simp: not_found_def clean_def add_issue_def fatal_issue_def mk_resolution_issue_def split: if_splits)

lemma choose_same:
  assumes "choose_entry s cands r x = Inr (t, x')"
  shows "same_choices x x'"
proof (cases t)
  case None
  with choose_entry_none [of s cands r x x'] assms show ?thesis by (simp add: same_choices_def)
next
  case (Some e)
  with assms have "choose_entry s cands r x = Inr (Some e, x')" by simp
  from choose_entry_some(2) [OF this] show ?thesis
    using same_choices_intros(1) by (auto simp: same_choices_def)
qed

lemma same_choices_trans: "same_choices x y \<Longrightarrow> same_choices y z \<Longrightarrow> same_choices x z"
  by (auto simp: same_choices_def)

text \<open>The invariants of an expansion together, so that the steps below carry one fact.\<close>

definition expansion_inv :: "resolution_request \<Rightarrow> reg_entry list \<Rightarrow> coordinate set \<Rightarrow> expansion \<Rightarrow> bool" where
  "expansion_inv q cands pending x \<longleftrightarrow> graph_inv x \<and> selection_inv q cands pending x"

lemma same_choices_inv: "same_choices x y \<Longrightarrow> expansion_inv q cands pending x \<Longrightarrow> expansion_inv q cands pending y"
  unfolding expansion_inv_def using same_choices_graph same_choices_selection by blast

lemma link_inv:
  assumes "link p c r x = Inr x'" "expansion_inv q cands pending x" "c \<in> selected_coordinates x"
    "\<forall>a. p = Some a \<longrightarrow> a \<in> selected_coordinates x"
  shows "expansion_inv q cands pending x'"
  using assms(2) link_steps [OF assms(1) _ assms(3,4)] grows_to_selection
  unfolding expansion_inv_def by blast

lemma link_answered:
  assumes "link p (re_coordinate e) r x = Inr x'" "graph_inv x" "re_coordinate e \<in> selected_coordinates x"
    "\<forall>a. p = Some a \<longrightarrow> a \<in> selected_coordinates x" "e \<in> set cands" "meets r e"
  shows "answered cands p r (Some (re_coordinate e)) x'"
  using assms(3,5,6) link_steps(3,4) [OF assms(1-4)]
  by (auto simp: answered_def selected_coordinates_def)

lemma expand_sound:
  "\<lbrakk>expand n q cands r p visiting x = Some (Inr (t, x')); expansion_inv q cands pending x;
    \<forall>a. p = Some a \<longrightarrow> a \<in> selected_coordinates x\<rbrakk>
   \<Longrightarrow> expansion_inv q cands pending x' \<and> grows_to x x' \<and> (clean x' \<longrightarrow> answered cands p r t x')"
  "\<lbrakk>expand_deps n q cands c visiting seen ds x = Some (Inr x'); expansion_inv q cands pending x;
    c \<in> selected_coordinates x\<rbrakk>
   \<Longrightarrow> expansion_inv q cands pending x' \<and> grows_to x x'
     \<and> (clean x' \<longrightarrow> (\<forall>d \<in> set ds. \<not> rm_optional d \<longrightarrow> satisfied cands x' c d))"
proof (induction n q cands r p visiting x and n q cands c visiting seen ds x
    arbitrary: t x' pending and x' pending rule: expand_expand_deps.induct)
  case (2 n q cands r p visiting x)
  obtain chosen x1 where ch: "choose_entry (qr_strategy q) cands r (note_requirement r x) = Inr (chosen, x1)"
    using "2.prems"(1) by (auto split: sum.splits)
  have s1: "same_choices x x1"
    using choose_same [OF ch] same_choices_intros(3) same_choices_trans by blast
  note inv1 = same_choices_inv [OF s1 "2.prems"(2)]
  have p1: "\<forall>a. p = Some a \<longrightarrow> a \<in> selected_coordinates x1"
    using "2.prems"(3) by (simp add: same_choices_selected [OF s1])
  show ?case
  proof (cases chosen)
    case None
    have s2: "same_choices x (not_found q r p visiting x1)"
      using s1 same_choices_intros(4) same_choices_trans by blast
    have "t = None" "x' = not_found q r p visiting x1" using "2.prems"(1) ch None by simp_all
    then show ?thesis
      using same_choices_inv [OF s2 "2.prems"(2)] same_choices_extends [OF s2] not_found_clean
      by (simp add: answered_def)
  next
    case (Some e)
    note ch = ch [unfolded Some]
    let ?c = "re_coordinate e"
    have e: "e \<in> set cands" "meets r e" using choose_entry_some(1) [OF ch] by simp_all
    show ?thesis
    proof (cases "map_of (xp_selected x1) ?c = None")
      case False
      then have l: "link p ?c r x1 = Inr x'" and t: "t = Some ?c"
        using "2.prems"(1) ch by (auto simp: Let_def split: sum.splits)
      have c: "?c \<in> selected_coordinates x1" using False by (simp add: selected_map_of)
      have g: "graph_inv x1" using inv1 by (simp add: expansion_inv_def)
      show ?thesis
        using link_inv [OF l inv1 c p1] link_answered [OF l g c p1 e] link_steps(2) [OF l g c p1]
          grows_to_trans [OF same_choices_extends [OF s1]] by (simp add: t)
    next
      case True
      then obtain x2 x3 where x2: "admit q r p e x1 = Inr x2"
        and x3: "expand_deps n q cands ?c (visiting @ [?c]) {} (entry_requirements (re_dependencies e)) x2
              = Some (Inr x3)" and t: "t = Some ?c" and x': "same_choices x3 x'"
        using "2.prems"(1) ch same_choices_intros(2)
        by (auto simp: Let_def split: sum.splits option.splits)
      have new: "?c \<notin> selected_coordinates x1" using True by (simp add: selected_map_of)
      from inv1 have i1: "graph_inv x1" "selection_inv q cands pending x1" by (simp_all add: expansion_inv_def)
      note a = admit_steps [OF x2 i1 e(1) new p1]
      have i2: "expansion_inv q cands (insert ?c pending) x2" using a(1,4) by (simp add: expansion_inv_def)
      have c2: "?c \<in> selected_coordinates x2" using a(3) selected_map_of [of x2 ?c] by simp
      from "2.IH" [OF ch refl refl refl _ x2 x3 i2 c2] True
      have i3: "expansion_inv q cands (insert ?c pending) x3" and e3: "grows_to x2 x3"
        and d3: "clean x3 \<longrightarrow> (\<forall>d \<in> set (entry_requirements (re_dependencies e)).
              \<not> rm_optional d \<longrightarrow> satisfied cands x3 ?c d)" by blast+
      have m3: "map_of (xp_selected x3) ?c = Some e" using e3 a(3) by (simp add: grows_to_def)
      have "expansion_inv q cands pending x3"
        using i3 selection_done [OF _ m3 d3] by (simp add: expansion_inv_def)
      then have i': "expansion_inv q cands pending x'" by (rule same_choices_inv [OF x'])
      have ext: "grows_to x2 x'" using e3 same_choices_extends [OF x'] grows_to_trans by blast
      have "answered cands p r t x2"
        using e c2 a(5) by (auto simp: answered_def t)
      with ext have "answered cands p r t x'" by (rule grows_to_answered)
      moreover have "grows_to x x'"
        using same_choices_extends [OF s1] a(2) ext grows_to_trans by blast
      ultimately show ?thesis using i' by blast
    qed
  qed
next
  case (4 n q cands c visiting seen d ds x)
  show ?case
  proof (cases "duplicate_key d \<in> seen")
    case True
    let ?i = "(mk_resolution_issue DUPLICATE_DEPENDENCY ''Duplicate dependency declaration.'')
       \<lparr>ri_coordinate := Some c, ri_dependency := Some d\<rparr>"
    have s: "same_choices x (add_issue ?i x)" by (rule same_choices_intros)
    have run: "expand_deps n q cands c visiting seen ds (add_issue ?i x) = Some (Inr x')"
      using "4.prems"(1) True by simp
    have "c \<in> selected_coordinates (add_issue ?i x)" using "4.prems"(3) by simp
    from "4.IH"(1) [OF True run same_choices_inv [OF s "4.prems"(2)] this]
    have r: "expansion_inv q cands pending x'" "grows_to (add_issue ?i x) x'" by blast+
    have "?i \<in> set (xp_issues x')" using r(2) by (auto simp: grows_to_def add_issue_def)
    moreover have "fatal_issue ?i" by (simp add: fatal_issue_def mk_resolution_issue_def)
    ultimately have "\<not> clean x'" unfolding clean_def by (intro notI) (drule (1) bspec, erule (1) notE)
    with r show ?thesis using grows_to_trans [OF same_choices_extends [OF s]] by blast
  next
    case False
    obtain t x1 where x1: "expand n q cands d (Some c) visiting x = Some (Inr (t, x1))"
      using "4.prems"(1) False by (auto split: option.splits sum.splits)
    let ?x = "case t of None \<Rightarrow> x1 | Some u \<Rightarrow> if u \<in> set visiting then note_cycle c d u visiting x1 else x1"
    have run: "expand_deps n q cands c visiting (insert (duplicate_key d) seen) ds ?x = Some (Inr x')"
      using "4.prems"(1) False x1 by (simp add: Let_def)
    have "\<forall>a. Some c = Some a \<longrightarrow> a \<in> selected_coordinates x" using "4.prems"(3) by simp
    from "4.IH"(2) [OF False x1 "4.prems"(2) this]
    have r1: "expansion_inv q cands pending x1" "grows_to x x1" "clean x1 \<longrightarrow> answered cands (Some c) d t x1"
      by blast+
    have s: "same_choices x1 ?x"
      using same_choices_intros(5) by (simp add: same_choices_def split: option.splits)
    have c: "c \<in> selected_coordinates ?x"
      using grows_to_selected [OF r1(2)] "4.prems"(3) same_choices_selected [OF s] by blast
    from "4.IH"(3) [OF False x1 refl refl refl run same_choices_inv [OF s r1(1)] c]
    have r2: "expansion_inv q cands pending x'" "grows_to ?x x'"
      "clean x' \<longrightarrow> (\<forall>d \<in> set ds. \<not> rm_optional d \<longrightarrow> satisfied cands x' c d)" by blast+
    have e1: "grows_to x1 x'" using same_choices_extends [OF s] r2(2) grows_to_trans by blast
    have "satisfied cands x' c d" if cl: "clean x'" and req: "\<not> rm_optional d"
      using r1(3) grows_to_clean [OF e1 cl] answered_satisfied [OF _ req] grows_to_satisfied [OF e1] by blast
    with r2 grows_to_trans [OF r1(2) e1] show ?thesis by auto
  qed
qed simp_all


lemma expand_roots_sound:
  "\<lbrakk>expand_roots n q cands rs x = Some (Inr x'); expansion_inv q cands {} x\<rbrakk>
   \<Longrightarrow> expansion_inv q cands {} x' \<and> grows_to x x'
     \<and> (clean x' \<longrightarrow> (\<forall>r \<in> set rs. \<not> rm_optional r \<longrightarrow>
          (\<exists>e \<in> set cands. meets r e \<and> re_coordinate e \<in> selected_coordinates x')))"
proof (induction rs arbitrary: x)
  case (Cons r rs)
  obtain t x1 where x1: "expand n q cands r None [] x = Some (Inr (t, x1))"
    and run: "expand_roots n q cands rs x1 = Some (Inr x')"
    using Cons.prems(1) by (auto split: option.splits sum.splits)
  have r1: "expansion_inv q cands {} x1" "grows_to x x1" "clean x1 \<longrightarrow> answered cands None r t x1"
    using expand_sound(1) [OF x1 Cons.prems(2)] by simp_all
  have r2: "expansion_inv q cands {} x'" "grows_to x1 x'"
    "clean x' \<longrightarrow> (\<forall>r \<in> set rs. \<not> rm_optional r \<longrightarrow>
       (\<exists>e \<in> set cands. meets r e \<and> re_coordinate e \<in> selected_coordinates x'))"
    using Cons.IH [OF run r1(1)] by blast+
  have "\<exists>e \<in> set cands. meets r e \<and> re_coordinate e \<in> selected_coordinates x'"
    if cl: "clean x'" and req: "\<not> rm_optional r"
  proof -
    have "answered cands None r t x'"
      using r1(3) grows_to_clean [OF r2(2) cl] grows_to_answered [OF r2(2)] by blast
    with req show ?thesis by (auto simp: answered_def split: option.splits)
  qed
  with r2 grows_to_trans [OF r1(2) r2(2)] show ?case by auto
qed simp

lemma new_expansion_inv: "expansion_inv q cands {} new_expansion"
  by (simp add: expansion_inv_def graph_inv_def selection_inv_def new_expansion_def new_builder_def
      selected_coordinates_def joined_edges_def)

lemma built_graph:
  assumes "graph_inv x"
  shows "dn_coordinate ` set (gr_nodes (build_graph (xp_builder x))) = selected_coordinates x"
    and "graph_ok (build_graph (xp_builder x))"
    and "edge_rel (build_graph (xp_builder x)) = joined_edges x"
proof -
  let ?b = "xp_builder x"
  have n: "dn_coordinate (snd p) = fst p" if "p \<in> set (gb_nodes ?b)" for p
    using assms that unfolding graph_inv_def by (cases p) auto
  have e: "(de_source (snd p), de_target (snd p)) = fst p" if "p \<in> set (gb_edges ?b)" for p
    using assms that unfolding graph_inv_def by (cases p) auto
  have "dn_coordinate ` snd ` set (gb_nodes ?b) = fst ` set (gb_nodes ?b)"
    unfolding image_image using n by (intro image_cong) simp_all
  then show nodes: "dn_coordinate ` set (gr_nodes (build_graph ?b)) = selected_coordinates x"
    using assms by (simp add: build_graph_def mk_graph_def graph_inv_def)
  have "(\<lambda>e. (de_source e, de_target e)) ` snd ` set (gb_edges ?b) = joined_edges x"
    unfolding image_image joined_edges_def using e by (intro image_cong) simp_all
  then have es: "(\<lambda>e. (de_source e, de_target e)) ` set (gr_edges (build_graph ?b)) = joined_edges x"
    by (simp add: build_graph_def mk_graph_def)
  then show "edge_rel (build_graph ?b) = joined_edges x"
    by (force simp: edge_rel_iff)
  have "\<forall>e \<in> set (gr_edges (build_graph ?b)). (de_source e, de_target e) \<in> joined_edges x"
    using es by blast
  then show "graph_ok (build_graph ?b)"
    using assms unfolding graph_ok_def nodes by (auto simp: graph_inv_def)
qed

lemma add_cycle_issues_mono: "set issues \<subseteq> set (add_cycle_issues cys issues)"
proof (induction cys arbitrary: issues)
  case (Cons a cys)
  let ?is = "if cycle_issue a \<in> set issues then issues else issues @ [cycle_issue a]"
  have "set issues \<subseteq> set ?is" by auto
  also have "\<dots> \<subseteq> set (add_cycle_issues cys ?is)" by (rule Cons.IH)
  finally show ?case by simp
qed simp

lemma add_cycle_issues_all: "cy \<in> set cys \<Longrightarrow> cycle_issue cy \<in> set (add_cycle_issues cys issues)"
proof (induction cys arbitrary: issues)
  case (Cons a cys)
  show ?case
  proof (cases "cy = a")
    case True
    let ?is = "if cycle_issue a \<in> set issues then issues else issues @ [cycle_issue a]"
    have "cycle_issue cy \<in> set ?is" by (simp add: True)
    also have "\<dots> \<subseteq> set (add_cycle_issues cys ?is)" by (rule add_cycle_issues_mono)
    finally show ?thesis by simp
  qed (use Cons in auto)
qed simp

lemma fatal_cycle_issue: "fatal_issue (cycle_issue cy)"
  by (simp add: fatal_issue_def cycle_issue_def mk_resolution_issue_def)

lemma resolve_request_cases:
  assumes "resolution_source (qr_snapshot q) = Inr cands" "resolve_request q = Some (Inr v)"
  obtains x where "expand_roots (resolve_fuel cands) q cands (request_roots q) new_expansion = Some (Inr x)"
    "finish_resolution q x = Some v"
  using assms by (auto simp: resolve_request_def split: option.splits sum.splits)

lemma finish_resolved:
  assumes "finish_resolution q x = Some v" "rr_status v = RS_RESOLVED"
  shows "clean x" "graph_cycles (build_graph (xp_builder x)) = []"
    "topological_order (build_graph (xp_builder x)) = Some (rr_order v)"
    "rr_graph v = build_graph (xp_builder x)" "set (rr_selected v) = selected_coordinates x"
proof -
  let ?g = "build_graph (xp_builder x)" and ?is = "add_cycle_issues (graph_cycles (build_graph (xp_builder x))) (xp_issues x)"
  have st: "filter fatal_issue ?is = []"
    using assms by (auto simp: finish_resolution_def Let_def result_status_def split: if_splits)
  then show "clean x"
    using add_cycle_issues_mono [of "xp_issues x" "graph_cycles ?g"]
    by (auto simp: filter_empty_conv clean_def)
  show "graph_cycles ?g = []"
  proof (rule ccontr)
    assume "graph_cycles ?g \<noteq> []"
    then have "cycle_issue (hd (graph_cycles ?g)) \<in> set ?is" by (simp add: add_cycle_issues_all)
    with st fatal_cycle_issue show False by (auto simp: filter_empty_conv)
  qed
  have "\<not> list_ex (\<lambda>i. ri_code i = CYCLE_DETECTED) ?is"
    using st by (auto simp: filter_empty_conv list_ex_iff fatal_issue_def)
  with assms(1) have "topological_order ?g = Some (rr_order v) \<and> rr_graph v = ?g
      \<and> rr_selected v = sort_key dep_key (map fst (xp_selected x))"
    by (auto simp: finish_resolution_def Let_def)
  then show "topological_order ?g = Some (rr_order v)" "rr_graph v = ?g"
    "set (rr_selected v) = selected_coordinates x"
    by (simp_all add: selected_coordinates_def)
qed


lemma resolved_sound_core:
  assumes "resolution_source (qr_snapshot q) = Inr cands" "resolve_request q = Some (Inr v)"
    and "rr_status v = RS_RESOLVED"
  obtains x where "expansion_inv q cands {} x" "clean x" "set (rr_selected v) = selected_coordinates x"
    "rr_graph v = build_graph (xp_builder x)" "graph_cycles (rr_graph v) = []"
    "topological_order (rr_graph v) = Some (rr_order v)"
    "\<forall>r \<in> set (request_roots q). \<not> rm_optional r \<longrightarrow>
       (\<exists>e \<in> set cands. meets r e \<and> re_coordinate e \<in> set (rr_selected v))"
proof -
  obtain x where x: "expand_roots (resolve_fuel cands) q cands (request_roots q) new_expansion = Some (Inr x)"
    "finish_resolution q x = Some v"
    using resolve_request_cases [OF assms(1,2)] by blast
  note s = expand_roots_sound [OF x(1) new_expansion_inv] and f = finish_resolved [OF x(2) assms(3)]
  show ?thesis by (rule that [of x]) (use s f in simp_all)
qed

text \<open>C17: a result with status RESOLVED is sound: every required root has a selected candidate that meets
  it; every selected coordinate belongs to a candidate that agrees with the explicit target versions and
  each of whose required dependencies is met by a selected candidate to which the graph has an edge; the
  order lists the selected coordinates once each and every dependency before its dependents.\<close>

theorem resolved_result_sound:
  assumes "resolution_source (qr_snapshot q) = Inr cands" "resolve_request q = Some (Inr v)"
    and "rr_status v = RS_RESOLVED"
  shows "(\<forall>r \<in> set (request_roots q). \<not> rm_optional r \<longrightarrow>
      (\<exists>e \<in> set cands. meets r e \<and> re_coordinate e \<in> set (rr_selected v)))
    \<and> (\<forall>c \<in> set (rr_selected v). \<exists>e \<in> set cands. re_coordinate e = c
        \<and> compatible_with (qr_targets q) e
        \<and> (\<forall>d \<in> set (entry_requirements (re_dependencies e)). \<not> rm_optional d \<longrightarrow>
            (\<exists>f \<in> set cands. meets d f \<and> re_coordinate f \<in> set (dependencies_of (rr_graph v) c))))
    \<and> distinct (rr_order v) \<and> set (rr_order v) = set (rr_selected v)
    \<and> (\<forall>xs c ys. rr_order v = xs @ c # ys \<longrightarrow> set (dependencies_of (rr_graph v) c) \<subseteq> set xs)"
proof -
  obtain x where x: "expansion_inv q cands {} x" "clean x" "set (rr_selected v) = selected_coordinates x"
    "rr_graph v = build_graph (xp_builder x)" "graph_cycles (rr_graph v) = []"
    "topological_order (rr_graph v) = Some (rr_order v)"
    "\<forall>r \<in> set (request_roots q). \<not> rm_optional r \<longrightarrow>
       (\<exists>e \<in> set cands. meets r e \<and> re_coordinate e \<in> set (rr_selected v))"
    using resolved_sound_core [OF assms] by blast
  have inv: "graph_inv x" "selection_inv q cands {} x" using x(1) by (simp_all add: expansion_inv_def)
  note g = built_graph [OF inv(1), folded x(4)]
  have deps: "\<exists>e \<in> set cands. re_coordinate e = c \<and> compatible_with (qr_targets q) e
        \<and> (\<forall>d \<in> set (entry_requirements (re_dependencies e)). \<not> rm_optional d \<longrightarrow>
            (\<exists>f \<in> set cands. meets d f \<and> re_coordinate f \<in> set (dependencies_of (rr_graph v) c)))"
    if c: "c \<in> set (rr_selected v)" for c
  proof -
    have "map_of (xp_selected x) c \<noteq> None" using c by (simp add: x(3) selected_map_of)
    then obtain e where e: "map_of (xp_selected x) c = Some e" by blast
    have edge: "b \<in> set (dependencies_of (rr_graph v) c)" if "(c, b) \<in> joined_edges x" for b
      using that unfolding g(3) [symmetric] by (simp add: edge_rel_def)
    have "e \<in> set cands \<and> re_coordinate e = c \<and> compatible_with (qr_targets q) e
      \<and> (\<forall>d \<in> set (entry_requirements (re_dependencies e)). \<not> rm_optional d \<longrightarrow> satisfied cands x c d)"
      using inv(2) e x(2) unfolding selection_inv_def by blast
    then show ?thesis using edge unfolding satisfied_def by blast
  qed
  from topological_order_correct [OF x(5,6)]
  have "deps_first (rr_graph v) (rr_order v)" "selected_coordinates x \<subseteq> set (rr_order v)"
    unfolding g(1) .
  moreover have "set (rr_order v) \<subseteq> selected_coordinates x"
    using topological_order_nodes [OF g(2) x(6)] g(1) by simp
  ultimately show ?thesis using deps x(3,7) unfolding deps_first_def by blast
qed


definition sample_dep_entry :: "string \<Rightarrow> string list \<Rightarrow> reg_entry" where
  "sample_dep_entry k ds = \<lparr>re_id = k, re_coordinate = sample_coordinate k, re_publication = k,
     re_manifest = sample_manifest k k (sample_version 1), re_publisher = sample_publisher,
     re_category = CAT_TOOL,
     re_dependencies = map (\<lambda>d. \<lparr>dp_package = d, dp_constraint = None, dp_required = True\<rparr>) ds,
     re_compatibility = mf_compatibility (sample_manifest k k (sample_version 1)), re_tags = [],
     re_status = RG_ACTIVE, re_metadata = []\<rparr>"

definition sample_resolution :: resolution_request where
  "sample_resolution = \<lparr>qr_snapshot = From_Source [sample_dep_entry ''b'' [], sample_dep_entry ''a'' [''b'']],
     qr_coordinates = [], qr_requirements = [sample_requirement ''a''], qr_strategy = DETERMINISTIC_FIRST,
     qr_targets = [], qr_optional = False, qr_metadata = []\<rparr>"

text \<open>What simp needs to run the resolver on concrete entries.\<close>

lemmas resolver_eval = resolve_request_def resolution_source_def request_roots_def sample_requirement_def
  resolve_fuel_def choose_entry_def sample_dep_entry_def sample_manifest_def note_requirement_def
  matches_version_def sample_version_def Let_def new_expansion_def str_or_def dict_get_def pick_def
  entry_requirements_def admit_def add_node_def new_builder_def link_def add_edge_def
  compatibility_issues_def add_explanation_def sample_coordinate_def finish_resolution_def
  build_graph_def mk_graph_def graph_cycles_def cycle_visit.simps dependencies_of_def result_status_def
  topological_order_def topo_fuel_def dep_key_def pre_text_def edge_key_def
  add_issue_def mk_resolution_issue_def not_found_def fatal_issue_def duplicate_key_def

lemma sample_resolution_runs:
  "\<exists>v. resolve_request sample_resolution = Some (Inr v) \<and> rr_status v = RS_RESOLVED
     \<and> map co_package (rr_order v) = [''b'', ''a'']"
  by (simp add: resolver_eval sample_resolution_def)

lemma candidate_choice_best_witness:
  "\<exists>e x. choose_entry HIGHEST_COMPATIBLE [sample_dep_entry ''a'' [''b'']] (sample_requirement ''a'')
       new_expansion = Inr (Some e, x) \<and> meets (sample_requirement ''a'') e"
proof -
  obtain e x where "choose_entry HIGHEST_COMPATIBLE [sample_dep_entry ''a'' [''b'']] (sample_requirement ''a'')
       new_expansion = Inr (Some e, x)"
    by (simp add: resolver_eval)
  from candidate_choice_best [OF this] this show ?thesis by auto
qed

lemma resolved_result_sound_witness:
  "\<exists>v. resolve_request sample_resolution = Some (Inr v) \<and> distinct (rr_order v)
     \<and> set (rr_order v) = set (rr_selected v)"
proof -
  obtain v where v: "resolve_request sample_resolution = Some (Inr v)" "rr_status v = RS_RESOLVED"
    using sample_resolution_runs by blast
  have src: "resolution_source (qr_snapshot sample_resolution)
      = Inr [sample_dep_entry ''b'' [], sample_dep_entry ''a'' [''b'']]"
    by (simp add: resolution_source_def sample_resolution_def)
  from resolved_result_sound [OF src v] v(1) show ?thesis by blast
qed

subsection \<open>Limits of the resolver\<close>

text \<open>A package with a prerelease version cannot be requested by its exact coordinate: the requirement
  built from the coordinate does not allow prereleases, so no candidate meets it and no result of the
  request is RESOLVED, whatever the registry holds.\<close>

theorem prerelease_coordinate_unresolvable:
  assumes "resolution_source (qr_snapshot q) = Inr cands" "\<forall>e \<in> set cands. version_ok (mf_version (re_manifest e))"
    and "qr_requirements q = []" "c \<in> set (qr_coordinates q)" "version_ok (co_version c)"
    and "pv_prerelease (co_version c) \<noteq> None" "resolve_request q = Some (Inr v)"
  shows "rr_status v \<noteq> RS_RESOLVED"
proof
  assume res: "rr_status v = RS_RESOLVED"
  obtain r where r: "r \<in> set (request_roots q)" "\<not> rm_optional r" "\<not> rm_prerelease r"
      "rm_version r = Some (''=='' @ version_str (co_version c))"
    using assms(3,4) by (force simp: request_roots_def)
  obtain e where e: "e \<in> set cands" "meets r e"
    using resolved_sound_core [OF assms(1,7) res] r(1,2) by blast
  then have ok: "version_ok (mf_version (re_manifest e))" using assms(2) by blast
  have m: "matches_version (mf_version (re_manifest e)) r = Inr True" using e(2) by (simp add: meets_def)
  then have pre: "pv_prerelease (mf_version (re_manifest e)) = None"
    using r(3) by (auto simp: matches_version_def split: if_splits)
  with m have "version_str (mf_version (re_manifest e)) = version_str (co_version c)"
    by (simp add: matches_version_def r(4))
  from version_str_inject [OF ok assms(5) this] pre assms(6) show False by simp
qed


definition rc_version :: package_version where
  "rc_version = \<lparr>pv_major = 1, pv_minor = 0, pv_patch = 0, pv_prerelease = Some ''rc1''\<rparr>"

definition rc_request :: resolution_request where
  "rc_request = sample_resolution\<lparr>qr_requirements := [],
     qr_snapshot := From_Source [(sample_dep_entry ''a'' [])\<lparr>
       re_coordinate := (sample_coordinate ''a'')\<lparr>co_version := rc_version\<rparr>,
       re_manifest := sample_manifest ''a'' ''a'' rc_version\<rparr>],
     qr_coordinates := [(sample_coordinate ''a'')\<lparr>co_version := rc_version\<rparr>]\<rparr>"

lemma prerelease_coordinate_unresolvable_witness:
  "\<exists>v. resolve_request rc_request = Some (Inr v) \<and> rr_status v \<noteq> RS_RESOLVED"
proof -
  let ?e = "(sample_dep_entry ''a'' [])\<lparr>re_coordinate := (sample_coordinate ''a'')\<lparr>co_version := rc_version\<rparr>,
       re_manifest := sample_manifest ''a'' ''a'' rc_version\<rparr>"
  have ok: "version_ok rc_version" by (simp add: version_ok_def mk_version_def rc_version_def)
  have "\<exists>v. resolve_request rc_request = Some (Inr v)"
    by (simp add: resolver_eval sample_resolution_def rc_request_def rc_version_def sample_publisher_def)
  then obtain v where v: "resolve_request rc_request = Some (Inr v)" by blast
  have "rr_status v \<noteq> RS_RESOLVED"
    by (rule prerelease_coordinate_unresolvable [of rc_request "[?e]"
          "(sample_coordinate ''a'')\<lparr>co_version := rc_version\<rparr>"])
      (use ok v in \<open>simp_all add: rc_request_def resolution_source_def sample_resolution_def rc_version_def
         sample_manifest_def\<close>)
  with v show ?thesis by blast
qed

text \<open>Two dependencies with different constraints on the same package are met by the same candidate, and
  the second edge between the two coordinates is refused: the resolution is aborted by a graph error
  instead of a version conflict in the result.\<close>

definition two_constraints :: resolution_request where
  "two_constraints = sample_resolution\<lparr>qr_snapshot := From_Source [sample_dep_entry ''b'' [],
     (sample_dep_entry ''a'' [])\<lparr>re_dependencies :=
        [\<lparr>dp_package = ''b'', dp_constraint = None, dp_required = True\<rparr>,
         \<lparr>dp_package = ''b'', dp_constraint = Some ''>=1.0.0,<2.0.0'', dp_required = True\<rparr>]\<rparr>]\<rparr>"

lemma two_constraints_raise:
  "resolve_request two_constraints
     = Some (Inl (ResolverGraphError ''Dependency graph edge is duplicated.''))"
  by (simp add: resolver_eval sample_resolution_def two_constraints_def parse_version_def
      py_isdigit_def is_digit_def is_superscript_def parse_digits_def version_key_def)

text \<open>The version key orders a release below the prereleases of the same version.\<close>

lemma release_sorts_below_prerelease:
  assumes "pv_prerelease v = None" "pv_prerelease w = Some p" "p \<noteq> ''''"
    and "(pv_major v, pv_minor v, pv_patch v) = (pv_major w, pv_minor w, pv_patch w)"
  shows "version_key v < version_key w"
  using assms by (cases p) (simp_all add: version_key_def pre_text_def)


subsection \<open>Reading back a version\<close>

lemma split_first_none: "c \<notin> set s \<Longrightarrow> split_first [c] s = None"
  by (induction s) auto

lemma split_first_some: "c \<notin> set s \<Longrightarrow> split_first [c] (s @ c # t) = Some (s, t)"
  by (induction s) auto

lemma split_on_none: "c \<notin> set s \<Longrightarrow> split_on c s = [s]"
  by (induction s) auto

lemma split_on_some: "c \<notin> set s \<Longrightarrow> split_on c (s @ c # t) = s # split_on c t"
  by (induction s) auto

lemma digits_no_sep: "\<not> is_digit c \<Longrightarrow> c \<notin> set (digits n)"
  using digits_digits by blast

lemma digit_no_superscript: "is_digit c \<Longrightarrow> \<not> is_superscript c"
  by (auto simp: is_digit_def is_superscript_def)

lemma digits_isdigit: "py_isdigit (digits n)"
  using digits_digits by (auto simp: py_isdigit_def list_all_iff)

lemma digits_no_superscript: "\<not> list_ex is_superscript (digits n)"
  using digits_digits digit_no_superscript by (auto simp: list_ex_iff)

text \<open>The parser of version bounds reads back the text of every version: the result is the key by
  which the version is compared, the prerelease included.\<close>

theorem version_text_roundtrip:
  assumes "version_ok v"
  shows "parse_version (version_str v) = Inr (version_key v)"
proof -
  have nn: "0 \<le> pv_major v" "0 \<le> pv_minor v" "0 \<le> pv_patch v"
    using assms by (auto simp: version_ok_def mk_version_def split: if_splits)
  let ?ds = "\<lambda>i. digits (nat i)"
  let ?main = "?ds (pv_major v) @ CHR ''.'' # ?ds (pv_minor v) @ CHR ''.'' # ?ds (pv_patch v)"
  have main: "CHR ''-'' \<notin> set ?main" by (simp add: digits_no_sep)
  have parts: "split_on CHR ''.'' ?main = [?ds (pv_major v), ?ds (pv_minor v), ?ds (pv_patch v)]"
    by (simp add: split_on_some split_on_none digits_no_sep)
  have "(case split_first ''-'' (version_str v) of None \<Rightarrow> (version_str v, '''') | Some (a, b) \<Rightarrow> (a, b))
      = (?main, pre_text v)"
  proof (cases "pv_prerelease v")
    case None
    then have "version_str v = ?main" using nn by (simp add: version_str_def str_int_digits)
    with main None show ?thesis by (simp add: split_first_none pre_text_def)
  next
    case (Some p)
    then have "version_str v = ?main @ CHR ''-'' # p" using nn by (simp add: version_str_def str_int_digits)
    with split_first_some [OF main, of p] Some show ?thesis by (simp add: pre_text_def)
  qed
  then show ?thesis
    using nn by (simp add: parse_version_def parts digits_isdigit digits_no_superscript version_key_def)
qed

lemma version_text_roundtrip_witness:
  "parse_version (version_str rc_version) = Inr (1, 0, 0, ''rc1'')"
  using version_text_roundtrip [of rc_version]
  by (simp add: version_ok_def mk_version_def rc_version_def version_key_def pre_text_def)

end
