(* ===== verification/Installer.thy ===== *)
theory Installer
  imports Resolver
begin

text \<open>
  The reference installer (\<open>src/marketplace/installer\<close>): the store of installed records, the plan of an
  installation, the transaction that installs it, rollback, cancellation, snapshots and statistics. An
  operation that raises after it changed the service returns the error with the changed state. An
  installation id is its text. The float \<open>success_rate\<close> is not modelled.

  The theorems are about calls one after the other. \<open>install\<close>, \<open>rollback\<close> and \<open>cancel\<close> hold the lock of
  the service, but the store is changed record by record, under a lock of its own for each record:
  whoever reads the store, or \<open>snapshot\<close> and \<open>list\<close> of the service, which take no lock of it, can see
  an installation half done, and a caller who writes to the store can come between its steps.
\<close>

subsection \<open>Models\<close>

datatype installer_error =
    Installer_ValueError string
  | Installer_RuntimeError string
  | InstallerValidationError string
  | InstallerConflictError string
  | InstallerNotFoundError string
  | InstallerStateError string
  | InstallerClosedError string

datatype install_status =
    IS_PENDING | IS_PLANNED | IS_RUNNING | IS_SUCCEEDED | IS_FAILED | IS_ROLLED_BACK | IS_CANCELLED

fun install_status_value :: "install_status \<Rightarrow> string" where
  "install_status_value IS_PENDING = ''pending''"
| "install_status_value IS_PLANNED = ''planned''"
| "install_status_value IS_RUNNING = ''running''"
| "install_status_value IS_SUCCEEDED = ''succeeded''"
| "install_status_value IS_FAILED = ''failed''"
| "install_status_value IS_ROLLED_BACK = ''rolled_back''"
| "install_status_value IS_CANCELLED = ''cancelled''"

datatype install_step_type = SP_VALIDATE | SP_PREPARE | SP_INSTALL | SP_VERIFY | SP_FINALIZE | SP_ROLLBACK

datatype install_strategy = FRESH | REINSTALL | UPGRADE | DOWNGRADE | DRY_RUN

datatype install_event_type =
    EV_PLANNED | EV_STARTED | EV_STEP_COMPLETED | EV_SUCCEEDED | EV_FAILED | EV_CANCELLED
  | EV_ROLLBACK_STARTED | EV_ROLLED_BACK | EV_CLEARED | EV_CLOSED

datatype install_issue_code =
    INVALID_RESOLUTION | INVALID_REQUEST | PACKAGE_ALREADY_INSTALLED | INSTALL_VERSION_CONFLICT
  | REINSTALL_NOT_ALLOWED | INVALID_PLAN | INVALID_STATE | TRANSACTION_FAILED | VERIFICATION_FAILED
  | ROLLBACK_FAILED | INSTALLATION_CANCELLED

type_synonym install_id = string

definition mk_install_id :: "string \<Rightarrow> installer_error + install_id" where
  "mk_install_id v = (if v = '''' then Inl (Installer_ValueError ''Installation id must not be empty.'') else Inr v)"

record install_request =
  iq_id :: install_id
  iq_resolution :: resolution_result
  iq_roots :: "coordinate list"
  iq_strategy :: install_strategy
  iq_reinstall :: bool
  iq_upgrade :: bool
  iq_downgrade :: bool
  iq_prerelease :: bool
  iq_metadata :: "(string, market_value) dict"

definition check_install_request :: "install_request \<Rightarrow> installer_error + install_request" where
  "check_install_request r =
     (if rr_status (iq_resolution r) \<noteq> RS_RESOLVED
      then Inl (Installer_ValueError ''Installation requires a resolved ResolutionResult.'')
      else Inr r)"

record install_step =
  it_type :: install_step_type
  it_coordinate :: "coordinate option"

record install_issue =
  ie_code :: install_issue_code
  ie_message :: string
  ie_id :: install_id
  ie_coordinate :: "coordinate option"

record install_plan =
  ip_id :: install_id
  ip_selected :: "coordinate list"
  ip_order :: "coordinate list"
  ip_steps :: "install_step list"
  ip_strategy :: install_strategy
  ip_issues :: "install_issue list"

record installed_record =
  ir_coordinate :: coordinate
  ir_id :: install_id

record install_session =
  ss_id :: install_id
  ss_status :: install_status
  ss_plan :: install_plan
  ss_issues :: "install_issue list"

record install_result =
  rs_session :: install_session
  rs_installed :: "installed_record list"

record install_event =
  ev_sequence :: nat
  ev_type :: install_event_type
  ev_id :: install_id
  ev_coordinate :: "coordinate option"

datatype transaction_state = TX_CREATED | TX_PREPARED | TX_COMMITTED | TX_ABORTED | TX_ROLLED_BACK

record transaction =
  tx_id :: install_id
  tx_state :: transaction_state

datatype rollback_state = RB_PENDING | RB_COMPLETED | RB_FAILED
datatype rollback_strategy = REMOVE_RECORDS

record rollback_plan =
  rp_id :: install_id
  rp_records :: "installed_record list"
  rp_strategy :: rollback_strategy

record rollback_result =
  rb_plan :: rollback_plan
  rb_state :: rollback_state

subsection \<open>Lifecycle\<close>

definition lc_allowed :: "install_status \<Rightarrow> install_status list" where
  "lc_allowed s =
     (case s of
        IS_PENDING \<Rightarrow> [IS_PLANNED]
      | IS_PLANNED \<Rightarrow> [IS_RUNNING, IS_CANCELLED]
      | IS_RUNNING \<Rightarrow> [IS_SUCCEEDED, IS_FAILED, IS_CANCELLED]
      | _ \<Rightarrow> [])"

definition lc_can_transition :: "install_status \<Rightarrow> install_status \<Rightarrow> bool" where
  "lc_can_transition a b \<longleftrightarrow> b \<in> set (lc_allowed a)"

definition lc_transition :: "install_status \<Rightarrow> install_status \<Rightarrow> installer_error + install_status" where
  "lc_transition a b =
     (if \<not> lc_can_transition a b
      then Inl (InstallerStateError (''Invalid installation transition: '' @ install_status_value a
             @ '' -> '' @ install_status_value b @ ''.''))
      else Inr b)"

subsection \<open>Store\<close>

record install_store =
  st_items :: "(coordinate, installed_record) dict"
  st_closed :: bool

definition new_store :: install_store where
  "new_store = \<lparr>st_items = [], st_closed = False\<rparr>"

definition store_closed_error :: installer_error where
  "store_closed_error = InstallerClosedError ''Installation store is closed.''"

definition store_add :: "installed_record \<Rightarrow> install_store \<Rightarrow> installer_error + install_store" where
  "store_add r s =
     (if st_closed s then Inl store_closed_error
      else if map_of (st_items s) (ir_coordinate r) \<noteq> None
      then Inl (Installer_ValueError ''Package is already installed.'')
      else Inr (s\<lparr>st_items := AList.update (ir_coordinate r) r (st_items s)\<rparr>))"

definition store_remove :: "coordinate \<Rightarrow> install_store \<Rightarrow> installer_error + install_store" where
  "store_remove c s =
     (if st_closed s then Inl store_closed_error
      else if map_of (st_items s) c = None
      then Inl (InstallerNotFoundError ''Installed package was not found.'')
      else Inr (s\<lparr>st_items := AList.delete c (st_items s)\<rparr>))"

definition store_get :: "coordinate \<Rightarrow> install_store \<Rightarrow> installer_error + installed_record" where
  "store_get c s =
     (case map_of (st_items s) c of
        None \<Rightarrow> Inl (InstallerNotFoundError ''Installed package was not found.'')
      | Some r \<Rightarrow> Inr r)"

definition store_exists :: "coordinate \<Rightarrow> install_store \<Rightarrow> bool" where
  "store_exists c s \<longleftrightarrow> map_of (st_items s) c \<noteq> None"

definition store_list :: "install_store \<Rightarrow> installed_record list" where
  "store_list s = map (\<lambda>c. the (map_of (st_items s) c)) (sort_key dep_key (map fst (st_items s)))"

definition store_clear :: "install_store \<Rightarrow> installer_error + install_store" where
  "store_clear s = (if st_closed s then Inl store_closed_error else Inr (s\<lparr>st_items := []\<rparr>))"

definition store_close :: "install_store \<Rightarrow> install_store" where
  "store_close s = s\<lparr>st_closed := True\<rparr>"

text \<open>The loops of the service over a store, for any operations that add and remove.\<close>

fun add_missing ::
  "('r \<Rightarrow> 's \<Rightarrow> 'e + 's) \<Rightarrow> ('r \<Rightarrow> 'k) \<Rightarrow> 'k set \<Rightarrow> 'r list \<Rightarrow> 's \<Rightarrow> 'k list \<Rightarrow> 'e option \<times> 'k list \<times> 's" where
  "add_missing add key existing [] s added = (None, added, s)"
| "add_missing add key existing (x # xs) s added =
     (if key x \<in> existing then add_missing add key existing xs s added
      else case add x s of
             Inl e \<Rightarrow> (Some e, added, s)
           | Inr s' \<Rightarrow> add_missing add key existing xs s' (added @ [key x]))"

fun remove_each :: "('k \<Rightarrow> 's \<Rightarrow> 'e + 's) \<Rightarrow> 'k list \<Rightarrow> 's \<Rightarrow> 'e option \<times> 's" where
  "remove_each remove [] s = (None, s)"
| "remove_each remove (k # ks) s =
     (case remove k s of Inl e \<Rightarrow> (Some e, s) | Inr s' \<Rightarrow> remove_each remove ks s')"

fun remove_present ::
  "('k \<Rightarrow> 's \<Rightarrow> bool) \<Rightarrow> ('k \<Rightarrow> 's \<Rightarrow> 'e + 's) \<Rightarrow> 'k list \<Rightarrow> 's \<Rightarrow> 'e option \<times> 's" where
  "remove_present there remove [] s = (None, s)"
| "remove_present there remove (k # ks) s =
     (if there k s
      then (case remove k s of Inl e \<Rightarrow> (Some e, s) | Inr s' \<Rightarrow> remove_present there remove ks s')
      else remove_present there remove ks s)"


subsection \<open>What the service relies on in a store\<close>

definition extended_by ::
  "('r \<Rightarrow> 'k) \<Rightarrow> 'r list \<Rightarrow> 'k list \<Rightarrow> ('k \<Rightarrow> 'r option) \<Rightarrow> ('k \<Rightarrow> 'r option) \<Rightarrow> bool" where
  "extended_by key xs news v v' \<longleftrightarrow>
     (\<forall>k. if k \<in> set news then v k = None \<and> (\<exists>x \<in> set xs. v' k = Some x \<and> key x = k) else v' k = v k)"

lemma extended_by_Nil: "extended_by key xs [] v v"
  by (simp add: extended_by_def)

lemma extended_by_new:
  assumes "extended_by key xs news v v'" "k \<in> set news"
  shows "v k = None \<and> k \<in> key ` set xs \<and> v' k \<noteq> None"
proof -
  have "v k = None \<and> (\<exists>x \<in> set xs. v' k = Some x \<and> key x = k)"
    using assms unfolding extended_by_def by meson
  then show ?thesis by auto
qed

lemma extended_by_old: "extended_by key xs news v v' \<Longrightarrow> k \<notin> set news \<Longrightarrow> v' k = v k"
  unfolding extended_by_def by meson

lemma extended_by_mono: "extended_by key xs news v v' \<Longrightarrow> extended_by key (x # xs) news v v'"
  unfolding extended_by_def by (metis list.set_intros(2))

lemma extended_by_Cons:
  assumes "v (key x) = None" "extended_by key xs news (v(key x \<mapsto> x)) v'"
  shows "extended_by key (x # xs) (key x # news) v v'"
  unfolding extended_by_def
proof
  fix k
  have k: "if k \<in> set news then (v(key x \<mapsto> x)) k = None \<and> (\<exists>x \<in> set xs. v' k = Some x \<and> key x = k)
      else v' k = (v(key x \<mapsto> x)) k"
    using assms(2) unfolding extended_by_def by blast
  show "if k \<in> set (key x # news) then v k = None \<and> (\<exists>y \<in> set (x # xs). v' k = Some y \<and> key y = k)
      else v' k = v k"
    using k assms(1) by (cases "k = key x"; cases "k \<in> set news") auto
qed

locale record_store =
  fixes view :: "'s \<Rightarrow> 'k \<Rightarrow> 'r option"
    and accepting :: "'s \<Rightarrow> bool"
    and key :: "'r \<Rightarrow> 'k"
    and add :: "'r \<Rightarrow> 's \<Rightarrow> 'e + 's"
    and remove :: "'k \<Rightarrow> 's \<Rightarrow> 'e + 's"
    and there :: "'k \<Rightarrow> 's \<Rightarrow> bool"
  assumes add_view: "add x s = Inr s' \<Longrightarrow>
      accepting s \<and> accepting s' \<and> view s (key x) = None \<and> view s' = (view s)(key x \<mapsto> x)"
    and add_accepted: "accepting s \<Longrightarrow> view s (key x) = None \<Longrightarrow> \<exists>s'. add x s = Inr s'"
    and remove_view: "remove k s = Inr s' \<Longrightarrow> accepting s' \<and> view s' = (view s)(k := None)"
    and remove_accepted: "accepting s \<Longrightarrow> view s k \<noteq> None \<Longrightarrow> \<exists>s'. remove k s = Inr s'"
    and there_view: "there k s \<longleftrightarrow> view s k \<noteq> None"
begin

lemma remove_each_accepted:
  "\<lbrakk>accepting s; distinct ks; \<forall>k \<in> set ks. view s k \<noteq> None\<rbrakk> \<Longrightarrow>
     \<exists>s'. remove_each remove ks s = (None, s') \<and> view s' = (\<lambda>k. if k \<in> set ks then None else view s k)"
proof (induction ks arbitrary: s)
  case (Cons k ks)
  have "view s k \<noteq> None" using Cons.prems(3) by simp
  then obtain s1 where s1: "remove k s = Inr s1" using remove_accepted [OF Cons.prems(1)] by blast
  with remove_view have v: "accepting s1" "view s1 = (view s)(k := None)" by blast+
  have "distinct ks" "\<forall>j \<in> set ks. view s1 j \<noteq> None" using Cons.prems(2,3) by (auto simp: v(2))
  from Cons.IH [OF v(1) this] obtain s' where
    "remove_each remove ks s1 = (None, s')" "view s' = (\<lambda>k. if k \<in> set ks then None else view s1 k)"
    by blast
  with s1 v(2) show ?case by (auto simp: fun_eq_iff)
qed simp

lemma add_missing_steps:
  "\<lbrakk>add_missing add key existing xs s added = (err, added', s'); distinct added;
    \<forall>k \<in> set added. view s k \<noteq> None\<rbrakk> \<Longrightarrow>
     \<exists>news. added' = added @ news \<and> distinct added' \<and> extended_by key xs news (view s) (view s')
       \<and> (news \<noteq> [] \<longrightarrow> accepting s') \<and> (accepting s \<longrightarrow> accepting s')
       \<and> (err = None \<longrightarrow> key ` set xs \<subseteq> existing \<union> set news)"
proof (induction xs arbitrary: s added)
  case (Cons x xs)
  show ?case
  proof (cases "key x \<in> existing")
    case True
    with Cons.prems(1) have "add_missing add key existing xs s added = (err, added', s')" by simp
    from Cons.IH [OF this Cons.prems(2,3)] obtain news where n:
      "added' = added @ news" "distinct added'" "extended_by key xs news (view s) (view s')"
      "news \<noteq> [] \<longrightarrow> accepting s'" "accepting s \<longrightarrow> accepting s'"
      "err = None \<longrightarrow> key ` set xs \<subseteq> existing \<union> set news" by blast
    show ?thesis by (rule exI [of _ news]) (use n True extended_by_mono [OF n(3), of x] in simp)
  next
    case False
    show ?thesis
    proof (cases "add x s")
      case (Inl e)
      with Cons.prems(1) False have "err = Some e" "added' = added" "s' = s" by simp_all
      then show ?thesis by (intro exI [of _ "[]"]) (use Cons.prems(2) in \<open>simp add: extended_by_Nil\<close>)
    next
      case (Inr s1)
      from add_view [OF Inr] have v: "accepting s1" "view s (key x) = None" "view s1 = (view s)(key x \<mapsto> x)"
        by blast+
      have run: "add_missing add key existing xs s1 (added @ [key x]) = (err, added', s')"
        using Cons.prems(1) False Inr by simp
      have d: "distinct (added @ [key x])" "\<forall>k \<in> set (added @ [key x]). view s1 k \<noteq> None"
        using Cons.prems(2,3) v(2,3) by auto
      from Cons.IH [OF run d] obtain news where n:
        "added' = (added @ [key x]) @ news" "distinct added'" "extended_by key xs news (view s1) (view s')"
        "accepting s'" "err = None \<longrightarrow> key ` set xs \<subseteq> existing \<union> set news"
        using v(1) by blast
      show ?thesis
        by (rule exI [of _ "key x # news"])
          (use n v extended_by_Cons [OF v(2) n(3) [unfolded v(3)]] in auto)
    qed
  qed
qed (simp add: extended_by_Nil)

text \<open>Undoing the additions of a loop that failed restores the store.\<close>

lemma failed_additions_undone:
  assumes "add_missing add key existing xs s [] = (Some e, added, s1)"
  shows "\<exists>s2. remove_each remove added s1 = (None, s2) \<and> view s2 = view s"
proof -
  from add_missing_steps [OF assms] have n: "distinct added" "extended_by key xs added (view s) (view s1)"
    "added \<noteq> [] \<longrightarrow> accepting s1" by auto
  show ?thesis
  proof (cases "added = []")
    case True
    have "view s1 = view s" using extended_by_old [OF n(2)] True by auto
    with True show ?thesis by simp
  next
    case False
    have "\<forall>k \<in> set added. view s1 k \<noteq> None" using extended_by_new [OF n(2)] by blast
    with n False remove_each_accepted [of s1 added] obtain s2 where
      s2: "remove_each remove added s1 = (None, s2)" "view s2 = (\<lambda>k. if k \<in> set added then None else view s1 k)"
      by blast
    have "view s2 k = view s k" for k
      using extended_by_new [OF n(2), of k] extended_by_old [OF n(2), of k] by (simp add: s2(2))
    then have "view s2 = view s" ..
    with s2(1) show ?thesis by blast
  qed
qed

lemma additions_complete:
  assumes "add_missing add key (dom (view s)) xs s [] = (None, added, s1)"
  shows "extended_by key xs added (view s) (view s1)" "set added = key ` set xs - dom (view s)"
proof -
  from add_missing_steps [OF assms] have n: "extended_by key xs added (view s) (view s1)"
    "key ` set xs \<subseteq> dom (view s) \<union> set added" by simp_all
  show "extended_by key xs added (view s) (view s1)" by (rule n(1))
  have "k \<in> key ` set xs - dom (view s)" if "k \<in> set added" for k
    using extended_by_new [OF n(1) that] by (simp add: domIff)
  then show "set added = key ` set xs - dom (view s)" using n(2) by (intro equalityI subsetI) auto
qed

lemma remove_present_view:
  "accepting s \<Longrightarrow> \<exists>s'. remove_present there remove ks s = (None, s') \<and> accepting s'
     \<and> view s' = (\<lambda>k. if k \<in> set ks then None else view s k)"
proof (induction ks arbitrary: s)
  case (Cons k ks)
  show ?case
  proof (cases "there k s")
    case True
    then have "view s k \<noteq> None" by (simp add: there_view)
    then obtain s1 where s1: "remove k s = Inr s1" using remove_accepted [OF Cons.prems] by blast
    from remove_view [OF s1] have v: "accepting s1" "view s1 = (view s)(k := None)" by simp_all
    from Cons.IH [OF v(1)] obtain s' where s': "remove_present there remove ks s1 = (None, s')" "accepting s'"
      "view s' = (\<lambda>k. if k \<in> set ks then None else view s1 k)" by blast
    then have "view s' = (\<lambda>j. if j \<in> set (k # ks) then None else view s j)" by (simp add: v(2) fun_eq_iff)
    with s' True s1 show ?thesis by simp
  next
    case False
    then have "view s k = None" by (simp add: there_view)
    with Cons.IH [OF Cons.prems] False show ?thesis by (auto simp: fun_eq_iff)
  qed
qed simp

end

interpretation installs: record_store "\<lambda>s. map_of (st_items s)" "\<lambda>s. \<not> st_closed s" ir_coordinate
    store_add store_remove store_exists
  by unfold_locales (auto simp: store_add_def store_remove_def store_exists_def split: if_splits)


subsection \<open>Service\<close>

record installer =
  ns_store :: install_store
  ns_sessions :: "(string, install_session) dict"
  ns_closed :: bool
  ns_transactions :: "(string, transaction) dict"
  ns_rollbacks :: "rollback_result list"
  ns_events :: "install_event list"

definition new_installer :: "install_store option \<Rightarrow> installer" where
  "new_installer st = \<lparr>ns_store = (case st of None \<Rightarrow> new_store | Some s \<Rightarrow> s), ns_sessions = [],
     ns_closed = False, ns_transactions = [], ns_rollbacks = [], ns_events = []\<rparr>"

definition installer_closed_error :: installer_error where
  "installer_closed_error = InstallerClosedError ''Installer service is closed.''"

definition session_not_found :: installer_error where
  "session_not_found = InstallerNotFoundError ''Installation session was not found.''"

definition in_emit :: "install_event_type \<Rightarrow> install_id \<Rightarrow> installer \<Rightarrow> installer" where
  "in_emit t i s = s\<lparr>ns_events := ns_events s @
     [\<lparr>ev_sequence = length (ns_events s) + 1, ev_type = t, ev_id = i, ev_coordinate = None\<rparr>]\<rparr>"

definition set_transaction :: "install_id \<Rightarrow> install_id \<Rightarrow> transaction_state \<Rightarrow> installer \<Rightarrow> installer" where
  "set_transaction k i t s =
     s\<lparr>ns_transactions := AList.update k \<lparr>tx_id = i, tx_state = t\<rparr> (ns_transactions s)\<rparr>"

definition installation_source ::
  "resolution_result \<Rightarrow> installer_error + coordinate list \<times> coordinate list" where
  "installation_source v =
     (if rr_status v \<noteq> RS_RESOLVED
      then Inl (InstallerValidationError ''Installation requires a resolved ResolutionResult.'')
      else Inr (rr_selected v, rr_order v))"

definition plan_steps :: "coordinate list \<Rightarrow> install_step list" where
  "plan_steps cs =
     [\<lparr>it_type = SP_VALIDATE, it_coordinate = None\<rparr>, \<lparr>it_type = SP_PREPARE, it_coordinate = None\<rparr>]
     @ map (\<lambda>c. \<lparr>it_type = SP_INSTALL, it_coordinate = Some c\<rparr>) cs
     @ [\<lparr>it_type = SP_FINALIZE, it_coordinate = None\<rparr>]"

definition in_plan :: "install_request \<Rightarrow> installer \<Rightarrow> installer_error + install_plan" where
  "in_plan r s =
     (if ns_closed s then Inl installer_closed_error
      else case installation_source (iq_resolution r) of
             Inl e \<Rightarrow> Inl e
           | Inr (cs, order) \<Rightarrow>
               if iq_roots r \<noteq> [] \<and> iq_roots r \<noteq> cs
               then Inl (Installer_ValueError ''Requested roots must match resolved coordinates.'')
               else Inr \<lparr>ip_id = iq_id r, ip_selected = cs, ip_order = order, ip_steps = plan_steps order,
                         ip_strategy = iq_strategy r, ip_issues = []\<rparr>)"

definition plan_records :: "install_id \<Rightarrow> install_plan \<Rightarrow> installed_record list" where
  "plan_records i p = map (\<lambda>c. \<lparr>ir_coordinate = c, ir_id = i\<rparr>) (ip_order p)"

definition verify_installation :: "install_plan \<Rightarrow> install_result \<Rightarrow> installed_record list \<Rightarrow> bool" where
  "verify_installation p v records \<longleftrightarrow>
     install_status_value (ss_status (rs_session v)) = ''succeeded''
     \<and> ip_order p = map ir_coordinate records \<and> rs_installed v = records"

text \<open>The body of the transaction: nothing for a dry run; otherwise the conflict check and the additions,
  undone when one of them raises.\<close>

definition apply_records ::
  "install_request \<Rightarrow> installed_record list \<Rightarrow> installer \<Rightarrow> installer_error option \<times> installer" where
  "apply_records r records s =
     (if iq_strategy r = DRY_RUN then (None, s)
      else
        let existing = ir_coordinate ` set (store_list (ns_store s)) in
        if (\<exists>x \<in> set records. ir_coordinate x \<in> existing) \<and> \<not> iq_reinstall r
        then (Some (InstallerConflictError ''Package is already installed.''), s)
        else
          let s1 = set_transaction (iq_id r) (iq_id r) TX_PREPARED s in
          case add_missing store_add ir_coordinate existing records (ns_store s1) [] of
            (None, _, st) \<Rightarrow> (None, s1\<lparr>ns_store := st\<rparr>)
          | (Some e, added, st) \<Rightarrow>
              (case remove_each store_remove added st of
                 (Some e', st') \<Rightarrow> (Some e', s1\<lparr>ns_store := st'\<rparr>)
               | (None, st') \<Rightarrow>
                   (Some e, in_emit EV_FAILED (iq_id r)
                      (set_transaction (iq_id r) (iq_id r) TX_ABORTED (s1\<lparr>ns_store := st'\<rparr>)))))"

definition commit_session ::
  "install_request \<Rightarrow> install_plan \<Rightarrow> installed_record list \<Rightarrow> installer \<Rightarrow>
     (installer_error + install_result) \<times> installer" where
  "commit_session r p records s =
     (case lc_transition IS_PENDING IS_PLANNED of
        Inl e \<Rightarrow> (Inl e, s)
      | Inr _ \<Rightarrow>
          (case lc_transition IS_PLANNED IS_RUNNING of
             Inl e \<Rightarrow> (Inl e, s)
           | Inr _ \<Rightarrow>
               let session = \<lparr>ss_id = iq_id r, ss_status = IS_SUCCEEDED, ss_plan = p, ss_issues = []\<rparr>;
                   v = \<lparr>rs_session = session, rs_installed = records\<rparr>;
                   s1 = s\<lparr>ns_sessions := AList.update (iq_id r) session (ns_sessions s)\<rparr>
               in if \<not> verify_installation p v records
                  then (Inl (Installer_RuntimeError ''Installation verification failed.''),
                        set_transaction (iq_id r) (iq_id r) TX_ABORTED s1)
                  else (Inr v, in_emit EV_SUCCEEDED (iq_id r)
                                 (set_transaction (iq_id r) (iq_id r) TX_COMMITTED s1))))"

definition in_install :: "install_request \<Rightarrow> installer \<Rightarrow> (installer_error + install_result) \<times> installer" where
  "in_install r s =
     (case in_plan r s of
        Inl e \<Rightarrow> (Inl e, s)
      | Inr p \<Rightarrow>
          let s1 = set_transaction (iq_id r) (iq_id r) TX_CREATED
                     (in_emit EV_STARTED (iq_id r) (in_emit EV_PLANNED (iq_id r) s));
              records = plan_records (iq_id r) p
          in case apply_records r records s1 of
               (Some e, s2) \<Rightarrow> (Inl e, s2)
             | (None, s2) \<Rightarrow> commit_session r p records s2)"

definition in_get :: "install_id \<Rightarrow> installer \<Rightarrow> installer_error + install_session" where
  "in_get i s = (case map_of (ns_sessions s) i of None \<Rightarrow> Inl session_not_found | Some v \<Rightarrow> Inr v)"

definition in_rollback :: "install_id \<Rightarrow> installer \<Rightarrow> (installer_error + rollback_result) \<times> installer" where
  "in_rollback i s =
     (if ns_closed s then (Inl installer_closed_error, s)
      else case in_get i s of
             Inl e \<Rightarrow> (Inl e, s)
           | Inr session \<Rightarrow>
               let k = ss_id session;
                   records = plan_records k (ss_plan session);
                   plan = \<lparr>rp_id = k, rp_records = records, rp_strategy = REMOVE_RECORDS\<rparr>;
                   s1 = in_emit EV_ROLLBACK_STARTED k s
               in case remove_present store_exists store_remove (map ir_coordinate records) (ns_store s1) of
                    (Some e, st) \<Rightarrow> (Inl e, s1\<lparr>ns_store := st\<rparr>)
                  | (None, st) \<Rightarrow>
                      let result = \<lparr>rb_plan = plan, rb_state = RB_COMPLETED\<rparr>;
                          s2 = s1\<lparr>ns_store := st,
                                  ns_sessions := AList.update i \<lparr>ss_id = k, ss_status = IS_ROLLED_BACK,
                                     ss_plan = ss_plan session, ss_issues = []\<rparr> (ns_sessions s1),
                                  ns_rollbacks := ns_rollbacks s1 @ [result]\<rparr>
                      in (Inr result, in_emit EV_ROLLED_BACK k (set_transaction i k TX_ROLLED_BACK s2)))"

definition in_cancel :: "install_id \<Rightarrow> installer \<Rightarrow> (installer_error + install_session) \<times> installer" where
  "in_cancel i s =
     (if ns_closed s then (Inl installer_closed_error, s)
      else case map_of (ns_sessions s) i of
             None \<Rightarrow> (Inl session_not_found, s)
           | Some current \<Rightarrow>
               let session = \<lparr>ss_id = ss_id current, ss_status = IS_CANCELLED, ss_plan = ss_plan current,
                              ss_issues = []\<rparr>
               in (Inr session, s\<lparr>ns_sessions := AList.update i session (ns_sessions s)\<rparr>))"

definition in_list :: "installer \<Rightarrow> install_session list" where
  "in_list s = sorted_values (ns_sessions s)"

record install_statistics =
  sc_total :: nat
  sc_succeeded :: nat
  sc_failed :: nat
  sc_cancelled :: nat
  sc_rolled_back :: nat
  sc_packages :: nat
  sc_publishers :: nat
  sc_versions :: nat

definition in_statistics :: "install_session list \<Rightarrow> installed_record list \<Rightarrow> install_statistics" where
  "in_statistics sessions records =
     (let count = (\<lambda>st. length (filter (\<lambda>v. ss_status v = st) sessions)) in
      \<lparr>sc_total = length sessions, sc_succeeded = count IS_SUCCEEDED, sc_failed = count IS_FAILED,
       sc_cancelled = count IS_CANCELLED, sc_rolled_back = count IS_ROLLED_BACK,
       sc_packages = length records,
       sc_publishers = card ((\<lambda>x. co_publisher (ir_coordinate x)) ` set records),
       sc_versions = card ((\<lambda>x. version_str (co_version (ir_coordinate x))) ` set records)\<rparr>)"

record install_snapshot =
  ns_snap_sessions :: "install_session list"
  ns_snap_records :: "installed_record list"
  ns_snap_events :: "install_event list"
  ns_snap_transactions :: "transaction list"
  ns_snap_rollbacks :: "rollback_result list"
  ns_snap_statistics :: install_statistics
  ns_snap_closed :: bool

definition in_snapshot :: "installer \<Rightarrow> install_snapshot" where
  "in_snapshot s = \<lparr>ns_snap_sessions = sorted_values (ns_sessions s), ns_snap_records = store_list (ns_store s),
     ns_snap_events = ns_events s, ns_snap_transactions = sorted_values (ns_transactions s),
     ns_snap_rollbacks = ns_rollbacks s,
     ns_snap_statistics = in_statistics (sorted_values (ns_sessions s)) (store_list (ns_store s)),
     ns_snap_closed = ns_closed s\<rparr>"

definition in_clear :: "installer \<Rightarrow> (installer_error + unit) \<times> installer" where
  "in_clear s =
     (if ns_closed s then (Inl installer_closed_error, s)
      else let s1 = s\<lparr>ns_sessions := []\<rparr> in
        case store_clear (ns_store s1) of
          Inl e \<Rightarrow> (Inl e, s1)
        | Inr st \<Rightarrow> (Inr (), s1\<lparr>ns_store := st\<rparr>))"

definition in_close :: "installer \<Rightarrow> installer" where
  "in_close s = in_emit EV_CLOSED ''service'' (s\<lparr>ns_closed := True\<rparr>)"


subsection \<open>The transaction\<close>

abbreviation installed_at :: "installer \<Rightarrow> coordinate \<Rightarrow> installed_record option" where
  "installed_at s c \<equiv> map_of (st_items (ns_store s)) c"

abbreviation store_ok :: "installer \<Rightarrow> bool" where
  "store_ok s \<equiv> keyed ir_coordinate (st_items (ns_store s))"

lemma emit_simps [simp]:
  "ns_store (in_emit t i s) = ns_store s" "ns_sessions (in_emit t i s) = ns_sessions s"
  "ns_closed (in_emit t i s) = ns_closed s" "ns_transactions (in_emit t i s) = ns_transactions s"
  "ns_rollbacks (in_emit t i s) = ns_rollbacks s"
  by (simp_all add: in_emit_def)

lemma set_transaction_simps [simp]:
  "ns_store (set_transaction k i t s) = ns_store s" "ns_sessions (set_transaction k i t s) = ns_sessions s"
  "ns_closed (set_transaction k i t s) = ns_closed s" "ns_events (set_transaction k i t s) = ns_events s"
  "ns_rollbacks (set_transaction k i t s) = ns_rollbacks s"
  "map_of (ns_transactions (set_transaction k i t s)) =
     (map_of (ns_transactions s)) (k \<mapsto> \<lparr>tx_id = i, tx_state = t\<rparr>)"
  by (simp_all add: set_transaction_def)

lemma store_list_set:
  assumes "keyed ir_coordinate (st_items st)"
  shows "ir_coordinate ` set (store_list st) = dom (map_of (st_items st))"
proof -
  have "ir_coordinate (the (map_of (st_items st) c)) = c" if "c \<in> set (map fst (st_items st))" for c
  proof -
    from that have "map_of (st_items st) c \<noteq> None" by (simp add: map_of_eq_None_iff_fst)
    then show ?thesis using keyed_key [OF assms] by fastforce
  qed
  then show ?thesis
    unfolding store_list_def set_map set_sort image_image dom_map_of_conv_image_fst by force
qed

lemma records_coordinates [simp]: "map ir_coordinate (plan_records i p) = ip_order p"
  by (simp add: plan_records_def comp_def)

lemma set_records_coordinates [simp]: "ir_coordinate ` set (plan_records i p) = set (ip_order p)"
  by (metis records_coordinates set_map)

text \<open>The transaction body changes the store completely or not at all.\<close>

lemma apply_records_failed:
  assumes "apply_records r records s = (Some e, s')"
  shows "map_of (st_items (ns_store s')) = map_of (st_items (ns_store s))"
    and "ns_sessions s' = ns_sessions s" "ns_rollbacks s' = ns_rollbacks s" "ns_closed s' = ns_closed s"
proof -
  let ?existing = "ir_coordinate ` set (store_list (ns_store s))"
  have "map_of (st_items (ns_store s')) = map_of (st_items (ns_store s)) \<and> ns_sessions s' = ns_sessions s
      \<and> ns_rollbacks s' = ns_rollbacks s \<and> ns_closed s' = ns_closed s"
  proof (cases "(\<exists>x \<in> set records. ir_coordinate x \<in> ?existing) \<and> \<not> iq_reinstall r")
    case True
    with assms show ?thesis by (auto simp: apply_records_def Let_def split: if_splits)
  next
    case False
    obtain err added st where run: "add_missing store_add ir_coordinate ?existing records (ns_store s) [] = (err, added, st)"
      by (metis prod_cases3)
    then obtain e' where err: "err = Some e'"
      using assms False by (cases err) (auto simp: apply_records_def Let_def split: if_splits)
    obtain st' where st': "remove_each store_remove added st = (None, st')"
      "map_of (st_items st') = map_of (st_items (ns_store s))"
      using installs.failed_additions_undone [OF run [unfolded err]] by blast
    have "iq_strategy r \<noteq> DRY_RUN" using assms by (auto simp: apply_records_def)
    with assms False run err st' show ?thesis by (auto simp: apply_records_def Let_def)
  qed
  then show "map_of (st_items (ns_store s')) = map_of (st_items (ns_store s))"
    "ns_sessions s' = ns_sessions s" "ns_rollbacks s' = ns_rollbacks s" "ns_closed s' = ns_closed s"
    by simp_all
qed


lemma apply_records_done:
  assumes "apply_records r (plan_records i p) s = (None, s')" "store_ok s"
  shows "installed_at s' c = (if iq_strategy r \<noteq> DRY_RUN \<and> c \<in> set (ip_order p) \<and> installed_at s c = None
           then Some \<lparr>ir_coordinate = c, ir_id = i\<rparr> else installed_at s c)"
    and "ns_sessions s' = ns_sessions s" "ns_rollbacks s' = ns_rollbacks s" "ns_closed s' = ns_closed s"
    and "iq_strategy r \<noteq> DRY_RUN \<Longrightarrow> \<not> iq_reinstall r \<Longrightarrow> c \<in> set (ip_order p) \<Longrightarrow> installed_at s c = None"
proof -
  let ?existing = "ir_coordinate ` set (store_list (ns_store s))" and ?rs = "plan_records i p"
  let ?P = "installed_at s' c = (if iq_strategy r \<noteq> DRY_RUN \<and> c \<in> set (ip_order p) \<and> installed_at s c = None
           then Some \<lparr>ir_coordinate = c, ir_id = i\<rparr> else installed_at s c)
     \<and> ns_sessions s' = ns_sessions s \<and> ns_rollbacks s' = ns_rollbacks s \<and> ns_closed s' = ns_closed s
     \<and> (iq_strategy r \<noteq> DRY_RUN \<longrightarrow> \<not> iq_reinstall r \<longrightarrow> c \<in> set (ip_order p) \<longrightarrow> installed_at s c = None)"
  have ex: "?existing = dom (installed_at s)" by (rule store_list_set [OF assms(2)])
  have ?P
  proof (cases "iq_strategy r = DRY_RUN")
    case True
    with assms(1) show ?thesis by (simp add: apply_records_def)
  next
    case False
    have free: "\<not> ((\<exists>x \<in> set ?rs. ir_coordinate x \<in> ?existing) \<and> \<not> iq_reinstall r)"
      using assms(1) False by (auto simp: apply_records_def Let_def split: if_splits)
    obtain err added st where
      run: "add_missing store_add ir_coordinate ?existing ?rs (ns_store s) [] = (err, added, st)"
      by (metis prod_cases3)
    then have "err = None" and s': "ns_store s' = st" "ns_sessions s' = ns_sessions s"
      "ns_rollbacks s' = ns_rollbacks s" "ns_closed s' = ns_closed s"
      using assms(1) False free
      by (auto simp: apply_records_def Let_def simp del: add_missing.simps split: if_splits option.splits prod.splits)
    from installs.additions_complete [OF run [unfolded ex this(1)]]
    have e: "extended_by ir_coordinate ?rs added (installed_at s) (map_of (st_items st))"
      and added: "set added = set (ip_order p) - dom (installed_at s)" by simp_all
    have new: "map_of (st_items st) c = Some \<lparr>ir_coordinate = c, ir_id = i\<rparr>" if c: "c \<in> set added"
    proof -
      from e c obtain x where "x \<in> set ?rs" "map_of (st_items st) c = Some x" "ir_coordinate x = c"
        unfolding extended_by_def by meson
      then show ?thesis by (auto simp: plan_records_def)
    qed
    have "installed_at s c = None" if "\<not> iq_reinstall r" "c \<in> set (ip_order p)"
      using free that unfolding ex by (force simp: plan_records_def domIff)
    with new extended_by_old [OF e, of c] s' added False show ?thesis by (auto simp: domIff)
  qed
  then show "installed_at s' c = (if iq_strategy r \<noteq> DRY_RUN \<and> c \<in> set (ip_order p) \<and> installed_at s c = None
           then Some \<lparr>ir_coordinate = c, ir_id = i\<rparr> else installed_at s c)"
    "ns_sessions s' = ns_sessions s" "ns_rollbacks s' = ns_rollbacks s" "ns_closed s' = ns_closed s"
    "iq_strategy r \<noteq> DRY_RUN \<Longrightarrow> \<not> iq_reinstall r \<Longrightarrow> c \<in> set (ip_order p) \<Longrightarrow> installed_at s c = None"
    by blast+
qed

lemma verification_holds:
  "verify_installation p \<lparr>rs_session = \<lparr>ss_id = i, ss_status = IS_SUCCEEDED, ss_plan = p, ss_issues = []\<rparr>,
     rs_installed = plan_records i p\<rparr> (plan_records i p)"
  by (simp add: verify_installation_def)

lemma commit_result:
  "commit_session r p (plan_records (iq_id r) p) s =
     (let session = \<lparr>ss_id = iq_id r, ss_status = IS_SUCCEEDED, ss_plan = p, ss_issues = []\<rparr> in
      (Inr \<lparr>rs_session = session, rs_installed = plan_records (iq_id r) p\<rparr>,
       in_emit EV_SUCCEEDED (iq_id r) (set_transaction (iq_id r) (iq_id r) TX_COMMITTED
         (s\<lparr>ns_sessions := AList.update (iq_id r) session (ns_sessions s)\<rparr>))))"
  by (simp add: commit_session_def lc_transition_def lc_can_transition_def lc_allowed_def Let_def
      verification_holds)

text \<open>The two outcomes of an installation.\<close>

lemma install_cases:
  assumes "in_install r s = (res, s')"
  obtains (refused) e where "in_plan r s = Inl e" "res = Inl e" "s' = s"
  | (failed) p e where "in_plan r s = Inr p" "res = Inl e"
      "apply_records r (plan_records (iq_id r) p) (set_transaction (iq_id r) (iq_id r) TX_CREATED
         (in_emit EV_STARTED (iq_id r) (in_emit EV_PLANNED (iq_id r) s))) = (Some e, s')"
  | (installed) p s1 where "in_plan r s = Inr p"
      "apply_records r (plan_records (iq_id r) p) (set_transaction (iq_id r) (iq_id r) TX_CREATED
         (in_emit EV_STARTED (iq_id r) (in_emit EV_PLANNED (iq_id r) s))) = (None, s1)"
      "(res, s') = commit_session r p (plan_records (iq_id r) p) s1"
proof (cases "in_plan r s")
  case (Inl e)
  with assms have "res = Inl e" "s' = s" by (simp_all add: in_install_def)
  with Inl show ?thesis by (rule that(1))
next
  case (Inr p)
  let ?s = "set_transaction (iq_id r) (iq_id r) TX_CREATED
      (in_emit EV_STARTED (iq_id r) (in_emit EV_PLANNED (iq_id r) s))"
  obtain err s1 where run: "apply_records r (plan_records (iq_id r) p) ?s = (err, s1)" by force
  show ?thesis
  proof (cases err)
    case None
    have "(res, s') = commit_session r p (plan_records (iq_id r) p) s1"
      using run Inr assms None by (simp add: in_install_def Let_def)
    with Inr run [unfolded None] show ?thesis by (rule that(3))
  next
    case (Some e)
    have "res = Inl e" "s1 = s'" using run Inr assms Some by (simp_all add: in_install_def Let_def)
    with run Some have "apply_records r (plan_records (iq_id r) p) ?s = (Some e, s')" by simp
    with Inr \<open>res = Inl e\<close> show ?thesis by (rule that(2))
  qed
qed

lemma in_plan_Inr:
  assumes "in_plan r s = Inr p"
  shows "ip_id p = iq_id r" "ip_order p = rr_order (iq_resolution r)" "ip_selected p = rr_selected (iq_resolution r)"
    "rr_status (iq_resolution r) = RS_RESOLVED" "\<not> ns_closed s"
  using assms by (auto simp: in_plan_def installation_source_def split: if_splits)


text \<open>What an installation does to sessions, transactions and records.\<close>

lemma install_effect:
  assumes "in_install r s = (Inr v, s')" "store_ok s"
  obtains p where "in_plan r s = Inr p"
    "rs_session v = \<lparr>ss_id = iq_id r, ss_status = IS_SUCCEEDED, ss_plan = p, ss_issues = []\<rparr>"
    "rs_installed v = plan_records (iq_id r) p"
    "ns_sessions s' = AList.update (iq_id r) (rs_session v) (ns_sessions s)"
    "map_of (ns_transactions s') (iq_id r) = Some \<lparr>tx_id = iq_id r, tx_state = TX_COMMITTED\<rparr>"
    "ns_closed s' = ns_closed s"
    "\<And>c. installed_at s' c =
       (if iq_strategy r \<noteq> DRY_RUN \<and> c \<in> set (rr_order (iq_resolution r)) \<and> installed_at s c = None
        then Some \<lparr>ir_coordinate = c, ir_id = iq_id r\<rparr> else installed_at s c)"
    "\<And>c. iq_strategy r \<noteq> DRY_RUN \<Longrightarrow> \<not> iq_reinstall r \<Longrightarrow> c \<in> set (rr_order (iq_resolution r))
       \<Longrightarrow> installed_at s c = None"
  using assms(1)
proof (cases rule: install_cases)
  case (installed p s1)
  let ?s = "set_transaction (iq_id r) (iq_id r) TX_CREATED
      (in_emit EV_STARTED (iq_id r) (in_emit EV_PLANNED (iq_id r) s))"
  have ok: "store_ok ?s" using assms(2) by simp
  note a = apply_records_done [OF installed(2) ok]
  note o = in_plan_Inr [OF installed(1)]
  have v: "v = \<lparr>rs_session = \<lparr>ss_id = iq_id r, ss_status = IS_SUCCEEDED, ss_plan = p, ss_issues = []\<rparr>,
      rs_installed = plan_records (iq_id r) p\<rparr>"
    and s': "s' = in_emit EV_SUCCEEDED (iq_id r) (set_transaction (iq_id r) (iq_id r) TX_COMMITTED
         (s1\<lparr>ns_sessions := AList.update (iq_id r)
            \<lparr>ss_id = iq_id r, ss_status = IS_SUCCEEDED, ss_plan = p, ss_issues = []\<rparr> (ns_sessions s1)\<rparr>))"
    using installed(3) unfolding commit_result Let_def by simp_all
  show ?thesis
    by (rule that [OF installed(1)]) (use a o in \<open>simp_all add: v s'\<close>)
qed (use assms in auto)

text \<open>C18: an installation that no other caller of its store interrupts is all or nothing: when it raises, the installed records and the sessions are what they
  were; when it returns, exactly the coordinates of the dependency order that were not installed are
  installed under its id (none for a dry run), the other records are unchanged, the session is SUCCEEDED
  and its transaction committed; without leave to reinstall, nothing of the order was installed before.\<close>

theorem installation_atomic:
  assumes "in_install r s = (res, s')" "store_ok s"
  shows "case res of
      Inl _ \<Rightarrow> (\<forall>c. installed_at s' c = installed_at s c) \<and> ns_sessions s' = ns_sessions s
    | Inr v \<Rightarrow> (\<forall>c. installed_at s' c =
          (if iq_strategy r \<noteq> DRY_RUN \<and> c \<in> set (rr_order (iq_resolution r)) \<and> installed_at s c = None
           then Some \<lparr>ir_coordinate = c, ir_id = iq_id r\<rparr> else installed_at s c))
        \<and> map_of (ns_sessions s') (iq_id r) = Some (rs_session v)
        \<and> ss_status (rs_session v) = IS_SUCCEEDED
        \<and> map_of (ns_transactions s') (iq_id r) = Some \<lparr>tx_id = iq_id r, tx_state = TX_COMMITTED\<rparr>
        \<and> (iq_strategy r \<noteq> DRY_RUN \<and> \<not> iq_reinstall r \<longrightarrow>
             (\<forall>c \<in> set (rr_order (iq_resolution r)). installed_at s c = None))"
proof (cases res)
  case (Inl e)
  from assms(1) have "(\<forall>c. installed_at s' c = installed_at s c) \<and> ns_sessions s' = ns_sessions s"
  proof (cases rule: install_cases)
    case (failed p e)
    from apply_records_failed [OF failed(3)] show ?thesis by simp
  qed (use Inl in \<open>simp_all add: commit_result Let_def\<close>)
  then show ?thesis by (simp add: Inl)
next
  case (Inr v)
  with assms(1) have "in_install r s = (Inr v, s')" by simp
  from this assms(2) show ?thesis
    by (rule install_effect) (simp_all add: Inr)
qed

subsection \<open>Rollback\<close>

lemma rollback_effect:
  assumes "\<not> ns_closed s" "\<not> st_closed (ns_store s)" "map_of (ns_sessions s) i = Some session"
  obtains v s' where "in_rollback i s = (Inr v, s')"
    "\<And>c. installed_at s' c = (if c \<in> set (ip_order (ss_plan session)) then None else installed_at s c)"
    "map_of (ns_sessions s') i = Some \<lparr>ss_id = ss_id session, ss_status = IS_ROLLED_BACK,
       ss_plan = ss_plan session, ss_issues = []\<rparr>"
    "map_of (ns_transactions s') i = Some \<lparr>tx_id = ss_id session, tx_state = TX_ROLLED_BACK\<rparr>"
    "ns_rollbacks s' = ns_rollbacks s @ [v]"
    "rb_state v = RB_COMPLETED" "map ir_coordinate (rp_records (rb_plan v)) = ip_order (ss_plan session)"
proof -
  obtain st where st: "remove_present store_exists store_remove (ip_order (ss_plan session)) (ns_store s) = (None, st)"
    "map_of (st_items st) = (\<lambda>c. if c \<in> set (ip_order (ss_plan session)) then None else installed_at s c)"
    using installs.remove_present_view [of "ns_store s" "ip_order (ss_plan session)"] assms(2) by blast
  let ?k = "ss_id session" and ?p = "ss_plan session"
  let ?v = "\<lparr>rb_plan = \<lparr>rp_id = ?k, rp_records = plan_records ?k ?p, rp_strategy = REMOVE_RECORDS\<rparr>,
      rb_state = RB_COMPLETED\<rparr>"
  let ?s1 = "in_emit EV_ROLLBACK_STARTED ?k s"
  let ?s2 = "?s1\<lparr>ns_store := st, ns_sessions := AList.update i \<lparr>ss_id = ?k, ss_status = IS_ROLLED_BACK,
      ss_plan = ?p, ss_issues = []\<rparr> (ns_sessions ?s1), ns_rollbacks := ns_rollbacks ?s1 @ [?v]\<rparr>"
  have "in_rollback i s = (Inr ?v, in_emit EV_ROLLED_BACK ?k (set_transaction i ?k TX_ROLLED_BACK ?s2))"
    using assms(1,3) st(1) by (simp add: in_rollback_def in_get_def Let_def)
  then show ?thesis by (rule that) (simp_all add: st(2))
qed

text \<open>A rollback undoes a fresh installation: when nothing of the dependency order was installed, install
  followed by rollback leaves exactly the records that were there, and marks session and transaction
  as rolled back.\<close>

theorem rollback_undoes_installation:
  assumes "in_install r s = (Inr v, s1)" "store_ok s" "\<not> st_closed (ns_store s1)"
    and "\<forall>c \<in> set (rr_order (iq_resolution r)). installed_at s c = None"
  shows "\<exists>w s2. in_rollback (iq_id r) s1 = (Inr w, s2)
    \<and> (\<forall>c. installed_at s2 c = installed_at s c)
    \<and> map_option ss_status (map_of (ns_sessions s2) (iq_id r)) = Some IS_ROLLED_BACK
    \<and> map_option tx_state (map_of (ns_transactions s2) (iq_id r)) = Some TX_ROLLED_BACK"
  using assms(1,2)
proof (rule install_effect)
  fix p
  assume p: "in_plan r s = Inr p"
    "rs_session v = \<lparr>ss_id = iq_id r, ss_status = IS_SUCCEEDED, ss_plan = p, ss_issues = []\<rparr>"
    "ns_sessions s1 = AList.update (iq_id r) (rs_session v) (ns_sessions s)" "ns_closed s1 = ns_closed s"
    and at: "\<And>c. installed_at s1 c =
       (if iq_strategy r \<noteq> DRY_RUN \<and> c \<in> set (rr_order (iq_resolution r)) \<and> installed_at s c = None
        then Some \<lparr>ir_coordinate = c, ir_id = iq_id r\<rparr> else installed_at s c)"
  note o = in_plan_Inr [OF p(1)]
  have "\<not> ns_closed s1" using o(5) p(4) by simp
  moreover have "map_of (ns_sessions s1) (iq_id r) = Some (rs_session v)" by (simp add: p(3))
  ultimately obtain w s2 where "in_rollback (iq_id r) s1 = (Inr w, s2)"
    "\<And>c. installed_at s2 c = (if c \<in> set (ip_order (ss_plan (rs_session v))) then None else installed_at s1 c)"
    "map_option ss_status (map_of (ns_sessions s2) (iq_id r)) = Some IS_ROLLED_BACK"
    "map_option tx_state (map_of (ns_transactions s2) (iq_id r)) = Some TX_ROLLED_BACK"
    using assms(3) by (auto elim!: rollback_effect)
  moreover from this(2) have "installed_at s2 c = installed_at s c" for c
    using assms(4) at [of c] by (simp add: p(2) o(2))
  ultimately show ?thesis by blast
qed


subsection \<open>Reachable services\<close>

text \<open>The store may be shared: between two operations of the service its other holders may use it.\<close>

inductive in_step :: "installer \<Rightarrow> installer \<Rightarrow> bool" where
  step_install: "in_step s (snd (in_install r s))"
| step_rollback: "in_step s (snd (in_rollback i s))"
| step_cancel: "in_step s (snd (in_cancel i s))"
| step_clear: "in_step s (snd (in_clear s))"
| step_close: "in_step s (in_close s)"
| store_added: "store_add x (ns_store s) = Inr st \<Longrightarrow> in_step s (s\<lparr>ns_store := st\<rparr>)"
| store_removed: "store_remove c (ns_store s) = Inr st \<Longrightarrow> in_step s (s\<lparr>ns_store := st\<rparr>)"
| store_cleared: "store_clear (ns_store s) = Inr st \<Longrightarrow> in_step s (s\<lparr>ns_store := st\<rparr>)"
| store_shut: "in_step s (s\<lparr>ns_store := store_close (ns_store s)\<rparr>)"

abbreviation items_ok :: "install_store \<Rightarrow> bool" where
  "items_ok st \<equiv> keyed ir_coordinate (st_items st)"

lemma store_ops_ok:
  "store_add x st = Inr st' \<Longrightarrow> items_ok st \<Longrightarrow> items_ok st'"
  "store_remove c st = Inr st' \<Longrightarrow> items_ok st \<Longrightarrow> items_ok st'"
  "store_clear st = Inr st' \<Longrightarrow> items_ok st'"
  by (auto simp: store_add_def store_remove_def store_clear_def split: if_splits)

lemma add_missing_ok: "add_missing store_add ir_coordinate ex xs st added = (e, a, st') \<Longrightarrow> items_ok st \<Longrightarrow> items_ok st'"
  by (induction xs arbitrary: st added) (auto split: if_splits sum.splits dest: store_ops_ok)

lemma remove_each_ok: "remove_each store_remove ks st = (e, st') \<Longrightarrow> items_ok st \<Longrightarrow> items_ok st'"
  by (induction ks arbitrary: st) (auto split: sum.splits dest: store_ops_ok)

lemma remove_present_ok: "remove_present t store_remove ks st = (e, st') \<Longrightarrow> items_ok st \<Longrightarrow> items_ok st'"
  by (induction ks arbitrary: st) (auto split: if_splits sum.splits dest: store_ops_ok)

definition rollback_logged :: "installer \<Rightarrow> install_id \<Rightarrow> install_session \<Rightarrow> bool" where
  "rollback_logged s k v \<longleftrightarrow> (\<exists>b \<in> set (ns_rollbacks s). rp_id (rb_plan b) = k \<and> rb_state b = RB_COMPLETED
     \<and> map ir_coordinate (rp_records (rb_plan b)) = ip_order (ss_plan v))"

definition session_ok :: "installer \<Rightarrow> install_id \<Rightarrow> install_session \<Rightarrow> bool" where
  "session_ok s k v \<longleftrightarrow> ss_id v = k \<and> ip_id (ss_plan v) = k
     \<and> ss_status v \<in> {IS_SUCCEEDED, IS_ROLLED_BACK, IS_CANCELLED}
     \<and> (\<exists>t. map_of (ns_transactions s) k = Some t \<and> tx_id t = k)
     \<and> (ss_status v = IS_ROLLED_BACK \<longrightarrow> rollback_logged s k v)"

definition installer_inv :: "installer \<Rightarrow> bool" where
  "installer_inv s \<longleftrightarrow> store_ok s \<and> map ev_sequence (ns_events s) = [1..<Suc (length (ns_events s))]
     \<and> (\<forall>k v. map_of (ns_sessions s) k = Some v \<longrightarrow> session_ok s k v)"

text \<open>What an operation may change without looking at the sessions: it adds events, rollbacks and
  transactions of the right id, and leaves a keyed store.\<close>

definition in_grows :: "installer \<Rightarrow> installer \<Rightarrow> bool" where
  "in_grows s s' \<longleftrightarrow> (store_ok s \<longrightarrow> store_ok s')
     \<and> (map ev_sequence (ns_events s) = [1..<Suc (length (ns_events s))] \<longrightarrow>
          map ev_sequence (ns_events s') = [1..<Suc (length (ns_events s'))])
     \<and> set (ns_rollbacks s) \<subseteq> set (ns_rollbacks s')
     \<and> (\<forall>k. (\<exists>t. map_of (ns_transactions s) k = Some t \<and> tx_id t = k) \<longrightarrow>
          (\<exists>t. map_of (ns_transactions s') k = Some t \<and> tx_id t = k))"

lemma grows_refl [simp]: "in_grows s s"
  by (simp add: in_grows_def)

lemma grows_trans: "in_grows s t \<Longrightarrow> in_grows t u \<Longrightarrow> in_grows s u"
  unfolding in_grows_def by blast

lemma grows_emit: "in_grows s (in_emit t i s)"
  by (simp add: in_grows_def in_emit_def)

lemma grows_transaction: "in_grows s (set_transaction k k t s)"
  by (simp add: in_grows_def)

lemma grows_store: "(store_ok s \<Longrightarrow> items_ok st) \<Longrightarrow> in_grows s (s\<lparr>ns_store := st\<rparr>)"
  by (simp add: in_grows_def)

lemma session_ok_grows: "in_grows s s' \<Longrightarrow> session_ok s k v \<Longrightarrow> session_ok s' k v"
  unfolding in_grows_def session_ok_def rollback_logged_def by blast

lemma grows_inv:
  assumes "in_grows s s'" "installer_inv s"
    and "\<And>k v. map_of (ns_sessions s') k = Some v \<Longrightarrow> map_of (ns_sessions s) k = Some v \<or> session_ok s' k v"
  shows "installer_inv s'"
  using assms(2,3) session_ok_grows [OF assms(1)] assms(1) unfolding installer_inv_def in_grows_def by blast


lemma apply_records_grows: "apply_records r records s = (e, s') \<Longrightarrow> in_grows s s'"
proof -
  assume run: "apply_records r records s = (e, s')"
  let ?existing = "ir_coordinate ` set (store_list (ns_store s))"
  let ?s1 = "set_transaction (iq_id r) (iq_id r) TX_PREPARED s"
  obtain err added st where a: "add_missing store_add ir_coordinate ?existing records (ns_store s) [] = (err, added, st)"
    by (metis prod_cases3)
  obtain err' st' where b: "remove_each store_remove added st = (err', st')" by force
  have st: "store_ok s \<Longrightarrow> items_ok st" using a by (rule add_missing_ok)
  then have st': "store_ok s \<Longrightarrow> items_ok st'" using b remove_each_ok by blast
  have g: "in_grows s (?s1\<lparr>ns_store := u\<rparr>)" if "store_ok s \<Longrightarrow> items_ok u" for u
    using grows_trans [OF grows_transaction grows_store] that by simp
  consider "s' = s" | "s' = ?s1\<lparr>ns_store := st\<rparr>" | "s' = ?s1\<lparr>ns_store := st'\<rparr>"
    | "s' = in_emit EV_FAILED (iq_id r) (set_transaction (iq_id r) (iq_id r) TX_ABORTED (?s1\<lparr>ns_store := st'\<rparr>))"
    using run a b
    by (cases err; cases err')
      (auto simp: apply_records_def Let_def simp del: add_missing.simps remove_each.simps split: if_splits)
  then show ?thesis
    using g [OF st] g [OF st'] grows_trans grows_transaction grows_emit by cases (simp, blast+)
qed

lemma apply_records_sessions: "apply_records r records s = (e, s') \<Longrightarrow> ns_sessions s' = ns_sessions s"
  by (auto simp: apply_records_def Let_def split: if_splits option.splits prod.splits)

lemma install_inv:
  assumes "installer_inv s"
  shows "installer_inv (snd (in_install r s))"
proof -
  let ?i = "iq_id r"
  let ?s0 = "set_transaction ?i ?i TX_CREATED (in_emit EV_STARTED ?i (in_emit EV_PLANNED ?i s))"
  obtain res s' where run: "in_install r s = (res, s')" by force
  have g0: "in_grows s ?s0" using grows_trans grows_emit grows_transaction by blast
  from run have "installer_inv s'"
  proof (cases rule: install_cases)
    case refused
    with assms show ?thesis by simp
  next
    case (failed p e)
    have "in_grows s s'" using g0 apply_records_grows [OF failed(3)] by (rule grows_trans)
    from grows_inv [OF this assms] apply_records_sessions [OF failed(3)] show ?thesis by simp
  next
    case (installed p s1)
    let ?v = "\<lparr>ss_id = ?i, ss_status = IS_SUCCEEDED, ss_plan = p, ss_issues = []\<rparr>"
    let ?s2 = "s1\<lparr>ns_sessions := AList.update ?i ?v (ns_sessions s1)\<rparr>"
    have s': "s' = in_emit EV_SUCCEEDED ?i (set_transaction ?i ?i TX_COMMITTED ?s2)"
      using installed(3) unfolding commit_result Let_def by simp
    have "in_grows s1 ?s2" by (simp add: in_grows_def)
    with grows_trans [OF g0 apply_records_grows [OF installed(2)]] have "in_grows s ?s2" by (rule grows_trans)
    then have g: "in_grows s s'"
      unfolding s' by (rule grows_trans [OF _ grows_trans [OF grows_transaction grows_emit]])
    have new: "session_ok s' ?i ?v"
      using in_plan_Inr(1) [OF installed(1)] by (simp add: session_ok_def s')
    show ?thesis
    proof (rule grows_inv [OF g assms])
      fix k v assume "map_of (ns_sessions s') k = Some v"
      then show "map_of (ns_sessions s) k = Some v \<or> session_ok s' k v"
        using new apply_records_sessions [OF installed(2)] by (auto simp: s' split: if_splits)
    qed
  qed
  then show ?thesis by (simp add: run)
qed

lemma rollback_inv:
  assumes "installer_inv s"
  shows "installer_inv (snd (in_rollback i s))"
proof (cases "ns_closed s \<or> map_of (ns_sessions s) i = None")
  case True
  with assms show ?thesis by (auto simp: in_rollback_def in_get_def split: option.splits)
next
  case False
  then obtain v where v: "map_of (ns_sessions s) i = Some v" by auto
  then have ok: "session_ok s i v" using assms by (simp add: installer_inv_def)
  then have i: "ss_id v = i" "ip_id (ss_plan v) = i" by (simp_all add: session_ok_def)
  let ?s1 = "in_emit EV_ROLLBACK_STARTED i s"
  obtain e st where st: "remove_present store_exists store_remove (ip_order (ss_plan v)) (ns_store s) = (e, st)" by force
  have "items_ok st" using remove_present_ok [OF st] assms by (simp add: installer_inv_def)
  then have g1: "in_grows s (?s1\<lparr>ns_store := st\<rparr>)"
    using grows_trans [OF grows_emit grows_store] by blast
  show ?thesis
  proof (cases e)
    case (Some err)
    then have "snd (in_rollback i s) = ?s1\<lparr>ns_store := st\<rparr>"
      using False v st i by (simp add: in_rollback_def in_get_def Let_def)
    with grows_inv [OF g1 assms] show ?thesis by simp
  next
    case None
    let ?b = "\<lparr>rb_plan = \<lparr>rp_id = i, rp_records = plan_records i (ss_plan v), rp_strategy = REMOVE_RECORDS\<rparr>,
        rb_state = RB_COMPLETED\<rparr>"
    let ?v = "\<lparr>ss_id = i, ss_status = IS_ROLLED_BACK, ss_plan = ss_plan v, ss_issues = []\<rparr>"
    let ?s2 = "?s1\<lparr>ns_store := st, ns_sessions := AList.update i ?v (ns_sessions ?s1),
        ns_rollbacks := ns_rollbacks ?s1 @ [?b]\<rparr>"
    have s': "snd (in_rollback i s) = in_emit EV_ROLLED_BACK i (set_transaction i i TX_ROLLED_BACK ?s2)"
      using False v st i None by (simp add: in_rollback_def in_get_def Let_def)
    have "in_grows (?s1\<lparr>ns_store := st\<rparr>) ?s2" by (auto simp: in_grows_def)
    then have g: "in_grows s (snd (in_rollback i s))"
      unfolding s' using g1 grows_trans grows_emit grows_transaction by blast
    have new: "session_ok (snd (in_rollback i s)) i ?v"
      by (simp add: session_ok_def rollback_logged_def s' i)
    show ?thesis
    proof (rule grows_inv [OF g assms])
      fix k w assume "map_of (ns_sessions (snd (in_rollback i s))) k = Some w"
      then show "map_of (ns_sessions s) k = Some w \<or> session_ok (snd (in_rollback i s)) k w"
        using new by (auto simp: s' split: if_splits)
    qed
  qed
qed

lemma cancel_inv:
  assumes "installer_inv s"
  shows "installer_inv (snd (in_cancel i s))"
proof (cases "ns_closed s \<or> map_of (ns_sessions s) i = None")
  case True
  with assms show ?thesis by (auto simp: in_cancel_def split: option.splits)
next
  case False
  then obtain v where v: "map_of (ns_sessions s) i = Some v" by auto
  let ?v = "\<lparr>ss_id = ss_id v, ss_status = IS_CANCELLED, ss_plan = ss_plan v, ss_issues = []\<rparr>"
  let ?s = "s\<lparr>ns_sessions := AList.update i ?v (ns_sessions s)\<rparr>"
  have s': "snd (in_cancel i s) = ?s" using False v by (simp add: in_cancel_def Let_def)
  have "session_ok s i v" using assms v by (simp add: installer_inv_def)
  then have new: "session_ok ?s i ?v" by (simp add: session_ok_def)
  have "in_grows s ?s" by (simp add: in_grows_def)
  from this assms show ?thesis unfolding s'
    by (rule grows_inv) (use new in \<open>auto split: if_splits\<close>)
qed

lemma in_step_inv: "in_step s s' \<Longrightarrow> installer_inv s \<Longrightarrow> installer_inv s'"
proof (induction rule: in_step.induct)
  case (step_clear s)
  have "in_grows s (s\<lparr>ns_sessions := []\<rparr>)" by (simp add: in_grows_def)
  from grows_inv [OF this step_clear] have 1: "installer_inv (s\<lparr>ns_sessions := []\<rparr>)" by simp
  have 2: "installer_inv (s\<lparr>ns_sessions := [], ns_store := st\<rparr>)" if "store_clear (ns_store s) = Inr st" for st
    using 1 store_ops_ok(3) [OF that] by (simp add: installer_inv_def)
  from 1 2 step_clear show ?case by (auto simp: in_clear_def Let_def split: sum.splits)
next
  case (step_close s)
  have "in_grows s (s\<lparr>ns_closed := True\<rparr>)" by (simp add: in_grows_def)
  then have "in_grows s (in_close s)" unfolding in_close_def using grows_trans grows_emit by blast
  from grows_inv [OF this step_close] show ?case by (simp add: in_close_def)
next
  case (store_added x s st)
  have "in_grows s (s\<lparr>ns_store := st\<rparr>)" by (rule grows_store) (rule store_ops_ok(1) [OF store_added(1)])
  from grows_inv [OF this store_added(2)] show ?case by simp
next
  case (store_removed c s st)
  have "in_grows s (s\<lparr>ns_store := st\<rparr>)" by (rule grows_store) (rule store_ops_ok(2) [OF store_removed(1)])
  from grows_inv [OF this store_removed(2)] show ?case by simp
next
  case (store_cleared s st)
  have "in_grows s (s\<lparr>ns_store := st\<rparr>)" by (rule grows_store) (rule store_ops_ok(3) [OF store_cleared(1)])
  from grows_inv [OF this store_cleared(2)] show ?case by simp
next
  case (store_shut s)
  have "in_grows s (s\<lparr>ns_store := store_close (ns_store s)\<rparr>)" by (rule grows_store) (simp add: store_close_def)
  from grows_inv [OF this store_shut] show ?case by simp
qed (auto intro: install_inv rollback_inv cancel_inv)

text \<open>In every reachable state of the installer, also when others add to, remove from, clear or close
  its store between operations, events are numbered from one without gaps, every installed record is
  found under its own coordinate, every session is filed under its own id, is SUCCEEDED, ROLLED_BACK or
  CANCELLED, has a transaction of its id, and a rolled-back session has a logged rollback of its plan.\<close>

theorem installer_sessions_accounted:
  assumes "in_step\<^sup>*\<^sup>* (new_installer None) s"
  shows "map ev_sequence (ns_events s) = [1..<Suc (length (ns_events s))]
    \<and> (\<forall>c x. installed_at s c = Some x \<longrightarrow> ir_coordinate x = c)
    \<and> (\<forall>k v. map_of (ns_sessions s) k = Some v \<longrightarrow> session_ok s k v)"
proof -
  from assms have "installer_inv s"
  proof (induction rule: rtranclp_induct)
    case base
    show ?case by (simp add: installer_inv_def new_installer_def new_store_def)
  qed (rule in_step_inv)
  then show ?thesis by (auto simp: installer_inv_def keyed_iff)
qed


subsection \<open>From resolution to installation\<close>

lemma resolved_dependencies_selected:
  assumes "resolution_source (qr_snapshot q) = Inr cands" "resolve_request q = Some (Inr v)"
    and "rr_status v = RS_RESOLVED"
  shows "set (rr_order v) = set (rr_selected v)"
    and "c \<in> set (rr_selected v) \<Longrightarrow> \<exists>e \<in> set cands. re_coordinate e = c
       \<and> (\<forall>d \<in> set (entry_requirements (re_dependencies e)). \<not> rm_optional d \<longrightarrow>
            (\<exists>f \<in> set cands. meets d f \<and> re_coordinate f \<in> set (rr_selected v)))"
proof -
  obtain x where x: "expansion_inv q cands {} x" "clean x" "set (rr_selected v) = selected_coordinates x"
    "rr_graph v = build_graph (xp_builder x)" "graph_cycles (rr_graph v) = []"
    "topological_order (rr_graph v) = Some (rr_order v)"
    by (rule resolved_sound_core [OF assms])
  have inv: "graph_inv x" "selection_inv q cands {} x" using x(1) by (simp_all add: expansion_inv_def)
  note g = built_graph [OF inv(1), folded x(4)]
  show "set (rr_order v) = set (rr_selected v)"
    using topological_order_correct(2) [OF x(5,6)] topological_order_nodes [OF g(2) x(6)] g(1) x(3) by simp
  assume "c \<in> set (rr_selected v)"
  then have "map_of (xp_selected x) c \<noteq> None" by (simp add: x(3) selected_map_of)
  then obtain e where e: "map_of (xp_selected x) c = Some e" by blast
  have "e \<in> set cands \<and> re_coordinate e = c
      \<and> (\<forall>d \<in> set (entry_requirements (re_dependencies e)). \<not> rm_optional d \<longrightarrow> satisfied cands x c d)"
    using inv(2) e x(2) unfolding selection_inv_def by blast
  then show "\<exists>e \<in> set cands. re_coordinate e = c
       \<and> (\<forall>d \<in> set (entry_requirements (re_dependencies e)). \<not> rm_optional d \<longrightarrow>
            (\<exists>f \<in> set cands. meets d f \<and> re_coordinate f \<in> set (rr_selected v)))"
    unfolding satisfied_def x(3) by blast
qed

text \<open>C19: resolver and installer together close an installation under dependencies: after a resolved
  request is installed (and it is no dry run), every selected coordinate is installed, and for every
  required dependency of the candidate at that coordinate a candidate that meets it is installed.\<close>

theorem installed_resolution_closed:
  assumes "resolution_source (qr_snapshot q) = Inr cands" "resolve_request q = Some (Inr v)"
    and "iq_resolution r = v" "iq_strategy r \<noteq> DRY_RUN"
    and "in_install r s = (Inr w, s')" "store_ok s"
  shows "\<forall>c \<in> set (rr_selected v). installed_at s' c \<noteq> None
    \<and> (\<exists>e \<in> set cands. re_coordinate e = c
        \<and> (\<forall>d \<in> set (entry_requirements (re_dependencies e)). \<not> rm_optional d \<longrightarrow>
             (\<exists>f \<in> set cands. meets d f \<and> installed_at s' (re_coordinate f) \<noteq> None)))"
  using assms(5,6)
proof (rule install_effect)
  fix p
  assume p: "in_plan r s = Inr p"
    and at: "\<And>c. installed_at s' c =
       (if iq_strategy r \<noteq> DRY_RUN \<and> c \<in> set (rr_order (iq_resolution r)) \<and> installed_at s c = None
        then Some \<lparr>ir_coordinate = c, ir_id = iq_id r\<rparr> else installed_at s c)"
  have res: "rr_status v = RS_RESOLVED" using in_plan_Inr(4) [OF p] assms(3) by simp
  note sel = resolved_dependencies_selected [OF assms(1,2) res]
  have inst: "installed_at s' c \<noteq> None" if "c \<in> set (rr_selected v)" for c
    using at [of c] that assms(3,4) sel(1) by auto
  show ?thesis
  proof (intro ballI conjI)
    fix c assume c: "c \<in> set (rr_selected v)"
    then show "installed_at s' c \<noteq> None" by (rule inst)
    from sel(2) [OF c] obtain e where e: "e \<in> set cands" "re_coordinate e = c"
      "\<forall>d \<in> set (entry_requirements (re_dependencies e)). \<not> rm_optional d \<longrightarrow>
         (\<exists>f \<in> set cands. meets d f \<and> re_coordinate f \<in> set (rr_selected v))" by blast
    have "\<exists>f \<in> set cands. meets d f \<and> installed_at s' (re_coordinate f) \<noteq> None"
      if d: "d \<in> set (entry_requirements (re_dependencies e))" "\<not> rm_optional d" for d
    proof -
      from e(3) d obtain f where "f \<in> set cands" "meets d f" "re_coordinate f \<in> set (rr_selected v)" by blast
      with inst show ?thesis by (intro bexI [of _ f] conjI)
    qed
    with e(1,2) show "\<exists>e \<in> set cands. re_coordinate e = c
        \<and> (\<forall>d \<in> set (entry_requirements (re_dependencies e)). \<not> rm_optional d \<longrightarrow>
             (\<exists>f \<in> set cands. meets d f \<and> installed_at s' (re_coordinate f) \<noteq> None))" by (intro bexI [of _ e]) simp_all
  qed
qed

definition sample_result :: resolution_result where
  "sample_result = projr (the (resolve_request sample_resolution))"

definition sample_install :: "install_id \<Rightarrow> install_strategy \<Rightarrow> install_request" where
  "sample_install i t = \<lparr>iq_id = i, iq_resolution = sample_result, iq_roots = [], iq_strategy = t,
     iq_reinstall = False, iq_upgrade = False, iq_downgrade = False, iq_prerelease = False, iq_metadata = []\<rparr>"

lemma sample_result_facts:
  "resolve_request sample_resolution = Some (Inr sample_result)" "rr_status sample_result = RS_RESOLVED"
  "rr_order sample_result = [sample_coordinate ''b'', sample_coordinate ''a'']"
  by (simp_all add: sample_result_def resolver_eval sample_resolution_def)

lemmas installer_eval = in_install_def in_plan_def installation_source_def apply_records_def commit_session_def
  lc_transition_def lc_can_transition_def lc_allowed_def plan_records_def verify_installation_def
  sample_install_def sample_result_facts new_installer_def new_store_def store_list_def store_add_def
  set_transaction_def in_emit_def Let_def sample_coordinate_def

lemma sample_installs:
  "\<exists>v s. in_install (sample_install ''i1'' FRESH) (new_installer None) = (Inr v, s) \<and> \<not> st_closed (ns_store s)"
  by (simp add: installer_eval)


lemma new_installer_ok: "store_ok (new_installer None)" "installed_at (new_installer None) c = None"
  by (simp_all add: new_installer_def new_store_def)

lemma installation_atomic_witness:
  "\<exists>v s. in_install (sample_install ''i1'' FRESH) (new_installer None) = (Inr v, s)
     \<and> installed_at s (sample_coordinate ''b'') = Some \<lparr>ir_coordinate = sample_coordinate ''b'', ir_id = ''i1''\<rparr>"
proof -
  obtain v s where run: "in_install (sample_install ''i1'' FRESH) (new_installer None) = (Inr v, s)"
    using sample_installs by blast
  have "installed_at s (sample_coordinate ''b'') = Some \<lparr>ir_coordinate = sample_coordinate ''b'', ir_id = ''i1''\<rparr>"
    using installation_atomic [OF run new_installer_ok(1)]
    by (simp add: sample_install_def sample_result_facts new_installer_ok)
  with run show ?thesis by blast
qed

lemma rollback_undoes_installation_witness:
  "\<exists>v s w t. in_install (sample_install ''i1'' FRESH) (new_installer None) = (Inr v, s)
     \<and> in_rollback ''i1'' s = (Inr w, t) \<and> (\<forall>c. installed_at t c = None)"
proof -
  obtain v s where run: "in_install (sample_install ''i1'' FRESH) (new_installer None) = (Inr v, s)"
    "\<not> st_closed (ns_store s)"
    using sample_installs by blast
  have "iq_id (sample_install ''i1'' FRESH) = ''i1''" by (simp add: sample_install_def)
  with rollback_undoes_installation [OF run(1) new_installer_ok(1) run(2)] run(1) show ?thesis
    by (auto simp: new_installer_ok)
qed

lemma installer_sessions_accounted_witness:
  "map ev_sequence (ns_events (snd (in_install (sample_install ''i1'' FRESH) (new_installer None)))) = [1, 2, 3]"
proof -
  let ?s = "snd (in_install (sample_install ''i1'' FRESH) (new_installer None))"
  have "in_step\<^sup>*\<^sup>* (new_installer None) ?s" by (rule r_into_rtranclp) (rule step_install)
  from installer_sessions_accounted [OF this]
  have "map ev_sequence (ns_events ?s) = [1..<Suc (length (ns_events ?s))]" by blast
  moreover have "length (ns_events ?s) = 3" by (simp add: installer_eval)
  ultimately show ?thesis by (simp add: upt_rec)
qed

lemma installed_resolution_closed_witness:
  "\<exists>v s. in_install (sample_install ''i1'' FRESH) (new_installer None) = (Inr v, s)
     \<and> (\<forall>c \<in> set (rr_selected sample_result). installed_at s c \<noteq> None)"
proof -
  obtain v s where run: "in_install (sample_install ''i1'' FRESH) (new_installer None) = (Inr v, s)"
    using sample_installs by blast
  have src: "resolution_source (qr_snapshot sample_resolution)
      = Inr [sample_dep_entry ''b'' [], sample_dep_entry ''a'' [''b'']]"
    by (simp add: resolution_source_def sample_resolution_def)
  have "iq_resolution (sample_install ''i1'' FRESH) = sample_result" "iq_strategy (sample_install ''i1'' FRESH) \<noteq> DRY_RUN"
    by (simp_all add: sample_install_def)
  from installed_resolution_closed [OF src sample_result_facts(1) this run new_installer_ok(1)] run
  show ?thesis by blast
qed

subsection \<open>Limits of the installer\<close>

text \<open>The rollback of a dry run uninstalls what another installation installed: records are removed by
  coordinate, not by the installation they belong to, and the other session stays SUCCEEDED.\<close>

definition after_dry_rollback :: installer where
  "after_dry_rollback = snd (in_rollback ''i2'' (snd (in_install (sample_install ''i2'' DRY_RUN)
     (snd (in_install (sample_install ''i1'' FRESH) (new_installer None))))))"

lemma dry_run_rollback_uninstalls:
  "map_option ss_status (map_of (ns_sessions after_dry_rollback) ''i1'') = Some IS_SUCCEEDED"
  "st_items (ns_store after_dry_rollback) = []"
  by (simp_all add: after_dry_rollback_def installer_eval in_rollback_def in_get_def store_exists_def store_remove_def)

text \<open>Cancelling does not consult the lifecycle: an installation that succeeded becomes CANCELLED, a
  transition the lifecycle forbids, and its records stay installed.\<close>

lemma cancel_after_success:
  assumes "s = snd (in_install (sample_install ''i1'' FRESH) (new_installer None))"
  shows "map_option ss_status (map_of (ns_sessions s) ''i1'') = Some IS_SUCCEEDED"
    and "map_option ss_status (map_of (ns_sessions (snd (in_cancel ''i1'' s))) ''i1'') = Some IS_CANCELLED"
    and "st_items (ns_store (snd (in_cancel ''i1'' s))) \<noteq> []"
    and "\<not> lc_can_transition IS_SUCCEEDED IS_CANCELLED"
  by (simp_all add: assms installer_eval in_cancel_def)

end
