(* ===== verification/Task_Models.thy ===== *)
theory Task_Models
  imports Workflow_Runtime "HOL-Library.Sublist"
begin

text \<open>
  The domain contracts of the task scheduler of the TikTok centre
  (\<open>tiktok/task_scheduler/models.py\<close>, \<open>adapters.py\<close>): enumerations, the task with its schedule and
  retry policy, workers, allocations, executions, checkpoints, failures and limits, and what their
  \<open>validate\<close> methods reject.

  \<^item> An exception carries its message, because \<open>fail\<close> stores the message of the exception it handles.
  \<^item> JSON values are the \<open>pyval\<close> of \<open>Workflow_Runtime\<close>. \<open>str.casefold\<close> and the length of
    \<open>json.dumps\<close> are the parameters \<open>cf\<close> and \<open>measure_json\<close> of the validation.
  \<^item> Instants are microseconds; \<open>plus_seconds\<close> is \<open>datetime + timedelta(seconds=n)\<close>, which raises
    OverflowError outside the years 1 to 9999.
\<close>

subsection \<open>Exceptions\<close>

datatype task_error =
    PermissionError string
  | ValueError string
  | TypeError string
  | OverflowError string
  | RuntimeError string
  | TimeoutError string
  | KeyError string
  | OtherError string

fun error_text :: "task_error \<Rightarrow> string" where
  "error_text (PermissionError m) = m"
| "error_text (ValueError m) = m"
| "error_text (TypeError m) = m"
| "error_text (OverflowError m) = m"
| "error_text (RuntimeError m) = m"
| "error_text (TimeoutError m) = m"
| "error_text (KeyError m) = m"
| "error_text (OtherError m) = m"

subsection \<open>Enumerations\<close>

datatype task_status =
    DRAFT | PENDING_APPROVAL | READY | QUEUED | SCHEDULED | ALLOCATED | RUNNING | PAUSED | RETRYING
  | RECOVERING | COMPLETED | FAILED | CANCELLED | ARCHIVED | DELETED

fun task_status_value :: "task_status \<Rightarrow> string" where
  "task_status_value DRAFT = ''draft''"
| "task_status_value PENDING_APPROVAL = ''pending_approval''"
| "task_status_value READY = ''ready''"
| "task_status_value QUEUED = ''queued''"
| "task_status_value SCHEDULED = ''scheduled''"
| "task_status_value ALLOCATED = ''allocated''"
| "task_status_value RUNNING = ''running''"
| "task_status_value PAUSED = ''paused''"
| "task_status_value RETRYING = ''retrying''"
| "task_status_value RECOVERING = ''recovering''"
| "task_status_value COMPLETED = ''completed''"
| "task_status_value FAILED = ''failed''"
| "task_status_value CANCELLED = ''cancelled''"
| "task_status_value ARCHIVED = ''archived''"
| "task_status_value DELETED = ''deleted''"

datatype task_type =
    ACCOUNT_HEALTH_CHECK | BROWSER_LAUNCH | BROWSER_RECOVERY | DEVICE_ALLOCATION | DEVICE_RECOVERY
  | PROXY_HEALTH_CHECK | PROXY_ALLOCATION | WORKFLOW_EXECUTION | PUBLISHING_JOB | COLLECTION_JOB
  | INTERACTION_TASK | RISK_EVALUATION | ANALYTICS_AGGREGATION | BACKUP | DIAGNOSTICS | CUSTOM_BOUNDED

fun type_value :: "task_type \<Rightarrow> string" where
  "type_value ACCOUNT_HEALTH_CHECK = ''account_health_check''"
| "type_value BROWSER_LAUNCH = ''browser_launch''"
| "type_value BROWSER_RECOVERY = ''browser_recovery''"
| "type_value DEVICE_ALLOCATION = ''device_allocation''"
| "type_value DEVICE_RECOVERY = ''device_recovery''"
| "type_value PROXY_HEALTH_CHECK = ''proxy_health_check''"
| "type_value PROXY_ALLOCATION = ''proxy_allocation''"
| "type_value WORKFLOW_EXECUTION = ''workflow_execution''"
| "type_value PUBLISHING_JOB = ''publishing_job''"
| "type_value COLLECTION_JOB = ''collection_job''"
| "type_value INTERACTION_TASK = ''interaction_task''"
| "type_value RISK_EVALUATION = ''risk_evaluation''"
| "type_value ANALYTICS_AGGREGATION = ''analytics_aggregation''"
| "type_value BACKUP = ''backup''"
| "type_value DIAGNOSTICS = ''diagnostics''"
| "type_value CUSTOM_BOUNDED = ''custom_bounded''"

text \<open>\<open>TASK_MODULE\<close>: the module whose port executes a type of task.\<close>

fun task_module :: "task_type \<Rightarrow> string" where
  "task_module ACCOUNT_HEALTH_CHECK = ''accounts''"
| "task_module BROWSER_LAUNCH = ''browser_runtime''"
| "task_module BROWSER_RECOVERY = ''browser_cluster''"
| "task_module DEVICE_ALLOCATION = ''devices''"
| "task_module DEVICE_RECOVERY = ''devices''"
| "task_module PROXY_HEALTH_CHECK = ''proxies''"
| "task_module PROXY_ALLOCATION = ''proxies''"
| "task_module WORKFLOW_EXECUTION = ''workflows''"
| "task_module PUBLISHING_JOB = ''publishing''"
| "task_module COLLECTION_JOB = ''collection''"
| "task_module INTERACTION_TASK = ''interaction''"
| "task_module RISK_EVALUATION = ''risk''"
| "task_module ANALYTICS_AGGREGATION = ''analytics''"
| "task_module BACKUP = ''local_runtime''"
| "task_module DIAGNOSTICS = ''operations''"
| "task_module CUSTOM_BOUNDED = ''custom''"

datatype priority = BACKGROUND | LOW | NORMAL | HIGH | CRITICAL

fun priority_value :: "priority \<Rightarrow> int" where
  "priority_value BACKGROUND = 10"
| "priority_value LOW = 25"
| "priority_value NORMAL = 50"
| "priority_value HIGH = 75"
| "priority_value CRITICAL = 100"

datatype schedule_kind =
    IMMEDIATE | ONE_TIME | RECURRING | INTERVAL | CALENDAR_WINDOW | EVENT_TRIGGERED
  | DEPENDENCY_TRIGGERED

datatype missed_run_policy = SKIP | RUN_ONCE | RESCHEDULE

datatype dependency_requirement = NEEDS_SUCCESS | NEEDS_COMPLETION | OPTIONAL

datatype worker_status = IDLE | ACTIVE | DRAINING | OFFLINE | UNHEALTHY

datatype failure_category =
    BY_VALIDATION | BY_APPROVAL | BY_RISK | BY_RESOURCE | BY_ACCOUNT | BY_BROWSER | BY_DEVICE
  | BY_PROXY | BY_WORKFLOW | BY_PUBLISHING | BY_COLLECTION | BY_INTERACTION | BY_TIMEOUT
  | BY_CANCELLATION | BY_UNKNOWN

fun failure_value :: "failure_category \<Rightarrow> string" where
  "failure_value BY_VALIDATION = ''validation''"
| "failure_value BY_APPROVAL = ''approval''"
| "failure_value BY_RISK = ''risk''"
| "failure_value BY_RESOURCE = ''resource''"
| "failure_value BY_ACCOUNT = ''account''"
| "failure_value BY_BROWSER = ''browser''"
| "failure_value BY_DEVICE = ''device''"
| "failure_value BY_PROXY = ''proxy''"
| "failure_value BY_WORKFLOW = ''workflow''"
| "failure_value BY_PUBLISHING = ''publishing''"
| "failure_value BY_COLLECTION = ''collection''"
| "failure_value BY_INTERACTION = ''interaction''"
| "failure_value BY_TIMEOUT = ''timeout''"
| "failure_value BY_CANCELLATION = ''cancellation''"
| "failure_value BY_UNKNOWN = ''unknown''"

subsection \<open>Records\<close>

record task_scope =
  sc_tenant :: string
  sc_workspace :: string
  sc_actor :: string
  sc_permissions :: "string set"

text \<open>\<open>SchedulerScope.__post_init__\<close>.\<close>

definition mk_scope :: "string \<Rightarrow> string \<Rightarrow> string \<Rightarrow> string set \<Rightarrow> task_error + task_scope" where
  "mk_scope tenant workspace actor permissions =
     (if tenant = '''' \<or> workspace = '''' \<or> actor = ''''
      then Inl (ValueError ''Tenant, workspace, and actor are required.'')
      else Inr \<lparr>sc_tenant = tenant, sc_workspace = workspace, sc_actor = actor,
                sc_permissions = permissions\<rparr>)"

record task_schedule =
  sd_kind :: schedule_kind
  sd_timezone :: string
  sd_start :: "time option"
  sd_end :: "time option"
  sd_interval :: "int option"
  sd_maximum_runs :: int
  sd_runs :: int
  sd_missed :: missed_run_policy
  sd_event :: string

definition default_schedule :: task_schedule where
  "default_schedule = \<lparr>sd_kind = IMMEDIATE, sd_timezone = ''UTC'', sd_start = None, sd_end = None,
     sd_interval = None, sd_maximum_runs = 1, sd_runs = 0, sd_missed = SKIP, sd_event = ''''\<rparr>"

record task_retry =
  tr_maximum_attempts :: int
  tr_delay_seconds :: int
  tr_exponential :: bool
  tr_cooldown_seconds :: int
  tr_categories :: "failure_category set"

definition default_retry :: task_retry where
  "default_retry = \<lparr>tr_maximum_attempts = 3, tr_delay_seconds = 5, tr_exponential = True,
     tr_cooldown_seconds = 0,
     tr_categories = {BY_RESOURCE, BY_BROWSER, BY_DEVICE, BY_PROXY, BY_WORKFLOW, BY_TIMEOUT, BY_UNKNOWN}\<rparr>"

record scheduled_task =
  tk_id :: string
  tk_name :: string
  tk_description :: string
  tk_type :: task_type
  tk_tenant :: string
  tk_workspace :: string
  tk_owner :: string
  tk_account :: string
  tk_browser :: string
  tk_device :: string
  tk_proxy :: string
  tk_workflow :: string
  tk_priority :: priority
  tk_status :: task_status
  tk_version :: int
  tk_metadata :: data
  tk_payload :: data
  tk_schedule :: task_schedule
  tk_retry :: task_retry
  tk_approval :: string
  tk_created :: time
  tk_updated :: time

record task_dependency =
  td_task :: string
  td_depends_on :: string
  td_requirement :: dependency_requirement
  td_parallel :: bool
  td_timeout :: int

record task_worker =
  wk_id :: string
  wk_type :: string
  wk_capacity :: int
  wk_supported :: "task_type set"
  wk_scope :: string
  wk_load :: int
  wk_status :: worker_status
  wk_heartbeat :: time
  wk_health :: string
  wk_last_active :: time

definition worker_available :: "task_worker \<Rightarrow> bool" where
  "worker_available w \<longleftrightarrow> wk_status w \<in> {IDLE, ACTIVE} \<and> wk_health w = ''healthy'' \<and> wk_load w < wk_capacity w"

record task_allocation =
  al_id :: string
  al_task :: string
  al_tenant :: string
  al_workspace :: string
  al_worker :: string
  al_resources :: "(string, string) dict"
  al_expires :: time
  al_released :: bool

record task_execution =
  ex_id :: string
  ex_task :: string
  ex_tenant :: string
  ex_workspace :: string
  ex_worker :: string
  ex_status :: task_status
  ex_attempt :: int
  ex_progress :: int
  ex_started :: "time option"
  ex_finished :: "time option"
  ex_outcome :: data
  ex_cancelled :: bool

record task_checkpoint =
  ch_id :: string
  ch_execution :: string
  ch_tenant :: string
  ch_workspace :: string
  ch_state :: data
  ch_completed :: "string list"
  ch_pending :: "string list"
  ch_resources :: "(string, string) dict"
  ch_retry_position :: int
  ch_expires :: time
  ch_integrity :: string

record task_failure =
  fl_id :: string
  fl_task :: string
  fl_execution :: string
  fl_tenant :: string
  fl_workspace :: string
  fl_category :: failure_category
  fl_detail :: string
  fl_eligible :: bool
  fl_created :: time

record task_limits =
  lm_global_tasks :: int
  lm_workspace_tasks :: int
  lm_account_tasks :: int
  lm_browser_tasks :: int
  lm_device_tasks :: int
  lm_proxy_tasks :: int
  lm_concurrent_executions :: int
  lm_queue_depth :: int
  lm_retry_attempts :: int
  lm_runtime_seconds :: int
  lm_payload_size :: int
  lm_dependency_depth :: int
  lm_reservation_seconds :: int
  lm_recovery_attempts :: int

definition default_limits :: task_limits where
  "default_limits = \<lparr>lm_global_tasks = 10000, lm_workspace_tasks = 1000, lm_account_tasks = 100,
     lm_browser_tasks = 100, lm_device_tasks = 100, lm_proxy_tasks = 100, lm_concurrent_executions = 32,
     lm_queue_depth = 5000, lm_retry_attempts = 8, lm_runtime_seconds = 3600, lm_payload_size = 65536,
     lm_dependency_depth = 32, lm_reservation_seconds = 300, lm_recovery_attempts = 3\<rparr>"

subsection \<open>Validation\<close>

definition plus_seconds :: "time \<Rightarrow> int \<Rightarrow> task_error + time" where
  "plus_seconds t n =
     (if t + n * one_second < min_instant \<or> max_instant < t + n * one_second
      then Inl (OverflowError ''date value out of range'') else Inr (t + n * one_second))"

definition secret_keys :: "string list" where
  "secret_keys = [''password'', ''secret'', ''token'', ''cookie'', ''cookies'', ''credential'',
     ''credentials'', ''session'', ''proxy_password'', ''api_key'']"

text \<open>The error of the first entry that has one.\<close>

fun first_error :: "task_error option list \<Rightarrow> task_error option" where
  "first_error [] = None"
| "first_error (Some e # es) = Some e"
| "first_error (None # es) = first_error es"

text \<open>The inner function \<open>walk\<close> of \<open>validate_safe_payload\<close>.\<close>

primrec walk_payload :: "(string \<Rightarrow> string) \<Rightarrow> pyval \<Rightarrow> task_error option" where
  "walk_payload cf VNone = None"
| "walk_payload cf (VBool b) = None"
| "walk_payload cf (VInt n) = None"
| "walk_payload cf (VFloat x) = None"
| "walk_payload cf (VStr s) = None"
| "walk_payload cf (VList vs) = first_error (map (walk_payload cf) vs)"
| "walk_payload cf (VTuple vs) = first_error (map (walk_payload cf) vs)"
| "walk_payload cf (VSet vs) = Some (TypeError ''Payload values must be JSON-safe.'')"
| "walk_payload cf (VDict kvs) =
     first_error (map (\<lambda>(k, e). if cf k \<in> set secret_keys
                    then Some (ValueError ''Secrets, cookies, sessions, and credentials are forbidden.'')
                    else e) (map (map_prod id (walk_payload cf)) kvs))"
| "walk_payload cf (VObj r c) = Some (TypeError ''Payload values must be JSON-safe.'')"

definition unsafe_payload :: "(string \<Rightarrow> string) \<Rightarrow> (pyval \<Rightarrow> int) \<Rightarrow> data \<Rightarrow> int \<Rightarrow> task_error option" where
  "unsafe_payload cf measure_json d maximum =
     (case walk_payload cf (VDict d) of
        Some e \<Rightarrow> Some e
      | None \<Rightarrow> if maximum < measure_json (VDict d)
                then Some (ValueError ''Task payload exceeds the configured bounded measure_json.'') else None)"

definition invalid_schedule :: "task_schedule \<Rightarrow> task_error option" where
  "invalid_schedule s =
     (if sd_maximum_runs s < 1 \<or> 10000 < sd_maximum_runs s
      then Some (ValueError ''Maximum runs must be within [1, 10000].'')
      else if (case (sd_end s, sd_start s) of (Some e, Some b) \<Rightarrow> e \<le> b | _ \<Rightarrow> False)
      then Some (ValueError ''Schedule end time must follow start time.'')
      else if sd_kind s = INTERVAL \<and>
        \<not> (case sd_interval s of None \<Rightarrow> False | Some n \<Rightarrow> n \<noteq> 0 \<and> 1 \<le> n \<and> n \<le> 31536000)
      then Some (ValueError ''Interval schedules require a bounded interval.'')
      else None)"

definition invalid_retry :: "task_retry \<Rightarrow> int \<Rightarrow> task_error option" where
  "invalid_retry r maximum =
     (if tr_maximum_attempts r < 0 \<or> maximum < tr_maximum_attempts r
      then Some (ValueError ''Retry attempts exceed the configured bounded limit.'')
      else if tr_delay_seconds r < 0 \<or> 86400 < tr_delay_seconds r
      then Some (ValueError ''Retry delay must be within [0, 86400].'')
      else None)"

definition delay_for :: "task_retry \<Rightarrow> int \<Rightarrow> int" where
  "delay_for r attempt =
     (let multiplier = (if tr_exponential r then 2 ^ nat (max 0 (attempt - 1)) else 1)
      in min 86400 (tr_delay_seconds r * multiplier + tr_cooldown_seconds r))"

definition forbidden_fields :: "string list" where
  "forbidden_fields = [''code'', ''command'', ''script'', ''shell'', ''executable'']"

text \<open>\<open>ScheduledTask.validate\<close>: the first check that fails.\<close>

definition invalid_task ::
  "(string \<Rightarrow> string) \<Rightarrow> (pyval \<Rightarrow> int) \<Rightarrow> task_limits \<Rightarrow> scheduled_task \<Rightarrow> task_error option" where
  "invalid_task cf measure_json lm t = first_error
     [if tk_id t = '''' \<or> tk_name t = '''' \<or> tk_tenant t = '''' \<or> tk_workspace t = '''' \<or> tk_owner t = ''''
      then Some (ValueError ''Task identity, scope, and owner are required.'') else None,
      if priority_value (tk_priority t) < 1 \<or> 100 < priority_value (tk_priority t)
      then Some (ValueError ''Priority must be within [1, 100].'') else None,
      invalid_schedule (tk_schedule t),
      invalid_retry (tk_retry t) (lm_retry_attempts lm),
      unsafe_payload cf measure_json (tk_metadata t) (lm_payload_size lm),
      unsafe_payload cf measure_json (tk_payload t) (lm_payload_size lm),
      if tk_type t = CUSTOM_BOUNDED \<and> map_of (tk_payload t) ''handler_reference'' = None
      then Some (ValueError ''Custom tasks require a registered handler_reference.'') else None,
      if \<exists>k \<in> set (map fst (tk_payload t)). cf k \<in> set forbidden_fields
      then Some (ValueError ''Arbitrary code execution fields are forbidden.'') else None]"

definition limit_values :: "task_limits \<Rightarrow> int list" where
  "limit_values lm = [lm_global_tasks lm, lm_workspace_tasks lm, lm_account_tasks lm, lm_browser_tasks lm,
     lm_device_tasks lm, lm_proxy_tasks lm, lm_concurrent_executions lm, lm_queue_depth lm,
     lm_retry_attempts lm, lm_runtime_seconds lm, lm_payload_size lm, lm_dependency_depth lm,
     lm_reservation_seconds lm, lm_recovery_attempts lm]"

definition invalid_limits :: "task_limits \<Rightarrow> task_error option" where
  "invalid_limits lm = first_error
     [if \<exists>n \<in> set (limit_values lm). n \<le> 0
      then Some (ValueError ''All scheduler limits must be positive bounded integers.'') else None,
      if 100 < lm_retry_attempts lm \<or> 100 < lm_dependency_depth lm
      then Some (ValueError ''Retry attempts and dependency depth may not exceed 100.'') else None,
      if 1048576 < lm_payload_size lm
      then Some (ValueError ''Maximum payload measure_json may not exceed 1 MiB.'') else None]"

subsection \<open>What validation guarantees\<close>

lemma first_error_None: "first_error es = None \<longleftrightarrow> (\<forall>e \<in> set es. e = None)"
  by (induction es rule: first_error.induct) auto

text \<open>The keys that occur anywhere in a value, and whether a value has a part that JSON cannot hold.\<close>

primrec payload_keys :: "pyval \<Rightarrow> string set" where
  "payload_keys VNone = {}"
| "payload_keys (VBool b) = {}"
| "payload_keys (VInt n) = {}"
| "payload_keys (VFloat x) = {}"
| "payload_keys (VStr s) = {}"
| "payload_keys (VList vs) = \<Union> (set (map payload_keys vs))"
| "payload_keys (VTuple vs) = \<Union> (set (map payload_keys vs))"
| "payload_keys (VSet vs) = {}"
| "payload_keys (VDict kvs) = (\<Union>(k, ks) \<in> set (map (map_prod id payload_keys) kvs). insert k ks)"
| "payload_keys (VObj r c) = {}"

primrec json_shaped :: "pyval \<Rightarrow> bool" where
  "json_shaped VNone = True"
| "json_shaped (VBool b) = True"
| "json_shaped (VInt n) = True"
| "json_shaped (VFloat x) = True"
| "json_shaped (VStr s) = True"
| "json_shaped (VList vs) = list_all id (map json_shaped vs)"
| "json_shaped (VTuple vs) = list_all id (map json_shaped vs)"
| "json_shaped (VSet vs) = False"
| "json_shaped (VDict kvs) = list_all snd (map (map_prod id json_shaped) kvs)"
| "json_shaped (VObj r c) = False"

lemma walk_payload_None:
  "walk_payload cf v = None \<longleftrightarrow> json_shaped v \<and> (\<forall>k \<in> payload_keys v. cf k \<notin> set secret_keys)"
proof (induction v)
  case (VDict kvs)
  have IH: "walk_payload cf v = None \<longleftrightarrow> json_shaped v \<and> (\<forall>k \<in> payload_keys v. cf k \<notin> set secret_keys)"
    if "(k, v) \<in> set kvs" for k v
    using VDict [OF that, of v] by simp
  show ?case
    using IH by (fastforce simp: first_error_None list_all_iff split: if_splits)
qed (auto simp: first_error_None list_all_iff)

lemma safe_payload_iff:
  "unsafe_payload cf measure_json d maximum = None \<longleftrightarrow>
     json_shaped (VDict d) \<and> (\<forall>k \<in> payload_keys (VDict d). cf k \<notin> set secret_keys) \<and> measure_json (VDict d) \<le> maximum"
  unfolding unsafe_payload_def
  using walk_payload_None [of cf "VDict d"]
  by (auto simp del: walk_payload.simps json_shaped.simps payload_keys.simps split: option.splits)

lemma delay_for_upper: "delay_for r attempt \<le> 86400"
  by (simp add: delay_for_def Let_def)

lemma delay_for_nonneg:
  assumes "0 \<le> tr_delay_seconds r" "0 \<le> tr_cooldown_seconds r"
  shows "0 \<le> delay_for r attempt"
  using assms by (simp add: delay_for_def Let_def)

lemma delay_for_mono:
  assumes "0 \<le> tr_delay_seconds r" "a \<le> b"
  shows "delay_for r a \<le> delay_for r b"
proof -
  have "(2 :: int) ^ nat (max 0 (a - 1)) \<le> 2 ^ nat (max 0 (b - 1))"
    using assms(2) by (intro power_increasing) auto
  with assms(1) have "tr_delay_seconds r * 2 ^ nat (max 0 (a - 1)) \<le> tr_delay_seconds r * 2 ^ nat (max 0 (b - 1))"
    by (intro mult_left_mono)
  then show ?thesis by (auto simp: delay_for_def Let_def intro: min.coboundedI2)
qed

end
