(* ===== verification/Task_Center.thy ===== *)
theory Task_Center
  imports Task_Models
begin

text \<open>
  The task scheduler service of the TikTok centre (\<open>tiktok/task_scheduler/service.py\<close>,
  \<open>metrics.py\<close>): its state and every operation.

  \<^item> An operation is an action \<open>'a act\<close>: it maps a state to an exception or a value, and a state. An
    exception does not undo what was changed before it was raised; the final state is the one the
    caller finds after the exception.
  \<^item> The clock, \<open>perf_counter\<close>, \<open>uuid4\<close>, \<open>str.casefold\<close>, the length of \<open>json.dumps\<close> and the SHA-256
    digest are functions of an environment \<open>task_env\<close>; the state counts the readings, so two readings
    of the clock in one operation are two instants.
  \<^item> The objects of the source are mutable and shared; here the dictionaries of the state hold the only
    copy, and an operation that needs the value after a change reads it again.
  \<^item> Ports are actions on the same state: a port may call the service again.
  \<^item> \<open>_rotation\<close> is kept as the source keeps it; nothing reads it.
\<close>

subsection \<open>State\<close>

record task_env =
  te_clock :: "nat \<Rightarrow> time"
  te_timer :: "nat \<Rightarrow> pyfloat"
  te_uuid :: "nat \<Rightarrow> string"
  te_casefold :: "string \<Rightarrow> string"
  te_json_bytes :: "pyval \<Rightarrow> int"
  te_digest :: "pyval \<Rightarrow> string"

record task_audit =
  ta_actor :: string
  ta_action :: string
  ta_resource :: string
  ta_tenant :: string
  ta_workspace :: string
  ta_detail :: string
  ta_timestamp :: time

record task_center =
  tc_env :: task_env
  tc_ticks :: nat
  tc_timed :: nat
  tc_uuids :: nat
  tc_limits :: task_limits
  tc_tasks :: "(string, scheduled_task) dict"
  tc_dependencies :: "(string, task_dependency list) dict"
  tc_workers :: "(string, task_worker) dict"
  tc_allocations :: "(string, task_allocation) dict"
  tc_executions :: "(string, task_execution) dict"
  tc_checkpoints :: "(string, task_checkpoint) dict"
  tc_failures :: "(string, task_failure) dict"
  tc_queues :: "(string, string list) dict"
  tc_delayed :: "(string, time) dict"
  tc_recoveries :: "(string, int) dict"
  tc_audit :: "task_audit list"
  tc_metrics :: "(string, pyfloat) dict"
  tc_kill_switch :: bool
  tc_paused_workspaces :: "(string \<times> string) set"
  tc_paused_accounts :: "string set"
  tc_paused_features :: "task_type set"
  tc_rotation :: "(string \<times> string) list"

definition new_center :: "task_env \<Rightarrow> task_limits \<Rightarrow> task_error + task_center" where
  "new_center env lm =
     (case invalid_limits lm of
        Some e \<Rightarrow> Inl e
      | None \<Rightarrow> Inr \<lparr>tc_env = env, tc_ticks = 0, tc_timed = 0, tc_uuids = 0, tc_limits = lm,
          tc_tasks = [], tc_dependencies = [], tc_workers = [], tc_allocations = [],
          tc_executions = [], tc_checkpoints = [], tc_failures = [], tc_queues = [], tc_delayed = [],
          tc_recoveries = [], tc_audit = [], tc_metrics = [], tc_kill_switch = False,
          tc_paused_workspaces = {}, tc_paused_accounts = {}, tc_paused_features = {},
          tc_rotation = []\<rparr>)"

subsection \<open>Actions\<close>

type_synonym 'a act = "task_center \<Rightarrow> (task_error + 'a) \<times> task_center"

definition act_return :: "'a \<Rightarrow> 'a act" where
  "act_return x s = (Inr x, s)"

definition act_raise :: "task_error \<Rightarrow> 'a act" where
  "act_raise e s = (Inl e, s)"

definition act_bind :: "'a act \<Rightarrow> ('a \<Rightarrow> 'b act) \<Rightarrow> 'b act" where
  "act_bind m f s = (case m s of (Inl e, s') \<Rightarrow> (Inl e, s') | (Inr x, s') \<Rightarrow> f x s')"

definition act_seq :: "'a act \<Rightarrow> 'b act \<Rightarrow> 'b act" where
  "act_seq m n = act_bind m (\<lambda>_. n)"

definition act_check :: "bool \<Rightarrow> task_error \<Rightarrow> unit act" where
  "act_check b e = (if b then act_return () else act_raise e)"

definition act_when :: "bool \<Rightarrow> unit act \<Rightarrow> unit act" where
  "act_when b m = (if b then m else act_return ())"

definition act_get :: "(task_center \<Rightarrow> 'a) \<Rightarrow> 'a act" where
  "act_get f s = (Inr (f s), s)"

text \<open>A guard that reads the state, and a sequence of actions.\<close>

definition act_check_that :: "(task_center \<Rightarrow> bool) \<Rightarrow> task_error \<Rightarrow> unit act" where
  "act_check_that P e s = (if P s then (Inr (), s) else (Inl e, s))"

primrec act_all :: "unit act list \<Rightarrow> unit act" where
  "act_all [] = act_return ()"
| "act_all (m # ms) = act_seq m (act_all ms)"

definition act_modify :: "(task_center \<Rightarrow> task_center) \<Rightarrow> unit act" where
  "act_modify f s = (Inr (), f s)"

definition act_lift :: "task_error + 'a \<Rightarrow> 'a act" where
  "act_lift r s = (r, s)"

text \<open>\<open>try: m except: h\<close>, where \<open>h\<close> raises again what it does not handle, and \<open>try: m finally: n\<close>.\<close>

definition act_catch :: "'a act \<Rightarrow> (task_error \<Rightarrow> 'a act) \<Rightarrow> 'a act" where
  "act_catch m h s = (case m s of (Inl e, s') \<Rightarrow> h e s' | (Inr x, s') \<Rightarrow> (Inr x, s'))"

definition act_finally :: "'a act \<Rightarrow> unit act \<Rightarrow> 'a act" where
  "act_finally m n s =
     (case m s of (r, s') \<Rightarrow> (case n s' of (Inl e, s'') \<Rightarrow> (Inl e, s'') | (Inr _, s'') \<Rightarrow> (r, s'')))"

definition act_lookup :: "(task_center \<Rightarrow> (string, 'v) dict) \<Rightarrow> string \<Rightarrow> 'v act" where
  "act_lookup f k s = (case map_of (f s) k of None \<Rightarrow> (Inl (KeyError k), s) | Some v \<Rightarrow> (Inr v, s))"

lemmas act_defs = act_return_def act_raise_def act_bind_def act_seq_def act_check_def act_when_def
  act_get_def act_check_that_def act_modify_def act_lift_def act_catch_def act_finally_def act_lookup_def

subsection \<open>The environment\<close>

definition utcnow :: "time act" where
  "utcnow s = (Inr (te_clock (tc_env s) (tc_ticks s)), s\<lparr>tc_ticks := tc_ticks s + 1\<rparr>)"

definition perf_counter :: "pyfloat act" where
  "perf_counter s = (Inr (te_timer (tc_env s) (tc_timed s)), s\<lparr>tc_timed := tc_timed s + 1\<rparr>)"

definition uuid4 :: "string act" where
  "uuid4 s = (Inr (te_uuid (tc_env s) (tc_uuids s)), s\<lparr>tc_uuids := tc_uuids s + 1\<rparr>)"

definition safe_payload :: "data \<Rightarrow> unit act" where
  "safe_payload d s =
     (case unsafe_payload (te_casefold (tc_env s)) (te_json_bytes (tc_env s)) d (lm_payload_size (tc_limits s)) of
        Some e \<Rightarrow> (Inl e, s) | None \<Rightarrow> (Inr (), s))"

text \<open>\<open>bool(value)\<close>; objects of other classes count as true.\<close>

fun truthy :: "pyval \<Rightarrow> bool" where
  "truthy VNone = False"
| "truthy (VBool b) = b"
| "truthy (VInt n) = (n \<noteq> 0)"
| "truthy (VFloat x) = (x \<noteq> Fin 0)"
| "truthy (VStr s) = (s \<noteq> '''')"
| "truthy (VList vs) = (vs \<noteq> [])"
| "truthy (VTuple vs) = (vs \<noteq> [])"
| "truthy (VSet vs) = (vs \<noteq> [])"
| "truthy (VDict kvs) = (kvs \<noteq> [])"
| "truthy (VObj r c) = True"

definition flagged :: "data \<Rightarrow> string \<Rightarrow> bool" where
  "flagged d k = (case map_of d k of None \<Rightarrow> False | Some v \<Rightarrow> truthy v)"

subsection \<open>Metrics\<close>

definition metric_names :: "string list" where
  "metric_names = [''tiktok_scheduler_tasks_total'', ''tiktok_scheduler_queued_total'',
     ''tiktok_scheduler_running_total'', ''tiktok_scheduler_completed_total'',
     ''tiktok_scheduler_failed_total'', ''tiktok_scheduler_retry_total'',
     ''tiktok_scheduler_recovery_total'', ''tiktok_scheduler_dead_letter_total'',
     ''tiktok_scheduler_queue_depth'', ''tiktok_scheduler_worker_utilization'',
     ''tiktok_scheduler_queue_wait_seconds'', ''tiktok_scheduler_execution_seconds'',
     ''tiktok_scheduler_latency_seconds'']"

definition metric_value :: "string \<Rightarrow> task_center \<Rightarrow> pyfloat" where
  "metric_value name s = dict_get (tc_metrics s) name (Fin 0)"

definition metric_increment :: "string \<Rightarrow> unit act" where
  "metric_increment name =
     act_seq (act_check (name \<in> set metric_names) (ValueError (''Unknown scheduler metric: '' @ name)))
       (act_modify (\<lambda>s. s\<lparr>tc_metrics := AList.update name (py_add (metric_value name s) (Fin 1)) (tc_metrics s)\<rparr>))"

text \<open>\<open>max(0, value)\<close> keeps 0 unless the value is greater.\<close>

definition metric_set :: "string \<Rightarrow> pyfloat \<Rightarrow> unit act" where
  "metric_set name x =
     act_seq (act_check (name \<in> set metric_names) (ValueError (''Unknown scheduler metric: '' @ name)))
       (act_modify (\<lambda>s. s\<lparr>tc_metrics :=
          AList.update name (if py_lt (Fin 0) x then x else Fin 0) (tc_metrics s)\<rparr>))"

definition queued_count :: "task_center \<Rightarrow> int" where
  "queued_count s = sum_list (map (\<lambda>(k, q). int (length q)) (tc_queues s))"

definition update_queue_metric :: "unit act" where
  "update_queue_metric =
     act_bind (act_get queued_count) (\<lambda>n. metric_set ''tiktok_scheduler_queue_depth'' (Fin (of_int n)))"

definition utilization :: "task_center \<Rightarrow> pyfloat" where
  "utilization s =
     (let capacity = sum_list (map (\<lambda>(k, w). wk_capacity w) (tc_workers s));
          load = sum_list (map (\<lambda>(k, w). wk_load w) (tc_workers s))
      in case py_int_div load capacity of None \<Rightarrow> Fin 0 | Some x \<Rightarrow> x)"

definition update_worker_metric :: "unit act" where
  "update_worker_metric =
     act_bind (act_get utilization) (metric_set ''tiktok_scheduler_worker_utilization'')"

subsection \<open>Access and audit\<close>

definition require :: "task_scope \<Rightarrow> string \<Rightarrow> unit act" where
  "require sc p =
     act_check (''tiktok:scheduler:'' @ p \<in> sc_permissions sc \<or> ''tiktok:scheduler:admin'' \<in> sc_permissions sc)
       (PermissionError (''RBAC permission required: tiktok:scheduler:'' @ p))"

definition in_scope :: "string \<Rightarrow> string \<Rightarrow> task_scope \<Rightarrow> unit act" where
  "in_scope tenant workspace sc =
     act_check (tenant = sc_tenant sc \<and> workspace = sc_workspace sc)
       (PermissionError ''Cross-tenant or cross-workspace access denied.'')"

definition secret_markers :: "string list" where
  "secret_markers = [''password='', ''secret='', ''token='', ''cookie='', ''session='']"

definition record_audit :: "task_scope \<Rightarrow> string \<Rightarrow> string \<Rightarrow> string \<Rightarrow> unit act" where
  "record_audit sc action resource detail =
     act_bind (act_get (\<lambda>s. te_casefold (tc_env s) detail)) (\<lambda>lowered.
     act_seq (act_check (\<not> list_ex (\<lambda>marker. sublist marker lowered) secret_markers)
               (ValueError ''Secrets are forbidden in scheduler audit records.''))
    (act_bind utcnow (\<lambda>now.
     act_modify (\<lambda>s. s\<lparr>tc_audit := tc_audit s @
       [\<lparr>ta_actor = sc_actor sc, ta_action = action, ta_resource = resource,
         ta_tenant = sc_tenant sc, ta_workspace = sc_workspace sc, ta_detail = detail,
         ta_timestamp = now\<rparr>]\<rparr>))))"

definition scoped_tasks :: "task_center \<Rightarrow> task_scope \<Rightarrow> scheduled_task list" where
  "scoped_tasks s sc =
     filter (\<lambda>t. tk_tenant t = sc_tenant sc \<and> tk_workspace t = sc_workspace sc) (map snd (tc_tasks s))"

definition update_task :: "string \<Rightarrow> (scheduled_task \<Rightarrow> scheduled_task) \<Rightarrow> unit act" where
  "update_task i f = act_modify (\<lambda>s. s\<lparr>tc_tasks := AList.map_entry i f (tc_tasks s)\<rparr>)"

definition update_execution :: "string \<Rightarrow> (task_execution \<Rightarrow> task_execution) \<Rightarrow> unit act" where
  "update_execution i f = act_modify (\<lambda>s. s\<lparr>tc_executions := AList.map_entry i f (tc_executions s)\<rparr>)"

definition update_worker :: "string \<Rightarrow> (task_worker \<Rightarrow> task_worker) \<Rightarrow> unit act" where
  "update_worker i f = act_modify (\<lambda>s. s\<lparr>tc_workers := AList.map_entry i f (tc_workers s)\<rparr>)"

subsection \<open>Tasks\<close>

definition closed_statuses :: "task_status set" where
  "closed_statuses = {COMPLETED, CANCELLED, ARCHIVED, DELETED}"

text \<open>The number of tasks that hold a resource.\<close>

definition holders :: "(scheduled_task \<Rightarrow> string) \<Rightarrow> string \<Rightarrow> task_center \<Rightarrow> nat" where
  "holders field r s =
     length (filter (\<lambda>(i, t). field t = r \<and> tk_status t \<notin> closed_statuses) (tc_tasks s))"

definition check_resource_limit ::
  "scheduled_task \<Rightarrow> (scheduled_task \<Rightarrow> string) \<Rightarrow> string \<Rightarrow> (task_limits \<Rightarrow> int) \<Rightarrow> unit act" where
  "check_resource_limit t field name limit =
     act_check_that (\<lambda>s. \<not> (field t \<noteq> '''' \<and> limit (tc_limits s) \<le> int (holders field (field t) s)))
       (OverflowError (name @ '' task admission limit reached.''))"

definition workspace_count :: "string \<Rightarrow> string \<Rightarrow> task_center \<Rightarrow> nat" where
  "workspace_count tenant workspace s =
     length (filter (\<lambda>(i, t). tk_tenant t = tenant \<and> tk_workspace t = workspace) (tc_tasks s))"

definition validate_task :: "scheduled_task \<Rightarrow> unit act" where
  "validate_task t s =
     (case invalid_task (te_casefold (tc_env s)) (te_json_bytes (tc_env s)) (tc_limits s) t of
        Some e \<Rightarrow> (Inl e, s) | None \<Rightarrow> (Inr (), s))"

definition create_task :: "scheduled_task \<Rightarrow> task_scope \<Rightarrow> scheduled_task act" where
  "create_task t sc =
     act_seq (act_all
       [require sc ''write'',
        in_scope (tk_tenant t) (tk_workspace t) sc,
        validate_task t,
        act_check_that (\<lambda>s. map_of (tc_tasks s) (tk_id t) = None) (ValueError ''Task ID must be unique.''),
        act_check_that (\<lambda>s. int (length (tc_tasks s)) < lm_global_tasks (tc_limits s))
          (OverflowError ''Global task admission limit reached.''),
        act_check_that (\<lambda>s. int (workspace_count (tk_tenant t) (tk_workspace t) s)
                               < lm_workspace_tasks (tc_limits s))
          (OverflowError ''Workspace task admission limit reached.''),
        check_resource_limit t tk_account ''account_reference'' lm_account_tasks,
        check_resource_limit t tk_browser ''browser_reference'' lm_browser_tasks,
        check_resource_limit t tk_device ''device_reference'' lm_device_tasks,
        check_resource_limit t tk_proxy ''proxy_reference'' lm_proxy_tasks,
        act_modify (\<lambda>s. s\<lparr>tc_tasks := AList.update (tk_id t) t (tc_tasks s)\<rparr>),
        metric_increment ''tiktok_scheduler_tasks_total'',
        record_audit sc ''task.created'' (tk_id t) (type_value (tk_type t))])
     (act_return t)"

fun task_transitions :: "task_status \<Rightarrow> task_status set" where
  "task_transitions DRAFT = {PENDING_APPROVAL, READY, CANCELLED}"
| "task_transitions PENDING_APPROVAL = {READY, CANCELLED}"
| "task_transitions READY = {QUEUED, SCHEDULED, CANCELLED}"
| "task_transitions SCHEDULED = {QUEUED, PAUSED, CANCELLED}"
| "task_transitions QUEUED = {ALLOCATED, PAUSED, CANCELLED}"
| "task_transitions ALLOCATED = {RUNNING, QUEUED, FAILED, CANCELLED}"
| "task_transitions RUNNING = {PAUSED, RETRYING, RECOVERING, COMPLETED, FAILED, CANCELLED}"
| "task_transitions PAUSED = {READY, QUEUED, CANCELLED}"
| "task_transitions RETRYING = {QUEUED, FAILED, CANCELLED}"
| "task_transitions RECOVERING = {QUEUED, FAILED, CANCELLED}"
| "task_transitions COMPLETED = {ARCHIVED}"
| "task_transitions FAILED = {RETRYING, RECOVERING, ARCHIVED}"
| "task_transitions CANCELLED = {ARCHIVED}"
| "task_transitions ARCHIVED = {DELETED}"
| "task_transitions DELETED = {}"

text \<open>The method \<open>transition\<close>.\<close>

definition move_task :: "string \<Rightarrow> task_status \<Rightarrow> task_scope \<Rightarrow> scheduled_task act" where
  "move_task i st sc =
     act_seq (require sc ''write'')
    (act_bind (act_lookup tc_tasks i) (\<lambda>t.
     act_seq (act_all
       [in_scope (tk_tenant t) (tk_workspace t) sc,
        act_check (st \<in> task_transitions (tk_status t))
          (ValueError (''Invalid task transition: '' @ task_status_value (tk_status t) @ '' -> ''
             @ task_status_value st)),
        update_task i (\<lambda>t. t\<lparr>tk_status := st, tk_version := tk_version t + 1\<rparr>),
        act_bind utcnow (\<lambda>now. update_task i (\<lambda>t. t\<lparr>tk_updated := now\<rparr>)),
        record_audit sc ''task.transition'' i (task_status_value st)])
     (act_lookup tc_tasks i)))"

definition approve_task :: "string \<Rightarrow> string \<Rightarrow> task_scope \<Rightarrow> scheduled_task act" where
  "approve_task i reference sc =
     act_seq (act_all
       [require sc ''approve'',
        act_check (reference \<noteq> '''') (ValueError ''Approval reference is required.'')])
    (act_bind (act_lookup tc_tasks i) (\<lambda>t.
     act_seq (act_all
       [in_scope (tk_tenant t) (tk_workspace t) sc,
        act_check (tk_status t = PENDING_APPROVAL) (ValueError ''Only pending tasks can be approved.''),
        update_task i (\<lambda>t. t\<lparr>tk_approval := reference\<rparr>)])
     (move_task i READY sc)))"

subsection \<open>Dependencies\<close>

type_synonym dependency_table = "(string, task_dependency list) dict"

definition parents :: "dependency_table \<Rightarrow> string \<Rightarrow> string list" where
  "parents ds i = map td_depends_on (dict_get ds i [])"

text \<open>The nodes with an entry that a search has not seen yet: each is expanded once.\<close>

definition unseen :: "dependency_table \<Rightarrow> string set \<Rightarrow> nat" where
  "unseen ds seen = length (filter (\<lambda>(i, d). i \<notin> seen) ds)"

lemma unseen_insert_le: "unseen ds (insert i seen) \<le> unseen ds seen"
  unfolding unseen_def by (induction ds) auto

lemma unseen_insert_less:
  assumes "map_of ds i = Some d" "i \<notin> seen"
  shows "unseen ds (insert i seen) < unseen ds seen"
proof -
  obtain xs ys where ds: "ds = xs @ (i, d) # ys"
    using map_of_SomeD [OF assms(1)] by (auto simp: in_set_conv_decomp)
  show ?thesis
    using unseen_insert_le [of xs i seen] unseen_insert_le [of ys i seen] assms(2)
    by (simp add: unseen_def ds)
qed

lemma parents_missing: "map_of ds i = None \<Longrightarrow> parents ds i = []"
  by (simp add: parents_def dict_get_def)

text \<open>The loop of \<open>_reachable\<close>; the list is the stack \<open>pending\<close>, its head the last element.\<close>

function reach_loop :: "dependency_table \<Rightarrow> string \<Rightarrow> string list \<Rightarrow> string set \<Rightarrow> bool" where
  "reach_loop ds target [] seen = False"
| "reach_loop ds target (i # pending) seen =
     (if i = target then True
      else if i \<in> seen then reach_loop ds target pending seen
      else reach_loop ds target (rev (parents ds i) @ pending) (insert i seen))"
  by pat_completeness auto
termination
proof (relation "measures [\<lambda>(ds, target, pending, seen). unseen ds seen,
    \<lambda>(ds, target, pending, seen). length pending]", goal_cases)
  case (3 ds target i pending seen)
  then show ?case
    using unseen_insert_le [of ds i seen] unseen_insert_less [of ds i _ seen] parents_missing [of ds i]
    by (cases "map_of ds i") auto
qed auto

definition reaches_task :: "dependency_table \<Rightarrow> string \<Rightarrow> string \<Rightarrow> bool" where
  "reaches_task ds start target = reach_loop ds target [start] {}"

text \<open>\<open>_depth\<close>; Python's limit on the depth of recursion is not modelled.\<close>

function (sequential)
  task_depth :: "dependency_table \<Rightarrow> string set \<Rightarrow> string \<Rightarrow> task_error + int"
and deepest :: "dependency_table \<Rightarrow> string set \<Rightarrow> string list \<Rightarrow> task_error + int"
where
  "task_depth ds visited i =
     (if i \<in> visited then Inl (ValueError ''Task dependency cycle detected.'')
      else case map_of ds i of
             None \<Rightarrow> Inr 0
           | Some [] \<Rightarrow> Inr 0
           | Some d \<Rightarrow> (case deepest ds (insert i visited) (map td_depends_on d) of
                           Inl e \<Rightarrow> Inl e | Inr n \<Rightarrow> Inr (1 + n)))"
| "deepest ds visited [] = Inr 0"
| "deepest ds visited [i] = task_depth ds visited i"
| "deepest ds visited (i # js) =
     (case task_depth ds visited i of
        Inl e \<Rightarrow> Inl e
      | Inr n \<Rightarrow> (case deepest ds visited js of Inl e \<Rightarrow> Inl e | Inr m \<Rightarrow> Inr (max n m)))"
  by pat_completeness auto
termination
  by (relation "measures [\<lambda>x. case x of Inl (ds, v, i) \<Rightarrow> unseen ds v | Inr (ds, v, js) \<Rightarrow> unseen ds v,
                          \<lambda>x. case x of Inl _ \<Rightarrow> 0 | Inr (ds, v, js) \<Rightarrow> Suc (length js)]")
    (auto simp: unseen_insert_less)

declare task_depth.simps [simp del]

definition dependency_depth :: "string \<Rightarrow> int act" where
  "dependency_depth i s = (task_depth (tc_dependencies s) {} i, s)"

definition add_dependency :: "task_dependency \<Rightarrow> task_scope \<Rightarrow> unit act" where
  "add_dependency d sc =
     act_seq (require sc ''write'')
    (act_bind (act_lookup tc_tasks (td_task d)) (\<lambda>t.
     act_bind (act_lookup tc_tasks (td_depends_on d)) (\<lambda>parent.
     act_all
       [in_scope (tk_tenant t) (tk_workspace t) sc,
        in_scope (tk_tenant parent) (tk_workspace parent) sc,
        act_check_that (\<lambda>s. \<not> (td_task d = td_depends_on d
             \<or> reaches_task (tc_dependencies s) (td_depends_on d) (td_task d)))
          (ValueError ''Task dependency cycle detected.''),
        act_bind (dependency_depth (td_depends_on d)) (\<lambda>n.
          act_check_that (\<lambda>s. n + 1 \<le> lm_dependency_depth (tc_limits s))
            (ValueError ''Maximum dependency depth exceeded.'')),
        act_check_that (\<lambda>s. 1 \<le> td_timeout d \<and> td_timeout d \<le> lm_runtime_seconds (tc_limits s))
          (ValueError ''Dependency timeout is outside configured bounds.''),
        act_modify (\<lambda>s. s\<lparr>tc_dependencies :=
          AList.update (td_task d) (dict_get (tc_dependencies s) (td_task d) [] @ [d]) (tc_dependencies s)\<rparr>),
        record_audit sc ''dependency.created'' (td_task d) (td_depends_on d)])))"

fun met_by :: "dependency_requirement \<Rightarrow> task_status \<Rightarrow> bool" where
  "met_by NEEDS_SUCCESS st = (st = COMPLETED)"
| "met_by NEEDS_COMPLETION st = (st \<in> {COMPLETED, FAILED, CANCELLED})"
| "met_by OPTIONAL st = True"

text \<open>The loop of \<open>_dependencies_ready\<close>: it stops at the first dependency that is not met.\<close>

fun ready_loop :: "task_dependency list \<Rightarrow> bool act" where
  "ready_loop [] = act_return True"
| "ready_loop (d # ds) =
     act_bind (act_lookup tc_tasks (td_depends_on d)) (\<lambda>t.
       if met_by (td_requirement d) (tk_status t) then ready_loop ds else act_return False)"

definition dependencies_ready :: "string \<Rightarrow> bool act" where
  "dependencies_ready i = act_bind (act_get (\<lambda>s. dict_get (tc_dependencies s) i [])) ready_loop"

subsection \<open>Queues\<close>

definition queue_key :: "string \<Rightarrow> string \<Rightarrow> string \<Rightarrow> string" where
  "queue_key tenant workspace q = tenant @ '':'' @ workspace @ '':'' @ q"

definition append_queue :: "string \<Rightarrow> string \<Rightarrow> unit act" where
  "append_queue k i =
     act_modify (\<lambda>s. s\<lparr>tc_queues := AList.update k (dict_get (tc_queues s) k [] @ [i]) (tc_queues s)\<rparr>)"

definition join_rotation :: "string \<times> string \<Rightarrow> unit act" where
  "join_rotation w =
     act_modify (\<lambda>s. if w \<in> set (tc_rotation s) then s else s\<lparr>tc_rotation := tc_rotation s @ [w]\<rparr>)"

text \<open>The start time decides the queue: a task that starts later waits in \<open>delayed\<close>.\<close>

definition delay_start :: "scheduled_task \<Rightarrow> string \<Rightarrow> string act" where
  "delay_start t q =
     (case sd_start (tk_schedule t) of
        None \<Rightarrow> act_return q
      | Some start \<Rightarrow> act_bind utcnow (\<lambda>now.
          if now < start
          then act_seq (act_modify (\<lambda>s. s\<lparr>tc_delayed := AList.update (tk_id t) start (tc_delayed s)\<rparr>))
                 (act_return ''delayed'')
          else act_return q))"

definition queueable :: "task_status set" where
  "queueable = {READY, SCHEDULED, RETRYING, RECOVERING}"

definition enqueue_task :: "string \<Rightarrow> task_scope \<Rightarrow> string \<Rightarrow> scheduled_task act" where
  "enqueue_task i sc q =
     act_seq (require sc ''execute'')
    (act_bind (act_lookup tc_tasks i) (\<lambda>t.
     act_seq (act_all
       [in_scope (tk_tenant t) (tk_workspace t) sc,
        act_check_that (\<lambda>s. \<not> (tc_kill_switch s \<or> (sc_tenant sc, sc_workspace sc) \<in> tc_paused_workspaces s))
          (RuntimeError ''Scheduler or workspace is paused.''),
        act_check_that (\<lambda>s. \<not> (tk_account t \<in> tc_paused_accounts s \<or> tk_type t \<in> tc_paused_features s))
          (RuntimeError ''Account or task feature is paused.''),
        act_check (tk_status t \<in> queueable) (ValueError ''Task is not eligible for queueing.''),
        act_check_that (\<lambda>s. queued_count s < lm_queue_depth (tc_limits s))
          (OverflowError ''Queue depth limit reached; backpressure active.''),
        act_bind (dependencies_ready i) (\<lambda>ok.
          act_check ok (RuntimeError ''Task dependencies are not satisfied.''))])
    (act_bind (delay_start t q) (\<lambda>q'.
     act_seq (move_task i QUEUED sc)
    (act_seq (act_all
       [append_queue (queue_key (sc_tenant sc) (sc_workspace sc) q') i,
        join_rotation (sc_tenant sc, sc_workspace sc),
        metric_increment ''tiktok_scheduler_queued_total'',
        update_queue_metric])
     (act_lookup tc_tasks i))))))"

definition touch_queue :: "string \<Rightarrow> unit act" where
  "touch_queue k = act_modify (\<lambda>s. s\<lparr>tc_queues :=
     (if map_of (tc_queues s) k = None then AList.update k [] (tc_queues s) else tc_queues s)\<rparr>)"

text \<open>The body of the loop of \<open>promote_due\<close>, and the loop over the copy of the delayed items.\<close>

definition promote_one :: "string \<Rightarrow> int act" where
  "promote_one i =
     act_bind (act_lookup tc_tasks i) (\<lambda>t.
     act_seq (act_all
       [touch_queue (queue_key (tk_tenant t) (tk_workspace t) ''delayed''),
        act_modify (\<lambda>s. s\<lparr>tc_queues :=
          AList.map_entry (queue_key (tk_tenant t) (tk_workspace t) ''delayed'') (remove1 i) (tc_queues s)\<rparr>),
        append_queue (queue_key (tk_tenant t) (tk_workspace t) ''global'') i,
        act_modify (\<lambda>s. s\<lparr>tc_delayed := AList.delete i (tc_delayed s)\<rparr>)])
     (act_return 1))"

fun promote_loop :: "time \<Rightarrow> (string \<times> time) list \<Rightarrow> int act" where
  "promote_loop now [] = act_return 0"
| "promote_loop now ((i, due) # rest) =
     act_bind (if due \<le> now then promote_one i else act_return 0) (\<lambda>n.
     act_bind (promote_loop now rest) (\<lambda>m. act_return (n + m)))"

definition promote_due :: "int act" where
  "promote_due =
     act_bind utcnow (\<lambda>now.
     act_bind (act_get tc_delayed) (\<lambda>items.
     act_bind (promote_loop now items) (\<lambda>n.
     act_seq update_queue_metric (act_return n))))"

subsection \<open>Workers\<close>

definition register_worker :: "task_worker \<Rightarrow> task_scope \<Rightarrow> task_worker act" where
  "register_worker w sc =
     act_seq (act_all
       [require sc ''manage'',
        act_check_that (\<lambda>s. \<not> (map_of (tc_workers s) (wk_id w) \<noteq> None \<or> wk_capacity w \<le> 0 \<or> 100 < wk_capacity w))
          (ValueError ''Worker ID must be unique and capacity within [1, 100].''),
        act_check (wk_scope w = ''*'' \<or> wk_scope w = sc_workspace sc)
          (PermissionError ''Worker workspace scope mismatch.''),
        act_modify (\<lambda>s. s\<lparr>tc_workers := AList.update (wk_id w) w (tc_workers s)\<rparr>),
        record_audit sc ''worker.registered'' (wk_id w) (wk_type w)])
     (act_return w)"

definition beat :: "time \<Rightarrow> string \<Rightarrow> task_worker \<Rightarrow> task_worker" where
  "beat now health w = w\<lparr>wk_heartbeat := now, wk_last_active := now, wk_health := health,
     wk_status := (if health \<noteq> ''healthy'' then UNHEALTHY else if wk_load w \<noteq> 0 then ACTIVE else IDLE)\<rparr>"

definition heartbeat_worker :: "string \<Rightarrow> string \<Rightarrow> task_scope \<Rightarrow> task_worker act" where
  "heartbeat_worker i health sc =
     act_seq (require sc ''manage'')
    (act_bind (act_lookup tc_workers i) (\<lambda>w.
     act_seq (act_all
       [act_check (wk_scope w = ''*'' \<or> wk_scope w = sc_workspace sc)
          (PermissionError ''Worker workspace scope mismatch.''),
        act_bind utcnow (\<lambda>now. update_worker i (beat now health))])
     (act_lookup tc_workers i)))"

text \<open>\<open>_release\<close>: the worker gets its slot back and the allocations of the task are released.\<close>

definition free_slot :: "task_worker \<Rightarrow> task_worker" where
  "free_slot w = w\<lparr>wk_load := max 0 (wk_load w - 1),
     wk_status := (if max 0 (wk_load w - 1) \<noteq> 0 then ACTIVE else IDLE)\<rparr>"

definition release_allocation :: "string \<Rightarrow> task_allocation \<Rightarrow> task_allocation" where
  "release_allocation i a = (if al_task a = i \<and> \<not> al_released a then a\<lparr>al_released := True\<rparr> else a)"

definition release_execution :: "task_execution \<Rightarrow> unit act" where
  "release_execution e = act_all
     [update_worker (ex_worker e) free_slot,
      act_modify (\<lambda>s. s\<lparr>tc_allocations := map (map_prod id (release_allocation (ex_task e))) (tc_allocations s)\<rparr>),
      update_worker_metric]"

subsection \<open>Dispatch\<close>

definition effective_priority :: "time \<Rightarrow> scheduled_task \<Rightarrow> int" where
  "effective_priority now t =
     min 100 (priority_value (tk_priority t) + min 40 (max 0 ((now - tk_created t) div one_minute) div 5))"

text \<open>The ids in the queues of the scope, in the order of the dictionary of queues.\<close>

definition dispatchable :: "task_scope \<Rightarrow> (string, string list) dict \<Rightarrow> string list" where
  "dispatchable sc qs = concat (map snd (filter (\<lambda>(k, q).
     prefix (sc_tenant sc @ '':'' @ sc_workspace sc @ '':'') k \<and> \<not> suffix '':delayed'' k) qs))"

fun lookup_tasks :: "string list \<Rightarrow> scheduled_task list act" where
  "lookup_tasks [] = act_return []"
| "lookup_tasks (i # js) =
     act_bind (act_lookup tc_tasks i) (\<lambda>t. act_bind (lookup_tasks js) (\<lambda>ts. act_return (t # ts)))"

definition dispatch_candidates :: "task_scope \<Rightarrow> scheduled_task list act" where
  "dispatch_candidates sc =
     act_bind (act_get (\<lambda>s. dispatchable sc (tc_queues s))) (\<lambda>js.
     act_bind (lookup_tasks js) (\<lambda>ts. act_return (filter (\<lambda>t. tk_status t = QUEUED) ts)))"

text \<open>The key of \<open>max\<close> reads the clock for every candidate. A timestamp is compared as an instant, which
  is exact for the dates that floats of seconds resolve to microseconds.\<close>

fun rank_tasks :: "scheduled_task list \<Rightarrow> ((int \<times> int) \<times> scheduled_task) list act" where
  "rank_tasks [] = act_return []"
| "rank_tasks (t # ts) =
     act_bind utcnow (\<lambda>now.
     act_bind (rank_tasks ts) (\<lambda>rs. act_return (((effective_priority now t, - tk_created t), t) # rs)))"

definition key_greater :: "int \<times> int \<Rightarrow> int \<times> int \<Rightarrow> bool" where
  "key_greater a b \<longleftrightarrow> fst b < fst a \<or> fst a = fst b \<and> snd b < snd a"

text \<open>\<open>max\<close> keeps the first of equal elements.\<close>

fun max_ranked :: "(int \<times> int) \<times> 'a \<Rightarrow> ((int \<times> int) \<times> 'a) list \<Rightarrow> (int \<times> int) \<times> 'a" where
  "max_ranked b [] = b"
| "max_ranked b (x # xs) = (if key_greater (fst x) (fst b) then max_ranked x xs else max_ranked b xs)"

definition suits :: "scheduled_task \<Rightarrow> task_worker \<Rightarrow> bool" where
  "suits t w \<longleftrightarrow> worker_available w \<and> tk_type t \<in> wk_supported w
     \<and> (wk_scope w = ''*'' \<or> wk_scope w = tk_workspace t)"

text \<open>The first queue that holds the task loses its first occurrence.\<close>

fun remove_queued :: "string \<Rightarrow> (string, string list) dict \<Rightarrow> (string, string list) dict" where
  "remove_queued i [] = []"
| "remove_queued i ((k, q) # qs) =
     (if i \<in> set q then (k, remove1 i q) # qs else (k, q) # remove_queued i qs)"

definition resource_references :: "scheduled_task \<Rightarrow> (string, string) dict" where
  "resource_references t = filter (\<lambda>(k, v). v \<noteq> '''')
     [(''account'', tk_account t), (''browser'', tk_browser t), (''device'', tk_device t),
      (''proxy'', tk_proxy t), (''workflow'', tk_workflow t)]"

definition new_execution :: "string \<Rightarrow> scheduled_task \<Rightarrow> string \<Rightarrow> task_execution" where
  "new_execution i t w = \<lparr>ex_id = i, ex_task = tk_id t, ex_tenant = tk_tenant t,
     ex_workspace = tk_workspace t, ex_worker = w, ex_status = ALLOCATED, ex_attempt = 1,
     ex_progress = 0, ex_started = None, ex_finished = None, ex_outcome = [], ex_cancelled = False\<rparr>"

definition reserve :: "scheduled_task \<Rightarrow> task_worker \<Rightarrow> unit act" where
  "reserve t w =
     act_bind uuid4 (\<lambda>u. act_bind utcnow (\<lambda>now. act_bind (act_get tc_limits) (\<lambda>lm.
     act_bind (act_lift (plus_seconds now (lm_reservation_seconds lm))) (\<lambda>expires.
     act_modify (\<lambda>s. s\<lparr>tc_allocations := AList.update (''allocation-'' @ u)
       \<lparr>al_id = ''allocation-'' @ u, al_task = tk_id t, al_tenant = tk_tenant t,
        al_workspace = tk_workspace t, al_worker = wk_id w, al_resources = resource_references t,
        al_expires = expires, al_released = False\<rparr> (tc_allocations s)\<rparr>)))))"

definition take_slot :: "task_worker \<Rightarrow> task_worker" where
  "take_slot w = w\<lparr>wk_load := wk_load w + 1, wk_status := ACTIVE\<rparr>"

definition allocate_task :: "scheduled_task \<Rightarrow> task_worker \<Rightarrow> task_scope \<Rightarrow> task_execution option act" where
  "allocate_task t w sc =
     act_seq (act_all
       [act_modify (\<lambda>s. s\<lparr>tc_queues := remove_queued (tk_id t) (tc_queues s)\<rparr>),
        reserve t w,
        update_worker (wk_id w) take_slot])
    (act_seq (move_task (tk_id t) ALLOCATED sc)
    (act_bind uuid4 (\<lambda>u. let e = new_execution (''execution-'' @ u) t (wk_id w) in
     act_seq (act_all
       [act_modify (\<lambda>s. s\<lparr>tc_executions := AList.update (ex_id e) e (tc_executions s)\<rparr>),
        record_audit sc ''task.allocated'' (tk_id t) (wk_id w),
        update_queue_metric,
        update_worker_metric])
     (act_return (Some e)))))"

definition running_count :: "task_center \<Rightarrow> int" where
  "running_count s = int (length (filter (\<lambda>(i, e). ex_status e = RUNNING) (tc_executions s)))"

definition choose_task :: "task_scope \<Rightarrow> scheduled_task option act" where
  "choose_task sc =
     act_bind (dispatch_candidates sc) (\<lambda>ts.
     act_bind (rank_tasks ts) (\<lambda>rs.
     act_return (case rs of [] \<Rightarrow> None | r # rs \<Rightarrow> Some (snd (max_ranked r rs)))))"

definition dispatch_next :: "task_scope \<Rightarrow> task_execution option act" where
  "dispatch_next sc =
     act_seq (require sc ''execute'')
    (act_bind (act_get (\<lambda>s. tc_kill_switch s \<or> lm_concurrent_executions (tc_limits s) \<le> running_count s))
      (\<lambda>closed. if closed then act_return None else
     act_bind (choose_task sc) (\<lambda>c. case c of None \<Rightarrow> act_return None | Some t \<Rightarrow>
     act_bind (act_get (\<lambda>s. find (suits t) (map snd (tc_workers s)))) (\<lambda>w.
       case w of None \<Rightarrow> act_return None | Some w \<Rightarrow> allocate_task t w sc))))"

subsection \<open>Failure and cancellation\<close>

text \<open>What \<open>fail\<close> does after the task is FAILED: retry it or put it in the dead-letter queue. The attempt
  is the one of the execution before the failure.\<close>

definition retry_or_bury :: "task_execution \<Rightarrow> scheduled_task \<Rightarrow> bool \<Rightarrow> task_scope \<Rightarrow> unit act" where
  "retry_or_bury e t eligible sc =
     (if eligible \<and> ex_attempt e < tr_maximum_attempts (tk_retry t)
      then act_seq (move_task (tk_id t) RETRYING sc)
          (act_seq (act_all
            [update_execution (ex_id e) (\<lambda>e. e\<lparr>ex_attempt := ex_attempt e + 1\<rparr>),
             act_bind utcnow (\<lambda>now.
             act_bind (act_lift (plus_seconds now (delay_for (tk_retry t) (ex_attempt e + 1)))) (\<lambda>due.
             act_modify (\<lambda>s. s\<lparr>tc_delayed := AList.update (tk_id t) due (tc_delayed s)\<rparr>)))])
          (act_seq (enqueue_task (tk_id t) sc ''retry'')
             (metric_increment ''tiktok_scheduler_retry_total'')))
      else act_all
            [append_queue (queue_key (tk_tenant t) (tk_workspace t) ''dead_letter'') (tk_id t),
             metric_increment ''tiktok_scheduler_dead_letter_total''])"

definition file_failure :: "task_execution \<Rightarrow> scheduled_task \<Rightarrow> failure_category \<Rightarrow> string \<Rightarrow> unit act" where
  "file_failure e t category detail =
     act_bind uuid4 (\<lambda>u. act_bind utcnow (\<lambda>now.
     act_modify (\<lambda>s. s\<lparr>tc_failures := AList.update (''failure-'' @ u)
       \<lparr>fl_id = ''failure-'' @ u, fl_task = tk_id t, fl_execution = ex_id e, fl_tenant = tk_tenant t,
        fl_workspace = tk_workspace t, fl_category = category, fl_detail = take 500 detail,
        fl_eligible = (category \<in> tr_categories (tk_retry t)), fl_created = now\<rparr> (tc_failures s)\<rparr>)))"

definition fail_execution ::
  "string \<Rightarrow> failure_category \<Rightarrow> string \<Rightarrow> task_scope \<Rightarrow> task_execution act" where
  "fail_execution x category detail sc =
     act_bind (act_lookup tc_executions x) (\<lambda>e.
     act_seq (in_scope (ex_tenant e) (ex_workspace e) sc)
    (act_bind (act_lookup tc_tasks (ex_task e)) (\<lambda>t.
     act_seq (act_all
       [file_failure e t category detail,
        update_execution x (\<lambda>e. e\<lparr>ex_status := FAILED\<rparr>),
        act_bind utcnow (\<lambda>now. update_execution x (\<lambda>e. e\<lparr>ex_finished := Some now\<rparr>))])
    (act_seq (move_task (tk_id t) FAILED sc)
    (act_seq (act_all
       [metric_increment ''tiktok_scheduler_failed_total'',
        release_execution e,
        retry_or_bury e t (category \<in> tr_categories (tk_retry t)) sc,
        record_audit sc ''execution.failed'' (ex_id e) (failure_value category)])
     (act_lookup tc_executions x))))))"

definition cancel_execution :: "string \<Rightarrow> task_scope \<Rightarrow> task_execution act" where
  "cancel_execution x sc =
     act_seq (require sc ''execute'')
    (act_bind (act_lookup tc_executions x) (\<lambda>e.
     act_seq (in_scope (ex_tenant e) (ex_workspace e) sc)
    (act_bind (act_lookup tc_tasks (ex_task e)) (\<lambda>t.
     act_seq (act_all
       [update_execution x (\<lambda>e. e\<lparr>ex_cancelled := True\<rparr>),
        update_execution x (\<lambda>e. e\<lparr>ex_status := CANCELLED\<rparr>),
        act_bind utcnow (\<lambda>now. update_execution x (\<lambda>e. e\<lparr>ex_finished := Some now\<rparr>)),
        act_when (tk_status t \<in> {ALLOCATED, RUNNING})
          (act_seq (move_task (tk_id t) CANCELLED sc) (act_return ())),
        release_execution e,
        record_audit sc ''execution.cancelled'' (ex_id e) ''''])
     (act_lookup tc_executions x)))))"

subsection \<open>Execution\<close>

text \<open>A port: \<open>preflight\<close> and \<open>execute\<close> of \<open>SchedulerPort\<close>, as actions on the state of the service.
  \<open>bounded_port\<close> is \<open>BoundedTestPort\<close>, the fallback of the constructor.\<close>

record task_port =
  po_preflight :: "scheduled_task \<Rightarrow> task_scope \<Rightarrow> unit act"
  po_execute :: "scheduled_task \<Rightarrow> task_scope \<Rightarrow> data act"

definition bounded_port :: task_port where
  "bounded_port = \<lparr>po_preflight = (\<lambda>t sc. act_return ()),
     po_execute = (\<lambda>t sc. act_return [(''reference'', VStr (''test-double://'' @ tk_id t)), (''bounded'', VBool True)])\<rparr>"

definition ports_of :: "(string, task_port) dict \<Rightarrow> string \<Rightarrow> task_port" where
  "ports_of given name = dict_get given name bounded_port"

text \<open>The exceptions that \<open>execute\<close> turns into a failure.\<close>

fun handled :: "task_error \<Rightarrow> bool" where
  "handled (RuntimeError m) = True"
| "handled (TimeoutError m) = True"
| "handled (ValueError m) = True"
| "handled _ = False"

definition complete_execution :: "string \<Rightarrow> task_execution \<Rightarrow> data \<Rightarrow> task_scope \<Rightarrow> task_execution act" where
  "complete_execution x e outcome sc =
     act_seq (act_all
       [safe_payload outcome,
        update_execution x (\<lambda>e. e\<lparr>ex_outcome := outcome, ex_progress := 100, ex_status := COMPLETED\<rparr>),
        act_bind utcnow (\<lambda>now. update_execution x (\<lambda>e. e\<lparr>ex_finished := Some now\<rparr>))])
    (act_seq (move_task (ex_task e) COMPLETED sc)
    (act_seq (act_all
       [metric_increment ''tiktok_scheduler_completed_total'',
        record_audit sc ''execution.completed'' (ex_id e) (ex_task e),
        release_execution e])
     (act_lookup tc_executions x)))"

text \<open>The body of the \<open>try\<close>; the task is read again because the port receives the current object.\<close>

definition run_port :: "task_port \<Rightarrow> string \<Rightarrow> task_execution \<Rightarrow> task_scope \<Rightarrow> task_execution act" where
  "run_port p x e sc =
     act_bind (act_lookup tc_tasks (ex_task e)) (\<lambda>t.
     act_seq (po_preflight p t sc)
    (act_bind (act_lookup tc_executions x) (\<lambda>e'.
       if ex_cancelled e' then cancel_execution x sc else
     act_bind (act_lookup tc_tasks (ex_task e)) (\<lambda>t'.
     act_bind (po_execute p t' sc) (\<lambda>outcome. complete_execution x e outcome sc)))))"

definition stop_timer :: "pyfloat \<Rightarrow> unit act" where
  "stop_timer started =
     act_bind perf_counter (\<lambda>now. act_all
       [metric_set ''tiktok_scheduler_execution_seconds'' (py_sub now started),
        metric_set ''tiktok_scheduler_latency_seconds'' (py_sub now started)])"

definition restricted :: "scheduled_task \<Rightarrow> bool" where
  "restricted t \<longleftrightarrow> flagged (tk_metadata t) ''restriction_active'' \<or> flagged (tk_metadata t) ''challenge_active''"

definition start_execution :: "(string \<Rightarrow> task_port) \<Rightarrow> string \<Rightarrow> task_execution \<Rightarrow> scheduled_task
    \<Rightarrow> task_scope \<Rightarrow> task_execution act" where
  "start_execution ports x e t sc =
     act_bind perf_counter (\<lambda>started.
     act_seq (act_bind utcnow (\<lambda>now. update_execution x (\<lambda>e. e\<lparr>ex_started := Some now, ex_status := RUNNING\<rparr>)))
    (act_seq (move_task (ex_task e) RUNNING sc)
    (act_seq (metric_increment ''tiktok_scheduler_running_total'')
     (act_finally
       (act_catch (run_port (ports (task_module (tk_type t))) x e sc)
          (\<lambda>err. if handled err then fail_execution x BY_UNKNOWN (error_text err) sc else act_raise err))
       (stop_timer started)))))"

definition execute_task :: "(string \<Rightarrow> task_port) \<Rightarrow> string \<Rightarrow> task_scope \<Rightarrow> task_execution act" where
  "execute_task ports x sc =
     act_seq (require sc ''execute'')
    (act_bind (act_lookup tc_executions x) (\<lambda>e.
     act_seq (in_scope (ex_tenant e) (ex_workspace e) sc)
    (act_bind (act_lookup tc_tasks (ex_task e)) (\<lambda>t.
     act_seq (act_all
       [act_check_that (\<lambda>s. \<not> tc_kill_switch s) (RuntimeError ''Scheduler kill switch is active.''),
        act_check (tk_status t = ALLOCATED) (ValueError ''Execution is not allocated.'')])
       (if tk_type t \<in> {PUBLISHING_JOB, INTERACTION_TASK} \<and> tk_approval t = ''''
        then fail_execution x BY_APPROVAL ''Approval gate denied.'' sc
        else if restricted t
        then fail_execution x BY_RISK ''Unresolved restriction or challenge.'' sc
        else start_execution ports x e t sc)))))"

subsection \<open>Checkpoints\<close>

definition create_task_checkpoint :: "string \<Rightarrow> string list \<Rightarrow> string list \<Rightarrow> data \<Rightarrow> task_scope \<Rightarrow> task_checkpoint act" where
  "create_task_checkpoint x completed pending d sc =
     act_seq (require sc ''execute'')
    (act_bind (act_lookup tc_executions x) (\<lambda>e.
     act_seq (act_all [in_scope (ex_tenant e) (ex_workspace e) sc, safe_payload d])
    (act_bind uuid4 (\<lambda>u. act_bind (act_lookup tc_tasks (ex_task e)) (\<lambda>t.
     act_bind utcnow (\<lambda>now. act_bind (act_get tc_limits) (\<lambda>lm.
     act_bind (act_lift (plus_seconds now (lm_runtime_seconds lm))) (\<lambda>expires.
     act_bind (act_get (\<lambda>s. te_digest (tc_env s) (VDict d))) (\<lambda>digest.
     let c = \<lparr>ch_id = ''checkpoint-'' @ u, ch_execution = x, ch_tenant = sc_tenant sc,
        ch_workspace = sc_workspace sc, ch_state = d, ch_completed = completed, ch_pending = pending,
        ch_resources = resource_references t, ch_retry_position = ex_attempt e, ch_expires = expires,
        ch_integrity = digest\<rparr> in
     act_seq (act_all
       [act_modify (\<lambda>s. s\<lparr>tc_checkpoints := AList.update (ch_id c) c (tc_checkpoints s)\<rparr>),
        record_audit sc ''checkpoint.created'' (ch_id c) x])
     (act_return c))))))))))"

definition recoveries :: "string \<Rightarrow> task_center \<Rightarrow> int" where
  "recoveries i s = dict_get (tc_recoveries s) i 0"

definition count_task_recovery :: "string \<Rightarrow> unit act" where
  "count_task_recovery i = act_all
     [act_modify (\<lambda>s. s\<lparr>tc_recoveries := AList.update i (recoveries i s) (tc_recoveries s)\<rparr>),
      act_check_that (\<lambda>s. recoveries i s < lm_recovery_attempts (tc_limits s))
        (RuntimeError ''Maximum recovery attempts reached.''),
      act_modify (\<lambda>s. s\<lparr>tc_recoveries := AList.update i (recoveries i s + 1) (tc_recoveries s)\<rparr>)]"

definition resume_checkpoint :: "string \<Rightarrow> task_scope \<Rightarrow> task_execution act" where
  "resume_checkpoint c sc =
     act_seq (require sc ''recover'')
    (act_bind (act_lookup tc_checkpoints c) (\<lambda>ch.
     act_seq (act_all
       [in_scope (ch_tenant ch) (ch_workspace ch) sc,
        act_bind utcnow (\<lambda>now. act_check_that (\<lambda>s. \<not> (ch_expires ch \<le> now
             \<or> te_digest (tc_env s) (VDict (ch_state ch)) \<noteq> ch_integrity ch))
          (ValueError ''Checkpoint is expired or failed integrity validation.''))])
    (act_bind (act_lookup tc_executions (ch_execution ch)) (\<lambda>e.
     act_bind (act_lookup tc_tasks (ex_task e)) (\<lambda>t.
     act_seq (act_all
       [act_check (\<not> restricted t) (RuntimeError ''Recovery stopped for an unresolved restriction or challenge.''),
        count_task_recovery (tk_id t),
        act_when (tk_status t = FAILED) (act_seq (move_task (tk_id t) RECOVERING sc) (act_return ())),
        update_execution (ex_id e) (\<lambda>e. e\<lparr>ex_attempt := ex_attempt e + 1\<rparr>),
        metric_increment ''tiktok_scheduler_recovery_total''])
    (act_seq (enqueue_task (tk_id t) sc ''recovery'')
     (act_lookup tc_executions (ch_execution ch))))))))"

subsection \<open>Safety switches and reports\<close>

definition switch :: "bool \<Rightarrow> 'a \<Rightarrow> 'a set \<Rightarrow> 'a set" where
  "switch on x xs = (if on then insert x xs else xs - {x})"

text \<open>The keyword arguments of \<open>set_pause\<close>; None is an argument that is not given.\<close>

definition set_pause :: "task_scope \<Rightarrow> bool option \<Rightarrow> bool option \<Rightarrow> string option \<Rightarrow> task_type option
    \<Rightarrow> bool \<Rightarrow> unit act" where
  "set_pause sc kill workspace account feature paused = act_all
     [require sc ''manage'',
      (case kill of None \<Rightarrow> act_return () | Some k \<Rightarrow> act_modify (\<lambda>s. s\<lparr>tc_kill_switch := k\<rparr>)),
      (case workspace of None \<Rightarrow> act_return ()
       | Some on \<Rightarrow> act_modify (\<lambda>s. s\<lparr>tc_paused_workspaces :=
           switch on (sc_tenant sc, sc_workspace sc) (tc_paused_workspaces s)\<rparr>)),
      (if account = None \<or> account = Some '''' then act_return ()
       else act_modify (\<lambda>s. s\<lparr>tc_paused_accounts := switch paused (the account) (tc_paused_accounts s)\<rparr>)),
      (case feature of None \<Rightarrow> act_return ()
       | Some f \<Rightarrow> act_modify (\<lambda>s. s\<lparr>tc_paused_features := switch paused f (tc_paused_features s)\<rparr>)),
      record_audit sc ''safety.pause.updated'' (sc_workspace sc) '''']"

definition status_count :: "task_status \<Rightarrow> scheduled_task list \<Rightarrow> int" where
  "status_count st ts = int (length (filter (\<lambda>t. tk_status t = st) ts))"

record task_telemetry =
  tt_queue_depth :: int
  tt_queued :: int
  tt_running :: int
  tt_completed :: int
  tt_failed :: int
  tt_retrying :: int
  tt_recovery :: int
  tt_dead_letter :: int
  tt_utilization :: pyfloat

definition scope_depth :: "task_scope \<Rightarrow> task_center \<Rightarrow> int" where
  "scope_depth sc s = sum_list (map (\<lambda>(k, q). int (length q))
     (filter (\<lambda>(k, q). prefix (sc_tenant sc @ '':'' @ sc_workspace sc @ '':'') k) (tc_queues s)))"

text \<open>Reading a missing metric or the missing dead-letter queue adds it to its defaultdict.\<close>

definition read_metric :: "string \<Rightarrow> pyfloat act" where
  "read_metric name s =
     (Inr (metric_value name s), s\<lparr>tc_metrics := AList.update name (metric_value name s) (tc_metrics s)\<rparr>)"

definition task_telemetry_of :: "task_scope \<Rightarrow> task_telemetry act" where
  "task_telemetry_of sc =
     act_seq (require sc ''read'')
    (act_bind (act_get (\<lambda>s. (scoped_tasks s sc, scope_depth sc s))) (\<lambda>(ts, depth).
     let dead = queue_key (sc_tenant sc) (sc_workspace sc) ''dead_letter'' in
     act_seq (touch_queue dead)
    (act_bind (act_get (\<lambda>s. int (length (dict_get (tc_queues s) dead [])))) (\<lambda>buried.
     act_bind (read_metric ''tiktok_scheduler_worker_utilization'') (\<lambda>u.
     act_return \<lparr>tt_queue_depth = depth, tt_queued = status_count QUEUED ts,
       tt_running = status_count RUNNING ts, tt_completed = status_count COMPLETED ts,
       tt_failed = status_count FAILED ts, tt_retrying = status_count RETRYING ts,
       tt_recovery = status_count RECOVERING ts, tt_dead_letter = buried, tt_utilization = u\<rparr>)))))"

record task_statistics =
  tq_volume :: int
  tq_success_rate :: pyfloat
  tq_failure_rate :: pyfloat
  tq_retry_rate :: pyfloat
  tq_recovery_success :: pyfloat
  tq_queue_time :: pyfloat
  tq_execution_time :: pyfloat
  tq_peak_concurrency :: int
  tq_utilization :: pyfloat
  tq_distribution :: "(string, int) dict"

definition rate_of :: "int \<Rightarrow> int \<Rightarrow> pyfloat" where
  "rate_of n volume = (case py_int_div n volume of None \<Rightarrow> Fin 0 | Some x \<Rightarrow> x)"

definition task_statistics_of :: "task_scope \<Rightarrow> task_statistics act" where
  "task_statistics_of sc =
     act_bind (act_get (\<lambda>s. scoped_tasks s sc)) (\<lambda>ts. let volume = int (length ts) in
     act_bind (if volume = 0 then act_return (Fin 0)
               else act_bind (read_metric ''tiktok_scheduler_retry_total'') (\<lambda>x.
                 act_return (the (py_div x (Fin (of_int volume)))))) (\<lambda>retry.
     act_bind (read_metric ''tiktok_scheduler_recovery_total'') (\<lambda>recovered.
     act_bind (read_metric ''tiktok_scheduler_queue_wait_seconds'') (\<lambda>wait.
     act_bind (read_metric ''tiktok_scheduler_execution_seconds'') (\<lambda>run.
     act_bind (act_get (\<lambda>s. lm_concurrent_executions (tc_limits s))) (\<lambda>peak.
     act_bind (read_metric ''tiktok_scheduler_worker_utilization'') (\<lambda>u.
     act_return \<lparr>tq_volume = volume, tq_success_rate = rate_of (status_count COMPLETED ts) volume,
       tq_failure_rate = rate_of (status_count FAILED ts) volume, tq_retry_rate = retry,
       tq_recovery_success = recovered, tq_queue_time = wait, tq_execution_time = run,
       tq_peak_concurrency = peak, tq_utilization = u,
       tq_distribution = fold (\<lambda>t d. AList.update (type_value (tk_type t))
         (dict_get d (type_value (tk_type t)) 0 + 1) d) ts []\<rparr>)))))))"

record task_dashboard =
  tb_kill_switch :: bool
  tb_workspace_paused :: bool
  tb_telemetry :: task_telemetry
  tb_statistics :: task_statistics
  tb_limits :: task_limits

definition task_dashboard_of :: "task_scope \<Rightarrow> task_dashboard act" where
  "task_dashboard_of sc =
     act_bind (act_get (\<lambda>s. (tc_kill_switch s, (sc_tenant sc, sc_workspace sc) \<in> tc_paused_workspaces s)))
       (\<lambda>(kill, paused).
     act_bind (task_telemetry_of sc) (\<lambda>telemetry.
     act_bind (task_statistics_of sc) (\<lambda>stats.
     act_bind (act_get tc_limits) (\<lambda>lm.
     act_return \<lparr>tb_kill_switch = kill, tb_workspace_paused = paused, tb_telemetry = telemetry,
       tb_statistics = stats, tb_limits = lm\<rparr>))))"

subsection \<open>Every operation\<close>

datatype task_op =
    Create_Task scheduled_task task_scope
  | Move_Task string task_status task_scope
  | Approve_Task string string task_scope
  | Add_Dependency task_dependency task_scope
  | Enqueue_Task string task_scope string
  | Promote_Due
  | Register_Worker task_worker task_scope
  | Heartbeat_Worker string string task_scope
  | Dispatch_Next task_scope
  | Execute_Task string task_scope
  | Create_Checkpoint string "string list" "string list" data task_scope
  | Resume_Checkpoint string task_scope
  | Fail_Execution string failure_category string task_scope
  | Cancel_Execution string task_scope
  | Set_Pause task_scope "bool option" "bool option" "string option" "task_type option" bool
  | Read_Telemetry task_scope
  | Read_Statistics task_scope
  | Read_Dashboard task_scope

fun perform :: "(string \<Rightarrow> task_port) \<Rightarrow> task_op \<Rightarrow> task_center \<Rightarrow> task_center" where
  "perform ports (Create_Task t sc) s = snd (create_task t sc s)"
| "perform ports (Move_Task i st sc) s = snd (move_task i st sc s)"
| "perform ports (Approve_Task i r sc) s = snd (approve_task i r sc s)"
| "perform ports (Add_Dependency d sc) s = snd (add_dependency d sc s)"
| "perform ports (Enqueue_Task i sc q) s = snd (enqueue_task i sc q s)"
| "perform ports Promote_Due s = snd (promote_due s)"
| "perform ports (Register_Worker w sc) s = snd (register_worker w sc s)"
| "perform ports (Heartbeat_Worker i h sc) s = snd (heartbeat_worker i h sc s)"
| "perform ports (Dispatch_Next sc) s = snd (dispatch_next sc s)"
| "perform ports (Execute_Task x sc) s = snd (execute_task ports x sc s)"
| "perform ports (Create_Checkpoint x cs ps d sc) s = snd (create_task_checkpoint x cs ps d sc s)"
| "perform ports (Resume_Checkpoint c sc) s = snd (resume_checkpoint c sc s)"
| "perform ports (Fail_Execution x c m sc) s = snd (fail_execution x c m sc s)"
| "perform ports (Cancel_Execution x sc) s = snd (cancel_execution x sc s)"
| "perform ports (Set_Pause sc k w a f p) s = snd (set_pause sc k w a f p s)"
| "perform ports (Read_Telemetry sc) s = snd (task_telemetry_of sc s)"
| "perform ports (Read_Statistics sc) s = snd (task_statistics_of sc s)"
| "perform ports (Read_Dashboard sc) s = snd (task_dashboard_of sc s)"

definition perform_all :: "(string \<Rightarrow> task_port) \<Rightarrow> task_op list \<Rightarrow> task_center \<Rightarrow> task_center" where
  "perform_all ports ops s = fold (perform ports) ops s"

end
