(* ===== verification/Task_Laws.thy ===== *)
theory Task_Laws
  imports Task_Center
begin

text \<open>
  What every operation of the task scheduler keeps. An operation is built from a few steps that change
  tasks, dependencies, workers and recovery counters, and from many that do not. The locale \<open>task_law\<close>
  takes a reflexive and transitive relation between states that these few steps respect and concludes
  that every sequence of operations respects it, whatever is raised on the way. \<open>Task_Lifecycle\<close>
  and \<open>Task_Bounds\<close> interpret it on the relations of the properties.

  \<open>scopes\<close> are the scopes of the callers and \<open>crew\<close> the workers that are registered.
\<close>

named_theorems keeps_intros \<open>actions that keep a relation\<close>

text \<open>Running an action step by step: guards become conditions, changes become states.\<close>

named_theorems act_steps \<open>one step of an action\<close>

lemma seq_steps [act_steps]:
  "act_seq (act_return x) n = n"
  "act_seq (act_raise e) n s = (Inl e, s)"
  "act_seq (act_check b e) n s = (if b then n s else (Inl e, s))"
  "act_seq (act_check_that P e) n s = (if P s then n s else (Inl e, s))"
  "act_seq (act_modify u) n s = n (u s)"
  "act_seq (act_lookup d i) n s = (case map_of (d s) i of None \<Rightarrow> (Inl (KeyError i), s) | Some v \<Rightarrow> n s)"
  "act_seq (act_seq m1 k) n = act_seq m1 (act_seq k n)"
  "act_seq (act_bind m f) n = act_bind m (\<lambda>x. act_seq (f x) n)"
  "act_seq (act_all []) n = n"
  "act_seq (act_all (m2 # ms)) n = act_seq m2 (act_seq (act_all ms) n)"
  "act_seq (require sc p) n s =
     (if ''tiktok:scheduler:'' @ p \<in> sc_permissions sc \<or> ''tiktok:scheduler:admin'' \<in> sc_permissions sc then n s
      else (Inl (PermissionError (''RBAC permission required: tiktok:scheduler:'' @ p)), s))"
  "act_seq (in_scope tenant workspace sc) n s =
     (if tenant = sc_tenant sc \<and> workspace = sc_workspace sc then n s
      else (Inl (PermissionError ''Cross-tenant or cross-workspace access denied.''), s))"
  by (simp_all add: fun_eq_iff act_seq_def act_bind_def act_return_def act_raise_def act_check_def act_check_that_def
      act_modify_def require_def in_scope_def act_lookup_def split: option.splits sum.splits prod.splits)

lemma bind_steps [act_steps]:
  "act_bind (act_return x) f1 s = f1 x s"
  "act_bind (act_get g2) f2 s = f2 (g2 s) s"
  "act_bind (act_lookup d k) f3 s = (case map_of (d s) k of None \<Rightarrow> (Inl (KeyError k), s) | Some v \<Rightarrow> f3 v s)"
  "act_bind (act_lift r4) f4 s = (case r4 of Inl e \<Rightarrow> (Inl e, s) | Inr x \<Rightarrow> f4 x s)"
  "act_bind (act_seq m5 n5) f5 = act_seq m5 (act_bind n5 f5)"
  "act_bind (act_bind m6 g6) f6 = act_bind m6 (\<lambda>x. act_bind (g6 x) f6)"
  "act_bind utcnow f7 s = f7 (te_clock (tc_env s) (tc_ticks s)) (s\<lparr>tc_ticks := tc_ticks s + 1\<rparr>)"
  "act_bind uuid4 f8 s = f8 (te_uuid (tc_env s) (tc_uuids s)) (s\<lparr>tc_uuids := tc_uuids s + 1\<rparr>)"
  "act_bind perf_counter f9 s = f9 (te_timer (tc_env s) (tc_timed s)) (s\<lparr>tc_timed := tc_timed s + 1\<rparr>)"
  by (simp_all add: fun_eq_iff act_seq_def act_bind_def act_return_def act_get_def act_lookup_def act_lift_def utcnow_def
      uuid4_def perf_counter_def split: option.splits sum.splits prod.splits)

lemma run_steps [act_steps]:
  "act_all (m # ms) s = act_seq m (act_all ms) s"
  "act_all [] s = (Inr (), s)"
  "act_return x s = (Inr x, s)"
  "act_raise e s = (Inl e, s)"
  "act_modify f s = (Inr (), f s)"
  by (simp_all add: act_return_def act_raise_def act_modify_def)

definition keeps :: "(task_center \<Rightarrow> task_center \<Rightarrow> bool) \<Rightarrow> 'a act \<Rightarrow> bool" where
  "keeps R m \<longleftrightarrow> (\<forall>s. R s (snd (m s)))"

lemma keepsI: "(\<And>s. R s (snd (m s))) \<Longrightarrow> keeps R m"
  by (simp add: keeps_def)

lemma keepsD: "keeps R m \<Longrightarrow> R s (snd (m s))"
  by (simp add: keeps_def)

text \<open>The two states agree on everything that a law can speak about.\<close>

definition quiet :: "task_center \<Rightarrow> task_center \<Rightarrow> bool" where
  "quiet s s' \<longleftrightarrow> tc_tasks s' = tc_tasks s \<and> tc_dependencies s' = tc_dependencies s
     \<and> tc_workers s' = tc_workers s \<and> tc_recoveries s' = tc_recoveries s \<and> tc_limits s' = tc_limits s"

text \<open>What \<open>create_task\<close> has checked when it adds the task.\<close>

definition below_limit :: "(scheduled_task \<Rightarrow> string) \<Rightarrow> (task_limits \<Rightarrow> int) \<Rightarrow> scheduled_task \<Rightarrow> task_center \<Rightarrow> bool" where
  "below_limit field limit t s \<longleftrightarrow> field t = '''' \<or> int (holders field (field t) s) < limit (tc_limits s)"

definition admissible :: "scheduled_task \<Rightarrow> task_center \<Rightarrow> bool" where
  "admissible t s \<longleftrightarrow> map_of (tc_tasks s) (tk_id t) = None
     \<and> int (length (tc_tasks s)) < lm_global_tasks (tc_limits s)
     \<and> int (workspace_count (tk_tenant t) (tk_workspace t) s) < lm_workspace_tasks (tc_limits s)
     \<and> below_limit tk_account lm_account_tasks t s \<and> below_limit tk_browser lm_browser_tasks t s
     \<and> below_limit tk_device lm_device_tasks t s \<and> below_limit tk_proxy lm_proxy_tasks t s"

definition mine :: "task_scope \<Rightarrow> scheduled_task \<Rightarrow> bool" where
  "mine sc t \<longleftrightarrow> tk_tenant t = sc_tenant sc \<and> tk_workspace t = sc_workspace sc"

definition moved_to :: "task_status \<Rightarrow> scheduled_task \<Rightarrow> scheduled_task" where
  "moved_to st t = t\<lparr>tk_status := st, tk_version := tk_version t + 1\<rparr>"

fun op_scope :: "task_op \<Rightarrow> task_scope option" where
  "op_scope (Create_Task t sc) = Some sc"
| "op_scope (Move_Task i st sc) = Some sc"
| "op_scope (Approve_Task i r sc) = Some sc"
| "op_scope (Add_Dependency d sc) = Some sc"
| "op_scope (Enqueue_Task i sc q) = Some sc"
| "op_scope Promote_Due = None"
| "op_scope (Register_Worker w sc) = Some sc"
| "op_scope (Heartbeat_Worker i h sc) = Some sc"
| "op_scope (Dispatch_Next sc) = Some sc"
| "op_scope (Execute_Task x sc) = Some sc"
| "op_scope (Create_Checkpoint x cs ps d sc) = Some sc"
| "op_scope (Resume_Checkpoint c sc) = Some sc"
| "op_scope (Fail_Execution x c m sc) = Some sc"
| "op_scope (Cancel_Execution x sc) = Some sc"
| "op_scope (Set_Pause sc k w a f p) = Some sc"
| "op_scope (Read_Telemetry sc) = Some sc"
| "op_scope (Read_Statistics sc) = Some sc"
| "op_scope (Read_Dashboard sc) = Some sc"

fun op_worker :: "task_op \<Rightarrow> task_worker option" where
  "op_worker (Register_Worker w sc) = Some w"
| "op_worker _ = None"

text \<open>Ports that respect the relation, as a port does that only calls the service.\<close>

definition ports_keep ::
  "(task_center \<Rightarrow> task_center \<Rightarrow> bool) \<Rightarrow> task_scope set \<Rightarrow> (string \<Rightarrow> task_port) \<Rightarrow> bool" where
  "ports_keep R scopes ports \<longleftrightarrow>
     (\<forall>name t. \<forall>sc \<in> scopes. keeps R (po_preflight (ports name) t sc) \<and> keeps R (po_execute (ports name) t sc))"

text \<open>The two states agree on everything but the readings of the environment, the metrics and the audit.\<close>

definition tiny :: "task_center \<Rightarrow> task_center \<Rightarrow> bool" where
  "tiny s s' \<longleftrightarrow> (\<exists>a b c d e. s' = s\<lparr>tc_ticks := a, tc_timed := b, tc_uuids := c, tc_audit := d, tc_metrics := e\<rparr>)"

lemma tinyI [intro]:
  "tiny s s" "tiny s (s\<lparr>tc_ticks := n\<rparr>)" "tiny s (s\<lparr>tc_timed := n\<rparr>)" "tiny s (s\<lparr>tc_uuids := n\<rparr>)"
  "tiny s (s\<lparr>tc_audit := as\<rparr>)" "tiny s (s\<lparr>tc_metrics := ms\<rparr>)"
  unfolding tiny_def by (cases s; force)+

locale frame_law =
  fixes R :: "task_center \<Rightarrow> task_center \<Rightarrow> bool"
  assumes frame_trans: "R s s' \<Longrightarrow> R s' s'' \<Longrightarrow> R s s''"
    and frame_tiny: "tiny s s' \<Longrightarrow> R s s'"
begin

lemma law_refl [simp]: "R s s"
  by (rule frame_tiny) blast

subsection \<open>Combinators\<close>

lemma keeps_bind [keeps_intros]:
  assumes "keeps R m" "\<And>x. keeps R (f x)"
  shows "keeps R (act_bind m f)"
proof (rule keepsI)
  fix s :: task_center
  obtain r s' where m: "m s = (r, s')" by (cases "m s")
  have "R s s'" using keepsD [OF assms(1), of s] m by simp
  moreover have "R s' (snd (f x s'))" for x using assms(2) by (rule keepsD)
  ultimately show "R s (snd (act_bind m f s))"
    using m by (auto simp: act_bind_def intro: frame_trans split: sum.splits)
qed

lemma keeps_seq [keeps_intros]: "keeps R m \<Longrightarrow> keeps R n \<Longrightarrow> keeps R (act_seq m n)"
  unfolding act_seq_def by (rule keeps_bind)

lemma keeps_catch [keeps_intros]:
  assumes "keeps R m" "\<And>e. keeps R (h e)"
  shows "keeps R (act_catch m h)"
proof (rule keepsI)
  fix s :: task_center
  obtain r s' where m: "m s = (r, s')" by (cases "m s")
  have "R s s'" using keepsD [OF assms(1), of s] m by simp
  moreover have "R s' (snd (h e s'))" for e using assms(2) by (rule keepsD)
  ultimately show "R s (snd (act_catch m h s))"
    using m by (auto simp: act_catch_def intro: frame_trans split: sum.splits)
qed

lemma keeps_finally [keeps_intros]:
  assumes "keeps R m" "keeps R n"
  shows "keeps R (act_finally m n)"
proof (rule keepsI)
  fix s :: task_center
  obtain r s' where m: "m s = (r, s')" by (cases "m s")
  obtain q s'' where n: "n s' = (q, s'')" by (cases "n s'")
  show "R s (snd (act_finally m n s))"
    using keepsD [OF assms(1), of s] keepsD [OF assms(2), of s'] m n
    by (auto simp: act_finally_def intro: frame_trans split: sum.splits)
qed

lemma keeps_pure [keeps_intros]:
  "keeps R (act_return x)" "keeps R (act_raise e)" "keeps R (act_check b e)" "keeps R (act_check_that P e)"
  "keeps R (act_get f)" "keeps R (act_lift r)" "keeps R (act_lookup g k)" "keeps R (safe_payload d)"
  "keeps R (validate_task t)" "keeps R (dependency_depth i)" "keeps R (require sc p)"
  "keeps R (in_scope tenant workspace sc)" "keeps R (check_resource_limit t field name limit)"
  by (auto simp: keeps_def act_defs safe_payload_def validate_task_def dependency_depth_def require_def
      in_scope_def check_resource_limit_def split: option.splits)

lemma keeps_when [keeps_intros]: "keeps R m \<Longrightarrow> keeps R (act_when b m)"
  by (simp add: act_when_def keeps_pure)

lemma keeps_all_Nil [keeps_intros]: "keeps R (act_all [])"
  by (simp add: keeps_pure)

lemma keeps_all_Cons [keeps_intros]: "keeps R m \<Longrightarrow> keeps R (act_all ms) \<Longrightarrow> keeps R (act_all (m # ms))"
  by (simp add: keeps_seq)

lemma keeps_if [keeps_intros]: "keeps R m \<Longrightarrow> keeps R n \<Longrightarrow> keeps R (if b then m else n)"
  by simp

lemma keeps_after: "R s s' \<Longrightarrow> keeps R m \<Longrightarrow> R s (snd (m s'))"
  by (blast intro: frame_trans keepsD)

subsection \<open>Small steps\<close>

lemma keeps_modify_tiny: "(\<And>s. tiny s (f s)) \<Longrightarrow> keeps R (act_modify f)"
  by (auto simp: keeps_def act_modify_def intro: frame_tiny)

lemma keeps_environment [keeps_intros]:
  "keeps R utcnow" "keeps R perf_counter" "keeps R uuid4" "keeps R (read_metric name)"
  by (auto simp: keeps_def utcnow_def perf_counter_def uuid4_def read_metric_def intro!: frame_tiny)

lemma keeps_metrics [keeps_intros]:
  "keeps R (metric_increment name)" "keeps R (metric_set name x)" "keeps R update_queue_metric"
  "keeps R update_worker_metric"
  unfolding metric_increment_def metric_set_def update_queue_metric_def update_worker_metric_def
  by (intro keeps_intros keeps_modify_tiny; blast)+

lemma keeps_audit [keeps_intros]: "keeps R (record_audit sc action resource detail)"
  unfolding record_audit_def by (intro keeps_intros keeps_modify_tiny) blast

lemma keeps_ready_loop [keeps_intros]: "keeps R (ready_loop ds)"
  by (induction ds) (auto intro!: keeps_intros)

lemma keeps_ready [keeps_intros]: "keeps R (dependencies_ready i)"
  unfolding dependencies_ready_def by (intro keeps_intros)

lemma keeps_timer [keeps_intros]: "keeps R (stop_timer started)"
  unfolding stop_timer_def by (intro keeps_intros)

lemma keeps_lookup_tasks: "keeps R (lookup_tasks js)"
  by (induction js) (auto intro!: keeps_intros)

lemma keeps_rank_tasks: "keeps R (rank_tasks ts)"
  by (induction ts) (auto intro!: keeps_intros)

lemma keeps_choose: "keeps R (choose_task sc)"
  unfolding choose_task_def dispatch_candidates_def
  by (intro keeps_intros keeps_lookup_tasks keeps_rank_tasks)

end

subsection \<open>Laws on tasks, dependencies, workers and recoveries\<close>

locale task_law =
  fixes R :: "task_center \<Rightarrow> task_center \<Rightarrow> bool"
    and scopes :: "task_scope set"
    and crew :: "task_worker set"
  assumes law_trans: "R s s' \<Longrightarrow> R s' s'' \<Longrightarrow> R s s''"
    and law_quiet: "quiet s s' \<Longrightarrow> R s s'"
    and law_create: "sc \<in> scopes \<Longrightarrow> mine sc t \<Longrightarrow> admissible t s \<Longrightarrow>
      R s (s\<lparr>tc_tasks := AList.update (tk_id t) t (tc_tasks s)\<rparr>)"
    and law_move: "sc \<in> scopes \<Longrightarrow> map_of (tc_tasks s) i = Some t \<Longrightarrow> mine sc t \<Longrightarrow>
      st \<in> task_transitions (tk_status t) \<Longrightarrow>
      R s (s\<lparr>tc_tasks := AList.map_entry i (moved_to st) (tc_tasks s)\<rparr>)"
    and law_stamp: "sc \<in> scopes \<Longrightarrow> map_of (tc_tasks s) i = Some t \<Longrightarrow> mine sc t \<Longrightarrow>
      R s (s\<lparr>tc_tasks := AList.map_entry i (\<lambda>t. t\<lparr>tk_updated := now\<rparr>) (tc_tasks s)\<rparr>)"
    and law_approve: "sc \<in> scopes \<Longrightarrow> map_of (tc_tasks s) i = Some t \<Longrightarrow> mine sc t \<Longrightarrow>
      tk_status t = PENDING_APPROVAL \<Longrightarrow>
      R s (s\<lparr>tc_tasks := AList.map_entry i (\<lambda>t. t\<lparr>tk_approval := reference\<rparr>) (tc_tasks s)\<rparr>)"
    and law_depend: "map_of (tc_tasks s) (td_task d) \<noteq> None \<Longrightarrow> map_of (tc_tasks s) (td_depends_on d) \<noteq> None \<Longrightarrow>
      td_task d \<noteq> td_depends_on d \<Longrightarrow>
      \<not> reaches_task (tc_dependencies s) (td_depends_on d) (td_task d) \<Longrightarrow>
      R s (s\<lparr>tc_dependencies :=
        AList.update (td_task d) (dict_get (tc_dependencies s) (td_task d) [] @ [d]) (tc_dependencies s)\<rparr>)"
    and law_register: "w \<in> crew \<Longrightarrow> map_of (tc_workers s) (wk_id w) = None \<Longrightarrow> 0 < wk_capacity w \<Longrightarrow>
      wk_capacity w \<le> 100 \<Longrightarrow> R s (s\<lparr>tc_workers := AList.update (wk_id w) w (tc_workers s)\<rparr>)"
    and law_beat: "R s (s\<lparr>tc_workers := AList.map_entry i (beat now health) (tc_workers s)\<rparr>)"
    and law_free: "R s (s\<lparr>tc_workers := AList.map_entry i free_slot (tc_workers s)\<rparr>)"
    and law_take: "w \<in> set (map snd (tc_workers s)) \<Longrightarrow> worker_available w \<Longrightarrow>
      R s (s\<lparr>tc_workers := AList.map_entry (wk_id w) take_slot (tc_workers s)\<rparr>)"
    and law_touch: "R s (s\<lparr>tc_recoveries := AList.update i (recoveries i s) (tc_recoveries s)\<rparr>)"
    and law_recover: "recoveries i s < lm_recovery_attempts (tc_limits s) \<Longrightarrow>
      R s (s\<lparr>tc_recoveries := AList.update i (recoveries i s + 1) (tc_recoveries s)\<rparr>)"
begin

end

sublocale task_law \<subseteq> frame_law R
  by unfold_locales (auto simp: tiny_def quiet_def intro: law_trans law_quiet)

context task_law
begin

lemma keeps_modify_quiet: "(\<And>s. quiet s (f s)) \<Longrightarrow> keeps R (act_modify f)"
  by (auto simp: keeps_def act_modify_def intro: law_quiet)

lemma keeps_quiet: "(\<And>s. quiet s (snd (m s))) \<Longrightarrow> keeps R m"
  by (auto simp: keeps_def intro: law_quiet)

subsection \<open>Steps\<close>

lemma keeps_stores [keeps_intros]:
  "keeps R (touch_queue k)" "keeps R (append_queue k i)" "keeps R (update_execution x f)"
  by (rule keeps_quiet, simp add: quiet_def act_defs touch_queue_def append_queue_def update_execution_def)+

lemma keeps_rotation [keeps_intros]: "keeps R (join_rotation w)"
  by (rule keeps_quiet) (simp add: quiet_def join_rotation_def act_defs)

lemma keeps_delay_start [keeps_intros]: "keeps R (delay_start t q)"
  unfolding delay_start_def
  by (cases "sd_start (tk_schedule t)") (auto intro!: keeps_intros keeps_modify_quiet simp: quiet_def)

lemma keeps_release [keeps_intros]: "keeps R (release_execution e)"
  unfolding release_execution_def update_worker_def
  by (intro keeps_intros) (auto simp: keeps_def act_modify_def quiet_def intro: law_free law_quiet)

lemma keeps_file_failure [keeps_intros]: "keeps R (file_failure e t category detail)"
  unfolding file_failure_def by (intro keeps_intros keeps_modify_quiet) (simp add: quiet_def)

lemma keeps_count_recovery [keeps_intros]: "keeps R (count_task_recovery i)"
proof (rule keepsI)
  fix s :: task_center
  let ?t = "s\<lparr>tc_recoveries := AList.update i (recoveries i s) (tc_recoveries s)\<rparr>"
  have "R s ?t" by (rule law_touch)
  moreover have "R ?t (?t\<lparr>tc_recoveries := AList.update i (recoveries i ?t + 1) (tc_recoveries ?t)\<rparr>)"
    if "recoveries i ?t < lm_recovery_attempts (tc_limits ?t)"
    using that by (rule law_recover)
  ultimately show "R s (snd (count_task_recovery i s))"
    by (auto simp: count_task_recovery_def act_defs intro: law_trans)
qed

lemma keeps_move [keeps_intros]:
  assumes "sc \<in> scopes"
  shows "keeps R (move_task i st sc)"
proof (rule keepsI)
  fix s :: task_center
  have fold_moved: "(\<lambda>t. t\<lparr>tk_status := st, tk_version := tk_version t + 1\<rparr>) = moved_to st"
    by (simp add: fun_eq_iff moved_to_def)
  let ?u = "\<lambda>f s. s\<lparr>tc_tasks := AList.map_entry i f (tc_tasks s)\<rparr>"
  let ?tail = "act_seq (record_audit sc ''task.transition'' i (task_status_value st)) (act_lookup tc_tasks i)"
  have tail: "keeps R ?tail" by (intro keeps_intros)
  define now where "now = te_clock (tc_env s) (tc_ticks s)"
  define s1 where "s1 = (?u (moved_to st) s)\<lparr>tc_ticks := tc_ticks s + 1\<rparr>"
  have "R s (snd (?tail (?u (\<lambda>t. t\<lparr>tk_updated := now\<rparr>) s1)))"
    if t: "map_of (tc_tasks s) i = Some t" "mine sc t" "st \<in> task_transitions (tk_status t)" for t
  proof -
    have "R s (?u (moved_to st) s)" using assms t by (rule law_move)
    moreover have "R (?u (moved_to st) s) s1" by (rule law_quiet) (simp add: s1_def quiet_def)
    moreover have "R s1 (?u (\<lambda>t. t\<lparr>tk_updated := now\<rparr>) s1)"
      using assms t by (intro law_stamp [where t = "moved_to st t" and sc = sc])
        (simp_all add: s1_def map_of_map_entry mine_def moved_to_def)
    ultimately show ?thesis by (blast intro: keeps_after tail law_trans)
  qed
  then show "R s (snd (move_task i st sc s))"
    unfolding move_task_def fold_moved update_task_def s1_def now_def mine_def
    by (simp add: act_steps split: option.splits)
qed

subsection \<open>Operations\<close>

text \<open>The guards of \<open>create_task\<close> hold when it adds the task.\<close>

lemma keeps_create [keeps_intros]:
  assumes "sc \<in> scopes"
  shows "keeps R (create_task t sc)"
proof (rule keepsI)
  fix s :: task_center
  let ?rest = "act_seq (metric_increment ''tiktok_scheduler_tasks_total'')
    (act_seq (record_audit sc ''task.created'' (tk_id t) (type_value (tk_type t))) (act_return t))"
  have rest: "keeps R ?rest" by (intro keeps_intros)
  have "R s (snd (?rest (s\<lparr>tc_tasks := AList.update (tk_id t) t (tc_tasks s)\<rparr>)))"
    if "mine sc t" "admissible t s"
    using law_create [OF assms that] rest by (rule keeps_after)
  moreover have "act_seq (validate_task t) n s =
      (case invalid_task (te_casefold (tc_env s)) (te_json_bytes (tc_env s)) (tc_limits s) t of
         Some e \<Rightarrow> (Inl e, s) | None \<Rightarrow> n s)" for n :: "scheduled_task act"
    by (simp add: act_seq_def act_bind_def validate_task_def split: option.splits)
  ultimately show "R s (snd (create_task t sc s))"
    unfolding create_task_def check_resource_limit_def mine_def admissible_def below_limit_def
    by (simp add: act_steps split: option.splits)
qed

lemma keeps_approve [keeps_intros]:
  assumes "sc \<in> scopes"
  shows "keeps R (approve_task i reference sc)"
proof (rule keepsI)
  fix s :: task_center
  have "R s (snd (move_task i READY sc
      (s\<lparr>tc_tasks := AList.map_entry i (\<lambda>t. t\<lparr>tk_approval := reference\<rparr>) (tc_tasks s)\<rparr>)))"
    if "map_of (tc_tasks s) i = Some t" "mine sc t" "tk_status t = PENDING_APPROVAL" for t
    using law_approve [OF assms that] keeps_move [OF assms] by (rule keeps_after)
  then show "R s (snd (approve_task i reference sc s))"
    unfolding approve_task_def update_task_def mine_def by (simp add: act_steps split: option.splits)
qed

lemma keeps_depend [keeps_intros]: "keeps R (add_dependency d sc)"
proof (rule keepsI)
  fix s :: task_center
  have "R s (snd (record_audit sc ''dependency.created'' (td_task d) (td_depends_on d)
      (s\<lparr>tc_dependencies := AList.update (td_task d) (dict_get (tc_dependencies s) (td_task d) [] @ [d])
           (tc_dependencies s)\<rparr>)))"
    if "map_of (tc_tasks s) (td_task d) \<noteq> None" "map_of (tc_tasks s) (td_depends_on d) \<noteq> None"
      "td_task d \<noteq> td_depends_on d" "\<not> reaches_task (tc_dependencies s) (td_depends_on d) (td_task d)"
    using law_depend [OF that] keeps_audit by (rule keeps_after)
  moreover have "act_bind (dependency_depth i) f s =
      (case task_depth (tc_dependencies s) {} i of Inl e \<Rightarrow> (Inl e, s) | Inr n \<Rightarrow> f n s)"
    for i and f :: "int \<Rightarrow> unit act"
    by (simp add: act_bind_def dependency_depth_def split: sum.splits)
  moreover have "act_seq (record_audit sc a b c) act_all_Nil = record_audit sc a b c"
    if "act_all_Nil = act_all []" for a b c act_all_Nil
    by (simp add: that fun_eq_iff act_seq_def act_bind_def act_return_def split: sum.splits prod.splits)
  ultimately show "R s (snd (add_dependency d sc s))"
    unfolding add_dependency_def by (simp add: act_steps split: option.splits sum.splits)
qed

lemma keeps_enqueue [keeps_intros]: "sc \<in> scopes \<Longrightarrow> keeps R (enqueue_task i sc q)"
  unfolding enqueue_task_def by (intro keeps_intros)

lemma keeps_promote_one: "keeps R (promote_one i)"
  unfolding promote_one_def by (intro keeps_intros keeps_modify_quiet) (simp_all add: quiet_def)

lemma keeps_promote_loop: "keeps R (promote_loop now items)"
  by (induction now items rule: promote_loop.induct) (auto intro!: keeps_intros keeps_promote_one)

lemma keeps_promote [keeps_intros]: "keeps R promote_due"
  unfolding promote_due_def by (intro keeps_intros keeps_promote_loop)

lemma keeps_register [keeps_intros]:
  assumes "w \<in> crew"
  shows "keeps R (register_worker w sc)"
proof (rule keepsI)
  fix s :: task_center
  let ?rest = "act_seq (record_audit sc ''worker.registered'' (wk_id w) (wk_type w)) (act_return w)"
  have rest: "keeps R ?rest" by (intro keeps_intros)
  have "R s (snd (?rest (s\<lparr>tc_workers := AList.update (wk_id w) w (tc_workers s)\<rparr>)))"
    if "map_of (tc_workers s) (wk_id w) = None" "0 < wk_capacity w" "wk_capacity w \<le> 100"
    using law_register [OF assms that] rest by (rule keeps_after)
  then show "R s (snd (register_worker w sc s))"
    unfolding register_worker_def by (simp add: act_steps)
qed

lemma keeps_heartbeat [keeps_intros]: "keeps R (heartbeat_worker i health sc)"
proof -
  have "keeps R (update_worker i (beat now health))" for now
    by (simp add: keeps_def update_worker_def act_modify_def law_beat)
  then show ?thesis unfolding heartbeat_worker_def by (intro keeps_intros)
qed

lemma allocate_keeps:
  assumes "sc \<in> scopes" "w \<in> set (map snd (tc_workers s))" "worker_available w"
  shows "R s (snd (allocate_task t w sc s))"
proof -
  let ?tail = "act_seq (move_task (tk_id t) ALLOCATED sc)
    (act_bind uuid4 (\<lambda>u. let e = new_execution (''execution-'' @ u) t (wk_id w) in
     act_seq (act_all
       [act_modify (\<lambda>s. s\<lparr>tc_executions := AList.update (ex_id e) e (tc_executions s)\<rparr>),
        record_audit sc ''task.allocated'' (tk_id t) (wk_id w), update_queue_metric, update_worker_metric])
     (act_return (Some e))))"
  have tail: "keeps R ?tail"
    unfolding Let_def by (intro keeps_intros keeps_modify_quiet assms(1)) (simp_all add: quiet_def)
  define s1 where "s1 = s\<lparr>tc_queues := remove_queued (tk_id t) (tc_queues s)\<rparr>"
  define s2 where "s2 = snd (reserve t w s1)"
  have quiet: "quiet s1 s2"
    by (simp add: s2_def quiet_def reserve_def act_steps split: sum.splits)
  have reach: "R s s2"
    using quiet by (intro law_quiet) (simp add: quiet_def s1_def)
  have take: "R s2 (s2\<lparr>tc_workers := AList.map_entry (wk_id w) take_slot (tc_workers s2)\<rparr>)"
    using quiet assms by (intro law_take) (simp_all add: quiet_def s1_def)
  have "R s (snd (?tail (s2\<lparr>tc_workers := AList.map_entry (wk_id w) take_slot (tc_workers s2)\<rparr>)))"
    using reach take tail by (blast intro: keeps_after law_trans)
  moreover have "act_seq (reserve t w) n s1 =
      (case reserve t w s1 of (Inl e, s') \<Rightarrow> (Inl e, s') | (Inr x, s') \<Rightarrow> n s')" for n :: "task_execution option act"
    by (simp add: act_seq_def act_bind_def split: sum.splits prod.splits)
  ultimately show ?thesis
    using reach unfolding allocate_task_def update_worker_def
    by (cases "reserve t w s1") (auto simp: act_steps s1_def [symmetric] s2_def split: sum.splits)
qed

lemma keeps_dispatch [keeps_intros]:
  assumes "sc \<in> scopes"
  shows "keeps R (dispatch_next sc)"
proof -
  have pick: "keeps R (act_bind (act_get (\<lambda>s. find (suits t) (map snd (tc_workers s)))) (\<lambda>w.
      case w of None \<Rightarrow> act_return None | Some w \<Rightarrow> allocate_task t w sc))" for t
  proof (rule keepsI)
    fix s :: task_center
    have "R s (snd (allocate_task t w sc s))"
      if w: "find (suits t) (map snd (tc_workers s)) = Some w" for w
    proof -
      have "w \<in> set (map snd (tc_workers s))" "suits t w"
        using w by (auto simp: find_Some_iff)
      then show ?thesis
        using assms by (intro allocate_keeps) (auto simp: suits_def)
    qed
    then show "R s (snd (act_bind (act_get (\<lambda>s. find (suits t) (map snd (tc_workers s)))) (\<lambda>w.
      case w of None \<Rightarrow> act_return None | Some w \<Rightarrow> allocate_task t w sc) s))"
      by (simp add: act_steps split: option.splits)
  qed
  have "keeps R (case c of None \<Rightarrow> act_return None | Some t \<Rightarrow>
      act_bind (act_get (\<lambda>s. find (suits t) (map snd (tc_workers s)))) (\<lambda>w.
      case w of None \<Rightarrow> act_return None | Some w \<Rightarrow> allocate_task t w sc))" for c
    using pick by (cases c) (simp_all add: keeps_pure)
  then show ?thesis
    unfolding dispatch_next_def by (intro keeps_intros keeps_choose)
qed

lemma keeps_retry [keeps_intros]: "sc \<in> scopes \<Longrightarrow> keeps R (retry_or_bury e t eligible sc)"
  unfolding retry_or_bury_def by (intro keeps_intros keeps_modify_quiet) (simp_all add: quiet_def)

lemma keeps_fail [keeps_intros]: "sc \<in> scopes \<Longrightarrow> keeps R (fail_execution x category detail sc)"
  unfolding fail_execution_def by (intro keeps_intros)

lemma keeps_cancel [keeps_intros]: "sc \<in> scopes \<Longrightarrow> keeps R (cancel_execution x sc)"
  unfolding cancel_execution_def by (intro keeps_intros)

lemma keeps_complete [keeps_intros]: "sc \<in> scopes \<Longrightarrow> keeps R (complete_execution x e outcome sc)"
  unfolding complete_execution_def by (intro keeps_intros)

lemma keeps_execute:
  assumes "sc \<in> scopes" "ports_keep R scopes ports"
  shows "keeps R (execute_task ports x sc)"
proof -
  have port: "keeps R (run_port (ports name) x e sc)" for name e
    using assms unfolding run_port_def ports_keep_def by (auto intro!: keeps_intros)
  have "keeps R (start_execution ports x e t sc)" for e t
    unfolding start_execution_def by (intro keeps_intros port assms(1))
  then show ?thesis unfolding execute_task_def by (intro keeps_intros assms(1))
qed

lemma keeps_checkpoint [keeps_intros]: "keeps R (create_task_checkpoint x cs ps d sc)"
  unfolding create_task_checkpoint_def Let_def by (intro keeps_intros keeps_modify_quiet) (simp_all add: quiet_def)

lemma keeps_resume [keeps_intros]: "sc \<in> scopes \<Longrightarrow> keeps R (resume_checkpoint c sc)"
  unfolding resume_checkpoint_def by (intro keeps_intros)

lemma keeps_pause [keeps_intros]: "keeps R (set_pause sc k w a f p)"
  unfolding set_pause_def
  by (cases k; cases w; cases f; simp; intro keeps_intros conjI impI keeps_modify_quiet; simp add: quiet_def)

lemma keeps_telemetry [keeps_intros]: "keeps R (task_telemetry_of sc)"
  unfolding task_telemetry_of_def Let_def case_prod_beta by (intro keeps_intros)

lemma keeps_statistics [keeps_intros]: "keeps R (task_statistics_of sc)"
  unfolding task_statistics_of_def Let_def by (intro keeps_intros)

lemma keeps_dashboard [keeps_intros]: "keeps R (task_dashboard_of sc)"
  unfolding task_dashboard_of_def case_prod_beta by (intro keeps_intros)

lemma perform_keeps:
  assumes "ports_keep R scopes ports" "set_option (op_scope c) \<subseteq> scopes" "set_option (op_worker c) \<subseteq> crew"
  shows "R s (perform ports c s)"
  using assms(2,3)
  by (cases c) (auto intro!: keepsD [where R = R] keeps_execute [OF _ assms(1)] keeps_intros)

lemma bounded_ports_keep: "ports_keep R scopes (ports_of [])"
  by (auto simp: ports_keep_def ports_of_def bounded_port_def intro: keeps_pure)

theorem perform_all_keeps:
  assumes "ports_keep R scopes ports"
    and "\<And>c. c \<in> set cs \<Longrightarrow> set_option (op_scope c) \<subseteq> scopes \<and> set_option (op_worker c) \<subseteq> crew"
  shows "R s (perform_all ports cs s)"
  using assms(2) unfolding perform_all_def
proof (induction cs arbitrary: s)
  case (Cons c cs)
  have "R s (perform ports c s)" using assms(1) Cons.prems [of c] by (intro perform_keeps) simp_all
  moreover have "R (perform ports c s) (fold (perform ports) cs (perform ports c s))"
    using Cons by simp
  ultimately show ?case by (auto intro: law_trans)
qed simp

end

subsection \<open>Sample data\<close>

definition sample_task_env :: task_env where
  "sample_task_env = \<lparr>te_clock = (\<lambda>n. int n), te_timer = (\<lambda>n. Fin 0), te_uuid = (\<lambda>n. replicate n (CHR ''u'')),
     te_casefold = id, te_json_bytes = (\<lambda>v. 10), te_digest = (\<lambda>v. ''digest'')\<rparr>"

definition sample_scope :: "string \<Rightarrow> task_scope" where
  "sample_scope w = \<lparr>sc_tenant = ''t'', sc_workspace = w, sc_actor = ''a'',
     sc_permissions = {''tiktok:scheduler:admin''}\<rparr>"

definition sample_task :: "string \<Rightarrow> string \<Rightarrow> scheduled_task" where
  "sample_task i w = \<lparr>tk_id = i, tk_name = i, tk_description = '''', tk_type = DIAGNOSTICS, tk_tenant = ''t'',
     tk_workspace = w, tk_owner = ''o'', tk_account = '''', tk_browser = '''', tk_device = '''',
     tk_proxy = '''', tk_workflow = '''', tk_priority = NORMAL, tk_status = DRAFT, tk_version = 1,
     tk_metadata = [], tk_payload = [], tk_schedule = default_schedule,
     tk_retry = default_retry\<lparr>tr_maximum_attempts := 2, tr_delay_seconds := 0\<rparr>,
     tk_approval = '''', tk_created = 0, tk_updated = 0\<rparr>"

lemma sample_fields [simp]:
  "sc_tenant (sample_scope w) = ''t''" "sc_workspace (sample_scope w) = w"
  "sc_permissions (sample_scope w) = {''tiktok:scheduler:admin''}"
  "tk_id (sample_task i w) = i" "tk_tenant (sample_task i w) = ''t''" "tk_workspace (sample_task i w) = w"
  "tk_status (sample_task i w) = DRAFT" "tk_version (sample_task i w) = 1"
  by (simp_all add: sample_scope_def sample_task_def)

definition sample_worker :: "string \<Rightarrow> task_worker" where
  "sample_worker w = \<lparr>wk_id = w, wk_type = ''local'', wk_capacity = 1, wk_supported = {DIAGNOSTICS},
     wk_scope = ''*'', wk_load = 0, wk_status = IDLE, wk_heartbeat = 0, wk_health = ''healthy'',
     wk_last_active = 0\<rparr>"

definition sample_center :: task_center where
  "sample_center = \<lparr>tc_env = sample_task_env, tc_ticks = 0, tc_timed = 0, tc_uuids = 0,
     tc_limits = default_limits, tc_tasks = [], tc_dependencies = [], tc_workers = [],
     tc_allocations = [], tc_executions = [], tc_checkpoints = [], tc_failures = [], tc_queues = [],
     tc_delayed = [], tc_recoveries = [], tc_audit = [], tc_metrics = [], tc_kill_switch = False,
     tc_paused_workspaces = {}, tc_paused_accounts = {}, tc_paused_features = {}, tc_rotation = []\<rparr>"

lemma sample_center_new: "new_center sample_task_env default_limits = Inr sample_center"
  by (simp add: sample_center_def new_center_def invalid_limits_def limit_values_def default_limits_def)

lemma perform_all_steps:
  "perform_all ports [] s = s" "perform_all ports (c # cs) s = perform_all ports cs (perform ports c s)"
  by (simp_all add: perform_all_def)

lemma validate_step: "act_seq (validate_task t) n s =
    (case invalid_task (te_casefold (tc_env s)) (te_json_bytes (tc_env s)) (tc_limits s) t of
       Some e \<Rightarrow> (Inl e, s) | None \<Rightarrow> n s)"
  by (simp add: act_seq_def act_bind_def validate_task_def split: option.splits)

text \<open>The definitions that the evaluation of an operation on concrete data unfolds.\<close>

lemmas task_evals = create_task_def move_task_def enqueue_task_def register_worker_def
  validate_step metric_increment_def metric_set_def update_queue_metric_def update_worker_metric_def
  record_audit_def metric_names_def update_task_def check_resource_limit_def workspace_count_def
  holders_def append_queue_def join_rotation_def delay_start_def dependencies_ready_def queueable_def
  queue_key_def queued_count_def update_worker_def invalid_task_def invalid_schedule_def
  invalid_retry_def unsafe_payload_def sublist_Cons_right act_lookup_def

lemmas sample_evals = sample_center_def sample_task_def sample_scope_def sample_worker_def sample_task_env_def
  default_limits_def default_retry_def default_schedule_def secret_markers_def

end
