(* ===== verification/Task_Lifecycle.thy ===== *)
theory Task_Lifecycle
  imports Task_Laws
begin

text \<open>
  The tasks of the scheduler over any sequence of operations: every task moves along the table of
  transitions and only its status, version, approval and time stamp change; callers of other workspaces
  never change it; and the admission limits hold. Each is an interpretation of \<open>task_law\<close>.
\<close>

subsection \<open>Entries of a dictionary\<close>

lemma map_of_map_entry_eq:
  "map_of (AList.map_entry i f d) k = (if k = i then map_option f (map_of d i) else map_of d k)"
  by (simp add: map_of_map_entry split: option.splits)

lemma length_map_entry [simp]: "length (AList.map_entry i f d) = length d"
  by (induction d) auto

lemma map_fst_map_entry [simp]: "map fst (AList.map_entry i f d) = map fst d"
  by (induction d) auto

lemma count_map_entry_le:
  assumes "\<And>v. map_of d i = Some v \<Longrightarrow> P (i, f v) \<Longrightarrow> P (i, v)"
  shows "length (filter P (AList.map_entry i f d)) \<le> length (filter P d)"
  using assms
proof (induction d)
  case (Cons x d)
  show ?case
  proof (cases "fst x = i")
    case True
    with Cons.prems [of "snd x"] show ?thesis by (cases x) auto
  next
    case False
    with Cons.prems have "length (filter P (AList.map_entry i f d)) \<le> length (filter P d)"
      by (intro Cons.IH) simp
    with False show ?thesis by simp
  qed
qed simp

subsection \<open>The state machine\<close>

definition status_steps :: "(task_status \<times> task_status) set" where
  "status_steps = {(a, b). b \<in> task_transitions a}"

text \<open>A task after some operations: the version counts the transitions that were made, and nothing else
  than status, version, approval and time stamp has changed.\<close>

definition evolves :: "scheduled_task \<Rightarrow> scheduled_task \<Rightarrow> bool" where
  "evolves t t' \<longleftrightarrow> tk_version t \<le> tk_version t'
     \<and> (tk_status t, tk_status t') \<in> status_steps ^^ nat (tk_version t' - tk_version t)
     \<and> t' = t\<lparr>tk_status := tk_status t', tk_version := tk_version t', tk_approval := tk_approval t',
              tk_updated := tk_updated t'\<rparr>"

lemma evolves_refl [simp]: "evolves t t"
  by (simp add: evolves_def)

lemma evolves_fields:
  "evolves t (t\<lparr>tk_updated := now\<rparr>)" "evolves t (t\<lparr>tk_approval := reference\<rparr>)"
  by (simp_all add: evolves_def)

lemma evolves_moved: "st \<in> task_transitions (tk_status t) \<Longrightarrow> evolves t (moved_to st t)"
  by (simp add: evolves_def moved_to_def status_steps_def)

lemma evolves_trans:
  assumes "evolves t t'" "evolves t' t''"
  shows "evolves t t''"
proof -
  let ?m = "nat (tk_version t' - tk_version t)" and ?n = "nat (tk_version t'' - tk_version t')"
  have "(tk_status t, tk_status t'') \<in> status_steps ^^ (?m + ?n)"
    using assms unfolding evolves_def relpow_add by blast
  moreover have "?m + ?n = nat (tk_version t'' - tk_version t)" "tk_version t \<le> tk_version t''"
    using assms [unfolded evolves_def, THEN conjunct1] by simp_all
  moreover have "t'' = t\<lparr>tk_status := tk_status t'', tk_version := tk_version t'',
      tk_approval := tk_approval t'', tk_updated := tk_updated t''\<rparr>"
  proof -
    have 1: "t' = t\<lparr>tk_status := tk_status t', tk_version := tk_version t', tk_approval := tk_approval t',
        tk_updated := tk_updated t'\<rparr>" and 2: "t'' = t'\<lparr>tk_status := tk_status t'',
        tk_version := tk_version t'', tk_approval := tk_approval t'', tk_updated := tk_updated t''\<rparr>"
      using assms unfolding evolves_def by blast+
    show ?thesis by (subst 2, subst 1) simp
  qed
  ultimately show ?thesis unfolding evolves_def by simp
qed

definition lifecycle :: "task_center \<Rightarrow> task_center \<Rightarrow> bool" where
  "lifecycle s s' \<longleftrightarrow>
     (\<forall>i t. map_of (tc_tasks s) i = Some t \<longrightarrow> (\<exists>t'. map_of (tc_tasks s') i = Some t' \<and> evolves t t'))"

lemma lifecycle_quiet: "tc_tasks s' = tc_tasks s \<Longrightarrow> lifecycle s s'"
  by (simp add: lifecycle_def)

lemma lifecycle_entry:
  assumes "map_of (tc_tasks s) i = Some t" "evolves t (f t)"
  shows "lifecycle s (s\<lparr>tc_tasks := AList.map_entry i f (tc_tasks s)\<rparr>)"
  using assms by (auto simp: lifecycle_def map_of_map_entry_eq)

interpretation lifecycle: task_law lifecycle UNIV UNIV
proof unfold_locales
  fix s s' s'' assume "lifecycle s s'" "lifecycle s' s''"
  then show "lifecycle s s''"
    unfolding lifecycle_def by (meson evolves_trans)
next
  fix s s' assume "quiet s s'"
  then show "lifecycle s s'" by (auto simp: lifecycle_def quiet_def)
next
  fix t and s :: task_center assume "admissible t s"
  then show "lifecycle s (s\<lparr>tc_tasks := AList.update (tk_id t) t (tc_tasks s)\<rparr>)"
    by (auto simp: lifecycle_def admissible_def)
next
  fix s :: task_center and i t st assume "map_of (tc_tasks s) i = Some t" "st \<in> task_transitions (tk_status t)"
  then show "lifecycle s (s\<lparr>tc_tasks := AList.map_entry i (moved_to st) (tc_tasks s)\<rparr>)"
    by (blast intro: lifecycle_entry evolves_moved)
qed (auto intro: lifecycle_quiet lifecycle_entry evolves_fields)

text \<open>C34: over any sequence of operations by any callers, a task stays in the scheduler, moves along the
  table of transitions exactly as often as its version grows, and changes in nothing but its status,
  version, approval and time stamp. The ports are assumed to respect this themselves, as they do when
  they change tasks through the service only.\<close>

theorem task_lifecycle:
  assumes "ports_keep lifecycle UNIV ports" "map_of (tc_tasks s) i = Some t"
  shows "\<exists>t'. map_of (tc_tasks (perform_all ports cs s)) i = Some t'
    \<and> tk_version t \<le> tk_version t'
    \<and> (tk_status t, tk_status t') \<in> {(a, b). b \<in> task_transitions a} ^^ nat (tk_version t' - tk_version t)
    \<and> t' = t\<lparr>tk_status := tk_status t', tk_version := tk_version t', tk_approval := tk_approval t',
             tk_updated := tk_updated t'\<rparr>"
proof -
  have "lifecycle s (perform_all ports cs s)"
    using assms(1) by (rule lifecycle.perform_all_keeps) simp
  with assms(2) show ?thesis unfolding lifecycle_def evolves_def status_steps_def by blast
qed

subsection \<open>Isolation of workspaces\<close>

definition workspace_tasks :: "string \<Rightarrow> string \<Rightarrow> task_center \<Rightarrow> (string \<times> scheduled_task) set" where
  "workspace_tasks tenant workspace s =
     {(i, t). map_of (tc_tasks s) i = Some t \<and> tk_tenant t = tenant \<and> tk_workspace t = workspace}"

definition foreign_scopes :: "string \<Rightarrow> string \<Rightarrow> task_scope set" where
  "foreign_scopes tenant workspace = {sc. (sc_tenant sc, sc_workspace sc) \<noteq> (tenant, workspace)}"

definition same_tasks :: "string \<Rightarrow> string \<Rightarrow> task_center \<Rightarrow> task_center \<Rightarrow> bool" where
  "same_tasks tenant workspace s s' \<longleftrightarrow> workspace_tasks tenant workspace s' = workspace_tasks tenant workspace s"

lemma same_tasks_entry:
  assumes "sc \<in> foreign_scopes tenant workspace" "map_of (tc_tasks s) i = Some t" "mine sc t"
    and "tk_tenant (f t) = tk_tenant t" "tk_workspace (f t) = tk_workspace t"
  shows "same_tasks tenant workspace s (s\<lparr>tc_tasks := AList.map_entry i f (tc_tasks s)\<rparr>)"
  using assms
  by (auto simp: same_tasks_def workspace_tasks_def foreign_scopes_def mine_def map_of_map_entry_eq
      split: if_splits)

lemma same_tasks_quiet: "tc_tasks s' = tc_tasks s \<Longrightarrow> same_tasks tenant workspace s s'"
  by (simp add: same_tasks_def workspace_tasks_def)

interpretation isolation: task_law "same_tasks tenant workspace" "foreign_scopes tenant workspace" UNIV
  for tenant workspace
proof unfold_locales
  fix sc t and s :: task_center assume "sc \<in> foreign_scopes tenant workspace" "mine sc t" "admissible t s"
  then show "same_tasks tenant workspace s (s\<lparr>tc_tasks := AList.update (tk_id t) t (tc_tasks s)\<rparr>)"
    by (auto simp: same_tasks_def workspace_tasks_def foreign_scopes_def mine_def admissible_def
        split: if_splits)
next
  fix s s' s'' assume "same_tasks tenant workspace s s'" "same_tasks tenant workspace s' s''"
  then show "same_tasks tenant workspace s s''" by (simp add: same_tasks_def)
qed (auto intro: same_tasks_quiet same_tasks_entry simp: quiet_def moved_to_def)

text \<open>C35: whatever callers of other workspaces do, the tasks of a workspace stay exactly the same: none is
  added, changed or removed.\<close>

theorem workspace_isolation:
  assumes "ports_keep (same_tasks tenant workspace) (foreign_scopes tenant workspace) ports"
    and "\<And>c sc. c \<in> set cs \<Longrightarrow> op_scope c = Some sc \<Longrightarrow> (sc_tenant sc, sc_workspace sc) \<noteq> (tenant, workspace)"
    and "tk_tenant t = tenant" "tk_workspace t = workspace"
  shows "map_of (tc_tasks (perform_all ports cs s)) i = Some t \<longleftrightarrow> map_of (tc_tasks s) i = Some t"
proof -
  have "same_tasks tenant workspace s (perform_all ports cs s)"
    using assms(1) by (rule isolation.perform_all_keeps)
      (use assms(2) in \<open>auto simp: foreign_scopes_def\<close>)
  with assms(3,4) show ?thesis by (auto simp: same_tasks_def workspace_tasks_def)
qed

subsection \<open>Admission limits\<close>

definition admission :: "task_center \<Rightarrow> bool" where
  "admission s \<longleftrightarrow>
     int (length (tc_tasks s)) \<le> lm_global_tasks (tc_limits s)
     \<and> (\<forall>tenant workspace. int (workspace_count tenant workspace s) \<le> lm_workspace_tasks (tc_limits s))
     \<and> (\<forall>r. r \<noteq> '''' \<longrightarrow> int (holders tk_account r s) \<le> lm_account_tasks (tc_limits s))
     \<and> (\<forall>r. r \<noteq> '''' \<longrightarrow> int (holders tk_browser r s) \<le> lm_browser_tasks (tc_limits s))
     \<and> (\<forall>r. r \<noteq> '''' \<longrightarrow> int (holders tk_device r s) \<le> lm_device_tasks (tc_limits s))
     \<and> (\<forall>r. r \<noteq> '''' \<longrightarrow> int (holders tk_proxy r s) \<le> lm_proxy_tasks (tc_limits s))"

definition admission_kept :: "task_center \<Rightarrow> task_center \<Rightarrow> bool" where
  "admission_kept s s' \<longleftrightarrow> tc_limits s' = tc_limits s \<and> (admission s \<longrightarrow> admission s')"

text \<open>A closed task is never opened again, so a move does not add a holder of a resource.\<close>

lemma closed_stays: "st \<in> task_transitions st0 \<Longrightarrow> st0 \<in> closed_statuses \<Longrightarrow> st \<in> closed_statuses"
  by (cases st0) (auto simp: closed_statuses_def)

lemma holders_entry_le:
  assumes "\<And>t. map_of (tc_tasks s) i = Some t \<Longrightarrow> field (f t) = field t"
    and "\<And>t. map_of (tc_tasks s) i = Some t \<Longrightarrow> tk_status t \<in> closed_statuses \<Longrightarrow> tk_status (f t) \<in> closed_statuses"
  shows "holders field r (s\<lparr>tc_tasks := AList.map_entry i f (tc_tasks s)\<rparr>) \<le> holders field r s"
  unfolding holders_def using assms by (auto intro!: count_map_entry_le)

lemma admission_entry:
  assumes "map_of (tc_tasks s) i = Some t"
    and "tk_tenant (f t) = tk_tenant t" "tk_workspace (f t) = tk_workspace t"
    and "tk_account (f t) = tk_account t" "tk_browser (f t) = tk_browser t"
    and "tk_device (f t) = tk_device t" "tk_proxy (f t) = tk_proxy t"
    and closed: "tk_status t \<in> closed_statuses \<Longrightarrow> tk_status (f t) \<in> closed_statuses"
  shows "admission_kept s (s\<lparr>tc_tasks := AList.map_entry i f (tc_tasks s)\<rparr>)"
proof -
  let ?s = "s\<lparr>tc_tasks := AList.map_entry i f (tc_tasks s)\<rparr>"
  have h: "holders field r ?s \<le> holders field r s" if "field (f t) = field t" for field r
    using assms(1) that closed by (intro holders_entry_le) auto
  have w: "workspace_count tenant workspace ?s \<le> workspace_count tenant workspace s" for tenant workspace
    unfolding workspace_count_def using assms(1-3) by (auto intro!: count_map_entry_le)
  have le: "int m \<le> l" if "m \<le> n" "int n \<le> l" for m n and l :: int using that by simp
  show ?thesis
    unfolding admission_kept_def admission_def
    by (auto intro: le [OF h [OF assms(4)]] le [OF h [OF assms(5)]] le [OF h [OF assms(6)]]
        le [OF h [OF assms(7)]] le [OF w])
qed

lemma holders_create:
  assumes "map_of (tc_tasks s) (tk_id t) = None"
  shows "holders field r (s\<lparr>tc_tasks := AList.update (tk_id t) t (tc_tasks s)\<rparr>)
    \<le> holders field r s + (if field t = r then 1 else 0)"
  using assms by (simp add: holders_def update_fresh)

lemma holders_create_le:
  assumes "map_of (tc_tasks s) (tk_id t) = None" "r \<noteq> ''''" "int (holders field r s) \<le> limit (tc_limits s)"
    and "below_limit field limit t s"
  shows "int (holders field r (s\<lparr>tc_tasks := AList.update (tk_id t) t (tc_tasks s)\<rparr>)) \<le> limit (tc_limits s)"
  using holders_create [OF assms(1), of field r] assms(2-4)
  by (cases "field t = r") (auto simp: below_limit_def)

lemma admission_create:
  assumes "admissible t s"
  shows "admission_kept s (s\<lparr>tc_tasks := AList.update (tk_id t) t (tc_tasks s)\<rparr>)"
proof -
  let ?s = "s\<lparr>tc_tasks := AList.update (tk_id t) t (tc_tasks s)\<rparr>"
  have fresh: "map_of (tc_tasks s) (tk_id t) = None" using assms by (simp add: admissible_def)
  have "int (workspace_count tenant workspace ?s) \<le> lm_workspace_tasks (tc_limits s)"
    if "int (workspace_count tenant workspace s) \<le> lm_workspace_tasks (tc_limits s)" for tenant workspace
    using assms that fresh by (auto simp: admissible_def workspace_count_def update_fresh)
  moreover have "int (length (tc_tasks ?s)) \<le> lm_global_tasks (tc_limits s)"
    using assms fresh by (simp add: admissible_def update_fresh)
  ultimately show ?thesis
    using assms holders_create_le [OF fresh] unfolding admission_kept_def admission_def admissible_def
    by simp
qed

lemma admission_quiet: "tc_tasks s' = tc_tasks s \<Longrightarrow> tc_limits s' = tc_limits s \<Longrightarrow> admission_kept s s'"
  by (simp add: admission_kept_def admission_def holders_def workspace_count_def)

interpretation admission: task_law admission_kept UNIV UNIV
proof unfold_locales
  fix s s' s'' assume "admission_kept s s'" "admission_kept s' s''"
  then show "admission_kept s s''" by (simp add: admission_kept_def)
next
  fix s :: task_center and i t st
  assume "map_of (tc_tasks s) i = Some t" "st \<in> task_transitions (tk_status t)"
  then show "admission_kept s (s\<lparr>tc_tasks := AList.map_entry i (moved_to st) (tc_tasks s)\<rparr>)"
    by (intro admission_entry) (auto simp: moved_to_def intro: closed_stays)
qed (auto intro: admission_quiet admission_create admission_entry simp: quiet_def)

lemma admission_initial: "new_center env lm = Inr s \<Longrightarrow> admission s"
  by (auto simp: new_center_def invalid_limits_def limit_values_def admission_def holders_def
      workspace_count_def split: if_splits)

text \<open>C39: from the empty scheduler, whatever is called, the number of tasks of the scheduler, of a workspace,
  and of open tasks that name the same account, browser, device or proxy never exceeds its limit.\<close>

theorem admission_limits_hold:
  assumes "new_center env lm = Inr s0" "ports_keep admission_kept UNIV ports"
  shows "let s = perform_all ports cs s0 in
    int (length (tc_tasks s)) \<le> lm_global_tasks lm
    \<and> (\<forall>tenant workspace. int (workspace_count tenant workspace s) \<le> lm_workspace_tasks lm)
    \<and> (\<forall>r. r \<noteq> '''' \<longrightarrow> int (holders tk_account r s) \<le> lm_account_tasks lm
        \<and> int (holders tk_browser r s) \<le> lm_browser_tasks lm
        \<and> int (holders tk_device r s) \<le> lm_device_tasks lm
        \<and> int (holders tk_proxy r s) \<le> lm_proxy_tasks lm)"
proof -
  have "admission_kept s0 (perform_all ports cs s0)"
    using assms(2) by (rule admission.perform_all_keeps) simp
  moreover have "tc_limits s0 = lm"
    using assms(1) by (auto simp: new_center_def split: option.splits)
  ultimately show ?thesis
    using admission_initial [OF assms(1)] by (auto simp: Let_def admission_kept_def admission_def)
qed

subsection \<open>Witnesses\<close>

definition created_center :: task_center where
  "created_center = perform_all (ports_of [])
     [Create_Task (sample_task ''A'' ''w'') (sample_scope ''w'')] sample_center"

lemma created_center: "map_of (tc_tasks created_center) ''A'' = Some (sample_task ''A'' ''w'')"
  by (simp add: created_center_def perform_all_steps task_evals sample_evals act_steps)

definition ready_queue :: "task_op list" where
  "ready_queue = [Move_Task ''A'' READY (sample_scope ''w''), Enqueue_Task ''A'' (sample_scope ''w'') ''global'']"

lemma task_lifecycle_witness:
  "\<exists>t'. map_of (tc_tasks (perform_all (ports_of []) ready_queue created_center)) ''A'' = Some t'
    \<and> 1 \<le> tk_version t'
    \<and> (DRAFT, tk_status t') \<in> {(a, b). b \<in> task_transitions a} ^^ nat (tk_version t' - 1)"
  using task_lifecycle [OF lifecycle.bounded_ports_keep created_center, of ready_queue]
  by auto

lemma workspace_isolation_witness:
  "map_of (tc_tasks (perform_all (ports_of []) [Move_Task ''A'' CANCELLED (sample_scope ''v'')] created_center)) ''A''
     = Some (sample_task ''A'' ''w'')"
  by (rule workspace_isolation [where tenant = "''t''" and workspace = "''w''", THEN iffD2])
    (auto simp: created_center intro: isolation.bounded_ports_keep)

lemma admission_limits_hold_witness:
  "let s = perform_all (ports_of []) (Create_Task (sample_task ''A'' ''w'') (sample_scope ''w'') # ready_queue) sample_center
   in int (length (tc_tasks s)) \<le> 10000 \<and> int (workspace_count ''t'' ''w'' s) \<le> 1000"
  using admission_limits_hold [OF sample_center_new admission.bounded_ports_keep,
      of "Create_Task (sample_task ''A'' ''w'') (sample_scope ''w'') # ready_queue"]
  by (simp add: Let_def default_limits_def)

end
