(* ===== verification/Task_Dependencies.thy ===== *)
theory Task_Dependencies
  imports Task_Laws
begin

text \<open>
  The dependencies between the tasks of the scheduler: the search of \<open>_reachable\<close> decides reachability,
  the table of dependencies stays acyclic over any sequence of operations, and on an acyclic table
  \<open>_depth\<close> returns the length of the longest chain.
\<close>

subsection \<open>Reachability\<close>

definition depends :: "dependency_table \<Rightarrow> (string \<times> string) set" where
  "depends ds = {(a, b). b \<in> set (parents ds a)}"

lemma reach_loop_sound:
  "reach_loop ds target pending seen \<Longrightarrow> \<exists>i \<in> set pending. (i, target) \<in> (depends ds)\<^sup>*"
proof (induction ds target pending seen rule: reach_loop.induct)
  case (2 ds target i pending seen)
  show ?case
  proof (cases "i = target \<or> i \<in> seen")
    case True
    with 2 show ?thesis by (auto split: if_splits)
  next
    case False
    with 2 obtain j where "j \<in> set (parents ds i) \<union> set pending" "(j, target) \<in> (depends ds)\<^sup>*"
      by auto
    then show ?thesis
      by (auto simp: depends_def intro: converse_rtrancl_into_rtrancl)
  qed
qed simp

text \<open>When the loop returns False, what it has seen and what is pending is closed under dependencies
  and does not contain the target.\<close>

lemma reach_loop_complete:
  assumes "\<not> reach_loop ds target pending seen" "target \<notin> seen"
    and "\<And>i j. i \<in> seen \<Longrightarrow> j \<in> set (parents ds i) \<Longrightarrow> j \<in> seen \<union> set pending"
    and "i \<in> seen \<union> set pending"
  shows "(i, target) \<notin> (depends ds)\<^sup>*"
  using assms
proof (induction ds target pending seen arbitrary: i rule: reach_loop.induct)
  case (1 ds target seen)
  have "j \<in> seen" if "(i, j) \<in> (depends ds)\<^sup>*" for j
    using that "1.prems" by (induction rule: rtrancl_induct) (auto simp: depends_def)
  with "1.prems" show ?case by auto
next
  case (2 ds target k pending seen)
  then have ne: "k \<noteq> target" by auto
  show ?case
  proof (cases "k \<in> seen")
    case True
    with 2 ne show ?thesis by (intro "2.IH"(1)) auto
  next
    case False
    with ne "2.prems" have no: "\<not> reach_loop ds target (rev (parents ds k) @ pending) (insert k seen)" by auto
    show ?thesis
    proof (rule "2.IH"(2) [OF ne False no])
      show "target \<notin> insert k seen" using ne "2.prems"(2) by auto
      show "b \<in> insert k seen \<union> set (rev (parents ds k) @ pending)"
        if "a \<in> insert k seen" "b \<in> set (parents ds a)" for a b
        using that "2.prems"(3) by auto
      show "i \<in> insert k seen \<union> set (rev (parents ds k) @ pending)"
        using "2.prems"(4) by auto
    qed
  qed
qed

lemma reaches_task_depends:
  assumes "\<not> reaches_task ds a b"
  shows "(a, b) \<notin> (depends ds)\<^sup>*"
  using assms unfolding reaches_task_def
  by (rule reach_loop_complete) (auto simp del: reach_loop.simps)

text \<open>The iterative search with a stack and a set of seen tasks decides whether a task depends on another
  directly or through others, for every table of dependencies, cyclic ones included.\<close>

theorem reachable_iff_depends: "reaches_task ds a b \<longleftrightarrow> (a, b) \<in> {(a, b). b \<in> set (parents ds a)}\<^sup>*"
  using reaches_task_depends [of ds a b] reach_loop_sound [of ds b "[a]" "{}"]
  unfolding reaches_task_def depends_def by (auto simp del: reach_loop.simps)

subsection \<open>The table stays acyclic\<close>

definition dependencies_ok :: "task_center \<Rightarrow> bool" where
  "dependencies_ok s \<longleftrightarrow> acyclic (depends (tc_dependencies s))
     \<and> (\<forall>a b. (a, b) \<in> depends (tc_dependencies s) \<longrightarrow>
          map_of (tc_tasks s) a \<noteq> None \<and> map_of (tc_tasks s) b \<noteq> None)"

definition dependencies_kept :: "task_center \<Rightarrow> task_center \<Rightarrow> bool" where
  "dependencies_kept s s' \<longleftrightarrow> (dependencies_ok s \<longrightarrow> dependencies_ok s')"

lemma depends_update:
  "depends (AList.update a (dict_get ds a [] @ [d]) ds) = insert (a, td_depends_on d) (depends ds)"
  by (auto simp: depends_def parents_def split: if_splits)

lemma dependencies_tasks:
  assumes "tc_dependencies s' = tc_dependencies s"
    and "\<And>i. map_of (tc_tasks s) i \<noteq> None \<Longrightarrow> map_of (tc_tasks s') i \<noteq> None"
  shows "dependencies_kept s s'"
  unfolding dependencies_kept_def dependencies_ok_def assms(1) using assms(2) by blast

lemma entry_exists: "map_of d i \<noteq> None \<Longrightarrow> map_of (AList.map_entry k f d) i \<noteq> None"
  by (auto simp: map_of_map_entry split: option.splits)

interpretation dependencies: task_law dependencies_kept UNIV UNIV
proof unfold_locales
  fix s :: task_center and d :: task_dependency
  assume "map_of (tc_tasks s) (td_task d) \<noteq> None" "map_of (tc_tasks s) (td_depends_on d) \<noteq> None"
    and "td_task d \<noteq> td_depends_on d" "\<not> reaches_task (tc_dependencies s) (td_depends_on d) (td_task d)"
  then show "dependencies_kept s (s\<lparr>tc_dependencies :=
      AList.update (td_task d) (dict_get (tc_dependencies s) (td_task d) [] @ [d]) (tc_dependencies s)\<rparr>)"
    using reaches_task_depends [of "tc_dependencies s" "td_depends_on d" "td_task d"]
    by (auto simp: dependencies_kept_def dependencies_ok_def depends_update acyclic_insert)
next
  fix s s' s'' :: task_center assume "dependencies_kept s s'" "dependencies_kept s' s''"
  then show "dependencies_kept s s''" by (simp add: dependencies_kept_def)
qed (rule dependencies_tasks; simp add: quiet_def entry_exists del: not_None_eq)+

text \<open>C37: whatever is called, by whomever, the tasks of the scheduler never depend on themselves through a
  chain of dependencies, and every dependency is between registered tasks.\<close>

theorem dependencies_acyclic:
  assumes "new_center env lm = Inr s0" "ports_keep dependencies_kept UNIV ports"
  shows "let s = perform_all ports cs s0; r = {(a, b). b \<in> set (parents (tc_dependencies s) a)} in
    acyclic r \<and> (\<forall>(a, b) \<in> r. map_of (tc_tasks s) a \<noteq> None \<and> map_of (tc_tasks s) b \<noteq> None)"
proof -
  have "dependencies_kept s0 (perform_all ports cs s0)"
    using assms(2) by (rule dependencies.perform_all_keeps) simp
  moreover have "dependencies_ok s0"
    using assms(1) by (auto simp: new_center_def dependencies_ok_def depends_def parents_def dict_get_def
        acyclic_def split: option.splits)
  ultimately show ?thesis
    unfolding dependencies_kept_def dependencies_ok_def depends_def by (simp add: Let_def)
qed

lemma dependencies_acyclic_witness:
  "acyclic {(a, b). b \<in> set (parents (tc_dependencies (perform_all (ports_of [])
     [Create_Task (sample_task ''A'' ''w'') (sample_scope ''w''), Create_Task (sample_task ''B'' ''w'') (sample_scope ''w''),
      Add_Dependency \<lparr>td_task = ''A'', td_depends_on = ''B'', td_requirement = NEEDS_SUCCESS,
        td_parallel = False, td_timeout = 60\<rparr> (sample_scope ''w'')] sample_center)) a)}"
  using dependencies_acyclic [OF sample_center_new dependencies.bounded_ports_keep]
  by (simp add: Let_def)

subsection \<open>Depth\<close>

text \<open>\<open>n\<close> is the length of the longest chain of dependencies from \<open>i\<close>.\<close>

definition longest_chain :: "dependency_table \<Rightarrow> string \<Rightarrow> int \<Rightarrow> bool" where
  "longest_chain ds i n \<longleftrightarrow> 0 \<le> n \<and> (\<exists>j. (i, j) \<in> depends ds ^^ nat n)
     \<and> (\<forall>m j. (i, j) \<in> depends ds ^^ m \<longrightarrow> int m \<le> n)"

lemma no_chain:
  assumes "parents ds i = []"
  shows "longest_chain ds i 0"
proof -
  have "m = 0" if "(i, j) \<in> depends ds ^^ m" for m j
  proof (cases m)
    case (Suc k)
    with that obtain b where "(i, b) \<in> depends ds" by (blast elim: relpow_Suc_E2)
    with assms show ?thesis by (simp add: depends_def)
  qed
  then show ?thesis by (fastforce simp: longest_chain_def)
qed

lemma chain_step:
  assumes "parents ds i \<noteq> []" "\<And>j. j \<in> set (parents ds i) \<Longrightarrow> \<exists>n. longest_chain ds j n \<and> n \<le> m"
    and "j0 \<in> set (parents ds i)" "longest_chain ds j0 m"
  shows "longest_chain ds i (1 + m)"
proof -
  have m: "0 \<le> m" "nat (1 + m) = Suc (nat m)" using assms(4) by (auto simp: longest_chain_def nat_add_distrib)
  have "\<exists>j. (i, j) \<in> depends ds ^^ nat (1 + m)"
  proof -
    obtain j where "(j0, j) \<in> depends ds ^^ nat m" using assms(4) by (auto simp: longest_chain_def)
    moreover have "(i, j0) \<in> depends ds" using assms(3) by (simp add: depends_def)
    ultimately have "(i, j) \<in> depends ds ^^ Suc (nat m)" by (blast intro: relpow_Suc_I2)
    then show ?thesis unfolding m(2) by blast
  qed
  moreover have "int k \<le> 1 + m" if k: "(i, j) \<in> depends ds ^^ k" for k j
  proof (cases k)
    case (Suc l)
    with k obtain p where "(i, p) \<in> depends ds" "(p, j) \<in> depends ds ^^ l" by (blast elim: relpow_Suc_E2)
    with assms(2) [of p] show ?thesis by (fastforce simp: Suc depends_def longest_chain_def)
  qed (use m in simp)
  ultimately show ?thesis using m(1) unfolding longest_chain_def by auto
qed

text \<open>The maximum of the depths of a non-empty list of parents.\<close>

definition deepest_of :: "dependency_table \<Rightarrow> string list \<Rightarrow> int \<Rightarrow> bool" where
  "deepest_of ds js m \<longleftrightarrow> (\<forall>j \<in> set js. \<exists>n. longest_chain ds j n \<and> n \<le> m) \<and> (\<exists>j \<in> set js. longest_chain ds j m)"

lemma deepest_of_Cons:
  assumes "longest_chain ds i n" "deepest_of ds js m"
  shows "deepest_of ds (i # js) (max n m)"
  unfolding deepest_of_def
proof (intro conjI ballI)
  fix j assume "j \<in> set (i # js)"
  then show "\<exists>k. longest_chain ds j k \<and> k \<le> max n m"
    using assms unfolding deepest_of_def by (cases "j = i") (force simp: le_max_iff_disj)+
next
  show "\<exists>j \<in> set (i # js). longest_chain ds j (max n m)"
    using assms by (auto simp: deepest_of_def max_def)
qed

lemma task_depth_longest:
  assumes "acyclic (depends ds)"
  shows "(\<forall>v \<in> visited. (v, i) \<in> (depends ds)\<^sup>+) \<Longrightarrow> \<exists>n. task_depth ds visited i = Inr n \<and> longest_chain ds i n"
    and "(\<forall>v \<in> visited. \<forall>j \<in> set js. (v, j) \<in> (depends ds)\<^sup>+) \<Longrightarrow> js \<noteq> [] \<Longrightarrow>
      \<exists>m. deepest ds visited js = Inr m \<and> deepest_of ds js m"
  using assms
proof (induction ds visited i and ds visited js rule: task_depth_deepest.induct)
  case (1 ds visited i)
  then have new: "i \<notin> visited" by (auto simp: acyclic_def)
  show ?case
  proof (cases "parents ds i = []")
    case True
    with new show ?thesis
      using no_chain [OF True]
      by (auto simp: task_depth.simps parents_def dict_get_def split: option.splits list.splits)
  next
    case False
    then obtain d ds' where d: "map_of ds i = Some (d # ds')" and p: "parents ds i = map td_depends_on (d # ds')"
      by (auto simp: parents_def dict_get_def neq_Nil_conv split: option.splits)
    have "(v, j) \<in> (depends ds)\<^sup>+" if "v \<in> insert i visited" "j \<in> set (map td_depends_on (d # ds'))" for v j
    proof -
      have "(i, j) \<in> depends ds" using that(2) by (simp add: depends_def p)
      with that(1) "1.prems"(1) show ?thesis by (auto intro: trancl_into_trancl)
    qed
    then have "\<exists>m. deepest ds (insert i visited) (map td_depends_on (d # ds')) = Inr m
        \<and> deepest_of ds (map td_depends_on (d # ds')) m"
      using "1.prems"(2) by (intro "1.IH" [OF new d]) auto
    then obtain m where m: "deepest ds (insert i visited) (map td_depends_on (d # ds')) = Inr m"
      "deepest_of ds (parents ds i) m" unfolding p by blast
    have "longest_chain ds i (1 + m)"
      using m(2) False by (auto simp: deepest_of_def intro: chain_step)
    then show ?thesis using new d m(1) by (simp add: task_depth.simps)
  qed
next
  case (3 ds visited i)
  then show ?case by (simp add: deepest_of_def) blast
next
  case (4 ds visited i j js)
  then obtain n where n: "task_depth ds visited i = Inr n" "longest_chain ds i n" by auto
  moreover obtain m where "deepest ds visited (j # js) = Inr m" "deepest_of ds (j # js) m"
    using 4(2) [OF n(1)] 4(3-5) by auto
  ultimately show ?case using deepest_of_Cons by auto
qed simp_all

lemma depth_is_longest_chain:
  assumes "acyclic (depends ds)"
  shows "\<exists>n. task_depth ds {} i = Inr n \<and> longest_chain ds i n"
  using assms by (intro task_depth_longest(1)) simp_all

text \<open>The limit on the depth is checked at the parent of the new dependency only: a chain that is built from
  its end, each new dependency starting at the last parent, passes the check at every length.\<close>

definition plain_dependency :: "string \<Rightarrow> string \<Rightarrow> task_dependency" where
  "plain_dependency a b = \<lparr>td_task = a, td_depends_on = b, td_requirement = NEEDS_SUCCESS,
     td_parallel = False, td_timeout = 60\<rparr>"

definition shallow_center :: task_center where
  "shallow_center = sample_center\<lparr>tc_limits := default_limits\<lparr>lm_dependency_depth := 1\<rparr>,
     tc_tasks := [(''A'', sample_task ''A'' ''w''), (''B'', sample_task ''B'' ''w''), (''C'', sample_task ''C'' ''w'')]\<rparr>"

lemma depth_limit_bypassed:
  "task_depth (tc_dependencies (perform_all (ports_of [])
     [Add_Dependency (plain_dependency ''A'' ''B'') (sample_scope ''w''),
      Add_Dependency (plain_dependency ''B'' ''C'') (sample_scope ''w'')] shallow_center)) {} ''A'' = Inr 2"
  by (simp add: perform_all_steps add_dependency_def shallow_center_def plain_dependency_def act_steps
      dependency_depth_def act_bind_def [of "dependency_depth _"] reaches_task_def parents_def dict_get_def
      task_depth.simps record_audit_def sample_center_def sample_task_env_def default_limits_def
      secret_markers_def sublist_Cons_right)

end
