(* ===== verification/Task_Workers.thy ===== *)
theory Task_Workers
  imports Task_Laws
begin

text \<open>
  The workers and the recovery counters of the scheduler: loads stay within capacities, recoveries within
  their limit, over any sequence of operations.
\<close>

subsection \<open>Loads\<close>

definition load_ok :: "task_worker \<Rightarrow> bool" where
  "load_ok w \<longleftrightarrow> 0 \<le> wk_load w \<and> wk_load w \<le> wk_capacity w"

definition workers_ok :: "task_center \<Rightarrow> bool" where
  "workers_ok s \<longleftrightarrow> keyed wk_id (tc_workers s) \<and> (\<forall>w \<in> set (map snd (tc_workers s)). load_ok w)"

definition workers_kept :: "task_center \<Rightarrow> task_center \<Rightarrow> bool" where
  "workers_kept s s' \<longleftrightarrow> (workers_ok s \<longrightarrow> workers_ok s')"

lemma map_entry_values:
  assumes "x \<in> set (AList.map_entry i f d)"
  shows "x \<in> set d \<or> (\<exists>v. (i, v) \<in> set d \<and> x = (i, f v))"
  using assms by (induction d) (auto split: if_splits)

lemma fst_map_entry: "map fst (AList.map_entry i f d) = map fst d"
  by (induction d) auto

lemma workers_entry:
  assumes "\<And>w. wk_id (f w) = wk_id w" "\<And>w. (i, w) \<in> set (tc_workers s) \<Longrightarrow> load_ok w \<Longrightarrow> load_ok (f w)"
  shows "workers_kept s (s\<lparr>tc_workers := AList.map_entry i f (tc_workers s)\<rparr>)"
  unfolding workers_kept_def workers_ok_def keyed_def
proof (intro impI conjI ballI; (elim conjE)?)
  assume keys: "\<forall>(k, v) \<in> set (tc_workers s). wk_id v = k" and loads: "\<forall>w \<in> set (map snd (tc_workers s)). load_ok w"
  fix x assume x: "x \<in> set (tc_workers (s\<lparr>tc_workers := AList.map_entry i f (tc_workers s)\<rparr>))"
  then show "case x of (k, v) \<Rightarrow> wk_id v = k"
    using map_entry_values [of x i f "tc_workers s"] keys assms(1) by auto
next
  assume loads: "\<forall>w \<in> set (map snd (tc_workers s)). load_ok w"
  fix w assume "w \<in> set (map snd (tc_workers (s\<lparr>tc_workers := AList.map_entry i f (tc_workers s)\<rparr>)))"
  then obtain k where "(k, w) \<in> set (AList.map_entry i f (tc_workers s))" by auto
  from map_entry_values [OF this] show "load_ok w"
    using loads assms(2) by force
qed (simp add: fst_map_entry)

text \<open>A slot is taken from an available worker only; the key determines the worker.\<close>

lemma workers_take:
  assumes "w \<in> set (map snd (tc_workers s))" "worker_available w"
  shows "workers_kept s (s\<lparr>tc_workers := AList.map_entry (wk_id w) take_slot (tc_workers s)\<rparr>)"
proof (cases "workers_ok s")
  case True
  have same: "v = w" if "(wk_id w, v) \<in> set (tc_workers s)" for v
  proof -
    have "(wk_id w, w) \<in> set (tc_workers s)" using assms(1) True by (auto simp: workers_ok_def keyed_def)
    with that True show ?thesis by (auto simp: workers_ok_def keyed_def dest: eq_key_imp_eq_value)
  qed
  with assms(2) show ?thesis
    by (intro workers_entry) (auto dest!: same simp: take_slot_def load_ok_def worker_available_def)
qed (simp add: workers_kept_def)

lemma workers_quiet: "tc_workers s' = tc_workers s \<Longrightarrow> workers_kept s s'"
  by (simp add: workers_kept_def workers_ok_def)

interpretation workers: task_law workers_kept UNIV "{w. load_ok w}"
proof unfold_locales
  fix w and s :: task_center
  assume "w \<in> {w. load_ok w}" "map_of (tc_workers s) (wk_id w) = None"
  then show "workers_kept s (s\<lparr>tc_workers := AList.update (wk_id w) w (tc_workers s)\<rparr>)"
    by (auto simp: workers_kept_def workers_ok_def keyed_def update_fresh map_of_eq_None_iff)
next
  fix s s' s'' assume "workers_kept s s'" "workers_kept s' s''"
  then show "workers_kept s s''" by (simp add: workers_kept_def)
next
  fix s :: task_center and i now health
  show "workers_kept s (s\<lparr>tc_workers := AList.map_entry i (beat now health) (tc_workers s)\<rparr>)"
    by (rule workers_entry) (simp_all add: beat_def load_ok_def)
  show "workers_kept s (s\<lparr>tc_workers := AList.map_entry i free_slot (tc_workers s)\<rparr>)"
    by (rule workers_entry) (auto simp: free_slot_def load_ok_def)
next
  fix w and s :: task_center assume "w \<in> set (map snd (tc_workers s))" "worker_available w"
  then show "workers_kept s (s\<lparr>tc_workers := AList.map_entry (wk_id w) take_slot (tc_workers s)\<rparr>)"
    by (rule workers_take)
qed (auto intro: workers_quiet simp: quiet_def)

text \<open>C40: provided that every worker is registered with a load between zero and its capacity, which
  \<open>register_worker\<close> does not check, the load of a worker never leaves that range, whatever is
  dispatched, failed, cancelled or reported, one operation after the other, in any order.\<close>

theorem worker_loads_bounded:
  assumes "new_center env lm = Inr s0" "ports_keep workers_kept UNIV ports"
    and "\<And>w sc. Register_Worker w sc \<in> set cs \<Longrightarrow> 0 \<le> wk_load w \<and> wk_load w \<le> wk_capacity w"
    and "map_of (tc_workers (perform_all ports cs s0)) i = Some w"
  shows "0 \<le> wk_load w \<and> wk_load w \<le> wk_capacity w"
proof -
  have crew: "set_option (op_worker c) \<subseteq> {w. load_ok w}" if "c \<in> set cs" for c
  proof
    fix w assume "w \<in> set_option (op_worker c)"
    then obtain sc where "c = Register_Worker w sc" by (cases c rule: op_worker.cases) auto
    with that assms(3) show "w \<in> {w. load_ok w}" by (simp add: load_ok_def)
  qed
  have "workers_kept s0 (perform_all ports cs s0)"
    using assms(2) by (rule workers.perform_all_keeps) (simp add: crew)
  moreover have "workers_ok s0"
    using assms(1) by (auto simp: new_center_def workers_ok_def split: option.splits)
  ultimately have "workers_ok (perform_all ports cs s0)" by (simp add: workers_kept_def)
  then show ?thesis
    using map_of_SomeD [OF assms(4)] by (force simp: workers_ok_def load_ok_def)
qed

subsection \<open>Recoveries\<close>

definition recoveries_kept :: "task_center \<Rightarrow> task_center \<Rightarrow> bool" where
  "recoveries_kept s s' \<longleftrightarrow> tc_limits s' = tc_limits s
     \<and> (\<forall>i. recoveries i s \<le> recoveries i s' \<and> recoveries i s' \<le> max (recoveries i s) (lm_recovery_attempts (tc_limits s)))"

lemma recoveries_quiet:
  "tc_recoveries s' = tc_recoveries s \<Longrightarrow> tc_limits s' = tc_limits s \<Longrightarrow> recoveries_kept s s'"
  by (simp add: recoveries_kept_def recoveries_def)

interpretation recoveries: task_law recoveries_kept UNIV UNIV
proof unfold_locales
  fix s s' s'' assume "recoveries_kept s s'" "recoveries_kept s' s''"
  then show "recoveries_kept s s''"
    unfolding recoveries_kept_def by (auto intro: order_trans)
next
  fix s :: task_center and i
  show "recoveries_kept s (s\<lparr>tc_recoveries := AList.update i (recoveries i s) (tc_recoveries s)\<rparr>)"
    by (simp add: recoveries_kept_def recoveries_def)
  show "recoveries_kept s (s\<lparr>tc_recoveries := AList.update i (recoveries i s + 1) (tc_recoveries s)\<rparr>)"
    if "recoveries i s < lm_recovery_attempts (tc_limits s)"
    using that by (simp add: recoveries_kept_def recoveries_def)
qed (auto intro: recoveries_quiet simp: quiet_def)

text \<open>The recoveries counted for a task never decrease and, from the empty scheduler on, never exceed
  the configured maximum.\<close>

theorem recoveries_bounded:
  assumes "new_center env lm = Inr s0" "ports_keep recoveries_kept UNIV ports"
  shows "0 \<le> recoveries i (perform_all ports cs s0)
    \<and> recoveries i (perform_all ports cs s0) \<le> lm_recovery_attempts lm"
proof -
  have "recoveries_kept s0 (perform_all ports cs s0)"
    using assms(2) by (rule recoveries.perform_all_keeps) simp
  moreover have "recoveries i s0 = 0" "tc_limits s0 = lm" "0 \<le> lm_recovery_attempts lm"
    using assms(1) by (auto simp: new_center_def recoveries_def invalid_limits_def limit_values_def
        split: option.splits if_splits)
  ultimately show ?thesis unfolding recoveries_kept_def by (auto dest!: spec [of _ i])
qed

subsection \<open>Witnesses\<close>

definition staffing :: "task_op list" where
  "staffing = [Register_Worker (sample_worker ''W'') (sample_scope ''w''),
     Heartbeat_Worker ''W'' ''healthy'' (sample_scope ''w'')]"

lemma staffing_runs:
  "\<exists>w. map_of (tc_workers (perform_all (ports_of []) staffing sample_center)) ''W'' = Some w \<and> wk_capacity w = 1"
  by (simp add: staffing_def perform_all_steps register_worker_def heartbeat_worker_def act_steps
      record_audit_def sample_center_def sample_worker_def sample_task_env_def secret_markers_def
      sublist_Cons_right update_worker_def beat_def act_lookup_def)

lemma worker_loads_bounded_witness:
  "\<exists>w. map_of (tc_workers (perform_all (ports_of []) staffing sample_center)) ''W'' = Some w
     \<and> 0 \<le> wk_load w \<and> wk_load w \<le> wk_capacity w"
  using staffing_runs worker_loads_bounded [OF sample_center_new workers.bounded_ports_keep, of staffing "''W''"]
  by (auto simp: staffing_def sample_worker_def)

lemma recoveries_bounded_witness:
  "0 \<le> recoveries ''A'' (perform_all (ports_of []) staffing sample_center)
   \<and> recoveries ''A'' (perform_all (ports_of []) staffing sample_center) \<le> 3"
  using recoveries_bounded [OF sample_center_new recoveries.bounded_ports_keep, of "''A''" staffing]
  by (simp add: default_limits_def)

text \<open>The proviso is needed: a worker is registered with any load, here one above its capacity.\<close>

lemma registered_load_unchecked:
  "\<exists>s. register_worker (sample_worker ''W''\<lparr>wk_load := 7\<rparr>) (sample_scope ''w'') sample_center =
     (Inr (sample_worker ''W''\<lparr>wk_load := 7\<rparr>), s)
     \<and> map_of (tc_workers s) ''W'' = Some (sample_worker ''W''\<lparr>wk_load := 7\<rparr>)
     \<and> wk_capacity (sample_worker ''W''\<lparr>wk_load := 7\<rparr>) = 1"
  by (simp add: register_worker_def act_steps task_evals sample_evals secret_markers_def)

end
