(* ===== verification/Task_Execution.thy ===== *)
theory Task_Execution
  imports Task_Laws
begin

text \<open>
  Dispatch and execution of the scheduler: which task a dispatch selects, which executions reach a port,
  and what the code does where it departs from what it means to do.
\<close>

subsection \<open>Dispatch\<close>

text \<open>The candidates of a dispatch: the QUEUED tasks in the queues whose key begins with
  \<open>tenant:workspace:\<close> and does not end in \<open>:delayed\<close>, as \<open>dispatch_next\<close> collects them. A task that waits
  in the delayed queue is not among them, and the queues of a workspace whose name extends the caller's
  by a colon are (\<open>prefixed_workspace_dispatched\<close>). Then the key that \<open>max\<close> computes for the candidate at
  position \<open>j\<close>, with the clock as it reads when that key is computed.\<close>

definition waiting :: "task_scope \<Rightarrow> task_center \<Rightarrow> scheduled_task list" where
  "waiting sc s = filter (\<lambda>t. tk_status t = QUEUED)
     (map (\<lambda>i. the (map_of (tc_tasks s) i)) (dispatchable sc (tc_queues s)))"

definition rank_at :: "task_center \<Rightarrow> nat \<Rightarrow> scheduled_task \<Rightarrow> int \<times> int" where
  "rank_at s j t = (effective_priority (te_clock (tc_env s) (tc_ticks s + j)) t, - tk_created t)"

lemma lookup_tasks_Inr:
  "lookup_tasks js s = (Inr ts, s') \<longleftrightarrow>
     (\<forall>i \<in> set js. map_of (tc_tasks s) i \<noteq> None) \<and> ts = map (\<lambda>i. the (map_of (tc_tasks s) i)) js \<and> s' = s"
proof (induction js arbitrary: ts)
  case (Cons i js)
  show ?case
  proof (cases "map_of (tc_tasks s) i")
    case (Some t)
    have "lookup_tasks (i # js) s = (Inr ts, s') \<longleftrightarrow> (\<exists>us. lookup_tasks js s = (Inr us, s') \<and> ts = t # us)"
      using Some by (auto simp: act_steps act_bind_def [of "lookup_tasks js"] split: prod.splits sum.splits)
    with Some show ?thesis by (auto simp: Cons.IH)
  qed (simp add: act_steps)
qed (auto simp: act_steps)

lemma rank_tasks_run:
  "rank_tasks ts s = (Inr (map (\<lambda>j. (rank_at s j (ts ! j), ts ! j)) [0..<length ts]),
     s\<lparr>tc_ticks := tc_ticks s + length ts\<rparr>)"
proof (induction ts arbitrary: s)
  case (Cons t ts)
  let ?s = "s\<lparr>tc_ticks := tc_ticks s + 1\<rparr>"
  have "map (\<lambda>j. (rank_at ?s j (ts ! j), ts ! j)) [0..<length ts] =
      map (\<lambda>j. (rank_at s j ((t # ts) ! j), (t # ts) ! j)) [1..<Suc (length ts)]"
    by (simp add: rank_at_def map_Suc_upt [symmetric] del: upt_Suc)
  moreover have "[0..<Suc (length ts)] = 0 # [1..<Suc (length ts)]"
    by (simp add: upt_conv_Cons del: upt_Suc)
  ultimately show ?case
    using Cons [of ?s]
    by (simp add: act_steps act_bind_def [of "rank_tasks ts"] rank_at_def del: upt_Suc)
qed (simp add: act_steps)

text \<open>\<open>max\<close> returns the first of the elements with the greatest key.\<close>

lemma key_greater_linear:
  "\<not> key_greater a a" "key_greater a b \<Longrightarrow> \<not> key_greater b a"
  "key_greater a b \<Longrightarrow> key_greater b c \<Longrightarrow> key_greater a c"
  "\<not> key_greater b a \<Longrightarrow> key_greater b c \<Longrightarrow> key_greater a c"
  "\<not> key_greater b a \<Longrightarrow> \<not> key_greater c b \<Longrightarrow> \<not> key_greater c a"
  by (auto simp: key_greater_def)

lemma max_ranked_snoc:
  "max_ranked b (xs @ [x]) = (if key_greater (fst x) (fst (max_ranked b xs)) then x else max_ranked b xs)"
  by (induction xs arbitrary: b) simp_all

lemma max_ranked_first:
  "\<exists>k < length (b # xs). max_ranked b xs = (b # xs) ! k
     \<and> (\<forall>j < length (b # xs). \<not> key_greater (fst ((b # xs) ! j)) (fst ((b # xs) ! k)))
     \<and> (\<forall>j < k. key_greater (fst ((b # xs) ! k)) (fst ((b # xs) ! j)))"
proof (induction xs rule: rev_induct)
  case Nil
  show ?case by (simp add: key_greater_linear(1))
next
  case (snoc x xs)
  have step: "max_ranked b (xs @ [x]) =
      (if key_greater (fst x) (fst (max_ranked b xs)) then x else max_ranked b xs)"
    by (rule max_ranked_snoc)
  obtain k where k: "k < length (b # xs)" "max_ranked b xs = (b # xs) ! k"
    "\<forall>j < length (b # xs). \<not> key_greater (fst ((b # xs) ! j)) (fst ((b # xs) ! k))"
    "\<forall>j < k. key_greater (fst ((b # xs) ! k)) (fst ((b # xs) ! j))"
    using snoc by blast
  let ?ys = "b # xs @ [x]"
  have old: "?ys ! j = (b # xs) ! j" if "j < length (b # xs)" for j
    using that by (metis append_Cons nth_append)
  have new: "?ys ! length (b # xs) = x" by simp
  show ?case
  proof (cases "key_greater (fst x) (fst ((b # xs) ! k))")
    case True
    have "key_greater (fst x) (fst (?ys ! j))" if "j < length (b # xs)" for j
      using that k(3) True old by (cases x; cases "fst x") (auto simp: key_greater_def)
    then show ?thesis
      using True k(2) new by (intro exI [of _ "length (b # xs)"])
        (auto simp: step less_Suc_eq key_greater_linear(1,2) simp del: nth_Cons_Suc)
  next
    case False
    have "\<not> key_greater (fst (?ys ! j)) (fst (?ys ! k))" if "j < length ?ys" for j
      using that k(1,3) False old new by (cases "j = length (b # xs)") auto
    moreover have "key_greater (fst (?ys ! k)) (fst (?ys ! j))" if "j < k" for j
      unfolding old [OF k(1)] old [OF less_trans [OF that k(1)]] using k(4) that by blast
    ultimately show ?thesis
      using False k(1,2) old by (intro exI [of _ k]) (auto simp: step)
  qed
qed

text \<open>What a dispatch has done when it returns an execution. The rest of \<open>allocate_task\<close> after the task has
  moved changes no task.\<close>

definition tasks_same :: "task_center \<Rightarrow> task_center \<Rightarrow> bool" where
  "tasks_same s s' \<longleftrightarrow> tc_tasks s' = tc_tasks s \<and> tc_dependencies s' = tc_dependencies s"

interpretation tasks_same: frame_law tasks_same
  by unfold_locales (auto simp: tasks_same_def tiny_def)

lemma move_task_Inr:
  assumes "move_task i st sc s = (Inr t', s')"
  shows "\<exists>t. map_of (tc_tasks s) i = Some t \<and> mine sc t \<and> st \<in> task_transitions (tk_status t)
    \<and> map_of (tc_tasks s') i = Some t' \<and> tk_status t' = st \<and> mine sc t'"
proof -
  define now where "now = te_clock (tc_env s) (tc_ticks s)"
  let ?u = "\<lambda>t. t\<lparr>tk_status := st, tk_version := tk_version t + 1, tk_updated := now\<rparr>"
  obtain t where t: "map_of (tc_tasks s) i = Some t" "mine sc t" "st \<in> task_transitions (tk_status t)"
    using assms unfolding move_task_def mine_def by (auto simp: act_steps split: option.splits if_splits)
  define s1 where "s1 = s\<lparr>tc_ticks := tc_ticks s + 1, tc_tasks := AList.map_entry i (\<lambda>t. t\<lparr>tk_updated := now\<rparr>)
    (AList.map_entry i (\<lambda>t. t\<lparr>tk_status := st, tk_version := tk_version t + 1\<rparr>) (tc_tasks s))\<rparr>"
  let ?rest = "act_seq (record_audit sc ''task.transition'' i (task_status_value st)) (act_lookup tc_tasks i)"
  have run: "?rest s1 = (Inr t', s')"
    using assms t unfolding move_task_def mine_def s1_def now_def update_task_def
    by (auto simp: act_steps split: if_splits)
  have "tasks_same s1 s'"
  proof -
    have "keeps tasks_same ?rest" by (intro keeps_intros)
    from keepsD [OF this, of s1] run show ?thesis by simp
  qed
  moreover have "map_of (tc_tasks s') i = Some t'"
    using run by (auto simp: act_seq_def act_bind_def act_lookup_def split: sum.splits prod.splits option.splits)
  moreover have "map_of (tc_tasks s1) i = Some (?u t)"
    using t(1) by (simp add: s1_def map_of_map_entry)
  ultimately show ?thesis using t by (auto simp: tasks_same_def mine_def)
qed

lemma seq_Inr:
  assumes "act_seq m n s = (Inr x, s')"
  shows "\<exists>y s1. m s = (Inr y, s1) \<and> n s1 = (Inr x, s')"
  using assms by (auto simp: act_seq_def act_bind_def split: sum.splits prod.splits)

lemma bind_Inr:
  assumes "act_bind m f s = (Inr x, s')"
  shows "\<exists>y s1. m s = (Inr y, s1) \<and> f y s1 = (Inr x, s')"
  using assms by (auto simp: act_bind_def split: sum.splits prod.splits)

lemma allocate_task_Inr:
  assumes "allocate_task t w sc s = (Inr c, s')"
  shows "\<exists>e. c = Some e \<and> e = new_execution (ex_id e) t (wk_id w)
    \<and> (\<exists>t'. map_of (tc_tasks s') (tk_id t) = Some t' \<and> tk_status t' = ALLOCATED \<and> mine sc t')"
proof -
  let ?rest = "\<lambda>u. let e = new_execution (''execution-'' @ u) t (wk_id w) in
     act_seq (act_all
       [act_modify (\<lambda>s. s\<lparr>tc_executions := AList.update (ex_id e) e (tc_executions s)\<rparr>),
        record_audit sc ''task.allocated'' (tk_id t) (wk_id w),
        update_queue_metric,
        update_worker_metric])
     (act_return (Some e))"
  obtain t' s1 s2 where m: "move_task (tk_id t) ALLOCATED sc s1 = (Inr t', s2)"
    and rest: "act_bind uuid4 ?rest s2 = (Inr c, s')"
    using assms unfolding allocate_task_def by (blast dest: seq_Inr)
  obtain u where run: "?rest u (s2\<lparr>tc_uuids := tc_uuids s2 + 1\<rparr>) = (Inr c, s')"
    using rest by (simp add: act_steps)
  let ?e = "new_execution (''execution-'' @ u) t (wk_id w)"
  have "keeps tasks_same (act_modify (\<lambda>s. s\<lparr>tc_executions := AList.update (ex_id ?e) ?e (tc_executions s)\<rparr>))"
    by (simp add: keeps_def act_modify_def tasks_same_def)
  then have "keeps tasks_same (?rest u)"
    unfolding Let_def by (intro keeps_intros)
  from keepsD [OF this, of "s2\<lparr>tc_uuids := tc_uuids s2 + 1\<rparr>"] run
  have "tc_tasks s' = tc_tasks s2" by (simp add: tasks_same_def)
  moreover have "c = Some ?e"
    using run unfolding Let_def by (auto dest!: seq_Inr simp: act_return_def)
  ultimately show ?thesis
    using move_task_Inr [OF m] by (auto simp: new_execution_def)
qed

lemma choose_task_Inr:
  assumes "choose_task sc s = (Inr c, s')"
  shows "s' = s\<lparr>tc_ticks := tc_ticks s + length (waiting sc s)\<rparr>
    \<and> (c = None \<longleftrightarrow> waiting sc s = [])
    \<and> (\<forall>t. c = Some t \<longrightarrow> (\<exists>k < length (waiting sc s). t = waiting sc s ! k
         \<and> (\<forall>j < length (waiting sc s). \<not> key_greater (rank_at s j (waiting sc s ! j)) (rank_at s k t))
         \<and> (\<forall>j < k. key_greater (rank_at s k t) (rank_at s j (waiting sc s ! j)))))"
proof -
  let ?ts = "waiting sc s"
  let ?rs = "map (\<lambda>j. (rank_at s j (?ts ! j), ?ts ! j)) [0..<length ?ts]"
  have cands: "dispatch_candidates sc s = (Inr ts, s1) \<Longrightarrow> ts = ?ts \<and> s1 = s" for ts s1
    unfolding dispatch_candidates_def waiting_def
    by (auto simp: act_steps lookup_tasks_Inr act_return_def dest!: bind_Inr)
  have run: "c = (case ?rs of [] \<Rightarrow> None | r # rs \<Rightarrow> Some (snd (max_ranked r rs)))"
    "s' = s\<lparr>tc_ticks := tc_ticks s + length ?ts\<rparr>"
    using assms unfolding choose_task_def
    by (auto simp: rank_tasks_run act_return_def dest!: bind_Inr cands)
  show ?thesis
  proof (cases ?rs)
    case Nil
    with run show ?thesis by simp
  next
    case (Cons r rs)
    then have c: "c = Some (snd (max_ranked r rs))" using run(1) by simp
    from max_ranked_first [of r rs] obtain k where k: "k < length ?rs" "max_ranked r rs = ?rs ! k"
      "\<forall>j < length ?rs. \<not> key_greater (fst (?rs ! j)) (fst (?rs ! k))"
      "\<forall>j < k. key_greater (fst (?rs ! k)) (fst (?rs ! j))"
      unfolding Cons [symmetric] by blast
    have "?ts \<noteq> []" using k(1) by auto
    with k c run(2) show ?thesis by (auto intro!: exI [of _ k])
  qed
qed

text \<open>C36: a dispatch that returns an execution has selected, among the QUEUED tasks in the queues whose key
  begins with the caller's tenant and workspace and does not end in \<open>:delayed\<close>, the first with the
  greatest effective priority and, at equal priority, the earliest creation; it gave it to the first
  available worker that supports its type and workspace, as a first attempt, and the task, which is one
  of the caller's workspace, is ALLOCATED. It does nothing while the kill switch is on or the maximum of
  executions is running.\<close>

theorem dispatch_selects_best:
  assumes "dispatch_next sc s = (Inr (Some e), s')"
  shows "\<exists>k w. k < length (waiting sc s)
    \<and> (\<forall>j < length (waiting sc s). \<not> key_greater (rank_at s j (waiting sc s ! j)) (rank_at s k (waiting sc s ! k)))
    \<and> (\<forall>j < k. key_greater (rank_at s k (waiting sc s ! k)) (rank_at s j (waiting sc s ! j)))
    \<and> find (suits (waiting sc s ! k)) (map snd (tc_workers s)) = Some w
    \<and> e = new_execution (ex_id e) (waiting sc s ! k) (wk_id w)
    \<and> (\<exists>t. map_of (tc_tasks s') (ex_task e) = Some t \<and> tk_status t = ALLOCATED \<and> mine sc t)
    \<and> \<not> tc_kill_switch s \<and> running_count s < lm_concurrent_executions (tc_limits s)"
proof -
  let ?pick = "\<lambda>c. case c of None \<Rightarrow> act_return None | Some t \<Rightarrow>
     act_bind (act_get (\<lambda>s. find (suits t) (map snd (tc_workers s)))) (\<lambda>w.
       case w of None \<Rightarrow> act_return None | Some w \<Rightarrow> allocate_task t w sc)"
  have open': "\<not> tc_kill_switch s" "running_count s < lm_concurrent_executions (tc_limits s)"
    and chosen: "act_bind (choose_task sc) ?pick s = (Inr (Some e), s')"
    using assms unfolding dispatch_next_def
    by (auto simp: act_steps split: if_splits)
  obtain c s1 where c: "choose_task sc s = (Inr c, s1)" "?pick c s1 = (Inr (Some e), s')"
    using bind_Inr [OF chosen] by blast
  from c(2) obtain t w where tw: "c = Some t" "find (suits t) (map snd (tc_workers s1)) = Some w"
    "allocate_task t w sc s1 = (Inr (Some e), s')"
    by (auto simp: act_steps split: option.splits)
  from choose_task_Inr [OF c(1)] tw(1) obtain k where k: "k < length (waiting sc s)" "t = waiting sc s ! k"
    "\<forall>j < length (waiting sc s). \<not> key_greater (rank_at s j (waiting sc s ! j)) (rank_at s k t)"
    "\<forall>j < k. key_greater (rank_at s k t) (rank_at s j (waiting sc s ! j))"
    and s1: "s1 = s\<lparr>tc_ticks := tc_ticks s + length (waiting sc s)\<rparr>" by blast
  have e: "e = new_execution (ex_id e) t (wk_id w)"
    "\<exists>t'. map_of (tc_tasks s') (tk_id t) = Some t' \<and> tk_status t' = ALLOCATED \<and> mine sc t'"
    using allocate_task_Inr [OF tw(3)] by auto
  then have "ex_task e = tk_id t" by (metis new_execution_def task_execution.select_convs(2))
  with k e tw(2) s1 open' show ?thesis by (intro exI [of _ k] exI [of _ w]) simp
qed

definition queued_center :: task_center where
  "queued_center = sample_center\<lparr>tc_tasks := [(''A'', sample_task ''A'' ''w''\<lparr>tk_status := QUEUED\<rparr>),
     (''B'', sample_task ''B'' ''w''\<lparr>tk_status := QUEUED, tk_priority := CRITICAL\<rparr>)],
     tc_queues := [(''t:w:global'', [''A'', ''B''])], tc_workers := [(''W'', sample_worker ''W'')]\<rparr>"

lemma queued_dispatchable: "dispatchable (sample_scope ''w'') (tc_queues queued_center) = [''A'', ''B'']"
  by (simp add: dispatchable_def queued_center_def sample_scope_def suffix_def)

lemma queued_dispatch:
  "\<exists>e s'. dispatch_next (sample_scope ''w'') queued_center = (Inr (Some e), s') \<and> ex_task e = ''B''"
proof -
  have "choose_task (sample_scope ''w'') queued_center =
      (Inr (Some (sample_task ''B'' ''w''\<lparr>tk_status := QUEUED, tk_priority := CRITICAL\<rparr>)),
       queued_center\<lparr>tc_ticks := 2\<rparr>)"
    unfolding choose_task_def dispatch_candidates_def
    by (simp add: act_steps queued_dispatchable)
      (simp add: act_steps queued_center_def sample_center_def sample_task_env_def sample_task_def
        key_greater_def effective_priority_def)
  then show ?thesis
    unfolding dispatch_next_def
    by (simp add: act_steps act_bind_def [of "choose_task _"])
      (simp add: act_steps queued_center_def sample_center_def sample_task_env_def sample_task_def sample_worker_def
        running_count_def default_limits_def suits_def worker_available_def allocate_task_def reserve_def
        plus_seconds_def min_instant_def max_instant_def one_second_def new_execution_def task_evals
        secret_markers_def Let_def)
qed

lemma dispatch_selects_best_witness:
  "\<exists>e s'. dispatch_next (sample_scope ''w'') queued_center = (Inr (Some e), s')
    \<and> map_option tk_status (map_of (tc_tasks s') (ex_task e)) = Some ALLOCATED"
  using queued_dispatch dispatch_selects_best [of "sample_scope ''w''" queued_center] by fastforce

subsection \<open>The gates of an execution\<close>

text \<open>What has to hold before the port of a task is called.\<close>

definition gate_open :: "string \<Rightarrow> task_scope \<Rightarrow> task_center \<Rightarrow> bool" where
  "gate_open x sc s \<longleftrightarrow> \<not> tc_kill_switch s \<and>
     (\<exists>e t. map_of (tc_executions s) x = Some e \<and> map_of (tc_tasks s) (ex_task e) = Some t
       \<and> ex_tenant e = sc_tenant sc \<and> ex_workspace e = sc_workspace sc
       \<and> tk_status t = ALLOCATED
       \<and> (tk_type t \<in> {PUBLISHING_JOB, INTERACTION_TASK} \<longrightarrow> tk_approval t \<noteq> '''')
       \<and> \<not> flagged (tk_metadata t) ''restriction_active'' \<and> \<not> flagged (tk_metadata t) ''challenge_active'')"

text \<open>C38: an execution reaches a port only if the kill switch is off, the caller is in the workspace, the task
  is ALLOCATED, a publishing or interaction task has an approval, and no restriction or challenge is
  flagged. Otherwise the result and the state are the same whatever the ports do.\<close>

theorem gated_execution_ignores_ports:
  assumes "\<not> gate_open x sc s"
  shows "execute_task ports x sc s = execute_task ports' x sc s"
  using assms unfolding gate_open_def execute_task_def restricted_def
  by (auto simp: act_steps split: option.splits)

definition publishing_center :: task_center where
  "publishing_center = sample_center\<lparr>tc_tasks := [(''A'', sample_task ''A'' ''w''\<lparr>tk_status := ALLOCATED, tk_type := PUBLISHING_JOB\<rparr>)],
     tc_executions := [(''x'', new_execution ''x'' (sample_task ''A'' ''w'') ''W'')]\<rparr>"

definition raising_ports :: "string \<Rightarrow> task_port" where
  "raising_ports name = \<lparr>po_preflight = (\<lambda>t sc. act_raise (OtherError ''port called'')),
     po_execute = (\<lambda>t sc. act_raise (OtherError ''port called''))\<rparr>"

lemma gated_execution_ignores_ports_witness:
  "execute_task raising_ports ''x'' (sample_scope ''w'') publishing_center =
   execute_task (ports_of []) ''x'' (sample_scope ''w'') publishing_center"
  by (rule gated_execution_ignores_ports)
    (auto simp: gate_open_def publishing_center_def new_execution_def sample_task_def)

subsection \<open>Where the code departs from its intention\<close>

text \<open>A failure of an execution whose attempt is below the maximum is retried. Every dispatch makes a new
  execution with attempt 1, and only the attempt of the old one is increased: with a maximum of two or
  more the budget is never used up, and no such task reaches the dead-letter queue.\<close>

definition queue_same :: "string \<Rightarrow> task_center \<Rightarrow> task_center \<Rightarrow> bool" where
  "queue_same k s s' \<longleftrightarrow> dict_get (tc_queues s') k [] = dict_get (tc_queues s) k []"

interpretation queue_same: frame_law "queue_same k" for k
  by unfold_locales (auto simp: queue_same_def tiny_def)

lemma queue_same_modify: "(\<And>s. tc_queues (f s) = tc_queues s) \<Longrightarrow> keeps (queue_same k) (act_modify f)"
  by (simp add: keeps_def queue_same_def act_modify_def)

lemma queue_same_append: "k' \<noteq> k \<Longrightarrow> keeps (queue_same k) (append_queue k' i)"
  by (simp add: keeps_def queue_same_def append_queue_def act_modify_def)

lemma queue_same_updates:
  "keeps (queue_same k) (update_task i f)" "keeps (queue_same k) (update_execution i g)"
  "keeps (queue_same k) (update_worker i h)"
  unfolding update_task_def update_execution_def update_worker_def by (intro queue_same_modify; simp)+

lemma queue_same_steps:
  "keeps (queue_same k) (join_rotation w)" "keeps (queue_same k) (move_task i st sc)"
  "keeps (queue_same k) (release_execution e)" "keeps (queue_same k) (file_failure e t c m)"
  unfolding join_rotation_def move_task_def release_execution_def file_failure_def
  by (intro keeps_intros queue_same_modify queue_same_updates; simp)+

lemma queue_same_enqueue:
  assumes "q \<noteq> ''dead_letter''"
  shows "keeps (queue_same (queue_key (sc_tenant sc) (sc_workspace sc) ''dead_letter'')) (enqueue_task i sc q)"
proof -
  let ?k = "queue_key (sc_tenant sc) (sc_workspace sc) ''dead_letter''"
  define go where "go q' = act_seq (move_task i QUEUED sc)
      (act_seq (act_all [append_queue (queue_key (sc_tenant sc) (sc_workspace sc) q') i,
          join_rotation (sc_tenant sc, sc_workspace sc),
          metric_increment ''tiktok_scheduler_queued_total'', update_queue_metric])
        (act_lookup tc_tasks i))" for q'
  have "keeps (queue_same ?k) (go q')" if "q' \<noteq> ''dead_letter''" for q'
    using that unfolding go_def
    by (intro keeps_intros queue_same_steps queue_same_append) (simp add: queue_key_def)
  then have same: "dict_get (tc_queues (snd (go q' s))) ?k [] = dict_get (tc_queues s) ?k []"
    if "q' \<noteq> ''dead_letter''" for q' s
    using that unfolding keeps_def queue_same_def by blast
  define wait where "wait t = act_bind (delay_start t q) go" for t
  have wait: "keeps (queue_same ?k) (wait t)" for t
    unfolding wait_def
  proof (rule keepsI)
    fix s :: task_center
    show "queue_same ?k s (snd (act_bind (delay_start t q) go s))"
      using same [OF assms] same [of "''delayed''"]
      by (auto simp: queue_same_def delay_start_def act_steps split: option.splits)
  qed
  show ?thesis
    unfolding enqueue_task_def go_def [symmetric] wait_def [symmetric] by (intro keeps_intros wait)
qed

lemma unfinished_budget_not_buried:
  assumes "map_of (tc_executions s) x = Some e" "map_of (tc_tasks s) (ex_task e) = Some t"
    and "ex_attempt e < tr_maximum_attempts (tk_retry t)" "category \<in> tr_categories (tk_retry t)"
  shows "dict_get (tc_queues (snd (fail_execution x category detail sc s)))
      (queue_key (sc_tenant sc) (sc_workspace sc) ''dead_letter'') []
    = dict_get (tc_queues s) (queue_key (sc_tenant sc) (sc_workspace sc) ''dead_letter'') []"
proof -
  let ?k = "queue_key (sc_tenant sc) (sc_workspace sc) ''dead_letter''"
  have delayed: "keeps (queue_same ?k) (act_modify (\<lambda>s. s\<lparr>tc_delayed := AList.update i d (tc_delayed s)\<rparr>))" for i d
    by (rule queue_same_modify) simp
  have "keeps (queue_same ?k) (retry_or_bury e t True sc)"
    unfolding retry_or_bury_def using assms(3)
    by (simp, intro keeps_intros queue_same_steps queue_same_updates queue_same_enqueue delayed) simp
  moreover define retry where "retry = retry_or_bury e t True sc"
  ultimately have retry: "keeps (queue_same ?k) retry" by simp
  let ?rest = "act_seq (act_all
       [file_failure e t category detail,
        update_execution x (\<lambda>e. e\<lparr>ex_status := FAILED\<rparr>),
        act_bind utcnow (\<lambda>now. update_execution x (\<lambda>e. e\<lparr>ex_finished := Some now\<rparr>))])
    (act_seq (move_task (tk_id t) FAILED sc)
    (act_seq (act_all
       [metric_increment ''tiktok_scheduler_failed_total'', release_execution e, retry,
        record_audit sc ''execution.failed'' (ex_id e) (failure_value category)])
     (act_lookup tc_executions x)))"
  have "keeps (queue_same ?k) ?rest"
    by (intro keeps_intros queue_same_steps queue_same_updates retry)
  from keepsD [OF this, of s] show ?thesis
    using assms(1,2,4) unfolding fail_execution_def queue_same_def
    by (auto simp: act_steps retry_def in_scope_def act_check_def
        act_seq_def [of "in_scope _ _ _"] act_bind_def [of "in_scope _ _ _"] act_return_def act_raise_def)
qed

text \<open>The retry queue is read by the dispatch whatever the delay of its tasks: only a queue called
  \<open>delayed\<close> is skipped.\<close>

lemma retry_dispatched_at_once:
  "dispatchable sc [(queue_key (sc_tenant sc) (sc_workspace sc) ''retry'', [i])] = [i]"
  by (simp add: dispatchable_def queue_key_def suffix_def append_eq_append_conv2)

text \<open>A workspace whose name extends another by a colon has its queues read by the dispatch of the other.\<close>

lemma prefixed_workspace_dispatched:
  "dispatchable \<lparr>sc_tenant = ''t'', sc_workspace = ''w'', sc_actor = ''a'', sc_permissions = {}\<rparr>
     [(queue_key ''t'' ''w:x'' ''global'', [i])] = [i]"
  by (simp add: dispatchable_def queue_key_def suffix_def)

text \<open>\<open>fail\<close> asks for no permission before it changes the execution: a caller of the workspace who may not
  write marks the execution FAILED and then gets the exception, with the task where it was.\<close>

lemma fail_without_permission:
  assumes "map_of (tc_executions s) x = Some e" "map_of (tc_tasks s) (ex_task e) = Some t"
    and "ex_tenant e = sc_tenant sc" "ex_workspace e = sc_workspace sc"
    and "''tiktok:scheduler:write'' \<notin> sc_permissions sc" "''tiktok:scheduler:admin'' \<notin> sc_permissions sc"
  shows "\<exists>m. fst (fail_execution x category detail sc s) = Inl (PermissionError m)"
    and "map_option ex_status (map_of (tc_executions (snd (fail_execution x category detail sc s))) x) = Some FAILED"
    and "tc_tasks (snd (fail_execution x category detail sc s)) = tc_tasks s"
  using assms
  by (simp_all add: fail_execution_def file_failure_def update_execution_def move_task_def act_steps
      map_of_map_entry)

text \<open>A caller with the permission to execute but not to write takes a slot of the worker and a task out of
  its queue before the transition is refused.\<close>

lemma dispatch_leaks_slot:
  assumes "''tiktok:scheduler:write'' \<notin> sc_permissions sc" "''tiktok:scheduler:admin'' \<notin> sc_permissions sc"
    and "map_of (tc_workers s) (wk_id w) = Some w"
    and "plus_seconds (te_clock (tc_env s) (tc_ticks s)) (lm_reservation_seconds (tc_limits s)) = Inr d"
  shows "\<exists>m. fst (allocate_task t w sc s) = Inl (PermissionError m)"
    and "map_option wk_load (map_of (tc_workers (snd (allocate_task t w sc s))) (wk_id w)) = Some (wk_load w + 1)"
    and "tc_queues (snd (allocate_task t w sc s)) = remove_queued (tk_id t) (tc_queues s)"
  using assms
  by (simp_all add: allocate_task_def reserve_def update_worker_def move_task_def act_steps
      map_of_map_entry take_slot_def)

text \<open>Cancelling an execution that is cancelled already releases its worker again: the slot of another
  execution becomes free.\<close>

definition workers_same :: "task_center \<Rightarrow> task_center \<Rightarrow> bool" where
  "workers_same s s' \<longleftrightarrow> tc_workers s' = tc_workers s"

interpretation workers_same: frame_law workers_same
  by unfold_locales (auto simp: workers_same_def tiny_def)

lemma second_cancel_frees_slot:
  assumes "map_of (tc_executions s) x = Some e" "map_of (tc_tasks s) (ex_task e) = Some t"
    and "ex_status e = CANCELLED" "tk_status t = CANCELLED" "0 < wk_load w"
    and "map_of (tc_workers s) (ex_worker e) = Some w"
    and "ex_tenant e = sc_tenant sc" "ex_workspace e = sc_workspace sc"
    and "''tiktok:scheduler:admin'' \<in> sc_permissions sc"
  shows "map_option wk_load (map_of (tc_workers (snd (cancel_execution x sc s))) (ex_worker e)) = Some (wk_load w - 1)"
proof -
  let ?rest = "act_seq update_worker_metric
    (act_seq (record_audit sc ''execution.cancelled'' (ex_id e) '''') (act_lookup tc_executions x))"
  have "keeps workers_same ?rest" by (intro keeps_intros)
  then have "tc_workers (snd (?rest s')) = tc_workers s'" for s'
    unfolding keeps_def workers_same_def by blast
  then show ?thesis
    using assms
    by (simp add: cancel_execution_def update_execution_def release_execution_def update_worker_def act_when_def
        act_steps map_of_map_entry free_slot_def)
qed

text \<open>Only RuntimeError, TimeoutError and ValueError of a port become a failure. The check of the outcome
  raises TypeError for a value that JSON cannot hold: the execution and the task stay RUNNING and the
  worker keeps the slot.\<close>

definition set_ports :: "string \<Rightarrow> task_port" where
  "set_ports name = \<lparr>po_preflight = (\<lambda>t sc. act_return ()), po_execute = (\<lambda>t sc. act_return [(''tags'', VSet [])])\<rparr>"

definition allocated_center :: task_center where
  "allocated_center = sample_center\<lparr>tc_tasks := [(''A'', sample_task ''A'' ''w''\<lparr>tk_status := ALLOCATED\<rparr>)],
     tc_executions := [(''x'', new_execution ''x'' (sample_task ''A'' ''w'') ''W'')],
     tc_workers := [(''W'', sample_worker ''W''\<lparr>wk_load := 1\<rparr>)]\<rparr>"

lemma type_error_leaves_running:
  "case execute_task set_ports ''x'' (sample_scope ''w'') allocated_center of (r, s) \<Rightarrow>
     r = Inl (TypeError ''Payload values must be JSON-safe.'')
     \<and> map_option ex_status (map_of (tc_executions s) ''x'') = Some RUNNING
     \<and> map_option tk_status (map_of (tc_tasks s) ''A'') = Some RUNNING
     \<and> map_option wk_load (map_of (tc_workers s) ''W'') = Some 1"
  by (simp add: execute_task_def start_execution_def run_port_def complete_execution_def safe_payload_def
      set_ports_def restricted_def flagged_def allocated_center_def new_execution_def sample_task_def
      sample_center_def sample_task_env_def sample_worker_def act_finally_def act_catch_def stop_timer_def
      act_seq_def [of "safe_payload _"] act_bind_def [of "safe_payload _"] secret_keys_def
      update_execution_def task_evals secret_markers_def act_steps)

end
