(* ===== verification/Spec2Isabelle.thy ===== *)
theory Spec2Isabelle
  imports
    Health Circuit_Breaker Rate_Limit Retry Routing Cache Policy Scheduler
    Workflow_Runtime Workflow_Checkpoint Workflow_Engine Workflow_Resume
    Dist_Failover Dist_Local Dist_Discovery Dist_Redis Dist_Remote_Services
    Package_Models Package_Graph Package_Catalog Publication Package_Registry
    Resolver_Graph Resolver Installer
    Task_Models Task_Center Task_Laws Task_Lifecycle Task_Dependencies Task_Workers Task_Execution
begin

text \<open>
  TKAI is a Python platform for running work on external AI providers. This library models the
  resilience and workflow runtimes of the framework (\<open>src/src/tkai\<close>), the package marketplace
  (\<open>src/marketplace\<close>) and the task scheduler of the TikTok centre (\<open>src/tiktok/task_scheduler\<close>). It is
  a shallow embedding: an operation of a class is a function of the state of the object, a raised
  exception is the left summand of a sum, a published event is part of the result, and the clock, sleeping
  and calls of user code are arguments.

  Callers take turns. An operation is one step, and a theorem about sequences of operations is about whole
  calls made one after the other; two calls that overlap in time are not modelled, and no theorem speaks
  about them. Locks are therefore not modelled either. What that leaves out differs between the classes:

  \<^item> no lock at all: passive health (\<open>health/\<close>), workflows (\<open>workflow/\<close>), the lock handles
    (\<open>LocalLock\<close> of \<open>distributed/locks.py\<close>), the heartbeat and the coordinator, the cache manager and the
    router, and the task scheduler;
  \<^item> a lock that an operation leaves in between: \<open>consume\<close> of both rate limit strategies checks in one
    section and records in another (\<open>sl_record\<close>, \<open>fx_record\<close>; the lemma \<open>checks_before_records\<close>
    shows two callers past the limit), \<open>RateLimiter.consume\<close> asks twice, \<open>lookup\<close> and \<open>list\<close> of both
    service registries clean up and then read (in memory, \<open>sv_cleanup\<close> and then \<open>sv_found\<close> or
    \<open>sv_all\<close>; the lemma \<open>stored_between_sections\<close>), the failover manager and the backend health checker probe before they take
    their lock, and the managers look an object up in a registry and then call it;
  \<^item> a lock around the list of policies or of retry events only: the policy engine and the retry manager
    run user code without it;
  \<^item> a lock over the call, on a part that others can reach without it: \<open>install\<close> and \<open>rollback\<close> of the
    installer change the store record by record, and the Redis backend sends several commands to a server
    with other clients (\<open>release_can_free_foreign_lock\<close>);
  \<^item> as a rule, one section of a lock for an operation that changes state: the breaker, the in-memory cache,
    the local backend, the runtime scheduler, and the registries of the runtimes and the marketplace.
    Listeners may be called after the section.

  The parts and how they interact.

  \<^item> Provider runtimes. The passive health collector (\<open>Health\<close>) turns outcomes into a status per
    provider and events; the circuit breakers (\<open>Circuit_Breaker\<close>) consume these events and admit
    requests; rate limits (\<open>Rate_Limit\<close>) bound them; the router (\<open>Routing\<close>) reads health, breakers,
    limits and cost and selects a provider; the runtime scheduler (\<open>Scheduler\<close>) selects by a policy over
    its own breakers; retries (\<open>Retry\<close>), the read-through cache (\<open>Cache\<close>) and the policy engine
    (\<open>Policy\<close>) wrap the calls.
  \<^item> Workflows. \<open>Workflow_Runtime\<close> holds the lifecycle of a run and its dispatcher,
    \<open>Workflow_Checkpoint\<close> its checkpoints, \<open>Workflow_Engine\<close> the execution in dependency order, and
    \<open>Workflow_Resume\<close> the execution that resumes from a checkpoint.
  \<^item> Distribution. \<open>Dist_Local\<close> is the in-memory backend with its locks, membership, heartbeat and
    coordinator; \<open>Dist_Failover\<close> the probes of a backend and the failover between two; \<open>Dist_Redis\<close>
    the Redis backend over a client that is a parameter; \<open>Dist_Discovery\<close> and \<open>Dist_Remote_Services\<close>
    the two service registries, in memory and over a Redis backend.
  \<^item> Marketplace. Descriptors (\<open>Package_Models\<close>) are registered and ordered by their dependencies
    (\<open>Package_Graph\<close>), catalogued for search (\<open>Package_Catalog\<close>), validated and accepted for
    publication (\<open>Publication\<close>), entered in the registry (\<open>Package_Registry\<close>), resolved to a set of
    versions (\<open>Resolver_Graph\<close>, \<open>Resolver\<close>) and installed (\<open>Installer\<close>).
  \<^item> Task scheduler. Tasks and their validation (\<open>Task_Models\<close>) are queued, dispatched to workers, executed
    through ports, retried and recovered by one service (\<open>Task_Center\<close>), whose operations are actions: a
    state to an exception or value and a state, so that what was changed before an exception stays.
    \<open>Task_Laws\<close> proves once what all operations keep; \<open>Task_Lifecycle\<close>, \<open>Task_Dependencies\<close>,
    \<open>Task_Workers\<close> and \<open>Task_Execution\<close> hold the properties.

  Theories and code. Each theory opens with the files it models. A Python class is a record with its
  fields under a short prefix (a circuit breaker is the record \<open>breaker\<close>, its snapshot \<open>cb_snapshot\<close>),
  a method \<open>m\<close> is a definition with the prefix of the class (\<open>hc_record\<close>, \<open>rg_register\<close>, \<open>rb_get\<close>), an
  enumeration is a datatype with the constructors of the source, a dict is an association list with
  distinct keys in insertion order, a set whose order does not matter a set. \<open>TK_Prelude\<close> holds the
  vocabulary of dictionaries and instants and the contract of a registry; \<open>Py_Float\<close> holds the Python
  floats: rationals rounded to 53 bits with the infinities and NaN, their comparison, arithmetic,
  powers, and \<open>timedelta(seconds=x)\<close>. Python integers are unbounded and so are those of the model.

  Interfaces. \<open>named_registry\<close> (TK_Prelude) is the contract of the registries of the runtimes and is
  interpreted on each of them; \<open>lock_table\<close> (Dist_Local) is what lock handles rely on in a backend;
  \<open>service_directory\<close> (Dist_Discovery) is the contract of a service registry, interpreted on the
  in-memory one and proved of the one over Redis; \<open>record_store\<close> (Installer) is the store of installed
  records; \<open>frame_law\<close> and \<open>task_law\<close> (Task_Laws) are the laws of a relation that every operation of the task
  scheduler keeps, interpreted for each of its invariants. The other locales are described where they are declared. Clients' lemmas are proved in the
  locales and reach the properties through the interpretations.

  What the lemmas show. For every component an invariant of the state and its preservation by every
  operation, hence by every sequence of operations; then the behaviour of the operations: breakers trip,
  reject and recover as configured (unless the end of the open duration is beyond the last datetime), the
  requests accepted since the last reset keep the limits of the sliding window while the limits stay the same,
  retries are the ones of the budget, the
  router and the scheduler select the best eligible provider and take turns fairly, the cache and the
  registries implement tables with expiry, runs and checkpoints restore, execution respects dependencies
  and terminates, publications comply, resolution is sound, complete about what is missing, and
  closed, installation is all or nothing and can be rolled back, lock handles of different owners exclude each
  other, failover follows the streaks of probes, and the Redis implementations agree with the in-memory ones
  from an empty, reliable server on, for values and names the code can represent. For the task
  scheduler: tasks follow the table of transitions, workspaces are isolated, admission limits hold, and worker loads too when
  no worker is registered above its capacity, dependencies stay acyclic, a dispatch takes the best task of the
  queues it reads, and gated executions reach no port. Where the code
  departs from what it means to do, a lemma evaluates the case, next to the property it limits.

  Bounds and fuel. Recursion is structural wherever the code iterates over a list. Two searches of the
  marketplace recurse on a graph with fuel: the topological order takes \<open>topo_fuel\<close>, one more than the
  number of nodes, and the expansion of requirements takes \<open>resolve_fuel\<close>, one more than the number of
  candidates, because a selected identity is never expanded twice; the theories prove that these are
  enough, and that with them the functions return. The loops of the workflow executor are bounded by the
  number of pending steps, since every round settles one or stops. The attempts of the Redis backend are
  bounded by the configured budget. The searches over task dependencies terminate by the number of tasks not
  seen yet; Python's limit on the depth of recursion is not modelled.

  Not modelled. Threads, asyncio and sleeping (a periodic worker is a caller of the operation it repeats,
  the concurrent schedules of the workflow engine are left out); dictionary exports (\<open>to_dict\<close>) except
  where they are read back; digests, memory estimates and the text of JSON; telemetry; the HTTP clients of
  the AI providers; the FastAPI server and its database; the desktop and web front ends; the other
  business centres under \<open>src/tiktok\<close>, the versioned platforms \<open>v7\<close> to \<open>v12\<close> and the other top-level platform
  packages, which repeat the registry, validator and service pattern of the marketplace in many variants
  and are left out for their size. \<open>str.casefold\<close>, \<open>isoformat\<close>, \<open>fromisoformat\<close>, the JSON codec and
  the Redis client are parameters, and so are the base classes of the exceptions that handlers raise, the
  ports of the task scheduler, SHA-256 and the size of JSON text; what is assumed of them is named in the
  theorem (\<open>codec\<close> on the values that are stored, \<open>reliable\<close>, \<open>setting\<close> with instants of the years a
  datetime has and records without repeated keys, \<open>ports_keep\<close>) and instantiated in its witness.
\<close>

end
